(* ===== verification/Prelude.thy ===== *)
theory Prelude imports Main "HOL-Library.List_Lexorder" "HOL-Library.Char_ord" begin

text \<open>
  Shared vocabulary of the development.

  The server keeps its state in PostgreSQL tables.  A table is modelled as the list of its rows in
  insertion order; this theory holds the statement shapes the repositories use (select by key,
  conditional update with its RETURNING rows, conditional delete, insert of the next number of a
  history), the transaction wrapper that rolls a failed use case back, and the lemmas about them
  that every component proof shares.  It also states, as locales, the contracts several components
  rely on: optimistic version claims, numbered histories, single-use transitions and guarded use
  cases.  Every locale is interpreted on the code's own operations in the component that owns them.
\<close>

section \<open>Names shared by all components\<close>

text \<open>
  Entity identifiers are opaque strings (UUIDs in the code).  An instant is a number of
  milliseconds since the epoch: the code's ISO-8601 strings and \<open>Date\<close> values denote instants, and
  only their order and differences are used.
\<close>

type_synonym eid = string
type_synonym instant = int

named_theorems table_simps \<open>rewriting of table statements\<close>
named_theorems guard_simps \<open>unfolding of the authorisation guards\<close>

section \<open>Options and strings\<close>

definition coalesce :: "'a option \<Rightarrow> 'a \<Rightarrow> 'a" where
  "coalesce x d = (case x of None \<Rightarrow> d | Some v \<Rightarrow> v)"

lemma coalesce_simps [simp]: "coalesce None d = d" "coalesce (Some v) d = v"
  by (simp_all add: coalesce_def)

text \<open>JavaScript whitespace, restricted to ASCII (strings are read as their UTF-8 bytes).\<close>

definition is_space :: "char \<Rightarrow> bool" where
  "is_space c \<longleftrightarrow> c \<in> {CHR '' '', CHR 0x09, CHR 0x0A, CHR 0x0B, CHR 0x0C, CHR 0x0D}"

definition trim :: "string \<Rightarrow> string" where
  "trim s = rev (dropWhile is_space (rev (dropWhile is_space s)))"

definition blank :: "string \<Rightarrow> bool" where
  "blank s \<longleftrightarrow> trim s = []"

lemma blank_iff: "blank s \<longleftrightarrow> (\<forall>c \<in> set s. is_space c)"
proof -
  have "blank s \<longleftrightarrow> (\<forall>c \<in> set (dropWhile is_space s). is_space c)"
    by (simp add: blank_def trim_def)
  also have "\<dots> \<longleftrightarrow> (\<forall>c \<in> set s. is_space c)"
    by (induction s) auto
  finally show ?thesis .
qed

lemma blank_Nil [simp]: "blank []"
  by (simp add: blank_def trim_def)

lemma dropWhile_fixed: "s = [] \<or> \<not> P (hd s) \<Longrightarrow> dropWhile P s = s"
  by (cases s) auto

lemma hd_dropWhile_not: "dropWhile P s \<noteq> [] \<Longrightarrow> \<not> P (hd (dropWhile P s))"
  by (induction s) auto

lemma trim_trim [simp]: "trim (trim s) = trim s"
proof -
  define t where "t = dropWhile is_space s"
  define u where "u = dropWhile is_space (rev t)"
  have u: "u = [] \<or> \<not> is_space (hd u)"
    using hd_dropWhile_not unfolding u_def by blast
  have "dropWhile is_space (rev u) = rev u"
  proof (cases "u = []")
    case True
    then show ?thesis by simp
  next
    case False
    obtain ys where ys: "rev t = ys @ u"
      unfolding u_def by (metis takeWhile_dropWhile_id)
    with False have "t \<noteq> []" and "last u = last (rev t)" by auto
    then have "hd t = last u" by (simp add: last_rev)
    moreover from \<open>t \<noteq> []\<close> have "\<not> is_space (hd t)"
      using hd_dropWhile_not unfolding t_def by blast
    ultimately have "\<not> is_space (hd (rev u))" using False by (simp add: hd_rev)
    then show ?thesis by (intro dropWhile_fixed) simp
  qed
  with u show ?thesis
    by (simp add: trim_def flip: t_def u_def) (simp add: dropWhile_fixed)
qed

lemma blank_trim [simp]: "blank (trim s) \<longleftrightarrow> blank s"
  by (simp add: blank_def)

section \<open>Tables\<close>

definition lookup :: "('r \<Rightarrow> 'k) \<Rightarrow> 'k \<Rightarrow> 'r list \<Rightarrow> 'r option" where
  "lookup key k t = find (\<lambda>r. key r = k) t"

definition update_where :: "('r \<Rightarrow> bool) \<Rightarrow> ('r \<Rightarrow> 'r) \<Rightarrow> 'r list \<Rightarrow> 'r list" where
  "update_where p f t = map (\<lambda>r. if p r then f r else r) t"

text \<open>The rows an \<open>UPDATE ... WHERE ... RETURNING\<close> statement hands back.\<close>

definition returning :: "('r \<Rightarrow> bool) \<Rightarrow> ('r \<Rightarrow> 'r) \<Rightarrow> 'r list \<Rightarrow> 'r list" where
  "returning p f t = map f (filter p t)"

definition delete_where :: "('r \<Rightarrow> bool) \<Rightarrow> 'r list \<Rightarrow> 'r list" where
  "delete_where p t = filter (\<lambda>r. \<not> p r) t"

text \<open>Destructuring the first returned row, as \<open>const [row] = await ...\<close> does.\<close>

definition first_row :: "'r list \<Rightarrow> 'r option" where
  "first_row t = (case t of [] \<Rightarrow> None | r # _ \<Rightarrow> Some r)"

lemma lookup_Nil [simp]: "lookup key k [] = None"
  by (simp add: lookup_def)

lemma lookup_Cons [simp]:
  "lookup key k (r # t) = (if key r = k then Some r else lookup key k t)"
  by (simp add: lookup_def)

lemma update_where_Nil [simp]: "update_where p f [] = []"
  by (simp add: update_where_def)

lemma update_where_Cons [simp]:
  "update_where p f (r # t) = (if p r then f r else r) # update_where p f t"
  by (simp add: update_where_def)

lemma update_where_append [simp]:
  "update_where p f (t @ u) = update_where p f t @ update_where p f u"
  by (simp add: update_where_def)

lemma length_update_where [simp]: "length (update_where p f t) = length t"
  by (simp add: update_where_def)

lemma set_update_where: "set (update_where p f t) = (\<lambda>r. if p r then f r else r) ` set t"
  by (simp add: update_where_def)

lemma update_where_none: "(\<And>r. r \<in> set t \<Longrightarrow> \<not> p r) \<Longrightarrow> update_where p f t = t"
  by (induction t) auto

lemma map_key_update_where:
  "(\<And>r. key (f r) = key r) \<Longrightarrow> map key (update_where p f t) = map key t"
  by (induction t) auto

lemma map_key_update_where_on:
  "(\<And>r. r \<in> set t \<Longrightarrow> p r \<Longrightarrow> key (f r) = key r) \<Longrightarrow> map key (update_where p f t) = map key t"
  by (induction t) auto

lemma image_key_update_where [simp]:
  "(\<And>r. key (f r) = key r) \<Longrightarrow> key ` set (update_where p f t) = key ` set t"
  by (metis list.set_map map_key_update_where)

lemma filter_update_where:
  "(\<And>r. q (f r) = q r) \<Longrightarrow> filter q (update_where p f t) = update_where p f (filter q t)"
  by (induction t) auto

lemma lookup_append [simp]:
  "lookup key k (t @ u) = (case lookup key k t of None \<Rightarrow> lookup key k u | Some r \<Rightarrow> Some r)"
  by (induction t) auto

lemma lookup_SomeD: "lookup key k t = Some r \<Longrightarrow> r \<in> set t \<and> key r = k"
  by (auto simp: lookup_def find_Some_iff)

lemma lookup_None_iff: "lookup key k t = None \<longleftrightarrow> k \<notin> key ` set t"
  by (auto simp: lookup_def find_None_iff)

lemma lookup_Some_iff:
  "distinct (map key t) \<Longrightarrow> lookup key k t = Some r \<longleftrightarrow> r \<in> set t \<and> key r = k"
  by (induction t) (auto simp: image_iff)

lemma lookup_update_where:
  assumes "\<And>r. key (f r) = key r"
  shows "lookup key k (update_where p f t) =
    map_option (\<lambda>r. if p r then f r else r) (lookup key k t)"
  using assms by (induction t) auto

lemma lookup_update_key:
  assumes "\<And>r. key (f r) = key r"
  shows "lookup key k (update_where (\<lambda>r. key r = k') f t) =
    (if k = k' then map_option f (lookup key k t) else lookup key k t)"
  using assms by (induction t) auto

lemma lookup_delete_where:
  "(\<And>r. r \<in> set t \<Longrightarrow> key r = k \<Longrightarrow> \<not> p r) \<Longrightarrow> lookup key k (delete_where p t) = lookup key k t"
  by (induction t) (auto simp: delete_where_def)

lemma set_delete_where: "set (delete_where p t) = {r \<in> set t. \<not> p r}"
  by (auto simp: delete_where_def)

lemma delete_where_none: "(\<And>r. r \<in> set t \<Longrightarrow> \<not> p r) \<Longrightarrow> delete_where p t = t"
  by (simp add: delete_where_def)

lemma distinct_delete_where: "distinct (map key t) \<Longrightarrow> distinct (map key (delete_where p t))"
  by (simp add: delete_where_def distinct_map_filter)

lemma first_row_simps [simp]: "first_row [] = None" "first_row (r # t) = Some r"
  by (simp_all add: first_row_def)

lemma first_row_None_iff [simp]: "first_row t = None \<longleftrightarrow> t = []"
  by (cases t) simp_all

lemma first_row_returning_Some:
  "first_row (returning p f t) = Some r' \<Longrightarrow> \<exists>r \<in> set t. p r \<and> r' = f r"
  by (induction t) (auto simp: returning_def first_row_def split: if_splits)

lemma returning_key_lookup:
  assumes "distinct (map key t)"
  shows "first_row (returning (\<lambda>r. key r = k \<and> q r) f t) =
    (case lookup key k t of None \<Rightarrow> None | Some r \<Rightarrow> if q r then Some (f r) else None)"
  using assms
proof (induction t)
  case Nil
  then show ?case by (simp add: returning_def)
next
  case (Cons a t)
  show ?case
  proof (cases "key a = k")
    case True
    with Cons.prems have "filter (\<lambda>r. key r = k \<and> q r) t = []"
      by (auto simp: filter_empty_conv image_iff)
    with True show ?thesis by (simp add: returning_def)
  next
    case False
    with Cons show ?thesis by (simp add: returning_def)
  qed
qed

lemma returning_empty_update: "returning p f t = [] \<Longrightarrow> update_where p f t = t"
  by (rule update_where_none) (auto simp: returning_def filter_empty_conv)

lemmas table_sets = set_update_where set_delete_where
lemmas table_lookup = lookup_update_where lookup_update_key lookup_None_iff

section \<open>Numbered histories\<close>

text \<open>\<open>select coalesce(max(no), 0) + 1\<close>\<close>

definition next_no :: "nat list \<Rightarrow> nat" where
  "next_no ns = foldr max ns 0 + 1"

definition gapless :: "nat list \<Rightarrow> bool" where
  "gapless ns \<longleftrightarrow> ns = [1..<length ns + 1]"

lemma next_no_gt: "n \<in> set ns \<Longrightarrow> n < next_no ns"
  by (induction ns) (auto simp: next_no_def)

lemma foldr_max_upt: "foldr max [1..<n + 1] 0 = n"
proof (induction n)
  case 0
  then show ?case by simp
next
  case (Suc n)
  have shift: "foldr max xs k = max (foldr max xs 0) k" for xs and k :: nat
    by (induction xs) auto
  show ?case using Suc.IH shift [of "[1..<n + 1]" "Suc n"] by simp
qed

lemma next_no_gapless: "gapless ns \<Longrightarrow> next_no ns = length ns + 1"
  unfolding gapless_def next_no_def by (metis foldr_max_upt)

lemma gapless_append_next: "gapless ns \<Longrightarrow> gapless (ns @ [next_no ns])"
  using next_no_gapless [of ns] by (simp add: gapless_def)

lemma gapless_Nil [simp]: "gapless []"
  by (simp add: gapless_def)

lemma gapless_distinct: "gapless ns \<Longrightarrow> distinct ns"
  unfolding gapless_def by (metis distinct_upt)

lemma gapless_positive: "gapless ns \<Longrightarrow> n \<in> set ns \<Longrightarrow> 0 < n"
  unfolding gapless_def by (metis atLeastLessThan_iff less_le_trans set_upt zero_less_one)

section \<open>Use cases and transactions\<close>

text \<open>
  A use case maps a state to its result, an error (\<open>Inl\<close>) or a value (\<open>Inr\<close>), and the state it
  leaves.  \<open>transaction\<close> is \<open>getDatabase().transaction(...)\<close>: a callback that throws is rolled
  back.
\<close>

type_synonym ('e, 'a, 's) run = "('e + 'a) \<times> 's"

definition transaction :: "('s \<Rightarrow> ('e, 'a, 's) run) \<Rightarrow> 's \<Rightarrow> ('e, 'a, 's) run" where
  "transaction f s = (case f s of (Inl e, _) \<Rightarrow> (Inl e, s) | (Inr a, s') \<Rightarrow> (Inr a, s'))"

lemma transaction_Inl: "transaction f s = (Inl e, s') \<Longrightarrow> s' = s"
  by (auto simp: transaction_def split: prod.splits sum.splits)

lemma transaction_Inr [simp]: "transaction f s = (Inr a, s') \<longleftrightarrow> f s = (Inr a, s')"
  by (auto simp: transaction_def split: prod.splits sum.splits)

lemma transaction_fst [simp]: "fst (transaction f s) = fst (f s)"
  by (auto simp: transaction_def split: prod.splits sum.splits)

lemma transaction_error: "transaction f s = (Inl e, s) \<longleftrightarrow> (\<exists>s'. f s = (Inl e, s'))"
  by (auto simp: transaction_def split: prod.splits sum.splits)

text \<open>A property that the start state has and every successful run keeps survives a transaction.\<close>

lemma transaction_inv:
  "P s \<Longrightarrow> (\<And>a s'. f s = (Inr a, s') \<Longrightarrow> P s') \<Longrightarrow> P (snd (transaction f s))"
  by (auto simp: transaction_def split: prod.splits sum.splits)

definition is_ok :: "('e, 'a, 's) run \<Rightarrow> bool" where
  "is_ok r \<longleftrightarrow> (case fst r of Inl _ \<Rightarrow> False | Inr _ \<Rightarrow> True)"

lemma is_ok_simps [simp]: "is_ok (Inr a, s)" "\<not> is_ok (Inl e, s)"
  by (simp_all add: is_ok_def)

section \<open>Contracts shared by several components\<close>

text \<open>
  Optimistic concurrency: a claim names the version it has read and succeeds only while that
  version is still current, raising it by one.  Of any number of writers that read the same
  version, one wins.
\<close>

locale versioned =
  fixes version :: "'s \<Rightarrow> 'k \<Rightarrow> nat option"
    and claim :: "'s \<Rightarrow> 'k \<Rightarrow> nat \<Rightarrow> nat option \<times> 's"
    and valid :: "'s \<Rightarrow> bool"
  assumes claim_hit: "valid s \<Longrightarrow> version s k = Some v \<Longrightarrow>
      fst (claim s k v) = Some (Suc v) \<and> version (snd (claim s k v)) k = Some (Suc v)"
    and claim_miss: "valid s \<Longrightarrow> version s k \<noteq> Some v \<Longrightarrow> claim s k v = (None, s)"
    and claim_valid: "valid s \<Longrightarrow> valid (snd (claim s k v))"
    and claim_other: "valid s \<Longrightarrow> k' \<noteq> k \<Longrightarrow> version (snd (claim s k v)) k' = version s k'"
begin

lemma claim_SomeD:
  "valid s \<Longrightarrow> claim s k v = (Some w, s') \<Longrightarrow>
    version s k = Some v \<and> w = Suc v \<and> version s' k = Some (Suc v) \<and> valid s'"
  using claim_hit [of s k v] claim_miss [of s k v] claim_valid [of s k v] by fastforce

lemma stale_claim_fails:
  assumes "valid t" and "version t k = Some w" and "v < w"
  shows "claim t k v = (None, t)"
  using assms claim_miss [of t k v] by simp

lemma second_claim_fails:
  assumes "valid s" and "claim s k v = (Some w, s')"
  shows "claim s' k v = (None, s')"
  using claim_SomeD [OF assms] by (intro stale_claim_fails) auto

primrec claims :: "'s \<Rightarrow> ('k \<times> nat) list \<Rightarrow> ('k \<times> nat) list" where
  "claims s [] = []"
| "claims s (kv # kvs) =
    (case claim s (fst kv) (snd kv) of (r, s') \<Rightarrow>
      (if r = None then claims s' kvs else kv # claims s' kvs))"

lemma claims_versions:
  assumes "valid s" and "(k, v) \<in> set (claims s kvs)" and "version s k = Some u"
  shows "u \<le> v"
  using assms
proof (induction kvs arbitrary: s u)
  case Nil
  then show ?case by simp
next
  case (Cons kv kvs)
  obtain k' v' where kv: "kv = (k', v')" by fastforce
  obtain r s' where c: "claim s k' v' = (r, s')" by fastforce
  have val: "valid s'" using claim_valid [OF Cons.prems(1), of k' v'] c by simp
  show ?case
  proof (cases r)
    case None
    then have "s' = s" using c claim_hit [OF Cons.prems(1), of k' v'] claim_miss [OF Cons.prems(1), of k' v']
      by fastforce
    with None Cons c kv show ?thesis by simp
  next
    case (Some w)
    note d = claim_SomeD [OF Cons.prems(1), of k' v' w s'] 
    show ?thesis
    proof (cases "k = k'")
      case True
      with d c Some Cons.prems(3) have "u = v'" and "version s' k = Some (Suc v')" by auto
      with Cons.IH [OF val _ this(2)] Cons.prems(2) c kv Some True show ?thesis by auto
    next
      case False
      with claim_other [OF Cons.prems(1), of k k' v'] c Cons.prems(3)
      have "version s' k = Some u" by simp
      with Cons.IH [OF val _ this] Cons.prems(2) c kv Some False show ?thesis by auto
    qed
  qed
qed

text \<open>However the claims of many writers interleave, no version is ever claimed twice.\<close>

lemma claims_distinct:
  "valid s \<Longrightarrow> distinct (claims s kvs)"
proof (induction kvs arbitrary: s)
  case Nil
  then show ?case by simp
next
  case (Cons kv kvs)
  obtain k v where kv: "kv = (k, v)" by fastforce
  obtain r s' where c: "claim s k v = (r, s')" by fastforce
  have val: "valid s'" using claim_valid [OF Cons.prems, of k v] c by simp
  show ?case
  proof (cases r)
    case None
    with Cons.IH [OF val] c kv show ?thesis by simp
  next
    case (Some w)
    with claim_SomeD [OF Cons.prems, of k v w s'] c have "version s' k = Some (Suc v)" by simp
    with claims_versions [OF val, of k v kvs] have "(k, v) \<notin> set (claims s' kvs)" by fastforce
    with Cons.IH [OF val] c kv Some show ?thesis by simp
  qed
qed

end

text \<open>
  A numbered history: rows are only ever appended, each with the next number of its owner.
\<close>

locale numbered_history =
  fixes rows :: "'s \<Rightarrow> 'r list"
    and owner :: "'r \<Rightarrow> 'k"
    and number :: "'r \<Rightarrow> nat"
    and push :: "'s \<Rightarrow> 'd \<Rightarrow> 's"
    and target :: "'d \<Rightarrow> 'k"
  assumes push_rows: "\<exists>r. rows (push s d) = rows s @ [r] \<and> owner r = target d \<and>
      number r = next_no (map number (filter (\<lambda>x. owner x = target d) (rows s)))"
begin

definition numbers :: "'s \<Rightarrow> 'k \<Rightarrow> nat list" where
  "numbers s k = map number (filter (\<lambda>x. owner x = k) (rows s))"

definition wf_numbers :: "'s \<Rightarrow> bool" where
  "wf_numbers s \<longleftrightarrow> (\<forall>k. gapless (numbers s k))"

lemma numbers_push:
  "numbers (push s d) k = numbers s k @ (if k = target d then [next_no (numbers s k)] else [])"
  using push_rows [of s d] by (auto simp: numbers_def)

lemma push_gapless: "wf_numbers s \<Longrightarrow> wf_numbers (push s d)"
  by (auto simp: wf_numbers_def numbers_push gapless_append_next)

lemma push_keeps: "\<exists>r. rows (push s d) = rows s @ [r]"
  using push_rows by blast

lemma unique_number:
  assumes "wf_numbers s" and "r \<in> set (rows s)" and "r' \<in> set (rows s)"
    and "owner r = owner r'" and "number r = number r'"
    and "distinct (rows s)"
  shows "r = r'"
proof -
  from assms(1) have "distinct (numbers s (owner r))"
    by (auto simp: wf_numbers_def intro: gapless_distinct)
  then have "inj_on number {x \<in> set (rows s). owner x = owner r}"
    by (simp add: numbers_def distinct_map)
  with assms(2-5) show ?thesis by (auto dest: inj_onD)
qed

end

text \<open>
  A single-use transition: a conditional update that marks its key as spent.  Whatever the
  interleaving of requests for a key, at most one of them owns the transition.
\<close>

locale one_shot =
  fixes fire :: "'s \<Rightarrow> 'k \<Rightarrow> 'e \<Rightarrow> bool \<times> 's"
    and spent :: "'s \<Rightarrow> 'k \<Rightarrow> bool"
  assumes fire_spends: "fst (fire s k e) \<Longrightarrow> spent (snd (fire s k e)) k"
    and spent_blocks: "spent s k \<Longrightarrow> \<not> fst (fire s k e)"
    and spent_stays: "spent s k \<Longrightarrow> spent (snd (fire s k' e)) k"
begin

primrec wins :: "'s \<Rightarrow> 'k \<Rightarrow> ('k \<times> 'e) list \<Rightarrow> nat" where
  "wins s k [] = 0"
| "wins s k (x # xs) =
    (if fst x = k \<and> fst (fire s (fst x) (snd x)) then 1 else 0)
      + wins (snd (fire s (fst x) (snd x))) k xs"

lemma spent_no_wins: "spent s k \<Longrightarrow> wins s k xs = 0"
  by (induction xs arbitrary: s) (auto simp: spent_blocks spent_stays)

lemma at_most_one_win: "wins s k xs \<le> 1"
proof (induction xs arbitrary: s)
  case Nil
  then show ?case by simp
next
  case (Cons x xs)
  show ?case
  proof (cases "fst x = k \<and> fst (fire s (fst x) (snd x))")
    case True
    then have "spent (snd (fire s (fst x) (snd x))) k" using fire_spends by blast
    with True show ?thesis by (simp add: spent_no_wins)
  next
    case False
    with Cons.IH [of "snd (fire s (fst x) (snd x))"] show ?thesis by (simp only: wins.simps) simp
  qed
qed

end

end
