(* ===== verification/Access.thy ===== *)
theory Access imports Prelude begin

text \<open>
  Application errors and authorisation: the error codes of \<open>packages/contracts/src/error.ts\<close>, the
  repository errors, the CASL rule list of \<open>packages/server/src/auth/ability.ts\<close>, the request
  context and the guards every administrative use case starts with.  CASL itself is a third-party
  package: the function that compiles a rule list is a parameter, and \<open>casl_documented\<close> states the
  part of its documentation the code relies on.
\<close>

section \<open>Errors\<close>

datatype app_error_code =
    ANALYTICS_NOT_CONFIGURED | ANALYTICS_UNAVAILABLE | ANALYTICS_RATE_LIMITED | ENQUEUE_FAILED
  | NOTIFICATION_NOT_FOUND | WAVEFORM_JOB_NOT_FOUND | WAVEFORM_SOURCE_INVALID
  | WAVEFORM_ALREADY_EXISTS | CHEER_GUIDE_CONFLICT | CHEER_GUIDE_DRAFT_PENDING
  | CHEER_GUIDE_ALREADY_EXISTS | CHEER_GUIDE_SOURCE_INVALID | CHEER_GUIDE_NOT_FOUND
  | CHEER_GUIDE_HAS_HISTORY | CHEER_GUIDE_IMPORT_CONFLICT | CHEER_GUIDE_CHANGE_RESTRICTED
  | CHEER_GUIDE_CONTENT_INVALID | CONTENT_HAS_CHEER_GUIDE | ALBUM_NOT_FOUND
  | ALBUM_SLUG_ALREADY_EXISTS | SONG_NOT_FOUND | SONG_SLUG_ALREADY_EXISTS | SONG_SLUG_IMMUTABLE
  | SONG_LYRICS_INVALID | UNAUTHENTICATED | FORBIDDEN | OTP_COOLDOWN | OTP_RATE_LIMITED
  | OPERATOR_RATE_LIMITED | OTP_EXPIRED | OTP_INVALID | OTP_ATTEMPTS_EXCEEDED | OTP_NOT_VERIFIED
  | EMAIL_ALREADY_REGISTERED | NICKNAME_ALREADY_REGISTERED

text \<open>
  What a use case can throw: an \<open>AppError\<close>, one of the repository conflict classes, a database
  error naming the violated constraint, or a plain \<open>Error\<close> with its message.
\<close>

datatype failure =
    AppError app_error_code
  | AlbumSlugConflictError | SongSlugConflictError | ProfileNicknameConflictError
  | PasswordCredentialEmailConflictError | CheerGuideReferenceError
  | OperatorSessionConflictError
  | DbError string
  | Error string

type_synonym ('a, 's) use_case = "(failure, 'a, 's) run"

abbreviation fail :: "app_error_code \<Rightarrow> 's \<Rightarrow> ('a, 's) use_case" where
  "fail c s \<equiv> (Inl (AppError c), s)"

text \<open>\<open>if (!x) throw e\<close> and \<open>if (b) throw e\<close>, with what follows as a continuation.\<close>

definition or_throw :: "'x option \<Rightarrow> failure \<Rightarrow> 's \<Rightarrow> ('x \<Rightarrow> ('a, 's) use_case) \<Rightarrow> ('a, 's) use_case" where
  "or_throw x e s k = (case x of None \<Rightarrow> (Inl e, s) | Some v \<Rightarrow> k v)"

definition throw_if :: "bool \<Rightarrow> failure \<Rightarrow> 's \<Rightarrow> ('a, 's) use_case \<Rightarrow> ('a, 's) use_case" where
  "throw_if b e s k = (if b then (Inl e, s) else k)"

text \<open>Running a second step on the value and the state of a first one that has not thrown.\<close>

definition and_then ::
  "('a, 's) use_case \<Rightarrow> ('a \<Rightarrow> 's \<Rightarrow> ('b, 's) use_case) \<Rightarrow> ('b, 's) use_case" where
  "and_then r k = (case r of (Inl e, s) \<Rightarrow> (Inl e, s) | (Inr a, s) \<Rightarrow> k a s)"

lemma or_throw_simps [simp]: "or_throw None e s k = (Inl e, s)" "or_throw (Some v) e s k = k v"
  by (simp_all add: or_throw_def)

lemma throw_if_simps [simp]: "throw_if True e s k = (Inl e, s)" "throw_if False e s k = k"
  by (simp_all add: throw_if_def)

lemma and_then_simps [simp]: "and_then (Inl e, s) k = (Inl e, s)" "and_then (Inr a, s) k = k a s"
  by (simp_all add: and_then_def)

lemma or_throw_Inr [guard_simps]:
  "or_throw x e s k = (Inr a, s') \<longleftrightarrow> (\<exists>v. x = Some v \<and> k v = (Inr a, s'))"
  by (cases x) simp_all

lemma throw_if_Inr [guard_simps]: "throw_if b e s k = (Inr a, s') \<longleftrightarrow> \<not> b \<and> k = (Inr a, s')"
  by (cases b) simp_all

lemma and_then_Inr [guard_simps]:
  "and_then r k = (Inr b, s') \<longleftrightarrow> (\<exists>a t. r = (Inr a, t) \<and> k a t = (Inr b, s'))"
  by (auto simp: and_then_def split: prod.splits sum.splits)

text \<open>Failing steps that leave the state as it was.\<close>

lemma or_throw_Inl: "or_throw x e s k = (Inl e', s') \<Longrightarrow> (\<And>v. k v = (Inl e', s') \<Longrightarrow> s' = s) \<Longrightarrow> s' = s"
  by (cases x) auto

lemma throw_if_Inl: "throw_if b e s k = (Inl e', s') \<Longrightarrow> (k = (Inl e', s') \<Longrightarrow> s' = s) \<Longrightarrow> s' = s"
  by (cases b) auto

text \<open>\<open>catch (error) { if (error instanceof ...) throw ...; throw error }\<close>.\<close>

definition on_error :: "(failure \<Rightarrow> failure) \<Rightarrow> ('a, 's) use_case \<Rightarrow> ('a, 's) use_case" where
  "on_error h r = (case r of (Inl e, s) \<Rightarrow> (Inl (h e), s) | (Inr a, s) \<Rightarrow> (Inr a, s))"

lemma on_error_Inr [guard_simps]: "on_error h r = (Inr a, s') \<longleftrightarrow> r = (Inr a, s')"
  by (auto simp: on_error_def split: prod.splits sum.splits)

lemma on_error_Inl: "on_error h r = (Inl e, s') \<Longrightarrow> \<exists>e'. r = (Inl e', s')"
  by (auto simp: on_error_def split: prod.splits sum.splits)

lemma on_error_simps [simp]: "on_error h (Inr a, s) = (Inr a, s)" "on_error h (Inl e, s) = (Inl (h e), s)"
  by (simp_all add: on_error_def)

section \<open>Abilities\<close>

datatype account_role = USER | REVIEWER | ADMIN

datatype app_action =
    Read | Create | Update | Delete | Resolve | Reject | Approve | Review | CarryOver | Process
  | Connect | Disconnect | Manage | Suspend | Unsuspend | Lock | Unlock | Register | Analyze
  | Override

datatype app_subject =
    All | Artist | Song | CheerGuide | Revision | Contribution | DiscussionThread
  | DiscussionComment | Report | Sanction | Account | Profile | OAuthIdentity | WaveformSource
  | PerformanceSchedule | AuditLog

record ability_rule =
  rule_actions :: "app_action list"
  rule_subjects :: "app_subject list"
  rule_conditions :: "(string \<times> eid) list"

record authorization_facts =
  facts_accountId :: "eid option"
  facts_role :: "account_role option"

definition can :: "app_action list \<Rightarrow> app_subject list \<Rightarrow> (string \<times> eid) list \<Rightarrow> ability_rule" where
  "can as ss cs = \<lparr>rule_actions = as, rule_subjects = ss, rule_conditions = cs\<rparr>"

definition public_subjects :: "app_subject list" where
  "public_subjects =
    [Artist, Song, CheerGuide, Revision, DiscussionThread, DiscussionComment, PerformanceSchedule]"

text \<open>\<open>null\<close> and the empty string are the falsy identifiers.\<close>

definition truthy :: "string option \<Rightarrow> bool" where
  "truthy s = (case s of None \<Rightarrow> False | Some t \<Rightarrow> t \<noteq> [])"

definition buildAbilityRules :: "authorization_facts \<Rightarrow> ability_rule list" where
  "buildAbilityRules facts =
    (let base = [can [Read] public_subjects []] in
     case facts_role facts of
       None \<Rightarrow> base
     | Some role \<Rightarrow>
         (if \<not> truthy (facts_accountId facts) then base
          else let me = coalesce (facts_accountId facts) [] in
            base @
            [can [Create] [Contribution, DiscussionThread, DiscussionComment, Report] [],
             can [Update] [Profile] [(''accountId'', me)],
             can [Connect] [OAuthIdentity] [(''accountId'', me)],
             can [Disconnect] [OAuthIdentity] [(''accountId'', me)],
             can [Update] [DiscussionComment] [(''authorAccountId'', me)],
             can [Delete] [DiscussionComment] [(''authorAccountId'', me)]] @
            (if role = REVIEWER \<or> role = ADMIN
             then [can [Resolve, Reject, Review, CarryOver] [DiscussionThread] []] else []) @
            (if role = ADMIN then [can [Manage] [All] []] else [])))"

type_synonym app_ability = "app_action \<Rightarrow> app_subject \<Rightarrow> bool"
type_synonym casl = "ability_rule list \<Rightarrow> app_ability"

definition buildAbility :: "casl \<Rightarrow> authorization_facts \<Rightarrow> app_ability" where
  "buildAbility createMongoAbility facts = createMongoAbility (buildAbilityRules facts)"

definition createEmptyAbility :: "casl \<Rightarrow> app_ability" where
  "createEmptyAbility createMongoAbility = createMongoAbility []"

text \<open>
  CASL's documentation for a query with a subject type: a rule is relevant when it names the action
  or \<open>manage\<close>, and the subject or \<open>all\<close>; conditions restrict instances, not types; the query is
  allowed when a (non-inverted) relevant rule exists.
\<close>

definition rule_relevant :: "ability_rule \<Rightarrow> app_action \<Rightarrow> app_subject \<Rightarrow> bool" where
  "rule_relevant r a s \<longleftrightarrow>
    (a \<in> set (rule_actions r) \<or> Manage \<in> set (rule_actions r)) \<and>
    (s \<in> set (rule_subjects r) \<or> All \<in> set (rule_subjects r))"

definition casl_documented :: "casl \<Rightarrow> bool" where
  "casl_documented compile \<longleftrightarrow>
    (\<forall>rules a s. compile rules a s = (\<exists>r \<in> set rules. rule_relevant r a s))"

text \<open>A concrete function with that behaviour, for evaluation.\<close>

definition casl_reference :: casl where
  "casl_reference rules a s = list_ex (\<lambda>r. rule_relevant r a s) rules"

lemma casl_reference_documented: "casl_documented casl_reference"
  by (simp add: casl_documented_def casl_reference_def list_ex_iff)

section \<open>Request context and guards\<close>

record request_context =
  ctx_user :: "eid option"
  ctx_ability :: app_ability

definition requireUser :: "request_context \<Rightarrow> failure + eid" where
  "requireUser ctx =
    (case ctx_user ctx of None \<Rightarrow> Inl (AppError UNAUTHENTICATED) | Some u \<Rightarrow> Inr u)"

definition requireAdmin :: "request_context \<Rightarrow> failure + eid" where
  "requireAdmin ctx =
    (case requireUser ctx of
       Inl e \<Rightarrow> Inl e
     | Inr u \<Rightarrow> if \<not> ctx_ability ctx Manage All then Inl (AppError FORBIDDEN) else Inr u)"

definition as_admin ::
  "request_context \<Rightarrow> (eid \<Rightarrow> 's \<Rightarrow> ('a, 's) use_case) \<Rightarrow> 's \<Rightarrow> ('a, 's) use_case" where
  "as_admin ctx f s = (case requireAdmin ctx of Inl e \<Rightarrow> (Inl e, s) | Inr u \<Rightarrow> f u s)"

lemma requireAdmin_Inr [guard_simps]:
  "requireAdmin ctx = Inr u \<longleftrightarrow> ctx_user ctx = Some u \<and> ctx_ability ctx Manage All"
  by (auto simp: requireAdmin_def requireUser_def split: option.splits)

lemma as_admin_denied: "requireAdmin ctx = Inl e \<Longrightarrow> as_admin ctx f s = (Inl e, s)"
  by (simp add: as_admin_def)

lemma as_admin_admin:
  "ctx_user ctx = Some u \<Longrightarrow> ctx_ability ctx Manage All \<Longrightarrow> as_admin ctx f s = f u s"
  by (simp add: as_admin_def requireAdmin_def requireUser_def)

lemma as_admin_Inr [guard_simps]:
  "as_admin ctx f s = (Inr a, s') \<longleftrightarrow>
    (\<exists>u. ctx_user ctx = Some u \<and> ctx_ability ctx Manage All \<and> f u s = (Inr a, s'))"
proof (cases "requireAdmin ctx")
  case (Inl e)
  then have "\<not> (\<exists>u. ctx_user ctx = Some u \<and> ctx_ability ctx Manage All)"
    using requireAdmin_Inr by force
  with Inl show ?thesis by (auto simp: as_admin_def)
next
  case (Inr u)
  with requireAdmin_Inr [of ctx u] show ?thesis by (auto simp: as_admin_def)
qed

lemma as_admin_inv: "P s \<Longrightarrow> (\<And>u. P (snd (f u s))) \<Longrightarrow> P (snd (as_admin ctx f s))"
  by (simp add: as_admin_def split: sum.splits)

text \<open>The contract of an administrative use case, and of one that also leaves no trace on failure.\<close>

locale guarded =
  fixes perform :: "request_context \<Rightarrow> 'i \<Rightarrow> 's \<Rightarrow> ('a, 's) use_case"
  assumes denied: "requireAdmin ctx = Inl e \<Longrightarrow> perform ctx i s = (Inl e, s)"
begin

lemma success_needs_admin:
  "perform ctx i s = (Inr a, s') \<Longrightarrow> \<exists>u. ctx_user ctx = Some u \<and> ctx_ability ctx Manage All"
  using denied [of ctx _ i s] by (cases "requireAdmin ctx") (auto simp: guard_simps)

lemma guest_unauthenticated:
  "ctx_user ctx = None \<Longrightarrow> perform ctx i s = (Inl (AppError UNAUTHENTICATED), s)"
  by (rule denied) (simp add: requireAdmin_def requireUser_def)

lemma non_admin_forbidden:
  "ctx_user ctx = Some u \<Longrightarrow> \<not> ctx_ability ctx Manage All \<Longrightarrow>
    perform ctx i s = (Inl (AppError FORBIDDEN), s)"
  by (rule denied) (simp add: requireAdmin_def requireUser_def)

lemma change_needs_admin:
  "snd (perform ctx i s) \<noteq> s \<Longrightarrow> \<exists>u. ctx_user ctx = Some u \<and> ctx_ability ctx Manage All"
  using denied [of ctx _ i s] by (cases "requireAdmin ctx") (auto simp: guard_simps)

end

locale atomic_use_case = guarded +
  assumes rollback: "perform ctx i s = (Inl e, s') \<Longrightarrow> s' = s"
begin

lemma unchanged_or_success:
  "snd (perform ctx i s) = s \<or> (\<exists>a s'. perform ctx i s = (Inr a, s'))"
  using rollback by (cases "perform ctx i s"; cases "fst (perform ctx i s)") force+

end

text \<open>How the services meet these contracts.\<close>

lemma guarded_as_admin: "guarded (\<lambda>ctx i. as_admin ctx (f i))"
  by unfold_locales (rule as_admin_denied)

lemma atomic_as_admin:
  "(\<And>i u s e s'. f i u s = (Inl e, s') \<Longrightarrow> s' = s) \<Longrightarrow>
    atomic_use_case (\<lambda>ctx i. as_admin ctx (f i))"
  by unfold_locales (auto simp: as_admin_def split: sum.splits)

lemma atomic_as_admin_transaction: "atomic_use_case (\<lambda>ctx i. as_admin ctx (\<lambda>u. transaction (f i u)))"
  by (rule atomic_as_admin) (rule transaction_Inl)

lemma reject_all: "\<not> rule_relevant (can as ss cs) Manage All \<longleftrightarrow> Manage \<notin> set as \<or> All \<notin> set ss"
  by (auto simp: rule_relevant_def can_def)

lemma buildAbilityRules_manage_all:
  "(\<exists>r \<in> set (buildAbilityRules facts). rule_relevant r Manage All) \<longleftrightarrow>
    facts_role facts = Some ADMIN \<and> truthy (facts_accountId facts)"
  by (auto simp: buildAbilityRules_def rule_relevant_def can_def public_subjects_def Let_def
      split: option.splits)

end
