(* ===== verification/Lyrics.thy ===== *)
theory Lyrics imports Complex_Main Access begin

text \<open>
  JSON values and the lyrics contract of \<open>packages/contracts/src/song.ts\<close>: the line and segment
  records, the zod schema that parses stored JSON into them, and the LRC text parser of
  \<open>song-service.ts\<close>.  JavaScript numbers are exact rationals here: rounding of IEEE doubles is not
  modelled.
\<close>

section \<open>JSON\<close>

type_synonym jsnum = rat

datatype json =
    JNull | JBool bool | JNum jsnum | JStr string | JArr "json list" | JObj "(string \<times> json) list"

text \<open>A property of an object; \<open>None\<close> is \<open>undefined\<close>.\<close>

definition jprop :: "string \<Rightarrow> (string \<times> json) list \<Rightarrow> json option" where
  "jprop k kvs = map_of kvs k"

section \<open>The lyrics contract\<close>

record lyric_segment =
  seg_text :: string
  seg_isCheer :: bool
  seg_isEcho :: bool
  seg_startTimeOffset :: "jsnum option"

record lyric_line =
  line_startTime :: jsnum
  line_segments :: "lyric_segment list"
  line_isExtra :: bool

type_synonym lyrics_data = "lyric_line list"

text \<open>\<open>z.boolean().default(false)\<close> and \<open>z.number().optional()\<close> on a property.\<close>

fun bool_default :: "json option \<Rightarrow> bool option" where
  "bool_default None = Some False"
| "bool_default (Some (JBool b)) = Some b"
| "bool_default _ = None"

fun num_optional :: "json option \<Rightarrow> jsnum option option" where
  "num_optional None = Some None"
| "num_optional (Some (JNum n)) = Some (Some n)"
| "num_optional _ = None"

fun str_min1 :: "json option \<Rightarrow> string option" where
  "str_min1 (Some (JStr t)) = (if t = [] then None else Some t)"
| "str_min1 _ = None"

fun num_min0 :: "json option \<Rightarrow> jsnum option" where
  "num_min0 (Some (JNum n)) = (if n < 0 then None else Some n)"
| "num_min0 _ = None"

fun lyricSegmentSchema :: "json \<Rightarrow> lyric_segment option" where
  "lyricSegmentSchema (JObj kvs) =
    (case (str_min1 (jprop ''text'' kvs), bool_default (jprop ''isCheer'' kvs),
           bool_default (jprop ''isEcho'' kvs), num_optional (jprop ''startTimeOffset'' kvs)) of
       (Some t, Some c, Some e, Some off) \<Rightarrow>
         Some \<lparr>seg_text = t, seg_isCheer = c, seg_isEcho = e, seg_startTimeOffset = off\<rparr>
     | _ \<Rightarrow> None)"
| "lyricSegmentSchema _ = None"

fun segments_prop :: "json option \<Rightarrow> lyric_segment list option" where
  "segments_prop (Some (JArr js)) = those (map lyricSegmentSchema js)"
| "segments_prop _ = None"

fun lyricLineSchema :: "json \<Rightarrow> lyric_line option" where
  "lyricLineSchema (JObj kvs) =
    (case (num_min0 (jprop ''startTime'' kvs), segments_prop (jprop ''segments'' kvs),
           bool_default (jprop ''isExtra'' kvs)) of
       (Some t, Some ss, Some x) \<Rightarrow>
         Some \<lparr>line_startTime = t, line_segments = ss, line_isExtra = x\<rparr>
     | _ \<Rightarrow> None)"
| "lyricLineSchema _ = None"

fun lyricsDataSchema :: "json \<Rightarrow> lyrics_data option" where
  "lyricsDataSchema (JArr js) = those (map lyricLineSchema js)"
| "lyricsDataSchema _ = None"

text \<open>What the schema guarantees of the values it accepts.\<close>

definition segment_ok :: "lyric_segment \<Rightarrow> bool" where
  "segment_ok s \<longleftrightarrow> seg_text s \<noteq> []"

definition line_ok :: "lyric_line \<Rightarrow> bool" where
  "line_ok l \<longleftrightarrow> 0 \<le> line_startTime l \<and> list_all segment_ok (line_segments l)"

definition lyrics_ok :: "lyrics_data \<Rightarrow> bool" where
  "lyrics_ok ls \<longleftrightarrow> list_all line_ok ls"

text \<open>The JSON a value is stored as.\<close>

definition segment_json :: "lyric_segment \<Rightarrow> json" where
  "segment_json s = JObj
    ([(''text'', JStr (seg_text s)), (''isCheer'', JBool (seg_isCheer s)),
      (''isEcho'', JBool (seg_isEcho s))] @
     (case seg_startTimeOffset s of None \<Rightarrow> [] | Some n \<Rightarrow> [(''startTimeOffset'', JNum n)]))"

definition line_json :: "lyric_line \<Rightarrow> json" where
  "line_json l = JObj
    [(''startTime'', JNum (line_startTime l)),
     (''segments'', JArr (map segment_json (line_segments l))),
     (''isExtra'', JBool (line_isExtra l))]"

definition lyrics_json :: "lyrics_data \<Rightarrow> json" where
  "lyrics_json ls = JArr (map line_json ls)"

text \<open>
  \<open>lyrics.some((line) => line.segments.some(({ text }) => text.trim()))\<close>: the test for visible
  content that the guide services share.
\<close>

definition has_text :: "lyrics_data \<Rightarrow> bool" where
  "has_text ls \<longleftrightarrow> list_ex (\<lambda>l. list_ex (\<lambda>s. \<not> blank (seg_text s)) (line_segments l)) ls"

subsection \<open>Lemmas\<close>

lemma those_map_Some: "(\<And>x. x \<in> set xs \<Longrightarrow> f x = Some (g x)) \<Longrightarrow> those (map f xs) = Some (map g xs)"
  by (induction xs) auto

lemma those_SomeD: "those xs = Some ys \<Longrightarrow> xs = map Some ys"
  by (induction xs arbitrary: ys) (auto split: option.splits)

lemma those_map_list_all:
  assumes "those (map f xs) = Some ys" and "\<And>x y. f x = Some y \<Longrightarrow> P y"
  shows "list_all P ys"
proof -
  from assms(1) have "map f xs = map Some ys" by (rule those_SomeD)
  then show ?thesis using assms(2)
    by (induction xs arbitrary: ys) (auto simp: Cons_eq_map_conv)
qed

lemma str_min1_Some: "str_min1 j = Some t \<Longrightarrow> t \<noteq> []"
  by (cases j rule: str_min1.cases) (auto split: if_splits)

lemma num_min0_Some: "num_min0 j = Some n \<Longrightarrow> 0 \<le> n"
  by (cases j rule: num_min0.cases) (auto split: if_splits)

lemma lyricSegmentSchema_ok: "lyricSegmentSchema j = Some s \<Longrightarrow> segment_ok s"
  by (cases j) (auto simp: segment_ok_def dest: str_min1_Some split: option.splits)

lemma lyricLineSchema_ok: "lyricLineSchema j = Some l \<Longrightarrow> line_ok l"
proof (cases j)
  case (JObj kvs)
  assume "lyricLineSchema j = Some l"
  with JObj obtain ss where n: "num_min0 (jprop ''startTime'' kvs) = Some (line_startTime l)"
    and s: "segments_prop (jprop ''segments'' kvs) = Some (line_segments l)"
    by (auto split: option.splits)
  from s have "list_all segment_ok (line_segments l)"
    by (cases "jprop ''segments'' kvs" rule: segments_prop.cases)
      (auto elim!: those_map_list_all lyricSegmentSchema_ok)
  with n show ?thesis by (auto simp: line_ok_def dest: num_min0_Some)
qed auto

lemma lyricsDataSchema_ok: "lyricsDataSchema j = Some ls \<Longrightarrow> lyrics_ok ls"
  by (cases j) (auto simp: lyrics_ok_def elim!: those_map_list_all lyricLineSchema_ok)

lemma lyricSegmentSchema_json: "segment_ok s \<Longrightarrow> lyricSegmentSchema (segment_json s) = Some s"
  by (cases s) (auto simp: segment_ok_def segment_json_def jprop_def split: option.splits)

lemma lyricLineSchema_json:
  assumes "line_ok l"
  shows "lyricLineSchema (line_json l) = Some l"
proof -
  have "those (map (lyricSegmentSchema \<circ> segment_json) (line_segments l)) = Some (map id (line_segments l))"
    using assms by (intro those_map_Some) (auto simp: line_ok_def list_all_iff lyricSegmentSchema_json)
  with assms show ?thesis
    by (auto simp: line_json_def jprop_def line_ok_def)
qed

lemma lyricsDataSchema_json:
  assumes "lyrics_ok ls"
  shows "lyricsDataSchema (lyrics_json ls) = Some ls"
proof -
  have "those (map (lyricLineSchema \<circ> line_json) ls) = Some (map id ls)"
    using assms by (intro those_map_Some) (auto simp: lyrics_ok_def list_all_iff lyricLineSchema_json)
  then show ?thesis by (simp add: lyrics_json_def)
qed

section \<open>Parsing LRC text\<close>

text \<open>
  \<open>parseSongLyrics\<close> matches \<open>\[(\d{2}):(\d{2})[.:](\d{2,3})\]\<close> anywhere in a line.  \<open>lrc_stamp_at\<close>
  matches it at the head of a string, preferring the three-digit fraction as the greedy quantifier
  does; \<open>lrc_exec\<close> finds the leftmost match and gives the text before it, the stamp and the rest.
\<close>

definition is_digit :: "char \<Rightarrow> bool" where
  "is_digit c \<longleftrightarrow> 48 \<le> (of_char c :: nat) \<and> (of_char c :: nat) \<le> 57"

definition digit_val :: "char \<Rightarrow> nat" where
  "digit_val c = of_char c - 48"

definition digits_val :: "string \<Rightarrow> nat" where
  "digits_val ds = foldl (\<lambda>n c. 10 * n + digit_val c) 0 ds"

record lrc_stamp =
  stamp_minutes :: nat
  stamp_seconds :: nat
  stamp_fraction :: string

fun lrc_stamp_at :: "string \<Rightarrow> (lrc_stamp \<times> string) option" where
  "lrc_stamp_at (b # m1 # m2 # c # s1 # s2 # d # f1 # f2 # rest) =
    (if b = CHR ''['' \<and> is_digit m1 \<and> is_digit m2 \<and> c = CHR '':'' \<and> is_digit s1 \<and> is_digit s2 \<and>
        (d = CHR ''.'' \<or> d = CHR '':'') \<and> is_digit f1 \<and> is_digit f2
     then
       (let st = \<lambda>fr. \<lparr>stamp_minutes = digits_val [m1, m2], stamp_seconds = digits_val [s1, s2],
                       stamp_fraction = fr\<rparr> in
        case rest of
          f3 # e # rest' \<Rightarrow>
            (if is_digit f3 \<and> e = CHR '']'' then Some (st [f1, f2, f3], rest')
             else if f3 = CHR '']'' then Some (st [f1, f2], e # rest')
             else None)
        | [e] \<Rightarrow> (if e = CHR '']'' then Some (st [f1, f2], []) else None)
        | [] \<Rightarrow> None)
     else None)"
| "lrc_stamp_at _ = None"

fun lrc_exec :: "string \<Rightarrow> (string \<times> lrc_stamp \<times> string) option" where
  "lrc_exec [] = None"
| "lrc_exec (x # xs) =
    (case lrc_stamp_at (x # xs) of
       Some (st, rest) \<Rightarrow> Some ([], st, rest)
     | None \<Rightarrow>
         (case lrc_exec xs of
            None \<Rightarrow> None
          | Some (pre, st, rest) \<Rightarrow> Some (x # pre, st, rest)))"

text \<open>\<open>lrcText.split("\n")\<close>.\<close>

fun split_lines :: "string \<Rightarrow> string list" where
  "split_lines [] = [[]]"
| "split_lines (c # cs) =
    (if c = CHR 0x0A then [] # split_lines cs
     else (case split_lines cs of [] \<Rightarrow> [[c]] | l # ls \<Rightarrow> (c # l) # ls))"

definition stamp_time :: "lrc_stamp \<Rightarrow> jsnum" where
  "stamp_time st =
    of_nat (stamp_minutes st) * 60 + of_nat (stamp_seconds st) +
    of_nat (digits_val (stamp_fraction st)) / (if length (stamp_fraction st) = 3 then 1000 else 100)"

definition parse_lrc_line :: "string \<Rightarrow> lyric_line list" where
  "parse_lrc_line l =
    (case lrc_exec l of
       None \<Rightarrow> []
     | Some (pre, st, rest) \<Rightarrow>
         (let text = trim (pre @ rest) in
          if text = [] then []
          else [\<lparr>line_startTime = stamp_time st,
                 line_segments = [\<lparr>seg_text = text, seg_isCheer = False, seg_isEcho = False,
                                   seg_startTimeOffset = None\<rparr>],
                 line_isExtra = False\<rparr>]))"

definition parsed_lines :: "string \<Rightarrow> lyrics_data" where
  "parsed_lines lrcText = sort_key line_startTime (concat (map parse_lrc_line (split_lines lrcText)))"

text \<open>
  The schema is applied to values of the schema's type, so it accepts exactly \<open>lyrics_ok\<close> values and
  returns them; its failure is the zod error.
\<close>

definition parseSongLyrics :: "string \<Rightarrow> failure + lyrics_data" where
  "parseSongLyrics lrcText =
    (let parsed = parsed_lines lrcText in
     if \<not> lyrics_ok parsed then Inl (Error ''ZodError'')
     else if parsed = [] then Inl (AppError SONG_LYRICS_INVALID)
     else Inr parsed)"

subsection \<open>Lemmas\<close>

lemma stamp_time_nonneg: "0 \<le> stamp_time st"
  by (simp add: stamp_time_def)

lemma parse_lrc_line_ok: "list_all line_ok (parse_lrc_line l)"
  by (auto simp: parse_lrc_line_def line_ok_def segment_ok_def stamp_time_nonneg Let_def
      split: option.splits)

lemma parse_lrc_line_text: "x \<in> set (parse_lrc_line l) \<Longrightarrow> s \<in> set (line_segments x) \<Longrightarrow> \<not> blank (seg_text s)"
  by (auto simp: parse_lrc_line_def blank_def Let_def split: option.splits if_splits)

lemma parsed_lines_ok: "lyrics_ok (parsed_lines t)"
  using parse_lrc_line_ok by (fastforce simp: parsed_lines_def lyrics_ok_def list_all_iff)

lemma parsed_lines_sorted: "sorted (map line_startTime (parsed_lines t))"
  by (simp add: parsed_lines_def)

lemma parsed_lines_has_text: "parsed_lines t \<noteq> [] \<Longrightarrow> has_text (parsed_lines t)"
proof -
  assume "parsed_lines t \<noteq> []"
  then obtain l where l: "l \<in> set (parsed_lines t)" by (cases "parsed_lines t") auto
  then obtain x where "l \<in> set (parse_lrc_line x)" by (auto simp: parsed_lines_def)
  moreover from this have "line_segments l \<noteq> []"
    by (auto simp: parse_lrc_line_def Let_def split: option.splits if_splits)
  ultimately have "\<not> blank (seg_text (hd (line_segments l)))"
    by (auto dest: parse_lrc_line_text [OF _ hd_in_set])
  with l \<open>line_segments l \<noteq> []\<close> show ?thesis
    by (auto simp: has_text_def list_ex_iff intro!: bexI [of _ l] bexI [of _ "hd (line_segments l)"])
qed

lemma parseSongLyrics_cases:
  "parseSongLyrics t = (if parsed_lines t = [] then Inl (AppError SONG_LYRICS_INVALID)
     else Inr (parsed_lines t))"
  by (simp add: parseSongLyrics_def parsed_lines_ok Let_def)

end
