(* ===== verification/Schema.thy ===== *)
theory Schema imports Lyrics begin

text \<open>
  The database of \<open>packages/server/src/db/schema.ts\<close>: one record per table, the CHECK constraints
  of the table as a predicate on its rows, and the database state as the record of all tables.
  Columns that may be NULL are options.  Integers are unbounded (the code's counters start at 1 and
  only grow by one; the 32-bit column limit is not modelled) and instants are milliseconds.  UNIQUE
  and FOREIGN KEY constraints relate several rows; each component states the ones of its own tables
  in its invariant.
\<close>

section \<open>Accounts\<close>

datatype account_status = PENDING_VERIFICATION | ACTIVE | SUSPENDED | DELETED

record account_row =
  account_id :: eid
  account_role :: account_role
  account_status :: account_status
  account_createdAt :: instant
  account_deletedAt :: "instant option"

definition account_check :: "account_row \<Rightarrow> bool" where
  "account_check r \<longleftrightarrow> (account_status r = DELETED) = (account_deletedAt r \<noteq> None)"

record profile_row =
  profile_accountId :: eid
  profile_nickname :: string
  profile_avatarUrl :: "string option"
  profile_updatedAt :: instant

record credential_row =
  cred_accountId :: eid
  cred_email :: string
  cred_passwordHash :: string
  cred_emailVerifiedAt :: instant
  cred_passwordChangedAt :: instant
  cred_updatedAt :: instant

text \<open>\<open>lower\<close> and \<open>toLowerCase\<close>, restricted to ASCII letters.\<close>

definition lower_char :: "char \<Rightarrow> char" where
  "lower_char c =
    (let n = (of_char c :: nat) in if 65 \<le> n \<and> n \<le> 90 then char_of (n + 32) else c)"

definition toLowerCase :: "string \<Rightarrow> string" where
  "toLowerCase = map lower_char"

text \<open>PostgreSQL's \<open>btrim\<close> strips spaces only, JavaScript's \<open>trim\<close> every white space.\<close>

definition btrim :: "string \<Rightarrow> string" where
  "btrim s = rev (dropWhile (\<lambda>c. c = CHR '' '') (rev (dropWhile (\<lambda>c. c = CHR '' '') s)))"

definition normalizeEmail :: "string \<Rightarrow> string" where
  "normalizeEmail email = toLowerCase (trim email)"

text \<open>
  \<open>encodeURIComponent\<close> on UTF-8 bytes, and the console's link to the editor of a song: none when the
  slug is null or empty.
\<close>

definition uri_unreserved :: "char \<Rightarrow> bool" where
  "uri_unreserved c \<longleftrightarrow>
    (let n = (of_char c :: nat) in
     (65 \<le> n \<and> n \<le> 90) \<or> (97 \<le> n \<and> n \<le> 122) \<or> (48 \<le> n \<and> n \<le> 57) \<or>
     n \<in> {45, 95, 46, 33, 126, 42, 39, 40, 41})"

definition hex_char :: "nat \<Rightarrow> char" where
  "hex_char n = char_of (if n < 10 then 48 + n else 55 + n)"

definition encodeURIComponent :: "string \<Rightarrow> string" where
  "encodeURIComponent s = concat (map (\<lambda>c. if uri_unreserved c then [c]
    else [CHR ''%'', hex_char (of_char c div 16), hex_char (of_char c mod 16)]) s)"

definition editorHref :: "string option \<Rightarrow> string option" where
  "editorHref slug =
    (if truthy slug then Some (''/admin/edit/'' @ encodeURIComponent (coalesce slug [])) else None)"

definition credential_check :: "credential_row \<Rightarrow> bool" where
  "credential_check r \<longleftrightarrow>
    cred_email r \<noteq> [] \<and> cred_email r = toLowerCase (btrim (cred_email r)) \<and>
    cred_passwordHash r \<noteq> []"

record mfa_row =
  mfa_accountId :: eid
  mfa_encryptedSecret :: "string option"
  mfa_enabledAt :: "instant option"
  mfa_lastUsedStep :: "nat option"
  mfa_version :: nat

text \<open>\<open>admin_mfa_version_check\<close>, \<open>admin_mfa_secret_check\<close>, \<open>admin_mfa_state_check\<close>.\<close>

definition mfa_check :: "mfa_row \<Rightarrow> bool" where
  "mfa_check r \<longleftrightarrow>
    0 < mfa_version r \<and>
    mfa_encryptedSecret r \<noteq> Some [] \<and>
    ((mfa_enabledAt r = None \<and> mfa_lastUsedStep r = None) \<or>
     (mfa_enabledAt r \<noteq> None \<and> mfa_encryptedSecret r \<noteq> None \<and> mfa_lastUsedStep r \<noteq> None))"

section \<open>Notifications\<close>

datatype notification_type = WAVEFORM_SUCCEEDED | WAVEFORM_FAILED

record notification_row =
  ntf_id :: eid
  ntf_recipientAccountId :: eid
  ntf_type :: notification_type
  ntf_resourceId :: eid
  ntf_eventKey :: string
  ntf_createdAt :: instant
  ntf_readAt :: "instant option"

definition notification_check :: "notification_row \<Rightarrow> bool" where
  "notification_check r \<longleftrightarrow> 1 \<le> length (ntf_eventKey r) \<and> length (ntf_eventKey r) \<le> 256"

record installation_row =
  inst_id :: eid
  inst_fid :: string
  inst_accountId :: eid
  inst_mfaVersion :: nat
  inst_bindingVersion :: nat
  inst_enabled :: bool
  inst_updatedAt :: instant
  inst_expiresAt :: instant

definition installation_check :: "installation_row \<Rightarrow> bool" where
  "installation_check r \<longleftrightarrow>
    0 < inst_mfaVersion r \<and> 0 < inst_bindingVersion r \<and>
    16 \<le> length (inst_fid r) \<and> length (inst_fid r) \<le> 256"

datatype delivery_status = PENDING_DELIVERY | ACCEPTED | DISCARDED

record delivery_row =
  dlv_id :: eid
  dlv_notificationId :: eid
  dlv_installationId :: eid
  dlv_bindingVersion :: nat
  dlv_status :: delivery_status
  dlv_attemptCount :: nat
  dlv_nextAttemptAt :: instant
  dlv_expiresAt :: instant
  dlv_leaseToken :: "eid option"
  dlv_leaseUntil :: "instant option"
  dlv_acceptedAt :: "instant option"
  dlv_lastErrorCode :: "string option"

definition delivery_check :: "delivery_row \<Rightarrow> bool" where
  "delivery_check r \<longleftrightarrow>
    0 < dlv_bindingVersion r \<and> (dlv_leaseToken r = None) = (dlv_leaseUntil r = None)"

section \<open>Email verification\<close>

datatype challenge_status = PENDING | VERIFIED | CONSUMED | INVALIDATED

record challenge_row =
  chal_id :: eid
  chal_email :: string
  chal_otpHash :: string
  chal_status :: challenge_status
  chal_failedAttempts :: nat
  chal_ipAddress :: string
  chal_expiresAt :: instant
  chal_lastSentAt :: instant
  chal_verifiedAt :: "instant option"
  chal_consumedAt :: "instant option"
  chal_invalidatedAt :: "instant option"
  chal_createdAt :: instant

definition challenge_check :: "challenge_row \<Rightarrow> bool" where
  "challenge_check r \<longleftrightarrow>
    chal_otpHash r \<noteq> [] \<and> chal_failedAttempts r \<le> 5 \<and>
    (chal_status r = VERIFIED) = (chal_verifiedAt r \<noteq> None) \<and>
    (chal_status r = CONSUMED) = (chal_consumedAt r \<noteq> None) \<and>
    (chal_status r = INVALIDATED) = (chal_invalidatedAt r \<noteq> None)"

datatype rate_limit_scope = EMAIL | IP

record rate_limit_row =
  rate_scope :: rate_limit_scope
  rate_key :: string
  rate_windowStartedAt :: instant
  rate_requestCount :: nat
  rate_updatedAt :: instant

definition rate_limit_check :: "rate_limit_row \<Rightarrow> bool" where
  "rate_limit_check r \<longleftrightarrow> rate_key r \<noteq> []"

section \<open>Albums and songs\<close>

record album_row =
  album_id :: eid
  album_name :: string
  album_slug :: string
  album_imgUrl :: string
  album_color :: string
  album_releaseDate :: "instant option"
  album_isVisible :: bool
  album_createdAt :: instant

record song_row =
  song_id :: eid
  song_albumId :: eid
  song_title :: "string option"
  song_youtubeId :: "string option"
  song_lyrics :: "json option"
  song_hasOfficialCheer :: "bool option"
  song_isTitle :: bool
  song_isVisible :: bool
  song_order :: "int option"
  song_createdAt :: "instant option"
  song_updatedAt :: "instant option"
  song_slug :: "string option"

section \<open>Cheer guides\<close>

datatype guide_mode = CONCERT | FESTIVAL
datatype source_type = OFFICIAL | FANDOM
datatype guide_action = PUBLISH | UNPUBLISH

text \<open>The alphabetical order of the mode column, which the public lists sort by.\<close>

instantiation guide_mode :: linorder
begin

definition less_eq_guide_mode :: "guide_mode \<Rightarrow> guide_mode \<Rightarrow> bool" where
  "less_eq_guide_mode a b \<longleftrightarrow> a = CONCERT \<or> b = FESTIVAL"

definition less_guide_mode :: "guide_mode \<Rightarrow> guide_mode \<Rightarrow> bool" where
  "less_guide_mode a b \<longleftrightarrow> a = CONCERT \<and> b = FESTIVAL"

instance
proof
  fix a b c :: guide_mode
  show "(a < b) = (a \<le> b \<and> \<not> b \<le> a)"
    by (cases a; cases b) (simp_all add: less_eq_guide_mode_def less_guide_mode_def)
  show "a \<le> a" by (cases a) (simp_all add: less_eq_guide_mode_def)
  show "a \<le> b \<Longrightarrow> b \<le> c \<Longrightarrow> a \<le> c" by (auto simp: less_eq_guide_mode_def)
  show "a \<le> b \<Longrightarrow> b \<le> a \<Longrightarrow> a = b" by (auto simp: less_eq_guide_mode_def)
  show "a \<le> b \<or> b \<le> a" by (cases a; cases b) (simp_all add: less_eq_guide_mode_def)
qed

end

record guide_row =
  guide_id :: eid
  guide_songId :: eid
  guide_mode :: guide_mode
  guide_legacyWriteTarget :: bool
  guide_currentPublicationId :: "eid option"
  guide_workingSnapshotId :: "eid option"
  guide_lockVersion :: nat
  guide_createdAt :: instant
  guide_updatedAt :: instant

definition guide_check :: "guide_row \<Rightarrow> bool" where
  "guide_check r \<longleftrightarrow> 0 < guide_lockVersion r"

record snapshot_row =
  snap_id :: eid
  snap_cheerGuideId :: eid
  snap_versionNo :: nat
  snap_lyrics :: json
  snap_referenceYoutubeId :: string
  snap_sourceType :: source_type
  snap_sourceUrl :: "string option"
  snap_guideVideoUrl :: "string option"
  snap_description :: "string option"
  snap_createdByAccountId :: "eid option"
  snap_changeSummary :: string
  snap_createdAt :: instant

fun is_array :: "json \<Rightarrow> bool" where
  "is_array (JArr _) = True"
| "is_array _ = False"

definition source_ok :: "source_type \<Rightarrow> string option \<Rightarrow> bool" where
  "source_ok ty url \<longleftrightarrow> ty \<noteq> OFFICIAL \<or> (case url of None \<Rightarrow> False | Some u \<Rightarrow> btrim u \<noteq> [])"

definition snapshot_check :: "snapshot_row \<Rightarrow> bool" where
  "snapshot_check r \<longleftrightarrow>
    0 < snap_versionNo r \<and> is_array (snap_lyrics r) \<and> btrim (snap_referenceYoutubeId r) \<noteq> [] \<and>
    source_ok (snap_sourceType r) (snap_sourceUrl r) \<and> btrim (snap_changeSummary r) \<noteq> []"

record publication_row =
  pub_id :: eid
  pub_cheerGuideId :: eid
  pub_publicationNo :: nat
  pub_action :: guide_action
  pub_snapshotId :: eid
  pub_actorAccountId :: eid
  pub_reason :: string
  pub_createdAt :: instant

definition publication_check :: "publication_row \<Rightarrow> bool" where
  "publication_check r \<longleftrightarrow> 0 < pub_publicationNo r \<and> btrim (pub_reason r) \<noteq> []"

section \<open>Service notices and policies\<close>

datatype publication_kind = notice | update_note

record service_publication_row =
  spub_id :: eid
  spub_kind :: publication_kind
  spub_title :: string
  spub_publishedOn :: string
  spub_isPublished :: bool
  spub_category :: "string option"
  spub_releaseVersion :: "string option"
  spub_content :: json
  spub_lockVersion :: nat

definition between1 :: "nat \<Rightarrow> string \<Rightarrow> bool" where
  "between1 n s \<longleftrightarrow> 1 \<le> length (btrim s) \<and> length (btrim s) \<le> n"

fun is_string :: "json \<Rightarrow> bool" where
  "is_string (JStr _) = True"
| "is_string _ = False"

fun string_list_100 :: "json \<Rightarrow> bool" where
  "string_list_100 (JArr js) \<longleftrightarrow> 1 \<le> length js \<and> length js \<le> 100 \<and> list_all is_string js"
| "string_list_100 _ \<longleftrightarrow> False"

definition service_publication_check :: "service_publication_row \<Rightarrow> bool" where
  "service_publication_check r \<longleftrightarrow>
    between1 200 (spub_title r) \<and> 0 < spub_lockVersion r \<and>
    (case spub_kind r of
       notice \<Rightarrow>
         (case spub_category r of None \<Rightarrow> False | Some c \<Rightarrow> between1 40 c) \<and>
         spub_releaseVersion r = None \<and>
         (case spub_content r of JStr t \<Rightarrow> between1 20000 t | _ \<Rightarrow> False)
     | update_note \<Rightarrow>
         spub_category r = None \<and>
         (case spub_releaseVersion r of None \<Rightarrow> False | Some v \<Rightarrow> between1 40 v) \<and>
         string_list_100 (spub_content r))"

text \<open>The declaration order of \<open>policySlugSchema.options\<close>, which the public list follows.\<close>

datatype policy_slug = privacy | terms | copyright | email_policy | ga

primrec policy_slug_index :: "policy_slug \<Rightarrow> nat" where
  "policy_slug_index privacy = 0"
| "policy_slug_index terms = 1"
| "policy_slug_index copyright = 2"
| "policy_slug_index email_policy = 3"
| "policy_slug_index ga = 4"

record service_policy_row =
  pol_id :: eid
  pol_slug :: policy_slug
  pol_version :: nat
  pol_title :: string
  pol_description :: string
  pol_effectiveOn :: string
  pol_content :: json
  pol_changeNotice :: "string option"
  pol_isPublished :: bool

definition service_policy_check :: "service_policy_row \<Rightarrow> bool" where
  "service_policy_check r \<longleftrightarrow>
    0 < pol_version r \<and> between1 200 (pol_title r) \<and> between1 500 (pol_description r) \<and>
    string_list_100 (pol_content r) \<and>
    (case pol_changeNotice r of None \<Rightarrow> True | Some n \<Rightarrow> between1 2000 n)"

section \<open>Waveforms\<close>

datatype waveform_status = QUEUED | RUNNING | SUCCEEDED | FAILED

datatype waveform_error =
    ENQUEUE_FAILED_JOB | PROCESSING_FAILED | DLQ | DELIVERY_EXPIRED | SOURCE_CHANGED

text \<open>\<open>^[A-Za-z0-9_-]{11}$\<close>.\<close>

definition is_video_char :: "char \<Rightarrow> bool" where
  "is_video_char c \<longleftrightarrow>
    (let n = (of_char c :: nat) in
     (65 \<le> n \<and> n \<le> 90) \<or> (97 \<le> n \<and> n \<le> 122) \<or> (48 \<le> n \<and> n \<le> 57) \<or>
     c = CHR ''_'' \<or> c = CHR ''-'')"

definition is_video_id :: "string \<Rightarrow> bool" where
  "is_video_id s \<longleftrightarrow> length s = 11 \<and> list_all is_video_char s"

record waveform_job_row =
  job_id :: eid
  job_songId :: eid
  job_videoId :: string
  job_status :: waveform_status
  job_attemptId :: "eid option"
  job_errorCode :: "waveform_error option"
  job_enqueuedAt :: "instant option"
  job_createdAt :: instant
  job_startedAt :: "instant option"
  job_finishedAt :: "instant option"

definition job_terminal :: "waveform_job_row \<Rightarrow> bool" where
  "job_terminal r \<longleftrightarrow> job_status r = SUCCEEDED \<or> job_status r = FAILED"

definition waveform_job_check :: "waveform_job_row \<Rightarrow> bool" where
  "waveform_job_check r \<longleftrightarrow>
    is_video_id (job_videoId r) \<and>
    job_terminal r = (job_finishedAt r \<noteq> None) \<and>
    (job_status r \<in> {RUNNING, SUCCEEDED} \<longrightarrow> job_attemptId r \<noteq> None \<and> job_startedAt r \<noteq> None) \<and>
    (job_status r = FAILED) = (job_errorCode r \<noteq> None)"

record requester_row =
  req_jobId :: eid
  req_accountId :: eid

record peaks_data =
  peaks_version :: nat
  peaks_channels :: "nat option"
  peaks_sample_rate :: int
  peaks_samples_per_pixel :: int
  peaks_length :: int
  peaks_values :: "int list"

record waveform_data =
  wav_durationMs :: int
  wav_bucketSizeMs :: jsnum
  wav_peaks :: peaks_data
  wav_sourceId :: string

record waveform_row =
  wf_id :: eid
  wf_songId :: eid
  wf_videoId :: string
  wf_data :: waveform_data
  wf_generatedAt :: instant

definition waveform_check :: "waveform_row \<Rightarrow> bool" where
  "waveform_check r \<longleftrightarrow> is_video_id (wf_videoId r)"

section \<open>Operator sessions\<close>

record operator_session_row =
  ops_id :: eid
  ops_deviceHash :: string
  ops_userCodeHash :: string
  ops_accountId :: "eid option"
  ops_mfaVersion :: "nat option"
  ops_createdAt :: instant
  ops_expiresAt :: instant
  ops_approvedAt :: "instant option"
  ops_exchangedAt :: "instant option"
  ops_tokenHash :: "string option"
  ops_tokenExpiresAt :: "instant option"
  ops_revokedAt :: "instant option"

definition ops_approval_check :: "operator_session_row \<Rightarrow> bool" where
  "ops_approval_check r \<longleftrightarrow>
    (case (ops_approvedAt r, ops_accountId r, ops_mfaVersion r) of
       (None, None, None) \<Rightarrow> True
     | (Some ap, Some _, Some v) \<Rightarrow> 0 < v \<and> ops_createdAt r \<le> ap \<and> ap < ops_expiresAt r
     | _ \<Rightarrow> False)"

definition ops_exchange_check :: "operator_session_row \<Rightarrow> bool" where
  "ops_exchange_check r \<longleftrightarrow>
    (case (ops_exchangedAt r, ops_tokenHash r, ops_tokenExpiresAt r) of
       (None, None, None) \<Rightarrow> True
     | (Some ex, Some _, Some te) \<Rightarrow>
         (case ops_approvedAt r of None \<Rightarrow> False | Some ap \<Rightarrow> ap \<le> ex) \<and>
         ex < ops_expiresAt r \<and> ex < te
     | _ \<Rightarrow> False)"

definition ops_revocation_check :: "operator_session_row \<Rightarrow> bool" where
  "ops_revocation_check r \<longleftrightarrow>
    (case ops_revokedAt r of
       None \<Rightarrow> True
     | Some rv \<Rightarrow> (case ops_exchangedAt r of None \<Rightarrow> False | Some ex \<Rightarrow> ex \<le> rv))"

text \<open>\<open>^[a-f0-9]{64}$\<close>.\<close>

definition is_hex_lower :: "char \<Rightarrow> bool" where
  "is_hex_lower c \<longleftrightarrow> (let n = (of_char c :: nat) in (48 \<le> n \<and> n \<le> 57) \<or> (97 \<le> n \<and> n \<le> 102))"

definition is_sha256_hex :: "string \<Rightarrow> bool" where
  "is_sha256_hex s \<longleftrightarrow> length s = 64 \<and> list_all is_hex_lower s"

definition ops_hash_check :: "operator_session_row \<Rightarrow> bool" where
  "ops_hash_check r \<longleftrightarrow>
    is_sha256_hex (ops_deviceHash r) \<and> is_sha256_hex (ops_userCodeHash r) \<and>
    (case ops_tokenHash r of None \<Rightarrow> True | Some h \<Rightarrow> is_sha256_hex h)"

definition operator_session_check :: "operator_session_row \<Rightarrow> bool" where
  "operator_session_check r \<longleftrightarrow>
    ops_hash_check r \<and> ops_createdAt r < ops_expiresAt r \<and>
    ops_approval_check r \<and> ops_exchange_check r \<and> ops_revocation_check r"

section \<open>The database\<close>

record db =
  accounts :: "account_row list"
  profiles :: "profile_row list"
  credentials :: "credential_row list"
  mfas :: "mfa_row list"
  notifications :: "notification_row list"
  installations :: "installation_row list"
  deliveries :: "delivery_row list"
  challenges :: "challenge_row list"
  rate_limits :: "rate_limit_row list"
  albums :: "album_row list"
  songs :: "song_row list"
  guides :: "guide_row list"
  snapshots :: "snapshot_row list"
  publications :: "publication_row list"
  service_publications :: "service_publication_row list"
  service_policies :: "service_policy_row list"
  jobs :: "waveform_job_row list"
  requesters :: "requester_row list"
  waveforms :: "waveform_row list"
  operator_sessions :: "operator_session_row list"

definition empty_db :: db where
  "empty_db = \<lparr>accounts = [], profiles = [], credentials = [], mfas = [], notifications = [],
    installations = [], deliveries = [], challenges = [], rate_limits = [], albums = [], songs = [],
    guides = [], snapshots = [], publications = [], service_publications = [],
    service_policies = [], jobs = [], requesters = [], waveforms = [], operator_sessions = []\<rparr>"

section \<open>Lemmas\<close>

lemma toLowerCase_simps [simp]:
  "toLowerCase [] = []" "toLowerCase (c # cs) = lower_char c # toLowerCase cs"
  by (simp_all add: toLowerCase_def)

lemma length_toLowerCase [simp]: "length (toLowerCase s) = length s"
  by (simp add: toLowerCase_def)

lemma btrim_Nil_iff: "btrim s = [] \<longleftrightarrow> (\<forall>c \<in> set s. c = CHR '' '')"
proof -
  have "btrim s = [] \<longleftrightarrow> (\<forall>c \<in> set (dropWhile (\<lambda>c. c = CHR '' '') s). c = CHR '' '')"
    by (simp add: btrim_def)
  also have "\<dots> \<longleftrightarrow> (\<forall>c \<in> set s. c = CHR '' '')"
    by (induction s) auto
  finally show ?thesis .
qed

lemma not_blank_btrim: "\<not> blank s \<Longrightarrow> btrim s \<noteq> []"
  by (auto simp: blank_iff btrim_Nil_iff is_space_def)

lemma is_array_lyrics_json [simp]: "is_array (lyrics_json ls)"
  by (simp add: lyrics_json_def)

lemma is_array_of_lyrics: "lyricsDataSchema j = Some ls \<Longrightarrow> is_array j"
  by (cases j) auto

end
