(* ===== verification/GuideStore.thy ===== *)
theory GuideStore imports Schema begin

text \<open>
  The repository of cheer guides (\<open>packages/server/src/repositories/cheer-guide-repository.ts\<close>): the
  statements the guide services are composed of, the well-formedness of the guide tables, and the
  proof that every statement keeps it.  Fresh identifiers (UUIDv7 from the \<open>uuid\<close> package) and the
  database clock are arguments.
\<close>

section \<open>Statements\<close>

definition lockSongForGuideWrite :: "db \<Rightarrow> eid \<Rightarrow> song_row option" where
  "lockSongForGuideWrite s i = lookup song_id i (songs s)"

definition findCheerGuideIdentity :: "db \<Rightarrow> eid \<Rightarrow> (eid \<times> eid) option" where
  "findCheerGuideIdentity s i =
    map_option (\<lambda>g. (guide_id g, guide_songId g)) (lookup guide_id i (guides s))"

text \<open>\<open>insertGuideDraft\<close>: \<open>on conflict (song_id, mode) do nothing\<close>; the columns not given default.\<close>

definition new_guide :: "eid \<Rightarrow> eid \<Rightarrow> guide_mode \<Rightarrow> bool \<Rightarrow> instant \<Rightarrow> guide_row" where
  "new_guide i songId mode legacy now =
    \<lparr>guide_id = i, guide_songId = songId, guide_mode = mode, guide_legacyWriteTarget = legacy,
     guide_currentPublicationId = None, guide_workingSnapshotId = None, guide_lockVersion = 1,
     guide_createdAt = now, guide_updatedAt = now\<rparr>"

definition insertGuideDraft :: "db \<Rightarrow> eid \<Rightarrow> eid \<Rightarrow> guide_mode \<Rightarrow> instant \<Rightarrow> eid option \<times> db" where
  "insertGuideDraft s i songId mode now =
    (if list_ex (\<lambda>g. guide_songId g = songId \<and> guide_mode g = mode) (guides s) then (None, s)
     else (Some i, s\<lparr>guides := guides s @ [new_guide i songId mode False now]\<rparr>))"

definition lockLegacyGuide :: "db \<Rightarrow> eid \<Rightarrow> guide_row option" where
  "lockLegacyGuide s songId =
    find (\<lambda>g. guide_songId g = songId \<and> guide_legacyWriteTarget g) (guides s)"

text \<open>The action of a publication joined with the snapshot it publishes.\<close>

definition findGuidePublication :: "db \<Rightarrow> eid \<Rightarrow> eid \<Rightarrow> (guide_action \<times> snapshot_row) option" where
  "findGuidePublication s guideId publicationId =
    (case find (\<lambda>p. pub_id p = publicationId \<and> pub_cheerGuideId p = guideId) (publications s) of
       None \<Rightarrow> None
     | Some p \<Rightarrow> map_option (\<lambda>sn. (pub_action p, sn)) (lookup snap_id (pub_snapshotId p) (snapshots s)))"

definition claim_pred :: "eid \<Rightarrow> nat \<Rightarrow> guide_row \<Rightarrow> bool" where
  "claim_pred i expected g \<longleftrightarrow> guide_id g = i \<and> guide_lockVersion g = expected"

definition claim_set :: "instant \<Rightarrow> guide_row \<Rightarrow> guide_row" where
  "claim_set now g = g\<lparr>guide_lockVersion := guide_lockVersion g + 1, guide_updatedAt := now\<rparr>"

definition claimGuideVersion :: "db \<Rightarrow> eid \<Rightarrow> nat \<Rightarrow> instant \<Rightarrow> nat option \<times> db" where
  "claimGuideVersion s i expected now =
    (map_option guide_lockVersion
       (first_row (returning (claim_pred i expected) (claim_set now) (guides s))),
     s\<lparr>guides := update_where (claim_pred i expected) (claim_set now) (guides s)\<rparr>)"

text \<open>The columns a caller gives; the number is computed by the statement.\<close>

record snapshot_data =
  sd_cheerGuideId :: eid
  sd_lyrics :: json
  sd_referenceYoutubeId :: string
  sd_sourceType :: source_type
  sd_sourceUrl :: "string option"
  sd_guideVideoUrl :: "string option"
  sd_description :: "string option"
  sd_createdByAccountId :: "eid option"
  sd_changeSummary :: string

definition snapshot_of :: "eid \<Rightarrow> nat \<Rightarrow> instant \<Rightarrow> snapshot_data \<Rightarrow> snapshot_row" where
  "snapshot_of i n now d =
    \<lparr>snap_id = i, snap_cheerGuideId = sd_cheerGuideId d, snap_versionNo = n,
     snap_lyrics = sd_lyrics d, snap_referenceYoutubeId = sd_referenceYoutubeId d,
     snap_sourceType = sd_sourceType d, snap_sourceUrl = sd_sourceUrl d,
     snap_guideVideoUrl = sd_guideVideoUrl d, snap_description = sd_description d,
     snap_createdByAccountId = sd_createdByAccountId d, snap_changeSummary = sd_changeSummary d,
     snap_createdAt = now\<rparr>"

definition snapshot_numbers :: "db \<Rightarrow> eid \<Rightarrow> nat list" where
  "snapshot_numbers s g =
    map snap_versionNo (filter (\<lambda>r. snap_cheerGuideId r = g) (snapshots s))"

definition insertNextGuideSnapshot :: "db \<Rightarrow> eid \<Rightarrow> instant \<Rightarrow> snapshot_data \<Rightarrow> db" where
  "insertNextGuideSnapshot s i now d =
    s\<lparr>snapshots := snapshots s @
      [snapshot_of i (next_no (snapshot_numbers s (sd_cheerGuideId d))) now d]\<rparr>"

record publication_data =
  pd_cheerGuideId :: eid
  pd_snapshotId :: eid
  pd_action :: guide_action
  pd_actorAccountId :: eid
  pd_reason :: string

definition publication_of :: "eid \<Rightarrow> nat \<Rightarrow> instant \<Rightarrow> publication_data \<Rightarrow> publication_row" where
  "publication_of i n now d =
    \<lparr>pub_id = i, pub_cheerGuideId = pd_cheerGuideId d, pub_publicationNo = n,
     pub_action = pd_action d, pub_snapshotId = pd_snapshotId d,
     pub_actorAccountId = pd_actorAccountId d, pub_reason = pd_reason d, pub_createdAt = now\<rparr>"

definition publication_numbers :: "db \<Rightarrow> eid \<Rightarrow> nat list" where
  "publication_numbers s g =
    map pub_publicationNo (filter (\<lambda>r. pub_cheerGuideId r = g) (publications s))"

definition insertNextGuidePublication :: "db \<Rightarrow> eid \<Rightarrow> instant \<Rightarrow> publication_data \<Rightarrow> db" where
  "insertNextGuidePublication s i now d =
    s\<lparr>publications := publications s @
      [publication_of i (next_no (publication_numbers s (pd_cheerGuideId d))) now d]\<rparr>"

definition setGuidePublication :: "db \<Rightarrow> eid \<Rightarrow> eid \<Rightarrow> db" where
  "setGuidePublication s i publicationId =
    s\<lparr>guides := update_where (\<lambda>g. guide_id g = i)
      (\<lambda>g. g\<lparr>guide_currentPublicationId := Some publicationId\<rparr>) (guides s)\<rparr>"

definition setGuideWorkingSnapshot :: "db \<Rightarrow> eid \<Rightarrow> eid \<Rightarrow> db" where
  "setGuideWorkingSnapshot s i snapshotId =
    s\<lparr>guides := update_where (\<lambda>g. guide_id g = i)
      (\<lambda>g. g\<lparr>guide_workingSnapshotId := Some snapshotId\<rparr>) (guides s)\<rparr>"

definition guideHasHistory :: "db \<Rightarrow> eid \<Rightarrow> bool" where
  "guideHasHistory s i \<longleftrightarrow>
    list_ex (\<lambda>r. snap_cheerGuideId r = i) (snapshots s) \<or>
    list_ex (\<lambda>r. pub_cheerGuideId r = i) (publications s)"

text \<open>
  The history test of the DELETE reads the statement's snapshot \<open>seen\<close>; the foreign keys are checked
  against the rows present when the delete happens, so a history inserted in between raises.
\<close>

definition removeEmptyCheerGuide :: "db \<Rightarrow> db \<Rightarrow> eid \<Rightarrow> (eid option, db) use_case" where
  "removeEmptyCheerGuide seen s i =
    (case lookup guide_id i (guides s) of
       None \<Rightarrow> (Inr None, s)
     | Some g \<Rightarrow>
         (if guideHasHistory seen i then (Inr None, s)
          else if guideHasHistory s i then (Inl CheerGuideReferenceError, s)
          else (Inr (Some i), s\<lparr>guides := delete_where (\<lambda>g. guide_id g = i) (guides s)\<rparr>)))"

text \<open>
  \<open>findGuideEditorRecord\<close>: the snapshot an editor starts from is the working one, else the
  published one, else the newest by number; song, album and snapshot are inner joins.
\<close>

record editor_record =
  er_guide :: guide_row
  er_song :: song_row
  er_album :: album_row
  er_snapshot :: snapshot_row

definition latest_snapshot :: "db \<Rightarrow> eid \<Rightarrow> eid option" where
  "latest_snapshot s i =
    map_option snap_id (first_row (rev (sort_key snap_versionNo
      (filter (\<lambda>r. snap_cheerGuideId r = i) (snapshots s)))))"

definition editor_snapshot_id :: "db \<Rightarrow> guide_row \<Rightarrow> eid option" where
  "editor_snapshot_id s g =
    (case guide_workingSnapshotId g of
       Some i \<Rightarrow> Some i
     | None \<Rightarrow>
         (case Option.bind (guide_currentPublicationId g) (\<lambda>i. lookup pub_id i (publications s)) of
            Some p \<Rightarrow> Some (pub_snapshotId p)
          | None \<Rightarrow> latest_snapshot s (guide_id g)))"

definition findGuideEditorRecord :: "db \<Rightarrow> eid \<Rightarrow> editor_record option" where
  "findGuideEditorRecord s i =
    Option.bind (lookup guide_id i (guides s)) (\<lambda>g.
    Option.bind (lookup song_id (guide_songId g) (songs s)) (\<lambda>so.
    Option.bind (lookup album_id (song_albumId so) (albums s)) (\<lambda>al.
    Option.bind (editor_snapshot_id s g) (\<lambda>si.
    Option.bind (find (\<lambda>r. snap_id r = si \<and> snap_cheerGuideId r = guide_id g) (snapshots s)) (\<lambda>sn.
      Some \<lparr>er_guide = g, er_song = so, er_album = al, er_snapshot = sn\<rparr>)))))"

section \<open>Well-formed guide tables\<close>

text \<open>The UNIQUE constraints.\<close>

definition guide_keys :: "db \<Rightarrow> bool" where
  "guide_keys s \<longleftrightarrow>
    distinct (map guide_id (guides s)) \<and>
    distinct (map snap_id (snapshots s)) \<and>
    distinct (map pub_id (publications s)) \<and>
    distinct (map (\<lambda>g. (guide_songId g, guide_mode g)) (guides s)) \<and>
    distinct (map guide_songId (filter guide_legacyWriteTarget (guides s)))"

text \<open>The FOREIGN KEY constraints; the pointers of a guide stay within its own history.\<close>

definition pointer_ok :: "(eid \<times> eid) set \<Rightarrow> eid \<Rightarrow> eid option \<Rightarrow> bool" where
  "pointer_ok ks g p \<longleftrightarrow> (case p of None \<Rightarrow> True | Some i \<Rightarrow> (g, i) \<in> ks)"

definition snapshot_keys :: "db \<Rightarrow> (eid \<times> eid) set" where
  "snapshot_keys s = (\<lambda>r. (snap_cheerGuideId r, snap_id r)) ` set (snapshots s)"

definition publication_keys :: "db \<Rightarrow> (eid \<times> eid) set" where
  "publication_keys s = (\<lambda>r. (pub_cheerGuideId r, pub_id r)) ` set (publications s)"

definition account_ids :: "db \<Rightarrow> eid set" where
  "account_ids s = account_id ` set (accounts s)"

definition guide_row_links :: "db \<Rightarrow> guide_row \<Rightarrow> bool" where
  "guide_row_links s g \<longleftrightarrow>
    guide_songId g \<in> song_id ` set (songs s) \<and>
    pointer_ok (publication_keys s) (guide_id g) (guide_currentPublicationId g) \<and>
    pointer_ok (snapshot_keys s) (guide_id g) (guide_workingSnapshotId g)"

definition snapshot_row_links :: "db \<Rightarrow> snapshot_row \<Rightarrow> bool" where
  "snapshot_row_links s r \<longleftrightarrow>
    snap_cheerGuideId r \<in> guide_id ` set (guides s) \<and>
    (case snap_createdByAccountId r of None \<Rightarrow> True | Some a \<Rightarrow> a \<in> account_ids s)"

definition publication_row_links :: "db \<Rightarrow> publication_row \<Rightarrow> bool" where
  "publication_row_links s r \<longleftrightarrow>
    pub_cheerGuideId r \<in> guide_id ` set (guides s) \<and>
    (pub_cheerGuideId r, pub_snapshotId r) \<in> snapshot_keys s \<and>
    pub_actorAccountId r \<in> account_ids s"

definition guide_links :: "db \<Rightarrow> bool" where
  "guide_links s \<longleftrightarrow>
    (\<forall>g \<in> set (guides s). guide_row_links s g) \<and>
    (\<forall>r \<in> set (snapshots s). snapshot_row_links s r) \<and>
    (\<forall>r \<in> set (publications s). publication_row_links s r)"

definition guide_checks :: "db \<Rightarrow> bool" where
  "guide_checks s \<longleftrightarrow>
    (\<forall>g \<in> set (guides s). guide_check g) \<and>
    (\<forall>r \<in> set (snapshots s). snapshot_check r) \<and>
    (\<forall>r \<in> set (publications s). publication_check r)"

text \<open>Histories are numbered 1, 2, 3, ... without gaps, in the order of their insertion.\<close>

definition guide_histories :: "db \<Rightarrow> bool" where
  "guide_histories s \<longleftrightarrow>
    (\<forall>i. gapless (snapshot_numbers s i)) \<and> (\<forall>i. gapless (publication_numbers s i))"

definition guides_wf :: "db \<Rightarrow> bool" where
  "guides_wf s \<longleftrightarrow> guide_keys s \<and> guide_links s \<and> guide_checks s \<and> guide_histories s"

lemmas guides_wf_defs = guides_wf_def guide_keys_def guide_links_def guide_checks_def
  guide_histories_def
lemmas link_defs = guide_row_links_def snapshot_row_links_def publication_row_links_def
  pointer_ok_def snapshot_keys_def publication_keys_def account_ids_def

section \<open>The contracts of the statements\<close>

definition guide_version :: "db \<Rightarrow> eid \<Rightarrow> nat option" where
  "guide_version s i = map_option guide_lockVersion (lookup guide_id i (guides s))"

lemma claim_set_simps [simp]:
  "guide_id (claim_set now g) = guide_id g"
  "guide_songId (claim_set now g) = guide_songId g"
  "guide_mode (claim_set now g) = guide_mode g"
  "guide_legacyWriteTarget (claim_set now g) = guide_legacyWriteTarget g"
  "guide_currentPublicationId (claim_set now g) = guide_currentPublicationId g"
  "guide_workingSnapshotId (claim_set now g) = guide_workingSnapshotId g"
  "guide_lockVersion (claim_set now g) = Suc (guide_lockVersion g)"
  by (simp_all add: claim_set_def)

lemma guides_claim [simp]:
  "guides (snd (claimGuideVersion s i v now)) =
    update_where (claim_pred i v) (claim_set now) (guides s)"
  by (simp add: claimGuideVersion_def)

lemma claim_result:
  assumes "guide_keys s"
  shows "fst (claimGuideVersion s i v now) =
    (if guide_version s i = Some v then Some (Suc v) else None)"
proof -
  have "first_row (returning (claim_pred i v) (claim_set now) (guides s)) =
      (case lookup guide_id i (guides s) of None \<Rightarrow> None
       | Some g \<Rightarrow> if guide_lockVersion g = v then Some (claim_set now g) else None)"
    unfolding claim_pred_def using assms
    by (intro returning_key_lookup) (simp add: guide_keys_def)
  then show ?thesis
    by (auto simp: claimGuideVersion_def guide_version_def split: option.splits)
qed

lemma claim_no_rows:
  assumes "guide_keys s" and "guide_version s i \<noteq> Some v"
  shows "claimGuideVersion s i v now = (None, s)"
proof -
  have "returning (claim_pred i v) (claim_set now) (guides s) = []"
    using claim_result [OF assms(1), of i v now] assms(2)
    by (simp add: claimGuideVersion_def)
  then show ?thesis
    by (simp add: claimGuideVersion_def returning_empty_update)
qed

lemma claim_keeps_keys: "guide_keys s \<Longrightarrow> guide_keys (snd (claimGuideVersion s i v now))"
proof -
  have "map guide_songId (filter guide_legacyWriteTarget (update_where p (claim_set now) t)) =
      map guide_songId (filter guide_legacyWriteTarget t)" for p t
    by (simp add: filter_update_where map_key_update_where)
  then show "guide_keys s \<Longrightarrow> ?thesis"
    by (simp add: guide_keys_def map_key_update_where) (simp add: claimGuideVersion_def)
qed

lemma claim_version_other:
  "k \<noteq> i \<Longrightarrow> guide_version (snd (claimGuideVersion s i v now)) k = guide_version s k"
  by (auto simp: guide_version_def lookup_update_where claim_pred_def dest: lookup_SomeD
      split: option.splits intro!: arg_cong2 [where f = map_option])
    (auto simp: lookup_def map_option_case dest: find_Some_iff [THEN iffD1] split: option.splits)

lemma claim_version_hit:
  assumes "guide_version s i = Some v"
  shows "guide_version (snd (claimGuideVersion s i v now)) i = Some (Suc v)"
proof -
  from assms obtain g where g: "lookup guide_id i (guides s) = Some g" "guide_lockVersion g = v"
    by (auto simp: guide_version_def)
  with lookup_SomeD [OF g(1)] show ?thesis
    by (simp add: guide_version_def lookup_update_where claim_pred_def)
qed

interpretation guide_claims: versioned guide_version "\<lambda>s i v. claimGuideVersion s i v now" guide_keys
  for now
proof
  fix s k v
  assume s: "guide_keys s"
  show "guide_keys (snd (claimGuideVersion s k v now))" using s by (rule claim_keeps_keys)
  show "claimGuideVersion s k v now = (None, s)" if "guide_version s k \<noteq> Some v"
    using s that by (rule claim_no_rows)
  show "fst (claimGuideVersion s k v now) = Some (Suc v) \<and>
      guide_version (snd (claimGuideVersion s k v now)) k = Some (Suc v)"
    if "guide_version s k = Some v"
    using s that by (simp add: claim_result claim_version_hit)
  show "guide_version (snd (claimGuideVersion s k v now)) k' = guide_version s k'"
    if "k' \<noteq> k" for k'
    using that by (rule claim_version_other)
qed

interpretation snapshot_history: numbered_history snapshots snap_cheerGuideId snap_versionNo
    "\<lambda>s (i, now, d). insertNextGuideSnapshot s i now d" "\<lambda>(i, now, d). sd_cheerGuideId d"
  rewrites "numbered_history.numbers snapshots snap_cheerGuideId snap_versionNo = snapshot_numbers"
proof -
  show h: "numbered_history snapshots snap_cheerGuideId snap_versionNo
      (\<lambda>s (i, now, d). insertNextGuideSnapshot s i now d) (\<lambda>(i, now, d). sd_cheerGuideId d)"
    by unfold_locales
      (auto simp: insertNextGuideSnapshot_def snapshot_of_def snapshot_numbers_def)
  show "numbered_history.numbers snapshots snap_cheerGuideId snap_versionNo = snapshot_numbers"
    by (intro ext) (simp add: numbered_history.numbers_def [OF h] snapshot_numbers_def)
qed

interpretation publication_history: numbered_history publications pub_cheerGuideId pub_publicationNo
    "\<lambda>s (i, now, d). insertNextGuidePublication s i now d" "\<lambda>(i, now, d). pd_cheerGuideId d"
  rewrites "numbered_history.numbers publications pub_cheerGuideId pub_publicationNo =
    publication_numbers"
proof -
  show h: "numbered_history publications pub_cheerGuideId pub_publicationNo
      (\<lambda>s (i, now, d). insertNextGuidePublication s i now d) (\<lambda>(i, now, d). pd_cheerGuideId d)"
    by unfold_locales
      (auto simp: insertNextGuidePublication_def publication_of_def publication_numbers_def)
  show "numbered_history.numbers publications pub_cheerGuideId pub_publicationNo =
      publication_numbers"
    by (intro ext) (simp add: numbered_history.numbers_def [OF h] publication_numbers_def)
qed

section \<open>Every statement keeps the tables well-formed\<close>

lemma key_frames [simp]:
  "snapshot_keys (s\<lparr>guides := gs\<rparr>) = snapshot_keys s"
  "snapshot_keys (s\<lparr>publications := ps\<rparr>) = snapshot_keys s"
  "snapshot_keys (s\<lparr>songs := so\<rparr>) = snapshot_keys s"
  "publication_keys (s\<lparr>guides := gs\<rparr>) = publication_keys s"
  "publication_keys (s\<lparr>snapshots := ns\<rparr>) = publication_keys s"
  "publication_keys (s\<lparr>songs := so\<rparr>) = publication_keys s"
  "account_ids (s\<lparr>guides := gs\<rparr>) = account_ids s"
  "account_ids (s\<lparr>snapshots := ns\<rparr>) = account_ids s"
  "account_ids (s\<lparr>publications := ps\<rparr>) = account_ids s"
  "account_ids (s\<lparr>songs := so\<rparr>) = account_ids s"
  by (simp_all add: snapshot_keys_def publication_keys_def account_ids_def)

lemma number_frames [simp]:
  "snapshot_numbers (s\<lparr>guides := gs\<rparr>) = snapshot_numbers s"
  "snapshot_numbers (s\<lparr>publications := ps\<rparr>) = snapshot_numbers s"
  "snapshot_numbers (s\<lparr>songs := so\<rparr>) = snapshot_numbers s"
  "publication_numbers (s\<lparr>guides := gs\<rparr>) = publication_numbers s"
  "publication_numbers (s\<lparr>snapshots := ns\<rparr>) = publication_numbers s"
  "publication_numbers (s\<lparr>songs := so\<rparr>) = publication_numbers s"
  by (simp_all add: snapshot_numbers_def publication_numbers_def fun_eq_iff)

lemma pointer_mono: "pointer_ok ks g p \<Longrightarrow> ks \<subseteq> ks' \<Longrightarrow> pointer_ok ks' g p"
  by (auto simp: pointer_ok_def split: option.splits)

lemma guide_row_links_mono:
  assumes "guide_row_links s g" and "song_id ` set (songs s) \<subseteq> song_id ` set (songs s')"
    and "publication_keys s \<subseteq> publication_keys s'" and "snapshot_keys s \<subseteq> snapshot_keys s'"
  shows "guide_row_links s' g"
  using assms unfolding guide_row_links_def by (meson pointer_mono subsetD)

lemma snapshot_row_links_mono:
  assumes "snapshot_row_links s r" and "guide_id ` set (guides s) \<subseteq> guide_id ` set (guides s')"
    and "account_ids s \<subseteq> account_ids s'"
  shows "snapshot_row_links s' r"
  using assms unfolding snapshot_row_links_def by (auto split: option.splits)

lemma publication_row_links_mono:
  assumes "publication_row_links s r" and "guide_id ` set (guides s) \<subseteq> guide_id ` set (guides s')"
    and "snapshot_keys s \<subseteq> snapshot_keys s'" and "account_ids s \<subseteq> account_ids s'"
  shows "publication_row_links s' r"
  using assms unfolding publication_row_links_def by blast

lemmas row_links_mono = guide_row_links_mono snapshot_row_links_mono publication_row_links_mono

definition same_identity :: "guide_row \<Rightarrow> guide_row \<Rightarrow> bool" where
  "same_identity g h \<longleftrightarrow>
    guide_id g = guide_id h \<and> guide_songId g = guide_songId h \<and> guide_mode g = guide_mode h \<and>
    guide_legacyWriteTarget g = guide_legacyWriteTarget h"

lemma guides_update_wf:
  assumes wf: "guides_wf s"
    and same: "\<And>g. same_identity (f g) g"
    and row: "\<And>g. g \<in> set (guides s) \<Longrightarrow> p g \<Longrightarrow> guide_row_links s (f g) \<and> guide_check (f g)"
  shows "guides_wf (s\<lparr>guides := update_where p f (guides s)\<rparr>)" (is "guides_wf ?s")
proof -
  have "\<And>g. guide_id (f g) = guide_id g" using same by (simp add: same_identity_def)
  then have ids: "guide_id ` set (guides ?s) = guide_id ` set (guides s)"
    by simp
  have "map guide_songId (filter guide_legacyWriteTarget (update_where p f t)) =
      map guide_songId (filter guide_legacyWriteTarget t)" for t
    using same by (simp add: filter_update_where map_key_update_where same_identity_def)
  then have keys: "guide_keys ?s"
    using wf same by (simp add: guides_wf_defs map_key_update_where same_identity_def)
  have links: "guide_links ?s"
    unfolding guide_links_def
  proof (intro conjI ballI)
    fix g assume "g \<in> set (guides ?s)"
    then have "guide_row_links s g" using wf row by (auto simp: set_update_where guides_wf_defs)
    then show "guide_row_links ?s g" by (rule guide_row_links_mono) simp_all
  next
    fix r assume "r \<in> set (snapshots ?s)"
    then have "snapshot_row_links s r" using wf by (simp add: guides_wf_defs)
    then show "snapshot_row_links ?s r" by (rule snapshot_row_links_mono) (simp_all only: ids, simp_all)
  next
    fix r assume "r \<in> set (publications ?s)"
    then have "publication_row_links s r" using wf by (simp add: guides_wf_defs)
    then show "publication_row_links ?s r" by (rule publication_row_links_mono) (simp_all only: ids, simp_all)
  qed
  have "guide_checks ?s"
    using wf row by (auto simp: guides_wf_defs set_update_where)
  moreover have "guide_histories ?s"
    using wf by (simp add: guides_wf_defs)
  ultimately show ?thesis using keys links by (simp add: guides_wf_def)
qed

lemma claim_wf: "guides_wf s \<Longrightarrow> guides_wf (snd (claimGuideVersion s i v now))"
  unfolding claimGuideVersion_def snd_conv
  by (rule guides_update_wf)
    (auto simp: same_identity_def guides_wf_defs guide_row_links_def guide_check_def)

lemma setGuidePublication_wf:
  "guides_wf s \<Longrightarrow> (i, p) \<in> publication_keys s \<Longrightarrow> guides_wf (setGuidePublication s i p)"
  unfolding setGuidePublication_def
  by (rule guides_update_wf)
    (auto simp: same_identity_def guides_wf_defs guide_row_links_def guide_check_def pointer_ok_def)

lemma setGuideWorkingSnapshot_wf:
  "guides_wf s \<Longrightarrow> (i, n) \<in> snapshot_keys s \<Longrightarrow> guides_wf (setGuideWorkingSnapshot s i n)"
  unfolding setGuideWorkingSnapshot_def
  by (rule guides_update_wf)
    (auto simp: same_identity_def guides_wf_defs guide_row_links_def guide_check_def pointer_ok_def)

definition snapshot_data_ok :: "db \<Rightarrow> snapshot_data \<Rightarrow> bool" where
  "snapshot_data_ok s d \<longleftrightarrow>
    sd_cheerGuideId d \<in> guide_id ` set (guides s) \<and>
    (case sd_createdByAccountId d of None \<Rightarrow> True | Some a \<Rightarrow> a \<in> account_ids s) \<and>
    is_array (sd_lyrics d) \<and> btrim (sd_referenceYoutubeId d) \<noteq> [] \<and>
    source_ok (sd_sourceType d) (sd_sourceUrl d) \<and> btrim (sd_changeSummary d) \<noteq> []"

lemma insertNextGuideSnapshot_wf:
  assumes wf: "guides_wf s" and ok: "snapshot_data_ok s d" and fresh: "i \<notin> snap_id ` set (snapshots s)"
  shows "guides_wf (insertNextGuideSnapshot s i now d)"
proof -
  let ?s = "insertNextGuideSnapshot s i now d"
  have keys: "snapshot_keys ?s = insert (sd_cheerGuideId d, i) (snapshot_keys s)"
    by (auto simp: insertNextGuideSnapshot_def snapshot_keys_def snapshot_of_def)
  have "guide_keys ?s"
    using wf fresh by (simp add: guides_wf_defs insertNextGuideSnapshot_def snapshot_of_def)
  moreover have "guide_links ?s"
    unfolding guide_links_def
  proof (intro conjI ballI)
    fix g assume "g \<in> set (guides ?s)"
    then have "guide_row_links s g" using wf by (simp add: guides_wf_defs insertNextGuideSnapshot_def)
    then show "guide_row_links ?s g"
      by (rule guide_row_links_mono) (simp_all only: keys, auto simp: insertNextGuideSnapshot_def)
  next
    fix r assume "r \<in> set (snapshots ?s)"
    then have "snapshot_row_links s r"
      using wf ok by (auto simp: guides_wf_defs insertNextGuideSnapshot_def snapshot_of_def
          snapshot_row_links_def snapshot_data_ok_def)
    then show "snapshot_row_links ?s r"
      by (rule snapshot_row_links_mono) (simp_all add: insertNextGuideSnapshot_def)
  next
    fix r assume "r \<in> set (publications ?s)"
    then have "publication_row_links s r"
      using wf by (simp add: guides_wf_defs insertNextGuideSnapshot_def)
    then show "publication_row_links ?s r"
      by (rule publication_row_links_mono) (simp_all only: keys, auto simp: insertNextGuideSnapshot_def)
  qed
  moreover have "guide_checks ?s"
    using wf ok by (auto simp: guides_wf_defs insertNextGuideSnapshot_def snapshot_check_def
        snapshot_of_def snapshot_data_ok_def next_no_def)
  moreover have "guide_histories ?s"
    using wf snapshot_history.push_gapless [of s "(i, now, d)"]
    by (auto simp: guides_wf_defs snapshot_history.wf_numbers_def insertNextGuideSnapshot_def
        publication_numbers_def)
  ultimately show ?thesis by (simp add: guides_wf_def)
qed

definition publication_data_ok :: "db \<Rightarrow> publication_data \<Rightarrow> bool" where
  "publication_data_ok s d \<longleftrightarrow>
    pd_cheerGuideId d \<in> guide_id ` set (guides s) \<and>
    (pd_cheerGuideId d, pd_snapshotId d) \<in> snapshot_keys s \<and>
    pd_actorAccountId d \<in> account_ids s \<and> btrim (pd_reason d) \<noteq> []"

lemma insertNextGuidePublication_wf:
  assumes wf: "guides_wf s" and ok: "publication_data_ok s d"
    and fresh: "i \<notin> pub_id ` set (publications s)"
  shows "guides_wf (insertNextGuidePublication s i now d)"
proof -
  let ?s = "insertNextGuidePublication s i now d"
  have keys: "publication_keys ?s = insert (pd_cheerGuideId d, i) (publication_keys s)"
    by (auto simp: insertNextGuidePublication_def publication_keys_def publication_of_def)
  have "guide_keys ?s"
    using wf fresh by (simp add: guides_wf_defs insertNextGuidePublication_def publication_of_def)
  moreover have "guide_links ?s"
    unfolding guide_links_def
  proof (intro conjI ballI)
    fix g assume "g \<in> set (guides ?s)"
    then have "guide_row_links s g"
      using wf by (simp add: guides_wf_defs insertNextGuidePublication_def)
    then show "guide_row_links ?s g"
      by (rule guide_row_links_mono) (simp_all only: keys, auto simp: insertNextGuidePublication_def)
  next
    fix r assume "r \<in> set (snapshots ?s)"
    then have "snapshot_row_links s r"
      using wf by (simp add: guides_wf_defs insertNextGuidePublication_def)
    then show "snapshot_row_links ?s r"
      by (rule snapshot_row_links_mono) (simp_all add: insertNextGuidePublication_def)
  next
    fix r assume "r \<in> set (publications ?s)"
    then have "publication_row_links s r"
      using wf ok by (auto simp: guides_wf_defs insertNextGuidePublication_def publication_of_def
          publication_row_links_def publication_data_ok_def)
    then show "publication_row_links ?s r"
      by (rule publication_row_links_mono) (simp_all add: insertNextGuidePublication_def)
  qed
  moreover have "guide_checks ?s"
    using wf ok by (auto simp: guides_wf_defs insertNextGuidePublication_def publication_check_def
        publication_of_def publication_data_ok_def next_no_def)
  moreover have "guide_histories ?s"
    using wf publication_history.push_gapless [of s "(i, now, d)"]
    by (auto simp: guides_wf_defs publication_history.wf_numbers_def
        insertNextGuidePublication_def snapshot_numbers_def)
  ultimately show ?thesis by (simp add: guides_wf_def)
qed

text \<open>A guide inserted with no pointers and a fresh identifier, song and mode.\<close>

lemma new_guide_wf:
  assumes wf: "guides_wf s" and fresh: "i \<notin> guide_id ` set (guides s)"
    and song: "songId \<in> song_id ` set (songs s)"
    and mode: "\<not> list_ex (\<lambda>g. guide_songId g = songId \<and> guide_mode g = mode) (guides s)"
    and legacy: "legacy \<Longrightarrow> \<not> list_ex (\<lambda>g. guide_songId g = songId \<and> guide_legacyWriteTarget g) (guides s)"
  shows "guides_wf (s\<lparr>guides := guides s @ [new_guide i songId mode legacy now]\<rparr>)" (is "guides_wf ?s")
proof -
  have "guide_keys ?s"
    using wf fresh mode legacy by (auto simp: guides_wf_defs new_guide_def list_ex_iff)
  moreover have "guide_links ?s"
    unfolding guide_links_def
  proof (intro conjI ballI)
    fix g assume "g \<in> set (guides ?s)"
    then have "guide_row_links s g"
      using wf song by (auto simp: guides_wf_defs guide_row_links_def new_guide_def pointer_ok_def)
    then show "guide_row_links ?s g" by (rule guide_row_links_mono) simp_all
  next
    fix r assume "r \<in> set (snapshots ?s)"
    then have "snapshot_row_links s r" using wf by (simp add: guides_wf_defs)
    then show "snapshot_row_links ?s r" by (rule snapshot_row_links_mono) auto
  next
    fix r assume "r \<in> set (publications ?s)"
    then have "publication_row_links s r" using wf by (simp add: guides_wf_defs)
    then show "publication_row_links ?s r" by (rule publication_row_links_mono) auto
  qed
  moreover have "guide_checks ?s"
    using wf by (auto simp: guides_wf_defs new_guide_def guide_check_def)
  moreover have "guide_histories ?s"
    using wf by (simp add: guides_wf_defs snapshot_numbers_def publication_numbers_def)
  ultimately show ?thesis by (simp add: guides_wf_def)
qed

lemma delete_empty_guide_wf:
  assumes wf: "guides_wf s" and empty: "\<not> guideHasHistory s i"
  shows "guides_wf (s\<lparr>guides := delete_where (\<lambda>g. guide_id g = i) (guides s)\<rparr>)" (is "guides_wf ?s")
proof -
  have "filter q (delete_where r t) = delete_where r (filter q t)" for q r and t :: "guide_row list"
    by (simp add: delete_where_def conj_commute)
  then have "guide_keys ?s"
    using wf by (simp add: guides_wf_defs distinct_delete_where)
  moreover have "guide_links ?s"
    unfolding guide_links_def
  proof (intro conjI ballI)
    fix g assume "g \<in> set (guides ?s)"
    then have "guide_row_links s g" using wf by (simp add: guides_wf_defs set_delete_where)
    then show "guide_row_links ?s g" by (rule guide_row_links_mono) simp_all
  next
    fix r assume "r \<in> set (snapshots ?s)"
    then have "snapshot_row_links s r" and "snap_cheerGuideId r \<noteq> i"
      using wf empty by (auto simp: guides_wf_defs guideHasHistory_def list_ex_iff)
    then show "snapshot_row_links ?s r"
      by (auto simp: snapshot_row_links_def set_delete_where split: option.splits)
  next
    fix r assume "r \<in> set (publications ?s)"
    then have "publication_row_links s r" and "pub_cheerGuideId r \<noteq> i"
      using wf empty by (auto simp: guides_wf_defs guideHasHistory_def list_ex_iff)
    then show "publication_row_links ?s r"
      by (auto simp: publication_row_links_def set_delete_where)
  qed
  moreover have "guide_checks ?s"
    using wf by (auto simp: guides_wf_defs set_delete_where)
  moreover have "guide_histories ?s"
    using wf by (simp add: guides_wf_defs snapshot_numbers_def publication_numbers_def)
  ultimately show ?thesis by (simp add: guides_wf_def)
qed

lemma songs_change_wf:
  assumes wf: "guides_wf s"
    and ids: "\<And>g. g \<in> set (guides s) \<Longrightarrow> guide_songId g \<in> song_id ` set so"
  shows "guides_wf (s\<lparr>songs := so\<rparr>)" (is "guides_wf ?s")
proof -
  have "guide_links ?s"
    unfolding guide_links_def
  proof (intro conjI ballI)
    fix g assume "g \<in> set (guides ?s)"
    with wf ids show "guide_row_links ?s g" by (simp add: guides_wf_defs guide_row_links_def)
  next
    fix r assume "r \<in> set (snapshots ?s)"
    then have "snapshot_row_links s r" using wf by (simp add: guides_wf_defs)
    then show "snapshot_row_links ?s r" by (rule snapshot_row_links_mono) simp_all
  next
    fix r assume "r \<in> set (publications ?s)"
    then have "publication_row_links s r" using wf by (simp add: guides_wf_defs)
    then show "publication_row_links ?s r" by (rule publication_row_links_mono) simp_all
  qed
  with wf show ?thesis by (simp add: guides_wf_defs)
qed

lemma song_update_wf:
  assumes wf: "guides_wf s" and "\<And>r. song_id (f r) = song_id r"
  shows "guides_wf (s\<lparr>songs := update_where p f (songs s)\<rparr>)"
proof (rule songs_change_wf [OF wf])
  fix g assume "g \<in> set (guides s)"
  with wf have "guide_songId g \<in> song_id ` set (songs s)"
    by (simp add: guides_wf_defs guide_row_links_def)
  with assms(2) show "guide_songId g \<in> song_id ` set (update_where p f (songs s))"
    by simp
qed

end
