(* ===== verification/Sample.thy ===== *)
theory Sample imports GuideStore begin

text \<open>
  A small concrete database and request contexts, on which the witnesses of the properties evaluate
  the model: two accounts, an album, a song with a published guide and a song without one.
\<close>

definition demo_line :: "string \<Rightarrow> lyric_line" where
  "demo_line t = \<lparr>line_startTime = 0,
    line_segments = [\<lparr>seg_text = t, seg_isCheer = False, seg_isEcho = False, seg_startTimeOffset = None\<rparr>],
    line_isExtra = False\<rparr>"

definition demo_lyrics :: lyrics_data where
  "demo_lyrics = [demo_line ''la'']"

definition demo_album :: album_row where
  "demo_album = \<lparr>album_id = ''al1'', album_name = ''First'', album_slug = ''first'',
    album_imgUrl = ''i'', album_color = ''c'', album_releaseDate = None, album_isVisible = True,
    album_createdAt = 0\<rparr>"

definition demo_song :: "eid \<Rightarrow> song_row" where
  "demo_song i = \<lparr>song_id = i, song_albumId = ''al1'', song_title = Some ''T'',
    song_youtubeId = Some ''dQw4w9WgXcQ'', song_lyrics = Some (lyrics_json demo_lyrics),
    song_hasOfficialCheer = Some False, song_isTitle = False, song_isVisible = True,
    song_order = Some 1, song_createdAt = Some 0, song_updatedAt = Some 0, song_slug = Some i\<rparr>"

definition demo_guide :: guide_row where
  "demo_guide = \<lparr>guide_id = ''g1'', guide_songId = ''so1'', guide_mode = CONCERT,
    guide_legacyWriteTarget = True, guide_currentPublicationId = Some ''p1'',
    guide_workingSnapshotId = None, guide_lockVersion = 1, guide_createdAt = 0, guide_updatedAt = 0\<rparr>"

definition demo_snapshot :: snapshot_row where
  "demo_snapshot = \<lparr>snap_id = ''sn1'', snap_cheerGuideId = ''g1'', snap_versionNo = 1,
    snap_lyrics = lyrics_json demo_lyrics, snap_referenceYoutubeId = ''dQw4w9WgXcQ'',
    snap_sourceType = FANDOM, snap_sourceUrl = None, snap_guideVideoUrl = None,
    snap_description = None, snap_createdByAccountId = Some ''adm'', snap_changeSummary = ''x'',
    snap_createdAt = 0\<rparr>"

definition demo_publication :: publication_row where
  "demo_publication = \<lparr>pub_id = ''p1'', pub_cheerGuideId = ''g1'', pub_publicationNo = 1,
    pub_action = PUBLISH, pub_snapshotId = ''sn1'', pub_actorAccountId = ''adm'', pub_reason = ''r'',
    pub_createdAt = 0\<rparr>"

definition demo_account :: "eid \<Rightarrow> account_role \<Rightarrow> account_row" where
  "demo_account i r = \<lparr>account_id = i, account_role = r, account_status = ACTIVE,
    account_createdAt = 0, account_deletedAt = None\<rparr>"

definition demo_db :: db where
  "demo_db = empty_db\<lparr>accounts := [demo_account ''adm'' ADMIN, demo_account ''usr'' USER],
    albums := [demo_album], songs := [demo_song ''so1'', demo_song ''so2''],
    guides := [demo_guide], snapshots := [demo_snapshot], publications := [demo_publication]\<rparr>"

definition demo_ctx :: "eid \<Rightarrow> account_role \<Rightarrow> request_context" where
  "demo_ctx i r = \<lparr>ctx_user = Some i,
    ctx_ability = buildAbility casl_reference \<lparr>facts_accountId = Some i, facts_role = Some r\<rparr>\<rparr>"

abbreviation admin_ctx :: request_context where
  "admin_ctx \<equiv> demo_ctx ''adm'' ADMIN"

lemmas demo_rows = demo_account_def demo_album_def demo_song_def demo_guide_def
  demo_snapshot_def demo_publication_def

lemma demo_ctx_user [simp]: "ctx_user (demo_ctx i r) = Some i"
  by (simp add: demo_ctx_def)

lemma admin_ctx_ability [simp]: "ctx_ability admin_ctx Manage All"
  by (simp add: demo_ctx_def buildAbility_def casl_reference_def list_ex_iff
      buildAbilityRules_manage_all truthy_def)

lemma demo_tables [simp]:
  "guides demo_db = [demo_guide]" "snapshots demo_db = [demo_snapshot]"
  "publications demo_db = [demo_publication]" "albums demo_db = [demo_album]"
  "songs demo_db = [demo_song ''so1'', demo_song ''so2'']"
  "accounts demo_db = [demo_account ''adm'' ADMIN, demo_account ''usr'' USER]"
  by (simp_all add: demo_db_def empty_db_def)

lemma demo_lyrics_json [simp]: "lyricsDataSchema (lyrics_json demo_lyrics) = Some demo_lyrics"
  by (rule lyricsDataSchema_json) (simp add: lyrics_ok_def line_ok_def segment_ok_def demo_lyrics_def demo_line_def)

lemma demo_keys [simp]:
  "account_ids demo_db = {''adm'', ''usr''}"
  "snapshot_keys demo_db = {(''g1'', ''sn1'')}" "publication_keys demo_db = {(''g1'', ''p1'')}"
  by (auto simp: account_ids_def snapshot_keys_def publication_keys_def demo_rows)

lemma demo_wf: "guides_wf demo_db"
proof -
  have "gapless (snapshot_numbers demo_db i)" "gapless (publication_numbers demo_db i)" for i
    by (simp_all add: snapshot_numbers_def publication_numbers_def demo_snapshot_def
        demo_publication_def gapless_def)
  then have "guide_histories demo_db" by (simp add: guide_histories_def)
  moreover have "guide_keys demo_db" by (simp add: guide_keys_def)
  moreover have "guide_checks demo_db"
    by (simp add: guide_checks_def guide_check_def snapshot_check_def publication_check_def
        source_ok_def btrim_Nil_iff) (simp add: demo_rows)
  moreover have "guide_links demo_db"
    by (simp add: guide_links_def guide_row_links_def snapshot_row_links_def
        publication_row_links_def pointer_ok_def) (simp add: demo_rows)
  ultimately show ?thesis by (simp add: guides_wf_def)
qed

end
