(* ===== verification/Guides.thy ===== *)
theory Guides imports Sample begin

text \<open>
  The cheer-guide services: reading the published guides (\<open>cheer-guide-read.ts\<close>), creating, listing
  and deleting guides (\<open>cheer-guide-service.ts\<close>), the private working copy
  (\<open>cheer-guide-draft-service.ts\<close>) and the publishing writer of the song editor
  (\<open>cheer-guide-write-service.ts\<close>), with what each leaves behind on every branch.
\<close>

section \<open>Stored texts\<close>

text \<open>The Korean change summaries and reasons the services store, as their UTF-8 bytes.\<close>

definition summary_draft_created :: string where
  "summary_draft_created = map char_of [
    236, 157, 145, 236, 155, 144, 235, 178, 149, 32, 235, 185, 132, 234, 179, 181,
    234, 176, 156, 32, 236, 158, 145, 236, 151, 133, 235, 179, 184, 32, 236, 131,
    157, 236, 132, 177 :: nat]"

definition summary_draft_saved :: string where
  "summary_draft_saved = map char_of [
    236, 157, 145, 236, 155, 144, 235, 178, 149, 32, 235, 185, 132, 234, 179, 181,
    234, 176, 156, 32, 236, 158, 145, 236, 151, 133, 235, 179, 184, 32, 236, 160,
    128, 236, 158, 165 :: nat]"

definition summary_editor_saved :: string where
  "summary_editor_saved = map char_of [
    234, 184, 176, 236, 161, 180, 32, 237, 142, 184, 236, 167, 145, 234, 184, 176,
    236, 151, 144, 236, 132, 156, 32, 234, 176, 128, 236, 130, 172, 32, 236, 160,
    128, 236, 158, 165 :: nat]"

definition reason_editor_saved :: string where
  "reason_editor_saved = map char_of [
    234, 184, 176, 236, 161, 180, 32, 237, 142, 184, 236, 167, 145, 234, 184, 176,
    32, 236, 160, 128, 236, 158, 165, 236, 157, 152, 32, 234, 179, 181, 234, 176,
    156, 32, 235, 176, 152, 236, 152, 129 :: nat]"

definition summary_imported :: string where
  "summary_imported = map char_of [
    234, 184, 176, 236, 161, 180, 32, 234, 176, 128, 236, 130, 172, 32, 236, 157,
    145, 236, 155, 144, 235, 178, 149, 32, 236, 157, 180, 234, 180, 128 :: nat]"

definition reason_imported :: string where
  "reason_imported = map char_of [
    234, 178, 128, 237, 134, 160, 237, 149, 156, 32, 234, 184, 176, 236, 161, 180,
    32, 236, 157, 145, 236, 155, 144, 235, 178, 149, 32, 236, 181, 156, 236, 180,
    136, 32, 236, 157, 180, 234, 180, 128 :: nat]"

lemmas stored_texts = summary_draft_created_def summary_draft_saved_def summary_editor_saved_def
  reason_editor_saved_def summary_imported_def reason_imported_def

lemma btrim_Cons_not_space: "c \<noteq> CHR '' '' \<Longrightarrow> btrim (c # cs) \<noteq> []"
  by (simp add: btrim_Nil_iff)

lemma stored_texts_not_blank [simp]:
  "btrim summary_draft_created \<noteq> []" "btrim summary_draft_saved \<noteq> []"
  "btrim summary_editor_saved \<noteq> []" "btrim reason_editor_saved \<noteq> []"
  "btrim summary_imported \<noteq> []" "btrim reason_imported \<noteq> []"
  by (simp_all only: stored_texts list.map) (intro btrim_Cons_not_space; simp add: char_of_def)+

section \<open>Reading published guides\<close>

record guide_state =
  gst_id :: eid
  gst_mode :: guide_mode
  gst_hasPublications :: bool
  gst_current :: "(guide_action \<times> snapshot_row option) option"

text \<open>
  The rows the public selections load for a song: each guide with one of its publications and, over
  the composite keys of the relations, its current publication and that publication's snapshot.
\<close>

definition current_publication :: "db \<Rightarrow> guide_row \<Rightarrow> publication_row option" where
  "current_publication s g =
    (case guide_currentPublicationId g of
       None \<Rightarrow> None
     | Some i \<Rightarrow> find (\<lambda>p. pub_cheerGuideId p = guide_id g \<and> pub_id p = i) (publications s))"

definition publication_snapshot :: "db \<Rightarrow> publication_row \<Rightarrow> snapshot_row option" where
  "publication_snapshot s p =
    find (\<lambda>r. snap_cheerGuideId r = pub_cheerGuideId p \<and> snap_id r = pub_snapshotId p) (snapshots s)"

definition guide_state_of :: "db \<Rightarrow> guide_row \<Rightarrow> guide_state" where
  "guide_state_of s g =
    \<lparr>gst_id = guide_id g, gst_mode = guide_mode g,
     gst_hasPublications = list_ex (\<lambda>p. pub_cheerGuideId p = guide_id g) (publications s),
     gst_current =
       map_option (\<lambda>p. (pub_action p, publication_snapshot s p)) (current_publication s g)\<rparr>"

definition guide_states :: "db \<Rightarrow> eid \<Rightarrow> guide_state list" where
  "guide_states s songId = map (guide_state_of s) (filter (\<lambda>g. guide_songId g = songId) (guides s))"

record published_guide =
  pg_id :: eid
  pg_mode :: guide_mode
  pg_snapshot :: snapshot_row

definition published_of :: "string option \<Rightarrow> guide_state \<Rightarrow> published_guide list" where
  "published_of youtubeId st =
    (case gst_current st of
       Some (PUBLISH, Some sn) \<Rightarrow>
         (if Some (snap_referenceYoutubeId sn) = youtubeId
          then [\<lparr>pg_id = gst_id st, pg_mode = gst_mode st, pg_snapshot = sn\<rparr>] else [])
     | _ \<Rightarrow> [])"

definition currentPublishedGuides :: "guide_state list \<Rightarrow> string option \<Rightarrow> published_guide list" where
  "currentPublishedGuides sts youtubeId = sort_key pg_mode (concat (map (published_of youtubeId) sts))"

definition hasGuidePublication :: "guide_state list \<Rightarrow> bool" where
  "hasGuidePublication sts \<longleftrightarrow> list_ex gst_hasPublications sts"

definition defaultGuideIsOfficial :: "guide_state list \<Rightarrow> string option \<Rightarrow> bool option \<Rightarrow> bool" where
  "defaultGuideIsOfficial sts youtubeId legacy =
    (if hasGuidePublication sts
     then (case currentPublishedGuides sts youtubeId of
             [] \<Rightarrow> False
           | g # _ \<Rightarrow> snap_sourceType (pg_snapshot g) = OFFICIAL)
     else coalesce legacy False)"

section \<open>The publishing writer of the song editor\<close>

record guide_write_version =
  gv_guideId :: eid
  gv_lockVersion :: nat

record song_changes =
  chg_lyrics :: "lyrics_data option"
  chg_youtubeId :: string
  chg_hasOfficialCheer :: "bool option"

text \<open>The columns a new snapshot copies from an earlier one (\<open>...row.snapshot\<close>).\<close>

definition copied_snapshot :: "snapshot_row \<Rightarrow> eid \<Rightarrow> lyrics_data \<Rightarrow> eid \<Rightarrow> string \<Rightarrow> snapshot_data" where
  "copied_snapshot sn g lyrics actor summary =
    \<lparr>sd_cheerGuideId = g, sd_lyrics = lyrics_json lyrics,
     sd_referenceYoutubeId = snap_referenceYoutubeId sn, sd_sourceType = snap_sourceType sn,
     sd_sourceUrl = snap_sourceUrl sn, sd_guideVideoUrl = snap_guideVideoUrl sn,
     sd_description = snap_description sn, sd_createdByAccountId = Some actor,
     sd_changeSummary = summary\<rparr>"

definition current_of :: "db \<Rightarrow> guide_row \<Rightarrow> (guide_action \<times> snapshot_row) option" where
  "current_of s g =
    (case guide_currentPublicationId g of
       None \<Rightarrow> None
     | Some i \<Rightarrow> findGuidePublication s (guide_id g) i)"

definition publish_lyrics ::
  "eid \<Rightarrow> eid \<Rightarrow> instant \<Rightarrow> eid \<Rightarrow> snapshot_row \<Rightarrow> lyrics_data \<Rightarrow> eid \<Rightarrow> db \<Rightarrow> db" where
  "publish_lyrics nsnap npub now g sn lyrics actor s =
    (let s2 = insertNextGuideSnapshot s nsnap now
                (copied_snapshot sn g lyrics actor summary_editor_saved);
         s3 = insertNextGuidePublication s2 npub now
                \<lparr>pd_cheerGuideId = g, pd_snapshotId = nsnap, pd_action = PUBLISH,
                 pd_actorAccountId = actor, pd_reason = reason_editor_saved\<rparr>
     in setGuidePublication s3 g npub)"

definition writeLegacyGuide ::
  "eid \<Rightarrow> eid \<Rightarrow> instant \<Rightarrow> song_row \<Rightarrow> eid \<Rightarrow> song_changes \<Rightarrow> guide_write_version option \<Rightarrow> db \<Rightarrow>
    (guide_write_version option, db) use_case" where
  "writeLegacyGuide nsnap npub now song actor changes expected s =
    (case lockLegacyGuide s (song_id song) of
       None \<Rightarrow> (if expected \<noteq> None then fail CHEER_GUIDE_CONFLICT s else (Inr None, s))
     | Some guide \<Rightarrow>
         (if Some (chg_youtubeId changes) \<noteq> song_youtubeId song \<or>
             (case chg_hasOfficialCheer changes of
                None \<Rightarrow> False
              | Some h \<Rightarrow> h \<noteq> coalesce (song_hasOfficialCheer song) False)
          then fail CHEER_GUIDE_CHANGE_RESTRICTED s
          else (case chg_lyrics changes of
            None \<Rightarrow> (Inr (Some \<lparr>gv_guideId = guide_id guide,
                                gv_lockVersion = guide_lockVersion guide\<rparr>), s)
          | Some lyrics \<Rightarrow>
              (if guide_workingSnapshotId guide \<noteq> None then fail CHEER_GUIDE_DRAFT_PENDING s
               else if expected \<noteq> Some \<lparr>gv_guideId = guide_id guide,
                                        gv_lockVersion = guide_lockVersion guide\<rparr>
               then fail CHEER_GUIDE_CONFLICT s
               else (case current_of s guide of
                 None \<Rightarrow> fail CHEER_GUIDE_CHANGE_RESTRICTED s
               | Some (action, sn) \<Rightarrow>
                   (if action \<noteq> PUBLISH \<or> snap_referenceYoutubeId sn \<noteq> chg_youtubeId changes
                    then fail CHEER_GUIDE_CHANGE_RESTRICTED s
                    else if \<not> has_text lyrics then fail CHEER_GUIDE_CONTENT_INVALID s
                    else (case claimGuideVersion s (guide_id guide) (guide_lockVersion guide) now of
                      (None, s1) \<Rightarrow> fail CHEER_GUIDE_CONFLICT s1
                    | (Some v, s1) \<Rightarrow>
                        (Inr (Some \<lparr>gv_guideId = guide_id guide, gv_lockVersion = v\<rparr>),
                         publish_lyrics nsnap npub now (guide_id guide) sn lyrics actor s1))))))))"

section \<open>Creating a guide\<close>

record create_guide_input =
  cgi_songId :: eid
  cgi_mode :: guide_mode
  cgi_sourceType :: source_type
  cgi_sourceUrl :: "string option"
  cgi_guideVideoUrl :: "string option"
  cgi_description :: "string option"

text \<open>
  What \<open>createAdminCheerGuideSchema\<close> has checked: an official guide names its source.  The URL parser
  is zod's; of its results only that a URL is not blank is used.
\<close>

definition create_guide_input_ok :: "create_guide_input \<Rightarrow> bool" where
  "create_guide_input_ok i \<longleftrightarrow> source_ok (cgi_sourceType i) (cgi_sourceUrl i)"

definition createAdminCheerGuide ::
  "eid \<Rightarrow> eid \<Rightarrow> instant \<Rightarrow> request_context \<Rightarrow> create_guide_input \<Rightarrow> db \<Rightarrow> (eid, db) use_case" where
  "createAdminCheerGuide nguide nsnap now ctx input = as_admin ctx (\<lambda>accountId. transaction (\<lambda>s.
    or_throw (lockSongForGuideWrite s (cgi_songId input)) (AppError SONG_NOT_FOUND) s (\<lambda>song.
    or_throw (lyricsDataSchema (coalesce (song_lyrics song) (JArr []))) (AppError SONG_LYRICS_INVALID) s (\<lambda>lyrics.
    or_throw (song_youtubeId song) (AppError CHEER_GUIDE_SOURCE_INVALID) s (\<lambda>youtubeId.
    throw_if (blank youtubeId) (AppError CHEER_GUIDE_SOURCE_INVALID) s
    (case insertGuideDraft s nguide (cgi_songId input) (cgi_mode input) now of (created, s1) \<Rightarrow>
    or_throw created (AppError CHEER_GUIDE_ALREADY_EXISTS) s1 (\<lambda>g.
      (Inr g,
       setGuideWorkingSnapshot
         (insertNextGuideSnapshot s1 nsnap now
           \<lparr>sd_cheerGuideId = g, sd_lyrics = lyrics_json lyrics,
            sd_referenceYoutubeId = youtubeId, sd_sourceType = cgi_sourceType input,
            sd_sourceUrl = cgi_sourceUrl input,
            sd_guideVideoUrl = cgi_guideVideoUrl input,
            sd_description = cgi_description input,
            sd_createdByAccountId = Some accountId,
            sd_changeSummary = summary_draft_created\<rparr>)
         g nsnap))))))))"

section \<open>Listing and deleting guides\<close>

record admin_guide_summary =
  ags_id :: eid
  ags_mode :: guide_mode
  ags_updatedAt :: instant
  ags_deletable :: bool
  ags_draftEditorAvailable :: bool
  ags_songTitle :: string
  ags_currentPublication :: "(guide_action \<times> source_type) option"
  ags_editorAvailable :: bool

text \<open>
  One row of \<open>listAdminCheerGuides\<close>: \<open>song\<close> is not null and a publication always has its snapshot (foreign keys);
  rows for which these joins fail are not produced.
\<close>

definition guide_summary :: "db \<Rightarrow> guide_row \<Rightarrow> admin_guide_summary list" where
  "guide_summary s g =
    (case lookup song_id (guide_songId g) (songs s) of
       None \<Rightarrow> []
     | Some song \<Rightarrow>
         (let current = Option.bind (current_publication s g)
                (\<lambda>p. map_option (\<lambda>sn. (pub_action p, sn)) (publication_snapshot s p)) in
          [\<lparr>ags_id = guide_id g, ags_mode = guide_mode g, ags_updatedAt = guide_updatedAt g,
            ags_deletable = (\<not> guideHasHistory s (guide_id g)),
            ags_draftEditorAvailable = guideHasHistory s (guide_id g),
            ags_songTitle = coalesce (song_title song) [],
            ags_currentPublication = map_option (\<lambda>(a, sn). (a, snap_sourceType sn)) current,
            ags_editorAvailable =
              (guide_legacyWriteTarget g \<and> song_slug song \<noteq> None \<and>
               (case current of
                  Some (PUBLISH, sn) \<Rightarrow> Some (snap_referenceYoutubeId sn) = song_youtubeId song
                | _ \<Rightarrow> False))\<rparr>]))"

definition listAdminCheerGuides :: "request_context \<Rightarrow> db \<Rightarrow> (admin_guide_summary list, db) use_case" where
  "listAdminCheerGuides ctx = as_admin ctx (\<lambda>_ s.
    (Inr (concat (map (guide_summary s)
       (sort_key (\<lambda>g. - guide_updatedAt g) (sort_key guide_id (guides s))))), s))"

definition deleteEmptyCheerGuide :: "db \<Rightarrow> request_context \<Rightarrow> eid \<Rightarrow> db \<Rightarrow> (unit, db) use_case" where
  "deleteEmptyCheerGuide seen ctx i = as_admin ctx (\<lambda>_ s.
    (case removeEmptyCheerGuide seen s i of
       (Inr (Some _), s') \<Rightarrow> (Inr (), s')
     | (Inl CheerGuideReferenceError, s') \<Rightarrow> fail CHEER_GUIDE_HAS_HISTORY s'
     | (Inl e, s') \<Rightarrow> (Inl e, s')
     | (Inr None, s') \<Rightarrow>
         (if findCheerGuideIdentity s' i \<noteq> None then fail CHEER_GUIDE_HAS_HISTORY s'
          else fail CHEER_GUIDE_NOT_FOUND s')))"

section \<open>The private working copy\<close>

record editor_song =
  eds_id :: eid
  eds_title :: string
  eds_albumName :: string
  eds_currentYoutubeId :: "string option"

record guide_editor =
  ged_id :: eid
  ged_mode :: guide_mode
  ged_lockVersion :: nat
  ged_song :: editor_song
  ged_lyrics :: lyrics_data
  ged_referenceYoutubeId :: string

definition editor_song_of :: "song_row \<Rightarrow> album_row \<Rightarrow> editor_song" where
  "editor_song_of r a = \<lparr>eds_id = song_id r, eds_title = coalesce (song_title r) [],
    eds_albumName = album_name a, eds_currentYoutubeId = song_youtubeId r\<rparr>"

definition getAdminCheerGuideEditor :: "request_context \<Rightarrow> eid \<Rightarrow> db \<Rightarrow> (guide_editor, db) use_case" where
  "getAdminCheerGuideEditor ctx i = as_admin ctx (\<lambda>_ s.
    (case findGuideEditorRecord s i of
       None \<Rightarrow> fail CHEER_GUIDE_NOT_FOUND s
     | Some row \<Rightarrow>
         (case lyricsDataSchema (snap_lyrics (er_snapshot row)) of
            None \<Rightarrow> (Inl (Error ''Stored guide lyrics contract violation''), s)
          | Some lyrics \<Rightarrow>
              (Inr \<lparr>ged_id = guide_id (er_guide row), ged_mode = guide_mode (er_guide row),
                    ged_lockVersion = guide_lockVersion (er_guide row),
                    ged_song = editor_song_of (er_song row) (er_album row),
                    ged_lyrics = lyrics,
                    ged_referenceYoutubeId = snap_referenceYoutubeId (er_snapshot row)\<rparr>, s))))"

record draft_input =
  dri_expectedLockVersion :: nat
  dri_lyrics :: lyrics_data

definition saveAdminCheerGuideDraft ::
  "eid \<Rightarrow> instant \<Rightarrow> request_context \<Rightarrow> eid \<times> draft_input \<Rightarrow> db \<Rightarrow> (guide_write_version, db) use_case" where
  "saveAdminCheerGuideDraft nsnap now ctx arg = (case arg of (i, input) \<Rightarrow>
    as_admin ctx (\<lambda>actor. transaction (\<lambda>s.
    (case findCheerGuideIdentity s i of
       None \<Rightarrow> fail CHEER_GUIDE_NOT_FOUND s
     | Some identity \<Rightarrow>
         (if lockSongForGuideWrite s (snd identity) = None then fail SONG_NOT_FOUND s
          else (case findGuideEditorRecord s i of
            None \<Rightarrow> fail CHEER_GUIDE_NOT_FOUND s
          | Some row \<Rightarrow>
              (case claimGuideVersion s i (dri_expectedLockVersion input) now of
                 (None, s1) \<Rightarrow> fail CHEER_GUIDE_CONFLICT s1
               | (Some v, s1) \<Rightarrow>
                   (Inr \<lparr>gv_guideId = i, gv_lockVersion = v\<rparr>,
                    setGuideWorkingSnapshot
                      (insertNextGuideSnapshot s1 nsnap now
                        (copied_snapshot (er_snapshot row) i (dri_lyrics input) actor
                           summary_draft_saved))
                      i nsnap))))))))"

section \<open>Reading after writing\<close>

lemma find_append: "find P (xs @ ys) = (case find P xs of None \<Rightarrow> find P ys | Some x \<Rightarrow> Some x)"
  by (induction xs) auto

lemma find_SomeD: "find P xs = Some x \<Longrightarrow> x \<in> set xs \<and> P x"
  by (auto simp: find_Some_iff)

lemma find_ex: "\<exists>x \<in> set xs. P x \<Longrightarrow> \<exists>x. find P xs = Some x \<and> x \<in> set xs \<and> P x"
  by (cases "find P xs") (auto simp: find_None_iff dest: find_SomeD)

lemma current_publication_found:
  assumes "guides_wf s" and "g \<in> set (guides s)" and "guide_currentPublicationId g = Some i"
  shows "\<exists>p. current_publication s g = Some p \<and> p \<in> set (publications s) \<and> pub_id p = i \<and>
    pub_cheerGuideId p = guide_id g"
proof -
  from assms have "(guide_id g, i) \<in> publication_keys s"
    by (fastforce simp: guides_wf_defs guide_row_links_def pointer_ok_def)
  then have "\<exists>p \<in> set (publications s). pub_cheerGuideId p = guide_id g \<and> pub_id p = i"
    by (auto simp: publication_keys_def)
  from find_ex [OF this] assms(3) show ?thesis by (auto simp: current_publication_def)
qed

lemma publication_snapshot_found:
  assumes "guides_wf s" and "p \<in> set (publications s)"
  shows "\<exists>r. publication_snapshot s p = Some r \<and> r \<in> set (snapshots s) \<and>
    snap_id r = pub_snapshotId p \<and> snap_cheerGuideId r = pub_cheerGuideId p"
proof -
  from assms have "(pub_cheerGuideId p, pub_snapshotId p) \<in> snapshot_keys s"
    by (simp add: guides_wf_defs publication_row_links_def)
  then have "\<exists>r \<in> set (snapshots s). snap_cheerGuideId r = pub_cheerGuideId p \<and> snap_id r = pub_snapshotId p"
    by (auto simp: snapshot_keys_def)
  from find_ex [OF this] show ?thesis by (auto simp: publication_snapshot_def)
qed

lemma publication_snapshot_append:
  assumes "guides_wf s" and "p \<in> set (publications s)" and "snapshots s' = snapshots s @ rs"
  shows "publication_snapshot s' p = publication_snapshot s p"
  using publication_snapshot_found [OF assms(1,2)] assms(3)
  by (auto simp: publication_snapshot_def find_append)

lemma guide_state_append:
  assumes wf: "guides_wf s" and g: "g \<in> set (guides s)"
    and sn: "snapshots s' = snapshots s @ rs" and pb: "publications s' = publications s @ ps"
    and other: "\<And>p. p \<in> set ps \<Longrightarrow> pub_cheerGuideId p \<noteq> guide_id g"
  shows "guide_state_of s' g = guide_state_of s g"
proof -
  have cur: "current_publication s' g = current_publication s g"
  proof (cases "guide_currentPublicationId g")
    case None
    then show ?thesis by (simp add: current_publication_def)
  next
    case (Some i)
    with current_publication_found [OF wf g Some] pb show ?thesis
      by (auto simp: current_publication_def find_append)
  qed
  have "publication_snapshot s' p = publication_snapshot s p" if "current_publication s g = Some p" for p
    using that publication_snapshot_append [OF wf _ sn]
    by (auto simp: current_publication_def dest: find_SomeD split: option.splits)
  then have "map_option (\<lambda>p. (pub_action p, publication_snapshot s' p)) (current_publication s' g) =
      map_option (\<lambda>p. (pub_action p, publication_snapshot s p)) (current_publication s g)"
    by (cases "current_publication s g") (simp_all add: cur)
  moreover have "list_ex (\<lambda>p. pub_cheerGuideId p = guide_id g) (publications s') =
      list_ex (\<lambda>p. pub_cheerGuideId p = guide_id g) (publications s)"
    using other by (auto simp: pb list_ex_iff)
  ultimately show ?thesis by (simp add: guide_state_of_def)
qed

lemma guide_state_of_cong:
  "guide_id g = guide_id h \<Longrightarrow> guide_mode g = guide_mode h \<Longrightarrow>
    guide_currentPublicationId g = guide_currentPublicationId h \<Longrightarrow>
    guide_state_of s g = guide_state_of s h"
  by (cases "guide_currentPublicationId h") (simp_all add: guide_state_of_def current_publication_def)

text \<open>A change that moves no publication pointer and only adds snapshots is invisible to readers.\<close>

lemma guide_states_hidden_change:
  assumes wf: "guides_wf s" and sn: "snapshots s' = snapshots s @ rs"
    and pb: "publications s' = publications s" and gs: "guides s' = map f (guides s)"
    and same: "\<And>g. same_identity (f g) g"
    and cur: "\<And>g. guide_currentPublicationId (f g) = guide_currentPublicationId g"
  shows "guide_states s' songId = guide_states s songId"
proof -
  have "filter (\<lambda>g. guide_songId g = songId) (map f t) =
      map f (filter (\<lambda>g. guide_songId g = songId) t)" for t
    using same by (induction t) (auto simp: same_identity_def)
  moreover have "guide_state_of s' (f g) = guide_state_of s g" if "g \<in> set (guides s)" for g
  proof -
    have "guide_state_of s' (f g) = guide_state_of s' g"
      using same [of g] cur [of g] by (intro guide_state_of_cong) (simp_all add: same_identity_def)
    also have "\<dots> = guide_state_of s g"
      using guide_state_append [OF wf that sn, of "[]"] pb by simp
    finally show ?thesis .
  qed
  ultimately show ?thesis by (simp add: guide_states_def gs)
qed

section \<open>The publishing writer\<close>

lemma writeLegacyGuide_Inr:
  assumes "writeLegacyGuide nsnap npub now song actor changes expected s = (Inr r, s')"
  obtains (untouched) "s' = s" and "lockLegacyGuide s (song_id song) = None \<and> r = None \<or> chg_lyrics changes = None"
  | (published) guide lyrics sn v s1 where
      "lockLegacyGuide s (song_id song) = Some guide" and "chg_lyrics changes = Some lyrics"
      and "guide_workingSnapshotId guide = None"
      and "expected = Some \<lparr>gv_guideId = guide_id guide, gv_lockVersion = guide_lockVersion guide\<rparr>"
      and "current_of s guide = Some (PUBLISH, sn)"
      and "snap_referenceYoutubeId sn = chg_youtubeId changes"
      and "Some (chg_youtubeId changes) = song_youtubeId song" and "has_text lyrics"
      and "claimGuideVersion s (guide_id guide) (guide_lockVersion guide) now = (Some v, s1)"
      and "r = Some \<lparr>gv_guideId = guide_id guide, gv_lockVersion = v\<rparr>"
      and "s' = publish_lyrics nsnap npub now (guide_id guide) sn lyrics actor s1"
proof (cases "lockLegacyGuide s (song_id song)")
  case None
  with assms show ?thesis
    by (intro untouched) (auto simp: writeLegacyGuide_def split: if_splits)
next
  case (Some guide)
  note g = this
  show ?thesis
  proof (cases "chg_lyrics changes")
    case None
    with assms g show ?thesis
      by (intro untouched) (auto simp: writeLegacyGuide_def split: if_splits)
  next
    case (Some lyrics)
    with assms g show ?thesis
      by (auto simp: writeLegacyGuide_def split: if_splits option.splits prod.splits
          intro!: published)
  qed
qed

lemma writeLegacyGuide_Inl_state:
  assumes "guide_keys s" and "writeLegacyGuide nsnap npub now song actor changes expected s = (Inl e, s')"
  shows "s' = s"
proof -
  have claim: "claimGuideVersion s i v now = (None, s1) \<Longrightarrow> s1 = s" for i v s1
    using claim_result [OF assms(1), of i v now] claim_no_rows [OF assms(1), of i v now]
    by (auto split: if_splits)
  from assms(2) show ?thesis
    by (auto simp: writeLegacyGuide_def split: if_splits option.splits prod.splits dest!: claim)
qed

lemma lockLegacyGuide_SomeD:
  "lockLegacyGuide s i = Some g \<Longrightarrow> g \<in> set (guides s) \<and> guide_songId g = i \<and> guide_legacyWriteTarget g"
  by (auto simp: lockLegacyGuide_def dest: find_SomeD)

lemma current_of_SomeD:
  assumes "current_of s g = Some (a, sn)"
  obtains p where "p \<in> set (publications s)" and "guide_currentPublicationId g = Some (pub_id p)"
    and "pub_cheerGuideId p = guide_id g" and "pub_action p = a"
    and "sn \<in> set (snapshots s)" and "snap_id sn = pub_snapshotId p"
  using assms by (auto simp: current_of_def findGuidePublication_def split: option.splits
      dest!: find_SomeD lookup_SomeD)

lemma claim_state:
  "claimGuideVersion s i v now = (w, s1) \<Longrightarrow>
    s1 = s\<lparr>guides := update_where (claim_pred i v) (claim_set now) (guides s)\<rparr>"
  by (simp add: claimGuideVersion_def)

lemma copied_snapshot_ok:
  assumes "guides_wf s" and "sn \<in> set (snapshots s)" and "g \<in> guide_id ` set (guides s')"
    and "actor \<in> account_ids s'" and "btrim summary \<noteq> []"
  shows "snapshot_data_ok s' (copied_snapshot sn g lyrics actor summary)"
  using assms by (auto simp: snapshot_data_ok_def copied_snapshot_def guides_wf_defs snapshot_check_def)

lemma publish_lyrics_simps [simp]:
  "snapshots (publish_lyrics nsnap npub now g sn lyrics actor s) = snapshots s @
    [snapshot_of nsnap (next_no (snapshot_numbers s g)) now
      (copied_snapshot sn g lyrics actor summary_editor_saved)]"
  "publications (publish_lyrics nsnap npub now g sn lyrics actor s) = publications s @
    [publication_of npub (next_no (publication_numbers s g)) now
      \<lparr>pd_cheerGuideId = g, pd_snapshotId = nsnap, pd_action = PUBLISH,
       pd_actorAccountId = actor, pd_reason = reason_editor_saved\<rparr>]"
  "guides (publish_lyrics nsnap npub now g sn lyrics actor s) =
    update_where (\<lambda>h. guide_id h = g) (\<lambda>h. h\<lparr>guide_currentPublicationId := Some npub\<rparr>) (guides s)"
  "songs (publish_lyrics nsnap npub now g sn lyrics actor s) = songs s"
  "accounts (publish_lyrics nsnap npub now g sn lyrics actor s) = accounts s"
  by (simp_all add: publish_lyrics_def Let_def setGuidePublication_def
      insertNextGuidePublication_def insertNextGuideSnapshot_def copied_snapshot_def)

lemma publish_lyrics_wf:
  assumes wf: "guides_wf s" and g: "g \<in> guide_id ` set (guides s)"
    and sn: "sn \<in> set (snapshots s)" and actor: "actor \<in> account_ids s"
    and fresh: "nsnap \<notin> snap_id ` set (snapshots s)" "npub \<notin> pub_id ` set (publications s)"
  shows "guides_wf (publish_lyrics nsnap npub now g sn lyrics actor s)"
proof -
  define d where "d = copied_snapshot sn g lyrics actor summary_editor_saved"
  define pd where "pd = \<lparr>pd_cheerGuideId = g, pd_snapshotId = nsnap, pd_action = PUBLISH,
    pd_actorAccountId = actor, pd_reason = reason_editor_saved\<rparr>"
  let ?s2 = "insertNextGuideSnapshot s nsnap now d"
  let ?s3 = "insertNextGuidePublication ?s2 npub now pd"
  have wf2: "guides_wf ?s2"
    using copied_snapshot_ok [OF wf sn g actor] fresh(1)
    by (intro insertNextGuideSnapshot_wf [OF wf]) (simp_all add: d_def)
  have "publication_data_ok ?s2 pd"
    using g actor by (auto simp: publication_data_ok_def pd_def d_def insertNextGuideSnapshot_def
        snapshot_keys_def snapshot_of_def copied_snapshot_def)
  then have wf3: "guides_wf ?s3"
    using fresh(2) by (intro insertNextGuidePublication_wf [OF wf2])
      (simp_all add: insertNextGuideSnapshot_def)
  have "(g, npub) \<in> publication_keys ?s3"
    by (simp add: publication_keys_def insertNextGuidePublication_def publication_of_def pd_def)
  from setGuidePublication_wf [OF wf3 this]
  show ?thesis by (simp add: publish_lyrics_def d_def pd_def)
qed

lemma writeLegacyGuide_wf:
  assumes wf: "guides_wf s" and actor: "actor \<in> account_ids s"
    and fresh: "nsnap \<notin> snap_id ` set (snapshots s)" "npub \<notin> pub_id ` set (publications s)"
    and run: "writeLegacyGuide nsnap npub now song actor changes expected s = (Inr r, s')"
  shows "guides_wf s'"
  using run
proof (cases rule: writeLegacyGuide_Inr)
  case untouched
  with wf show ?thesis by simp
next
  case (published guide lyrics sn v s1)
  from published(5) have sn: "sn \<in> set (snapshots s)" by (rule current_of_SomeD)
  have wf1: "guides_wf s1"
    using claim_wf [OF wf, of "guide_id guide" "guide_lockVersion guide" now] published(9) by simp
  have ids: "guide_id guide \<in> guide_id ` set (guides s1)"
    using lockLegacyGuide_SomeD [OF published(1)] claim_state [OF published(9)] by simp
  show ?thesis
    unfolding published(11)
    using sn actor fresh claim_state [OF published(9)]
    by (intro publish_lyrics_wf [OF wf1 ids]) simp_all
qed

section \<open>The working copy\<close>

lemma findGuideEditorRecord_SomeD:
  assumes "findGuideEditorRecord s i = Some row"
  shows "lookup guide_id i (guides s) = Some (er_guide row)"
    and "er_guide row \<in> set (guides s) \<and> guide_id (er_guide row) = i"
    and "er_snapshot row \<in> set (snapshots s)"
    and "lookup song_id (guide_songId (er_guide row)) (songs s) = Some (er_song row)"
    and "lookup album_id (song_albumId (er_song row)) (albums s) = Some (er_album row)"
  using assms by (auto simp: findGuideEditorRecord_def bind_eq_Some_conv
      dest: find_SomeD lookup_SomeD)

definition draft_state :: "eid \<Rightarrow> instant \<Rightarrow> eid \<Rightarrow> snapshot_row \<Rightarrow> lyrics_data \<Rightarrow> eid \<Rightarrow> db \<Rightarrow> db" where
  "draft_state nsnap now i sn lyrics actor s1 =
    setGuideWorkingSnapshot
      (insertNextGuideSnapshot s1 nsnap now (copied_snapshot sn i lyrics actor summary_draft_saved))
      i nsnap"

lemma saveAdminCheerGuideDraft_Inr:
  assumes "saveAdminCheerGuideDraft nsnap now ctx (i, input) s = (Inr ver, s')"
  obtains actor row v s1 where "ctx_user ctx = Some actor" and "ctx_ability ctx Manage All"
    and "findGuideEditorRecord s i = Some row"
    and "claimGuideVersion s i (dri_expectedLockVersion input) now = (Some v, s1)"
    and "ver = \<lparr>gv_guideId = i, gv_lockVersion = v\<rparr>"
    and "s' = draft_state nsnap now i (er_snapshot row) (dri_lyrics input) actor s1"
proof (cases "findGuideEditorRecord s i")
  case None
  with assms show ?thesis
    by (cases "findCheerGuideIdentity s i")
      (auto simp: saveAdminCheerGuideDraft_def guard_simps split: if_splits)
next
  case (Some row)
  obtain w s1 where w: "claimGuideVersion s i (dri_expectedLockVersion input) now = (w, s1)"
    by fastforce
  show ?thesis
    using assms Some w that
    by (cases w; cases "findCheerGuideIdentity s i")
      (auto simp: saveAdminCheerGuideDraft_def guard_simps draft_state_def split: if_splits)
qed

lemma draft_state_simps [simp]:
  "snapshots (draft_state nsnap now i sn lyrics actor s) = snapshots s @
    [snapshot_of nsnap (next_no (snapshot_numbers s i)) now
      (copied_snapshot sn i lyrics actor summary_draft_saved)]"
  "publications (draft_state nsnap now i sn lyrics actor s) = publications s"
  "guides (draft_state nsnap now i sn lyrics actor s) =
    update_where (\<lambda>g. guide_id g = i) (\<lambda>g. g\<lparr>guide_workingSnapshotId := Some nsnap\<rparr>) (guides s)"
  "songs (draft_state nsnap now i sn lyrics actor s) = songs s"
  "albums (draft_state nsnap now i sn lyrics actor s) = albums s"
  "accounts (draft_state nsnap now i sn lyrics actor s) = accounts s"
  by (simp_all add: draft_state_def setGuideWorkingSnapshot_def insertNextGuideSnapshot_def
      copied_snapshot_def)

lemma draft_state_wf:
  assumes wf: "guides_wf s" and g: "i \<in> guide_id ` set (guides s)"
    and sn: "sn \<in> set (snapshots s)" and actor: "actor \<in> account_ids s"
    and fresh: "nsnap \<notin> snap_id ` set (snapshots s)"
  shows "guides_wf (draft_state nsnap now i sn lyrics actor s)"
proof -
  define d where "d = copied_snapshot sn i lyrics actor summary_draft_saved"
  let ?s2 = "insertNextGuideSnapshot s nsnap now d"
  have "guides_wf ?s2"
    using copied_snapshot_ok [OF wf sn g actor] fresh
    by (intro insertNextGuideSnapshot_wf [OF wf]) (simp_all add: d_def)
  moreover have "(i, nsnap) \<in> snapshot_keys ?s2"
    by (simp add: snapshot_keys_def insertNextGuideSnapshot_def snapshot_of_def d_def copied_snapshot_def)
  ultimately show ?thesis
    unfolding draft_state_def d_def by (rule setGuideWorkingSnapshot_wf)
qed

lemma saveAdminCheerGuideDraft_wf:
  assumes wf: "guides_wf s" and actor: "\<And>u. ctx_user ctx = Some u \<Longrightarrow> u \<in> account_ids s"
    and fresh: "nsnap \<notin> snap_id ` set (snapshots s)"
    and run: "saveAdminCheerGuideDraft nsnap now ctx (i, input) s = (Inr ver, s')"
  shows "guides_wf s'"
  using run
proof (cases rule: saveAdminCheerGuideDraft_Inr)
  case (1 actor' row v s1)
  note st = claim_state [OF 1(4)]
  have "guides_wf s1" using claim_wf [OF wf] 1(4) by (metis snd_conv)
  moreover have "i \<in> guide_id ` set (guides s1)"
    using findGuideEditorRecord_SomeD(2) [OF 1(3)] by (force simp: st)
  ultimately show ?thesis
    using findGuideEditorRecord_SomeD(3) [OF 1(3)] actor [OF 1(1)] fresh 1(6)
    by (simp add: draft_state_wf st)
qed

lemma draft_hidden:
  assumes wf: "guides_wf s" and run: "saveAdminCheerGuideDraft nsnap now ctx (i, input) s = (Inr ver, s')"
  shows "guide_states s' songId = guide_states s songId"
  using run
proof (cases rule: saveAdminCheerGuideDraft_Inr)
  case (1 actor row v s1)
  note st = claim_state [OF 1(4)]
  let ?f = "\<lambda>g. (\<lambda>h. if guide_id h = i then h\<lparr>guide_workingSnapshotId := Some nsnap\<rparr> else h)
    (if claim_pred i (dri_expectedLockVersion input) g then claim_set now g else g)"
  show ?thesis
    by (rule guide_states_hidden_change [OF wf, where f = ?f])
      (simp_all add: 1(6) st update_where_def same_identity_def)
qed

lemma draft_error_state:
  assumes "fst (saveAdminCheerGuideDraft nsnap now ctx arg s) = Inl e"
  shows "snd (saveAdminCheerGuideDraft nsnap now ctx arg s) = s"
  using assms by (auto simp: saveAdminCheerGuideDraft_def as_admin_def transaction_def
      split: sum.splits prod.splits)

text \<open>What an editor record looks like after a draft has been stored.\<close>

lemma editor_after_draft:
  assumes wf: "guides_wf s" and row: "findGuideEditorRecord s i = Some row"
    and claim: "claimGuideVersion s i e now = (Some v, s1)"
    and fresh: "nsnap \<notin> snap_id ` set (snapshots s)"
  shows "findGuideEditorRecord (draft_state nsnap now i (er_snapshot row) lyrics actor s1) i =
    Some \<lparr>er_guide = (claim_set now (er_guide row))\<lparr>guide_workingSnapshotId := Some nsnap\<rparr>,
          er_song = er_song row, er_album = er_album row,
          er_snapshot = snapshot_of nsnap (next_no (snapshot_numbers s i)) now
            (copied_snapshot (er_snapshot row) i lyrics actor summary_draft_saved)\<rparr>"
proof -
  note st = claim_state [OF claim]
  note r = findGuideEditorRecord_SomeD [OF row]
  have keys: "guide_keys s" using wf by (simp add: guides_wf_def)
  have "guide_lockVersion (er_guide row) = e"
    using guide_claims.claim_SomeD [OF keys claim] r(1) by (simp add: guide_version_def)
  with r(2) have p: "claim_pred i e (er_guide row)" by (simp add: claim_pred_def)
  have g: "lookup guide_id i (guides s1) = Some (claim_set now (er_guide row))"
    using p r(1) by (simp add: st lookup_update_where)
  have "find (\<lambda>x. snap_id x = nsnap \<and> snap_cheerGuideId x = i) (snapshots s) = None"
    using fresh by (auto simp: find_None_iff)
  then show ?thesis
    using r p g
    by (simp add: findGuideEditorRecord_def lookup_update_where editor_snapshot_id_def find_append
        snapshot_of_def copied_snapshot_def) (simp add: st snapshot_of_def)
qed

end
