(* ===== verification/GuideServices.thy ===== *)
theory GuideServices imports Guides begin

text \<open>
  What the guide services guarantee: the contracts of the administrative use cases, the effect of
  creating, deleting and drafting a guide on the public and the private view of a song.
\<close>

section \<open>Contracts\<close>

interpretation create_guide: atomic_use_case "createAdminCheerGuide nguide nsnap now"
  for nguide nsnap now
  unfolding createAdminCheerGuide_def [abs_def] by (rule atomic_as_admin_transaction)

interpretation save_draft: atomic_use_case "saveAdminCheerGuideDraft nsnap now" for nsnap now
proof
  fix ctx arg s e s'
  show "requireAdmin ctx = Inl e \<Longrightarrow> saveAdminCheerGuideDraft nsnap now ctx arg s = (Inl e, s)"
    by (simp add: saveAdminCheerGuideDraft_def as_admin_denied split: prod.split)
  show "saveAdminCheerGuideDraft nsnap now ctx arg s = (Inl e, s') \<Longrightarrow> s' = s"
    using draft_error_state [of nsnap now ctx arg s e] by simp
qed

lemma removeEmptyCheerGuide_state:
  "removeEmptyCheerGuide seen s i = (r, s') \<Longrightarrow>
    s' = s \<and> (\<forall>j. r \<noteq> Inr (Some j)) \<or>
    r = Inr (Some i) \<and> \<not> guideHasHistory s i \<and> \<not> guideHasHistory seen i \<and>
      lookup guide_id i (guides s) \<noteq> None \<and>
      s' = s\<lparr>guides := delete_where (\<lambda>g. guide_id g = i) (guides s)\<rparr>"
  by (auto simp: removeEmptyCheerGuide_def split: option.splits if_splits)

interpretation delete_guide: atomic_use_case "deleteEmptyCheerGuide seen" for seen
  unfolding deleteEmptyCheerGuide_def [abs_def]
  by (rule atomic_as_admin)
    (auto split: prod.splits sum.splits option.splits failure.splits if_splits
      dest!: removeEmptyCheerGuide_state)

interpretation read_editor: atomic_use_case getAdminCheerGuideEditor
  unfolding getAdminCheerGuideEditor_def [abs_def]
  by (rule atomic_as_admin) (auto split: option.splits)

interpretation list_guides: atomic_use_case "\<lambda>ctx (_ :: unit). listAdminCheerGuides ctx"
  unfolding listAdminCheerGuides_def [abs_def] by (rule atomic_as_admin) simp

section \<open>Creating\<close>

lemma history_owner:
  assumes "guides_wf s"
  shows "r \<in> set (snapshots s) \<Longrightarrow> snap_cheerGuideId r \<in> guide_id ` set (guides s)"
    and "p \<in> set (publications s) \<Longrightarrow> pub_cheerGuideId p \<in> guide_id ` set (guides s)"
  using assms by (simp_all add: guides_wf_defs snapshot_row_links_def publication_row_links_def)

definition created_snapshot :: "create_guide_input \<Rightarrow> lyrics_data \<Rightarrow> string \<Rightarrow> eid \<Rightarrow> eid \<Rightarrow> snapshot_data" where
  "created_snapshot input lyrics youtubeId accountId g =
    \<lparr>sd_cheerGuideId = g, sd_lyrics = lyrics_json lyrics, sd_referenceYoutubeId = youtubeId,
     sd_sourceType = cgi_sourceType input, sd_sourceUrl = cgi_sourceUrl input,
     sd_guideVideoUrl = cgi_guideVideoUrl input, sd_description = cgi_description input,
     sd_createdByAccountId = Some accountId, sd_changeSummary = summary_draft_created\<rparr>"

definition created_state ::
  "eid \<Rightarrow> eid \<Rightarrow> instant \<Rightarrow> create_guide_input \<Rightarrow> lyrics_data \<Rightarrow> string \<Rightarrow> eid \<Rightarrow> db \<Rightarrow> db" where
  "created_state nguide nsnap now input lyrics youtubeId accountId s =
    setGuideWorkingSnapshot
      (insertNextGuideSnapshot
        (s\<lparr>guides := guides s @ [new_guide nguide (cgi_songId input) (cgi_mode input) False now]\<rparr>)
        nsnap now (created_snapshot input lyrics youtubeId accountId nguide))
      nguide nsnap"

lemma createAdminCheerGuide_Inr:
  assumes "createAdminCheerGuide nguide nsnap now ctx input s = (Inr g, s')"
  obtains accountId song lyrics youtubeId where "ctx_user ctx = Some accountId"
    and "ctx_ability ctx Manage All"
    and "lookup song_id (cgi_songId input) (songs s) = Some song"
    and "lyricsDataSchema (coalesce (song_lyrics song) (JArr [])) = Some lyrics"
    and "song_youtubeId song = Some youtubeId" and "\<not> blank youtubeId"
    and "\<not> list_ex (\<lambda>g. guide_songId g = cgi_songId input \<and> guide_mode g = cgi_mode input) (guides s)"
    and "g = nguide" and "s' = created_state nguide nsnap now input lyrics youtubeId accountId s"
  using assms
  by (auto simp: createAdminCheerGuide_def guard_simps insertGuideDraft_def created_state_def
      created_snapshot_def lockSongForGuideWrite_def split: if_splits intro!: that)

lemma created_state_simps [simp]:
  "snapshots (created_state nguide nsnap now input lyrics y actor s) = snapshots s @
    [snapshot_of nsnap (next_no (snapshot_numbers s nguide)) now
      (created_snapshot input lyrics y actor nguide)]"
  "publications (created_state nguide nsnap now input lyrics y actor s) = publications s"
  "guides (created_state nguide nsnap now input lyrics y actor s) =
    update_where (\<lambda>g. guide_id g = nguide) (\<lambda>g. g\<lparr>guide_workingSnapshotId := Some nsnap\<rparr>)
      (guides s @ [new_guide nguide (cgi_songId input) (cgi_mode input) False now])"
  "songs (created_state nguide nsnap now input lyrics y actor s) = songs s"
  by (simp_all add: created_state_def setGuideWorkingSnapshot_def insertNextGuideSnapshot_def
      created_snapshot_def)

lemma created_state_wf:
  assumes wf: "guides_wf s" and song: "cgi_songId input \<in> song_id ` set (songs s)"
    and new: "\<not> list_ex (\<lambda>g. guide_songId g = cgi_songId input \<and> guide_mode g = cgi_mode input) (guides s)"
    and y: "\<not> blank y" and actor: "actor \<in> account_ids s" and ok: "create_guide_input_ok input"
    and fresh: "nguide \<notin> guide_id ` set (guides s)" "nsnap \<notin> snap_id ` set (snapshots s)"
  shows "guides_wf (created_state nguide nsnap now input lyrics y actor s)"
proof -
  let ?s1 = "s\<lparr>guides := guides s @ [new_guide nguide (cgi_songId input) (cgi_mode input) False now]\<rparr>"
  have wf1: "guides_wf ?s1"
    using new_guide_wf [OF wf fresh(1) song new] by simp
  have "snapshot_data_ok ?s1 (created_snapshot input lyrics y actor nguide)"
    using not_blank_btrim [OF y] actor ok
    by (simp add: snapshot_data_ok_def created_snapshot_def new_guide_def create_guide_input_ok_def)
  then have "guides_wf (insertNextGuideSnapshot ?s1 nsnap now (created_snapshot input lyrics y actor nguide))"
    using fresh(2) by (intro insertNextGuideSnapshot_wf [OF wf1]) simp_all
  moreover have "(nguide, nsnap) \<in> snapshot_keys
      (insertNextGuideSnapshot ?s1 nsnap now (created_snapshot input lyrics y actor nguide))"
    by (simp add: snapshot_keys_def insertNextGuideSnapshot_def snapshot_of_def created_snapshot_def)
  ultimately show ?thesis unfolding created_state_def by (rule setGuideWorkingSnapshot_wf)
qed

text \<open>Appending an unpublished guide: the other guides look as before, the new one shows nothing.\<close>

lemma guide_states_new_private:
  assumes wf: "guides_wf s" and sn: "snapshots s' = snapshots s @ rs"
    and pb: "publications s' = publications s" and gs: "guides s' = guides s @ [g]"
    and cur: "guide_currentPublicationId g = None" and fresh: "guide_id g \<notin> guide_id ` set (guides s)"
  shows "guide_states s' i = guide_states s i @
    (if guide_songId g = i
     then [\<lparr>gst_id = guide_id g, gst_mode = guide_mode g, gst_hasPublications = False, gst_current = None\<rparr>]
     else [])"
proof -
  have "map (guide_state_of s') (filter (\<lambda>g. guide_songId g = i) (guides s)) =
      map (guide_state_of s) (filter (\<lambda>g. guide_songId g = i) (guides s))"
    using guide_state_append [OF wf _ sn, of _ "[]"] pb by (intro map_cong) auto
  moreover have "\<not> list_ex (\<lambda>p. pub_cheerGuideId p = guide_id g) (publications s)"
    using fresh by (auto simp: list_ex_iff dest!: history_owner(2) [OF wf])
  ultimately show ?thesis
    by (simp add: guide_states_def gs guide_state_of_def [of _ g] current_publication_def cur pb)
qed

lemma published_of_none [simp]: "gst_current st = None \<Longrightarrow> published_of y st = []"
  by (simp add: published_of_def)

lemma created_guides_fresh:
  assumes "nguide \<notin> guide_id ` set (guides s)"
  shows "guides (created_state nguide nsnap now input lyrics y actor s) =
    guides s @ [(new_guide nguide (cgi_songId input) (cgi_mode input) False now)
      \<lparr>guide_workingSnapshotId := Some nsnap\<rparr>]"
  using assms by (auto simp: new_guide_def intro: update_where_none)

text \<open>
  A created guide is private.  Creating one adds exactly one guide row and one snapshot, numbered 1
  and holding the song's lyrics and reference video, publishes nothing, keeps the guide tables
  well-formed, and leaves what the public pages show for every song as it was.\<close>

theorem create_guide_private:
  assumes "guides_wf s" and "create_guide_input_ok input"
    and "\<And>u. ctx_user ctx = Some u \<Longrightarrow> u \<in> account_ids s"
    and "nguide \<notin> guide_id ` set (guides s)" and "nsnap \<notin> snap_id ` set (snapshots s)"
    and "createAdminCheerGuide nguide nsnap now ctx input s = (Inr g, s')"
  shows "g = nguide \<and> guides_wf s' \<and> publications s' = publications s \<and> songs s' = songs s \<and>
    (\<exists>row. guides s' = guides s @ [row] \<and> guide_id row = nguide \<and> guide_lockVersion row = 1 \<and>
      guide_currentPublicationId row = None \<and> guide_workingSnapshotId row = Some nsnap) \<and>
    (\<exists>sn song. snapshots s' = snapshots s @ [sn] \<and> snap_id sn = nsnap \<and> snap_versionNo sn = 1 \<and>
      lookup song_id (cgi_songId input) (songs s) = Some song \<and>
      lyricsDataSchema (snap_lyrics sn) = lyricsDataSchema (coalesce (song_lyrics song) (JArr [])) \<and>
      song_youtubeId song = Some (snap_referenceYoutubeId sn)) \<and>
    (\<forall>i y. currentPublishedGuides (guide_states s' i) y = currentPublishedGuides (guide_states s i) y \<and>
      hasGuidePublication (guide_states s' i) = hasGuidePublication (guide_states s i))"
  using assms(6)
proof (cases rule: createAdminCheerGuide_Inr)
  case (1 u song lyrics y)
  note wf = assms(1) and fresh = assms(4)
  have wf': "guides_wf s'"
    using 1 created_state_wf [OF wf _ 1(7,6) _ assms(2,4,5)] assms(3) lookup_SomeD [OF 1(3)]
    by (metis imageI)
  have "snapshot_numbers s nguide = []"
    using history_owner(1) [OF wf] fresh by (auto simp: snapshot_numbers_def filter_empty_conv)
  then have sn: "snapshots s' = snapshots s @ [snapshot_of nsnap 1 now (created_snapshot input lyrics y u nguide)]"
    by (simp add: 1(9) next_no_def)
  have gs: "guides s' = guides s @ [(new_guide nguide (cgi_songId input) (cgi_mode input) False now)
      \<lparr>guide_workingSnapshotId := Some nsnap\<rparr>]"
    using created_guides_fresh [OF fresh] by (simp add: 1(9))
  have pb: "publications s' = publications s" by (simp add: 1(9))
  from guide_states_new_private [OF wf sn pb gs] fresh
  have view: "currentPublishedGuides (guide_states s' i) w = currentPublishedGuides (guide_states s i) w \<and>
      hasGuidePublication (guide_states s' i) = hasGuidePublication (guide_states s i)" for i w
    by (simp add: new_guide_def currentPublishedGuides_def hasGuidePublication_def)
  have "lyrics_ok lyrics" using 1(4) by (rule lyricsDataSchema_ok)
  with 1 wf' sn gs pb view show ?thesis
    by (simp add: new_guide_def snapshot_of_def created_snapshot_def lyricsDataSchema_json)
qed

text \<open>A concrete creation: a festival guide for the song that already has a concert guide.\<close>

definition demo_create :: create_guide_input where
  "demo_create = \<lparr>cgi_songId = ''so1'', cgi_mode = FESTIVAL, cgi_sourceType = FANDOM,
    cgi_sourceUrl = None, cgi_guideVideoUrl = None, cgi_description = None\<rparr>"

lemma demo_video_not_blank [simp]: "\<not> blank ''dQw4w9WgXcQ''"
  by (simp add: blank_iff is_space_def)

lemma demo_song_simps [simp]:
  "song_id (demo_song i) = i" "song_albumId (demo_song i) = ''al1''"
  "song_youtubeId (demo_song i) = Some ''dQw4w9WgXcQ''"
  "song_lyrics (demo_song i) = Some (lyrics_json demo_lyrics)"
  "song_hasOfficialCheer (demo_song i) = Some False" "song_slug (demo_song i) = Some i"
  by (simp_all add: demo_song_def)

lemma demo_guide_simps [simp]:
  "guide_id demo_guide = ''g1''" "guide_songId demo_guide = ''so1''" "guide_mode demo_guide = CONCERT"
  "guide_legacyWriteTarget demo_guide" "guide_currentPublicationId demo_guide = Some ''p1''"
  "guide_workingSnapshotId demo_guide = None" "guide_lockVersion demo_guide = 1"
  by (simp_all add: demo_guide_def)

lemma demo_create_runs:
  "createAdminCheerGuide ''g2'' ''sn2'' 5 admin_ctx demo_create demo_db =
    (Inr ''g2'', created_state ''g2'' ''sn2'' 5 demo_create demo_lyrics ''dQw4w9WgXcQ'' ''adm'' demo_db)"
  by (simp add: createAdminCheerGuide_def as_admin_admin demo_create_def lockSongForGuideWrite_def
      insertGuideDraft_def created_state_def created_snapshot_def)

theorem create_guide_private_witness:
  "publications (snd (createAdminCheerGuide ''g2'' ''sn2'' 5 admin_ctx demo_create demo_db)) =
    publications demo_db"
proof -
  have "create_guide_input_ok demo_create"
    by (simp add: create_guide_input_ok_def demo_create_def source_ok_def)
  moreover have "u \<in> account_ids demo_db" if "ctx_user admin_ctx = Some u" for u
    using that by simp
  ultimately show ?thesis
    using create_guide_private [OF demo_wf _ _ _ _ demo_create_runs]
    by (simp add: demo_create_runs demo_snapshot_def)
qed

text \<open>
  A song has at most one guide per mode: after a guide has been created, creating another one with
  the same song and mode fails with \<open>CHEER_GUIDE_ALREADY_EXISTS\<close> and changes nothing, whoever asks
  and whatever else the request says.\<close>

theorem create_guide_once:
  assumes "createAdminCheerGuide nguide nsnap now ctx input s = (Inr g, s')"
    and "ctx_user ctx' = Some u" and "ctx_ability ctx' Manage All"
    and "cgi_songId input' = cgi_songId input" and "cgi_mode input' = cgi_mode input"
  shows "createAdminCheerGuide nguide' nsnap' now' ctx' input' s' = fail CHEER_GUIDE_ALREADY_EXISTS s'"
  using assms(1)
proof (cases rule: createAdminCheerGuide_Inr)
  case (1 a song lyrics y)
  have "list_ex (\<lambda>g. guide_songId g = cgi_songId input \<and> guide_mode g = cgi_mode input) (guides s')"
    by (simp add: 1(9) new_guide_def)
  moreover have "lookup song_id (cgi_songId input) (songs s') = Some song" using 1 by simp
  ultimately show ?thesis
    using 1(4-6) assms(2-5)
    by (simp add: createAdminCheerGuide_def as_admin_admin transaction_def lockSongForGuideWrite_def
        insertGuideDraft_def)
qed

theorem create_guide_once_witness:
  "fst (createAdminCheerGuide ''g3'' ''sn3'' 6 admin_ctx demo_create
      (snd (createAdminCheerGuide ''g2'' ''sn2'' 5 admin_ctx demo_create demo_db))) =
    Inl (AppError CHEER_GUIDE_ALREADY_EXISTS)"
  using create_guide_once [OF demo_create_runs, of admin_ctx "''adm''" demo_create "''g3''" "''sn3''" 6]
  by (simp add: demo_create_runs)

section \<open>Deleting\<close>

lemma deleteEmptyCheerGuide_cases:
  assumes "deleteEmptyCheerGuide seen ctx i s = (r, s')"
  obtains (kept) e where "r = Inl e" and "s' = s"
  | (deleted) "r = Inr ()" and "\<not> guideHasHistory s i" and "\<not> guideHasHistory seen i"
      and "lookup guide_id i (guides s) \<noteq> None"
      and "s' = s\<lparr>guides := delete_where (\<lambda>g. guide_id g = i) (guides s)\<rparr>"
      and "ctx_ability ctx Manage All"
proof (cases r)
  case (Inl e)
  with assms delete_guide.rollback [of seen ctx i s e s'] show ?thesis by (intro kept) auto
next
  case (Inr u)
  with assms show ?thesis
    by (auto simp: deleteEmptyCheerGuide_def guard_simps split: prod.splits sum.splits
        option.splits failure.splits if_splits dest!: removeEmptyCheerGuide_state intro!: deleted)
qed

text \<open>
  Deleting never loses history, whatever the statement's snapshot \<open>seen\<close> of the database was when it
  tested for history: every snapshot and publication is kept, a guide that has one is kept too and the
  request fails, the tables stay well-formed, and the public view of every song is unchanged.\<close>

theorem delete_guide_keeps_history:
  assumes "guides_wf s" and "deleteEmptyCheerGuide seen ctx i s = (r, s')"
  shows "guides_wf s' \<and> snapshots s' = snapshots s \<and> publications s' = publications s \<and>
    (\<forall>g \<in> set (guides s). g \<in> set (guides s') \<or> guide_id g = i \<and> \<not> guideHasHistory s i \<and> r = Inr ()) \<and>
    (guideHasHistory s i \<longrightarrow> s' = s \<and> (\<exists>e. r = Inl e)) \<and>
    (\<forall>j y. currentPublishedGuides (guide_states s' j) y = currentPublishedGuides (guide_states s j) y)"
  using assms(2)
proof (cases rule: deleteEmptyCheerGuide_cases)
  case kept
  with assms(1) show ?thesis by simp
next
  case deleted
  have wf': "guides_wf s'" using delete_empty_guide_wf [OF assms(1) deleted(2)] deleted(5) by simp
  have same: "guide_state_of s' = guide_state_of s"
    by (simp add: fun_eq_iff deleted(5) guide_state_of_def current_publication_def publication_snapshot_def
        cong: option.case_cong)
  have gone: "published_of y (guide_state_of s g) = []" if "guide_id g = i" for g y
  proof -
    from deleted(2) that have "current_publication s g = None"
      by (auto simp: guideHasHistory_def current_publication_def list_ex_iff find_None_iff
          split: option.splits)
    then show ?thesis by (simp add: published_of_def guide_state_of_def)
  qed
  have "concat (map (published_of y \<circ> guide_state_of s) (filter q (delete_where (\<lambda>g. guide_id g = i) t))) =
      concat (map (published_of y \<circ> guide_state_of s) (filter q t))" for y q t
    by (induction t) (auto simp: delete_where_def gone)
  then have "currentPublishedGuides (guide_states s' j) y = currentPublishedGuides (guide_states s j) y" for j y
    by (simp add: currentPublishedGuides_def guide_states_def same) (simp add: deleted(5))
  with deleted wf' show ?thesis by (auto simp: set_delete_where)
qed

theorem delete_guide_keeps_history_witness:
  "snd (deleteEmptyCheerGuide empty_db admin_ctx ''g1'' demo_db) = demo_db"
  using delete_guide_keeps_history [OF demo_wf, of empty_db admin_ctx "''g1''"
      "fst (deleteEmptyCheerGuide empty_db admin_ctx ''g1'' demo_db)"
      "snd (deleteEmptyCheerGuide empty_db admin_ctx ''g1'' demo_db)"]
  by (simp add: guideHasHistory_def demo_snapshot_def)

section \<open>Drafting\<close>

text \<open>C18.
  A saved draft is invisible to the public: whatever is saved, every song's published guides, its
  publication history, its own row and all earlier snapshots stay as they were; exactly one snapshot
  is appended, with the next number of the guide, holding the saved lyrics.\<close>

theorem draft_save_invisible:
  assumes "guides_wf s" and "saveAdminCheerGuideDraft nsnap now ctx (i, input) s = (Inr ver, s')"
  shows "(\<forall>j. guide_states s' j = guide_states s j) \<and> publications s' = publications s \<and>
    songs s' = songs s \<and>
    (\<exists>sn. snapshots s' = snapshots s @ [sn] \<and> snap_cheerGuideId sn = i \<and>
      snap_versionNo sn = length (snapshot_numbers s i) + 1 \<and>
      snap_lyrics sn = lyrics_json (dri_lyrics input))"
proof -
  from assms(1) have "gapless (snapshot_numbers s i)" by (simp add: guides_wf_defs)
  then have n: "next_no (snapshot_numbers s i) = length (snapshot_numbers s i) + 1"
    by (rule next_no_gapless)
  show ?thesis
    using assms(2)
  proof (cases rule: saveAdminCheerGuideDraft_Inr)
    case (1 actor row v s1)
    then show ?thesis
      using n draft_hidden [OF assms] claim_state [OF 1(4)]
      by (simp add: snapshot_of_def copied_snapshot_def)
  qed
qed

definition demo_draft :: draft_input where
  "demo_draft = \<lparr>dri_expectedLockVersion = 1, dri_lyrics = [demo_line ''do'']\<rparr>"

lemma demo_draft_simps [simp]:
  "dri_lyrics demo_draft = [demo_line ''do'']" "lyrics_ok [demo_line ''do'']"
  by (simp_all add: demo_draft_def lyrics_ok_def line_ok_def segment_ok_def demo_line_def)

lemma demo_row_simps [simp]:
  "snap_id demo_snapshot = ''sn1''" "snap_cheerGuideId demo_snapshot = ''g1''"
  "snap_referenceYoutubeId demo_snapshot = ''dQw4w9WgXcQ''" "snap_versionNo demo_snapshot = 1"
  "pub_id demo_publication = ''p1''" "pub_cheerGuideId demo_publication = ''g1''"
  "pub_action demo_publication = PUBLISH" "pub_snapshotId demo_publication = ''sn1''"
  "album_id demo_album = ''al1''"
  by (simp_all add: demo_rows)

definition demo_claimed :: "instant \<Rightarrow> db" where
  "demo_claimed now = demo_db\<lparr>guides := [claim_set now demo_guide]\<rparr>"

lemma demo_claim: "claimGuideVersion demo_db ''g1'' 1 now = (Some 2, demo_claimed now)"
  by (simp add: claimGuideVersion_def returning_def claim_pred_def demo_claimed_def)

lemma demo_editor_record:
  "findGuideEditorRecord demo_db ''g1'' = Some \<lparr>er_guide = demo_guide, er_song = demo_song ''so1'',
    er_album = demo_album, er_snapshot = demo_snapshot\<rparr>"
  by (simp add: findGuideEditorRecord_def editor_snapshot_id_def)

lemma demo_draft_runs:
  "saveAdminCheerGuideDraft ''sn2'' 5 admin_ctx (''g1'', demo_draft) demo_db =
    (Inr \<lparr>gv_guideId = ''g1'', gv_lockVersion = 2\<rparr>,
     draft_state ''sn2'' 5 ''g1'' demo_snapshot [demo_line ''do''] ''adm'' (demo_claimed 5))"
  by (simp add: saveAdminCheerGuideDraft_def as_admin_admin demo_draft_def lockSongForGuideWrite_def
      findCheerGuideIdentity_def demo_editor_record demo_claim [unfolded One_nat_def] draft_state_def)

theorem draft_save_invisible_witness:
  "publications (snd (saveAdminCheerGuideDraft ''sn2'' 5 admin_ctx (''g1'', demo_draft) demo_db)) =
    [demo_publication]"
  using draft_save_invisible [OF demo_wf demo_draft_runs] by (simp add: demo_draft_runs)

text \<open>C19.
  A draft can be read back: after a save, opening the editor of the guide returns the saved lyrics and
  the version the save returned, one more than the version expected. The rest is as it was before the
  save: the mode of the guide, the id, title and video of its song, the name of its album, and the
  reference video of the snapshot the editor opened before.\<close>

theorem draft_roundtrip:
  assumes "guides_wf s" and "lyrics_ok (dri_lyrics input)" and "nsnap \<notin> snap_id ` set (snapshots s)"
    and "saveAdminCheerGuideDraft nsnap now ctx (i, input) s = (Inr ver, s')"
  shows "\<exists>ed. getAdminCheerGuideEditor ctx i s' = (Inr ed, s') \<and> ged_id ed = i \<and>
    ged_lyrics ed = dri_lyrics input \<and> ged_lockVersion ed = gv_lockVersion ver \<and>
    gv_guideId ver = i \<and> gv_lockVersion ver = dri_expectedLockVersion input + 1 \<and>
    (\<exists>g so al sn. lookup guide_id i (guides s) = Some g \<and>
      lookup song_id (guide_songId g) (songs s) = Some so \<and>
      lookup album_id (song_albumId so) (albums s) = Some al \<and>
      map_option er_snapshot (findGuideEditorRecord s i) = Some sn \<and>
      ged_mode ed = guide_mode g \<and> ged_referenceYoutubeId ed = snap_referenceYoutubeId sn \<and>
      ged_song ed = \<lparr>eds_id = song_id so, eds_title = (case song_title so of Some t \<Rightarrow> t | None \<Rightarrow> ''''),
        eds_albumName = album_name al, eds_currentYoutubeId = song_youtubeId so\<rparr>)"
  using assms(4)
proof (cases rule: saveAdminCheerGuideDraft_Inr)
  case (1 actor row v s1)
  have keys: "guide_keys s" using assms(1) by (simp add: guides_wf_def)
  have v: "v = Suc (dri_expectedLockVersion input)"
    and "guide_version s i = Some (dri_expectedLockVersion input)"
    using guide_claims.claim_SomeD [OF keys 1(4)] by auto
  then have "guide_lockVersion (er_guide row) = dri_expectedLockVersion input"
    using findGuideEditorRecord_SomeD(1) [OF 1(3)] by (simp add: guide_version_def)
  with v 1 assms(2) findGuideEditorRecord_SomeD(2) [OF 1(3)] show ?thesis
    by (simp add: getAdminCheerGuideEditor_def as_admin_admin editor_song_of_def coalesce_def
        findGuideEditorRecord_SomeD(1,4,5) [OF 1(3)] editor_after_draft [OF assms(1) 1(3) 1(4) assms(3)] snapshot_of_def copied_snapshot_def
        lyricsDataSchema_json)
qed

theorem draft_roundtrip_witness:
  "\<exists>ed. fst (getAdminCheerGuideEditor admin_ctx ''g1''
      (snd (saveAdminCheerGuideDraft ''sn2'' 5 admin_ctx (''g1'', demo_draft) demo_db))) = Inr ed \<and>
    ged_lyrics ed = [demo_line ''do'']"
  using draft_roundtrip [OF demo_wf _ _ demo_draft_runs]
  by (auto simp: demo_draft_runs)

text \<open>C20.
  No lost update among drafts: of two saves that read the same version of a guide, the second fails
  with \<open>CHEER_GUIDE_CONFLICT\<close> and leaves the first one's work untouched.\<close>

theorem draft_no_lost_update:
  assumes "guides_wf s" and "nsnap \<notin> snap_id ` set (snapshots s)"
    and "saveAdminCheerGuideDraft nsnap now ctx (i, input) s = (Inr ver, s')"
    and "ctx_user ctx' = Some u" and "ctx_ability ctx' Manage All"
    and "dri_expectedLockVersion input' = dri_expectedLockVersion input"
  shows "saveAdminCheerGuideDraft nsnap' now' ctx' (i, input') s' = fail CHEER_GUIDE_CONFLICT s'"
  using assms(3)
proof (cases rule: saveAdminCheerGuideDraft_Inr)
  case (1 actor row v s1)
  note st = claim_state [OF 1(4)]
  note r = findGuideEditorRecord_SomeD [OF 1(3)]
  have keys: "guide_keys s" using assms(1) by (simp add: guides_wf_def)
  have lock: "guide_version s1 i = Some (Suc (dri_expectedLockVersion input))" and k1: "guide_keys s1"
    using guide_claims.claim_SomeD [OF keys 1(4)] by auto
  have "guide_version s' i = guide_version s1 i"
    by (simp add: 1(6) guide_version_def lookup_update_key option.map_comp comp_def)
  moreover have "guide_keys s'"
    using k1 assms(2)
    by (auto simp: 1(6) guide_keys_def map_key_update_where filter_update_where snapshot_of_def
        copied_snapshot_def) (simp_all add: st snapshot_of_def)
  ultimately have claim: "claimGuideVersion s' i (dri_expectedLockVersion input') now' = (None, s')"
    using lock assms(6) by (intro guide_claims.stale_claim_fails) auto
  have "findGuideEditorRecord s' i \<noteq> None"
    using editor_after_draft [OF assms(1) 1(3) 1(4) assms(2)] by (simp add: 1(6))
  moreover have "\<exists>g. lookup guide_id i (guides s') = Some g \<and> guide_songId g = guide_songId (er_guide row)"
    using r(1) by (simp add: 1(6) st lookup_update_key lookup_update_where)
  moreover have "lookup song_id (guide_songId (er_guide row)) (songs s') = Some (er_song row)"
    using r(4) by (simp add: 1(6) st)
  ultimately show ?thesis
    using assms(4,5) claim
    by (auto simp: saveAdminCheerGuideDraft_def as_admin_admin transaction_def
        findCheerGuideIdentity_def lockSongForGuideWrite_def)
qed

theorem draft_no_lost_update_witness:
  "fst (saveAdminCheerGuideDraft ''sn3'' 6 admin_ctx (''g1'', demo_draft)
      (snd (saveAdminCheerGuideDraft ''sn2'' 5 admin_ctx (''g1'', demo_draft) demo_db))) =
    Inl (AppError CHEER_GUIDE_CONFLICT)"
  using draft_no_lost_update [OF demo_wf _ demo_draft_runs, of admin_ctx "''adm''" demo_draft]
  by (simp add: demo_draft_runs)

text \<open>
  A pending draft blocks the publishing editor: once a draft of a song's guide has been saved, the
  song editor cannot replace the published lyrics - every attempt to store lyrics fails, with
  \<open>CHEER_GUIDE_DRAFT_PENDING\<close> when it leaves the video and the official flag alone, and changes
  nothing.\<close>

theorem draft_blocks_publishing:
  assumes "guides_wf s" and "saveAdminCheerGuideDraft nsnap now ctx (i, input) s = (Inr ver, s')"
    and "lockLegacyGuide s (song_id song) = Some g" and "guide_id g = i"
    and "chg_lyrics changes \<noteq> None"
  shows "\<exists>c. writeLegacyGuide n p now' song actor changes expected s' = fail c s' \<and>
    c = (if Some (chg_youtubeId changes) = song_youtubeId song \<and>
            (chg_hasOfficialCheer changes = None \<or>
             chg_hasOfficialCheer changes = Some (coalesce (song_hasOfficialCheer song) False))
         then CHEER_GUIDE_DRAFT_PENDING else CHEER_GUIDE_CHANGE_RESTRICTED)"
  using assms(2)
proof (cases rule: saveAdminCheerGuideDraft_Inr)
  case (1 actor' row v s1)
  note st = claim_state [OF 1(4)]
  have find_map: "find P (map f t) = map_option f (find (P \<circ> f) t)" for P and f :: "guide_row \<Rightarrow> guide_row" and t
    by (induction t) auto
  define f where "f h = (\<lambda>h. if guide_id h = i then h\<lparr>guide_workingSnapshotId := Some nsnap\<rparr> else h)
    (if claim_pred i (dri_expectedLockVersion input) h then claim_set now h else h)" for h
  have gs: "guides s' = map f (guides s)"
    by (simp add: 1(6) st update_where_def f_def [abs_def])
  have same: "guide_songId (f h) = guide_songId h" "guide_legacyWriteTarget (f h) = guide_legacyWriteTarget h" for h
    by (simp_all add: f_def)
  have "lockLegacyGuide s' (song_id song) = Some (f g)"
    using assms(3) by (simp add: lockLegacyGuide_def gs find_map comp_def same)
  moreover have "guide_workingSnapshotId (f g) = Some nsnap"
    using assms(4) by (simp add: f_def)
  ultimately show ?thesis
    using assms(5) by (auto simp: writeLegacyGuide_def split: option.splits)
qed

definition demo_changes :: song_changes where
  "demo_changes = \<lparr>chg_lyrics = Some [demo_line ''do''], chg_youtubeId = ''dQw4w9WgXcQ'',
    chg_hasOfficialCheer = None\<rparr>"

theorem draft_blocks_publishing_witness:
  "fst (writeLegacyGuide ''sn3'' ''p2'' 6 (demo_song ''so1'') ''adm'' demo_changes
      (Some \<lparr>gv_guideId = ''g1'', gv_lockVersion = 2\<rparr>)
      (snd (saveAdminCheerGuideDraft ''sn2'' 5 admin_ctx (''g1'', demo_draft) demo_db))) =
    Inl (AppError CHEER_GUIDE_DRAFT_PENDING)"
  using draft_blocks_publishing [OF demo_wf demo_draft_runs, of "demo_song ''so1''" demo_guide demo_changes]
  by (simp add: demo_draft_runs lockLegacyGuide_def) (simp add: demo_changes_def)

section \<open>Listing\<close>

text \<open>
  The administrator's list is truthful about deletion: for every guide it lists, a delete request at
  that moment succeeds exactly when the list marks the guide deletable, and is otherwise refused with
  \<open>CHEER_GUIDE_HAS_HISTORY\<close>; the list is ordered by the time of the last change, newest first.\<close>

theorem listed_deletable_iff:
  assumes "listAdminCheerGuides ctx s = (Inr items, t)"
  shows "t = s \<and> sorted_wrt (\<lambda>a b. ags_updatedAt b \<le> ags_updatedAt a) items \<and>
    (\<forall>x \<in> set items. fst (deleteEmptyCheerGuide s ctx (ags_id x) s) =
      (if ags_deletable x then Inr () else Inl (AppError CHEER_GUIDE_HAS_HISTORY)))"
proof -
  define gs where "gs = sort_key (\<lambda>g. - guide_updatedAt g) (sort_key guide_id (guides s))"
  from assms obtain u where u: "ctx_user ctx = Some u" "ctx_ability ctx Manage All"
    and items: "items = concat (map (guide_summary s) gs)" and t: "t = s"
    unfolding listAdminCheerGuides_def as_admin_Inr prod.inject sum.inject gs_def by blast
  have upd: "x \<in> set (guide_summary s g) \<Longrightarrow> ags_updatedAt x = guide_updatedAt g" for x g
    by (auto simp: guide_summary_def Let_def split: option.splits)
  have one: "sorted_wrt P (guide_summary s g)" for P g
    by (simp add: guide_summary_def Let_def split: option.splits)
  have "sorted_wrt (\<lambda>g h. guide_updatedAt h \<le> guide_updatedAt g) gs"
    using sorted_sort_key [of "\<lambda>g. - guide_updatedAt g" "sort_key guide_id (guides s)"]
    by (simp add: gs_def sorted_wrt_map)
  then have srt: "sorted_wrt (\<lambda>a b. ags_updatedAt b \<le> ags_updatedAt a) (concat (map (guide_summary s) gs))"
    by (induction gs) (auto simp: sorted_wrt_append one dest!: upd)
  have "fst (deleteEmptyCheerGuide s ctx (ags_id x) s) =
      (if ags_deletable x then Inr () else Inl (AppError CHEER_GUIDE_HAS_HISTORY))" if "x \<in> set items" for x
  proof -
    from that items obtain g where g: "g \<in> set (guides s)" "ags_id x = guide_id g"
        "ags_deletable x \<longleftrightarrow> \<not> guideHasHistory s (guide_id g)"
      by (auto simp: gs_def guide_summary_def Let_def split: option.splits)
    from g(1) have "lookup guide_id (guide_id g) (guides s) \<noteq> None" by (simp add: lookup_None_iff)
    with g u show ?thesis
      by (auto simp: deleteEmptyCheerGuide_def as_admin_admin removeEmptyCheerGuide_def
          findCheerGuideIdentity_def)
  qed
  with t srt items show ?thesis by simp
qed

theorem listed_deletable_iff_witness:
  "\<exists>items. fst (listAdminCheerGuides admin_ctx demo_db) = Inr items"
proof -
  obtain items where "listAdminCheerGuides admin_ctx demo_db = (Inr items, demo_db)"
    by (auto simp: listAdminCheerGuides_def as_admin_admin)
  with listed_deletable_iff [OF this] show ?thesis by simp
qed

section \<open>Publishing\<close>

lemma published_of_mode: "pg \<in> set (published_of y st) \<Longrightarrow> pg_mode pg = gst_mode st"
  by (auto simp: published_of_def split: option.splits guide_action.splits if_splits)

lemma disjoint_singleton: "x \<notin> C \<Longrightarrow> A \<subseteq> {x} \<Longrightarrow> B \<subseteq> C \<Longrightarrow> A \<inter> B = {}"
  by blast

lemma distinct_published_modes:
  "distinct (map gst_mode sts) \<Longrightarrow> distinct (map pg_mode (concat (map (published_of y) sts)))"
proof (induction sts)
  case Nil
  then show ?case by simp
next
  case (Cons st sts)
  have one: "distinct (map pg_mode (published_of y st))"
    by (auto simp: published_of_def split: option.splits guide_action.splits)
  have "pg_mode ` set (concat (map (published_of y) sts)) \<subseteq> gst_mode ` set sts"
    using published_of_mode by fastforce
  moreover have "pg_mode ` set (published_of y st) \<subseteq> {gst_mode st}"
    using published_of_mode by auto
  moreover have "gst_mode st \<notin> gst_mode ` set sts" using Cons.prems by simp
  ultimately have "pg_mode ` set (published_of y st) \<inter> pg_mode ` set (concat (map (published_of y) sts)) = {}"
    by (intro disjoint_singleton)
  with one Cons show ?case by simp
qed

lemma distinct_map_sort_key: "distinct (map f (sort_key k xs)) \<longleftrightarrow> distinct (map f xs)"
  by (simp add: distinct_map)

lemma song_modes_distinct:
  assumes "guides_wf s"
  shows "distinct (map gst_mode (guide_states s songId))"
proof -
  have "distinct (map guide_mode (filter (\<lambda>g. guide_songId g = songId) t))"
    if "distinct (map (\<lambda>g. (guide_songId g, guide_mode g)) t)" for t
    using that by (induction t) (auto simp: image_iff)
  moreover have "gst_mode \<circ> guide_state_of s = guide_mode"
    by (simp add: fun_eq_iff guide_state_of_def)
  moreover have "distinct (map (\<lambda>g. (guide_songId g, guide_mode g)) (guides s))"
    using assms by (simp add: guides_wf_defs)
  ultimately show ?thesis by (simp add: guide_states_def)
qed

lemma published_iff:
  assumes "guides_wf s"
  shows "pg \<in> set (currentPublishedGuides (guide_states s songId) y) \<longleftrightarrow>
    (\<exists>g \<in> set (guides s). \<exists>p. guide_songId g = songId \<and> current_publication s g = Some p \<and>
      pub_action p = PUBLISH \<and> publication_snapshot s p = Some (pg_snapshot pg) \<and>
      Some (snap_referenceYoutubeId (pg_snapshot pg)) = y \<and>
      pg_id pg = guide_id g \<and> pg_mode pg = guide_mode g)"
  by (cases pg)
    (auto simp: currentPublishedGuides_def guide_states_def published_of_def guide_state_of_def
      split: option.splits guide_action.splits if_splits, (force+)?)

text \<open>C12.
  The guides the public song page shows: at most one per mode, concert before festival, and exactly
  those whose current publication is a PUBLISH of a snapshot made for the song's present video.  Each
  of them is a snapshot of the guide's own history; drafts, withdrawn guides and guides made for an
  earlier video never appear.\<close>

theorem published_guides_exact:
  assumes "guides_wf s"
  shows "sorted (map pg_mode (currentPublishedGuides (guide_states s songId) y)) \<and>
    distinct (map pg_mode (currentPublishedGuides (guide_states s songId) y)) \<and>
    (\<forall>pg. pg \<in> set (currentPublishedGuides (guide_states s songId) y) \<longleftrightarrow>
      (\<exists>g \<in> set (guides s). \<exists>p \<in> set (publications s).
        guide_songId g = songId \<and> guide_currentPublicationId g = Some (pub_id p) \<and>
        pub_cheerGuideId p = guide_id g \<and> pub_action p = PUBLISH \<and>
        pg_snapshot pg \<in> set (snapshots s) \<and> snap_id (pg_snapshot pg) = pub_snapshotId p \<and>
        snap_cheerGuideId (pg_snapshot pg) = guide_id g \<and>
        Some (snap_referenceYoutubeId (pg_snapshot pg)) = y \<and>
        pg_id pg = guide_id g \<and> pg_mode pg = guide_mode g))"
proof -
  have keys: "distinct (map pub_id (publications s))" "distinct (map snap_id (snapshots s))"
    using assms by (simp_all add: guides_wf_defs)
  have cur: "current_publication s g = Some p \<longleftrightarrow> p \<in> set (publications s) \<and>
      guide_currentPublicationId g = Some (pub_id p) \<and> pub_cheerGuideId p = guide_id g"
    if "g \<in> set (guides s)" for g p
  proof
    assume "current_publication s g = Some p"
    then show "p \<in> set (publications s) \<and> guide_currentPublicationId g = Some (pub_id p) \<and>
        pub_cheerGuideId p = guide_id g"
      by (auto simp: current_publication_def dest!: find_SomeD split: option.splits)
  next
    assume p: "p \<in> set (publications s) \<and> guide_currentPublicationId g = Some (pub_id p) \<and>
        pub_cheerGuideId p = guide_id g"
    with current_publication_found [OF assms that] obtain q where
      "current_publication s g = Some q" "q \<in> set (publications s)" "pub_id q = pub_id p" by blast
    with keys(1) p show "current_publication s g = Some p" by (auto simp: distinct_map dest: inj_onD)
  qed
  have sn: "publication_snapshot s p = Some r \<longleftrightarrow> r \<in> set (snapshots s) \<and>
      snap_id r = pub_snapshotId p \<and> snap_cheerGuideId r = pub_cheerGuideId p"
    if "p \<in> set (publications s)" for p r
  proof
    assume "publication_snapshot s p = Some r"
    then show "r \<in> set (snapshots s) \<and> snap_id r = pub_snapshotId p \<and> snap_cheerGuideId r = pub_cheerGuideId p"
      by (auto simp: publication_snapshot_def dest!: find_SomeD)
  next
    assume r: "r \<in> set (snapshots s) \<and> snap_id r = pub_snapshotId p \<and> snap_cheerGuideId r = pub_cheerGuideId p"
    with publication_snapshot_found [OF assms that] obtain q where
      q: "publication_snapshot s p = Some q" "q \<in> set (snapshots s)" "snap_id q = snap_id r" by fastforce
    from keys(2) have "inj_on snap_id (set (snapshots s))" by (simp add: distinct_map)
    then have "q = r" using q(3,2) r by (blast dest: inj_onD)
    with q show "publication_snapshot s p = Some r" by simp
  qed
  have "sorted (map pg_mode (currentPublishedGuides (guide_states s songId) y))"
    by (simp add: currentPublishedGuides_def)
  moreover have "distinct (map pg_mode (currentPublishedGuides (guide_states s songId) y))"
    using distinct_published_modes [OF song_modes_distinct [OF assms]]
    by (simp add: currentPublishedGuides_def distinct_map_sort_key)
  moreover have "pg \<in> set (currentPublishedGuides (guide_states s songId) y) \<longleftrightarrow>
      (\<exists>g \<in> set (guides s). \<exists>p \<in> set (publications s).
        guide_songId g = songId \<and> guide_currentPublicationId g = Some (pub_id p) \<and>
        pub_cheerGuideId p = guide_id g \<and> pub_action p = PUBLISH \<and>
        pg_snapshot pg \<in> set (snapshots s) \<and> snap_id (pg_snapshot pg) = pub_snapshotId p \<and>
        snap_cheerGuideId (pg_snapshot pg) = guide_id g \<and>
        Some (snap_referenceYoutubeId (pg_snapshot pg)) = y \<and>
        pg_id pg = guide_id g \<and> pg_mode pg = guide_mode g)" for pg
    unfolding published_iff [OF assms] by (rule bex_cong [OF refl]) (auto simp: cur sn)
  ultimately show ?thesis by simp
qed

theorem published_guides_exact_witness:
  "\<exists>pg \<in> set (currentPublishedGuides (guide_states demo_db ''so1'') (Some ''dQw4w9WgXcQ'')).
    pg_snapshot pg = demo_snapshot"
  by (rule bexI [where x = "\<lparr>pg_id = ''g1'', pg_mode = CONCERT, pg_snapshot = demo_snapshot\<rparr>"])
    (use published_guides_exact [OF demo_wf] in simp_all)

text \<open>What the readers see after a publication: the published guide shows the new snapshot.\<close>

definition published_state :: "eid \<Rightarrow> guide_row \<Rightarrow> snapshot_row \<Rightarrow> guide_state" where
  "published_state i g sn = \<lparr>gst_id = i, gst_mode = guide_mode g, gst_hasPublications = True,
    gst_current = Some (PUBLISH, Some sn)\<rparr>"

lemma publish_lyrics_states:
  fixes s nsnap npub now i sn lyrics actor
  defines "s' \<equiv> publish_lyrics nsnap npub now i sn lyrics actor s"
    and "new \<equiv> snapshot_of nsnap (next_no (snapshot_numbers s i)) now
      (copied_snapshot sn i lyrics actor summary_editor_saved)"
  assumes wf: "guides_wf s"
    and fresh: "nsnap \<notin> snap_id ` set (snapshots s)" "npub \<notin> pub_id ` set (publications s)"
  shows "guide_states s' j =
    map (\<lambda>g. if guide_id g = i then published_state i g new else guide_state_of s g)
      (filter (\<lambda>g. guide_songId g = j) (guides s))"
proof -
  define pub where "pub = publication_of npub (next_no (publication_numbers s i)) now
    \<lparr>pd_cheerGuideId = i, pd_snapshotId = nsnap, pd_action = PUBLISH, pd_actorAccountId = actor,
     pd_reason = reason_editor_saved\<rparr>"
  define f where "f (g :: guide_row) = (if guide_id g = i then g\<lparr>guide_currentPublicationId := Some npub\<rparr> else g)" for g
  have sn: "snapshots s' = snapshots s @ [new]" and pb: "publications s' = publications s @ [pub]"
    and gs: "guides s' = map f (guides s)"
    by (simp_all add: s'_def new_def pub_def f_def [abs_def] update_where_def)
  have other: "guide_state_of s' (f g) = guide_state_of s g" if "g \<in> set (guides s)" "guide_id g \<noteq> i" for g
    using guide_state_append [OF wf that(1) sn pb] that(2) by (simp add: f_def pub_def publication_of_def)
  have own: "guide_state_of s' (f g) = published_state i g new" if "guide_id g = i" for g
  proof -
    have "find (\<lambda>p. pub_cheerGuideId p = i \<and> pub_id p = npub) (publications s) = None"
      using fresh(2) by (auto simp: find_None_iff)
    then have "current_publication s' (f g) = Some pub"
      using that by (simp add: current_publication_def f_def pb find_append pub_def publication_of_def)
    moreover have "find (\<lambda>r. snap_cheerGuideId r = i \<and> snap_id r = nsnap) (snapshots s) = None"
      using fresh(1) by (auto simp: find_None_iff)
    then have "publication_snapshot s' pub = Some new"
      by (simp add: publication_snapshot_def sn find_append pub_def publication_of_def new_def
          snapshot_of_def copied_snapshot_def)
    ultimately show ?thesis
      using that by (simp add: guide_state_of_def published_state_def pb)
        (simp add: f_def pub_def publication_of_def)
  qed
  have "filter (\<lambda>g. guide_songId g = j) (map f t) = map f (filter (\<lambda>g. guide_songId g = j) t)" for t
    by (induction t) (auto simp: f_def)
  then have "guide_states s' j = map (\<lambda>g. guide_state_of s' (f g)) (filter (\<lambda>g. guide_songId g = j) (guides s))"
    by (simp add: guide_states_def gs comp_def)
  also have "\<dots> = map (\<lambda>g. if guide_id g = i then published_state i g new else guide_state_of s g)
      (filter (\<lambda>g. guide_songId g = j) (guides s))"
    using own other by (intro map_cong) auto
  finally show ?thesis .
qed

lemma claim_states:
  assumes "guides_wf s" and "claimGuideVersion s i v now = (w, s1)"
  shows "guide_states s1 j = guide_states s j"
  unfolding claim_state [OF assms(2)]
  by (rule guide_states_hidden_change [OF assms(1), where rs = "[]"
      and f = "\<lambda>g. if claim_pred i v g then claim_set now g else g"])
    (simp_all add: update_where_def same_identity_def)

end
