(* ===== verification/Songs.thy ===== *)
theory Songs imports GuideServices begin

text \<open>
  Songs: the statements of \<open>song-repository.ts\<close> and the use cases of \<open>song-service.ts\<close> - creating,
  editing and deleting a song, saving its lyrics together with the guide it publishes, and the public
  song page.
\<close>

section \<open>Statements\<close>

text \<open>The columns an administrator edits (\<open>adminSongFieldsSchema\<close>).\<close>

record song_fields =
  sf_albumId :: eid
  sf_title :: string
  sf_youtubeId :: string
  sf_hasOfficialCheer :: bool
  sf_isTitle :: bool
  sf_isVisible :: bool
  sf_order :: int

text \<open>\<open>album_slug_key\<close>, \<open>song_slug_key\<close>, the primary keys and \<open>song_album_id_fkey\<close>.\<close>

definition slugs_unique :: "song_row list \<Rightarrow> bool" where
  "slugs_unique t \<longleftrightarrow>
    (\<forall>a \<in> set t. \<forall>b \<in> set t. song_slug a \<noteq> None \<and> song_slug a = song_slug b \<longrightarrow> song_id a = song_id b)"

definition songs_wf :: "db \<Rightarrow> bool" where
  "songs_wf s \<longleftrightarrow>
    distinct (map album_id (albums s)) \<and> distinct (map album_slug (albums s)) \<and>
    distinct (map song_id (songs s)) \<and>
    slugs_unique (songs s) \<and>
    (\<forall>r \<in> set (songs s). song_albumId r \<in> album_id ` set (albums s))"

definition slug_taken :: "db \<Rightarrow> eid \<Rightarrow> string \<Rightarrow> bool" where
  "slug_taken s i slug \<longleftrightarrow> list_ex (\<lambda>r. song_id r \<noteq> i \<and> song_slug r = Some slug) (songs s)"

definition insertSong :: "db \<Rightarrow> song_row \<Rightarrow> (eid option, db) use_case" where
  "insertSong s r =
    (if lookup song_id (song_id r) (songs s) \<noteq> None then (Inl (DbError ''song_pkey''), s)
     else if (case song_slug r of None \<Rightarrow> False | Some sl \<Rightarrow> slug_taken s (song_id r) sl)
     then (Inl SongSlugConflictError, s)
     else if lookup album_id (song_albumId r) (albums s) = None
     then (Inl (DbError ''song_album_id_fkey''), s)
     else (Inr (Some (song_id r)), s\<lparr>songs := songs s @ [r]\<rparr>))"

text \<open>The SET clause of an update is a function on rows; \<open>slug\<close> is never part of it.\<close>

definition updateSong :: "db \<Rightarrow> eid \<Rightarrow> (song_row \<Rightarrow> song_row) \<Rightarrow> eid option \<times> db" where
  "updateSong s i f =
    (map_option song_id (first_row (returning (\<lambda>r. song_id r = i) f (songs s))),
     s\<lparr>songs := update_where (\<lambda>r. song_id r = i) f (songs s)\<rparr>)"

definition slugCanBeSet :: "string option \<Rightarrow> song_row \<Rightarrow> bool" where
  "slugCanBeSet slug r =
    (case slug of
       None \<Rightarrow> song_slug r = None
     | Some sl \<Rightarrow> song_slug r = None \<or> song_slug r = Some sl)"

definition updateSongWithSlugPolicy ::
  "db \<Rightarrow> eid \<Rightarrow> string option \<Rightarrow> (song_row \<Rightarrow> song_row) \<Rightarrow> (eid option, db) use_case" where
  "updateSongWithSlugPolicy s i slug f =
    (case lookup song_id i (songs s) of
       None \<Rightarrow> (Inr None, s)
     | Some r \<Rightarrow>
         (if \<not> slugCanBeSet slug r then (Inr None, s)
          else if (case slug of None \<Rightarrow> False | Some sl \<Rightarrow> slug_taken s i sl)
          then (Inl SongSlugConflictError, s)
          else if lookup album_id (song_albumId (f r)) (albums s) = None
          then (Inl (DbError ''song_album_id_fkey''), s)
          else (Inr (Some i),
                s\<lparr>songs := update_where (\<lambda>r. song_id r = i) (\<lambda>r. (f r)\<lparr>song_slug := slug\<rparr>) (songs s)\<rparr>)))"

text \<open>
  Deleting songs: the guide table restricts, waveforms and waveform jobs (with their requesters)
  cascade.
\<close>

definition songs_removed :: "(eid \<Rightarrow> bool) \<Rightarrow> db \<Rightarrow> db" where
  "songs_removed p s =
    (let gone = map job_id (filter (\<lambda>j. p (job_songId j)) (jobs s)) in
     s\<lparr>songs := delete_where (\<lambda>r. p (song_id r)) (songs s),
       waveforms := delete_where (\<lambda>w. p (wf_songId w)) (waveforms s),
       requesters := delete_where (\<lambda>r. req_jobId r \<in> set gone) (requesters s),
       jobs := delete_where (\<lambda>j. p (job_songId j)) (jobs s)\<rparr>)"

definition removeSong :: "db \<Rightarrow> eid \<Rightarrow> (eid option, db) use_case" where
  "removeSong s i =
    (if lookup song_id i (songs s) = None then (Inr None, s)
     else if list_ex (\<lambda>g. guide_songId g = i) (guides s) then (Inl CheerGuideReferenceError, s)
     else (Inr (Some i), songs_removed (\<lambda>j. j = i) s))"

section \<open>Editing\<close>

fun song_slug_error :: "failure \<Rightarrow> failure" where
  "song_slug_error SongSlugConflictError = AppError SONG_SLUG_ALREADY_EXISTS"
| "song_slug_error e = e"

fun guide_reference_error :: "failure \<Rightarrow> failure" where
  "guide_reference_error CheerGuideReferenceError = AppError CONTENT_HAS_CHEER_GUIDE"
| "guide_reference_error e = e"

record create_song_input =
  csi_fields :: song_fields
  csi_slug :: string
  csi_lrcText :: string

definition new_song :: "eid \<Rightarrow> instant \<Rightarrow> create_song_input \<Rightarrow> lyrics_data \<Rightarrow> song_row" where
  "new_song i now input lyrics =
    (let f = csi_fields input in
     \<lparr>song_id = i, song_albumId = sf_albumId f, song_title = Some (sf_title f),
      song_youtubeId = Some (sf_youtubeId f), song_lyrics = Some (lyrics_json lyrics),
      song_hasOfficialCheer = Some (sf_hasOfficialCheer f), song_isTitle = sf_isTitle f,
      song_isVisible = sf_isVisible f, song_order = Some (sf_order f), song_createdAt = Some now,
      song_updatedAt = Some now, song_slug = Some (csi_slug input)\<rparr>)"

definition createSong ::
  "eid \<Rightarrow> instant \<Rightarrow> request_context \<Rightarrow> create_song_input \<Rightarrow> db \<Rightarrow> (eid, db) use_case" where
  "createSong i now ctx input = as_admin ctx (\<lambda>_ s.
    (case parseSongLyrics (csi_lrcText input) of
       Inl e \<Rightarrow> (Inl e, s)
     | Inr lyrics \<Rightarrow>
         on_error song_slug_error
           (and_then (insertSong s (new_song i now input lyrics)) (\<lambda>created s1.
            or_throw created (Error ''Song was not created'') s1 (\<lambda>j. (Inr j, s1))))))"

record update_song_input =
  usi_fields :: song_fields
  usi_slug :: "string option"
  usi_lrcText :: "string option"
  usi_guideWrite :: "guide_write_version option"

text \<open>\<open>...(lrcText?.trim() ? { lyrics: parseSongLyrics(lrcText) } : {})\<close>\<close>

definition edited_lyrics :: "string option \<Rightarrow> failure + lyrics_data option" where
  "edited_lyrics lrcText =
    (case lrcText of
       None \<Rightarrow> Inr None
     | Some t \<Rightarrow> if blank t then Inr None else map_sum id Some (parseSongLyrics t))"

definition edit_set :: "instant \<Rightarrow> song_fields \<Rightarrow> lyrics_data option \<Rightarrow> song_row \<Rightarrow> song_row" where
  "edit_set now f lyrics r =
    r\<lparr>song_albumId := sf_albumId f, song_title := Some (sf_title f),
      song_youtubeId := Some (sf_youtubeId f),
      song_hasOfficialCheer := Some (sf_hasOfficialCheer f), song_isTitle := sf_isTitle f,
      song_isVisible := sf_isVisible f, song_order := Some (sf_order f),
      song_lyrics := (case lyrics of None \<Rightarrow> song_lyrics r | Some l \<Rightarrow> Some (lyrics_json l)),
      song_updatedAt := Some now\<rparr>"

definition editSong ::
  "eid \<Rightarrow> eid \<Rightarrow> instant \<Rightarrow> request_context \<Rightarrow> eid \<times> update_song_input \<Rightarrow> db \<Rightarrow>
    (eid \<times> guide_write_version option, db) use_case" where
  "editSong nsnap npub now ctx arg = as_admin ctx (\<lambda>actor s. (case arg of (i, input) \<Rightarrow>
    (case edited_lyrics (usi_lrcText input) of
       Inl e \<Rightarrow> (Inl e, s)
     | Inr lyrics \<Rightarrow>
         on_error song_slug_error (transaction (\<lambda>s.
           or_throw (lockSongForGuideWrite s i) (AppError SONG_NOT_FOUND) s (\<lambda>existing.
           and_then (writeLegacyGuide nsnap npub now existing actor
               \<lparr>chg_lyrics = lyrics, chg_youtubeId = sf_youtubeId (usi_fields input),
                chg_hasOfficialCheer = Some (sf_hasOfficialCheer (usi_fields input))\<rparr>
               (usi_guideWrite input) s) (\<lambda>next s1.
           and_then (updateSongWithSlugPolicy s1 i (usi_slug input)
               (edit_set now (usi_fields input) lyrics)) (\<lambda>updated s2.
           or_throw updated (AppError SONG_SLUG_IMMUTABLE) s2 (\<lambda>j. (Inr (j, next), s2)))))) s))))"

record save_lyrics_input =
  sli_lyrics :: lyrics_data
  sli_youtubeId :: string
  sli_guideWrite :: "guide_write_version option"

definition lyrics_set :: "instant \<Rightarrow> save_lyrics_input \<Rightarrow> song_row \<Rightarrow> song_row" where
  "lyrics_set now input r =
    r\<lparr>song_lyrics := Some (lyrics_json (sli_lyrics input)), song_youtubeId := Some (sli_youtubeId input),
      song_updatedAt := Some now\<rparr>"

definition saveSongLyrics ::
  "eid \<Rightarrow> eid \<Rightarrow> instant \<Rightarrow> request_context \<Rightarrow> eid \<times> save_lyrics_input \<Rightarrow> db \<Rightarrow>
    (eid \<times> guide_write_version option, db) use_case" where
  "saveSongLyrics nsnap npub now ctx arg = as_admin ctx (\<lambda>actor. transaction (\<lambda>s. (case arg of (i, input) \<Rightarrow>
    or_throw (lockSongForGuideWrite s i) (AppError SONG_NOT_FOUND) s (\<lambda>existing.
    and_then (writeLegacyGuide nsnap npub now existing actor
        \<lparr>chg_lyrics = Some (sli_lyrics input), chg_youtubeId = sli_youtubeId input,
         chg_hasOfficialCheer = None\<rparr>
        (sli_guideWrite input) s) (\<lambda>next s1.
    (case updateSong s1 i (lyrics_set now input) of (song, s2) \<Rightarrow>
    or_throw song (AppError SONG_NOT_FOUND) s2 (\<lambda>j. (Inr (j, next), s2))))))))"

definition deleteSong :: "request_context \<Rightarrow> eid \<Rightarrow> db \<Rightarrow> (unit, db) use_case" where
  "deleteSong ctx i = as_admin ctx (\<lambda>_ s.
    on_error guide_reference_error
      (and_then (removeSong s i) (\<lambda>removed s1.
       or_throw removed (AppError SONG_NOT_FOUND) s1 (\<lambda>_. (Inr (), s1)))))"

section \<open>The public song page\<close>

definition guideVersion :: "guide_row option \<Rightarrow> guide_write_version option" where
  "guideVersion g =
    (case g of
       None \<Rightarrow> None
     | Some r \<Rightarrow> if guide_id r \<noteq> [] \<and> guide_lockVersion r \<noteq> 0
         then Some \<lparr>gv_guideId = guide_id r, gv_lockVersion = guide_lockVersion r\<rparr> else None)"

definition parseStoredLyrics :: "json option \<Rightarrow> failure + lyrics_data" where
  "parseStoredLyrics value =
    (case lyricsDataSchema (coalesce value (JArr [])) of
       None \<Rightarrow> Inl (Error ''Stored song lyrics contract violation'')
     | Some lyrics \<Rightarrow> Inr lyrics)"

record public_guide =
  pgd_id :: eid
  pgd_mode :: guide_mode
  pgd_lyrics :: lyrics_data
  pgd_sourceType :: source_type
  pgd_sourceUrl :: "string option"
  pgd_guideVideoUrl :: "string option"
  pgd_description :: "string option"

text \<open>
  \<open>publishedCheerGuideSchema\<close>.  \<open>web_url\<close> stands for zod's parser of http(s) URLs; identifiers come
  from UUID columns and need no further check.
\<close>

definition url_or_null :: "(string \<Rightarrow> bool) \<Rightarrow> string option \<Rightarrow> bool" where
  "url_or_null web_url u = (case u of None \<Rightarrow> True | Some t \<Rightarrow> web_url t)"

definition publishedCheerGuideSchema :: "(string \<Rightarrow> bool) \<Rightarrow> published_guide \<Rightarrow> public_guide option" where
  "publishedCheerGuideSchema web_url pg =
    (let sn = pg_snapshot pg in
     case lyricsDataSchema (snap_lyrics sn) of
       None \<Rightarrow> None
     | Some lyrics \<Rightarrow>
         (if url_or_null web_url (snap_sourceUrl sn) \<and> url_or_null web_url (snap_guideVideoUrl sn) \<and>
             (snap_sourceType sn \<noteq> OFFICIAL \<or> snap_sourceUrl sn \<noteq> None) \<and> has_text lyrics
          then Some \<lparr>pgd_id = pg_id pg, pgd_mode = pg_mode pg, pgd_lyrics = lyrics,
                     pgd_sourceType = snap_sourceType sn, pgd_sourceUrl = snap_sourceUrl sn,
                     pgd_guideVideoUrl = snap_guideVideoUrl sn, pgd_description = snap_description sn\<rparr>
          else None))"

record public_cheering =
  pc_cheerGuides :: "public_guide list option"
  pc_lyrics :: lyrics_data
  pc_hasOfficialCheer :: bool

definition mapPublicCheering ::
  "(string \<Rightarrow> bool) \<Rightarrow> db \<Rightarrow> song_row \<Rightarrow> string \<Rightarrow> failure + public_cheering" where
  "mapPublicCheering web_url s row youtubeId =
    (if \<not> hasGuidePublication (guide_states s (song_id row))
     then map_sum id
       (\<lambda>lyrics. \<lparr>pc_cheerGuides = None, pc_lyrics = lyrics,
                  pc_hasOfficialCheer = coalesce (song_hasOfficialCheer row) False\<rparr>)
       (parseStoredLyrics (song_lyrics row))
     else
       (case those (map (publishedCheerGuideSchema web_url)
               (currentPublishedGuides (guide_states s (song_id row)) (Some youtubeId))) of
          None \<Rightarrow> Inl (Error ''Stored cheer guide contract violation'')
        | Some gs \<Rightarrow>
            Inr \<lparr>pc_cheerGuides = Some gs,
                 pc_lyrics = (case gs of [] \<Rightarrow> [] | g # _ \<Rightarrow> pgd_lyrics g),
                 pc_hasOfficialCheer = (case gs of [] \<Rightarrow> False | g # _ \<Rightarrow> pgd_sourceType g = OFFICIAL)\<rparr>))"

record renderable_song =
  rs_id :: eid
  rs_title :: string
  rs_slug :: string
  rs_youtubeId :: string
  rs_hasOfficialCheer :: bool
  rs_isTitle :: bool

text \<open>The album service's \<open>mapRenderableSong\<close>; the song service also asks for visibility.\<close>

definition mapRenderableSong :: "db \<Rightarrow> song_row \<Rightarrow> renderable_song option" where
  "mapRenderableSong s song =
    (if truthy (song_title song) \<and> truthy (song_slug song)
     then (case song_youtubeId song of
             None \<Rightarrow> None
           | Some youtubeId \<Rightarrow>
               Some \<lparr>rs_id = song_id song, rs_title = coalesce (song_title song) [],
                     rs_slug = coalesce (song_slug song) [], rs_youtubeId = youtubeId,
                     rs_hasOfficialCheer = defaultGuideIsOfficial (guide_states s (song_id song))
                       (Some youtubeId) (song_hasOfficialCheer song),
                     rs_isTitle = song_isTitle song\<rparr>)
     else None)"

definition mapRenderableAlbumSong :: "db \<Rightarrow> song_row \<Rightarrow> renderable_song option" where
  "mapRenderableAlbumSong s song = (if \<not> song_isVisible song then None else mapRenderableSong s song)"

record song_detail =
  sd_id :: eid
  sd_title :: string
  sd_slug :: string
  sd_youtubeId :: string
  sd_cheering :: public_cheering
  sd_isTitle :: bool
  sd_order :: int
  sd_album :: album_row
  sd_albumSongs :: "renderable_song list"

definition mapSongDetail ::
  "(string \<Rightarrow> bool) \<Rightarrow> db \<Rightarrow> song_row \<Rightarrow> album_row \<Rightarrow> failure + song_detail option" where
  "mapSongDetail web_url s row album =
    (if \<not> album_isVisible album \<or> \<not> truthy (song_title row) \<or> \<not> truthy (song_slug row) then Inr None
     else (case song_youtubeId row of
             None \<Rightarrow> Inr None
           | Some youtubeId \<Rightarrow>
               map_sum id
                 (\<lambda>cheering. Some
                    \<lparr>sd_id = song_id row, sd_title = coalesce (song_title row) [],
                     sd_slug = coalesce (song_slug row) [], sd_youtubeId = youtubeId,
                     sd_cheering = cheering, sd_isTitle = song_isTitle row,
                     sd_order = coalesce (song_order row) 0, sd_album = album,
                     sd_albumSongs = List.map_filter (mapRenderableAlbumSong s)
                       (filter (\<lambda>r. song_albumId r = album_id album) (songs s))\<rparr>)
                 (mapPublicCheering web_url s row youtubeId)))"

definition findSongBySlug :: "db \<Rightarrow> string \<Rightarrow> song_row option" where
  "findSongBySlug s slug = find (\<lambda>r. song_slug r = Some slug \<and> song_isVisible r) (songs s)"

definition getSongDetailBySlug :: "(string \<Rightarrow> bool) \<Rightarrow> string \<Rightarrow> db \<Rightarrow> failure + song_detail option" where
  "getSongDetailBySlug web_url slug s =
    (case findSongBySlug s slug of
       None \<Rightarrow> Inr None
     | Some row \<Rightarrow>
         (case lookup album_id (song_albumId row) (albums s) of
            None \<Rightarrow> Inr None
          | Some album \<Rightarrow> mapSongDetail web_url s row album))"

definition requireSongDetailBySlug :: "(string \<Rightarrow> bool) \<Rightarrow> string \<Rightarrow> db \<Rightarrow> failure + song_detail" where
  "requireSongDetailBySlug web_url slug s =
    (case getSongDetailBySlug web_url slug s of
       Inl e \<Rightarrow> Inl e
     | Inr None \<Rightarrow> Inl (AppError SONG_NOT_FOUND)
     | Inr (Some d) \<Rightarrow> Inr d)"

definition sitemap_entry :: "db \<Rightarrow> song_row \<Rightarrow> (string \<times> instant option) list" where
  "sitemap_entry s r =
    (case lookup album_id (song_albumId r) (albums s) of
       None \<Rightarrow> []
     | Some al \<Rightarrow>
         (if \<not> album_isVisible al \<or> \<not> truthy (song_title r) \<or> \<not> truthy (song_slug r) \<or>
             song_youtubeId r = None
          then [] else [(coalesce (song_slug r) [], song_updatedAt r)]))"

text \<open>\<open>order by sort_order asc\<close>: PostgreSQL puts NULL last.\<close>

definition nulls_last :: "int option \<Rightarrow> bool \<times> int" where
  "nulls_last x = (case x of None \<Rightarrow> (True, 0) | Some n \<Rightarrow> (False, n))"

definition listVisibleSongsForSitemap :: "db \<Rightarrow> (string \<times> instant option) list" where
  "listVisibleSongsForSitemap s =
    concat (map (sitemap_entry s)
      (sort_key (\<lambda>r. snd (nulls_last (song_order r)))
        (filter (\<lambda>r. song_isVisible r \<and> song_order r \<noteq> None) (songs s)) @
       filter (\<lambda>r. song_isVisible r \<and> song_order r = None) (songs s)))"

section \<open>The administrator's views\<close>

record song_editor =
  sed_id :: eid
  sed_title :: string
  sed_albumName :: string
  sed_youtubeId :: string
  sed_lyrics :: lyrics_data
  sed_guideWrite :: "guide_write_version option"

definition getAdminSongEditorBySlug ::
  "request_context \<Rightarrow> string \<Rightarrow> db \<Rightarrow> (song_editor option, db) use_case" where
  "getAdminSongEditorBySlug ctx slug = as_admin ctx (\<lambda>_ s.
    (case find (\<lambda>r. song_slug r = Some slug) (songs s) of
       None \<Rightarrow> (Inr None, s)
     | Some row \<Rightarrow>
         (case lookup album_id (song_albumId row) (albums s) of
            None \<Rightarrow> (Inr None, s)
          | Some al \<Rightarrow>
              (map_sum id
                 (\<lambda>lyrics. Some
                    \<lparr>sed_id = song_id row, sed_title = coalesce (song_title row) [],
                     sed_albumName = album_name al, sed_youtubeId = coalesce (song_youtubeId row) [],
                     sed_lyrics = lyrics, sed_guideWrite = guideVersion (lockLegacyGuide s (song_id row))\<rparr>)
                 (parseStoredLyrics (song_lyrics row)), s))))"

datatype guide_info = Unpublished eid guide_mode bool | Published eid guide_mode bool guide_action source_type

definition song_guide_info :: "db \<Rightarrow> guide_row \<Rightarrow> guide_info option" where
  "song_guide_info s g =
    (case current_publication s g of
       None \<Rightarrow> Some (Unpublished (guide_id g) (guide_mode g) (guideHasHistory s (guide_id g)))
     | Some p \<Rightarrow>
         map_option (\<lambda>sn. Published (guide_id g) (guide_mode g) (guideHasHistory s (guide_id g))
             (pub_action p) (snap_sourceType sn))
           (publication_snapshot s p))"

record song_information =
  si_row :: song_row
  si_albumName :: string
  si_guideWrite :: "guide_write_version option"
  si_hasLyrics :: bool
  si_cheerGuides :: "guide_info list"

definition getAdminSongInformation ::
  "request_context \<Rightarrow> eid \<Rightarrow> db \<Rightarrow> (song_information, db) use_case" where
  "getAdminSongInformation ctx i = as_admin ctx (\<lambda>_ s.
    or_throw (lookup song_id i (songs s)) (AppError SONG_NOT_FOUND) s (\<lambda>row.
    or_throw (lookup album_id (song_albumId row) (albums s)) (AppError SONG_NOT_FOUND) s (\<lambda>al.
    (case parseStoredLyrics (song_lyrics row) of
       Inl e \<Rightarrow> (Inl e, s)
     | Inr lyrics \<Rightarrow>
         or_throw (those (map (song_guide_info s)
             (sort_key guide_mode (filter (\<lambda>g. guide_songId g = i) (guides s)))))
           (Error ''Guide publication snapshot is missing'') s (\<lambda>infos.
         (Inr \<lparr>si_row = row, si_albumName = album_name al,
               si_guideWrite = guideVersion
                 (find guide_legacyWriteTarget
                    (sort_key guide_mode (filter (\<lambda>g. guide_songId g = i) (guides s)))),
               si_hasLyrics = has_text lyrics, si_cheerGuides = infos\<rparr>, s))))))"

section \<open>Contracts\<close>

lemma insertSong_cases:
  "insertSong s r = (res, s') \<Longrightarrow>
    s' = s \<and> (\<exists>e. res = Inl e) \<or>
    res = Inr (Some (song_id r)) \<and> s' = s\<lparr>songs := songs s @ [r]\<rparr> \<and>
      song_id r \<notin> song_id ` set (songs s) \<and>
      (\<forall>sl. song_slug r = Some sl \<longrightarrow> \<not> slug_taken s (song_id r) sl) \<and>
      song_albumId r \<in> album_id ` set (albums s)"
  by (auto simp: insertSong_def lookup_None_iff split: if_splits option.splits)

lemma updateSongWithSlugPolicy_cases:
  "updateSongWithSlugPolicy s i slug f = (res, s') \<Longrightarrow>
    s' = s \<and> (res = Inr None \<or> (\<exists>e. res = Inl e)) \<or>
    (\<exists>r. lookup song_id i (songs s) = Some r \<and> slugCanBeSet slug r \<and>
      (\<forall>sl. slug = Some sl \<longrightarrow> \<not> slug_taken s i sl) \<and> song_albumId (f r) \<in> album_id ` set (albums s) \<and>
      res = Inr (Some i) \<and>
      s' = s\<lparr>songs := update_where (\<lambda>r. song_id r = i) (\<lambda>r. (f r)\<lparr>song_slug := slug\<rparr>) (songs s)\<rparr>)"
  by (auto simp: updateSongWithSlugPolicy_def lookup_None_iff split: if_splits option.splits)

lemma removeSong_cases:
  "removeSong s i = (res, s') \<Longrightarrow>
    s' = s \<and> (res = Inr None \<or> res = Inl CheerGuideReferenceError) \<or>
    res = Inr (Some i) \<and> lookup song_id i (songs s) \<noteq> None \<and> s' = songs_removed (\<lambda>j. j = i) s \<and>
      \<not> list_ex (\<lambda>g. guide_songId g = i) (guides s)"
  by (auto simp: removeSong_def split: if_splits)

lemma createSong_Inr:
  assumes "createSong i now ctx input s = (Inr j, s')"
  obtains "ctx_ability ctx Manage All" and "parsed_lines (csi_lrcText input) \<noteq> []" and "j = i"
    and "s' = s\<lparr>songs := songs s @ [new_song i now input (parsed_lines (csi_lrcText input))]\<rparr>"
    and "i \<notin> song_id ` set (songs s)" and "\<not> slug_taken s i (csi_slug input)"
    and "sf_albumId (csi_fields input) \<in> album_id ` set (albums s)"
  using assms
  by (auto simp: createSong_def guard_simps parseSongLyrics_cases split: if_splits
      dest!: insertSong_cases intro!: that) (auto simp: new_song_def Let_def)

interpretation create_song: atomic_use_case "createSong i now" for i now
  unfolding createSong_def [abs_def]
  by (rule atomic_as_admin)
    (auto simp: and_then_def split: sum.splits prod.splits dest!: on_error_Inl insertSong_cases)

interpretation save_lyrics: atomic_use_case "saveSongLyrics nsnap npub now" for nsnap npub now
  unfolding saveSongLyrics_def [abs_def] by (rule atomic_as_admin_transaction)

interpretation edit_song: atomic_use_case "editSong nsnap npub now" for nsnap npub now
  unfolding editSong_def [abs_def]
  by (rule atomic_as_admin)
    (auto split: sum.splits prod.splits dest!: on_error_Inl transaction_Inl)

interpretation delete_song: atomic_use_case deleteSong
  unfolding deleteSong_def [abs_def]
  by (rule atomic_as_admin)
    (auto simp: and_then_def split: sum.splits prod.splits dest!: on_error_Inl removeSong_cases)

section \<open>Saving lyrics\<close>

lemma writeLegacyGuide_frame:
  assumes "writeLegacyGuide nsnap npub now song actor changes expected s = (Inr r, s')"
  shows "songs s' = songs s" and "albums s' = albums s" and "accounts s' = accounts s"
  using assms
  by (cases rule: writeLegacyGuide_Inr; auto dest!: claim_state
      simp: publish_lyrics_def Let_def setGuidePublication_def insertNextGuidePublication_def
        insertNextGuideSnapshot_def)+

lemma guide_states_songs [simp]: "guide_states (s\<lparr>songs := so\<rparr>) = guide_states s"
  by (simp add: fun_eq_iff guide_states_def guide_state_of_def current_publication_def
      publication_snapshot_def cong: option.case_cong)

lemma lyrics_set_simps [simp]:
  "song_id (lyrics_set now input r) = song_id r" "song_slug (lyrics_set now input r) = song_slug r"
  "song_isVisible (lyrics_set now input r) = song_isVisible r"
  "song_albumId (lyrics_set now input r) = song_albumId r"
  "song_title (lyrics_set now input r) = song_title r"
  "song_lyrics (lyrics_set now input r) = Some (lyrics_json (sli_lyrics input))"
  "song_youtubeId (lyrics_set now input r) = Some (sli_youtubeId input)"
  by (simp_all add: lyrics_set_def)

lemma saveSongLyrics_Inr:
  assumes "saveSongLyrics nsnap npub now ctx (i, input) s = (Inr (j, next), s')"
  obtains actor existing s1 where "ctx_user ctx = Some actor" and "ctx_ability ctx Manage All"
    and "lookup song_id i (songs s) = Some existing" and "j = i"
    and "writeLegacyGuide nsnap npub now existing actor
        \<lparr>chg_lyrics = Some (sli_lyrics input), chg_youtubeId = sli_youtubeId input,
         chg_hasOfficialCheer = None\<rparr> (sli_guideWrite input) s = (Inr next, s1)"
    and "s' = s1\<lparr>songs := update_where (\<lambda>r. song_id r = i) (lyrics_set now input) (songs s)\<rparr>"
proof -
  from assms obtain actor existing s1 where *: "ctx_user ctx = Some actor" "ctx_ability ctx Manage All"
    "lookup song_id i (songs s) = Some existing"
    "writeLegacyGuide nsnap npub now existing actor
        \<lparr>chg_lyrics = Some (sli_lyrics input), chg_youtubeId = sli_youtubeId input,
         chg_hasOfficialCheer = None\<rparr> (sli_guideWrite input) s = (Inr next, s1)"
    and upd: "fst (updateSong s1 i (lyrics_set now input)) = Some j"
      "s' = snd (updateSong s1 i (lyrics_set now input))"
    by (auto simp: saveSongLyrics_def guard_simps lockSongForGuideWrite_def case_prod_beta)
  note so = writeLegacyGuide_frame(1) [OF *(4)]
  from upd(1) obtain r where "r \<in> set (songs s1)" "song_id r = i" "j = song_id (lyrics_set now input r)"
    by (auto simp: updateSong_def dest: first_row_returning_Some)
  with * upd show ?thesis by (auto simp: updateSong_def so intro!: that)
qed

lemma find_update_where:
  "(\<And>r. P (f r) = P r) \<Longrightarrow>
    find P (update_where q f t) = map_option (\<lambda>r. if q r then f r else r) (find P t)"
  by (induction t) auto

lemma those_map_total: "(\<And>x. x \<in> set xs \<Longrightarrow> f x \<noteq> None) \<Longrightarrow> those (map f xs) = Some (map (the \<circ> f) xs)"
  by (induction xs) (auto split: option.splits)

lemma those_map_None: "those (map f xs) = Some ys \<Longrightarrow> x \<in> set xs \<Longrightarrow> f x \<noteq> None"
  by (induction xs arbitrary: ys) (auto split: option.splits)

lemma set_currentPublishedGuides:
  "set (currentPublishedGuides sts y) = (\<Union>st \<in> set sts. set (published_of y st))"
  by (simp add: currentPublishedGuides_def)

lemma getSongDetail_published:
  assumes "getSongDetailBySlug web_url slug s = Inr (Some d)" and "findSongBySlug s slug = Some row"
    and "hasGuidePublication (guide_states s (song_id row))"
    and "pg \<in> set (currentPublishedGuides (guide_states s (song_id row)) (song_youtubeId row))"
  shows "publishedCheerGuideSchema web_url pg \<noteq> None"
  using assms
  by (auto simp: getSongDetailBySlug_def mapSongDetail_def mapPublicCheering_def
      split: option.splits if_splits sum.splits dest!: those_map_None)

text \<open>The state after a save that published, and the guides it lets the readers see.\<close>

lemma save_published_view:
  assumes wf: "guides_wf s" and g: "lockLegacyGuide s i = Some g"
    and fresh: "nsnap \<notin> snap_id ` set (snapshots s)" "npub \<notin> pub_id ` set (publications s)"
    and run: "saveSongLyrics nsnap npub now ctx (i, input) s = (Inr (j, next), s')"
  obtains existing sn new where "lookup song_id i (songs s) = Some existing"
    and "song_youtubeId existing = Some (sli_youtubeId input)"
    and "songs s' = update_where (\<lambda>r. song_id r = i) (lyrics_set now input) (songs s)"
    and "albums s' = albums s"
    and "sli_guideWrite input = Some \<lparr>gv_guideId = guide_id g, gv_lockVersion = guide_lockVersion g\<rparr>"
    and "next = Some \<lparr>gv_guideId = guide_id g, gv_lockVersion = guide_lockVersion g + 1\<rparr>"
    and "has_text (sli_lyrics input)"
    and "\<lparr>pg_id = guide_id g, pg_mode = guide_mode g, pg_snapshot = sn\<rparr>
      \<in> set (currentPublishedGuides (guide_states s i) (song_youtubeId existing))"
    and "new = snapshot_of nsnap (next_no (snapshot_numbers s (guide_id g))) now
      (copied_snapshot sn (guide_id g) (sli_lyrics input) (the (ctx_user ctx)) summary_editor_saved)"
    and "\<And>k. guide_states s' k =
      map (\<lambda>h. if guide_id h = guide_id g then published_state (guide_id g) h new else guide_state_of s h)
        (filter (\<lambda>h. guide_songId h = k) (guides s))"
  using run
proof (cases rule: saveSongLyrics_Inr)
  case (1 actor existing s2)
  have sid: "song_id existing = i" using lookup_SomeD [OF 1(3)] by simp
  from 1(5) show ?thesis
  proof (cases rule: writeLegacyGuide_Inr)
    case untouched
    with g sid show ?thesis by simp
  next
    case (published guide lyrics sn v s1)
    with g sid have [simp]: "guide = g" "lyrics = sli_lyrics input" by simp_all
    have gin: "g \<in> set (guides s)" and gs: "guide_songId g = i"
      using lockLegacyGuide_SomeD [OF g] by auto
    have keys: "guide_keys s" using wf by (simp add: guides_wf_def)
    have v: "v = guide_lockVersion g + 1"
      using guide_claims.claim_SomeD [OF keys published(9)] by simp
    note st = claim_state [OF published(9)]
    have wf1: "guides_wf s1" using claim_wf [OF wf] published(9) by (metis snd_conv)
    define new where "new = snapshot_of nsnap (next_no (snapshot_numbers s (guide_id g))) now
      (copied_snapshot sn (guide_id g) (sli_lyrics input) actor summary_editor_saved)"
    have "guide_states s2 k = map (\<lambda>h. if guide_id h = guide_id g
        then published_state (guide_id g) h new else guide_state_of s1 h)
        (filter (\<lambda>h. guide_songId h = k) (guides s1))" for k
      using publish_lyrics_states [OF wf1, of nsnap npub now "guide_id g" sn "sli_lyrics input" actor k] fresh
      by (simp add: published(11) new_def st)
    moreover have "filter (\<lambda>h. guide_songId h = k) (guides s1) =
        update_where (claim_pred (guide_id g) (guide_lockVersion g)) (claim_set now)
          (filter (\<lambda>h. guide_songId h = k) (guides s))" for k
      by (simp add: st filter_update_where)
    moreover have "guide_state_of s1 h = guide_state_of s h" for h
      by (simp add: st guide_state_of_def current_publication_def publication_snapshot_def
          cong: option.case_cong)
    moreover have "guide_state_of s (claim_set now h) = guide_state_of s h" for h
      by (rule guide_state_of_cong) simp_all
    ultimately have view: "guide_states s' k = map (\<lambda>h. if guide_id h = guide_id g
        then published_state (guide_id g) h new else guide_state_of s h)
        (filter (\<lambda>h. guide_songId h = k) (guides s))" for k
      by (simp add: 1(6) update_where_def comp_def published_state_def claim_pred_def cong: map_cong)
    have yt: "song_youtubeId existing = Some (sli_youtubeId input)" using published(7) by simp
    from published(5) obtain p where p: "p \<in> set (publications s)" "guide_currentPublicationId g = Some (pub_id p)"
      "pub_cheerGuideId p = guide_id g" "pub_action p = PUBLISH" "sn \<in> set (snapshots s)"
      "snap_id sn = pub_snapshotId p" by (auto elim: current_of_SomeD)
    have "current_publication s g = Some p"
    proof -
      obtain q where "current_publication s g = Some q" "q \<in> set (publications s)" "pub_id q = pub_id p"
        using current_publication_found [OF wf gin p(2)] by auto
      moreover have "inj_on pub_id (set (publications s))" using keys by (simp add: guide_keys_def distinct_map)
      ultimately show ?thesis using p(1) by (auto dest: inj_onD)
    qed
    moreover have "publication_snapshot s p = Some sn"
    proof -
      obtain q where "publication_snapshot s p = Some q" "q \<in> set (snapshots s)" "snap_id q = pub_snapshotId p"
        using publication_snapshot_found [OF wf p(1)] by auto
      moreover have "inj_on snap_id (set (snapshots s))" using keys by (simp add: guide_keys_def distinct_map)
      ultimately show ?thesis using p(5,6) inj_onD by fastforce
    qed
    ultimately have "\<lparr>pg_id = guide_id g, pg_mode = guide_mode g, pg_snapshot = sn\<rparr>
        \<in> set (currentPublishedGuides (guide_states s i) (song_youtubeId existing))"
      unfolding published_iff [OF wf] using gin gs p(4) published(6) yt by auto
    then show ?thesis
      using 1 yt published view v writeLegacyGuide_frame(2) [OF 1(5)]
      by (intro that [of existing sn new]) (simp_all add: new_def)
  qed
qed

lemma hasGuidePublication_published_state:
  "g \<in> set gs \<Longrightarrow> guide_id g = i \<Longrightarrow>
    hasGuidePublication (map (\<lambda>h. if guide_id h = i then published_state i h new else f h) gs)"
  by (auto simp: hasGuidePublication_def list_ex_iff published_state_def simp del: if_image_distrib)

lemma current_has_publication:
  "st \<in> set (guide_states s i) \<Longrightarrow> gst_current st \<noteq> None \<Longrightarrow> gst_hasPublications st"
  by (auto simp: guide_states_def guide_state_of_def current_publication_def list_ex_iff
      dest!: find_SomeD split: option.splits)

lemma published_has_publication:
  assumes "pg \<in> set (currentPublishedGuides (guide_states s i) y)"
  shows "hasGuidePublication (guide_states s i)"
proof -
  from assms obtain st where st: "st \<in> set (guide_states s i)" "pg \<in> set (published_of y st)"
    by (auto simp: set_currentPublishedGuides)
  then have "gst_current st \<noteq> None" by (cases "gst_current st") (simp_all add: published_of_def)
  with st(1) current_has_publication [OF st(1)] show ?thesis
    by (auto simp: hasGuidePublication_def list_ex_iff)
qed

lemma map_sum_id_Inr [simp]: "map_sum id f x = Inr y \<longleftrightarrow> (\<exists>z. x = Inr z \<and> y = f z)"
  by (cases x) auto

text \<open>The public page of a song parses exactly when all its published guides do.\<close>

lemma mapPublicCheering_total:
  assumes "hasGuidePublication (guide_states s (song_id row))"
    and "\<And>pg. pg \<in> set (currentPublishedGuides (guide_states s (song_id row)) (Some y)) \<Longrightarrow>
      publishedCheerGuideSchema web_url pg \<noteq> None"
  shows "\<exists>c. mapPublicCheering web_url s row y = Inr c \<and>
    pc_cheerGuides c = Some (map (the \<circ> publishedCheerGuideSchema web_url)
      (currentPublishedGuides (guide_states s (song_id row)) (Some y)))"
  using assms by (simp add: mapPublicCheering_def those_map_total)

lemma getSongDetail_SomeE:
  assumes "getSongDetailBySlug web_url slug s = Inr (Some d)"
  obtains row al y where "findSongBySlug s slug = Some row"
    and "lookup album_id (song_albumId row) (albums s) = Some al" and "album_isVisible al"
    and "truthy (song_title row)" and "truthy (song_slug row)" and "song_youtubeId row = Some y"
    and "sd_id d = song_id row" and "mapPublicCheering web_url s row y = Inr (sd_cheering d)"
  using assms
  by (auto simp: getSongDetailBySlug_def mapSongDetail_def split: option.splits if_splits intro!: that)

text \<open>C3.
  Saving lyrics publishes them.  For a song with a published guide that the song editor writes, a
  successful save needs exactly the version that was current, returns the next one, and from then on
  the public page of the song - which still parses - shows that guide with the saved lyrics.\<close>

theorem save_lyrics_published:
  assumes "guides_wf s" and "songs_wf s" and "lyrics_ok (sli_lyrics input)"
    and "nsnap \<notin> snap_id ` set (snapshots s)" and "npub \<notin> pub_id ` set (publications s)"
    and "lockLegacyGuide s i = Some g"
    and "getSongDetailBySlug web_url slug s = Inr (Some d)" and "sd_id d = i"
    and "saveSongLyrics nsnap npub now ctx (i, input) s = (Inr (j, next), s')"
  shows "sli_guideWrite input = Some \<lparr>gv_guideId = guide_id g, gv_lockVersion = guide_lockVersion g\<rparr> \<and>
    next = Some \<lparr>gv_guideId = guide_id g, gv_lockVersion = guide_lockVersion g + 1\<rparr> \<and>
    (\<exists>d' gs. getSongDetailBySlug web_url slug s' = Inr (Some d') \<and> sd_id d' = i \<and>
      pc_cheerGuides (sd_cheering d') = Some gs \<and>
      (\<exists>pgd \<in> set gs. pgd_id pgd = guide_id g \<and> pgd_mode pgd = guide_mode g \<and>
        pgd_lyrics pgd = sli_lyrics input))"
  using assms(1,6,4,5,9)
proof (cases rule: save_published_view)
  case (1 existing sn new)
  note view = 1(10)
  from assms(7) obtain row al y where row: "findSongBySlug s slug = Some row"
    "lookup album_id (song_albumId row) (albums s) = Some al" "album_isVisible al"
    "truthy (song_title row)" "truthy (song_slug row)" "song_youtubeId row = Some y" "sd_id d = song_id row"
    by (rule getSongDetail_SomeE) blast
  have "distinct (map song_id (songs s))" using assms(2) by (simp add: songs_wf_def)
  moreover have "row \<in> set (songs s)" using row(1) by (auto simp: findSongBySlug_def dest: find_SomeD)
  ultimately have [simp]: "existing = row"
    using 1(1) row(7) assms(8) by (simp add: lookup_Some_iff distinct_map inj_on_def)
  have yt [simp]: "y = sli_youtubeId input" using row(6) 1(2) by simp
  define pg0 where "pg0 = \<lparr>pg_id = guide_id g, pg_mode = guide_mode g, pg_snapshot = sn\<rparr>"
  define pg1 where "pg1 = \<lparr>pg_id = guide_id g, pg_mode = guide_mode g, pg_snapshot = new\<rparr>"
  have old: "publishedCheerGuideSchema web_url pg \<noteq> None"
    if "pg \<in> set (currentPublishedGuides (guide_states s i) (Some y))" for pg
    using getSongDetail_published [OF assms(7) row(1)] published_has_publication [OF that] that row(6,7) assms(8)
    by simp
  have "publishedCheerGuideSchema web_url pg0 \<noteq> None"
    using 1(8) old row(6) by (simp add: pg0_def)
  then have new: "publishedCheerGuideSchema web_url pg1 = Some \<lparr>pgd_id = guide_id g, pgd_mode = guide_mode g,
      pgd_lyrics = sli_lyrics input, pgd_sourceType = snap_sourceType sn,
      pgd_sourceUrl = snap_sourceUrl sn, pgd_guideVideoUrl = snap_guideVideoUrl sn,
      pgd_description = snap_description sn\<rparr>"
    using 1(7) assms(3)
    by (auto simp: publishedCheerGuideSchema_def pg0_def pg1_def 1(9) snapshot_of_def copied_snapshot_def
        lyricsDataSchema_json Let_def split: option.splits if_splits)
  have gin: "g \<in> set (filter (\<lambda>h. guide_songId h = i) (guides s))"
    using lockLegacyGuide_SomeD [OF assms(6)] by simp
  have gid: "h = g" if "h \<in> set (guides s)" "guide_id h = guide_id g" for h
    using assms(1) gin that by (auto simp: guides_wf_defs distinct_map dest: inj_onD)
  have sny: "Some (snap_referenceYoutubeId sn) = song_youtubeId row"
    using 1(8) by (auto simp: published_iff [OF assms(1)])
  have pub: "published_of (Some y) (published_state (guide_id g) g new) = [pg1]"
    using sny row(6) by (simp add: published_of_def published_state_def pg1_def 1(9) snapshot_of_def
        copied_snapshot_def)
  have members: "pg = pg1 \<or> pg \<in> set (currentPublishedGuides (guide_states s i) (Some y))"
    if "pg \<in> set (currentPublishedGuides (guide_states s' i) (Some y))" for pg
  proof -
    from that obtain h where h: "h \<in> set (guides s)" "guide_songId h = i"
      "pg \<in> set (published_of (Some y) (if guide_id h = guide_id g then published_state (guide_id g) h new
        else guide_state_of s h))"
      by (auto simp: set_currentPublishedGuides view)
    show ?thesis
    proof (cases "guide_id h = guide_id g")
      case True
      with h pub gid [OF h(1)] show ?thesis by simp
    next
      case False
      with h show ?thesis by (auto simp: set_currentPublishedGuides guide_states_def)
    qed
  qed
  have pg1: "pg1 \<in> set (currentPublishedGuides (guide_states s' i) (Some y))"
    using gin pub by (force simp: set_currentPublishedGuides view)
  have has: "hasGuidePublication (guide_states s' i)"
    unfolding view by (rule hasGuidePublication_published_state [OF gin refl])
  have mem: "the (publishedCheerGuideSchema web_url pg1) \<in> set (map (the \<circ> publishedCheerGuideSchema web_url)
      (currentPublishedGuides (guide_states s' i) (Some y)))"
    using pg1 by simp
  let ?row = "lyrics_set now input row"
  have "song_id row = i" using row(7) assms(8) by simp
  moreover have "findSongBySlug s' slug = Some ?row"
    using row(1) \<open>song_id row = i\<close> by (simp add: findSongBySlug_def 1(3) find_update_where)
  moreover obtain c where "mapPublicCheering web_url s' ?row y = Inr c" and
    c: "pc_cheerGuides c = Some (map (the \<circ> publishedCheerGuideSchema web_url)
      (currentPublishedGuides (guide_states s' i) (Some y)))"
    using mapPublicCheering_total [of s' ?row y web_url] has members old new \<open>song_id row = i\<close> by auto
  ultimately obtain d' where d': "getSongDetailBySlug web_url slug s' = Inr (Some d')" "sd_id d' = i"
    "sd_cheering d' = c"
    using row(2-5) by (simp add: getSongDetailBySlug_def mapSongDetail_def 1(4))
  then show ?thesis
    using 1(5,6) c new
    by (intro conjI exI [of _ d'] exI [of _ "map (the \<circ> publishedCheerGuideSchema web_url)
        (currentPublishedGuides (guide_states s' i) (Some y))"]
        bexI [OF _ mem]) simp_all
qed

definition demo_save :: save_lyrics_input where
  "demo_save = \<lparr>sli_lyrics = [demo_line ''do''], sli_youtubeId = ''dQw4w9WgXcQ'',
    sli_guideWrite = Some \<lparr>gv_guideId = ''g1'', gv_lockVersion = 1\<rparr>\<rparr>"

lemma demo_save_simps [simp]:
  "sli_lyrics demo_save = [demo_line ''do'']" "sli_youtubeId demo_save = ''dQw4w9WgXcQ''"
  "sli_guideWrite demo_save = Some \<lparr>gv_guideId = ''g1'', gv_lockVersion = 1\<rparr>"
  by (simp_all add: demo_save_def)

lemma demo_has_text [simp]: "has_text [demo_line ''do'']" "has_text demo_lyrics"
  by (simp_all add: has_text_def demo_line_def demo_lyrics_def blank_iff is_space_def)

lemma demo_current [simp]: "current_of demo_db demo_guide = Some (PUBLISH, demo_snapshot)"
  by (simp add: current_of_def findGuidePublication_def)

lemma demo_legacy [simp]: "lockLegacyGuide demo_db ''so1'' = Some demo_guide"
  by (simp add: lockLegacyGuide_def)

lemma demo_songs_wf: "songs_wf demo_db"
  by (simp add: songs_wf_def slugs_unique_def)

lemma demo_publish_runs:
  "writeLegacyGuide ''sn2'' ''p2'' 5 (demo_song ''so1'') ''adm''
      \<lparr>chg_lyrics = Some (sli_lyrics demo_save), chg_youtubeId = sli_youtubeId demo_save,
       chg_hasOfficialCheer = None\<rparr> (sli_guideWrite demo_save) demo_db =
    (Inr (Some \<lparr>gv_guideId = ''g1'', gv_lockVersion = 2\<rparr>),
     publish_lyrics ''sn2'' ''p2'' 5 ''g1'' demo_snapshot [demo_line ''do''] ''adm'' (demo_claimed 5))"
  by (simp add: writeLegacyGuide_def demo_claim [unfolded One_nat_def])

definition demo_saved :: db where
  "demo_saved = (publish_lyrics ''sn2'' ''p2'' 5 ''g1'' demo_snapshot [demo_line ''do''] ''adm'' (demo_claimed 5))
    \<lparr>songs := update_where (\<lambda>r. song_id r = ''so1'') (lyrics_set 5 demo_save) (songs demo_db)\<rparr>"

lemma demo_save_runs:
  "saveSongLyrics ''sn2'' ''p2'' 5 admin_ctx (''so1'', demo_save) demo_db =
    (Inr (''so1'', Some \<lparr>gv_guideId = ''g1'', gv_lockVersion = 2\<rparr>), demo_saved)"
proof -
  let ?s1 = "publish_lyrics ''sn2'' ''p2'' 5 ''g1'' demo_snapshot [demo_line ''do''] ''adm'' (demo_claimed 5)"
  have so: "songs (demo_claimed 5) = songs demo_db" by (simp add: demo_claimed_def)
  have "updateSong ?s1 ''so1'' (lyrics_set 5 demo_save) = (Some ''so1'', demo_saved)"
    by (simp add: updateSong_def so returning_def) (simp add: demo_saved_def)
  moreover have "lockSongForGuideWrite demo_db ''so1'' = Some (demo_song ''so1'')"
    by (simp add: lockSongForGuideWrite_def)
  ultimately show ?thesis
    by (simp add: saveSongLyrics_def as_admin_admin transaction_def demo_publish_runs [simplified])
qed

lemma demo_published:
  "currentPublishedGuides (guide_states demo_db ''so1'') (Some ''dQw4w9WgXcQ'') =
    [\<lparr>pg_id = ''g1'', pg_mode = CONCERT, pg_snapshot = demo_snapshot\<rparr>]"
  by (simp add: currentPublishedGuides_def guide_states_def guide_state_of_def published_of_def
      current_publication_def publication_snapshot_def)

lemma demo_detail:
  "\<exists>d. getSongDetailBySlug (\<lambda>_. True) ''so1'' demo_db = Inr (Some d) \<and> sd_id d = ''so1''"
proof -
  have "hasGuidePublication (guide_states demo_db ''so1'')"
    by (simp add: hasGuidePublication_def guide_states_def guide_state_of_def)
  moreover have "publishedCheerGuideSchema (\<lambda>_. True) \<lparr>pg_id = ''g1'', pg_mode = CONCERT,
      pg_snapshot = demo_snapshot\<rparr> \<noteq> None"
    by (simp add: publishedCheerGuideSchema_def Let_def url_or_null_def demo_snapshot_def split: option.split)
  ultimately have "\<exists>c. mapPublicCheering (\<lambda>_. True) demo_db (demo_song ''so1'') ''dQw4w9WgXcQ'' = Inr c"
    using mapPublicCheering_total [of demo_db "demo_song ''so1''" "''dQw4w9WgXcQ''" "\<lambda>_. True"]
    by (auto simp: demo_published)
  then show ?thesis
    by (auto simp: getSongDetailBySlug_def findSongBySlug_def mapSongDetail_def truthy_def)
      (auto simp: demo_song_def demo_album_def)
qed

theorem save_lyrics_published_witness:
  "\<exists>d' gs. getSongDetailBySlug (\<lambda>_. True) ''so1'' demo_saved = Inr (Some d') \<and>
    pc_cheerGuides (sd_cheering d') = Some gs \<and> (\<exists>p \<in> set gs. pgd_lyrics p = [demo_line ''do''])"
proof -
  obtain d where d: "getSongDetailBySlug (\<lambda>_. True) ''so1'' demo_db = Inr (Some d)" "sd_id d = ''so1''"
    using demo_detail by blast
  have "lyrics_ok (sli_lyrics demo_save)" "''sn2'' \<notin> snap_id ` set (snapshots demo_db)"
    "''p2'' \<notin> pub_id ` set (publications demo_db)" by simp_all
  from save_lyrics_published [OF demo_wf demo_songs_wf this demo_legacy d demo_save_runs] show ?thesis
    by auto
qed

section \<open>Competing saves\<close>

lemma lockLegacyGuide_map:
  assumes "guides s' = map f (guides s)"
    and "\<And>h. guide_songId (f h) = guide_songId h" and "\<And>h. guide_legacyWriteTarget (f h) = guide_legacyWriteTarget h"
  shows "lockLegacyGuide s' i = map_option f (lockLegacyGuide s i)"
proof -
  have "find P (map f t) = map_option f (find (P \<circ> f) t)" for P t by (induction t) auto
  with assms show ?thesis by (simp add: lockLegacyGuide_def comp_def)
qed

lemma save_guide_after:
  assumes "guides_wf s" and "lockLegacyGuide s i = Some g"
    and "saveSongLyrics nsnap npub now ctx (i, input) s = (Inr (j, next), s')"
  shows "\<exists>g'. lockLegacyGuide s' i = Some g' \<and> guide_id g' = guide_id g \<and>
    guide_lockVersion g' = Suc (guide_lockVersion g) \<and> guide_workingSnapshotId g' = None \<and>
    sli_guideWrite input = Some \<lparr>gv_guideId = guide_id g, gv_lockVersion = guide_lockVersion g\<rparr> \<and>
    (\<exists>r. lookup song_id i (songs s') = Some r \<and> song_youtubeId r = Some (sli_youtubeId input))"
  using assms(3)
proof (cases rule: saveSongLyrics_Inr)
  case (1 actor existing s2)
  have sid: "song_id existing = i" using lookup_SomeD [OF 1(3)] by simp
  have row: "\<exists>r. lookup song_id i (songs s') = Some r \<and> song_youtubeId r = Some (sli_youtubeId input)"
    using 1(3) by (simp add: 1(6) lookup_update_key)
  from 1(5) show ?thesis
  proof (cases rule: writeLegacyGuide_Inr)
    case untouched
    with assms(2) sid show ?thesis by simp
  next
    case (published guide lyrics sn v s1)
    with assms(2) sid have [simp]: "guide = g" by simp
    note st = claim_state [OF published(9)]
    let ?f = "\<lambda>h. (\<lambda>h. if guide_id h = guide_id g then h\<lparr>guide_currentPublicationId := Some npub\<rparr> else h)
      (if claim_pred (guide_id g) (guide_lockVersion g) h then claim_set now h else h)"
    have "guides s' = map ?f (guides s)"
      by (simp add: 1(6) published(11) st update_where_def)
    then have "lockLegacyGuide s' i = map_option ?f (lockLegacyGuide s i)"
      by (rule lockLegacyGuide_map) simp_all
    then show ?thesis
      using assms(2) published(3,4) row by (simp add: claim_pred_def)
  qed
qed

text \<open>C17.
  Two administrators who opened the same version of a published song cannot overwrite each other:
  once one of them has saved, the other's save of the same song, whatever lyrics it carries, fails
  and changes nothing. With the video the first save left it fails with \<open>CHEER_GUIDE_CONFLICT\<close>; with
  another video it fails with \<open>CHEER_GUIDE_CHANGE_RESTRICTED\<close>, which is tested before the version.\<close>

theorem publish_no_lost_update:
  assumes "guides_wf s" and "lockLegacyGuide s i = Some g"
    and "saveSongLyrics nsnap npub now ctx (i, input) s = (Inr (j, next), s')"
    and "ctx_user ctx' = Some u" and "ctx_ability ctx' Manage All"
    and "sli_guideWrite input' = sli_guideWrite input"
  shows "saveSongLyrics nsnap' npub' now' ctx' (i, input') s' =
    fail (if sli_youtubeId input' = sli_youtubeId input then CHEER_GUIDE_CONFLICT
      else CHEER_GUIDE_CHANGE_RESTRICTED) s'"
proof -
  from save_guide_after [OF assms(1-3)] obtain g' r where g': "lockLegacyGuide s' i = Some g'"
    "guide_lockVersion g' = Suc (guide_lockVersion g)" "guide_workingSnapshotId g' = None"
    "sli_guideWrite input = Some \<lparr>gv_guideId = guide_id g, gv_lockVersion = guide_lockVersion g\<rparr>"
    and r: "lookup song_id i (songs s') = Some r" "song_youtubeId r = Some (sli_youtubeId input)"
    by blast
  have "song_id r = i" using lookup_SomeD [OF r(1)] by simp
  with g' r assms(6) have "writeLegacyGuide nsnap' npub' now' r u
      \<lparr>chg_lyrics = Some (sli_lyrics input'), chg_youtubeId = sli_youtubeId input',
       chg_hasOfficialCheer = None\<rparr> (sli_guideWrite input') s' =
      fail (if sli_youtubeId input' = sli_youtubeId input then CHEER_GUIDE_CONFLICT
        else CHEER_GUIDE_CHANGE_RESTRICTED) s'"
    by (simp add: writeLegacyGuide_def)
  with r assms(4,5) show ?thesis
    by (simp add: saveSongLyrics_def as_admin_admin transaction_def lockSongForGuideWrite_def)
qed

theorem publish_no_lost_update_witness:
  "fst (saveSongLyrics ''sn3'' ''p3'' 6 admin_ctx (''so1'', demo_save) demo_saved) =
    Inl (AppError CHEER_GUIDE_CONFLICT) \<and>
  fst (saveSongLyrics ''sn3'' ''p3'' 6 admin_ctx
    (''so1'', demo_save\<lparr>sli_youtubeId := ''other''\<rparr>) demo_saved) =
    Inl (AppError CHEER_GUIDE_CHANGE_RESTRICTED)"
  using publish_no_lost_update [OF demo_wf demo_legacy demo_save_runs, of admin_ctx "''adm''"
      "demo_save\<lparr>sli_youtubeId := ''other''\<rparr>"] publish_no_lost_update [OF demo_wf demo_legacy demo_save_runs, of admin_ctx "''adm''" demo_save]
  by simp

section \<open>Editing a song\<close>

lemma editSong_Inr:
  assumes "editSong nsnap npub now ctx (i, input) s = (Inr (j, next), s')"
  obtains actor lyrics existing s1 where "ctx_user ctx = Some actor" and "ctx_ability ctx Manage All"
    and "edited_lyrics (usi_lrcText input) = Inr lyrics"
    and "lookup song_id i (songs s) = Some existing"
    and "writeLegacyGuide nsnap npub now existing actor
        \<lparr>chg_lyrics = lyrics, chg_youtubeId = sf_youtubeId (usi_fields input),
         chg_hasOfficialCheer = Some (sf_hasOfficialCheer (usi_fields input))\<rparr>
        (usi_guideWrite input) s = (Inr next, s1)"
    and "slugCanBeSet (usi_slug input) existing"
    and "\<And>sl. usi_slug input = Some sl \<Longrightarrow> \<not> slug_taken s i sl"
    and "sf_albumId (usi_fields input) \<in> album_id ` set (albums s)" and "j = i"
    and "s' = s1\<lparr>songs := update_where (\<lambda>r. song_id r = i)
        (\<lambda>r. (edit_set now (usi_fields input) lyrics r)\<lparr>song_slug := usi_slug input\<rparr>) (songs s)\<rparr>"
proof -
  from assms obtain actor lyrics existing s1 where *: "ctx_user ctx = Some actor"
    "ctx_ability ctx Manage All" "edited_lyrics (usi_lrcText input) = Inr lyrics"
    "lookup song_id i (songs s) = Some existing"
    "writeLegacyGuide nsnap npub now existing actor
        \<lparr>chg_lyrics = lyrics, chg_youtubeId = sf_youtubeId (usi_fields input),
         chg_hasOfficialCheer = Some (sf_hasOfficialCheer (usi_fields input))\<rparr>
        (usi_guideWrite input) s = (Inr next, s1)"
    and upd: "updateSongWithSlugPolicy s1 i (usi_slug input) (edit_set now (usi_fields input) lyrics) = (Inr (Some j), s')"
    by (cases "edited_lyrics (usi_lrcText input)")
      (auto simp: editSong_def guard_simps lockSongForGuideWrite_def)
  note fr = writeLegacyGuide_frame [OF *(5)]
  from upd fr * have "slugCanBeSet (usi_slug input) existing"
    "\<And>sl. usi_slug input = Some sl \<Longrightarrow> \<not> slug_taken s i sl"
    "sf_albumId (usi_fields input) \<in> album_id ` set (albums s)" "j = i"
    "s' = s1\<lparr>songs := update_where (\<lambda>r. song_id r = i)
        (\<lambda>r. (edit_set now (usi_fields input) lyrics r)\<lparr>song_slug := usi_slug input\<rparr>) (songs s)\<rparr>"
    by (auto simp: slug_taken_def edit_set_def dest!: updateSongWithSlugPolicy_cases)
  with * show ?thesis by (rule that)
qed

lemma writeLegacyGuide_restricts:
  assumes "writeLegacyGuide nsnap npub now song actor changes expected s = (Inr r, s')"
    and "lockLegacyGuide s (song_id song) = Some g"
  shows "song_youtubeId song = Some (chg_youtubeId changes)"
    and "chg_hasOfficialCheer changes = None \<or>
      chg_hasOfficialCheer changes = Some (coalesce (song_hasOfficialCheer song) False)"
  using assms by (auto simp: writeLegacyGuide_def split: if_splits option.splits)

text \<open>
  Editing a song: only the row of that song changes.  A slug that is set never changes again; a new one
  is set only when no other song has it.  The lyrics change only when lyrics were given.  While the song
  has a guide that the editor writes, its video and its official flag stay as they are.\<close>

theorem edit_song_policy:
  assumes "editSong nsnap npub now ctx (i, input) s = (Inr (j, next), s')"
  shows "\<exists>old new. lookup song_id i (songs s) = Some old \<and> lookup song_id i (songs s') = Some new \<and>
    (\<forall>k. k \<noteq> i \<longrightarrow> lookup song_id k (songs s') = lookup song_id k (songs s)) \<and>
    length (songs s') = length (songs s) \<and>
    song_slug new = usi_slug input \<and> (song_slug old \<noteq> None \<longrightarrow> song_slug new = song_slug old) \<and>
    (\<forall>sl. song_slug new = Some sl \<longrightarrow> \<not> slug_taken s i sl) \<and>
    (\<forall>t. usi_lrcText input = Some t \<and> \<not> blank t \<longrightarrow> song_lyrics new = Some (lyrics_json (parsed_lines t))) \<and>
    ((case usi_lrcText input of None \<Rightarrow> True | Some t \<Rightarrow> blank t) \<longrightarrow> song_lyrics new = song_lyrics old) \<and>
    (lockLegacyGuide s i \<noteq> None \<longrightarrow> song_youtubeId new = song_youtubeId old \<and>
      song_hasOfficialCheer new = Some (coalesce (song_hasOfficialCheer old) False))"
  using assms
proof (cases rule: editSong_Inr)
  case (1 actor lyrics existing s1)
  let ?f = "\<lambda>r. (edit_set now (usi_fields input) lyrics r)\<lparr>song_slug := usi_slug input\<rparr>"
  have look: "lookup song_id k (songs s') =
      (if k = i then map_option ?f (lookup song_id k (songs s)) else lookup song_id k (songs s))" for k
    by (simp add: 1(10) lookup_update_key edit_set_def)
  have sid: "song_id existing = i" using lookup_SomeD [OF 1(4)] by simp
  have guided: "lockLegacyGuide s i \<noteq> None \<longrightarrow> song_youtubeId (?f existing) = song_youtubeId existing \<and>
      song_hasOfficialCheer (?f existing) = Some (coalesce (song_hasOfficialCheer existing) False)"
    using writeLegacyGuide_restricts [OF 1(5)] sid by (auto simp: edit_set_def)
  have lyr: "lyrics = (case usi_lrcText input of None \<Rightarrow> None
      | Some t \<Rightarrow> if blank t then None else Some (parsed_lines t))"
    using 1(3) by (auto simp: edited_lyrics_def parseSongLyrics_cases split: option.splits if_splits)
  show ?thesis
  proof (intro exI conjI)
    show "lookup song_id i (songs s) = Some existing" by (rule 1(4))
    show "lookup song_id i (songs s') = Some (?f existing)" by (simp add: look 1(4))
    show "\<forall>k. k \<noteq> i \<longrightarrow> lookup song_id k (songs s') = lookup song_id k (songs s)" by (simp add: look)
    show "length (songs s') = length (songs s)" by (simp add: 1(10))
    show "song_slug (?f existing) = usi_slug input" by simp
    show "song_slug existing \<noteq> None \<longrightarrow> song_slug (?f existing) = song_slug existing"
      using 1(6) by (auto simp: slugCanBeSet_def split: option.splits)
    show "\<forall>sl. song_slug (?f existing) = Some sl \<longrightarrow> \<not> slug_taken s i sl" using 1(7) by simp
    show "\<forall>t. usi_lrcText input = Some t \<and> \<not> blank t \<longrightarrow>
        song_lyrics (?f existing) = Some (lyrics_json (parsed_lines t))"
      by (simp add: edit_set_def lyr)
    show "(case usi_lrcText input of None \<Rightarrow> True | Some t \<Rightarrow> blank t) \<longrightarrow>
        song_lyrics (?f existing) = song_lyrics existing"
      by (simp add: edit_set_def lyr split: option.split)
    show "lockLegacyGuide s i \<noteq> None \<longrightarrow> song_youtubeId (?f existing) = song_youtubeId existing \<and>
        song_hasOfficialCheer (?f existing) = Some (coalesce (song_hasOfficialCheer existing) False)"
      by (rule guided)
  qed
qed

definition demo_fields :: song_fields where
  "demo_fields = \<lparr>sf_albumId = ''al1'', sf_title = ''N'', sf_youtubeId = ''dQw4w9WgXcQ'',
    sf_hasOfficialCheer = False, sf_isTitle = True, sf_isVisible = True, sf_order = 2\<rparr>"

definition demo_edit :: update_song_input where
  "demo_edit = \<lparr>usi_fields = demo_fields, usi_slug = Some ''so1'', usi_lrcText = None,
    usi_guideWrite = None\<rparr>"

lemma demo_edit_runs:
  "\<exists>next s'. editSong ''sn2'' ''p2'' 5 admin_ctx (''so1'', demo_edit) demo_db = (Inr (''so1'', next), s')"
  by (simp add: editSong_def as_admin_admin edited_lyrics_def demo_edit_def demo_fields_def transaction_def
      lockSongForGuideWrite_def writeLegacyGuide_def updateSongWithSlugPolicy_def slugCanBeSet_def
      slug_taken_def edit_set_def)

theorem edit_song_policy_witness:
  "\<exists>new. lookup song_id ''so1'' (songs (snd (editSong ''sn2'' ''p2'' 5 admin_ctx (''so1'', demo_edit) demo_db)))
      = Some new \<and> song_slug new = Some ''so1'' \<and> song_youtubeId new = Some ''dQw4w9WgXcQ''"
proof -
  obtain nv s' where run: "editSong ''sn2'' ''p2'' 5 admin_ctx (''so1'', demo_edit) demo_db = (Inr (''so1'', nv), s')"
    using demo_edit_runs by blast
  from edit_song_policy [OF run] show ?thesis by (auto simp: run)
qed

section \<open>Well-formedness\<close>

lemma guides_wf_frame:
  "guides_wf s \<Longrightarrow> guides s' = guides s \<Longrightarrow> snapshots s' = snapshots s \<Longrightarrow>
    publications s' = publications s \<Longrightarrow> account_ids s \<subseteq> account_ids s' \<Longrightarrow>
    (\<And>g. g \<in> set (guides s) \<Longrightarrow> guide_songId g \<in> song_id ` set (songs s')) \<Longrightarrow> guides_wf s'"
  by (auto simp: guides_wf_defs guide_row_links_def snapshot_row_links_def publication_row_links_def
      snapshot_keys_def publication_keys_def snapshot_numbers_def publication_numbers_def
      split: option.splits)

lemma slugs_uniqueI:
  assumes "\<And>a b sl. a \<in> set t \<Longrightarrow> b \<in> set t \<Longrightarrow> song_slug a = Some sl \<Longrightarrow> song_slug b = Some sl \<Longrightarrow>
    song_id a = song_id b"
  shows "slugs_unique t"
  using assms unfolding slugs_unique_def by (metis option.exhaust)

lemma slugs_uniqueD:
  "slugs_unique t \<Longrightarrow> a \<in> set t \<Longrightarrow> b \<in> set t \<Longrightarrow> song_slug a = Some sl \<Longrightarrow> song_slug b = Some sl \<Longrightarrow>
    song_id a = song_id b"
  unfolding slugs_unique_def by (metis option.distinct(1))

lemma slugs_unique_mono: "slugs_unique t \<Longrightarrow> set u \<subseteq> set t \<Longrightarrow> slugs_unique u"
  unfolding slugs_unique_def by blast

lemma slug_free: "\<not> slug_taken s i sl \<Longrightarrow> r \<in> set (songs s) \<Longrightarrow> song_slug r = Some sl \<Longrightarrow> song_id r = i"
  by (auto simp: slug_taken_def list_ex_iff)

lemma createSong_wf:
  assumes "guides_wf s" and "songs_wf s" and "createSong i now ctx input s = (Inr j, s')"
  shows "guides_wf s' \<and> songs_wf s'"
  using assms(3)
proof (cases rule: createSong_Inr)
  case 1
  let ?r = "new_song i now input (parsed_lines (csi_lrcText input))"
  have r: "song_id ?r = i" "song_albumId ?r = sf_albumId (csi_fields input)" "song_slug ?r = Some (csi_slug input)"
    by (simp_all add: new_song_def Let_def)
  have "guides_wf s'"
    unfolding 1(4) using assms(1)
    by (rule songs_change_wf) (use assms(1) in \<open>auto simp: guides_wf_defs guide_row_links_def\<close>)
  moreover have "slugs_unique (songs s @ [?r])"
  proof (rule slugs_uniqueI)
    fix a b sl
    assume "a \<in> set (songs s @ [?r])" "b \<in> set (songs s @ [?r])" "song_slug a = Some sl" "song_slug b = Some sl"
    moreover have "slugs_unique (songs s)" using assms(2) by (simp add: songs_wf_def)
    ultimately show "song_id a = song_id b"
      using slug_free [OF 1(6)] r by (auto dest: slugs_uniqueD)
  qed
  with assms(2) 1(5,7) r have "songs_wf s'"
    by (simp add: songs_wf_def 1(4))
  ultimately show ?thesis by simp
qed

lemma song_update_songs_wf:
  assumes wf: "songs_wf s" and id: "\<And>r. song_id (f r) = song_id r"
    and album: "\<And>r. r \<in> set (songs s) \<Longrightarrow> song_id r = i \<Longrightarrow> song_albumId (f r) \<in> album_id ` set (albums s)"
    and slug: "\<And>r sl. r \<in> set (songs s) \<Longrightarrow> song_id r = i \<Longrightarrow> song_slug (f r) = Some sl \<Longrightarrow> \<not> slug_taken s i sl"
  shows "songs_wf (s\<lparr>songs := update_where (\<lambda>r. song_id r = i) f (songs s)\<rparr>)"
proof -
  let ?t = "update_where (\<lambda>r. song_id r = i) f (songs s)"
  have *: "(x \<in> set (songs s) \<and> song_id x \<noteq> i) \<or> (\<exists>r \<in> set (songs s). song_id r = i \<and> x = f r)"
    if "x \<in> set ?t" for x
    using that by (auto simp: set_update_where)
  have "slugs_unique ?t"
  proof (rule slugs_uniqueI)
    fix a b sl
    assume ab: "a \<in> set ?t" "b \<in> set ?t" "song_slug a = Some sl" "song_slug b = Some sl"
    have su: "slugs_unique (songs s)" using wf by (simp add: songs_wf_def)
    from * [OF ab(1)] * [OF ab(2)] show "song_id a = song_id b"
    proof (elim disjE bexE conjE)
      assume "a \<in> set (songs s)" "b \<in> set (songs s)"
      with su ab(3,4) show ?thesis by (blast dest: slugs_uniqueD)
    next
      fix r assume "a \<in> set (songs s)" "r \<in> set (songs s)" "song_id r = i" "b = f r"
      with ab(3,4) slug slug_free id show ?thesis by metis
    next
      fix r assume "b \<in> set (songs s)" "r \<in> set (songs s)" "song_id r = i" "a = f r"
      with ab(3,4) slug slug_free id show ?thesis by metis
    next
      fix r q assume "song_id r = i" "a = f r" "song_id q = i" "b = f q"
      with id show ?thesis by simp
    qed
  qed
  moreover have "map song_id ?t = map song_id (songs s)"
    using id by (rule map_key_update_where)
  moreover have "song_albumId x \<in> album_id ` set (albums s)" if "x \<in> set ?t" for x
    using * [OF that] album wf by (auto simp: songs_wf_def)
  ultimately show ?thesis using wf by (simp add: songs_wf_def)
qed

lemma songs_wf_frame: "songs_wf s \<Longrightarrow> songs s' = songs s \<Longrightarrow> albums s' = albums s \<Longrightarrow> songs_wf s'"
  by (simp add: songs_wf_def)

lemma slug_of_own: "songs_wf s \<Longrightarrow> r \<in> set (songs s) \<Longrightarrow> song_slug r = Some sl \<Longrightarrow> \<not> slug_taken s (song_id r) sl"
  by (auto simp: songs_wf_def slug_taken_def list_ex_iff dest: slugs_uniqueD)

lemma saveSongLyrics_wf:
  assumes wf: "guides_wf s" and so: "songs_wf s" and actor: "\<And>u. ctx_user ctx = Some u \<Longrightarrow> u \<in> account_ids s"
    and fresh: "nsnap \<notin> snap_id ` set (snapshots s)" "npub \<notin> pub_id ` set (publications s)"
    and run: "saveSongLyrics nsnap npub now ctx (i, input) s = (Inr (j, next), s')"
  shows "guides_wf s' \<and> songs_wf s'"
  using run
proof (cases rule: saveSongLyrics_Inr)
  case (1 actor existing s1)
  note fr = writeLegacyGuide_frame [OF 1(5)]
  have "guides_wf s1" using writeLegacyGuide_wf [OF wf actor [OF 1(1)] fresh 1(5)] .
  then have "guides_wf s'" unfolding 1(6) fr(1) [symmetric] by (rule song_update_wf) simp
  moreover have "songs_wf s1" using so fr by (rule_tac songs_wf_frame)
  then have "songs_wf s'"
    using slug_of_own [OF \<open>songs_wf s1\<close>] unfolding 1(6) fr(1) [symmetric]
    by (intro song_update_songs_wf) (auto simp: songs_wf_def)
  ultimately show ?thesis by simp
qed

lemma editSong_wf:
  assumes wf: "guides_wf s" and so: "songs_wf s" and actor: "\<And>u. ctx_user ctx = Some u \<Longrightarrow> u \<in> account_ids s"
    and fresh: "nsnap \<notin> snap_id ` set (snapshots s)" "npub \<notin> pub_id ` set (publications s)"
    and run: "editSong nsnap npub now ctx (i, input) s = (Inr (j, next), s')"
  shows "guides_wf s' \<and> songs_wf s'"
  using run
proof (cases rule: editSong_Inr)
  case (1 actor lyrics existing s1)
  note fr = writeLegacyGuide_frame [OF 1(5)]
  have "guides_wf s1" using writeLegacyGuide_wf [OF wf actor [OF 1(1)] fresh 1(5)] .
  then have "guides_wf s'"
    unfolding 1(10) fr(1) [symmetric] by (rule song_update_wf) (simp add: edit_set_def)
  moreover have "songs_wf s1" using so fr by (rule_tac songs_wf_frame)
  then have "songs_wf s'"
    unfolding 1(10) fr(1) [symmetric]
    by (rule song_update_songs_wf) (use 1(7,8) fr in \<open>auto simp: edit_set_def slug_taken_def\<close>)
  ultimately show ?thesis by simp
qed

section \<open>Deleting a song\<close>

lemma deleteSong_cases:
  assumes "deleteSong ctx i s = (r, s')"
  obtains (kept) e where "r = Inl e" and "s' = s"
  | (deleted) "r = Inr ()" and "lookup song_id i (songs s) \<noteq> None" and "s' = songs_removed (\<lambda>j. j = i) s"
      and "\<not> list_ex (\<lambda>g. guide_songId g = i) (guides s)" and "ctx_ability ctx Manage All"
proof (cases r)
  case (Inl e)
  with assms delete_song.rollback [of ctx i s e s'] show ?thesis by (intro kept) auto
next
  case (Inr u)
  with assms show ?thesis
    by (auto simp: deleteSong_def guard_simps dest!: removeSong_cases intro!: deleted)
qed

lemma songs_removed_simps [simp]:
  "songs (songs_removed p s) = delete_where (\<lambda>r. p (song_id r)) (songs s)"
  "waveforms (songs_removed p s) = delete_where (\<lambda>w. p (wf_songId w)) (waveforms s)"
  "jobs (songs_removed p s) = delete_where (\<lambda>j. p (job_songId j)) (jobs s)"
  "guides (songs_removed p s) = guides s" "snapshots (songs_removed p s) = snapshots s"
  "publications (songs_removed p s) = publications s" "albums (songs_removed p s) = albums s"
  "accounts (songs_removed p s) = accounts s"
  by (simp_all add: songs_removed_def Let_def)

lemma songs_removed_wf:
  assumes "guides_wf s" and "songs_wf s" and "\<And>g. g \<in> set (guides s) \<Longrightarrow> \<not> p (guide_songId g)"
  shows "guides_wf (songs_removed p s) \<and> songs_wf (songs_removed p s)"
proof -
  have "guide_songId g \<in> song_id ` set (songs (songs_removed p s))" if "g \<in> set (guides s)" for g
  proof -
    from assms(1) that obtain r where "r \<in> set (songs s)" "song_id r = guide_songId g"
      by (auto simp: guides_wf_defs guide_row_links_def)
    with assms(3) [OF that] show ?thesis by (force simp: set_delete_where)
  qed
  then have "guides_wf (songs_removed p s)"
    by (intro guides_wf_frame [OF assms(1)]) (simp_all add: account_ids_def)
  moreover have "songs_wf (songs_removed p s)"
    using assms(2) by (auto simp: songs_wf_def set_delete_where distinct_delete_where intro: slugs_unique_mono)
  ultimately show ?thesis by simp
qed

text \<open>
  Deleting a song never touches cheer guides: a song that has one, in whatever state, is kept and the
  request fails with \<open>CONTENT_HAS_CHEER_GUIDE\<close>; otherwise exactly that song disappears, with its
  waveforms and waveform jobs, and the tables stay well-formed.\<close>

theorem delete_song_keeps_guides:
  assumes "guides_wf s" and "songs_wf s" and "deleteSong ctx i s = (r, s')"
  shows "guides_wf s' \<and> songs_wf s' \<and> guides s' = guides s \<and> snapshots s' = snapshots s \<and>
    publications s' = publications s \<and>
    (\<forall>k. k \<noteq> i \<longrightarrow> lookup song_id k (songs s') = lookup song_id k (songs s)) \<and>
    (r = Inr () \<longrightarrow> lookup song_id i (songs s') = None \<and>
      (\<forall>w \<in> set (waveforms s'). wf_songId w \<noteq> i) \<and> (\<forall>j \<in> set (jobs s'). job_songId j \<noteq> i)) \<and>
    (ctx_user ctx \<noteq> None \<and> ctx_ability ctx Manage All \<and> (\<exists>g \<in> set (guides s). guide_songId g = i) \<longrightarrow>
      r = Inl (AppError CONTENT_HAS_CHEER_GUIDE) \<and> s' = s)"
  using assms(3)
proof (cases rule: deleteSong_cases)
  case (kept e)
  have "r = Inl (AppError CONTENT_HAS_CHEER_GUIDE)"
    if ctx: "ctx_user ctx = Some u" "ctx_ability ctx Manage All" and g: "g \<in> set (guides s)" "guide_songId g = i" for u g
  proof -
    from assms(1) g have "lookup song_id i (songs s) \<noteq> None"
      by (auto simp: guides_wf_defs guide_row_links_def lookup_None_iff)
    with g have "removeSong s i = (Inl CheerGuideReferenceError, s)"
      by (auto simp: removeSong_def list_ex_iff)
    with ctx assms(3) show ?thesis by (simp add: deleteSong_def as_admin_admin)
  qed
  with kept assms show ?thesis by auto
next
  case deleted
  from deleted(4) have "g \<in> set (guides s) \<Longrightarrow> guide_songId g \<noteq> i" for g by (auto simp: list_ex_iff)
  with songs_removed_wf [OF assms(1,2), of "\<lambda>j. j = i"] deleted show ?thesis
    by (auto simp: lookup_delete_where set_delete_where lookup_None_iff)
qed

theorem delete_song_keeps_guides_witness:
  "fst (deleteSong admin_ctx ''so1'' demo_db) = Inl (AppError CONTENT_HAS_CHEER_GUIDE) \<and>
    lookup song_id ''so2'' (songs (snd (deleteSong admin_ctx ''so1'' demo_db))) = Some (demo_song ''so2'')"
  using delete_song_keeps_guides [OF demo_wf demo_songs_wf, of admin_ctx "''so1''"
      "fst (deleteSong admin_ctx ''so1'' demo_db)" "snd (deleteSong admin_ctx ''so1'' demo_db)"]
  by simp

end
