(* ===== verification/Albums.thy ===== *)
theory Albums imports Songs begin

text \<open>
  Albums (\<open>album-repository.ts\<close>, \<open>album-service.ts\<close>), the administrator's song list
  (\<open>listAdminSongs\<close>) and the lookup of songs by video for operators (\<open>operator-song-service.ts\<close>).
\<close>

section \<open>Statements\<close>

record save_album_input =
  sai_name :: string
  sai_slug :: string
  sai_imgUrl :: string
  sai_color :: string
  sai_releaseDate :: "instant option"
  sai_isVisible :: bool

definition album_slug_taken :: "db \<Rightarrow> eid \<Rightarrow> string \<Rightarrow> bool" where
  "album_slug_taken s i slug \<longleftrightarrow> list_ex (\<lambda>a. album_id a \<noteq> i \<and> album_slug a = slug) (albums s)"

definition new_album :: "eid \<Rightarrow> instant \<Rightarrow> save_album_input \<Rightarrow> album_row" where
  "new_album i now input =
    \<lparr>album_id = i, album_name = sai_name input, album_slug = sai_slug input,
     album_imgUrl = sai_imgUrl input, album_color = sai_color input,
     album_releaseDate = sai_releaseDate input, album_isVisible = sai_isVisible input,
     album_createdAt = now\<rparr>"

definition insertAlbum :: "db \<Rightarrow> eid \<Rightarrow> instant \<Rightarrow> save_album_input \<Rightarrow> (album_row option, db) use_case" where
  "insertAlbum s i now input =
    (if lookup album_id i (albums s) \<noteq> None then (Inl (DbError ''album_pkey''), s)
     else if album_slug_taken s i (sai_slug input) then (Inl AlbumSlugConflictError, s)
     else (Inr (Some (new_album i now input)), s\<lparr>albums := albums s @ [new_album i now input]\<rparr>))"

definition album_set :: "save_album_input \<Rightarrow> album_row \<Rightarrow> album_row" where
  "album_set input a =
    a\<lparr>album_name := sai_name input, album_slug := sai_slug input, album_imgUrl := sai_imgUrl input,
      album_color := sai_color input, album_releaseDate := sai_releaseDate input,
      album_isVisible := sai_isVisible input\<rparr>"

definition updateAlbum :: "db \<Rightarrow> eid \<Rightarrow> save_album_input \<Rightarrow> (album_row option, db) use_case" where
  "updateAlbum s i input =
    (case lookup album_id i (albums s) of
       None \<Rightarrow> (Inr None, s)
     | Some a \<Rightarrow>
         (if album_slug_taken s i (sai_slug input) then (Inl AlbumSlugConflictError, s)
          else (Inr (Some (album_set input a)),
                s\<lparr>albums := update_where (\<lambda>a. album_id a = i) (album_set input) (albums s)\<rparr>)))"

text \<open>The songs of a deleted album cascade, unless one of them has a guide.\<close>

definition song_in_album :: "db \<Rightarrow> eid \<Rightarrow> eid \<Rightarrow> bool" where
  "song_in_album s i songId \<longleftrightarrow> list_ex (\<lambda>r. song_id r = songId \<and> song_albumId r = i) (songs s)"

definition removeAlbum :: "db \<Rightarrow> eid \<Rightarrow> (eid option, db) use_case" where
  "removeAlbum s i =
    (if lookup album_id i (albums s) = None then (Inr None, s)
     else if list_ex (\<lambda>g. song_in_album s i (guide_songId g)) (guides s)
     then (Inl CheerGuideReferenceError, s)
     else (Inr (Some i),
           (songs_removed (song_in_album s i) s)
             \<lparr>albums := delete_where (\<lambda>a. album_id a = i) (albums s)\<rparr>))"

section \<open>Use cases\<close>

fun album_slug_error :: "failure \<Rightarrow> failure" where
  "album_slug_error AlbumSlugConflictError = AppError ALBUM_SLUG_ALREADY_EXISTS"
| "album_slug_error e = e"

definition createAlbum ::
  "eid \<Rightarrow> instant \<Rightarrow> request_context \<Rightarrow> save_album_input \<Rightarrow> db \<Rightarrow> (album_row, db) use_case" where
  "createAlbum i now ctx input = as_admin ctx (\<lambda>_ s.
    on_error album_slug_error
      (and_then (insertAlbum s i now input) (\<lambda>a s1.
       or_throw a (Error ''Album was not created'') s1 (\<lambda>r. (Inr r, s1)))))"

definition editAlbum ::
  "request_context \<Rightarrow> eid \<times> save_album_input \<Rightarrow> db \<Rightarrow> (album_row, db) use_case" where
  "editAlbum ctx arg = as_admin ctx (\<lambda>_ s. (case arg of (i, input) \<Rightarrow>
    on_error album_slug_error
      (and_then (updateAlbum s i input) (\<lambda>a s1.
       or_throw a (AppError ALBUM_NOT_FOUND) s1 (\<lambda>r. (Inr r, s1))))))"

definition deleteAlbum :: "request_context \<Rightarrow> eid \<Rightarrow> db \<Rightarrow> (unit, db) use_case" where
  "deleteAlbum ctx i = as_admin ctx (\<lambda>_ s.
    on_error guide_reference_error
      (and_then (removeAlbum s i) (\<lambda>a s1.
       or_throw a (AppError ALBUM_NOT_FOUND) s1 (\<lambda>_. (Inr (), s1)))))"

section \<open>Reading\<close>

text \<open>\<open>order by c asc\<close> and \<open>desc\<close> with PostgreSQL's places for NULL.\<close>

definition order_asc :: "('r \<Rightarrow> int option) \<Rightarrow> 'r list \<Rightarrow> 'r list" where
  "order_asc c t = sort_key (\<lambda>r. the (c r)) (filter (\<lambda>r. c r \<noteq> None) t) @ filter (\<lambda>r. c r = None) t"

definition order_desc :: "('r \<Rightarrow> int option) \<Rightarrow> 'r list \<Rightarrow> 'r list" where
  "order_desc c t = filter (\<lambda>r. c r = None) t @ sort_key (\<lambda>r. - the (c r)) (filter (\<lambda>r. c r \<noteq> None) t)"

record album_detail =
  ad_album :: album_row
  ad_songs :: "renderable_song list"

definition mapAlbumWithRenderableSongs :: "db \<Rightarrow> album_row \<Rightarrow> album_detail" where
  "mapAlbumWithRenderableSongs s a =
    \<lparr>ad_album = a,
     ad_songs = List.map_filter (mapRenderableSong s)
       (order_asc song_order (filter (\<lambda>r. song_albumId r = album_id a \<and> song_isVisible r) (songs s)))\<rparr>"

definition listVisibleAlbumsWithSongs :: "db \<Rightarrow> album_detail list" where
  "listVisibleAlbumsWithSongs s =
    map (mapAlbumWithRenderableSongs s) (order_desc album_releaseDate (filter album_isVisible (albums s)))"

definition getAlbumDetailBySlug :: "string \<Rightarrow> db \<Rightarrow> album_detail option" where
  "getAlbumDetailBySlug slug s =
    map_option (mapAlbumWithRenderableSongs s)
      (find (\<lambda>a. album_slug a = slug \<and> album_isVisible a) (albums s))"

definition requireAlbumDetailBySlug :: "string \<Rightarrow> db \<Rightarrow> failure + album_detail" where
  "requireAlbumDetailBySlug slug s =
    (case getAlbumDetailBySlug slug s of None \<Rightarrow> Inl (AppError ALBUM_NOT_FOUND) | Some d \<Rightarrow> Inr d)"

definition listAdminAlbums :: "request_context \<Rightarrow> db \<Rightarrow> (album_row list, db) use_case" where
  "listAdminAlbums ctx = as_admin ctx (\<lambda>_ s. (Inr (order_asc album_releaseDate (albums s)), s))"

record admin_song_item =
  asi_row :: song_row
  asi_albumName :: string
  asi_guideWrite :: "guide_write_version option"

text \<open>Joined with its album and the guide the song editor writes; ordered by four columns.\<close>

definition joined_songs :: "db \<Rightarrow> (album_row \<times> song_row) list" where
  "joined_songs s = concat (map (\<lambda>r.
    (case lookup album_id (song_albumId r) (albums s) of None \<Rightarrow> [] | Some a \<Rightarrow> [(a, r)])) (songs s))"

definition order_text :: "('r \<Rightarrow> string option) \<Rightarrow> 'r list \<Rightarrow> 'r list" where
  "order_text c t = sort_key (\<lambda>r. the (c r)) (filter (\<lambda>r. c r \<noteq> None) t) @ filter (\<lambda>r. c r = None) t"

definition findSongsWithAlbum :: "db \<Rightarrow> (album_row \<times> song_row) list" where
  "findSongsWithAlbum s =
    order_asc (\<lambda>(a, r). album_releaseDate a) (sort_key (\<lambda>(a, r). album_slug a)
      (order_asc (\<lambda>(a, r). song_order r) (order_text (\<lambda>(a, r). song_slug r) (joined_songs s))))"

definition listAdminSongs :: "request_context \<Rightarrow> db \<Rightarrow> (admin_song_item list, db) use_case" where
  "listAdminSongs ctx = as_admin ctx (\<lambda>_ s.
    (Inr (map (\<lambda>(a, r). \<lparr>asi_row = r, asi_albumName = album_name a,
                          asi_guideWrite = guideVersion (lockLegacyGuide s (song_id r))\<rparr>)
       (findSongsWithAlbum s)), s))"

datatype operator_song_match =
    Missing string
  | Ambiguous string nat
  | Matched string eid string "string option"

definition findSongsByVideoIds :: "db \<Rightarrow> string list \<Rightarrow> song_row list" where
  "findSongsByVideoIds s videoIds =
    filter (\<lambda>r. case song_youtubeId r of None \<Rightarrow> False | Some v \<Rightarrow> v \<in> set videoIds) (songs s)"

text \<open>The groups of the code's Map; rows whose video is null or empty are skipped.\<close>

definition video_group :: "song_row list \<Rightarrow> string \<Rightarrow> song_row list" where
  "video_group rows v = filter (\<lambda>r. truthy (song_youtubeId r) \<and> song_youtubeId r = Some v) rows"

definition song_match :: "song_row list \<Rightarrow> string \<Rightarrow> operator_song_match" where
  "song_match rows v =
    (case video_group rows v of
       [] \<Rightarrow> Missing v
     | [r] \<Rightarrow> Matched v (song_id r) (coalesce (song_title r) [])
         (editorHref (song_slug r))
     | rs \<Rightarrow> Ambiguous v (length rs))"

definition resolveOperatorSongs ::
  "request_context \<Rightarrow> string list \<Rightarrow> db \<Rightarrow> (operator_song_match list, db) use_case" where
  "resolveOperatorSongs ctx videoIds = as_admin ctx (\<lambda>_ s.
    (Inr (map (song_match (findSongsByVideoIds s videoIds)) videoIds), s))"

section \<open>Contracts\<close>

lemma insertAlbum_cases:
  "insertAlbum s i now input = (res, s') \<Longrightarrow>
    s' = s \<and> (\<exists>e. res = Inl e) \<or>
    res = Inr (Some (new_album i now input)) \<and> s' = s\<lparr>albums := albums s @ [new_album i now input]\<rparr> \<and>
      i \<notin> album_id ` set (albums s) \<and> \<not> album_slug_taken s i (sai_slug input)"
  by (auto simp: insertAlbum_def lookup_None_iff split: if_splits)

lemma updateAlbum_cases:
  "updateAlbum s i input = (res, s') \<Longrightarrow>
    s' = s \<and> (res = Inr None \<or> (\<exists>e. res = Inl e)) \<or>
    (\<exists>a. lookup album_id i (albums s) = Some a \<and> res = Inr (Some (album_set input a)) \<and>
      \<not> album_slug_taken s i (sai_slug input) \<and>
      s' = s\<lparr>albums := update_where (\<lambda>a. album_id a = i) (album_set input) (albums s)\<rparr>)"
  by (auto simp: updateAlbum_def split: if_splits option.splits)

lemma removeAlbum_cases:
  "removeAlbum s i = (res, s') \<Longrightarrow>
    s' = s \<and> (res = Inr None \<or> res = Inl CheerGuideReferenceError) \<or>
    res = Inr (Some i) \<and> lookup album_id i (albums s) \<noteq> None \<and>
      \<not> list_ex (\<lambda>g. song_in_album s i (guide_songId g)) (guides s) \<and>
      s' = (songs_removed (song_in_album s i) s)\<lparr>albums := delete_where (\<lambda>a. album_id a = i) (albums s)\<rparr>"
  by (auto simp: removeAlbum_def split: if_splits)

interpretation create_album: atomic_use_case "createAlbum i now" for i now
  unfolding createAlbum_def [abs_def]
  by (rule atomic_as_admin)
    (auto simp: and_then_def split: sum.splits prod.splits dest!: on_error_Inl insertAlbum_cases)

interpretation edit_album: atomic_use_case editAlbum
  unfolding editAlbum_def [abs_def]
  by (rule atomic_as_admin)
    (auto simp: and_then_def split: sum.splits prod.splits dest!: on_error_Inl updateAlbum_cases)

interpretation delete_album: atomic_use_case deleteAlbum
  unfolding deleteAlbum_def [abs_def]
  by (rule atomic_as_admin)
    (auto simp: and_then_def split: sum.splits prod.splits dest!: on_error_Inl removeAlbum_cases)

interpretation operator_songs: atomic_use_case resolveOperatorSongs
  unfolding resolveOperatorSongs_def [abs_def] by (rule atomic_as_admin) simp

section \<open>Well-formedness\<close>

lemma guides_wf_albums: "guides_wf s \<Longrightarrow> guides_wf (s\<lparr>albums := as\<rparr>)"
  by (rule guides_wf_frame [of s]) (simp_all add: account_ids_def guides_wf_defs guide_row_links_def)

lemma albums_change_wf:
  assumes "guides_wf s" and "songs_wf s" and "distinct (map album_id as)" and "distinct (map album_slug as)"
    and "album_id ` set (albums s) \<subseteq> album_id ` set as"
  shows "guides_wf (s\<lparr>albums := as\<rparr>) \<and> songs_wf (s\<lparr>albums := as\<rparr>)"
proof -
  have "guides_wf (s\<lparr>albums := as\<rparr>)" using assms(1) by (rule guides_wf_albums)
  with assms show ?thesis by (auto simp: songs_wf_def)
qed

lemma album_slug_free:
  "\<not> album_slug_taken s i sl \<Longrightarrow> a \<in> set (albums s) \<Longrightarrow> album_slug a = sl \<Longrightarrow> album_id a = i"
  by (auto simp: album_slug_taken_def list_ex_iff)

lemma createAlbum_wf:
  assumes "guides_wf s" and "songs_wf s" and "createAlbum i now ctx input s = (Inr r, s')"
  shows "guides_wf s' \<and> songs_wf s'"
proof -
  from assms(3) have new: "s' = s\<lparr>albums := albums s @ [new_album i now input]\<rparr>"
    "i \<notin> album_id ` set (albums s)" "\<not> album_slug_taken s i (sai_slug input)"
    by (auto simp: createAlbum_def guard_simps dest!: insertAlbum_cases)
  then have "sai_slug input \<notin> album_slug ` set (albums s)" by (auto dest: album_slug_free)
  with new(2) assms(2) show ?thesis
    unfolding new(1) by (intro albums_change_wf assms) (auto simp: songs_wf_def new_album_def)
qed

lemma distinct_map_update_one:
  assumes "distinct (map key t)" and "distinct (map val t)"
    and "\<And>r. r \<in> set t \<Longrightarrow> key r \<noteq> i \<Longrightarrow> val r \<noteq> v" and "\<And>r. val (f r) = v"
  shows "distinct (map val (update_where (\<lambda>r. key r = i) f t))"
  using assms(1-3)
proof (induction t)
  case Nil
  then show ?case by simp
next
  case (Cons a t)
  have "update_where (\<lambda>r. key r = i) f t = t" if "key a = i"
    using that Cons.prems(1) by (intro update_where_none) (auto simp: image_iff)
  moreover have "v \<notin> val ` set t" if "key a = i"
  proof
    assume "v \<in> val ` set t"
    then obtain r where r: "r \<in> set t" "val r = v" by auto
    with that Cons.prems(1) have "key r \<noteq> i" by (force simp: image_iff)
    with r Cons.prems(3) [of r] show False by simp
  qed
  moreover have "val a \<notin> val ` set (update_where (\<lambda>r. key r = i) f t)" if "key a \<noteq> i"
    using that Cons.prems assms(4) by (auto simp: set_update_where)
  ultimately show ?case using Cons assms(4) by (cases "key a = i") (auto simp: image_iff)
qed

lemma editAlbum_wf:
  assumes "guides_wf s" and "songs_wf s" and "editAlbum ctx (i, input) s = (Inr r, s')"
  shows "guides_wf s' \<and> songs_wf s'"
proof -
  from assms(3) have new: "s' = s\<lparr>albums := update_where (\<lambda>a. album_id a = i) (album_set input) (albums s)\<rparr>"
    "\<not> album_slug_taken s i (sai_slug input)"
    by (auto simp: editAlbum_def guard_simps dest!: updateAlbum_cases)
  have d: "distinct (map album_id (albums s))" "distinct (map album_slug (albums s))"
    using assms(2) by (simp_all add: songs_wf_def)
  have "distinct (map album_slug (update_where (\<lambda>a. album_id a = i) (album_set input) (albums s)))"
    using new(2) by (intro distinct_map_update_one [OF d, where v = "sai_slug input"])
      (auto simp: album_set_def dest: album_slug_free)
  then show ?thesis
    unfolding new(1) using d by (intro albums_change_wf assms)
      (simp_all add: map_key_update_where album_set_def)
qed

section \<open>Deleting an album\<close>

lemma removed_album_wf:
  assumes "guides_wf s" and "songs_wf s"
    and "\<not> list_ex (\<lambda>g. song_in_album s i (guide_songId g)) (guides s)"
  defines "s' \<equiv> (songs_removed (song_in_album s i) s)\<lparr>albums := delete_where (\<lambda>a. album_id a = i) (albums s)\<rparr>"
  shows "guides_wf s' \<and> songs_wf s'"
proof -
  let ?t = "songs_removed (song_in_album s i) s"
  from assms(3) have "guides_wf ?t \<and> songs_wf ?t"
    by (intro songs_removed_wf assms) (auto simp: list_ex_iff)
  moreover from this have "guides_wf s'" unfolding s'_def by (blast intro: guides_wf_albums)
  moreover have "song_albumId r \<noteq> i" if "r \<in> set (songs s')" for r
    using that by (auto simp: s'_def set_delete_where song_in_album_def list_ex_iff)
  ultimately show ?thesis
    unfolding s'_def
    by (auto simp: songs_wf_def set_delete_where distinct_delete_where)
qed

text \<open>
  Deleting an album never touches cheer guides: if any of its songs has one the request fails with
  \<open>CONTENT_HAS_CHEER_GUIDE\<close> and nothing changes; otherwise exactly the album and its own songs
  disappear, the songs and albums that remain are the ones from before, and the tables stay
  well-formed.\<close>

theorem delete_album_keeps_guides:
  assumes "guides_wf s" and "songs_wf s" and "deleteAlbum ctx i s = (r, s')"
  shows "guides_wf s' \<and> songs_wf s' \<and> guides s' = guides s \<and> snapshots s' = snapshots s \<and>
    publications s' = publications s \<and>
    (r = Inr () \<longrightarrow> set (songs s') = {x \<in> set (songs s). song_albumId x \<noteq> i} \<and>
      set (albums s') = {a \<in> set (albums s). album_id a \<noteq> i}) \<and>
    (r \<noteq> Inr () \<longrightarrow> s' = s) \<and>
    ((\<exists>g \<in> set (guides s). \<exists>x \<in> set (songs s). song_id x = guide_songId g \<and> song_albumId x = i) \<longrightarrow> r \<noteq> Inr ())"
proof (cases r)
  case (Inl e)
  with assms delete_album.rollback [of ctx i s e s'] show ?thesis by auto
next
  case (Inr u)
  with assms(3) have del: "\<not> list_ex (\<lambda>g. song_in_album s i (guide_songId g)) (guides s)"
    "s' = (songs_removed (song_in_album s i) s)\<lparr>albums := delete_where (\<lambda>a. album_id a = i) (albums s)\<rparr>"
    by (auto simp: deleteAlbum_def guard_simps dest!: removeAlbum_cases)
  have "song_in_album s i (song_id x) \<longleftrightarrow> song_albumId x = i" if "x \<in> set (songs s)" for x
  proof -
    have "inj_on song_id (set (songs s))" using assms(2) by (simp add: songs_wf_def distinct_map)
    with that show ?thesis by (auto simp: song_in_album_def list_ex_iff dest: inj_onD)
  qed
  then have "set (songs s') = {x \<in> set (songs s). song_albumId x \<noteq> i}"
    by (auto simp: del(2) set_delete_where)
  moreover have "\<not> (\<exists>g \<in> set (guides s). \<exists>x \<in> set (songs s). song_id x = guide_songId g \<and> song_albumId x = i)"
    using del(1) by (auto simp: song_in_album_def list_ex_iff)
  ultimately show ?thesis
    using removed_album_wf [OF assms(1,2) del(1)] Inr by (auto simp: del(2) set_delete_where)
qed

theorem delete_album_keeps_guides_witness:
  "snd (deleteAlbum admin_ctx ''al1'' demo_db) = demo_db"
  using delete_album_keeps_guides [OF demo_wf demo_songs_wf, of admin_ctx "''al1''"
      "fst (deleteAlbum admin_ctx ''al1'' demo_db)" "snd (deleteAlbum admin_ctx ''al1'' demo_db)"]
  by simp

text \<open>
  An operator's lookup answers every requested video, in the order of the request, and never guesses:
  it is matched exactly when one song has that (non-empty) video, with that song's identifier, link and
  title; it is ambiguous, with the number of songs, when there are several; otherwise it is missing.
  Nothing is changed.\<close>

theorem operator_lookup_exact:
  assumes "resolveOperatorSongs ctx videoIds s = (Inr items, s')"
  shows "s' = s \<and> length items = length videoIds \<and>
    (\<forall>k < length videoIds. let v = videoIds ! k;
        rows = filter (\<lambda>r. song_youtubeId r = Some v \<and> v \<noteq> []) (songs s) in
      (items ! k = Missing v \<longleftrightarrow> rows = []) \<and>
      (\<forall>n. items ! k = Ambiguous v n \<longleftrightarrow> n = length rows \<and> 1 < length rows) \<and>
      ((\<exists>i t h. items ! k = Matched v i t h) \<longleftrightarrow> length rows = 1) \<and>
      (\<forall>i t h. items ! k = Matched v i t h \<longrightarrow>
        (\<exists>r. rows = [r] \<and> song_id r = i \<and> t = coalesce (song_title r) [] \<and> h = editorHref (song_slug r))))"
proof -
  from assms have items: "items = map (song_match (findSongsByVideoIds s videoIds)) videoIds" "s' = s"
    by (auto simp: resolveOperatorSongs_def guard_simps)
  have grp: "video_group (findSongsByVideoIds s videoIds) v =
      filter (\<lambda>r. song_youtubeId r = Some v \<and> v \<noteq> []) (songs s)" if "v \<in> set videoIds" for v
    using that by (auto simp: video_group_def findSongsByVideoIds_def truthy_def
        intro!: filter_cong split: option.splits)
  show ?thesis
    by (auto simp: items Let_def song_match_def grp split: list.splits)
qed

theorem operator_lookup_exact_witness:
  "\<exists>items. fst (resolveOperatorSongs admin_ctx [''dQw4w9WgXcQ'', ''x''] demo_db) = Inr items \<and>
    items ! 0 = Ambiguous ''dQw4w9WgXcQ'' 2 \<and> items ! 1 = Missing ''x''"
proof -
  obtain items where run: "resolveOperatorSongs admin_ctx [''dQw4w9WgXcQ'', ''x''] demo_db = (Inr items, demo_db)"
    by (auto simp: resolveOperatorSongs_def as_admin_admin)
  have "items ! 0 = Ambiguous ''dQw4w9WgXcQ'' 2" "items ! 1 = Missing ''x''"
    using operator_lookup_exact [OF run] by (simp_all add: Let_def All_less_Suc2 numeral_2_eq_2)
  with run show ?thesis by simp
qed

end
