(* ===== verification/GuideImport.thy ===== *)
theory GuideImport imports Songs "HOL-Library.Multiset" begin

text \<open>
  The import of legacy lyrics as published guides (\<open>cheer-guide-import-service.ts\<close>,
  \<open>cheer-guide-import-repository.ts\<close>): the plan, the reviewed manifest and the idempotent import of one
  entry.  SHA-256 over the JSON text is the argument \<open>digest\<close>, a function of the canonical value; new
  identifiers of a plan are an argument.
\<close>

section \<open>Canonical JSON and the source fingerprint\<close>

fun canonical :: "json \<Rightarrow> json" where
  "canonical (JArr js) = JArr (map canonical js)"
| "canonical (JObj kvs) = JObj (map (\<lambda>(k, v). (k, canonical v)) (sort_key fst kvs))"
| "canonical j = j"

type_synonym digest = "json \<Rightarrow> string"

fun json_of_string :: "string option \<Rightarrow> json" where
  "json_of_string None = JNull"
| "json_of_string (Some t) = JStr t"

fun json_of_bool :: "bool option \<Rightarrow> json" where
  "json_of_bool None = JNull"
| "json_of_bool (Some b) = JBool b"

definition legacyGuideSourceFingerprint ::
  "digest \<Rightarrow> json option \<Rightarrow> string option \<Rightarrow> bool option \<Rightarrow> string" where
  "legacyGuideSourceFingerprint digest lyrics youtubeId official =
    digest (canonical (JObj
      [(''lyrics'', coalesce lyrics JNull), (''youtubeId'', json_of_string youtubeId),
       (''hasOfficialCheer'', json_of_bool official)]))"

definition hasContent :: "json option \<Rightarrow> bool" where
  "hasContent value =
    (case lyricsDataSchema (coalesce value JNull) of None \<Rightarrow> False | Some lyrics \<Rightarrow> has_text lyrics)"

section \<open>The manifest\<close>

record import_entry =
  ie_songId :: eid
  ie_guideId :: eid
  ie_snapshotId :: eid
  ie_publicationId :: eid
  ie_sourceFingerprint :: string
  ie_mode :: guide_mode
  ie_sourceType :: source_type
  ie_sourceUrl :: "string option"
  ie_guideVideoUrl :: "string option"
  ie_description :: "string option"
  ie_referenceYoutubeId :: string

text \<open>
  What \<open>legacyGuideImportEntrySchema\<close> has checked of an entry, the parts the import relies on; the URL
  parser is zod's, an accepted URL is not blank.
\<close>

definition import_entry_ok :: "import_entry \<Rightarrow> bool" where
  "import_entry_ok e \<longleftrightarrow>
    \<not> blank (ie_referenceYoutubeId e) \<and> source_ok (ie_sourceType e) (ie_sourceUrl e)"

definition entry_ids :: "import_entry \<Rightarrow> eid list" where
  "entry_ids e = [ie_songId e, ie_guideId e, ie_snapshotId e, ie_publicationId e]"

text \<open>The Set that \<open>superRefine\<close> fills; an identifier seen before adds an issue.\<close>

definition note_id :: "eid set \<times> nat \<Rightarrow> eid \<Rightarrow> eid set \<times> nat" where
  "note_id acc i = (insert i (fst acc), if i \<in> fst acc then snd acc + 1 else snd acc)"

definition manifest_issues :: "import_entry list \<Rightarrow> nat" where
  "manifest_issues entries = snd (foldl note_id ({}, 0) (concat (map entry_ids entries)))"

definition legacyGuideImportManifestSchema :: "import_entry list \<Rightarrow> bool" where
  "legacyGuideImportManifestSchema entries \<longleftrightarrow>
    entries \<noteq> [] \<and> list_all import_entry_ok entries \<and> manifest_issues entries = 0"

section \<open>Planning\<close>

record planned_entry =
  pe_songId :: eid
  pe_ids :: "eid \<times> eid \<times> eid"
  pe_sourceFingerprint :: string
  pe_referenceYoutubeId :: string

record import_plan =
  plan_entries :: "planned_entry list"
  plan_excludedSongIds :: "eid list"

definition importable :: "song_row \<Rightarrow> bool" where
  "importable r \<longleftrightarrow> \<not> blank (coalesce (song_youtubeId r) []) \<and> hasContent (song_lyrics r)"

definition planLegacyGuideImport ::
  "digest \<Rightarrow> (eid \<Rightarrow> eid \<times> eid \<times> eid) \<Rightarrow> request_context \<Rightarrow> db \<Rightarrow> (import_plan, db) use_case" where
  "planLegacyGuideImport digest newIds ctx = as_admin ctx (\<lambda>_ s.
    (let rows = sort_key song_id (songs s) in
     (Inr \<lparr>plan_entries = map (\<lambda>r.
             \<lparr>pe_songId = song_id r, pe_ids = newIds (song_id r),
              pe_sourceFingerprint = legacyGuideSourceFingerprint digest (song_lyrics r)
                (song_youtubeId r) (song_hasOfficialCheer r),
              pe_referenceYoutubeId = coalesce (song_youtubeId r) []\<rparr>) (filter importable rows),
           plan_excludedSongIds = map song_id (filter (\<lambda>r. \<not> importable r) rows)\<rparr>, s)))"

section \<open>Importing one entry\<close>

record import_state =
  ist_guide :: guide_row
  ist_snapshots :: "snapshot_row list"
  ist_publications :: "publication_row list"

definition findGuideImportState :: "db \<Rightarrow> eid \<Rightarrow> import_state list" where
  "findGuideImportState s songId =
    map (\<lambda>g. \<lparr>ist_guide = g,
              ist_snapshots = filter (\<lambda>r. snap_cheerGuideId r = guide_id g) (snapshots s),
              ist_publications = filter (\<lambda>r. pub_cheerGuideId r = guide_id g) (publications s)\<rparr>)
      (sort_key guide_id (filter (\<lambda>g. guide_songId g = songId) (guides s)))"

definition imported_guide :: "instant \<Rightarrow> eid \<Rightarrow> import_entry \<Rightarrow> guide_row" where
  "imported_guide now songId e = new_guide (ie_guideId e) songId (ie_mode e) True now"

definition imported_snapshot :: "instant \<Rightarrow> json \<Rightarrow> import_entry \<Rightarrow> snapshot_row" where
  "imported_snapshot now lyrics e =
    \<lparr>snap_id = ie_snapshotId e, snap_cheerGuideId = ie_guideId e, snap_versionNo = 1,
     snap_lyrics = lyrics, snap_referenceYoutubeId = ie_referenceYoutubeId e,
     snap_sourceType = ie_sourceType e, snap_sourceUrl = ie_sourceUrl e,
     snap_guideVideoUrl = ie_guideVideoUrl e, snap_description = ie_description e,
     snap_createdByAccountId = None, snap_changeSummary = summary_imported, snap_createdAt = now\<rparr>"

definition imported_publication :: "instant \<Rightarrow> eid \<Rightarrow> import_entry \<Rightarrow> publication_row" where
  "imported_publication now actor e =
    \<lparr>pub_id = ie_publicationId e, pub_cheerGuideId = ie_guideId e, pub_publicationNo = 1,
     pub_action = PUBLISH, pub_snapshotId = ie_snapshotId e, pub_actorAccountId = actor,
     pub_reason = reason_imported, pub_createdAt = now\<rparr>"

text \<open>
  Three inserts and the update of the pointer.  An identifier used before violates a primary key and
  fails the transaction.
\<close>

definition insertImportedGuide ::
  "db \<Rightarrow> guide_row \<Rightarrow> snapshot_row \<Rightarrow> publication_row \<Rightarrow> (unit, db) use_case" where
  "insertImportedGuide s g sn p =
    throw_if (lookup guide_id (guide_id g) (guides s) \<noteq> None) (DbError ''cheer_guide_pkey'') s
    (throw_if (lookup snap_id (snap_id sn) (snapshots s) \<noteq> None) (DbError ''cheer_guide_snapshot_pkey'') s
    (throw_if (lookup pub_id (pub_id p) (publications s) \<noteq> None) (DbError ''cheer_guide_publication_pkey'') s
      (Inr (), s\<lparr>guides := guides s @ [g\<lparr>guide_currentPublicationId := Some (pub_id p)\<rparr>],
                 snapshots := snapshots s @ [sn], publications := publications s @ [p]\<rparr>)))"

text \<open>The long disjunction of \<open>importLegacyGuide\<close>, negated.\<close>

definition import_matches ::
  "digest \<Rightarrow> song_row \<Rightarrow> import_entry \<Rightarrow> import_state list \<Rightarrow> import_state \<Rightarrow> bool" where
  "import_matches digest row e states ex \<longleftrightarrow>
    (case (ist_snapshots ex, ist_publications ex) of
       ([sn], [p]) \<Rightarrow>
         guide_mode (ist_guide ex) = ie_mode e \<and> guide_legacyWriteTarget (ist_guide ex) \<and>
         guide_lockVersion (ist_guide ex) = 1 \<and>
         guide_currentPublicationId (ist_guide ex) = Some (ie_publicationId e) \<and>
         snap_id sn = ie_snapshotId e \<and> snap_versionNo sn = 1 \<and>
         snap_createdByAccountId sn = None \<and> snap_changeSummary sn = summary_imported \<and>
         snap_sourceType sn = ie_sourceType e \<and> snap_sourceUrl sn = ie_sourceUrl e \<and>
         snap_referenceYoutubeId sn = ie_referenceYoutubeId e \<and>
         snap_guideVideoUrl sn = ie_guideVideoUrl e \<and> snap_description sn = ie_description e \<and>
         legacyGuideSourceFingerprint digest (Some (snap_lyrics sn)) (song_youtubeId row)
           (song_hasOfficialCheer row) = ie_sourceFingerprint e \<and>
         pub_id p = ie_publicationId e \<and> pub_publicationNo p = 1 \<and>
         pub_snapshotId p = ie_snapshotId e \<and> pub_action p = PUBLISH \<and> pub_reason p = reason_imported \<and>
         \<not> list_ex (\<lambda>st. guide_id (ist_guide st) \<noteq> ie_guideId e \<and> guide_legacyWriteTarget (ist_guide st)) states
     | _ \<Rightarrow> False)"

datatype import_status = Unchanged | Ready | Imported

definition active_admin :: "db \<Rightarrow> eid \<Rightarrow> bool" where
  "active_admin s i \<longleftrightarrow>
    (case lookup account_id i (accounts s) of
       None \<Rightarrow> False
     | Some a \<Rightarrow> account_row.account_role a = ADMIN \<and> account_status a = ACTIVE)"

definition import_source_ok :: "digest \<Rightarrow> import_entry \<Rightarrow> song_row \<Rightarrow> bool" where
  "import_source_ok digest e row \<longleftrightarrow>
    hasContent (song_lyrics row) \<and> song_youtubeId row = Some (ie_referenceYoutubeId e) \<and>
    legacyGuideSourceFingerprint digest (song_lyrics row) (song_youtubeId row)
      (song_hasOfficialCheer row) = ie_sourceFingerprint e"

definition importLegacyGuide ::
  "digest \<Rightarrow> instant \<Rightarrow> request_context \<Rightarrow> import_entry \<times> bool \<Rightarrow> db \<Rightarrow>
    (eid \<times> import_status, db) use_case" where
  "importLegacyGuide digest now ctx arg = as_admin ctx (\<lambda>actor. transaction (\<lambda>s. (case arg of (e, apply) \<Rightarrow>
    throw_if (\<not> active_admin s actor) (AppError FORBIDDEN) s
    (or_throw (lockSongForGuideWrite s (ie_songId e)) (AppError CHEER_GUIDE_IMPORT_CONFLICT) s (\<lambda>row.
     throw_if (\<not> import_source_ok digest e row) (AppError CHEER_GUIDE_IMPORT_CONFLICT) s
     (let states = findGuideImportState s (song_id row) in
      case find (\<lambda>st. guide_id (ist_guide st) = ie_guideId e) states of
        Some ex \<Rightarrow>
          throw_if (\<not> import_matches digest row e states ex) (AppError CHEER_GUIDE_IMPORT_CONFLICT) s
            (Inr (song_id row, Unchanged), s)
      | None \<Rightarrow>
          throw_if (list_ex (\<lambda>st. guide_mode (ist_guide st) = ie_mode e \<or>
                                  guide_legacyWriteTarget (ist_guide st)) states)
            (AppError CHEER_GUIDE_IMPORT_CONFLICT) s
          (if \<not> apply then (Inr (song_id row, Ready), s)
           else and_then (insertImportedGuide s (imported_guide now (song_id row) e)
                    (imported_snapshot now (coalesce (song_lyrics row) JNull) e)
                    (imported_publication now actor e))
                  (\<lambda>_ s1. (Inr (song_id row, Imported), s1)))))))))"

interpretation import_guide: atomic_use_case "importLegacyGuide digest now" for digest now
  unfolding importLegacyGuide_def [abs_def] by (rule atomic_as_admin_transaction)

interpretation plan_import: atomic_use_case "\<lambda>ctx (_ :: unit). planLegacyGuideImport digest newIds ctx"
  for digest newIds
  unfolding planLegacyGuideImport_def [abs_def] by (rule atomic_as_admin) (simp add: Let_def)

section \<open>The fingerprint does not depend on the order of keys\<close>

text \<open>Two values that PostgreSQL's \<open>jsonb\<close> does not distinguish: objects compare as key-value maps.\<close>

inductive same_json :: "json \<Rightarrow> json \<Rightarrow> bool" where
  same_atom: "same_json j j"
| same_arr: "list_all2 same_json xs ys \<Longrightarrow> same_json (JArr xs) (JArr ys)"
| same_obj: "list_all2 (\<lambda>a b. fst a = fst b \<and> same_json (snd a) (snd b)) kvs kvs' \<Longrightarrow>
    set kvs' = set kvs'' \<Longrightarrow> distinct (map fst kvs') \<Longrightarrow> distinct (map fst kvs'') \<Longrightarrow>
    same_json (JObj kvs) (JObj kvs'')"

lemma sort_by_key_unique:
  fixes kvs :: "('k::linorder \<times> 'v) list"
  assumes "set kvs = set kvs'" and "distinct (map fst kvs)" and "distinct (map fst kvs')"
  shows "sort_key fst kvs = sort_key fst kvs'"
proof (rule map_sorted_distinct_set_unique [where f = fst])
  show "inj_on fst (set (sort_key fst kvs) \<union> set (sort_key fst kvs'))"
    using assms by (simp add: distinct_map)
qed (use assms in \<open>simp_all add: distinct_map\<close>)

lemma sort_key_map_values:
  "sort_key fst (map (\<lambda>(k, v). (k, f v)) kvs) = map (\<lambda>(k, v). (k, f v)) (sort_key fst kvs)"
proof -
  have "insort_key fst (k, f v) (map (\<lambda>(k, v). (k, f v)) t) =
      map (\<lambda>(k, v). (k, f v)) (insort_key fst (k, v) t)" for k :: "'a::linorder" and v t
    by (induction t) auto
  then show ?thesis by (induction kvs) auto
qed

lemma list_all2_map_eq: "list_all2 (\<lambda>a b. f a = f b) xs ys \<Longrightarrow> map f xs = map f ys"
  by (induction rule: list_all2_induct) auto

lemma canonical_same:
  "same_json a b \<Longrightarrow> canonical a = canonical b"
proof (induction rule: same_json.induct)
  case (same_atom j)
  then show ?case by simp
next
  case (same_arr xs ys)
  then have "list_all2 (\<lambda>a b. canonical a = canonical b) xs ys" by (rule list_all2_mono) simp
  then show ?case by (simp add: list_all2_map_eq)
next
  case (same_obj kvs kvs' kvs'')
  let ?c = "\<lambda>(k, v). (k, canonical v)"
  from same_obj(1) have "list_all2 (\<lambda>a b. ?c a = ?c b) kvs kvs'"
    by (rule list_all2_mono) (auto split: prod.splits)
  then have "map ?c kvs = map ?c kvs'" by (rule list_all2_map_eq)
  moreover have "sort_key fst kvs' = sort_key fst kvs''"
    using same_obj(2-4) by (rule sort_by_key_unique)
  ultimately show ?case
    by (simp flip: sort_key_map_values) (simp add: sort_key_map_values)
qed

text \<open>
  The source fingerprint depends on what the lyrics say, not on how the database writes the JSON: two
  values that differ only in the order of object keys, at any depth, have the same fingerprint, for any
  digest function.\<close>

theorem fingerprint_key_order:
  assumes "same_json a b"
  shows "legacyGuideSourceFingerprint digest (Some a) y h = legacyGuideSourceFingerprint digest (Some b) y h"
  using canonical_same [OF assms]
  by (simp add: legacyGuideSourceFingerprint_def)

theorem fingerprint_key_order_witness:
  "legacyGuideSourceFingerprint (\<lambda>_. ''d'') (Some (JArr [JObj [(''b'', JNull), (''a'', JBool True)]])) None None =
    legacyGuideSourceFingerprint (\<lambda>_. ''d'') (Some (JArr [JObj [(''a'', JBool True), (''b'', JNull)]])) None None"
  by (rule fingerprint_key_order, rule same_arr, simp, rule same_obj [of _ "[(''b'', JNull), (''a'', JBool True)]"])
    (auto intro: same_atom)

section \<open>Planning covers every song\<close>

lemma mset_partition:
  "mset (map f (filter P xs)) + mset (map f (filter (\<lambda>x. \<not> P x) xs)) = mset (map f xs)"
  by (induction xs) auto

text \<open>
  A plan accounts for every song exactly once: it is either planned for import, with the fingerprint of
  its present content and its present video, or listed as excluded; a planned song has visible lyrics
  and a video.  Planning changes nothing.\<close>

theorem plan_covers_songs:
  assumes "planLegacyGuideImport digest newIds ctx s = (Inr plan, s')"
  shows "s' = s \<and>
    mset (map pe_songId (plan_entries plan) @ plan_excludedSongIds plan) = mset (map song_id (songs s)) \<and>
    (\<forall>e \<in> set (plan_entries plan). \<exists>r \<in> set (songs s). song_id r = pe_songId e \<and>
      hasContent (song_lyrics r) \<and> song_youtubeId r = Some (pe_referenceYoutubeId e) \<and>
      pe_sourceFingerprint e = legacyGuideSourceFingerprint digest (song_lyrics r) (song_youtubeId r)
        (song_hasOfficialCheer r))"
proof -
  let ?rows = "sort_key song_id (songs s)"
  from assms have s: "s' = s"
    and e: "plan_entries plan = map (\<lambda>r. \<lparr>pe_songId = song_id r, pe_ids = newIds (song_id r),
      pe_sourceFingerprint = legacyGuideSourceFingerprint digest (song_lyrics r) (song_youtubeId r)
        (song_hasOfficialCheer r), pe_referenceYoutubeId = coalesce (song_youtubeId r) []\<rparr>)
      (filter importable ?rows)"
    and x: "plan_excludedSongIds plan = map song_id (filter (\<lambda>r. \<not> importable r) ?rows)"
    by (auto simp: planLegacyGuideImport_def guard_simps Let_def)
  have "mset (map song_id (filter importable ?rows) @ map song_id (filter (\<lambda>r. \<not> importable r) ?rows)) =
      mset (map song_id (songs s))"
    by (simp only: mset_append mset_partition) simp
  then show ?thesis
    by (auto simp: s e x comp_def importable_def coalesce_def split: option.splits)
qed

definition demo_digest :: digest where
  "demo_digest j = (case j of JObj kvs \<Rightarrow> concat (map fst kvs) | _ \<Rightarrow> ''d'')"

theorem plan_covers_songs_witness:
  "\<exists>plan. fst (planLegacyGuideImport demo_digest (\<lambda>i. (i, i, i)) admin_ctx demo_db) = Inr plan \<and>
    mset (map pe_songId (plan_entries plan) @ plan_excludedSongIds plan) = {#''so1'', ''so2''#}"
proof -
  obtain plan where run: "planLegacyGuideImport demo_digest (\<lambda>i. (i, i, i)) admin_ctx demo_db = (Inr plan, demo_db)"
    by (auto simp: planLegacyGuideImport_def as_admin_admin Let_def)
  from plan_covers_songs [OF run] have
    "mset (map pe_songId (plan_entries plan) @ plan_excludedSongIds plan) = mset (map song_id (songs demo_db))"
    by blast
  then show ?thesis by (simp only: run fst_conv) simp
qed

section \<open>Importing\<close>

lemma insertImportedGuide_Inr:
  "insertImportedGuide s g sn p = (Inr u, s') \<longleftrightarrow>
    guide_id g \<notin> guide_id ` set (guides s) \<and> snap_id sn \<notin> snap_id ` set (snapshots s) \<and>
    pub_id p \<notin> pub_id ` set (publications s) \<and>
    s' = s\<lparr>guides := guides s @ [g\<lparr>guide_currentPublicationId := Some (pub_id p)\<rparr>],
          snapshots := snapshots s @ [sn], publications := publications s @ [p]\<rparr>"
  by (auto simp: insertImportedGuide_def guard_simps lookup_None_iff)

lemma importLegacyGuide_Inr:
  assumes "importLegacyGuide digest now ctx (e, apply) s = (Inr (j, st), s')"
  obtains (same) "s' = s" and "st \<noteq> Imported"
  | (imported) actor row where "ctx_user ctx = Some actor" and "active_admin s actor" and "apply"
      and "lookup song_id (ie_songId e) (songs s) = Some row" and "j = song_id row" and "st = Imported"
      and "import_source_ok digest e row"
      and "\<And>g. g \<in> set (guides s) \<Longrightarrow> guide_songId g = song_id row \<Longrightarrow>
          guide_mode g \<noteq> ie_mode e \<and> \<not> guide_legacyWriteTarget g"
      and "ie_guideId e \<notin> guide_id ` set (guides s)" and "ie_snapshotId e \<notin> snap_id ` set (snapshots s)"
      and "ie_publicationId e \<notin> pub_id ` set (publications s)"
      and "s' = s\<lparr>guides := guides s @ [(imported_guide now (song_id row) e)
              \<lparr>guide_currentPublicationId := Some (ie_publicationId e)\<rparr>],
            snapshots := snapshots s @ [imported_snapshot now (coalesce (song_lyrics row) JNull) e],
            publications := publications s @ [imported_publication now actor e]\<rparr>"
proof -
  from assms obtain actor row where ar: "ctx_user ctx = Some actor" "active_admin s actor"
    "lookup song_id (ie_songId e) (songs s) = Some row" "import_source_ok digest e row"
    by (auto simp: importLegacyGuide_def guard_simps lockSongForGuideWrite_def)
  let ?states = "findGuideImportState s (song_id row)"
  show ?thesis
  proof (cases "find (\<lambda>st. guide_id (ist_guide st) = ie_guideId e) ?states")
    case (Some ex)
    with assms ar show ?thesis
      by (intro same) (auto simp: importLegacyGuide_def guard_simps lockSongForGuideWrite_def Let_def)
  next
    case None
    show ?thesis
    proof (cases "apply")
      case False
      with assms ar None show ?thesis
        by (intro same) (auto simp: importLegacyGuide_def guard_simps lockSongForGuideWrite_def Let_def)
    next
      case True
      with assms ar None show ?thesis
        by (auto simp: importLegacyGuide_def guard_simps lockSongForGuideWrite_def Let_def
            insertImportedGuide_Inr findGuideImportState_def list_ex_iff imported_guide_def new_guide_def
            imported_snapshot_def imported_publication_def intro!: imported)
    qed
  qed
qed

lemma find_unique:
  assumes "x \<in> set xs" and "P x" and only: "\<And>y. y \<in> set xs \<Longrightarrow> P y \<Longrightarrow> y = x"
  shows "find P xs = Some x"
proof -
  obtain y where y: "find P xs = Some y" "y \<in> set xs" "P y"
    using find_ex [of xs P] assms(1,2) by blast
  from only [OF y(2,3)] y(1) show ?thesis by simp
qed

lemma imported_simps [simp]:
  "guide_id (imported_guide now i e) = ie_guideId e" "guide_songId (imported_guide now i e) = i"
  "guide_mode (imported_guide now i e) = ie_mode e" "guide_legacyWriteTarget (imported_guide now i e)"
  "guide_lockVersion (imported_guide now i e) = 1"
  "snap_cheerGuideId (imported_snapshot now l e) = ie_guideId e"
  "snap_id (imported_snapshot now l e) = ie_snapshotId e"
  "snap_versionNo (imported_snapshot now l e) = 1"
  "pub_cheerGuideId (imported_publication now a e) = ie_guideId e"
  "pub_id (imported_publication now a e) = ie_publicationId e"
  "pub_publicationNo (imported_publication now a e) = 1"
  "pub_snapshotId (imported_publication now a e) = ie_snapshotId e"
  "pub_action (imported_publication now a e) = PUBLISH"
  by (simp_all add: imported_guide_def new_guide_def imported_snapshot_def imported_publication_def)

lemma fingerprint_coalesce [simp]:
  "legacyGuideSourceFingerprint digest (Some (coalesce l JNull)) y h = legacyGuideSourceFingerprint digest l y h"
  by (simp only: legacyGuideSourceFingerprint_def coalesce_simps)

lemma no_history:
  assumes "guides_wf s" and "i \<notin> guide_id ` set (guides s)"
  shows "filter (\<lambda>r. snap_cheerGuideId r = i) (snapshots s) = []"
    and "filter (\<lambda>r. pub_cheerGuideId r = i) (publications s) = []"
  using assms(2) by (auto simp: filter_empty_conv dest!: history_owner [OF assms(1)])

text \<open>
  The import can be repeated: after an entry has been imported, importing the same entry again - by any
  active administrator, as a dry run or not - reports it unchanged and writes nothing.\<close>

theorem import_idempotent:
  assumes "guides_wf s" and "importLegacyGuide digest now ctx (e, apply) s = (Inr (j, Imported), s')"
    and "ctx_user ctx' = Some u" and "ctx_ability ctx' Manage All" and "active_admin s u"
  shows "importLegacyGuide digest now' ctx' (e, apply') s' = (Inr (j, Unchanged), s')"
  using assms(2)
proof (cases rule: importLegacyGuide_Inr)
  case same
  then show ?thesis by simp
next
  case (imported actor row)
  let ?g = "(imported_guide now (song_id row) e)\<lparr>guide_currentPublicationId := Some (ie_publicationId e)\<rparr>"
  let ?sn = "imported_snapshot now (coalesce (song_lyrics row) JNull) e"
  let ?p = "imported_publication now actor e"
  let ?st = "\<lparr>ist_guide = ?g, ist_snapshots = [?sn], ist_publications = [?p]\<rparr>"
  let ?states = "findGuideImportState s' (song_id row)"
  have gs: "guides s' = guides s @ [?g]" and sns: "snapshots s' = snapshots s @ [?sn]"
    and ps: "publications s' = publications s @ [?p]" by (simp_all add: imported(12))
  note none = no_history [OF assms(1) imported(9)]
  then have st: "?st \<in> set ?states"
    by (simp add: findGuideImportState_def gs sns ps)
  have only: "y = ?st" if "y \<in> set ?states" "guide_id (ist_guide y) = ie_guideId e" for y
  proof -
    from that(1) obtain g where g: "g \<in> set (guides s')" "y = \<lparr>ist_guide = g,
        ist_snapshots = filter (\<lambda>r. snap_cheerGuideId r = guide_id g) (snapshots s'),
        ist_publications = filter (\<lambda>r. pub_cheerGuideId r = guide_id g) (publications s')\<rparr>"
      by (auto simp: findGuideImportState_def)
    have "g = ?g"
    proof (rule ccontr)
      assume "g \<noteq> ?g"
      with g(1) have "g \<in> set (guides s)" by (simp add: gs)
      then have "guide_id g \<in> guide_id ` set (guides s)" by (rule imageI)
      with imported(9) that(2) g(2) show False by simp
    qed
    with g none show ?thesis
      by (simp add: sns ps)
  qed
  have found: "find (\<lambda>st. guide_id (ist_guide st) = ie_guideId e) ?states = Some ?st"
    by (rule find_unique [OF st]) (use only in simp_all)
  have "\<not> list_ex (\<lambda>st. guide_id (ist_guide st) \<noteq> ie_guideId e \<and> guide_legacyWriteTarget (ist_guide st)) ?states"
    using imported(8) by (auto simp: list_ex_iff findGuideImportState_def gs)
  moreover have "song_youtubeId row = Some (ie_referenceYoutubeId e)"
    "legacyGuideSourceFingerprint digest (song_lyrics row) (song_youtubeId row)
      (song_hasOfficialCheer row) = ie_sourceFingerprint e"
    using imported(7) unfolding import_source_ok_def by blast+
  ultimately have "import_matches digest row e ?states ?st"
    by (simp add: import_matches_def)
      (simp add: imported_snapshot_def imported_publication_def)
  moreover have "active_admin s' u" using assms(5) by (simp add: active_admin_def imported(12))
  moreover have "lockSongForGuideWrite s' (ie_songId e) = Some row"
    using imported(4) by (simp add: lockSongForGuideWrite_def imported(12))
  ultimately show ?thesis
    using found assms(3,4) imported(5,7)
    by (simp add: importLegacyGuide_def as_admin_admin transaction_def Let_def)
qed

definition demo_entry :: import_entry where
  "demo_entry = \<lparr>ie_songId = ''so2'', ie_guideId = ''g2'', ie_snapshotId = ''sn2'',
    ie_publicationId = ''p2'', ie_sourceFingerprint = ''hasOfficialCheerlyricsyoutubeId'',
    ie_mode = CONCERT, ie_sourceType = FANDOM, ie_sourceUrl = None, ie_guideVideoUrl = None,
    ie_description = None, ie_referenceYoutubeId = ''dQw4w9WgXcQ''\<rparr>"

lemma demo_fingerprint:
  "legacyGuideSourceFingerprint demo_digest l y h = ''hasOfficialCheerlyricsyoutubeId''"
  by (simp add: legacyGuideSourceFingerprint_def demo_digest_def)

lemma demo_active [simp]: "active_admin demo_db ''adm''"
  by (simp add: active_admin_def demo_account_def)

definition demo_imported :: db where
  "demo_imported = snd (importLegacyGuide demo_digest 5 admin_ctx (demo_entry, True) demo_db)"

lemma demo_import_runs:
  "importLegacyGuide demo_digest 5 admin_ctx (demo_entry, True) demo_db =
    (Inr (''so2'', Imported), demo_imported)"
  by (simp add: demo_imported_def importLegacyGuide_def as_admin_admin transaction_def lockSongForGuideWrite_def
      demo_entry_def import_source_ok_def demo_fingerprint hasContent_def findGuideImportState_def
      insertImportedGuide_def imported_guide_def new_guide_def imported_snapshot_def
      imported_publication_def Let_def)

theorem import_idempotent_witness:
  "fst (importLegacyGuide demo_digest 9 admin_ctx (demo_entry, True) demo_imported) = Inr (''so2'', Unchanged)"
  using import_idempotent [OF demo_wf demo_import_runs, of admin_ctx "''adm''" 9 True] by simp

lemma imported_states:
  assumes wf: "guides_wf s" and sn: "snapshots s' = snapshots s @ [r]" and pb: "publications s' = publications s @ [p]"
    and gs: "guides s' = guides s @ [g]" and cur: "guide_currentPublicationId g = Some (pub_id p)"
    and own: "pub_cheerGuideId p = guide_id g" "snap_cheerGuideId r = guide_id g" "pub_snapshotId p = snap_id r"
    and fresh: "guide_id g \<notin> guide_id ` set (guides s)"
  shows "guide_states s' i = guide_states s i @
    (if guide_songId g = i
     then [\<lparr>gst_id = guide_id g, gst_mode = guide_mode g, gst_hasPublications = True,
            gst_current = Some (pub_action p, Some r)\<rparr>]
     else [])"
proof -
  have none: "find (\<lambda>q. pub_cheerGuideId q = guide_id g \<and> pub_id q = pub_id p) (publications s) = None"
    "find (\<lambda>q. snap_cheerGuideId q = guide_id g \<and> snap_id q = snap_id r) (snapshots s) = None"
    using no_history [OF wf fresh] by (auto simp: find_None_iff filter_empty_conv)
  have "current_publication s' g = Some p"
    using none(1) by (simp add: current_publication_def cur pb find_append own)
  moreover have "publication_snapshot s' p = Some r"
    using none(2) by (simp add: publication_snapshot_def sn find_append own)
  ultimately have new: "guide_state_of s' g = \<lparr>gst_id = guide_id g, gst_mode = guide_mode g,
      gst_hasPublications = True, gst_current = Some (pub_action p, Some r)\<rparr>"
    by (simp add: guide_state_of_def pb own)
  have "map (guide_state_of s') (filter (\<lambda>g. guide_songId g = i) (guides s)) =
      map (guide_state_of s) (filter (\<lambda>g. guide_songId g = i) (guides s))"
    using fresh own(1) by (intro map_cong refl guide_state_append [OF wf _ sn pb]) auto
  with new show ?thesis by (simp add: guide_states_def gs)
qed

lemma guide_row_links_cong:
  "guide_row_links s g \<Longrightarrow> songs s' = songs s \<Longrightarrow> publication_keys s \<subseteq> publication_keys s' \<Longrightarrow>
    snapshot_keys s \<subseteq> snapshot_keys s' \<Longrightarrow> guide_row_links s' g"
  by (erule guide_row_links_mono) simp_all

lemma imported_wf:
  assumes wf: "guides_wf s" and ok: "import_entry_ok e" and content: "hasContent (song_lyrics row)"
    and row: "row \<in> set (songs s)" and actor: "actor \<in> account_ids s"
    and modes: "\<And>g. g \<in> set (guides s) \<Longrightarrow> guide_songId g = song_id row \<Longrightarrow>
      guide_mode g \<noteq> ie_mode e \<and> \<not> guide_legacyWriteTarget g"
    and fresh: "ie_guideId e \<notin> guide_id ` set (guides s)" "ie_snapshotId e \<notin> snap_id ` set (snapshots s)"
      "ie_publicationId e \<notin> pub_id ` set (publications s)"
    and s': "s' = s\<lparr>guides := guides s @ [(imported_guide now (song_id row) e)
              \<lparr>guide_currentPublicationId := Some (ie_publicationId e)\<rparr>],
            snapshots := snapshots s @ [imported_snapshot now (coalesce (song_lyrics row) JNull) e],
            publications := publications s @ [imported_publication now actor e]\<rparr>"
  shows "guides_wf s'"
proof -
  let ?g = "imported_guide now (song_id row) e"
  let ?s1 = "s\<lparr>guides := guides s @ [?g]\<rparr>"
  let ?d = "\<lparr>sd_cheerGuideId = ie_guideId e, sd_lyrics = coalesce (song_lyrics row) JNull,
    sd_referenceYoutubeId = ie_referenceYoutubeId e, sd_sourceType = ie_sourceType e,
    sd_sourceUrl = ie_sourceUrl e, sd_guideVideoUrl = ie_guideVideoUrl e,
    sd_description = ie_description e, sd_createdByAccountId = None, sd_changeSummary = summary_imported\<rparr>"
  let ?p = "\<lparr>pd_cheerGuideId = ie_guideId e, pd_snapshotId = ie_snapshotId e, pd_action = PUBLISH,
    pd_actorAccountId = actor, pd_reason = reason_imported\<rparr>"
  let ?s2 = "insertNextGuideSnapshot ?s1 (ie_snapshotId e) now ?d"
  let ?s3 = "insertNextGuidePublication ?s2 (ie_publicationId e) now ?p"
  have wf1: "guides_wf ?s1"
    unfolding imported_guide_def
    by (rule new_guide_wf [OF wf fresh(1)]) (use row modes in \<open>auto simp: list_ex_iff\<close>)
  have arr: "is_array (coalesce (song_lyrics row) JNull)"
    using content by (auto simp: hasContent_def dest: is_array_of_lyrics split: option.splits)
  have "snapshot_data_ok ?s1 ?d"
    using ok arr by (simp add: snapshot_data_ok_def import_entry_ok_def not_blank_btrim)
  then have wf2: "guides_wf ?s2"
    using fresh(2) by (intro insertNextGuideSnapshot_wf [OF wf1]) simp_all
  have "publication_data_ok ?s2 ?p"
    using actor by (auto simp: publication_data_ok_def insertNextGuideSnapshot_def snapshot_keys_def
        snapshot_of_def account_ids_def)
  then have wf3: "guides_wf ?s3"
    using fresh(3) by (intro insertNextGuidePublication_wf [OF wf2]) (simp_all add: insertNextGuideSnapshot_def)
  have "guides_wf (setGuidePublication ?s3 (ie_guideId e) (ie_publicationId e))"
    by (rule setGuidePublication_wf [OF wf3])
      (simp add: publication_keys_def insertNextGuidePublication_def publication_of_def)
  moreover have "setGuidePublication ?s3 (ie_guideId e) (ie_publicationId e) = s'"
  proof -
    have n: "next_no (snapshot_numbers ?s1 (ie_guideId e)) = 1" "next_no (publication_numbers ?s2 (ie_guideId e)) = 1"
      using no_history [OF wf fresh(1)]
      by (simp_all add: snapshot_numbers_def publication_numbers_def insertNextGuideSnapshot_def next_no_def)
    have u: "update_where (\<lambda>g. guide_id g = ie_guideId e) f (guides s) = guides s" for f
      using fresh(1) by (intro update_where_none) (metis imageI)
    show ?thesis
      using n u
      by (simp add: s' setGuidePublication_def insertNextGuidePublication_def insertNextGuideSnapshot_def
          snapshot_of_def publication_of_def imported_snapshot_def imported_publication_def)
  qed
  ultimately show ?thesis by simp
qed

text \<open>
  An import publishes: it adds exactly one guide, one snapshot and one publication, keeps the guide
  tables well-formed, and from then on the readers of the song get, besides the guides they had, the
  imported one with the song's own lyrics; the other songs are as before.\<close>

theorem import_publishes:
  assumes "guides_wf s" and "import_entry_ok e" and "ctx_user ctx = Some u"
    and "importLegacyGuide digest now ctx (e, apply) s = (Inr (j, Imported), s')"
  shows "guides_wf s' \<and> length (guides s') = length (guides s) + 1 \<and>
    length (snapshots s') = length (snapshots s) + 1 \<and>
    length (publications s') = length (publications s) + 1 \<and>
    (\<forall>i. i \<noteq> j \<longrightarrow> guide_states s' i = guide_states s i) \<and>
    (\<exists>row lyrics pg. lookup song_id j (songs s) = Some row \<and>
      lyricsDataSchema (coalesce (song_lyrics row) JNull) = Some lyrics \<and> has_text lyrics \<and>
      snap_lyrics (pg_snapshot pg) = coalesce (song_lyrics row) JNull \<and> pg_id pg = ie_guideId e \<and>
      set (currentPublishedGuides (guide_states s' j) (song_youtubeId row)) =
        insert pg (set (currentPublishedGuides (guide_states s j) (song_youtubeId row))))"
  using assms(4)
proof (cases rule: importLegacyGuide_Inr)
  case same
  then show ?thesis by simp
next
  case (imported actor row)
  let ?g = "(imported_guide now (song_id row) e)\<lparr>guide_currentPublicationId := Some (ie_publicationId e)\<rparr>"
  let ?sn = "imported_snapshot now (coalesce (song_lyrics row) JNull) e"
  have actor: "actor \<in> account_ids s"
    using imported(2) by (auto simp: active_admin_def account_ids_def dest!: lookup_SomeD split: option.splits)
  have content: "hasContent (song_lyrics row)" using imported(7) by (simp add: import_source_ok_def)
  have row: "row \<in> set (songs s)" "song_id row = ie_songId e" using lookup_SomeD [OF imported(4)] by auto
  have wf': "guides_wf s'"
    using imported_wf [OF assms(1,2) content row(1) actor imported(8-12)] .
  have view: "guide_states s' i = guide_states s i @ (if song_id row = i
      then [\<lparr>gst_id = ie_guideId e, gst_mode = ie_mode e, gst_hasPublications = True,
             gst_current = Some (PUBLISH, Some ?sn)\<rparr>] else [])" for i
    using imported_states [OF assms(1), of s' ?sn "imported_publication now actor e" ?g i] imported(9)
    by (simp add: imported(12))
  obtain lyrics where lyrics: "lyricsDataSchema (coalesce (song_lyrics row) JNull) = Some lyrics" "has_text lyrics"
    using content by (auto simp: hasContent_def split: option.splits)
  have "published_of (song_youtubeId row) \<lparr>gst_id = ie_guideId e, gst_mode = ie_mode e,
      gst_hasPublications = True, gst_current = Some (PUBLISH, Some ?sn)\<rparr> =
      [\<lparr>pg_id = ie_guideId e, pg_mode = ie_mode e, pg_snapshot = ?sn\<rparr>]"
    using imported(7) by (simp add: published_of_def import_source_ok_def imported_snapshot_def)
  then have "set (currentPublishedGuides (guide_states s' j) (song_youtubeId row)) =
      insert \<lparr>pg_id = ie_guideId e, pg_mode = ie_mode e, pg_snapshot = ?sn\<rparr>
        (set (currentPublishedGuides (guide_states s j) (song_youtubeId row)))"
    by (simp add: set_currentPublishedGuides view imported(5))
  moreover have "snap_lyrics ?sn = coalesce (song_lyrics row) JNull" by (simp add: imported_snapshot_def)
  moreover have "lookup song_id j (songs s) = Some row" using imported(4,5) row(2) by simp
  moreover have "\<forall>i. i \<noteq> j \<longrightarrow> guide_states s' i = guide_states s i" by (simp add: view imported(5))
  ultimately show ?thesis
    using wf' lyrics
    by (intro conjI exI [of _ row] exI [of _ lyrics]
        exI [of _ "\<lparr>pg_id = ie_guideId e, pg_mode = ie_mode e, pg_snapshot = ?sn\<rparr>"])
      (simp_all add: imported(12))
qed

theorem import_publishes_witness:
  "length (publications demo_imported) = 2 \<and> guides_wf demo_imported"
proof -
  have "import_entry_ok demo_entry" by (simp add: import_entry_ok_def demo_entry_def source_ok_def)
  from import_publishes [OF demo_wf this _ demo_import_runs] show ?thesis by simp
qed

section \<open>The manifest check\<close>

lemma manifest_issues_fold:
  "snd (foldl note_id (seen, n) ids) = n \<longleftrightarrow> distinct ids \<and> set ids \<inter> seen = {}"
  "n \<le> snd (foldl note_id (seen, n) ids)"
proof (induction ids arbitrary: seen n)
  case Nil
  {
    case 1
    show ?case by simp
  next
    case 2
    show ?case by simp
  }
next
  case (Cons i ids)
  {
    case 1
    show ?case
    proof (cases "i \<in> seen")
      case True
      with Cons.IH(2) [of "n + 1" "insert i seen"] show ?thesis by (simp add: note_id_def)
    next
      case False
      with Cons.IH(1) [of "insert i seen" n] show ?thesis by (auto simp: note_id_def)
    qed
  next
    case 2
    show ?case
      using Cons.IH(2) [of n "insert i seen"] Cons.IH(2) [of "n + 1" "insert i seen"]
      by (auto simp: note_id_def)
  }
qed

text \<open>
  A manifest is accepted exactly when it has an entry, every entry is well-formed, and no identifier -
  of a song, guide, snapshot or publication - occurs twice anywhere in it.\<close>

theorem manifest_accepts_iff:
  "legacyGuideImportManifestSchema entries \<longleftrightarrow>
    entries \<noteq> [] \<and> (\<forall>e \<in> set entries. import_entry_ok e) \<and> distinct (concat (map entry_ids entries))"
  using manifest_issues_fold(1) [of "{}" 0]
  by (simp add: legacyGuideImportManifestSchema_def manifest_issues_def list_all_iff)

theorem manifest_accepts_iff_witness:
  "\<not> legacyGuideImportManifestSchema [demo_entry, demo_entry]"
  using manifest_accepts_iff [of "[demo_entry, demo_entry]"] by (simp add: entry_ids_def)

end
