(* ===== verification/ContentFlow.thy ===== *)
theory ContentFlow imports Albums GuideImport begin

text \<open>
  Albums, songs and guides together: every request that changes content as a step relation on the
  database, the states reachable by any sequence of requests, and the invariants that hold in all of
  them.  Refused requests are steps too.  Identifiers come from UUIDv7 and are assumed new.
\<close>

section \<open>Steps\<close>

definition known_ctx :: "db \<Rightarrow> request_context \<Rightarrow> bool" where
  "known_ctx s ctx \<longleftrightarrow> (\<forall>u. ctx_user ctx = Some u \<longrightarrow> u \<in> account_ids s)"

definition fresh_history :: "db \<Rightarrow> eid \<Rightarrow> eid \<Rightarrow> bool" where
  "fresh_history s nsnap npub \<longleftrightarrow>
    nsnap \<notin> snap_id ` set (snapshots s) \<and> npub \<notin> pub_id ` set (publications s)"

inductive content_step :: "db \<Rightarrow> db \<Rightarrow> bool" where
  step_create_guide: "known_ctx s ctx \<Longrightarrow> create_guide_input_ok input \<Longrightarrow>
    nguide \<notin> guide_id ` set (guides s) \<Longrightarrow> nsnap \<notin> snap_id ` set (snapshots s) \<Longrightarrow>
    createAdminCheerGuide nguide nsnap now ctx input s = (r, s') \<Longrightarrow> content_step s s'"
| step_save_draft: "known_ctx s ctx \<Longrightarrow> nsnap \<notin> snap_id ` set (snapshots s) \<Longrightarrow>
    saveAdminCheerGuideDraft nsnap now ctx (i, draft) s = (v, s') \<Longrightarrow> content_step s s'"
| step_delete_guide: "deleteEmptyCheerGuide seen ctx i s = (d, s') \<Longrightarrow> content_step s s'"
| step_save_lyrics: "known_ctx s ctx \<Longrightarrow> fresh_history s nsnap npub \<Longrightarrow>
    saveSongLyrics nsnap npub now ctx (i, lyrics) s = (w, s') \<Longrightarrow> content_step s s'"
| step_edit_song: "known_ctx s ctx \<Longrightarrow> fresh_history s nsnap npub \<Longrightarrow>
    editSong nsnap npub now ctx (i, edit) s = (w, s') \<Longrightarrow> content_step s s'"
| step_create_song: "createSong i now ctx song s = (e, s') \<Longrightarrow> content_step s s'"
| step_delete_song: "deleteSong ctx i s = (d, s') \<Longrightarrow> content_step s s'"
| step_import: "import_entry_ok en \<Longrightarrow> importLegacyGuide digest now ctx (en, apply) s = (m, s') \<Longrightarrow>
    content_step s s'"
| step_create_album: "createAlbum i now ctx album s = (a, s') \<Longrightarrow> content_step s s'"
| step_edit_album: "editAlbum ctx (i, album) s = (a, s') \<Longrightarrow> content_step s s'"
| step_delete_album: "deleteAlbum ctx i s = (d, s') \<Longrightarrow> content_step s s'"

definition content_wf :: "db \<Rightarrow> bool" where
  "content_wf s \<longleftrightarrow> guides_wf s \<and> songs_wf s"

text \<open>What no request ever takes back.\<close>

definition kept_guide :: "guide_row \<Rightarrow> guide_row \<Rightarrow> bool" where
  "kept_guide g g' \<longleftrightarrow> same_identity g g' \<and> guide_lockVersion g \<le> guide_lockVersion g'"

definition content_progress :: "db \<Rightarrow> db \<Rightarrow> bool" where
  "content_progress s s' \<longleftrightarrow>
    (\<exists>xs. snapshots s' = snapshots s @ xs) \<and> (\<exists>ps. publications s' = publications s @ ps) \<and>
    (\<forall>g \<in> set (guides s). guideHasHistory s (guide_id g) \<longrightarrow> (\<exists>g' \<in> set (guides s'). kept_guide g g'))"

section \<open>Progress of each request\<close>

lemma kept_guide_refl [simp]: "kept_guide g g"
  by (simp add: kept_guide_def same_identity_def)

lemma content_progress_refl [simp]: "content_progress s s"
  unfolding content_progress_def by (metis append_Nil2 kept_guide_refl)

lemma content_progress_trans:
  assumes "content_progress s t" and "content_progress t u"
  shows "content_progress s u"
proof -
  have "\<exists>g'' \<in> set (guides u). kept_guide g g''" if "g \<in> set (guides s)" "guideHasHistory s (guide_id g)" for g
  proof -
    have "\<exists>g' \<in> set (guides t). kept_guide g g'"
      using assms(1) that by (simp add: content_progress_def)
    then obtain g' where g': "g' \<in> set (guides t)" "kept_guide g g'" by blast
    have "guideHasHistory t (guide_id g')"
      using assms(1) that(2) g'(2)
      by (auto simp: content_progress_def guideHasHistory_def kept_guide_def same_identity_def)
    then have "\<exists>g'' \<in> set (guides u). kept_guide g' g''"
      using assms(2) g'(1) by (simp add: content_progress_def)
    then obtain g'' where "g'' \<in> set (guides u)" "kept_guide g' g''" by blast
    with g'(2) show ?thesis by (auto simp: kept_guide_def same_identity_def intro!: bexI [of _ g''])
  qed
  with assms show ?thesis by (auto simp: content_progress_def)
qed

lemma progress_map:
  assumes "guides s' = map f (guides s) @ gs" and "\<And>g. kept_guide g (f g)"
    and "\<exists>xs. snapshots s' = snapshots s @ xs" and "\<exists>ps. publications s' = publications s @ ps"
  shows "content_progress s s'"
  using assms by (auto simp: content_progress_def image_iff)

lemma progress_guides_same:
  "guides s' = guides s \<Longrightarrow> snapshots s' = snapshots s \<Longrightarrow> publications s' = publications s \<Longrightarrow>
    content_progress s s'"
  by (rule progress_map [where f = id and gs = "[]"]) simp_all

lemma update_where_map: "update_where p f t = map (\<lambda>r. if p r then f r else r) t"
  by (simp add: update_where_def)

lemma writeLegacyGuide_progress:
  assumes "writeLegacyGuide nsnap npub now song actor changes expected s = (Inr r, s')"
  shows "content_progress s s'"
  using assms
proof (cases rule: writeLegacyGuide_Inr)
  case untouched
  then show ?thesis by simp
next
  case (published guide lyrics sn v s1)
  note st = claim_state [OF published(9)]
  show ?thesis
    by (rule progress_map [where gs = "[]" and
          f = "\<lambda>g. (\<lambda>g. if guide_id g = guide_id guide then g\<lparr>guide_currentPublicationId := Some npub\<rparr> else g)
            (if claim_pred (guide_id guide) (guide_lockVersion guide) g then claim_set now g else g)"])
      (simp_all add: published(11) st update_where_map kept_guide_def same_identity_def)
qed

lemma progress_songs: "content_progress s s1 \<Longrightarrow> content_progress s (s1\<lparr>songs := so\<rparr>)"
  by (simp add: content_progress_def)


lemma createAdminCheerGuide_wf:
  assumes "guides_wf s" and "create_guide_input_ok input" and "known_ctx s ctx"
    and "nguide \<notin> guide_id ` set (guides s)" and "nsnap \<notin> snap_id ` set (snapshots s)"
    and "createAdminCheerGuide nguide nsnap now ctx input s = (Inr g, s')"
  shows "guides_wf s' \<and> content_progress s s' \<and> songs s' = songs s \<and> albums s' = albums s"
  using assms(6)
proof (cases rule: createAdminCheerGuide_Inr)
  case (1 u song lyrics y)
  have "cgi_songId input \<in> song_id ` set (songs s)" using lookup_SomeD [OF 1(3)] by force
  moreover have "u \<in> account_ids s" using 1(1) assms(3) by (simp add: known_ctx_def)
  ultimately have "guides_wf s'"
    using created_state_wf [OF assms(1) _ 1(7,6) _ assms(2,4,5)] by (simp add: 1(9))
  moreover have "content_progress s s'"
    using created_guides_fresh [OF assms(4)]
    by (intro progress_map [where f = id]) (simp_all add: 1(9))
  moreover have "albums s' = albums s"
    by (simp add: 1(9) created_state_def setGuideWorkingSnapshot_def insertNextGuideSnapshot_def)
  ultimately show ?thesis by (simp add: 1(9))
qed

lemma saveAdminCheerGuideDraft_progress:
  assumes "saveAdminCheerGuideDraft nsnap now ctx (i, input) s = (Inr ver, s')"
  shows "content_progress s s' \<and> songs s' = songs s \<and> albums s' = albums s"
  using assms
proof (cases rule: saveAdminCheerGuideDraft_Inr)
  case (1 actor row v s1)
  note st = claim_state [OF 1(4)]
  have "content_progress s s'"
    by (rule progress_map [where gs = "[]" and
          f = "\<lambda>g. (\<lambda>g. if guide_id g = i then g\<lparr>guide_workingSnapshotId := Some nsnap\<rparr> else g)
            (if claim_pred i (dri_expectedLockVersion input) g then claim_set now g else g)"])
      (simp_all add: 1(6) st update_where_map kept_guide_def same_identity_def)
  then show ?thesis by (simp add: 1(6) st)
qed

lemma deleteEmptyCheerGuide_step:
  assumes "guides_wf s" and "deleteEmptyCheerGuide seen ctx i s = (r, s')"
  shows "guides_wf s' \<and> content_progress s s' \<and> songs s' = songs s \<and> albums s' = albums s"
  using assms(2)
proof (cases rule: deleteEmptyCheerGuide_cases)
  case kept
  with assms(1) show ?thesis by simp
next
  case deleted
  have "g \<in> set (guides s')" if "g \<in> set (guides s)" "guideHasHistory s (guide_id g)" for g
    using that deleted(2) by (auto simp: deleted(5) set_delete_where)
  moreover have "snapshots s' = snapshots s" "publications s' = publications s" by (simp_all add: deleted(5))
  ultimately have "content_progress s s'" unfolding content_progress_def by (metis append_Nil2 kept_guide_refl)
  with delete_empty_guide_wf [OF assms(1) deleted(2)] show ?thesis by (simp add: deleted(5))
qed

lemma saveSongLyrics_progress:
  assumes "saveSongLyrics nsnap npub now ctx (i, input) s = (Inr (j, ver), s')"
  shows "content_progress s s'"
  using assms
  by (cases rule: saveSongLyrics_Inr) (simp add: progress_songs writeLegacyGuide_progress)

lemma editSong_progress:
  assumes "editSong nsnap npub now ctx (i, input) s = (Inr (j, ver), s')"
  shows "content_progress s s'"
  using assms
  by (cases rule: editSong_Inr) (simp add: progress_songs writeLegacyGuide_progress)

lemma importLegacyGuide_step:
  assumes "guides_wf s" and "import_entry_ok e"
    and "importLegacyGuide digest now ctx (e, apply) s = (Inr (j, st), s')"
  shows "guides_wf s' \<and> content_progress s s' \<and> songs s' = songs s \<and> albums s' = albums s"
  using assms(3)
proof (cases rule: importLegacyGuide_Inr)
  case same
  with assms(1) show ?thesis by simp
next
  case (imported actor row)
  have "actor \<in> account_ids s"
    using imported(2) by (auto simp: active_admin_def account_ids_def dest!: lookup_SomeD split: option.splits)
  moreover have "hasContent (song_lyrics row)" using imported(7) by (simp add: import_source_ok_def)
  moreover have "row \<in> set (songs s)" using lookup_SomeD [OF imported(4)] by auto
  ultimately have "guides_wf s'" using imported_wf [OF assms(1,2) _ _ _ imported(8-12)] by blast
  moreover have "content_progress s s'"
    by (rule progress_map [where f = id]) (simp_all add: imported(12))
  ultimately show ?thesis by (simp add: imported(12))
qed

lemma createAlbum_step:
  assumes "content_wf s" and "createAlbum i now ctx input s = (r, s')"
  shows "content_wf s' \<and> content_progress s s'"
proof (cases r)
  case (Inl e)
  with assms create_album.rollback [of i now ctx input s e s'] show ?thesis by simp
next
  case (Inr a)
  with assms(2) have "s' = s\<lparr>albums := albums s @ [new_album i now input]\<rparr>"
    by (auto simp: createAlbum_def guard_simps dest!: insertAlbum_cases)
  then have "content_progress s s'" by (intro progress_guides_same) simp_all
  with assms Inr createAlbum_wf [of s i now ctx input a s'] show ?thesis by (simp add: content_wf_def)
qed

lemma editAlbum_step:
  assumes "content_wf s" and "editAlbum ctx (i, input) s = (r, s')"
  shows "content_wf s' \<and> content_progress s s'"
proof (cases r)
  case (Inl e)
  with assms edit_album.rollback [of ctx "(i, input)" s e s'] show ?thesis by simp
next
  case (Inr a)
  with assms(2) have "s' = s\<lparr>albums := update_where (\<lambda>a. album_id a = i) (album_set input) (albums s)\<rparr>"
    by (auto simp: editAlbum_def guard_simps dest!: updateAlbum_cases)
  then have "content_progress s s'" by (intro progress_guides_same) simp_all
  with assms Inr editAlbum_wf [of s ctx i input a s'] show ?thesis by (simp add: content_wf_def)
qed

lemma deleteAlbum_step:
  assumes "content_wf s" and "deleteAlbum ctx i s = (r, s')"
  shows "content_wf s' \<and> content_progress s s'"
proof (cases r)
  case (Inl e)
  with assms delete_album.rollback [of ctx i s e s'] show ?thesis by simp
next
  case (Inr a)
  with assms(2) have "\<not> list_ex (\<lambda>g. song_in_album s i (guide_songId g)) (guides s)"
    and s': "s' = (songs_removed (song_in_album s i) s)\<lparr>albums := delete_where (\<lambda>a. album_id a = i) (albums s)\<rparr>"
    by (auto simp: deleteAlbum_def guard_simps dest!: removeAlbum_cases)
  then have "guides_wf s' \<and> songs_wf s'"
    using removed_album_wf assms(1) by (auto simp: content_wf_def)
  moreover have "content_progress s s'" by (rule progress_guides_same) (simp_all add: s')
  ultimately show ?thesis by (simp add: content_wf_def)
qed

lemma deleteSong_step:
  assumes "content_wf s" and "deleteSong ctx i s = (r, s')"
  shows "content_wf s' \<and> content_progress s s'"
  using assms(2)
proof (cases rule: deleteSong_cases)
  case kept
  with assms(1) show ?thesis by simp
next
  case deleted
  have "content_progress s s'" by (rule progress_guides_same) (simp_all add: deleted(3))
  moreover have "\<not> guide_songId g = i" if "g \<in> set (guides s)" for g
    using deleted(4) that by (auto simp: list_ex_iff)
  ultimately show ?thesis
    using songs_removed_wf [of s "\<lambda>j. j = i"] assms(1) by (simp add: content_wf_def deleted(3))
qed

lemma createSong_step:
  assumes "content_wf s" and "createSong i now ctx input s = (r, s')"
  shows "content_wf s' \<and> content_progress s s'"
proof (cases r)
  case (Inl e)
  with assms create_song.rollback [of i now ctx input s e s'] show ?thesis by simp
next
  case (Inr j)
  with assms(2) have run: "createSong i now ctx input s = (Inr j, s')" by simp
  from run have "content_progress s s'"
    by (cases rule: createSong_Inr) (simp add: progress_guides_same)
  with createSong_wf [OF _ _ run] assms(1) show ?thesis by (simp add: content_wf_def)
qed

section \<open>Every request\<close>

lemma content_wf_guides:
  "content_wf s \<Longrightarrow> guides_wf s' \<and> content_progress s s' \<and> songs s' = songs s \<and> albums s' = albums s \<Longrightarrow>
    content_wf s' \<and> content_progress s s'"
  by (auto simp: content_wf_def intro: songs_wf_frame)

lemma content_step_preserves:
  assumes "content_step s s'" and "content_wf s"
  shows "content_wf s' \<and> content_progress s s'"
  using assms
proof (induction rule: content_step.induct)
  case (step_create_guide s ctx input nguide nsnap now r s')
  show ?case
  proof (cases r)
    case (Inl e)
    with step_create_guide create_guide.rollback [of nguide nsnap now ctx input s e s'] show ?thesis by simp
  next
    case (Inr g)
    with step_create_guide createAdminCheerGuide_wf [of s input ctx nguide nsnap now g s'] show ?thesis
      by (intro content_wf_guides) (simp_all add: content_wf_def)
  qed
next
  case (step_save_draft s ctx nsnap now i draft v s')
  show ?case
  proof (cases v)
    case (Inl e)
    with step_save_draft save_draft.rollback [of nsnap now ctx "(i, draft)" s e s'] show ?thesis by simp
  next
    case (Inr ver)
    with step_save_draft saveAdminCheerGuideDraft_wf [of s ctx nsnap now i draft ver s']
      saveAdminCheerGuideDraft_progress [of nsnap now ctx i draft s ver s'] show ?thesis
      by (intro content_wf_guides) (simp_all add: content_wf_def known_ctx_def)
  qed
next
  case (step_delete_guide seen ctx i s d s')
  with deleteEmptyCheerGuide_step show ?case by (intro content_wf_guides) (auto simp: content_wf_def)
next
  case (step_save_lyrics s ctx nsnap npub now i lyrics w s')
  show ?case
  proof (cases w)
    case (Inl e)
    with step_save_lyrics save_lyrics.rollback [of nsnap npub now ctx "(i, lyrics)" s e s'] show ?thesis by simp
  next
    case (Inr jv)
    with step_save_lyrics saveSongLyrics_wf [of s ctx nsnap npub now i lyrics "fst jv" "snd jv" s']
      saveSongLyrics_progress [of nsnap npub now ctx i lyrics s "fst jv" "snd jv" s']
    show ?thesis by (simp add: content_wf_def known_ctx_def fresh_history_def)
  qed
next
  case (step_edit_song s ctx nsnap npub now i edit w s')
  show ?case
  proof (cases w)
    case (Inl e)
    with step_edit_song edit_song.rollback [of nsnap npub now ctx "(i, edit)" s e s'] show ?thesis by simp
  next
    case (Inr jv)
    with step_edit_song editSong_wf [of s ctx nsnap npub now i edit "fst jv" "snd jv" s']
      editSong_progress [of nsnap npub now ctx i edit s "fst jv" "snd jv" s']
    show ?thesis by (simp add: content_wf_def known_ctx_def fresh_history_def)
  qed
next
  case (step_import en digest now ctx "apply" s m s')
  show ?case
  proof (cases m)
    case (Inl e)
    with step_import import_guide.rollback [of digest now ctx "(en, apply)" s e s'] show ?thesis by simp
  next
    case (Inr jst)
    with step_import importLegacyGuide_step [of s en digest now ctx "apply" "fst jst" "snd jst" s']
    show ?thesis by (intro content_wf_guides) (simp_all add: content_wf_def)
  qed
next
  case step_create_song
  then show ?case using createSong_step by blast
next
  case step_delete_song
  then show ?case using deleteSong_step by blast
next
  case step_create_album
  then show ?case using createAlbum_step by blast
next
  case step_edit_album
  then show ?case using editAlbum_step by blast
next
  case step_delete_album
  then show ?case using deleteAlbum_step by blast
qed

text \<open>C1.
  Whatever requests administrators and others send, in any order, the content tables stay well-formed:
  unique keys and slugs, one guide per song and mode, one guide written by the song editor per song,
  pointers of a guide only into its own history, histories numbered 1, 2, 3, ... without gaps, valid
  references and CHECK constraints.\<close>

theorem content_invariant:
  assumes "content_step\<^sup>*\<^sup>* s s'" and "content_wf s"
  shows "content_wf s'"
  using assms by (induction rule: rtranclp_induct) (auto dest: content_step_preserves)

lemma demo_content_wf: "content_wf demo_db"
  by (simp add: content_wf_def demo_wf demo_songs_wf)

lemma demo_step: "content_step demo_db demo_saved"
  by (rule step_save_lyrics [OF _ _ demo_save_runs]) (simp_all add: known_ctx_def fresh_history_def)

theorem content_invariant_witness: "content_wf demo_saved"
  using content_invariant [OF r_into_rtranclp [of content_step, OF demo_step] demo_content_wf] .

text \<open>C2.
  History is append-only: along any sequence of requests the snapshots and publications that exist are
  never altered, reordered or removed, new ones are only added at the end, and a guide that has history
  keeps existing for the same song and mode, with a version that never goes back.\<close>

theorem history_append_only:
  assumes "content_step\<^sup>*\<^sup>* s s'" and "content_wf s"
  shows "content_progress s s'"
proof -
  have "content_wf s' \<and> content_progress s s'"
    using assms
    by (induction rule: rtranclp_induct) (auto dest: content_step_preserves intro: content_progress_trans)
  then show ?thesis ..
qed

theorem history_append_only_witness:
  "\<exists>xs. snapshots demo_saved = demo_snapshot # xs"
  using history_append_only [OF r_into_rtranclp [of content_step, OF demo_step] demo_content_wf]
  by (simp add: content_progress_def)

end
