(* ===== verification/Notifications.thy ===== *)
theory Notifications imports Sample "HOL-Library.Product_Lexorder" begin

text \<open>
  Notifications of administrators (\<open>notification-service.ts\<close>, \<open>notification-repository.ts\<close>), the
  registrations of their browsers (\<open>push-installation-service.ts\<close>) and the delivery of pushes
  (\<open>notification-delivery-service.ts\<close>).  New identifiers are arguments, the database clock and
  \<open>Date.now()\<close> are one clock argument per step, and the transport \<open>send\<close> is an argument.
\<close>

section \<open>Reading notifications\<close>

record notification_view =
  nv_id :: eid
  nv_type :: notification_type
  nv_resourceId :: eid
  nv_createdAt :: instant
  nv_readAt :: "instant option"
  nv_title :: string
  nv_href :: string

definition title_succeeded :: string where
  "title_succeeded = map char_of [
    237, 140, 140, 237, 152, 149, 32, 236, 131, 157, 236, 132, 177, 236, 157, 132, 32, 236,
    153, 132, 235, 163, 140, 237, 150, 136, 236, 138, 181, 235, 139, 136, 235, 139, 164, 46 :: nat]"

definition title_failed :: string where
  "title_failed = map char_of [
    237, 140, 140, 237, 152, 149, 236, 157, 132, 32, 236, 131, 157, 236, 132, 177, 237, 149,
    152, 236, 167, 128, 32, 235, 170, 187, 237, 150, 136, 236, 138, 181, 235, 139, 136, 235,
    139, 164, 46 :: nat]"

definition notification_project :: "notification_row \<Rightarrow> notification_view" where
  "notification_project r =
    \<lparr>nv_id = ntf_id r, nv_type = ntf_type r, nv_resourceId = ntf_resourceId r,
     nv_createdAt = ntf_createdAt r, nv_readAt = ntf_readAt r,
     nv_title = (if ntf_type r = WAVEFORM_SUCCEEDED then title_succeeded else title_failed),
     nv_href = ''/admin/waveform-jobs/'' @ ntf_resourceId r\<rparr>"

text \<open>\<open>order by created_at desc, id desc\<close>\<close>

definition ntf_key :: "notification_row \<Rightarrow> instant \<times> eid" where
  "ntf_key r = (ntf_createdAt r, ntf_id r)"

definition newest_first :: "notification_row list \<Rightarrow> notification_row list" where
  "newest_first t = rev (sort_key ntf_key t)"

definition own_notifications :: "db \<Rightarrow> eid \<Rightarrow> notification_row list" where
  "own_notifications s accountId = filter (\<lambda>r. ntf_recipientAccountId r = accountId) (notifications s)"

text \<open>A cursor that names no row of the account compares with NULL: no row qualifies.\<close>

definition before_cursor :: "db \<Rightarrow> eid \<Rightarrow> eid option \<Rightarrow> notification_row \<Rightarrow> bool" where
  "before_cursor s accountId cursor r =
    (case cursor of
       None \<Rightarrow> True
     | Some i \<Rightarrow>
         (case lookup ntf_id i (own_notifications s accountId) of
            None \<Rightarrow> False
          | Some c \<Rightarrow> ntf_key r < ntf_key c))"

definition findNotifications :: "db \<Rightarrow> eid \<Rightarrow> nat \<Rightarrow> eid option \<Rightarrow> notification_row list" where
  "findNotifications s accountId limit cursor =
    take (limit + 1) (newest_first (filter (before_cursor s accountId cursor) (own_notifications s accountId)))"

definition countUnreadNotifications :: "db \<Rightarrow> eid \<Rightarrow> nat" where
  "countUnreadNotifications s accountId =
    length (filter (\<lambda>r. ntf_readAt r = None) (own_notifications s accountId))"

record notification_page =
  np_items :: "notification_view list"
  np_nextCursor :: "eid option"
  np_unreadCount :: nat

definition listNotifications ::
  "request_context \<Rightarrow> nat \<times> eid option \<Rightarrow> db \<Rightarrow> (notification_page, db) use_case" where
  "listNotifications ctx arg = as_admin ctx (\<lambda>accountId s. (case arg of (limit, cursor) \<Rightarrow>
    (let rows = findNotifications s accountId limit cursor; items = take limit rows in
     (Inr \<lparr>np_items = map notification_project items,
           np_nextCursor = (if length rows > limit then Some (ntf_id (last items)) else None),
           np_unreadCount = countUnreadNotifications s accountId\<rparr>, s))))"

definition findNotification :: "db \<Rightarrow> eid \<Rightarrow> eid \<Rightarrow> notification_row option" where
  "findNotification s accountId i =
    find (\<lambda>r. ntf_id r = i \<and> ntf_recipientAccountId r = accountId) (notifications s)"

definition getNotification :: "request_context \<Rightarrow> eid \<Rightarrow> db \<Rightarrow> (notification_view, db) use_case" where
  "getNotification ctx i = as_admin ctx (\<lambda>accountId s.
    or_throw (findNotification s accountId i) (AppError NOTIFICATION_NOT_FOUND) s (\<lambda>r.
      (Inr (notification_project r), s)))"

record history_input =
  hi_limit :: nat
  hi_offset :: nat
  hi_unreadOnly :: bool
  hi_type :: "notification_type option"

definition historyFilter :: "eid \<Rightarrow> history_input \<Rightarrow> notification_row \<Rightarrow> bool" where
  "historyFilter accountId input r \<longleftrightarrow>
    ntf_recipientAccountId r = accountId \<and>
    (hi_unreadOnly input \<longrightarrow> ntf_readAt r = None) \<and>
    (case hi_type input of None \<Rightarrow> True | Some ty \<Rightarrow> ntf_type r = ty)"

record notification_history =
  nh_items :: "notification_view list"
  nh_totalCount :: nat
  nh_unreadCount :: nat

definition listNotificationHistory ::
  "request_context \<Rightarrow> history_input \<Rightarrow> db \<Rightarrow> (notification_history, db) use_case" where
  "listNotificationHistory ctx input = as_admin ctx (\<lambda>accountId s.
    (let rows = newest_first (filter (historyFilter accountId input) (notifications s)) in
     (Inr \<lparr>nh_items = map notification_project (take (hi_limit input) (drop (hi_offset input) rows)),
           nh_totalCount = length rows,
           nh_unreadCount = countUnreadNotifications s accountId\<rparr>, s)))"

definition own_unread :: "eid \<Rightarrow> notification_row \<Rightarrow> bool" where
  "own_unread accountId r \<longleftrightarrow> ntf_recipientAccountId r = accountId \<and> ntf_readAt r = None"

definition read_pred :: "eid \<Rightarrow> eid \<Rightarrow> notification_row \<Rightarrow> bool" where
  "read_pred accountId i r \<longleftrightarrow> ntf_recipientAccountId r = accountId \<and> ntf_id r = i"

definition read_set :: "instant \<Rightarrow> notification_row \<Rightarrow> notification_row" where
  "read_set now r = r\<lparr>ntf_readAt := Some (coalesce (ntf_readAt r) now)\<rparr>"

definition readNotification :: "instant \<Rightarrow> request_context \<Rightarrow> eid \<Rightarrow> db \<Rightarrow> (notification_view, db) use_case" where
  "readNotification now ctx i = as_admin ctx (\<lambda>accountId s.
    (let s1 = s\<lparr>notifications := update_where (read_pred accountId i) (read_set now) (notifications s)\<rparr> in
     or_throw (first_row (returning (read_pred accountId i) (read_set now) (notifications s)))
       (AppError NOTIFICATION_NOT_FOUND) s1 (\<lambda>r. (Inr (notification_project r), s1))))"

definition readAllNotifications :: "instant \<Rightarrow> request_context \<Rightarrow> db \<Rightarrow> (unit, db) use_case" where
  "readAllNotifications now ctx = as_admin ctx (\<lambda>accountId s.
    (Inr (), s\<lparr>notifications :=
       update_where (own_unread accountId) (\<lambda>r. r\<lparr>ntf_readAt := Some now\<rparr>) (notifications s)\<rparr>))"

section \<open>Recording\<close>

text \<open>
  The event key is the job; one notification per recipient, type and event.  \<open>nid\<close> and \<open>did\<close> are the
  identifiers drawn for the notification and for the delivery to an installation.
\<close>

definition notification_exists :: "db \<Rightarrow> eid \<Rightarrow> notification_type \<Rightarrow> string \<Rightarrow> bool" where
  "notification_exists s accountId ty key \<longleftrightarrow>
    list_ex (\<lambda>r. ntf_recipientAccountId r = accountId \<and> ntf_type r = ty \<and> ntf_eventKey r = key)
      (notifications s)"

definition new_notification :: "eid \<Rightarrow> instant \<Rightarrow> eid \<Rightarrow> eid \<Rightarrow> notification_type \<Rightarrow> notification_row" where
  "new_notification i now accountId jobId ty =
    \<lparr>ntf_id = i, ntf_recipientAccountId = accountId, ntf_type = ty, ntf_resourceId = jobId,
     ntf_eventKey = jobId, ntf_createdAt = now, ntf_readAt = None\<rparr>"

definition new_delivery :: "eid \<Rightarrow> instant \<Rightarrow> notification_row \<Rightarrow> installation_row \<Rightarrow> delivery_row" where
  "new_delivery i now r inst =
    \<lparr>dlv_id = i, dlv_notificationId = ntf_id r, dlv_installationId = inst_id inst,
     dlv_bindingVersion = inst_bindingVersion inst, dlv_status = PENDING_DELIVERY, dlv_attemptCount = 0,
     dlv_nextAttemptAt = now, dlv_expiresAt = ntf_createdAt r + 86400000, dlv_leaseToken = None,
     dlv_leaseUntil = None, dlv_acceptedAt = None, dlv_lastErrorCode = None\<rparr>"

definition live_installations :: "db \<Rightarrow> instant \<Rightarrow> eid \<Rightarrow> installation_row list" where
  "live_installations s now accountId =
    filter (\<lambda>r. inst_accountId r = accountId \<and> inst_enabled r \<and> now < inst_expiresAt r) (installations s)"

definition recordWaveformNotification ::
  "(eid \<Rightarrow> eid) \<Rightarrow> (eid \<Rightarrow> eid \<Rightarrow> eid) \<Rightarrow> instant \<Rightarrow> eid \<Rightarrow> eid \<Rightarrow> notification_type \<Rightarrow> db \<Rightarrow> db" where
  "recordWaveformNotification nid did now accountId jobId ty s =
    (if notification_exists s accountId ty jobId then s
     else (let r = new_notification (nid accountId) now accountId jobId ty in
       s\<lparr>notifications := notifications s @ [r],
         deliveries := deliveries s @
           map (\<lambda>inst. new_delivery (did accountId (inst_id inst)) now r inst)
             (live_installations s now accountId)\<rparr>))"

section \<open>Browser registrations\<close>

text \<open>The account and its MFA row, as \<open>lockConsoleAuthenticationFacts\<close> reads them.\<close>

definition admin_facts_current :: "db \<Rightarrow> eid \<Rightarrow> nat \<Rightarrow> bool" where
  "admin_facts_current s accountId mfaVersion \<longleftrightarrow>
    (case (lookup account_id accountId (accounts s), lookup mfa_accountId accountId (mfas s)) of
       (Some a, Some m) \<Rightarrow>
         account_status a = ACTIVE \<and> account_row.account_role a = ADMIN \<and> mfa_enabledAt m \<noteq> None \<and>
         mfa_version m = mfaVersion
     | _ \<Rightarrow> False)"

definition binding_current :: "eid \<Rightarrow> nat \<Rightarrow> instant \<Rightarrow> installation_row \<Rightarrow> bool" where
  "binding_current accountId mfaVersion now r \<longleftrightarrow>
    inst_accountId r = accountId \<and> inst_mfaVersion r = mfaVersion \<and> inst_enabled r \<and> now < inst_expiresAt r"

definition bind_set :: "eid \<Rightarrow> nat \<Rightarrow> instant \<Rightarrow> instant \<Rightarrow> installation_row \<Rightarrow> installation_row" where
  "bind_set accountId mfaVersion expiresAt now r =
    r\<lparr>inst_accountId := accountId, inst_mfaVersion := mfaVersion, inst_expiresAt := expiresAt,
      inst_enabled := True, inst_updatedAt := now,
      inst_bindingVersion := (if binding_current accountId mfaVersion now r
        then inst_bindingVersion r else inst_bindingVersion r + 1)\<rparr>"

definition bindPushInstallation ::
  "eid \<Rightarrow> db \<Rightarrow> string \<Rightarrow> eid \<Rightarrow> nat \<Rightarrow> instant \<Rightarrow> instant \<Rightarrow> eid \<times> db" where
  "bindPushInstallation newId s fid accountId mfaVersion expiresAt now =
    (case lookup inst_fid fid (installations s) of
       None \<Rightarrow> (newId, s\<lparr>installations := installations s @
         [\<lparr>inst_id = newId, inst_fid = fid, inst_accountId = accountId, inst_mfaVersion = mfaVersion,
           inst_bindingVersion = 1, inst_enabled = True, inst_updatedAt = now,
           inst_expiresAt = expiresAt\<rparr>]\<rparr>)
     | Some r \<Rightarrow> (inst_id r, s\<lparr>installations :=
         update_where (\<lambda>r. inst_fid r = fid) (bind_set accountId mfaVersion expiresAt now)
           (installations s)\<rparr>))"

record push_proof =
  pp_mfaVersion :: nat
  pp_expiresAt :: "instant option"

text \<open>\<open>pp_expiresAt\<close> is \<open>None\<close> when the text is not a date (\<open>NaN\<close>).\<close>

definition registerPushInstallation ::
  "eid \<Rightarrow> instant \<Rightarrow> request_context \<Rightarrow> string \<times> push_proof \<Rightarrow> db \<Rightarrow> (eid, db) use_case" where
  "registerPushInstallation newId now ctx arg = as_admin ctx (\<lambda>accountId s. (case arg of (fid, proof_of) \<Rightarrow>
    or_throw (pp_expiresAt proof_of) (AppError UNAUTHENTICATED) s (\<lambda>claimed.
    (let expiry = min claimed (now + 8 * 3600000) in
     throw_if (expiry \<le> now) (AppError UNAUTHENTICATED) s
       (transaction (\<lambda>s.
          throw_if (\<not> admin_facts_current s accountId (pp_mfaVersion proof_of)) (AppError UNAUTHENTICATED) s
            (case bindPushInstallation newId s fid accountId (pp_mfaVersion proof_of) expiry now of
               (i, s1) \<Rightarrow> (Inr i, s1))) s)))))"

definition disable_pred :: "eid \<Rightarrow> eid \<Rightarrow> installation_row \<Rightarrow> bool" where
  "disable_pred accountId i r \<longleftrightarrow> inst_accountId r = accountId \<and> inst_id r = i \<and> inst_enabled r"

definition disablePushInstallation :: "instant \<Rightarrow> db \<Rightarrow> eid \<Rightarrow> eid \<Rightarrow> db" where
  "disablePushInstallation now s accountId i =
    s\<lparr>installations := update_where (disable_pred accountId i)
      (\<lambda>r. r\<lparr>inst_enabled := False, inst_bindingVersion := inst_bindingVersion r + 1,
             inst_updatedAt := now\<rparr>) (installations s)\<rparr>"

definition unregisterPushInstallation :: "instant \<Rightarrow> request_context \<Rightarrow> eid \<Rightarrow> db \<Rightarrow> (unit, db) use_case" where
  "unregisterPushInstallation now ctx i = as_admin ctx (\<lambda>accountId s.
    (Inr (), disablePushInstallation now s accountId i))"

definition releasePushInstallation :: "instant \<Rightarrow> eid \<Rightarrow> eid \<Rightarrow> db \<Rightarrow> db" where
  "releasePushInstallation now accountId i s = disablePushInstallation now s accountId i"

section \<open>Delivery\<close>

definition delivery_due :: "instant \<Rightarrow> delivery_row \<Rightarrow> bool" where
  "delivery_due now d \<longleftrightarrow>
    dlv_status d = PENDING_DELIVERY \<and> dlv_nextAttemptAt d \<le> now \<and>
    (case dlv_leaseUntil d of None \<Rightarrow> True | Some u \<Rightarrow> u \<le> now)"

definition next_due :: "instant \<Rightarrow> delivery_row list \<Rightarrow> eid option" where
  "next_due now t =
    map_option dlv_id (first_row (sort_key (\<lambda>d. (dlv_nextAttemptAt d, dlv_id d)) (filter (delivery_due now) t)))"

definition lease_set :: "eid \<Rightarrow> instant \<Rightarrow> delivery_row \<Rightarrow> delivery_row" where
  "lease_set token now d =
    d\<lparr>dlv_leaseToken := Some token, dlv_leaseUntil := Some (now + 120000),
      dlv_attemptCount := dlv_attemptCount d + 1\<rparr>"

definition claimNotificationDelivery :: "db \<Rightarrow> eid \<Rightarrow> instant \<Rightarrow> delivery_row option \<times> db" where
  "claimNotificationDelivery s token now =
    (case next_due now (deliveries s) of
       None \<Rightarrow> (None, s)
     | Some i \<Rightarrow>
         (first_row (returning (\<lambda>d. dlv_id d = i) (lease_set token now) (deliveries s)),
          s\<lparr>deliveries := update_where (\<lambda>d. dlv_id d = i) (lease_set token now) (deliveries s)\<rparr>))"

record push_target =
  pt_fid :: string
  pt_notificationId :: eid
  pt_installationId :: eid
  pt_bindingVersion :: nat
  pt_expiresAt :: instant

definition delivery_target_ok ::
  "db \<Rightarrow> instant \<Rightarrow> eid \<Rightarrow> delivery_row \<Rightarrow> notification_row \<Rightarrow> installation_row \<Rightarrow> bool" where
  "delivery_target_ok s now token d r inst \<longleftrightarrow>
    dlv_leaseToken d = Some token \<and> dlv_status d = PENDING_DELIVERY \<and> now < dlv_expiresAt d \<and>
    ntf_id r = dlv_notificationId d \<and> inst_id inst = dlv_installationId d \<and>
    inst_bindingVersion inst = dlv_bindingVersion d \<and> inst_accountId inst = ntf_recipientAccountId r \<and>
    now < inst_expiresAt inst \<and> inst_enabled inst \<and>
    admin_facts_current s (inst_accountId inst) (inst_mfaVersion inst)"

definition findDeliveryTarget :: "db \<Rightarrow> eid \<Rightarrow> eid \<Rightarrow> instant \<Rightarrow> push_target option" where
  "findDeliveryTarget s i token now =
    (case lookup dlv_id i (deliveries s) of
       None \<Rightarrow> None
     | Some d \<Rightarrow>
         (case (lookup ntf_id (dlv_notificationId d) (notifications s),
                lookup inst_id (dlv_installationId d) (installations s)) of
            (Some r, Some inst) \<Rightarrow>
              (if delivery_target_ok s now token d r inst
               then Some \<lparr>pt_fid = inst_fid inst, pt_notificationId = ntf_id r,
                          pt_installationId = inst_id inst, pt_bindingVersion = inst_bindingVersion inst,
                          pt_expiresAt = dlv_expiresAt d\<rparr>
               else None)
          | _ \<Rightarrow> None))"

definition finish_pred :: "eid \<Rightarrow> eid \<Rightarrow> delivery_row \<Rightarrow> bool" where
  "finish_pred i token d \<longleftrightarrow> dlv_id d = i \<and> dlv_leaseToken d = Some token \<and> dlv_status d = PENDING_DELIVERY"

definition finishNotificationDelivery ::
  "db \<Rightarrow> eid \<Rightarrow> eid \<Rightarrow> (delivery_row \<Rightarrow> delivery_row) \<Rightarrow> db" where
  "finishNotificationDelivery s i token f =
    s\<lparr>deliveries := update_where (finish_pred i token)
      (\<lambda>d. (f d)\<lparr>dlv_leaseToken := None, dlv_leaseUntil := None\<rparr>) (deliveries s)\<rparr>"

definition discardPushRegistration :: "db \<Rightarrow> eid \<Rightarrow> nat \<Rightarrow> db" where
  "discardPushRegistration s i bindingVersion =
    s\<lparr>installations := update_where (\<lambda>r. inst_id r = i \<and> inst_bindingVersion r = bindingVersion)
      (\<lambda>r. r\<lparr>inst_enabled := False, inst_bindingVersion := inst_bindingVersion r + 1\<rparr>)
      (installations s)\<rparr>"

datatype push_error_code = UNREGISTERED | AUTHENTICATION | INVALID_MESSAGE | QUOTA | NETWORK | EXPIRED

text \<open>What \<open>send\<close> does: it resolves, or throws; other errors than its own count as NETWORK.\<close>

datatype send_result = Sent | SendFailed push_error_code jsnum

definition pushRetryDelay :: "nat \<Rightarrow> jsnum \<Rightarrow> jsnum \<Rightarrow> jsnum" where
  "pushRetryDelay attempt retryAfterMs random =
    max retryAfterMs
      (min 3600000 (10000 * 2 ^ min (attempt - 1) 9 * (3 / 4 + random * (1 / 2))))"

fun error_text :: "push_error_code \<Rightarrow> string" where
  "error_text UNREGISTERED = ''UNREGISTERED''"
| "error_text AUTHENTICATION = ''AUTHENTICATION''"
| "error_text INVALID_MESSAGE = ''INVALID_MESSAGE''"
| "error_text QUOTA = ''QUOTA''"
| "error_text NETWORK = ''NETWORK''"
| "error_text EXPIRED = ''EXPIRED''"

text \<open>One iteration: what was sent (if anything), and the state; \<open>None\<close> when nothing is due.\<close>

definition dispatch_one ::
  "(push_target \<Rightarrow> send_result) \<Rightarrow> eid \<Rightarrow> instant \<Rightarrow> jsnum \<Rightarrow> db \<Rightarrow> (push_target list \<times> db) option" where
  "dispatch_one send token now random s =
    (case claimNotificationDelivery s token now of
       (None, _) \<Rightarrow> None
     | (Some pending, s1) \<Rightarrow>
         (case findDeliveryTarget s1 (dlv_id pending) token now of
            None \<Rightarrow> Some ([], finishNotificationDelivery s1 (dlv_id pending) token
              (\<lambda>d. d\<lparr>dlv_status := DISCARDED, dlv_lastErrorCode := Some ''INELIGIBLE''\<rparr>))
          | Some target \<Rightarrow>
              (case send target of
                 Sent \<Rightarrow> Some ([target], finishNotificationDelivery s1 (dlv_id pending) token
                   (\<lambda>d. d\<lparr>dlv_status := ACCEPTED, dlv_acceptedAt := Some now, dlv_lastErrorCode := None\<rparr>))
               | SendFailed code retryAfterMs \<Rightarrow>
                   (let s2 = (if code = UNREGISTERED
                        then discardPushRegistration s1 (pt_installationId target) (pt_bindingVersion target)
                        else s1);
                        nextAt = of_int now + pushRetryDelay (dlv_attemptCount pending) retryAfterMs random;
                        permanent = code \<in> {UNREGISTERED, INVALID_MESSAGE, EXPIRED} \<or>
                          of_int (dlv_expiresAt pending) \<le> nextAt
                    in Some ([target], finishNotificationDelivery s2 (dlv_id pending) token
                         (\<lambda>d. d\<lparr>dlv_status := (if permanent then DISCARDED else PENDING_DELIVERY),
                                dlv_nextAttemptAt := \<lfloor>nextAt\<rfloor>,
                                dlv_lastErrorCode := Some (error_text code)\<rparr>))))))"

text \<open>The loop, with \<open>k\<close> iterations left; tokens, clock and random numbers are given per iteration.\<close>

fun dispatch_loop ::
  "nat \<Rightarrow> (push_target \<Rightarrow> send_result) \<Rightarrow> (nat \<Rightarrow> eid) \<Rightarrow> (nat \<Rightarrow> instant) \<Rightarrow> (nat \<Rightarrow> jsnum) \<Rightarrow> db \<Rightarrow>
    nat \<times> push_target list \<times> db" where
  "dispatch_loop 0 send token clock random s = (0, [], s)"
| "dispatch_loop (Suc k) send token clock random s =
    (case dispatch_one send (token k) (clock k) (random k) s of
       None \<Rightarrow> (0, [], s)
     | Some (sent, s1) \<Rightarrow>
         (case dispatch_loop k send token clock random s1 of
            (n, later, s2) \<Rightarrow> (n + 1, sent @ later, s2)))"

definition dispatchNotifications ::
  "(push_target \<Rightarrow> send_result) \<Rightarrow> (nat \<Rightarrow> eid) \<Rightarrow> (nat \<Rightarrow> instant) \<Rightarrow> (nat \<Rightarrow> jsnum) \<Rightarrow> db \<Rightarrow>
    nat \<times> push_target list \<times> db" where
  "dispatchNotifications = dispatch_loop 20"

section \<open>Contracts\<close>

interpretation list_notifications: atomic_use_case listNotifications
  unfolding listNotifications_def [abs_def] by (rule atomic_as_admin) (auto simp: Let_def split: prod.splits)

interpretation get_notification: atomic_use_case getNotification
  unfolding getNotification_def [abs_def]
  by (rule atomic_as_admin) (auto simp: or_throw_def split: option.splits)

interpretation notification_history: atomic_use_case listNotificationHistory
  unfolding listNotificationHistory_def [abs_def] by (rule atomic_as_admin) (simp add: Let_def)

interpretation read_notification: atomic_use_case "readNotification now" for now
  unfolding readNotification_def [abs_def]
  by (rule atomic_as_admin) (auto simp: or_throw_def Let_def returning_empty_update split: option.splits)

interpretation read_all: atomic_use_case "\<lambda>ctx (_ :: unit). readAllNotifications now ctx" for now
  unfolding readAllNotifications_def [abs_def] by (rule atomic_as_admin) simp

interpretation register_push: atomic_use_case "registerPushInstallation newId now" for newId now
  unfolding registerPushInstallation_def [abs_def]
  by (rule atomic_as_admin)
    (auto simp: Let_def split: prod.splits dest!: or_throw_Inl throw_if_Inl transaction_Inl)

interpretation unregister_push: atomic_use_case "unregisterPushInstallation now" for now
  unfolding unregisterPushInstallation_def [abs_def] by (rule atomic_as_admin) simp

section \<open>Paging\<close>

lemma filter_after_position:
  fixes f :: "'a \<Rightarrow> 'b::linorder"
  assumes "sorted_wrt (\<lambda>a b. f b < f a) xs" and "k < length xs"
  shows "filter (\<lambda>r. f r < f (xs ! k)) xs = drop (Suc k) xs"
proof -
  have "filter (\<lambda>r. f r < f (xs ! k)) (take (Suc k) xs) = []"
  proof (rule filter_False, rule ballI)
    fix x assume "x \<in> set (take (Suc k) xs)"
    then obtain i where "i < Suc k" and i: "x = xs ! i" by (auto simp: in_set_conv_nth)
    then have "i = k \<or> f (xs ! k) < f (xs ! i)"
      using assms sorted_wrt_nth_less [OF assms(1), of i k] by (auto simp: less_Suc_eq)
    with i show "\<not> f x < f (xs ! k)" by auto
  qed
  moreover have "filter (\<lambda>r. f r < f (xs ! k)) (drop (Suc k) xs) = drop (Suc k) xs"
  proof (rule filter_True, rule ballI)
    fix x assume "x \<in> set (drop (Suc k) xs)"
    then obtain i where "i < length (drop (Suc k) xs)" "x = drop (Suc k) xs ! i"
      unfolding in_set_conv_nth by blast
    then have "Suc k + i < length xs" "x = xs ! (Suc k + i)" by simp_all
    with sorted_wrt_nth_less [OF assms(1), of k "Suc k + i"] show "f x < f (xs ! k)" by simp
  qed
  ultimately show ?thesis by (metis append_take_drop_id filter_append self_append_conv2)
qed

lemma newest_first_strict:
  assumes "distinct (map ntf_id t)"
  shows "sorted_wrt (\<lambda>a b. ntf_key b < ntf_key a) (newest_first t)"
proof -
  have "inj_on ntf_key (set t)" and "distinct t"
    using assms by (auto simp: distinct_map inj_on_def ntf_key_def)
  then have "distinct (map ntf_key (sort_key ntf_key t))" by (simp add: distinct_map)
  moreover have "sorted (map ntf_key (sort_key ntf_key t))" by simp
  ultimately have "sorted_wrt (<) (map ntf_key (sort_key ntf_key t))"
    by (simp only: strict_sorted_iff)
  then show ?thesis by (simp add: newest_first_def sorted_wrt_rev sorted_wrt_map)
qed

lemma newest_first_filter: "newest_first (filter P t) = filter P (newest_first t)"
  unfolding newest_first_def rev_filter [symmetric] filter_sort ..

lemma set_newest_first [simp]: "set (newest_first t) = set t"
  by (simp add: newest_first_def)

lemma length_newest_first [simp]: "length (newest_first t) = length t"
  by (simp add: newest_first_def)

text \<open>A cursor stands for the position after the row it names.\<close>

definition cursor_at :: "notification_row list \<Rightarrow> nat \<Rightarrow> eid option \<Rightarrow> bool" where
  "cursor_at rows k cursor \<longleftrightarrow>
    (k = 0 \<and> cursor = None) \<or> (0 < k \<and> k \<le> length rows \<and> cursor = Some (ntf_id (rows ! (k - 1))))"

lemma findNotifications_page:
  assumes "distinct (map ntf_id (own_notifications s a))"
    and "cursor_at (newest_first (own_notifications s a)) k cursor"
  shows "findNotifications s a limit cursor = take (limit + 1) (drop k (newest_first (own_notifications s a)))"
  using assms(2) unfolding cursor_at_def
proof (elim disjE conjE)
  assume "k = 0" "cursor = None"
  then show ?thesis by (simp add: findNotifications_def before_cursor_def)
next
  let ?t = "own_notifications s a"
  let ?L = "newest_first ?t"
  assume k: "0 < k" "k \<le> length ?L" "cursor = Some (ntf_id (?L ! (k - 1)))"
  then have "?L ! (k - 1) \<in> set ?t" using nth_mem [of "k - 1" ?L] by simp
  then have "lookup ntf_id (ntf_id (?L ! (k - 1))) ?t = Some (?L ! (k - 1))"
    using assms(1) by (simp add: lookup_Some_iff)
  then have "before_cursor s a cursor = (\<lambda>r. ntf_key r < ntf_key (?L ! (k - 1)))"
    by (simp add: before_cursor_def k(3) fun_eq_iff)
  then have "newest_first (filter (before_cursor s a cursor) ?t) = drop k ?L"
    using filter_after_position [OF newest_first_strict [OF assms(1)], of "k - 1"] k(1,2)
    by (simp add: newest_first_filter)
  then show ?thesis by (simp add: findNotifications_def)
qed

text \<open>A client that follows the cursors, with at most \<open>n\<close> requests.\<close>

fun read_pages :: "nat \<Rightarrow> request_context \<Rightarrow> nat \<Rightarrow> eid option \<Rightarrow> db \<Rightarrow> notification_view list option" where
  "read_pages 0 ctx limit cursor s = None"
| "read_pages (Suc n) ctx limit cursor s =
    (case fst (listNotifications ctx (limit, cursor) s) of
       Inl _ \<Rightarrow> None
     | Inr p \<Rightarrow>
         (case np_nextCursor p of
            None \<Rightarrow> Some (np_items p)
          | Some c \<Rightarrow> map_option (\<lambda>vs. np_items p @ vs) (read_pages n ctx limit (Some c) s)))"

lemma read_pages_from:
  assumes ctx: "ctx_user ctx = Some a" "ctx_ability ctx Manage All" and limit: "0 < limit"
    and d: "distinct (map ntf_id (own_notifications s a))"
    and k: "cursor_at (newest_first (own_notifications s a)) k cursor"
    and n: "length (own_notifications s a) - k < n"
  shows "read_pages n ctx limit cursor s =
    Some (map notification_project (drop k (newest_first (own_notifications s a))))"
  using k n
proof (induction n arbitrary: k cursor)
  case 0
  then show ?case by simp
next
  case (Suc n)
  let ?L = "newest_first (own_notifications s a)"
  let ?rows = "take (limit + 1) (drop k ?L)"
  note rows = findNotifications_page [OF d Suc.prems(1), of limit]
  have list: "listNotifications ctx (limit, cursor) s =
      (Inr \<lparr>np_items = map notification_project (take limit ?rows),
            np_nextCursor = (if length ?rows > limit then Some (ntf_id (last (take limit ?rows))) else None),
            np_unreadCount = countUnreadNotifications s a\<rparr>, s)"
    using ctx by (simp add: listNotifications_def as_admin_admin rows Let_def)
  show ?case
  proof (cases "length ?rows > limit")
    case False
    then have "take limit (drop k ?L) = drop k ?L" by simp
    with False show ?thesis by (simp add: list min_def)
  next
    case True
    then have len: "k + limit < length ?L" by simp
    have "last (take limit ?rows) = ?L ! (k + limit - 1)"
      using len limit by (simp add: last_conv_nth min_def)
    then have "cursor_at ?L (k + limit) (Some (ntf_id (last (take limit ?rows))))"
      using len limit by (simp add: cursor_at_def)
    then have "read_pages n ctx limit (Some (ntf_id (last (take limit ?rows)))) s =
        Some (map notification_project (drop (k + limit) ?L))"
      using Suc.prems(2) limit len by (intro Suc.IH) simp_all
    moreover have "take limit ?rows @ drop (k + limit) ?L = drop k ?L"
      by (simp add: min_def) (metis add.commute append_take_drop_id drop_drop)
    then have "map notification_project (take limit ?rows) @ map notification_project (drop (k + limit) ?L) =
        map notification_project (drop k ?L)"
      by (metis map_append)
    ultimately show ?thesis using True by (simp add: list)
  qed
qed

text \<open>C39.
  Paging is complete and free of repetitions: a client that starts without a cursor and follows
  \<open>nextCursor\<close> until there is none gets, after finitely many requests, every notification of its
  account exactly once, newest first, whatever page size it uses.\<close>

theorem paging_complete:
  assumes "ctx_user ctx = Some a" and "ctx_ability ctx Manage All" and "0 < limit"
    and "distinct (map ntf_id (notifications s))"
  shows "read_pages (Suc (length (own_notifications s a))) ctx limit None s =
      Some (map notification_project (newest_first (own_notifications s a))) \<and>
    sorted_wrt (\<lambda>x y. ntf_key y < ntf_key x) (newest_first (own_notifications s a))"
proof -
  have d: "distinct (map ntf_id (own_notifications s a))"
    using assms(4) by (simp add: own_notifications_def distinct_map_filter)
  from read_pages_from [OF assms(1-3) d, of 0 None "Suc (length (own_notifications s a))"]
    newest_first_strict [OF d] show ?thesis by (simp add: cursor_at_def)
qed

definition demo_notification :: "eid \<Rightarrow> instant \<Rightarrow> notification_row" where
  "demo_notification i t = new_notification i t ''adm'' ''j1'' WAVEFORM_SUCCEEDED"

definition demo_inbox :: db where
  "demo_inbox = demo_db\<lparr>notifications :=
    [demo_notification ''n1'' 1, demo_notification ''n2'' 2, demo_notification ''n3'' 2]\<rparr>"

lemma demo_inbox_own: "own_notifications demo_inbox ''adm'' = notifications demo_inbox"
  by (simp add: own_notifications_def demo_inbox_def demo_notification_def new_notification_def)

lemma demo_inbox_distinct: "distinct (map ntf_id (notifications demo_inbox))"
  by (simp add: demo_inbox_def demo_notification_def new_notification_def)

theorem paging_complete_witness:
  "\<exists>vs. read_pages 4 admin_ctx 2 None demo_inbox = Some vs \<and> length vs = 3"
proof -
  have len: "length (own_notifications demo_inbox ''adm'') = 3"
    unfolding demo_inbox_own by (simp add: demo_inbox_def)
  have "read_pages (Suc 3) admin_ctx 2 None demo_inbox =
      Some (map notification_project (newest_first (own_notifications demo_inbox ''adm'')))"
    by (rule paging_complete [OF demo_ctx_user admin_ctx_ability _ demo_inbox_distinct, of 2,
          unfolded len, THEN conjunct1]) simp
  moreover have "Suc 3 = (4 :: nat)" by simp
  ultimately show ?thesis using len by (metis length_map length_newest_first)
qed

section \<open>Reading marks only one's own\<close>

lemma findNotification_lookup:
  assumes "distinct (map ntf_id t)"
  shows "find (\<lambda>r. ntf_id r = i \<and> ntf_recipientAccountId r = a) t =
    (case lookup ntf_id i t of None \<Rightarrow> None | Some r \<Rightarrow> if ntf_recipientAccountId r = a then Some r else None)"
  using assms
proof (induction t)
  case Nil
  then show ?case by simp
next
  case (Cons r t)
  then have "lookup ntf_id i t = None" if "ntf_id r = i" using that by (simp add: lookup_None_iff)
  with Cons show ?case by auto
qed

lemma readNotification_run:
  assumes "ctx_user ctx = Some a" and "ctx_ability ctx Manage All" and "distinct (map ntf_id (notifications s))"
  shows "readNotification now ctx i s =
    (case findNotification s a i of
       None \<Rightarrow> Inl (AppError NOTIFICATION_NOT_FOUND)
     | Some r \<Rightarrow> Inr (notification_project (read_set now r)),
     s\<lparr>notifications := update_where (read_pred a i) (read_set now) (notifications s)\<rparr>)"
proof -
  have "first_row (returning (read_pred a i) (read_set now) (notifications s)) =
      map_option (read_set now) (findNotification s a i)"
    using returning_key_lookup [OF assms(3), of i "\<lambda>r. ntf_recipientAccountId r = a" "read_set now"]
    by (simp add: read_pred_def [abs_def] conj_commute findNotification_def findNotification_lookup [OF assms(3)]
        split: option.split)
  with assms(1,2) show ?thesis
    by (simp add: readNotification_def as_admin_admin Let_def or_throw_def split: option.split)
qed

text \<open>
  Marking as read concerns only the caller's own notifications.  Marking one answers with it when it is
  the caller's - keeping the time of the first reading - and with \<open>NOTIFICATION_NOT_FOUND\<close> otherwise, and
  changes at most that row; marking all changes only rows of the caller and leaves none of them
  unread.\<close>

theorem read_marks_own:
  assumes "ctx_user ctx = Some a" and "ctx_ability ctx Manage All"
    and "distinct (map ntf_id (notifications s))"
  shows "fst (readNotification now ctx i s) = (case findNotification s a i of
        None \<Rightarrow> Inl (AppError NOTIFICATION_NOT_FOUND)
      | Some r \<Rightarrow> Inr (notification_project (r\<lparr>ntf_readAt := Some (coalesce (ntf_readAt r) now)\<rparr>))) \<and>
    (\<exists>f. notifications (snd (readNotification now ctx i s)) = map f (notifications s) \<and>
      (\<forall>r. f r = r \<or> ntf_recipientAccountId r = a \<and> ntf_id r = i)) \<and>
    (\<exists>f. notifications (snd (readAllNotifications now ctx s)) = map f (notifications s) \<and>
      (\<forall>r. f r = r \<or> ntf_recipientAccountId r = a \<and> ntf_readAt r = None)) \<and>
    countUnreadNotifications (snd (readAllNotifications now ctx s)) a = 0"
proof (intro conjI)
  note run = readNotification_run [OF assms]
  show "fst (readNotification now ctx i s) = (case findNotification s a i of
        None \<Rightarrow> Inl (AppError NOTIFICATION_NOT_FOUND)
      | Some r \<Rightarrow> Inr (notification_project (r\<lparr>ntf_readAt := Some (coalesce (ntf_readAt r) now)\<rparr>)))"
    by (simp add: run read_set_def split: option.split)
  show "\<exists>f. notifications (snd (readNotification now ctx i s)) = map f (notifications s) \<and>
      (\<forall>r. f r = r \<or> ntf_recipientAccountId r = a \<and> ntf_id r = i)"
    by (rule exI [of _ "\<lambda>r. if read_pred a i r then read_set now r else r"])
      (simp add: run update_where_def read_pred_def)
  show "\<exists>f. notifications (snd (readAllNotifications now ctx s)) = map f (notifications s) \<and>
      (\<forall>r. f r = r \<or> ntf_recipientAccountId r = a \<and> ntf_readAt r = None)"
    using assms(1,2)
    by (intro exI [of _ "\<lambda>r. if own_unread a r then r\<lparr>ntf_readAt := Some now\<rparr> else r"])
      (simp add: readAllNotifications_def as_admin_admin update_where_def own_unread_def)
  have "filter (\<lambda>r. ntf_readAt r = None) (filter (\<lambda>r. ntf_recipientAccountId r = a)
      (update_where (own_unread a) (\<lambda>r. r\<lparr>ntf_readAt := Some now\<rparr>) t)) = []" for t
    by (induction t) (auto simp: own_unread_def)
  then show "countUnreadNotifications (snd (readAllNotifications now ctx s)) a = 0"
    using assms(1,2)
    by (simp add: countUnreadNotifications_def readAllNotifications_def as_admin_admin own_notifications_def
        del: filter_filter)
qed

theorem read_marks_own_witness:
  "countUnreadNotifications (snd (readAllNotifications 9 admin_ctx demo_inbox)) ''adm'' = 0"
  using read_marks_own [OF demo_ctx_user admin_ctx_ability demo_inbox_distinct] by blast

section \<open>Recording is idempotent\<close>

text \<open>
  Recording the outcome of a job for an account is idempotent: the first time adds one unread
  notification and one pending delivery for each enabled, unexpired browser of that account, and no
  other; recording the same outcome again, at any later time, changes nothing.\<close>

theorem record_idempotent:
  fixes nid did now a j ty s
  defines "s' \<equiv> recordWaveformNotification nid did now a j ty s"
  shows "recordWaveformNotification nid' did' now' a j ty s' = s' \<and>
    (\<exists>ns ds. notifications s' = notifications s @ ns \<and> deliveries s' = deliveries s @ ds \<and>
      (if notification_exists s a ty j then ns = [] \<and> ds = []
       else \<exists>r. ns = [r] \<and> ntf_recipientAccountId r = a \<and> ntf_type r = ty \<and> ntf_resourceId r = j \<and>
         ntf_readAt r = None \<and>
         map dlv_installationId ds = map inst_id (live_installations s now a) \<and>
         (\<forall>d \<in> set ds. dlv_notificationId d = ntf_id r \<and> dlv_status d = PENDING_DELIVERY)))"
proof (cases "notification_exists s a ty j")
  case True
  then show ?thesis by (simp add: s'_def recordWaveformNotification_def)
next
  case False
  then have "notification_exists s' a ty j"
    by (simp add: s'_def recordWaveformNotification_def notification_exists_def new_notification_def Let_def)
  then have "recordWaveformNotification nid' did' now' a j ty s' = s'"
    by (simp add: recordWaveformNotification_def)
  with False show ?thesis
    by (auto simp: s'_def recordWaveformNotification_def Let_def comp_def new_delivery_def new_notification_def)
qed

theorem record_idempotent_witness:
  "recordWaveformNotification id (\<lambda>_ i. i) 9 ''usr'' ''j1'' WAVEFORM_FAILED
      (recordWaveformNotification id (\<lambda>_ i. i) 8 ''usr'' ''j1'' WAVEFORM_FAILED demo_inbox) =
    recordWaveformNotification id (\<lambda>_ i. i) 8 ''usr'' ''j1'' WAVEFORM_FAILED demo_inbox \<and>
    length (notifications (recordWaveformNotification id (\<lambda>_ i. i) 8 ''usr'' ''j1'' WAVEFORM_FAILED demo_inbox)) = 4"
proof -
  have "\<not> notification_exists demo_inbox ''usr'' WAVEFORM_FAILED ''j1''" "length (notifications demo_inbox) = 3"
    by (simp_all add: notification_exists_def demo_inbox_def demo_notification_def new_notification_def)
  then show ?thesis
    using record_idempotent [of id "\<lambda>_ i. i" 9 "''usr''" "''j1''" WAVEFORM_FAILED id "\<lambda>_ i. i" 8 demo_inbox]
    by auto
qed

section \<open>Delivery\<close>

lemma next_due_due:
  assumes "next_due now t = Some i"
  obtains d where "d \<in> set t" and "dlv_id d = i" and "delivery_due now d"
proof -
  let ?l = "sort_key (\<lambda>d. (dlv_nextAttemptAt d, dlv_id d)) (filter (delivery_due now) t)"
  from assms obtain d where d: "first_row ?l = Some d" "dlv_id d = i" by (auto simp: next_due_def)
  then have "d \<in> set ?l" by (cases ?l) auto
  with d(2) show ?thesis by (intro that) auto
qed

lemma next_due_None_iff: "next_due now t = None \<longleftrightarrow> filter (delivery_due now) t = []"
proof -
  have "sort_key f xs = [] \<longleftrightarrow> xs = []" for f :: "delivery_row \<Rightarrow> instant \<times> eid" and xs
    by (metis length_0_conv length_sort)
  then show ?thesis by (simp add: next_due_def)
qed

lemma lease_set_simps [simp]:
  "dlv_id (lease_set token now d) = dlv_id d" "dlv_status (lease_set token now d) = dlv_status d"
  "dlv_leaseToken (lease_set token now d) = Some token"
  "dlv_nextAttemptAt (lease_set token now d) = dlv_nextAttemptAt d"
  "dlv_expiresAt (lease_set token now d) = dlv_expiresAt d"
  by (simp_all add: lease_set_def)

lemma claim_delivery_SomeE:
  assumes "claimNotificationDelivery s token now = (Some p, s1)" and "distinct (map dlv_id (deliveries s))"
  obtains d where "d \<in> set (deliveries s)" and "delivery_due now d" and "p = lease_set token now d"
    and "s1 = s\<lparr>deliveries := update_where (\<lambda>x. dlv_id x = dlv_id d) (lease_set token now) (deliveries s)\<rparr>"
proof -
  from assms(1) obtain i where i: "next_due now (deliveries s) = Some i"
    "first_row (returning (\<lambda>d. dlv_id d = i) (lease_set token now) (deliveries s)) = Some p"
    "s1 = s\<lparr>deliveries := update_where (\<lambda>d. dlv_id d = i) (lease_set token now) (deliveries s)\<rparr>"
    by (auto simp: claimNotificationDelivery_def split: option.splits)
  from i(1) obtain d where d: "d \<in> set (deliveries s)" "dlv_id d = i" "delivery_due now d"
    by (rule next_due_due)
  from first_row_returning_Some [OF i(2)] obtain d' where
    "d' \<in> set (deliveries s)" "dlv_id d' = i" "p = lease_set token now d'" by blast
  moreover from this d assms(2) have "d' = d" by (auto simp: distinct_map dest: inj_onD)
  ultimately show ?thesis using d i(3) by (intro that [of d]) auto
qed

text \<open>C33.
  A lease is exclusive: while a delivery is leased, no other dispatcher can claim, change or finish it,
  whatever the other deliveries; and a delivery that was accepted or discarded is never claimed again,
  whatever the time.\<close>

theorem lease_exclusive:
  assumes "distinct (map dlv_id (deliveries s))" and "d \<in> set (deliveries s)"
    and "dlv_status d \<noteq> PENDING_DELIVERY \<or> (\<exists>u. dlv_leaseUntil d = Some u \<and> now < u)"
  shows "d \<in> set (deliveries (snd (claimNotificationDelivery s token now))) \<and>
    (\<forall>p. fst (claimNotificationDelivery s token now) = Some p \<longrightarrow> dlv_id p \<noteq> dlv_id d) \<and>
    (dlv_status d \<noteq> PENDING_DELIVERY \<or> dlv_leaseToken d \<noteq> Some token \<longrightarrow>
      d \<in> set (deliveries (finishNotificationDelivery s (dlv_id d) token f)))"
proof -
  have "\<not> delivery_due now d" using assms(3) by (auto simp: delivery_due_def split: option.splits)
  then have other: "dlv_id x \<noteq> dlv_id d" if "x \<in> set (deliveries s)" "delivery_due now x" for x
    using that assms(1,2) by (auto simp: distinct_map dest: inj_onD)
  obtain p s1 where run: "claimNotificationDelivery s token now = (p, s1)" by fastforce
  have "d \<in> set (deliveries s1) \<and> (\<forall>q. p = Some q \<longrightarrow> dlv_id q \<noteq> dlv_id d)"
  proof (cases p)
    case None
    with run have "s1 = s \<or> next_due now (deliveries s) \<noteq> None"
      by (auto simp: claimNotificationDelivery_def split: option.splits)
    moreover have "s1 = s" if "next_due now (deliveries s) = Some i" for i
    proof -
      from run None that have "returning (\<lambda>d. dlv_id d = i) (lease_set token now) (deliveries s) = []"
        and "s1 = s\<lparr>deliveries := update_where (\<lambda>d. dlv_id d = i) (lease_set token now) (deliveries s)\<rparr>"
        by (auto simp: claimNotificationDelivery_def)
      then show ?thesis by (simp add: returning_empty_update)
    qed
    ultimately show ?thesis using assms(2) None by (cases "next_due now (deliveries s)") auto
  next
    case (Some q)
    from claim_delivery_SomeE [OF run [unfolded Some] assms(1)] obtain x where
      "x \<in> set (deliveries s)" "delivery_due now x" "q = lease_set token now x"
      "s1 = s\<lparr>deliveries := update_where (\<lambda>y. dlv_id y = dlv_id x) (lease_set token now) (deliveries s)\<rparr>"
      by metis
    with other assms(2) Some show ?thesis by (force simp: set_update_where)
  qed
  moreover have "d \<in> set (deliveries (finishNotificationDelivery s (dlv_id d) token f))"
    if "dlv_status d \<noteq> PENDING_DELIVERY \<or> dlv_leaseToken d \<noteq> Some token"
  proof -
    have "\<not> finish_pred (dlv_id d) token d" using that by (auto simp: finish_pred_def)
    then show ?thesis
      using assms(2) by (force simp: finishNotificationDelivery_def set_update_where)
  qed
  ultimately show ?thesis by (simp add: run)
qed

definition demo_delivery :: "eid \<Rightarrow> delivery_row" where
  "demo_delivery i = \<lparr>dlv_id = i, dlv_notificationId = ''n1'', dlv_installationId = ''in1'',
    dlv_bindingVersion = 1, dlv_status = PENDING_DELIVERY, dlv_attemptCount = 0, dlv_nextAttemptAt = 0,
    dlv_expiresAt = 1000, dlv_leaseToken = None, dlv_leaseUntil = None, dlv_acceptedAt = None,
    dlv_lastErrorCode = None\<rparr>"

definition demo_leased :: db where
  "demo_leased = demo_inbox\<lparr>deliveries := [lease_set ''t1'' 5 (demo_delivery ''d1''), demo_delivery ''d2'']\<rparr>"

theorem lease_exclusive_witness:
  "lease_set ''t1'' 5 (demo_delivery ''d1'') \<in> set (deliveries (snd (claimNotificationDelivery demo_leased ''t2'' 6))) \<and>
    fst (claimNotificationDelivery demo_leased ''t2'' 6) \<noteq> Some (lease_set ''t2'' 6 (demo_delivery ''d1''))"
  using lease_exclusive [of demo_leased "lease_set ''t1'' 5 (demo_delivery ''d1'')" 6 "''t2''"]
  by (auto simp: demo_leased_def demo_delivery_def lease_set_def)

lemma finish_frames [simp]:
  "installations (finishNotificationDelivery s i token f) = installations s"
  "accounts (finishNotificationDelivery s i token f) = accounts s"
  "mfas (finishNotificationDelivery s i token f) = mfas s"
  by (simp_all add: finishNotificationDelivery_def)

section \<open>One delivery at a time\<close>

text \<open>
  What one round of the dispatcher comes to, without tokens and leases: the target of a delivery, when
  there is one, the row the round leaves behind, and the registrations.\<close>

definition delivery_target :: "db \<Rightarrow> instant \<Rightarrow> delivery_row \<Rightarrow> push_target option" where
  "delivery_target s now d =
    (case (lookup ntf_id (dlv_notificationId d) (notifications s), lookup inst_id (dlv_installationId d) (installations s)) of
       (Some r, Some inst) \<Rightarrow>
         if now < dlv_expiresAt d \<and> inst_bindingVersion inst = dlv_bindingVersion d \<and>
           inst_accountId inst = ntf_recipientAccountId r \<and> inst_enabled inst \<and> now < inst_expiresAt inst \<and>
           admin_facts_current s (inst_accountId inst) (inst_mfaVersion inst)
         then Some \<lparr>pt_fid = inst_fid inst, pt_notificationId = dlv_notificationId d,
           pt_installationId = dlv_installationId d, pt_bindingVersion = dlv_bindingVersion d, pt_expiresAt = dlv_expiresAt d\<rparr>
         else None
     | _ \<Rightarrow> None)"

definition delivery_outcome ::
  "(push_target \<Rightarrow> send_result) \<Rightarrow> instant \<Rightarrow> jsnum \<Rightarrow> db \<Rightarrow> delivery_row \<Rightarrow> delivery_row" where
  "delivery_outcome send now random s d =
    (let e = d\<lparr>dlv_attemptCount := dlv_attemptCount d + 1\<rparr> in
     (case delivery_target s now d of
       None \<Rightarrow> e\<lparr>dlv_status := DISCARDED, dlv_lastErrorCode := Some ''INELIGIBLE''\<rparr>
     | Some t \<Rightarrow>
         (case send t of
            Sent \<Rightarrow> e\<lparr>dlv_status := ACCEPTED, dlv_acceptedAt := Some now, dlv_lastErrorCode := None\<rparr>
          | SendFailed code retryAfterMs \<Rightarrow>
              (let nextAt = of_int now + pushRetryDelay (dlv_attemptCount e) retryAfterMs random in
               e\<lparr>dlv_status := (if code \<in> {UNREGISTERED, INVALID_MESSAGE, EXPIRED} \<or> of_int (dlv_expiresAt d) \<le> nextAt
                   then DISCARDED else PENDING_DELIVERY),
                 dlv_nextAttemptAt := \<lfloor>nextAt\<rfloor>, dlv_lastErrorCode := Some (error_text code)\<rparr>)))
      \<lparr>dlv_leaseToken := None, dlv_leaseUntil := None\<rparr>)"

definition registrations_after ::
  "(push_target \<Rightarrow> send_result) \<Rightarrow> instant \<Rightarrow> db \<Rightarrow> delivery_row \<Rightarrow> installation_row list" where
  "registrations_after send now s d =
    (case delivery_target s now d of
       None \<Rightarrow> installations s
     | Some t \<Rightarrow>
         (case send t of
            SendFailed UNREGISTERED _ \<Rightarrow> installations (discardPushRegistration s (pt_installationId t) (pt_bindingVersion t))
          | _ \<Rightarrow> installations s))"

text \<open>The queue: the due deliveries in the order in which they are claimed.\<close>

definition due_list :: "db \<Rightarrow> instant \<Rightarrow> delivery_row list" where
  "due_list s now = sort_key (\<lambda>d. (dlv_nextAttemptAt d, dlv_id d)) (filter (delivery_due now) (deliveries s))"

lemma next_due_list: "next_due now (deliveries s) = map_option dlv_id (first_row (due_list s now))"
  by (simp add: next_due_def due_list_def)

lemma due_listD: "d \<in> set (due_list s now) \<Longrightarrow> d \<in> set (deliveries s) \<and> delivery_due now d"
  by (simp add: due_list_def)

lemma outcome_keys [simp]:
  "dlv_id (delivery_outcome send now random s d) = dlv_id d"
  "dlv_notificationId (delivery_outcome send now random s d) = dlv_notificationId d"
  "dlv_installationId (delivery_outcome send now random s d) = dlv_installationId d"
  "dlv_bindingVersion (delivery_outcome send now random s d) = dlv_bindingVersion d"
  "dlv_expiresAt (delivery_outcome send now random s d) = dlv_expiresAt d"
  by (simp_all add: delivery_outcome_def Let_def split: option.split send_result.split)

lemma finish_after_lease:
  "update_where (finish_pred i token) g (update_where (\<lambda>x. dlv_id x = i) (lease_set token now) t) =
    update_where (\<lambda>x. dlv_id x = i)
      (\<lambda>x. if dlv_status x = PENDING_DELIVERY then g (lease_set token now x) else lease_set token now x)
      (update_where (\<lambda>x. dlv_id x \<noteq> i \<and> finish_pred i token x) g t)"
  by (induction t) (auto simp: finish_pred_def)

lemma finish_pred_id: "update_where (\<lambda>x. dlv_id x \<noteq> i \<and> finish_pred i token x) g t = t"
  by (rule update_where_none) (simp add: finish_pred_def)

lemma update_where_row:
  assumes "distinct (map key t)" and "d \<in> set t" and "f d = v"
  shows "update_where (\<lambda>x. key x = key d) f t = update_where (\<lambda>x. key x = key d) (\<lambda>_. v) t"
  unfolding update_where_def using assms by (intro map_cong) (auto simp: distinct_map dest: inj_onD)

lemma returning_row:
  assumes "distinct (map key t)" and "d \<in> set t"
  shows "first_row (returning (\<lambda>x. key x = key d) f t) = Some (f d)"
  using returning_key_lookup [OF assms(1), of "key d" "\<lambda>_. True" f] lookup_Some_iff [OF assms(1), of "key d" d] assms(2)
  by simp

lemma target_of_lease:
  assumes "distinct (map dlv_id (deliveries s))" and "d \<in> set (deliveries s)" and "delivery_due now d"
  shows "findDeliveryTarget
      (s\<lparr>deliveries := update_where (\<lambda>x. dlv_id x = dlv_id d) (lease_set token now) (deliveries s)\<rparr>) (dlv_id d) token now =
    delivery_target s now d"
proof -
  have "lookup dlv_id (dlv_id d) (deliveries s) = Some d" using assms by (simp add: lookup_Some_iff)
  then have "lookup dlv_id (dlv_id d) (update_where (\<lambda>x. dlv_id x = dlv_id d) (lease_set token now) (deliveries s)) =
      Some (lease_set token now d)"
    by (subst lookup_update_key) (simp_all add: lease_set_def)
  moreover have "dlv_status d = PENDING_DELIVERY" using assms(3) by (simp add: delivery_due_def)
  moreover have "ntf_id r = dlv_notificationId d" if "lookup ntf_id (dlv_notificationId d) (notifications s) = Some r" for r
    using lookup_SomeD [OF that] by simp
  moreover have "inst_id r = dlv_installationId d" if "lookup inst_id (dlv_installationId d) (installations s) = Some r" for r
    using lookup_SomeD [OF that] by simp
  moreover have "admin_facts_current (s\<lparr>deliveries := x\<rparr>) i v = admin_facts_current s i v" for x i v
    by (simp add: admin_facts_current_def)
  ultimately show ?thesis
    by (cases "lookup ntf_id (dlv_notificationId d) (notifications s)";
        cases "lookup inst_id (dlv_installationId d) (installations s)")
      (auto simp: findDeliveryTarget_def delivery_target_def delivery_target_ok_def lease_set_def)
qed

text \<open>One round handles the first delivery of the queue, and only it.\<close>

lemma dispatch_one_exact:
  assumes d: "distinct (map dlv_id (deliveries s))" and due: "due_list s now = d # rest"
  shows "dispatch_one send token now random s = Some (case delivery_target s now d of None \<Rightarrow> [] | Some t \<Rightarrow> [t],
    s\<lparr>deliveries := update_where (\<lambda>x. dlv_id x = dlv_id d) (\<lambda>_. delivery_outcome send now random s d) (deliveries s),
      installations := registrations_after send now s d\<rparr>)"
proof -
  have mem: "d \<in> set (deliveries s)" "delivery_due now d" using due_listD [of d s now] due by simp_all
  let ?s1 = "s\<lparr>deliveries := update_where (\<lambda>x. dlv_id x = dlv_id d) (lease_set token now) (deliveries s)\<rparr>"
  have claim: "claimNotificationDelivery s token now = (Some (lease_set token now d), ?s1)"
    using returning_row [OF d mem(1)] due by (simp add: claimNotificationDelivery_def next_due_list)
  have id: "dlv_id (lease_set token now d) = dlv_id d" by (simp add: lease_set_def)
  have count: "dlv_attemptCount (lease_set token now d) = dlv_attemptCount d + 1"
    "dlv_expiresAt (lease_set token now d) = dlv_expiresAt d" by (simp_all add: lease_set_def)
  have pending: "dlv_status d = PENDING_DELIVERY" using mem(2) by (simp add: delivery_due_def)
  have fin: "update_where (finish_pred (dlv_id d) token) g (deliveries ?s1) =
      update_where (\<lambda>x. dlv_id x = dlv_id d) (\<lambda>_. g (lease_set token now d)) (deliveries s)" for g
  proof -
    have "update_where (\<lambda>x. dlv_id x = dlv_id d)
        (\<lambda>x. if dlv_status x = PENDING_DELIVERY then g (lease_set token now x) else lease_set token now x) (deliveries s) =
      update_where (\<lambda>x. dlv_id x = dlv_id d) (\<lambda>_. g (lease_set token now d)) (deliveries s)"
      using pending by (intro update_where_row [OF d mem(1)]) simp
    then show ?thesis by (simp add: finish_after_lease finish_pred_id)
  qed
  note target = target_of_lease [OF d mem, of token]
  show ?thesis
  proof (cases "delivery_target s now d")
    case None
    then show ?thesis
      using fin by (simp add: dispatch_one_def claim id target finishNotificationDelivery_def delivery_outcome_def
          registrations_after_def lease_set_def)
  next
    case (Some t)
    show ?thesis
    proof (cases "send t")
      case Sent
      then show ?thesis
        using fin Some by (simp add: dispatch_one_def claim id target finishNotificationDelivery_def delivery_outcome_def
            registrations_after_def lease_set_def)
    next
      case (SendFailed code after)
      have frame: "deliveries (discardPushRegistration ?s1 i v) = deliveries ?s1"
        "installations (discardPushRegistration ?s1 i v) = installations (discardPushRegistration s i v)" for i v
        by (simp_all add: discardPushRegistration_def)
      show ?thesis
        using SendFailed fin Some
        by (cases code) (simp_all add: dispatch_one_def claim id target finishNotificationDelivery_def delivery_outcome_def
            registrations_after_def Let_def count discardPushRegistration_def, simp_all add: lease_set_def)
    qed
  qed
qed

lemma dispatch_one_idle: "due_list s now = [] \<Longrightarrow> dispatch_one send token now random s = None"
  by (simp add: dispatch_one_def claimNotificationDelivery_def next_due_list)

section \<open>Who is sent to\<close>

text \<open>
  What a run may have changed: deliveries keep what they say and are not revived, registrations are at most
  taken away.\<close>

definition later_state :: "db \<Rightarrow> db \<Rightarrow> bool" where
  "later_state s u \<longleftrightarrow> accounts u = accounts s \<and> mfas u = mfas s \<and> notifications u = notifications s \<and>
    map dlv_id (deliveries u) = map dlv_id (deliveries s) \<and>
    (\<forall>r \<in> set (installations u). inst_enabled r \<longrightarrow> r \<in> set (installations s)) \<and>
    (\<forall>d \<in> set (deliveries u). \<exists>e \<in> set (deliveries s). dlv_notificationId d = dlv_notificationId e \<and>
      dlv_installationId d = dlv_installationId e \<and> dlv_bindingVersion d = dlv_bindingVersion e \<and>
      dlv_expiresAt d = dlv_expiresAt e \<and> (dlv_status d = PENDING_DELIVERY \<longrightarrow> dlv_status e = PENDING_DELIVERY))"

definition eligible_target :: "db \<Rightarrow> instant set \<Rightarrow> push_target \<Rightarrow> bool" where
  "eligible_target s moments t \<longleftrightarrow>
    (\<exists>d \<in> set (deliveries s). \<exists>r \<in> set (notifications s). \<exists>inst \<in> set (installations s). \<exists>now \<in> moments.
      \<exists>a \<in> set (accounts s). \<exists>m \<in> set (mfas s).
      dlv_status d = PENDING_DELIVERY \<and> now < dlv_expiresAt d \<and>
      dlv_notificationId d = ntf_id r \<and> dlv_installationId d = inst_id inst \<and>
      dlv_bindingVersion d = inst_bindingVersion inst \<and> ntf_recipientAccountId r = inst_accountId inst \<and>
      inst_enabled inst \<and> now < inst_expiresAt inst \<and>
      account_id a = ntf_recipientAccountId r \<and> account_row.account_role a = ADMIN \<and> account_row.account_status a = ACTIVE \<and>
      mfa_accountId m = ntf_recipientAccountId r \<and> mfa_enabledAt m \<noteq> None \<and> mfa_version m = inst_mfaVersion inst \<and>
      t = \<lparr>pt_fid = inst_fid inst, pt_notificationId = ntf_id r, pt_installationId = inst_id inst,
        pt_bindingVersion = inst_bindingVersion inst, pt_expiresAt = dlv_expiresAt d\<rparr>)"

lemma later_refl [simp]: "later_state s s"
  by (auto simp: later_state_def)

lemma later_trans: "later_state s t \<Longrightarrow> later_state t u \<Longrightarrow> later_state s u"
  unfolding later_state_def by (intro conjI; metis)

lemma target_eligible:
  assumes "delivery_target s now d = Some t" and "d \<in> set (deliveries s)" and "delivery_due now d"
  shows "eligible_target s {now} t"
proof -
  from assms(1) obtain r inst where *: "lookup ntf_id (dlv_notificationId d) (notifications s) = Some r"
    "lookup inst_id (dlv_installationId d) (installations s) = Some inst" "now < dlv_expiresAt d"
    "inst_bindingVersion inst = dlv_bindingVersion d" "inst_accountId inst = ntf_recipientAccountId r" "inst_enabled inst"
    "now < inst_expiresAt inst" "admin_facts_current s (inst_accountId inst) (inst_mfaVersion inst)"
    "t = \<lparr>pt_fid = inst_fid inst, pt_notificationId = dlv_notificationId d, pt_installationId = dlv_installationId d,
      pt_bindingVersion = dlv_bindingVersion d, pt_expiresAt = dlv_expiresAt d\<rparr>"
    by (auto simp: delivery_target_def split: option.splits if_splits)
  from *(8) obtain a m where "lookup account_id (inst_accountId inst) (accounts s) = Some a"
    "lookup mfa_accountId (inst_accountId inst) (mfas s) = Some m" and facts: "account_row.account_role a = ADMIN"
    "account_row.account_status a = ACTIVE" "mfa_enabledAt m \<noteq> None" "mfa_version m = inst_mfaVersion inst"
    by (auto simp: admin_facts_current_def split: option.splits)
  note rows = lookup_SomeD [OF *(1)] lookup_SomeD [OF *(2)] lookup_SomeD [OF this(1)] lookup_SomeD [OF this(2)]
  show ?thesis
    unfolding eligible_target_def
    by (intro bexI [of _ d] bexI [of _ r] bexI [of _ inst] bexI [of _ now] bexI [of _ a] bexI [of _ m] conjI)
      (use rows * facts assms(2,3) in \<open>simp_all add: delivery_due_def\<close>)
qed

lemma eligible_earlier:
  assumes "later_state s u" and "eligible_target u T t" and "T \<subseteq> T'"
  shows "eligible_target s T' t"
proof -
  from assms(2) obtain d r inst now a m where *: "d \<in> set (deliveries u)" "r \<in> set (notifications u)"
    "inst \<in> set (installations u)" "now \<in> T" "a \<in> set (accounts u)" "m \<in> set (mfas u)" and
    st: "dlv_status d = PENDING_DELIVERY" and
    p: "now < dlv_expiresAt d" "dlv_notificationId d = ntf_id r" "dlv_installationId d = inst_id inst"
      "dlv_bindingVersion d = inst_bindingVersion inst" "ntf_recipientAccountId r = inst_accountId inst"
      "inst_enabled inst" "now < inst_expiresAt inst" "account_id a = ntf_recipientAccountId r"
      "account_row.account_role a = ADMIN" "account_row.account_status a = ACTIVE" "mfa_accountId m = ntf_recipientAccountId r"
      "mfa_enabledAt m \<noteq> None" "mfa_version m = inst_mfaVersion inst"
      "t = \<lparr>pt_fid = inst_fid inst, pt_notificationId = ntf_id r, pt_installationId = inst_id inst,
        pt_bindingVersion = inst_bindingVersion inst, pt_expiresAt = dlv_expiresAt d\<rparr>"
    unfolding eligible_target_def by blast
  from assms(1) *(1) st obtain e where e: "e \<in> set (deliveries s)" "dlv_notificationId d = dlv_notificationId e"
    "dlv_installationId d = dlv_installationId e" "dlv_bindingVersion d = dlv_bindingVersion e"
    "dlv_expiresAt d = dlv_expiresAt e" "dlv_status e = PENDING_DELIVERY"
    unfolding later_state_def by metis
  show ?thesis
    unfolding eligible_target_def
    by (intro bexI [of _ e] bexI [of _ r] bexI [of _ inst] bexI [of _ now] bexI [of _ a] bexI [of _ m] conjI)
      (use * p e assms(1,3) in \<open>auto simp: later_state_def\<close>)
qed

lemma registrations_subset:
  "r \<in> set (registrations_after send now s d) \<Longrightarrow> inst_enabled r \<Longrightarrow> r \<in> set (installations s)"
  by (auto simp: registrations_after_def discardPushRegistration_def set_update_where
      split: option.splits send_result.splits push_error_code.splits if_splits)

lemma round_later:
  assumes "d \<in> set (deliveries s)" and "delivery_due now d"
  shows "later_state s (s\<lparr>deliveries := update_where (\<lambda>x. dlv_id x = dlv_id d) (\<lambda>_. delivery_outcome send now random s d) (deliveries s),
    installations := registrations_after send now s d\<rparr>)" (is "later_state s ?u")
proof -
  have "map dlv_id (deliveries ?u) = map dlv_id (deliveries s)"
    by (simp add: update_where_def)
  moreover have "\<exists>e \<in> set (deliveries s). dlv_notificationId x = dlv_notificationId e \<and>
      dlv_installationId x = dlv_installationId e \<and> dlv_bindingVersion x = dlv_bindingVersion e \<and>
      dlv_expiresAt x = dlv_expiresAt e \<and> (dlv_status x = PENDING_DELIVERY \<longrightarrow> dlv_status e = PENDING_DELIVERY)"
    if "x \<in> set (deliveries ?u)" for x
  proof (cases "x \<in> set (deliveries s)")
    case False
    with that have "x = delivery_outcome send now random s d" by (auto simp: set_update_where split: if_splits)
    with assms show ?thesis by (intro bexI [of _ d]) (simp_all add: delivery_due_def)
  qed blast
  ultimately show ?thesis
    using registrations_subset [of _ send now s d] by (simp add: later_state_def)
qed

lemma dispatch_loop_eligible:
  assumes "dispatch_loop k send token clock random s = (n, sent, s')" and "distinct (map dlv_id (deliveries s))"
  shows "n \<le> k \<and> length sent \<le> n \<and> later_state s s' \<and> (\<forall>t \<in> set sent. eligible_target s (clock ` {..<k}) t)"
  using assms
proof (induction k arbitrary: s n sent s')
  case (Suc k)
  show ?case
  proof (cases "due_list s (clock k)")
    case Nil
    with Suc.prems show ?thesis by (simp add: dispatch_one_idle)
  next
    case (Cons d rest)
    then have d: "d \<in> set (deliveries s)" "delivery_due (clock k) d" using due_listD [of d s "clock k"] by simp_all
    define u where "u = s\<lparr>deliveries := update_where (\<lambda>x. dlv_id x = dlv_id d)
        (\<lambda>_. delivery_outcome send (clock k) (random k) s d) (deliveries s),
      installations := registrations_after send (clock k) s d\<rparr>"
    have u: "later_state s u" unfolding u_def by (rule round_later [OF d])
    obtain m later s2 where l: "dispatch_loop k send token clock random u = (m, later, s2)"
      by (metis prod_cases3)
    let ?one = "case delivery_target s (clock k) d of None \<Rightarrow> [] | Some t \<Rightarrow> [t]"
    have out: "n = Suc m" "sent = ?one @ later" "s' = s2"
      using Suc.prems(1) l by (simp_all add: dispatch_one_exact [OF Suc.prems(2) Cons] u_def)
    have "distinct (map dlv_id (deliveries u))" using u Suc.prems(2) by (simp add: later_state_def)
    note IH = Suc.IH [OF l this]
    have "eligible_target s (clock ` {..<Suc k}) t" if "t \<in> set ?one" for t
    proof -
      from that have "delivery_target s (clock k) d = Some t" by (auto split: option.splits)
      from target_eligible [OF this d] show ?thesis by (rule eligible_earlier [OF later_refl]) auto
    qed
    moreover have "eligible_target s (clock ` {..<Suc k}) t" if "t \<in> set later" for t
    proof -
      from that IH have "eligible_target u (clock ` {..<k}) t" by blast
      then show ?thesis by (rule eligible_earlier [OF u]) (simp add: image_mono)
    qed
    moreover have "length ?one \<le> 1" by (simp split: option.split)
    ultimately have "\<forall>t \<in> set sent. eligible_target s (clock ` {..<Suc k}) t" "length sent \<le> n"
      using IH unfolding out set_append length_append by (blast, linarith)
    moreover have "n \<le> Suc k" "later_state s s'"
      using IH later_trans [OF u] by (simp_all add: out)
    ultimately show ?thesis by blast
  qed
qed simp


definition demo_installation :: "eid \<Rightarrow> bool \<Rightarrow> installation_row" where
  "demo_installation i on = \<lparr>inst_id = i, inst_fid = ''fid-of-a-browser'', inst_accountId = ''adm'', inst_mfaVersion = 3,
    inst_bindingVersion = 1, inst_enabled = on, inst_updatedAt = 0, inst_expiresAt = 1000\<rparr>"

definition demo_push :: db where
  "demo_push = demo_leased\<lparr>
    mfas := [\<lparr>mfa_accountId = ''adm'', mfa_encryptedSecret = Some ''e'', mfa_enabledAt = Some 1, mfa_lastUsedStep = None,
      mfa_version = 3\<rparr>],
    installations := [demo_installation ''i1'' True, demo_installation ''i2'' False]\<rparr>"

lemma demo_push_distinct: "distinct (map dlv_id (deliveries demo_push))"
  by (simp add: demo_push_def demo_leased_def demo_delivery_def lease_set_def)


text \<open>
  The retry delay is bounded: for any random number in [0, 1) it is at least 7.5 seconds and at least
  what the service asked for, and at most an hour or what the service asked for; without such a request
  it stays below ten seconds doubled with every attempt, nine times at most, and a quarter more.\<close>

theorem retry_delay_bounds:
  assumes "0 \<le> random" and "random < 1"
  shows "7500 \<le> pushRetryDelay attempt retryAfter random \<and> retryAfter \<le> pushRetryDelay attempt retryAfter random \<and>
    pushRetryDelay attempt retryAfter random \<le> max retryAfter 3600000 \<and>
    pushRetryDelay attempt 0 random \<le> 10000 * 2 ^ min (attempt - 1) 9 * (5 / 4)"
proof -
  define x where "x = 10000 * 2 ^ min (attempt - 1) 9 * (3 / 4 + random * (1 / 2))"
  have one: "(1 :: rat) \<le> 2 ^ min (attempt - 1) 9" by simp
  have f: "3 / 4 \<le> 3 / 4 + random * (1 / 2)" "3 / 4 + random * (1 / 2) \<le> 5 / 4" using assms by auto
  have "10000 * 1 * (3 / 4) \<le> x"
    unfolding x_def using one f(1) by (intro mult_mono) auto
  then have "7500 \<le> x" by simp
  moreover have "x \<le> 10000 * 2 ^ min (attempt - 1) 9 * (5 / 4)"
    unfolding x_def using f(2) by (intro mult_left_mono) auto
  ultimately show ?thesis
    unfolding pushRetryDelay_def x_def [symmetric] by (auto simp: max_def min_def)
qed

theorem retry_delay_bounds_witness: "7500 \<le> pushRetryDelay 3 0 (1 / 2)"
  using retry_delay_bounds [of "1 / 2" 3 0] by simp


section \<open>The dispatcher makes progress\<close>

lemma outcome_not_due:
  assumes "0 \<le> random"
  shows "\<not> delivery_due now (delivery_outcome send now random s d)"
proof -
  have "1 \<le> pushRetryDelay attempt after random" for attempt after
  proof -
    define x where "x = 10000 * 2 ^ min (attempt - 1) 9 * (3 / 4 + random * (1 / 2))"
    have "10000 * 1 * (3 / 4) \<le> x"
      unfolding x_def using assms by (intro mult_mono) auto
    then show ?thesis unfolding pushRetryDelay_def x_def [symmetric] by (simp add: le_max_iff_disj)
  qed
  then have "now < \<lfloor>of_int now + pushRetryDelay attempt after random\<rfloor>" for attempt after
    by (simp add: less_floor_iff)
  then show ?thesis
    by (auto simp: delivery_outcome_def delivery_due_def Let_def not_le split: option.split send_result.split)
qed

lemma filter_after_update:
  "\<not> P v \<Longrightarrow> filter P (update_where q (\<lambda>_. v) t) = filter (\<lambda>x. \<not> q x) (filter P t)"
  by (induction t) auto

lemma due_after_round:
  assumes "distinct (map dlv_id (deliveries s))" and "due_list s now = d # rest" and "\<not> delivery_due now v" and "dlv_id v = dlv_id d"
    and "deliveries u = update_where (\<lambda>x. dlv_id x = dlv_id d) (\<lambda>_. v) (deliveries s)"
  shows "due_list u now = rest"
proof -
  have "filter (delivery_due now) (deliveries u) = filter (\<lambda>x. dlv_id x \<noteq> dlv_id d) (filter (delivery_due now) (deliveries s))"
    unfolding assms(5) by (rule filter_after_update) (rule assms(3))
  then have "due_list u now = filter (\<lambda>x. dlv_id x \<noteq> dlv_id d) (due_list s now)"
    by (simp add: due_list_def filter_sort)
  moreover have "distinct (map dlv_id (due_list s now))"
    using distinct_map_filter [OF assms(1)] by (simp add: due_list_def distinct_map)
  then have "filter (\<lambda>x. dlv_id x \<noteq> dlv_id d) rest = rest"
    unfolding assms(2) by (auto simp: filter_id_conv image_iff)
  ultimately show ?thesis by (simp add: assms(2))
qed

lemma same_registrations:
  assumes "\<And>t after. send t \<noteq> SendFailed UNREGISTERED after"
  shows "registrations_after send now s d = installations s"
  using assms by (auto simp: registrations_after_def split: option.split send_result.split push_error_code.split)

lemma outcome_frame:
  assumes "accounts u = accounts s" and "mfas u = mfas s" and "notifications u = notifications s" and "installations u = installations s"
  shows "delivery_target u now d = delivery_target s now d"
    and "delivery_outcome send now random u d = delivery_outcome send now random s d"
proof -
  have "admin_facts_current u = admin_facts_current s" using assms by (simp add: admin_facts_current_def fun_eq_iff)
  then show t: "delivery_target u now d = delivery_target s now d" for d using assms by (simp add: delivery_target_def split: option.split)
  show "delivery_outcome send now random u d = delivery_outcome send now random s d" by (simp add: delivery_outcome_def t)
qed

text \<open>
  The loop with a clock that stands still: the first deliveries of the queue are handled, each once, the
  queue loses exactly them, and all other rows stay as they are.\<close>

definition handled_in :: "db \<Rightarrow> delivery_row list \<Rightarrow> (nat \<Rightarrow> delivery_row) \<Rightarrow> db \<Rightarrow> bool" where
  "handled_in s hs f u \<longleftrightarrow> map dlv_id (deliveries u) = map dlv_id (deliveries s) \<and>
    (\<forall>d \<in> set (deliveries s). d \<notin> set hs \<longrightarrow> d \<in> set (deliveries u)) \<and>
    (\<forall>i < length hs. dlv_id (f i) = dlv_id (hs ! i) \<and> f i \<in> set (deliveries u))"

lemma dispatch_loop_handles:
  assumes "distinct (map dlv_id (deliveries s))" and "\<And>j. 0 \<le> random j"
    and "dispatch_loop k send token (\<lambda>_. now) random s = (n, sent, s')"
  shows "n = length (take k (due_list s now)) \<and> due_list s' now = drop k (due_list s now) \<and>
    (\<exists>us. length us = n \<and> (\<forall>u \<in> set us. later_state s u) \<and>
      handled_in s (take k (due_list s now)) (\<lambda>i. delivery_outcome send now (random (k - 1 - i)) (us ! i) (due_list s now ! i)) s' \<and>
      sent = concat (map (\<lambda>i. case delivery_target (us ! i) now (due_list s now ! i) of None \<Rightarrow> [] | Some t \<Rightarrow> [t]) [0..<n]) \<and>
      ((\<forall>t after. send t \<noteq> SendFailed UNREGISTERED after) \<longrightarrow> (\<forall>u \<in> set us. installations u = installations s)))"
  using assms(1,3)
proof (induction k arbitrary: s n sent s')
  case 0
  then show ?case by (simp add: handled_in_def)
next
  case (Suc k)
  show ?case
  proof (cases "due_list s now")
    case Nil
    with Suc.prems show ?thesis by (simp add: dispatch_one_idle handled_in_def)
  next
    case (Cons d rest)
    then have d: "d \<in> set (deliveries s)" "delivery_due now d" using due_listD [of d s now] by simp_all
    define v where "v = delivery_outcome send now (random k) s d"
    define u where "u = s\<lparr>deliveries := update_where (\<lambda>x. dlv_id x = dlv_id d) (\<lambda>_. v) (deliveries s),
      installations := registrations_after send now s d\<rparr>"
    have u: "later_state s u" unfolding u_def v_def by (rule round_later [OF d])
    have v: "\<not> delivery_due now v" "dlv_id v = dlv_id d"
      using outcome_not_due [OF assms(2)] by (simp_all add: v_def)
    have du: "deliveries u = update_where (\<lambda>x. dlv_id x = dlv_id d) (\<lambda>_. v) (deliveries s)" by (simp add: u_def)
    have rest: "due_list u now = rest" by (rule due_after_round [OF Suc.prems(1) Cons v du])
    obtain m later s2 where l: "dispatch_loop k send token (\<lambda>_. now) random u = (m, later, s2)"
      by (metis prod_cases3)
    have out: "n = Suc m" "sent = (case delivery_target s now d of None \<Rightarrow> [] | Some t \<Rightarrow> [t]) @ later" "s' = s2"
      using Suc.prems(2) l by (simp_all add: dispatch_one_exact [OF Suc.prems(1) Cons] u_def v_def)
    have dist: "distinct (map dlv_id (deliveries u))" using u Suc.prems(1) by (simp add: later_state_def)
    from Suc.IH [OF dist l] obtain us where IH: "m = length (take k rest)" "due_list s2 now = drop k rest"
      "length us = m" "\<forall>w \<in> set us. later_state u w"
      "handled_in u (take k rest) (\<lambda>i. delivery_outcome send now (random (k - 1 - i)) (us ! i) (rest ! i)) s2"
      "later = concat (map (\<lambda>i. case delivery_target (us ! i) now (rest ! i) of None \<Rightarrow> [] | Some t \<Rightarrow> [t]) [0..<m])"
      "(\<forall>t after. send t \<noteq> SendFailed UNREGISTERED after) \<longrightarrow> (\<forall>w \<in> set us. installations w = installations u)"
      unfolding rest by blast
    have only_d: "x = d" if "x \<in> set (deliveries s)" "dlv_id x = dlv_id d" for x
      using that d(1) Suc.prems(1) by (auto simp: distinct_map dest: inj_onD)
    have vu: "v \<in> set (deliveries u)" using d(1) by (force simp: du set_update_where)
    have v_rest: "v \<notin> set (take k rest)"
      using v(1) due_listD [of v u now] rest by (auto dest: in_set_takeD)
    have keep: "x \<in> set (deliveries u)" if "x \<in> set (deliveries s)" "x \<noteq> d" for x
      using that only_d [of x] by (force simp: du set_update_where)
    have "handled_in s (take (Suc k) (due_list s now))
        (\<lambda>i. delivery_outcome send now (random (Suc k - 1 - i)) ((s # us) ! i) (due_list s now ! i)) s2"
      unfolding handled_in_def Cons take_Suc_Cons
    proof (intro conjI allI impI ballI)
      show "map dlv_id (deliveries s2) = map dlv_id (deliveries s)"
        using IH(5) u by (simp add: handled_in_def later_state_def)
      fix x assume "x \<in> set (deliveries s)" "x \<notin> set (d # take k rest)"
      then show "x \<in> set (deliveries s2)" using IH(5) keep by (simp add: handled_in_def)
    next
      fix i assume "i < length (d # take k rest)"
      then show "delivery_outcome send now (random (Suc k - 1 - i)) ((s # us) ! i) ((d # rest) ! i) \<in> set (deliveries s2)"
        using IH(5) vu v_rest v_def by (cases i) (simp_all add: handled_in_def)
    qed (simp add: nth_Cons' split: nat.split)
    moreover have "concat (map (\<lambda>i. case delivery_target ((s # us) ! i) now (due_list s now ! i) of None \<Rightarrow> [] | Some t \<Rightarrow> [t]) [0..<n]) = sent"
      unfolding out(1,2) IH(6) upt_conv_Cons [OF zero_less_Suc] Cons by (simp add: map_Suc_upt [symmetric] comp_def del: upt_Suc)
    moreover have "installations u = installations s" if "\<forall>t after. send t \<noteq> SendFailed UNREGISTERED after"
      using that same_registrations [of send now s d] by (simp add: u_def)
    ultimately show ?thesis
      using IH out Cons later_trans [OF u] by (intro conjI exI [of _ "s # us"]) auto
  qed
qed

text \<open>C35.
  The dispatcher drains its queue.  While the clock stands still, a run handles exactly the first 20 of the
  due deliveries, in the order of their next attempt, each in one round, whatever the transport answers;
  every one of them is left with its outcome recorded - accepted, discarded, or waiting for a later
  attempt - and none of them is due any more, the rest of the queue waits for the next run, and no other
  delivery is touched.  The outcomes and the calls of the transport are those that the state before the
  run gives, in that order, unless the transport reports a registration as gone: the round that sees it
  disables the registration for the rounds after it.\<close>

theorem dispatch_drains:
  assumes "distinct (map dlv_id (deliveries s))" and "\<And>j. 0 \<le> random j"
    and "dispatchNotifications send token (\<lambda>_. now) random s = (n, sent, s')"
  shows "n = min 20 (length (due_list s now)) \<and> due_list s' now = drop 20 (due_list s now) \<and>
    map dlv_id (deliveries s') = map dlv_id (deliveries s) \<and>
    (\<forall>d \<in> set (deliveries s). d \<notin> set (take 20 (due_list s now)) \<longrightarrow> d \<in> set (deliveries s')) \<and>
    (\<forall>i < n. \<exists>u. later_state s u \<and>
      delivery_outcome send now (random (19 - i)) u (due_list s now ! i) \<in> set (deliveries s')) \<and>
    ((\<forall>t after. send t \<noteq> SendFailed UNREGISTERED after) \<longrightarrow>
      (\<forall>i < n. delivery_outcome send now (random (19 - i)) s (due_list s now ! i) \<in> set (deliveries s')) \<and>
      sent = concat (map (\<lambda>d. case delivery_target s now d of None \<Rightarrow> [] | Some t \<Rightarrow> [t]) (take 20 (due_list s now))))"
proof -
  from dispatch_loop_handles [OF assms(1,2) assms(3) [unfolded dispatchNotifications_def]] obtain us where
    n: "n = length (take 20 (due_list s now))" "due_list s' now = drop 20 (due_list s now)" "length us = n"
    and later: "\<forall>u \<in> set us. later_state s u"
    and rows: "handled_in s (take 20 (due_list s now))
        (\<lambda>i. delivery_outcome send now (random (20 - 1 - i)) (us ! i) (due_list s now ! i)) s'"
    and sent: "sent = concat (map (\<lambda>i. case delivery_target (us ! i) now (due_list s now ! i) of None \<Rightarrow> [] | Some t \<Rightarrow> [t]) [0..<n])"
    and same: "(\<forall>t after. send t \<noteq> SendFailed UNREGISTERED after) \<longrightarrow> (\<forall>u \<in> set us. installations u = installations s)" by blast
  have row: "delivery_outcome send now (random (19 - i)) (us ! i) (due_list s now ! i) \<in> set (deliveries s')"
    "later_state s (us ! i)" if "i < n" for i
    using that n rows later by (simp_all add: handled_in_def)
  have still: "delivery_target (us ! i) now d = delivery_target s now d"
    "delivery_outcome send now r (us ! i) d = delivery_outcome send now r s d"
    if "\<forall>t after. send t \<noteq> SendFailed UNREGISTERED after" "i < n" for i d r
    using that same row(2) [of i] n(3) by (intro outcome_frame; simp add: later_state_def)+
  have all: "sent = concat (map (\<lambda>d. case delivery_target s now d of None \<Rightarrow> [] | Some t \<Rightarrow> [t]) (take 20 (due_list s now)))"
    if "\<forall>t after. send t \<noteq> SendFailed UNREGISTERED after"
  proof -
    have "take 20 (due_list s now) = map (\<lambda>i. due_list s now ! i) [0..<n]"
      using n(1) by (intro nth_equalityI) simp_all
    moreover have "map (\<lambda>i. case delivery_target (us ! i) now (due_list s now ! i) of None \<Rightarrow> [] | Some t \<Rightarrow> [t]) [0..<n] =
        map (\<lambda>i. case delivery_target s now (due_list s now ! i) of None \<Rightarrow> [] | Some t \<Rightarrow> [t]) [0..<n]"
      using still(1) [OF that] by (intro map_cong) simp_all
    ultimately show ?thesis unfolding sent by (simp only: map_map comp_def)
  qed
  show ?thesis
    using n(1,2) rows row still(2) all by (auto simp: handled_in_def)
qed

theorem dispatch_drains_witness:
  "fst (dispatchNotifications (\<lambda>_. Sent) (\<lambda>_. ''t'') (\<lambda>_. 6) (\<lambda>_. 0) demo_push) = 1"
proof -
  obtain n sent s' where run: "dispatchNotifications (\<lambda>_. Sent) (\<lambda>_. ''t'') (\<lambda>_. 6) (\<lambda>_. 0) demo_push = (n, sent, s')"
    by (metis prod_cases3)
  have "length (due_list demo_push 6) = 1"
    by (simp add: due_list_def demo_push_def demo_leased_def demo_delivery_def lease_set_def delivery_due_def)
  with dispatch_drains [OF demo_push_distinct _ run] have "n = 1" by simp
  with run show ?thesis by simp
qed

end
