(* ===== verification/Waveform.thy ===== *)
theory Waveform imports Albums Notifications begin

text \<open>
  Waveform jobs of \<open>waveform-service.ts\<close> and \<open>waveform-repository.ts\<close>: an administrator asks for the
  analysis of a song's video, a runner takes the job by compare-and-swap on its attempt, reports the
  outcome, and every requester is notified in the same transaction; an operator may also import a
  locally computed result.  The limits of the result are those of
  \<open>packages/contracts/src/waveform.ts\<close>.  New identifiers and the clock are arguments.
\<close>

section \<open>The result\<close>

definition int_between :: "int \<Rightarrow> int \<Rightarrow> int \<Rightarrow> bool" where
  "int_between lo hi n \<longleftrightarrow> lo \<le> n \<and> n \<le> hi"

definition peaksSchema :: "peaks_data \<Rightarrow> bool" where
  "peaksSchema p \<longleftrightarrow>
    peaks_version p \<in> {1, 2} \<and> peaks_channels p \<in> {None, Some 1} \<and>
    int_between 1 192000 (peaks_sample_rate p) \<and> 0 < peaks_samples_per_pixel p \<and>
    int_between 1 180000 (peaks_length p) \<and>
    list_all (int_between (- 128) 127) (peaks_values p) \<and> length (peaks_values p) \<le> 360000"

text \<open>The loop over minimum and maximum; a last entry without a partner compares with \<open>undefined\<close>.\<close>

fun pairs_ordered :: "int list \<Rightarrow> bool" where
  "pairs_ordered (lo # hi # rest) \<longleftrightarrow> lo \<le> hi \<and> pairs_ordered rest"
| "pairs_ordered _ \<longleftrightarrow> True"

definition bucket_ms :: "peaks_data \<Rightarrow> jsnum" where
  "bucket_ms p = of_int (peaks_samples_per_pixel p * 1000) / of_int (peaks_sample_rate p)"

text \<open>\<open>size_of\<close> is the length of \<open>JSON.stringify\<close>.\<close>

definition waveformDataSchema :: "(waveform_data \<Rightarrow> nat) \<Rightarrow> waveform_data \<Rightarrow> bool" where
  "waveformDataSchema size_of d \<longleftrightarrow>
    (let p = wav_peaks d; bucket = bucket_ms p; n = of_int (peaks_length p) in
     int_between 1 3600000 (wav_durationMs d) \<and> 0 < wav_bucketSizeMs d \<and> peaksSchema p \<and>
     is_video_id (wav_sourceId d) \<and>
     \<not> ((peaks_version p = 2 \<and> peaks_channels p \<noteq> Some 1) \<or>
        int (length (peaks_values p)) \<noteq> peaks_length p * 2 \<or>
        \<bar>bucket - wav_bucketSizeMs d\<bar> > 1 / 1000 \<or>
        of_int (wav_durationMs d) > n * bucket + 1 \<or>
        of_int (wav_durationMs d) \<le> (n - 1) * bucket - 1 \<or>
        size_of d > 4 * 1024 * 1024) \<and>
     pairs_ordered (peaks_values p))"

section \<open>The repository\<close>

definition lockWaveformSong :: "db \<Rightarrow> eid \<Rightarrow> song_row option" where
  "lockWaveformSong s i = lookup song_id i (songs s)"

definition lockWaveformJob :: "db \<Rightarrow> eid \<Rightarrow> waveform_job_row option" where
  "lockWaveformJob s i = lookup job_id i (jobs s)"

type_synonym job_and_slug = "waveform_job_row \<times> string option"

definition findWaveformJob :: "db \<Rightarrow> eid \<Rightarrow> job_and_slug option" where
  "findWaveformJob s i =
    (case lookup job_id i (jobs s) of
       None \<Rightarrow> None
     | Some j \<Rightarrow> map_option (\<lambda>so. (j, song_slug so)) (lookup song_id (job_songId j) (songs s)))"

definition job_active :: "waveform_job_row \<Rightarrow> bool" where
  "job_active j \<longleftrightarrow> job_status j \<in> {QUEUED, RUNNING}"

definition findActiveWaveformJob :: "db \<Rightarrow> eid \<Rightarrow> string \<Rightarrow> waveform_job_row option" where
  "findActiveWaveformJob s songId videoId =
    find (\<lambda>j. job_songId j = songId \<and> job_videoId j = videoId \<and> job_active j) (jobs s)"

text \<open>\<open>order by finished_at desc\<close> lists a NULL first.\<close>

definition findMatchingWaveformJob :: "db \<Rightarrow> eid \<Rightarrow> waveform_data \<Rightarrow> waveform_job_row option" where
  "findMatchingWaveformJob s songId data =
    first_row (sort_key (\<lambda>j. (job_finishedAt j \<noteq> None, - coalesce (job_finishedAt j) 0))
      (filter (\<lambda>j. job_songId j = songId \<and> job_videoId j = wav_sourceId data \<and> job_status j = SUCCEEDED \<and>
          list_ex (\<lambda>w. wf_songId w = songId \<and> wf_data w = data) (waveforms s))
        (jobs s)))"

definition new_job :: "eid \<Rightarrow> instant \<Rightarrow> eid \<Rightarrow> string \<Rightarrow> waveform_job_row" where
  "new_job i now songId videoId =
    \<lparr>job_id = i, job_songId = songId, job_videoId = videoId, job_status = QUEUED, job_attemptId = None,
     job_errorCode = None, job_enqueuedAt = None, job_createdAt = now, job_startedAt = None,
     job_finishedAt = None\<rparr>"

definition insertWaveformJob :: "eid \<Rightarrow> instant \<Rightarrow> db \<Rightarrow> eid \<Rightarrow> string \<Rightarrow> waveform_job_row \<times> db" where
  "insertWaveformJob i now s songId videoId =
    (new_job i now songId videoId, s\<lparr>jobs := jobs s @ [new_job i now songId videoId]\<rparr>)"

text \<open>\<open>active ?? (await insertWaveformJob(...))\<close>\<close>

definition active_or_new :: "eid \<Rightarrow> instant \<Rightarrow> db \<Rightarrow> eid \<Rightarrow> string \<Rightarrow> waveform_job_row \<times> db" where
  "active_or_new i now s songId videoId =
    (case findActiveWaveformJob s songId videoId of
       Some j \<Rightarrow> (j, s)
     | None \<Rightarrow> insertWaveformJob i now s songId videoId)"

definition insertWaveformRequester :: "db \<Rightarrow> eid \<Rightarrow> eid \<Rightarrow> db" where
  "insertWaveformRequester s jobId accountId =
    (if list_ex (\<lambda>r. req_jobId r = jobId \<and> req_accountId r = accountId) (requesters s) then s
     else s\<lparr>requesters := requesters s @ [\<lparr>req_jobId = jobId, req_accountId = accountId\<rparr>]\<rparr>)"

definition findWaveformRequesters :: "db \<Rightarrow> eid \<Rightarrow> requester_row list" where
  "findWaveformRequesters s jobId = filter (\<lambda>r. req_jobId r = jobId) (requesters s)"

definition updateWaveformJob ::
  "db \<Rightarrow> eid \<Rightarrow> (waveform_job_row \<Rightarrow> waveform_job_row) \<Rightarrow> waveform_job_row option \<times> db" where
  "updateWaveformJob s i f =
    (first_row (returning (\<lambda>j. job_id j = i) f (jobs s)),
     s\<lparr>jobs := update_where (\<lambda>j. job_id j = i) f (jobs s)\<rparr>)"

definition storeWaveform :: "eid \<Rightarrow> instant \<Rightarrow> db \<Rightarrow> eid \<Rightarrow> string \<Rightarrow> waveform_data \<Rightarrow> db" where
  "storeWaveform wid now s songId videoId data =
    (case lookup wf_songId songId (waveforms s) of
       None \<Rightarrow> s\<lparr>waveforms := waveforms s @
         [\<lparr>wf_id = wid, wf_songId = songId, wf_videoId = videoId, wf_data = data, wf_generatedAt = now\<rparr>]\<rparr>
     | Some _ \<Rightarrow> s\<lparr>waveforms := update_where (\<lambda>w. wf_songId w = songId)
         (\<lambda>w. w\<lparr>wf_videoId := videoId, wf_data := data, wf_generatedAt := now\<rparr>) (waveforms s)\<rparr>)"

text \<open>The video of the song and the waveform stored for that video.\<close>

definition findSongWaveform :: "db \<Rightarrow> eid \<Rightarrow> (string option \<times> waveform_data option) option" where
  "findSongWaveform s i =
    map_option (\<lambda>so. (song_youtubeId so,
        map_option wf_data (find (\<lambda>w. wf_songId w = i \<and> song_youtubeId so = Some (wf_videoId w)) (waveforms s))))
      (lookup song_id i (songs s))"

section \<open>The use cases\<close>

record waveform_job_view =
  wj_id :: eid
  wj_songId :: eid
  wj_videoId :: string
  wj_status :: waveform_status
  wj_errorCode :: "waveform_error option"
  wj_createdAt :: instant
  wj_finishedAt :: "instant option"
  wj_editorHref :: "string option"

definition job_project :: "job_and_slug \<Rightarrow> waveform_job_view" where
  "job_project row = (case row of (j, slug) \<Rightarrow>
    \<lparr>wj_id = job_id j, wj_songId = job_songId j, wj_videoId = job_videoId j, wj_status = job_status j,
     wj_errorCode = job_errorCode j, wj_createdAt = job_createdAt j, wj_finishedAt = job_finishedAt j,
     wj_editorHref = editorHref slug\<rparr>)"

definition getWaveformJob :: "request_context \<Rightarrow> eid \<Rightarrow> db \<Rightarrow> (waveform_job_view, db) use_case" where
  "getWaveformJob ctx i = as_admin ctx (\<lambda>_ s.
    or_throw (findWaveformJob s i) (AppError WAVEFORM_JOB_NOT_FOUND) s (\<lambda>row. (Inr (job_project row), s)))"

definition getSongWaveform :: "request_context \<Rightarrow> eid \<Rightarrow> db \<Rightarrow> (waveform_data option, db) use_case" where
  "getSongWaveform ctx i = as_admin ctx (\<lambda>_ s.
    or_throw (findSongWaveform s i) (AppError SONG_NOT_FOUND) s (\<lambda>row. (case row of (videoId, data) \<Rightarrow>
      (Inr (case data of
          None \<Rightarrow> None
        | Some d \<Rightarrow> if Some (wav_sourceId d) = videoId then Some d else None), s))))"

definition outcome_type :: "waveform_status \<Rightarrow> notification_type" where
  "outcome_type status = (if status = SUCCEEDED then WAVEFORM_SUCCEEDED else WAVEFORM_FAILED)"

type_synonym notice_ids = "(eid \<Rightarrow> eid) \<times> (eid \<Rightarrow> eid \<Rightarrow> eid)"

definition notifyWaveformRequesters ::
  "notice_ids \<Rightarrow> instant \<Rightarrow> eid \<Rightarrow> waveform_status \<Rightarrow> db \<Rightarrow> db" where
  "notifyWaveformRequesters ids now jobId status s =
    fold (\<lambda>r. recordWaveformNotification (fst ids) (snd ids) now (req_accountId r) jobId (outcome_type status))
      (findWaveformRequesters s jobId) s"

definition row_or_crash ::
  "waveform_job_row option \<times> db \<Rightarrow> (waveform_job_row \<Rightarrow> db \<Rightarrow> ('a, db) use_case) \<Rightarrow> ('a, db) use_case" where
  "row_or_crash r k = (case r of (row, s) \<Rightarrow> or_throw row (Error ''TypeError'') s (\<lambda>j. k j s))"

record job_ids =
  ids_job :: eid
  ids_attempt :: eid
  ids_waveform :: eid
  ids_notice :: notice_ids

definition succeeded_set :: "eid \<Rightarrow> instant option \<Rightarrow> instant \<Rightarrow> waveform_job_row \<Rightarrow> waveform_job_row" where
  "succeeded_set attempt startedAt now j =
    j\<lparr>job_status := SUCCEEDED, job_attemptId := Some attempt, job_startedAt := Some (coalesce startedAt now),
      job_errorCode := None, job_finishedAt := Some now\<rparr>"

text \<open>\<open>replaceExisting\<close> is true unless the caller passes \<open>false\<close>.\<close>

definition importSongWaveform ::
  "job_ids \<Rightarrow> instant \<Rightarrow> request_context \<Rightarrow> eid \<times> waveform_data \<times> bool \<Rightarrow> db \<Rightarrow>
    (waveform_job_view, db) use_case" where
  "importSongWaveform ids now ctx arg = as_admin ctx (\<lambda>accountId. transaction (\<lambda>s.
    (case arg of (songId, result, replaceExisting) \<Rightarrow>
      or_throw (lockWaveformSong s songId) (AppError SONG_NOT_FOUND) s (\<lambda>song.
      throw_if (song_youtubeId song \<noteq> Some (wav_sourceId result)) (AppError WAVEFORM_SOURCE_INVALID) s
      (throw_if (\<not> replaceExisting \<and> (case findSongWaveform s songId of
            Some (_, Some d) \<Rightarrow> Some (wav_sourceId d) = song_youtubeId song | _ \<Rightarrow> False))
          (AppError WAVEFORM_ALREADY_EXISTS) s
      (let active = findActiveWaveformJob s songId (wav_sourceId result);
           matching = (if active = None then findMatchingWaveformJob s songId result else None) in
       (case matching of
          Some m \<Rightarrow> (Inr (job_project (m, song_slug song)), s)
        | None \<Rightarrow>
            (case active_or_new (ids_job ids) now s songId (wav_sourceId result) of (job, s1) \<Rightarrow>
             (let s2 = insertWaveformRequester s1 (job_id job) accountId;
                  s3 = storeWaveform (ids_waveform ids) now s2 songId (wav_sourceId result) result in
              row_or_crash (updateWaveformJob s3 (job_id job)
                  (succeeded_set (ids_attempt ids) (job_startedAt job) now)) (\<lambda>finished s4.
                (Inr (job_project (finished, song_slug song)),
                 notifyWaveformRequesters (ids_notice ids) now (job_id job) SUCCEEDED s4)))))))))))"

record runner_job_view =
  rj_id :: eid
  rj_songId :: eid
  rj_videoId :: string
  rj_status :: waveform_status
  rj_attemptId :: "eid option"
  rj_enqueuedAt :: "instant option"

definition projectRunner :: "waveform_job_row \<Rightarrow> runner_job_view" where
  "projectRunner j =
    \<lparr>rj_id = job_id j, rj_songId = job_songId j, rj_videoId = job_videoId j, rj_status = job_status j,
     rj_attemptId = job_attemptId j, rj_enqueuedAt = job_enqueuedAt j\<rparr>"

definition getRunnerWaveformJob :: "eid \<Rightarrow> db \<Rightarrow> (runner_job_view, db) use_case" where
  "getRunnerWaveformJob i s =
    or_throw (findWaveformJob s i) (AppError WAVEFORM_JOB_NOT_FOUND) s (\<lambda>row.
      (Inr (projectRunner (fst row)), s))"

record queue_payload =
  qp_jobId :: eid
  qp_songId :: eid
  qp_videoId :: string

definition lockRunnerJob ::
  "db \<Rightarrow> queue_payload \<Rightarrow> (waveform_job_row \<Rightarrow> song_row \<Rightarrow> ('a, db) use_case) \<Rightarrow> ('a, db) use_case" where
  "lockRunnerJob s input k =
    or_throw (findWaveformJob s (qp_jobId input)) (AppError WAVEFORM_JOB_NOT_FOUND) s (\<lambda>found.
    or_throw (lockWaveformSong s (job_songId (fst found))) (AppError WAVEFORM_JOB_NOT_FOUND) s (\<lambda>song.
    or_throw (lockWaveformJob s (qp_jobId input)) (AppError WAVEFORM_JOB_NOT_FOUND) s (\<lambda>job.
    throw_if (job_songId job \<noteq> qp_songId input \<or> job_videoId job \<noteq> qp_videoId input)
      (AppError WAVEFORM_SOURCE_INVALID) s (k job song))))"

definition recordWaveformEnqueued :: "queue_payload \<times> instant \<Rightarrow> db \<Rightarrow> (runner_job_view, db) use_case" where
  "recordWaveformEnqueued arg = transaction (\<lambda>s. (case arg of (input, enqueuedAt) \<Rightarrow>
    lockRunnerJob s input (\<lambda>job _.
      if job_enqueuedAt job \<noteq> None then (Inr (projectRunner job), s)
      else row_or_crash (updateWaveformJob s (job_id job) (\<lambda>j. j\<lparr>job_enqueuedAt := Some enqueuedAt\<rparr>))
        (\<lambda>updated s1. (Inr (projectRunner updated), s1)))))"

definition requestWaveformJob ::
  "job_ids \<Rightarrow> instant \<Rightarrow> request_context \<Rightarrow> eid \<times> string list \<Rightarrow> db \<Rightarrow>
    (waveform_job_view \<times> bool, db) use_case" where
  "requestWaveformJob ids now ctx arg = as_admin ctx (\<lambda>accountId. transaction (\<lambda>s.
    (case arg of (songId, allowedVideoIds) \<Rightarrow>
      or_throw (lockWaveformSong s songId) (AppError SONG_NOT_FOUND) s (\<lambda>song.
      let videoId = coalesce (song_youtubeId song) [] in
      throw_if (\<not> truthy (song_youtubeId song) \<or> \<not> is_video_id videoId)
        (AppError WAVEFORM_SOURCE_INVALID) s
      (throw_if (videoId \<notin> set allowedVideoIds) (AppError FORBIDDEN) s
      (let existing = findActiveWaveformJob s songId videoId in
       case active_or_new (ids_job ids) now s songId videoId of (job, s1) \<Rightarrow>
         (Inr (job_project (job, song_slug song), existing = None),
          insertWaveformRequester s1 (job_id job) accountId)))))))"

definition started_set :: "eid \<Rightarrow> instant \<Rightarrow> waveform_job_row \<Rightarrow> waveform_job_row" where
  "started_set attempt now j =
    j\<lparr>job_status := RUNNING, job_attemptId := Some attempt, job_startedAt := Some now\<rparr>"

definition startWaveformJob ::
  "eid \<Rightarrow> instant \<Rightarrow> queue_payload \<times> eid option \<Rightarrow> db \<Rightarrow> (runner_job_view \<times> bool, db) use_case" where
  "startWaveformJob attempt now arg = transaction (\<lambda>s. (case arg of (input, expectedAttemptId) \<Rightarrow>
    lockRunnerJob s input (\<lambda>job song.
      if job_terminal job \<or> job_attemptId job \<noteq> expectedAttemptId then (Inr (projectRunner job, False), s)
      else throw_if (song_youtubeId song \<noteq> Some (job_videoId job)) (AppError WAVEFORM_SOURCE_INVALID) s
        (row_or_crash (updateWaveformJob s (job_id job) (started_set attempt now)) (\<lambda>current s1.
          (Inr (projectRunner current, True), s1))))))"

datatype waveform_terminal =
    Report_succeeded (terminal_jobId: eid) eid waveform_data
  | Report_failed (terminal_jobId: eid) "eid option" waveform_error

fun terminal_attemptId :: "waveform_terminal \<Rightarrow> eid option" where
  "terminal_attemptId (Report_succeeded _ a _) = Some a"
| "terminal_attemptId (Report_failed _ a _) = a"

fun is_enqueue_failure :: "waveform_terminal \<Rightarrow> bool" where
  "is_enqueue_failure (Report_failed _ _ e) \<longleftrightarrow> e = ENQUEUE_FAILED_JOB"
| "is_enqueue_failure (Report_succeeded _ _ _) \<longleftrightarrow> False"

record terminal_ack =
  ack_jobId :: eid
  ack_status :: waveform_status
  ack_attemptId :: "eid option"
  ack_applied :: bool

text \<open>The status and error the report leads to, and the state with the result stored.\<close>

fun terminal_outcome ::
  "eid \<Rightarrow> instant \<Rightarrow> song_row \<Rightarrow> waveform_job_row \<Rightarrow> waveform_terminal \<Rightarrow> db \<Rightarrow>
    waveform_status \<times> waveform_error option \<times> db" where
  "terminal_outcome wid now song job (Report_failed _ _ e) s = (FAILED, Some e, s)"
| "terminal_outcome wid now song job (Report_succeeded _ _ result) s =
    (if song_youtubeId song \<noteq> Some (job_videoId job) \<or> wav_sourceId result \<noteq> job_videoId job
     then (FAILED, Some SOURCE_CHANGED, s)
     else (SUCCEEDED, None, storeWaveform wid now s (job_songId job) (job_videoId job) result))"

definition finished_set ::
  "waveform_status \<Rightarrow> waveform_error option \<Rightarrow> instant \<Rightarrow> waveform_job_row \<Rightarrow> waveform_job_row" where
  "finished_set status errorCode now j =
    j\<lparr>job_status := status, job_errorCode := errorCode, job_finishedAt := Some now\<rparr>"

text \<open>The closure \<open>ack\<close>.\<close>

definition report_ack :: "waveform_job_row \<Rightarrow> bool \<Rightarrow> terminal_ack" where
  "report_ack job applied =
    \<lparr>ack_jobId = job_id job, ack_status = job_status job, ack_attemptId = job_attemptId job,
     ack_applied = applied\<rparr>"

text \<open>\<open>seen\<close> is the row read before the transaction; the song and the job are read again under lock.\<close>

definition completeWaveformJob ::
  "job_ids \<Rightarrow> instant \<Rightarrow> job_and_slug option \<Rightarrow> waveform_terminal \<Rightarrow> db \<Rightarrow> (terminal_ack, db) use_case" where
  "completeWaveformJob ids now seen input s =
    or_throw seen (AppError WAVEFORM_JOB_NOT_FOUND) s (\<lambda>found. transaction (\<lambda>s.
      or_throw (lockWaveformSong s (job_songId (fst found))) (AppError WAVEFORM_JOB_NOT_FOUND) s (\<lambda>song.
      or_throw (lockWaveformJob s (terminal_jobId input)) (AppError WAVEFORM_JOB_NOT_FOUND) s (\<lambda>job.
      if job_terminal job \<or> job_attemptId job \<noteq> terminal_attemptId input then (Inr (report_ack job False), s)
      else if is_enqueue_failure input \<and>
        (job_status job \<noteq> QUEUED \<or> job_attemptId job \<noteq> None \<or> job_enqueuedAt job \<noteq> None)
      then (Inr (report_ack job False), s)
      else (case terminal_outcome (ids_waveform ids) now song job input s of (status, errorCode, s1) \<Rightarrow>
        (case updateWaveformJob s1 (job_id job) (finished_set status errorCode now) of (_, s2) \<Rightarrow>
          (Inr ((report_ack job True)\<lparr>ack_status := status\<rparr>),
           notifyWaveformRequesters (ids_notice ids) now (job_id job) status s2)))))) s)"

section \<open>Contracts\<close>

interpretation get_waveform_job: atomic_use_case getWaveformJob
  unfolding getWaveformJob_def [abs_def]
  by (rule atomic_as_admin) (auto simp: or_throw_def split: option.splits)

interpretation get_song_waveform: atomic_use_case getSongWaveform
  unfolding getSongWaveform_def [abs_def]
  by (rule atomic_as_admin) (auto simp: or_throw_def split: option.splits prod.splits)

interpretation import_waveform: atomic_use_case "importSongWaveform ids now" for ids now
  unfolding importSongWaveform_def [abs_def] by (rule atomic_as_admin_transaction)

interpretation request_waveform: atomic_use_case "requestWaveformJob ids now" for ids now
  unfolding requestWaveformJob_def [abs_def] by (rule atomic_as_admin_transaction)

section \<open>What each statement changes\<close>

lemma waveform_tables [simp]:
  "jobs (insertWaveformRequester s i a) = jobs s" "songs (insertWaveformRequester s i a) = songs s"
  "waveforms (insertWaveformRequester s i a) = waveforms s"
  "notifications (insertWaveformRequester s i a) = notifications s"
  "jobs (storeWaveform wid now s so v d) = jobs s" "songs (storeWaveform wid now s so v d) = songs s"
  "requesters (storeWaveform wid now s so v d) = requesters s"
  "notifications (storeWaveform wid now s so v d) = notifications s"
  "jobs (recordWaveformNotification nid did now a i ty s) = jobs s"
  "songs (recordWaveformNotification nid did now a i ty s) = songs s"
  "requesters (recordWaveformNotification nid did now a i ty s) = requesters s"
  "waveforms (recordWaveformNotification nid did now a i ty s) = waveforms s"
  by (auto simp: insertWaveformRequester_def storeWaveform_def recordWaveformNotification_def Let_def
      split: option.splits)

lemma fold_record_tables [simp]:
  fixes nid did now i ty
  defines "rec \<equiv> (\<lambda>r. recordWaveformNotification nid did now (req_accountId r) i ty)"
  shows "jobs (fold rec rs s) = jobs s" "songs (fold rec rs s) = songs s"
    "requesters (fold rec rs s) = requesters s" "waveforms (fold rec rs s) = waveforms s"
  unfolding rec_def by (induction rs arbitrary: s) simp_all

lemma notify_tables [simp]:
  "jobs (notifyWaveformRequesters ids now i st s) = jobs s"
  "songs (notifyWaveformRequesters ids now i st s) = songs s"
  "requesters (notifyWaveformRequesters ids now i st s) = requesters s"
  "waveforms (notifyWaveformRequesters ids now i st s) = waveforms s"
  by (simp_all add: notifyWaveformRequesters_def)

text \<open>What identifies a notification; its UNIQUE key.\<close>

definition ntf_ident :: "notification_row \<Rightarrow> eid \<times> notification_type \<times> eid" where
  "ntf_ident r = (ntf_recipientAccountId r, ntf_type r, ntf_eventKey r)"

abbreviation idents :: "db \<Rightarrow> (eid \<times> notification_type \<times> eid) list" where
  "idents s \<equiv> map ntf_ident (notifications s)"

lemma notification_exists_idents: "notification_exists s a ty k \<longleftrightarrow> (a, ty, k) \<in> set (idents s)"
  by (auto simp: notification_exists_def list_ex_iff ntf_ident_def image_iff)

lemma record_idents:
  "idents (recordWaveformNotification nid did now a i ty s) =
    idents s @ (if (a, ty, i) \<in> set (idents s) then [] else [(a, ty, i)])"
  by (simp add: recordWaveformNotification_def notification_exists_idents Let_def new_notification_def
      ntf_ident_def)

lemma fold_record_idents:
  fixes nid did now i ty
  defines "rec \<equiv> (\<lambda>r. recordWaveformNotification nid did now (req_accountId r) i ty)"
  assumes "distinct (idents s)"
  shows "distinct (idents (fold rec rs s)) \<and>
    set (idents (fold rec rs s)) = set (idents s) \<union> (\<lambda>r. (req_accountId r, ty, i)) ` set rs"
  using assms(2)
proof (induction rs arbitrary: s)
  case Nil
  then show ?case by simp
next
  case (Cons r rs)
  have "idents (rec r s) = idents s @ (if (req_accountId r, ty, i) \<in> set (idents s) then []
      else [(req_accountId r, ty, i)])" by (simp only: rec_def record_idents)
  then have "distinct (idents (rec r s))" "set (idents (rec r s)) = insert (req_accountId r, ty, i) (set (idents s))"
    using Cons.prems by (auto simp only: distinct_append split: if_splits) auto
  with Cons.IH [of "rec r s"] show ?case by (auto simp only: fold.simps comp_apply) auto
qed

lemma notify_idents:
  assumes "distinct (idents s)"
  shows "distinct (idents (notifyWaveformRequesters ids now i st s))"
    and "set (idents (notifyWaveformRequesters ids now i st s)) = set (idents s) \<union>
      {(req_accountId r, outcome_type st, i) |r. r \<in> set (requesters s) \<and> req_jobId r = i}"
  using fold_record_idents [OF assms, of "fst ids" "snd ids" now i "outcome_type st" "findWaveformRequesters s i"]
  by (auto simp only: notifyWaveformRequesters_def findWaveformRequesters_def) auto

section \<open>The invariant\<close>

text \<open>
  A job that is still queued has no attempt; together with the CHECK constraints this is what the
  transitions need.
\<close>

definition job_ok :: "waveform_job_row \<Rightarrow> bool" where
  "job_ok j \<longleftrightarrow> waveform_job_check j \<and>
    (job_status j = QUEUED \<longrightarrow> job_attemptId j = None \<and> job_startedAt j = None)"

text \<open>\<open>waveform_job_active_key\<close>: at most one active job for a song and a video.\<close>

definition one_active :: "waveform_job_row list \<Rightarrow> bool" where
  "one_active js \<longleftrightarrow>
    (\<forall>j \<in> set js. \<forall>k \<in> set js. job_active j \<and> job_active k \<and> job_songId j = job_songId k \<and>
      job_videoId j = job_videoId k \<longrightarrow> job_id j = job_id k)"

definition jobs_ok :: "waveform_job_row list \<Rightarrow> bool" where
  "jobs_ok js \<longleftrightarrow> distinct (map job_id js) \<and> (\<forall>j \<in> set js. job_ok j) \<and> one_active js"

definition waveforms_ok :: "waveform_row list \<Rightarrow> bool" where
  "waveforms_ok ws \<longleftrightarrow> distinct (map wf_songId ws) \<and>
    (\<forall>w \<in> set ws. waveform_check w \<and> wav_sourceId (wf_data w) = wf_videoId w)"

definition requesters_ok :: "requester_row list \<Rightarrow> waveform_job_row list \<Rightarrow> bool" where
  "requesters_ok rs js \<longleftrightarrow> distinct rs \<and> req_jobId ` set rs \<subseteq> job_id ` set js"

text \<open>
  A notification about a job tells how the job ended, and every requester of a job that has ended has
  one.
\<close>

definition notices_ok ::
  "(eid \<times> notification_type \<times> eid) list \<Rightarrow> waveform_job_row list \<Rightarrow> requester_row list \<Rightarrow> bool" where
  "notices_ok ns js rs \<longleftrightarrow> distinct ns \<and>
    (\<forall>(a, ty, k) \<in> set ns. \<forall>j \<in> set js. job_id j = k \<longrightarrow>
      job_terminal j \<and> ty = outcome_type (job_status j)) \<and>
    (\<forall>r \<in> set rs. \<forall>j \<in> set js. job_id j = req_jobId r \<and> job_terminal j \<longrightarrow>
      (req_accountId r, outcome_type (job_status j), job_id j) \<in> set ns)"

definition waveforms_wf :: "db \<Rightarrow> bool" where
  "waveforms_wf s \<longleftrightarrow> jobs_ok (jobs s) \<and> waveforms_ok (waveforms s) \<and> requesters_ok (requesters s) (jobs s) \<and>
    notices_ok (idents s) (jobs s) (requesters s)"

lemma job_active_iff: "job_active j \<longleftrightarrow> \<not> job_terminal j"
  by (cases "job_status j") (simp_all add: job_active_def job_terminal_def)

lemma findActive_SomeD:
  "findActiveWaveformJob s so v = Some j \<Longrightarrow>
    j \<in> set (jobs s) \<and> job_songId j = so \<and> job_videoId j = v \<and> job_active j"
  by (auto simp: findActiveWaveformJob_def find_Some_iff)

lemma findActive_NoneD:
  "findActiveWaveformJob s so v = None \<Longrightarrow> j \<in> set (jobs s) \<Longrightarrow> job_songId j = so \<Longrightarrow>
    job_videoId j = v \<Longrightarrow> \<not> job_active j"
  by (auto simp: findActiveWaveformJob_def find_None_iff)

lemma one_activeD:
  "one_active js \<Longrightarrow> j \<in> set js \<Longrightarrow> k \<in> set js \<Longrightarrow> job_active j \<Longrightarrow> job_active k \<Longrightarrow>
    job_songId j = job_songId k \<Longrightarrow> job_videoId j = job_videoId k \<Longrightarrow> job_id j = job_id k"
  unfolding one_active_def by blast

lemma one_activeI:
  "(\<And>j k. j \<in> set js \<Longrightarrow> k \<in> set js \<Longrightarrow> job_active j \<Longrightarrow> job_active k \<Longrightarrow>
    job_songId j = job_songId k \<Longrightarrow> job_videoId j = job_videoId k \<Longrightarrow> job_id j = job_id k) \<Longrightarrow> one_active js"
  unfolding one_active_def by blast

lemma new_job_simps [simp]:
  "job_id (new_job i now so v) = i" "job_songId (new_job i now so v) = so"
  "job_videoId (new_job i now so v) = v" "job_status (new_job i now so v) = QUEUED"
  "job_startedAt (new_job i now so v) = None" "job_attemptId (new_job i now so v) = None"
  by (simp_all add: new_job_def)

lemma jobs_ok_insert:
  assumes "jobs_ok js" and "i \<notin> job_id ` set js" and "is_video_id v"
    and "\<And>j. j \<in> set js \<Longrightarrow> job_songId j = so \<Longrightarrow> job_videoId j = v \<Longrightarrow> \<not> job_active j"
  shows "jobs_ok (js @ [new_job i now so v])"
proof -
  have "job_ok (new_job i now so v)"
    using assms(3) by (simp add: job_ok_def waveform_job_check_def new_job_def job_terminal_def)
  moreover have "one_active (js @ [new_job i now so v])"
  proof (rule one_activeI)
    fix j k
    assume jk: "j \<in> set (js @ [new_job i now so v])" "k \<in> set (js @ [new_job i now so v])"
      "job_active j" "job_active k" "job_songId j = job_songId k" "job_videoId j = job_videoId k"
    have act: "one_active js" using assms(1) by (simp add: jobs_ok_def)
    show "job_id j = job_id k"
    proof (cases "j \<in> set js \<and> k \<in> set js")
      case True
      then show ?thesis using one_activeD [OF act] jk(3-6) by blast
    next
      case False
      with jk(1,2) consider "j = new_job i now so v" "k = new_job i now so v"
        | "j = new_job i now so v" "k \<in> set js" | "j \<in> set js" "k = new_job i now so v" by auto
      then show ?thesis
      proof cases
        case 1
        then show ?thesis by simp
      next
        case 2
        then show ?thesis using jk(4-6) assms(4) [of k] by simp
      next
        case 3
        then show ?thesis using jk(3,5,6) assms(4) [of j] by simp
      qed
    qed
  qed
  ultimately show ?thesis
    using assms(1,2) by (simp add: jobs_ok_def)
qed

text \<open>Changes of one job that keep its identity and do not make it active again.\<close>

definition tame :: "(waveform_job_row \<Rightarrow> waveform_job_row) \<Rightarrow> bool" where
  "tame f \<longleftrightarrow> (\<forall>j. job_id (f j) = job_id j \<and> job_songId (f j) = job_songId j \<and>
    job_videoId (f j) = job_videoId j)"

lemma tame_sets:
  "tame (started_set a now)" "tame (finished_set st e now)" "tame (succeeded_set a b now)"
  "tame (\<lambda>j. j\<lparr>job_enqueuedAt := t\<rparr>)"
  by (simp_all add: tame_def started_set_def finished_set_def succeeded_set_def)

lemma jobs_ok_update:
  assumes "jobs_ok js" and "tame f" and "\<And>j. j \<in> set js \<Longrightarrow> job_id j = i \<Longrightarrow> job_ok (f j)"
    and "\<And>j. j \<in> set js \<Longrightarrow> job_id j = i \<Longrightarrow> job_active (f j) \<Longrightarrow> job_active j"
  shows "jobs_ok (update_where (\<lambda>j. job_id j = i) f js)"
proof -
  have id: "job_id (f j) = job_id j" "job_songId (f j) = job_songId j" "job_videoId (f j) = job_videoId j" for j
    using assms(2) by (simp_all add: tame_def)
  have "one_active (update_where (\<lambda>j. job_id j = i) f js)"
  proof (rule one_activeI)
    fix x y
    assume xy: "x \<in> set (update_where (\<lambda>j. job_id j = i) f js)" "y \<in> set (update_where (\<lambda>j. job_id j = i) f js)"
      "job_active x" "job_active y" "job_songId x = job_songId y" "job_videoId x = job_videoId y"
    have act: "one_active js" using assms(1) by (simp add: jobs_ok_def)
    have old: "\<exists>j \<in> set js. job_active j \<and> job_id j = job_id x \<and> job_songId j = job_songId x \<and>
        job_videoId j = job_videoId x"
      if "x \<in> set (update_where (\<lambda>j. job_id j = i) f js)" "job_active x" for x
    proof -
      from that(1) obtain j where j: "j \<in> set js" "x = (if job_id j = i then f j else j)"
        by (auto simp: set_update_where)
      with that(2) assms(4) [of j] have "job_active j" by (cases "job_id j = i") simp_all
      with j id show ?thesis by (intro bexI [of _ j]) (cases "job_id j = i"; simp)+
    qed
    from old [OF xy(1,3)] old [OF xy(2,4)] one_activeD [OF act] xy(5,6) show "job_id x = job_id y"
      by metis
  qed
  then show ?thesis
    using assms(1,3) id by (auto simp: jobs_ok_def set_update_where map_key_update_where)
qed

lemma waveforms_ok_store:
  assumes "waveforms_ok (waveforms s)" and "is_video_id v" and "wav_sourceId d = v"
  shows "waveforms_ok (waveforms (storeWaveform wid now s so v d))"
proof (cases "lookup wf_songId so (waveforms s)")
  case None
  then have "waveforms (storeWaveform wid now s so v d) = waveforms s @
      [\<lparr>wf_id = wid, wf_songId = so, wf_videoId = v, wf_data = d, wf_generatedAt = now\<rparr>]"
    by (simp add: storeWaveform_def)
  moreover from None have "so \<notin> wf_songId ` set (waveforms s)" by (simp add: lookup_None_iff)
  ultimately show ?thesis using assms by (auto simp: waveforms_ok_def waveform_check_def)
next
  case (Some w)
  with assms show ?thesis
    by (auto simp: storeWaveform_def waveforms_ok_def waveform_check_def set_update_where map_key_update_where)
qed

lemma requesters_ok_insert:
  assumes "requesters_ok (requesters s) js" and "i \<in> job_id ` set js"
  shows "requesters_ok (requesters (insertWaveformRequester s i a)) js"
proof (cases "list_ex (\<lambda>r. req_jobId r = i \<and> req_accountId r = a) (requesters s)")
  case True
  with assms(1) show ?thesis by (simp add: insertWaveformRequester_def)
next
  case False
  then have "\<lparr>req_jobId = i, req_accountId = a\<rparr> \<notin> set (requesters s)"
    by (auto simp: list_ex_iff)
  with False assms show ?thesis by (simp add: insertWaveformRequester_def requesters_ok_def)
qed

lemma set_insert_requester:
  "set (requesters (insertWaveformRequester s i a)) =
    insert \<lparr>req_jobId = i, req_accountId = a\<rparr> (set (requesters s))"
proof (cases "list_ex (\<lambda>r. req_jobId r = i \<and> req_accountId r = a) (requesters s)")
  case True
  then obtain r where "r \<in> set (requesters s)" "req_jobId r = i" "req_accountId r = a"
    by (auto simp: list_ex_iff)
  moreover from this(2,3) have "r = \<lparr>req_jobId = i, req_accountId = a\<rparr>" by simp
  ultimately show ?thesis using True by (auto simp: insertWaveformRequester_def)
qed (simp add: insertWaveformRequester_def)

lemma requesters_ok_ids: "requesters_ok rs js \<Longrightarrow> job_id ` set js \<subseteq> job_id ` set js' \<Longrightarrow> requesters_ok rs js'"
  unfolding requesters_ok_def by blast

section \<open>Notices along the operations\<close>

lemma notices_okD:
  assumes "notices_ok ns js rs" and "j \<in> set js"
  shows "(a, ty, job_id j) \<in> set ns \<Longrightarrow> job_terminal j \<and> ty = outcome_type (job_status j)"
    and "r \<in> set rs \<Longrightarrow> req_jobId r = job_id j \<Longrightarrow> job_terminal j \<Longrightarrow>
      (req_accountId r, outcome_type (job_status j), job_id j) \<in> set ns"
  using assms unfolding notices_ok_def by fastforce+

lemma notices_okI:
  assumes "distinct ns"
    and "\<And>a ty j. (a, ty, job_id j) \<in> set ns \<Longrightarrow> j \<in> set js \<Longrightarrow>
      job_terminal j \<and> ty = outcome_type (job_status j)"
    and "\<And>r j. r \<in> set rs \<Longrightarrow> j \<in> set js \<Longrightarrow> req_jobId r = job_id j \<Longrightarrow> job_terminal j \<Longrightarrow>
      (req_accountId r, outcome_type (job_status j), job_id j) \<in> set ns"
  shows "notices_ok ns js rs"
  unfolding notices_ok_def
proof (intro conjI ballI impI assms(1))
  fix n assume "n \<in> set ns"
  with assms(2) show "case n of (a, ty, k) \<Rightarrow> \<forall>j \<in> set js. job_id j = k \<longrightarrow>
      job_terminal j \<and> ty = outcome_type (job_status j)" by (cases n) blast
next
  fix r j assume "r \<in> set rs" "j \<in> set js" "job_id j = req_jobId r \<and> job_terminal j"
  with assms(3) [of r j] show "(req_accountId r, outcome_type (job_status j), job_id j) \<in> set ns" by simp
qed

lemma notices_ok_distinct: "notices_ok ns js rs \<Longrightarrow> distinct ns"
  by (simp add: notices_ok_def)

lemma notices_ok_insert_job:
  assumes "notices_ok ns js rs" and "i \<notin> (snd \<circ> snd) ` set ns" and "\<not> job_terminal j" and "job_id j = i"
  shows "notices_ok ns (js @ [j]) rs"
proof (rule notices_okI [OF notices_ok_distinct [OF assms(1)]])
  fix a ty k assume n: "(a, ty, job_id k) \<in> set ns" "k \<in> set (js @ [j])"
  with assms(2,4) have "k \<in> set js" by force
  with notices_okD(1) [OF assms(1)] n(1) show "job_terminal k \<and> ty = outcome_type (job_status k)" by blast
next
  fix r k assume "r \<in> set rs" "k \<in> set (js @ [j])" "req_jobId r = job_id k" "job_terminal k"
  with assms(3) notices_okD(2) [OF assms(1)]
  show "(req_accountId r, outcome_type (job_status k), job_id k) \<in> set ns" by auto
qed

text \<open>A job list whose jobs all stand for jobs of the old list.\<close>

lemma notices_ok_update:
  assumes "notices_ok ns js rs" and "\<And>j. job_id (f j) = job_id j"
    and "\<And>j. j \<in> set js \<Longrightarrow> job_id j = i \<Longrightarrow> job_terminal (f j) = job_terminal j \<and>
      (job_terminal j \<longrightarrow> job_status (f j) = job_status j)"
  shows "notices_ok ns (update_where (\<lambda>j. job_id j = i) f js) rs"
proof -
  have old: "\<exists>j \<in> set js. job_id x = job_id j \<and> job_terminal x = job_terminal j \<and>
      (job_terminal j \<longrightarrow> job_status x = job_status j)"
    if "x \<in> set (update_where (\<lambda>j. job_id j = i) f js)" for x
  proof -
    from that obtain j where j: "j \<in> set js" "x = (if job_id j = i then f j else j)"
      by (auto simp: set_update_where)
    then show ?thesis using assms(2) assms(3) [of j] by (intro bexI [of _ j]) (cases "job_id j = i"; simp)+
  qed
  show ?thesis
  proof (rule notices_okI [OF notices_ok_distinct [OF assms(1)]])
    fix a ty x assume n: "(a, ty, job_id x) \<in> set ns" "x \<in> set (update_where (\<lambda>j. job_id j = i) f js)"
    from old [OF n(2)] obtain j where j: "j \<in> set js" "job_id x = job_id j"
      "job_terminal x = job_terminal j" "job_terminal j \<longrightarrow> job_status x = job_status j" by blast
    with notices_okD(1) [OF assms(1) j(1)] n(1) show "job_terminal x \<and> ty = outcome_type (job_status x)"
      by simp
  next
    fix r x assume r: "r \<in> set rs" "x \<in> set (update_where (\<lambda>j. job_id j = i) f js)"
      "req_jobId r = job_id x" "job_terminal x"
    from old [OF r(2)] obtain j where j: "j \<in> set js" "job_id x = job_id j"
      "job_terminal x = job_terminal j" "job_terminal j \<longrightarrow> job_status x = job_status j" by blast
    with notices_okD(2) [OF assms(1) j(1) r(1)] r(3,4)
    show "(req_accountId r, outcome_type (job_status x), job_id x) \<in> set ns" by simp
  qed
qed

lemma notices_ok_insert_requester:
  assumes "notices_ok ns js rs" and "\<And>j. j \<in> set js \<Longrightarrow> job_id j = i \<Longrightarrow> \<not> job_terminal j"
    and "set rs' \<subseteq> insert \<lparr>req_jobId = i, req_accountId = a\<rparr> (set rs)"
  shows "notices_ok ns js rs'"
proof (rule notices_okI [OF notices_ok_distinct [OF assms(1)]])
  fix a ty j assume "(a, ty, job_id j) \<in> set ns" "j \<in> set js"
  then show "job_terminal j \<and> ty = outcome_type (job_status j)" using notices_okD(1) [OF assms(1)] by blast
next
  fix r j assume r: "r \<in> set rs'" "j \<in> set js" "req_jobId r = job_id j" "job_terminal j"
  have "r \<in> set rs"
  proof (rule ccontr)
    assume "r \<notin> set rs"
    with assms(3) r(1) have "r = \<lparr>req_jobId = i, req_accountId = a\<rparr>" by blast
    with assms(2) [OF r(2)] r(3,4) show False by simp
  qed
  with notices_okD(2) [OF assms(1) r(2)] r(3,4)
  show "(req_accountId r, outcome_type (job_status j), job_id j) \<in> set ns" by blast
qed

lemma notices_ok_finish:
  assumes "notices_ok ns js rs" and "\<And>j. job_id (f j) = job_id j" and "distinct ns'"
    and open_job: "\<And>j. j \<in> set js \<Longrightarrow> job_id j = i \<Longrightarrow> \<not> job_terminal j"
    and ended: "\<And>j. job_terminal (f j) \<and> job_status (f j) = st" and "i \<in> job_id ` set js"
    and ns': "set ns' = set ns \<union> {(req_accountId r, outcome_type st, i) |r. r \<in> set rs \<and> req_jobId r = i}"
  shows "notices_ok ns' (update_where (\<lambda>j. job_id j = i) f js) rs"
proof -
  have old: "(job_id x = i \<and> job_terminal x \<and> job_status x = st) \<or> (job_id x \<noteq> i \<and> x \<in> set js)"
    if "x \<in> set (update_where (\<lambda>j. job_id j = i) f js)" for x
    using that ended assms(2) by (auto simp: set_update_where split: if_splits)
  have fresh: "(a, ty, i) \<notin> set ns" for a ty
    using assms(6) open_job notices_okD(1) [OF assms(1)] by blast
  show ?thesis
  proof (rule notices_okI [OF assms(3)])
    fix a ty x assume n: "(a, ty, job_id x) \<in> set ns'" "x \<in> set (update_where (\<lambda>j. job_id j = i) f js)"
    show "job_terminal x \<and> ty = outcome_type (job_status x)"
    proof (cases "job_id x = i")
      case True
      with n(1) fresh ns' have "ty = outcome_type st" by auto
      with old [OF n(2)] True show ?thesis by simp
    next
      case False
      with n(1) ns' have "(a, ty, job_id x) \<in> set ns" by auto
      moreover have "x \<in> set js" using old [OF n(2)] False by simp
      ultimately show ?thesis using notices_okD(1) [OF assms(1)] by blast
    qed
  next
    fix r x assume r: "r \<in> set rs" "x \<in> set (update_where (\<lambda>j. job_id j = i) f js)"
      "req_jobId r = job_id x" "job_terminal x"
    show "(req_accountId r, outcome_type (job_status x), job_id x) \<in> set ns'"
    proof (cases "job_id x = i")
      case True
      with old [OF r(2)] r ns' show ?thesis by auto
    next
      case False
      with old [OF r(2)] notices_okD(2) [OF assms(1) _ r(1,3,4)] ns' show ?thesis by auto
    qed
  qed
qed

section \<open>The life of a job\<close>

text \<open>
  What may happen to a job: its identity is fixed, the first confirmation of its delivery to the queue
  is kept, it is never queued again once taken, and once it has ended nothing but that confirmation is
  added.
\<close>

definition job_evolves :: "waveform_job_row \<Rightarrow> waveform_job_row \<Rightarrow> bool" where
  "job_evolves j j' \<longleftrightarrow>
    job_id j' = job_id j \<and> job_songId j' = job_songId j \<and> job_videoId j' = job_videoId j \<and>
    job_createdAt j' = job_createdAt j \<and>
    (job_enqueuedAt j \<noteq> None \<longrightarrow> job_enqueuedAt j' = job_enqueuedAt j) \<and>
    (job_status j \<noteq> QUEUED \<longrightarrow> job_status j' \<noteq> QUEUED) \<and>
    (job_terminal j \<longrightarrow> job_status j' = job_status j \<and> job_errorCode j' = job_errorCode j \<and>
      job_attemptId j' = job_attemptId j \<and> job_startedAt j' = job_startedAt j \<and>
      job_finishedAt j' = job_finishedAt j)"

lemma job_evolves_refl [simp]: "job_evolves j j"
  by (simp add: job_evolves_def)

lemma job_evolves_trans: "job_evolves j k \<Longrightarrow> job_evolves k l \<Longrightarrow> job_evolves j l"
  by (auto simp: job_evolves_def job_terminal_def)

definition jobs_evolve :: "db \<Rightarrow> db \<Rightarrow> bool" where
  "jobs_evolve s s' \<longleftrightarrow> (\<forall>j \<in> set (jobs s). \<exists>j' \<in> set (jobs s'). job_evolves j j')"

lemma jobs_evolve_same: "jobs s' = jobs s \<Longrightarrow> jobs_evolve s s'"
  unfolding jobs_evolve_def by (metis job_evolves_refl)

lemma jobs_evolve_trans:
  assumes "jobs_evolve s t" and "jobs_evolve t u"
  shows "jobs_evolve s u"
  using assms job_evolves_trans unfolding jobs_evolve_def by blast

lemma jobs_evolve_update:
  assumes "jobs s' = update_where (\<lambda>j. job_id j = i) f (jobs s)"
    and "\<And>j. j \<in> set (jobs s) \<Longrightarrow> job_id j = i \<Longrightarrow> job_evolves j (f j)"
  shows "jobs_evolve s s'"
  unfolding jobs_evolve_def
proof
  fix j assume j: "j \<in> set (jobs s)"
  then have "(if job_id j = i then f j else j) \<in> set (jobs s')"
    by (auto simp: assms(1) set_update_where)
  moreover have "job_evolves j (if job_id j = i then f j else j)" using assms(2) j by simp
  ultimately show "\<exists>j' \<in> set (jobs s'). job_evolves j j'" by blast
qed

section \<open>Every operation keeps the invariant\<close>

definition fresh_job :: "db \<Rightarrow> eid \<Rightarrow> bool" where
  "fresh_job s i \<longleftrightarrow> i \<notin> job_id ` set (jobs s) \<and> i \<notin> ntf_eventKey ` set (notifications s)"

lemma wf_parts:
  assumes "waveforms_wf s"
  shows "jobs_ok (jobs s)" "waveforms_ok (waveforms s)" "requesters_ok (requesters s) (jobs s)"
    "notices_ok (idents s) (jobs s) (requesters s)" "distinct (map job_id (jobs s))"
    "\<And>j. j \<in> set (jobs s) \<Longrightarrow> job_ok j" "distinct (idents s)"
  using assms by (auto simp: waveforms_wf_def jobs_ok_def notices_ok_def)

lemma same_id:
  assumes "waveforms_wf s" and "j \<in> set (jobs s)" and "k \<in> set (jobs s)" and "job_id k = job_id j"
  shows "k = j"
  using wf_parts(5) [OF assms(1)] assms(2-4) by (auto simp: distinct_map dest: inj_onD)

lemma update_hit:
  assumes "distinct (map job_id (jobs s))" and "j \<in> set (jobs s)" and "job_id j = i"
  shows "updateWaveformJob s i f =
    (Some (f j), s\<lparr>jobs := update_where (\<lambda>j. job_id j = i) f (jobs s)\<rparr>)"
proof -
  have "lookup job_id i (jobs s) = Some j" using assms by (simp add: lookup_Some_iff)
  then show ?thesis
    using returning_key_lookup [OF assms(1), of i "\<lambda>_. True" f] by (simp add: updateWaveformJob_def)
qed

lemma active_or_new_spec:
  assumes "waveforms_wf s" and "is_video_id v" and "fresh_job s i"
    and run: "active_or_new i now s so v = (job, s1)"
  shows "waveforms_wf s1 \<and> job \<in> set (jobs s1) \<and> job_active job \<and> job_songId job = so \<and> job_videoId job = v \<and>
    set (jobs s) \<subseteq> set (jobs s1) \<and> songs s1 = songs s \<and> requesters s1 = requesters s \<and>
    notifications s1 = notifications s \<and> waveforms s1 = waveforms s"
proof (cases "findActiveWaveformJob s so v")
  case None
  then have r: "job = new_job i now so v" "s1 = s\<lparr>jobs := jobs s @ [new_job i now so v]\<rparr>"
    using run by (auto simp: active_or_new_def insertWaveformJob_def)
  note parts = wf_parts [OF assms(1)]
  have "jobs_ok (jobs s1)"
    using jobs_ok_insert [OF parts(1) _ assms(2)] findActive_NoneD [OF None] assms(3)
    by (auto simp: r fresh_job_def)
  moreover have "notices_ok (idents s) (jobs s1) (requesters s)"
  proof -
    have "(snd \<circ> snd) ` set (idents s) = ntf_eventKey ` set (notifications s)"
      by (simp add: image_image ntf_ident_def comp_def)
    then have "i \<notin> (snd \<circ> snd) ` set (idents s)" using assms(3) by (simp add: fresh_job_def)
    from notices_ok_insert_job [OF parts(4) this, of "new_job i now so v"] show ?thesis
      by (simp add: r job_terminal_def)
  qed
  moreover have "requesters_ok (requesters s) (jobs s1)"
    by (rule requesters_ok_ids [OF parts(3)]) (auto simp: r)
  ultimately show ?thesis using parts(2) by (auto simp: r waveforms_wf_def job_active_def)
next
  case (Some j)
  with run assms(1) findActive_SomeD [OF Some] show ?thesis by (auto simp: active_or_new_def)
qed

lemma insert_requester_wf:
  assumes "waveforms_wf s" and "job \<in> set (jobs s)" and "\<not> job_terminal job"
  shows "waveforms_wf (insertWaveformRequester s (job_id job) a)"
proof -
  note parts = wf_parts [OF assms(1)]
  have "requesters_ok (requesters (insertWaveformRequester s (job_id job) a)) (jobs s)"
    using assms(2) by (intro requesters_ok_insert [OF parts(3)]) simp
  moreover have "notices_ok (idents s) (jobs s) (requesters (insertWaveformRequester s (job_id job) a))"
    using same_id [OF assms(1,2)] assms(3)
    by (intro notices_ok_insert_requester [OF parts(4), of "job_id job" _ a])
      (auto simp: set_insert_requester)
  ultimately show ?thesis using parts(1,2) by (simp add: waveforms_wf_def)
qed

text \<open>Finishing a job and telling its requesters, with or without a result stored.\<close>

lemma finish_wf:
  assumes "waveforms_wf s" and "job \<in> set (jobs s)" and "\<not> job_terminal job"
    and "tame f" and "job_ok (f job)" and "\<And>j. job_terminal (f j) \<and> job_status (f j) = st"
    and "waveforms_ok (waveforms t)" and "jobs t = jobs s" and "requesters t = requesters s"
    and "notifications t = notifications s"
  shows "waveforms_wf (notifyWaveformRequesters ids now (job_id job) st
    (t\<lparr>jobs := update_where (\<lambda>j. job_id j = job_id job) f (jobs t)\<rparr>))" (is "waveforms_wf ?u")
proof -
  note parts = wf_parts [OF assms(1)]
  have id: "job_id (f j) = job_id j" for j using assms(4) by (simp add: tame_def)
  have one: "k = job" if "k \<in> set (jobs s)" "job_id k = job_id job" for k
    using same_id [OF assms(1,2)] that by simp
  have "jobs_ok (update_where (\<lambda>j. job_id j = job_id job) f (jobs s))"
    using one assms(3,5,6) by (intro jobs_ok_update [OF parts(1) assms(4)]) (auto simp: job_active_iff)
  then have "jobs_ok (jobs ?u)" by (simp add: assms(8))
  moreover have "notices_ok (idents ?u) (jobs ?u) (requesters ?u)"
  proof -
    have d: "distinct (idents (t\<lparr>jobs := update_where (\<lambda>j. job_id j = job_id job) f (jobs t)\<rparr>))"
      using parts(7) by (simp add: assms(10))
    have "set (idents ?u) = set (idents s) \<union>
        {(req_accountId r, outcome_type st, job_id job) |r. r \<in> set (requesters s) \<and> req_jobId r = job_id job}"
      unfolding notify_idents(2) [OF d] by (simp add: assms(9,10))
    moreover have "\<not> job_terminal j" if "j \<in> set (jobs s)" "job_id j = job_id job" for j
      using one [OF that] assms(3) by simp
    ultimately have "notices_ok (idents ?u) (update_where (\<lambda>j. job_id j = job_id job) f (jobs s)) (requesters s)"
      using assms(2) by (intro notices_ok_finish [OF parts(4) id notify_idents(1) [OF d] _ assms(6)]) auto
    then show ?thesis by (simp add: assms(8,9))
  qed
  moreover have "requesters_ok (requesters ?u) (jobs ?u)"
  proof -
    have "job_id ` set (jobs s) \<subseteq> job_id ` set (jobs ?u)" by (simp add: assms(8) id)
    from requesters_ok_ids [OF parts(3) this] show ?thesis by (simp add: assms(9))
  qed
  ultimately show ?thesis using assms(7) by (simp add: waveforms_wf_def)
qed

lemma row_or_crash_hit:
  assumes "waveforms_wf s" and "j \<in> set (jobs s)" and "jobs t = jobs s"
  shows "row_or_crash (updateWaveformJob t (job_id j) f) k =
    k (f j) (t\<lparr>jobs := update_where (\<lambda>x. job_id x = job_id j) f (jobs s)\<rparr>)"
  using update_hit [of t j "job_id j" f] wf_parts(5) [OF assms(1)] assms(2,3)
  by (simp add: row_or_crash_def)

lemma job_ok_sets:
  assumes "job_ok j" and "\<not> job_terminal j"
  shows "job_ok (started_set a now j)" and "job_ok (succeeded_set a b now j)"
    and "job_ok (finished_set FAILED (Some e) now j)"
    and "job_attemptId j \<noteq> None \<Longrightarrow> job_ok (finished_set SUCCEEDED None now j)"
  using assms
  by (cases "job_status j"; auto simp: job_ok_def waveform_job_check_def job_terminal_def started_set_def
      succeeded_set_def finished_set_def)+

lemma evolves_sets:
  assumes "\<not> job_terminal j"
  shows "job_evolves j (started_set a now j)" and "job_evolves j (succeeded_set a b now j)"
    and "st \<noteq> QUEUED \<Longrightarrow> job_evolves j (finished_set st e now j)"
  using assms by (auto simp: job_evolves_def started_set_def succeeded_set_def finished_set_def)

text \<open>Updating an active job without ending it, and confirming its delivery to the queue.\<close>

lemma update_wf:
  assumes "waveforms_wf s" and "job \<in> set (jobs s)" and "tame f" and "job_ok (f job)"
    and "job_terminal (f job) = job_terminal job" and "job_terminal job \<Longrightarrow> job_status (f job) = job_status job"
  shows "waveforms_wf (s\<lparr>jobs := update_where (\<lambda>j. job_id j = job_id job) f (jobs s)\<rparr>)" (is "waveforms_wf ?t")
proof -
  note parts = wf_parts [OF assms(1)]
  have id: "job_id (f j) = job_id j" for j using assms(3) by (simp add: tame_def)
  have one: "k = job" if "k \<in> set (jobs s)" "job_id k = job_id job" for k
    using same_id [OF assms(1,2)] that by simp
  have "jobs_ok (jobs ?t)"
    using one assms(4,5) by (simp, intro jobs_ok_update [OF parts(1) assms(3)]) (auto simp: job_active_iff)
  moreover have "notices_ok (idents ?t) (jobs ?t) (requesters ?t)"
    using one assms(5,6) id by (simp, intro notices_ok_update [OF parts(4)]) auto
  moreover have "requesters_ok (requesters ?t) (jobs ?t)"
  proof -
    have "job_id ` set (jobs s) \<subseteq> job_id ` set (jobs ?t)" by (simp add: id)
    from requesters_ok_ids [OF parts(3) this] show ?thesis by simp
  qed
  ultimately show ?thesis using parts(2) by (simp add: waveforms_wf_def)
qed

section \<open>Requests\<close>

lemma requestWaveformJob_Inr:
  assumes "requestWaveformJob ids now ctx (i, allowed) s = (Inr r, s')"
  obtains a song v job s1 where "ctx_user ctx = Some a" and "ctx_ability ctx Manage All"
    and "lookup song_id i (songs s) = Some song" and "song_youtubeId song = Some v" and "is_video_id v"
    and "v \<in> set allowed" and "active_or_new (ids_job ids) now s i v = (job, s1)"
    and "s' = insertWaveformRequester s1 (job_id job) a"
    and "r = (job_project (job, song_slug song), findActiveWaveformJob s i v = None)"
proof -
  from assms obtain a song where a: "ctx_user ctx = Some a" "ctx_ability ctx Manage All"
    "lookup song_id i (songs s) = Some song" and t: "truthy (song_youtubeId song)"
    and r: "is_video_id (coalesce (song_youtubeId song) [])" "coalesce (song_youtubeId song) [] \<in> set allowed"
      "(case active_or_new (ids_job ids) now s i (coalesce (song_youtubeId song) []) of (job, s1) \<Rightarrow>
         (Inr (job_project (job, song_slug song),
             findActiveWaveformJob s i (coalesce (song_youtubeId song) []) = None),
          insertWaveformRequester s1 (job_id job) a)) = (Inr r :: failure + _, s')"
    by (auto simp: requestWaveformJob_def guard_simps lockWaveformSong_def Let_def)
  from t obtain v where v: "song_youtubeId song = Some v" by (auto simp: truthy_def split: option.splits)
  obtain job s1 where "active_or_new (ids_job ids) now s i v = (job, s1)" by (metis surj_pair)
  with a r v show ?thesis by (intro that) auto
qed

lemma jobs_evolve_more: "set (jobs s) \<subseteq> set (jobs s') \<Longrightarrow> jobs_evolve s s'"
  unfolding jobs_evolve_def by (metis job_evolves_refl subsetD)

lemma job_not_terminal: "job_active j \<Longrightarrow> \<not> job_terminal j"
  by (simp add: job_active_iff)

lemma requestWaveformJob_wf:
  assumes "waveforms_wf s" and "fresh_job s (ids_job ids)"
    and "requestWaveformJob ids now ctx (i, allowed) s = (Inr r, s')"
  shows "waveforms_wf s' \<and> jobs_evolve s s'"
  using assms(3)
proof (cases rule: requestWaveformJob_Inr)
  case (1 a song v job s1)
  note new = active_or_new_spec [OF assms(1) 1(5) assms(2) 1(7)]
  have "waveforms_wf s'"
    unfolding 1(8) using new by (intro insert_requester_wf) (auto simp: job_not_terminal)
  moreover have "jobs_evolve s s'"
    using new by (intro jobs_evolve_more) (simp add: 1(8))
  ultimately show ?thesis by blast
qed

section \<open>Imports\<close>

lemma importSongWaveform_Inr:
  assumes "importSongWaveform ids now ctx (i, result, replace) s = (Inr r, s')" and "waveforms_wf s"
    and "fresh_job s (ids_job ids)" and "is_video_id (wav_sourceId result)"
  obtains (matching) a song m where "ctx_user ctx = Some a" and "ctx_ability ctx Manage All"
      and "lookup song_id i (songs s) = Some song" and "song_youtubeId song = Some (wav_sourceId result)"
      and "findActiveWaveformJob s i (wav_sourceId result) = None"
      and "findMatchingWaveformJob s i result = Some m" and "s' = s" and "r = job_project (m, song_slug song)"
  | (stored) a song job s1 s3 where "ctx_user ctx = Some a" and "ctx_ability ctx Manage All"
      and "lookup song_id i (songs s) = Some song" and "song_youtubeId song = Some (wav_sourceId result)"
      and "active_or_new (ids_job ids) now s i (wav_sourceId result) = (job, s1)"
      and "s3 = storeWaveform (ids_waveform ids) now (insertWaveformRequester s1 (job_id job) a) i
          (wav_sourceId result) result"
      and "s' = notifyWaveformRequesters (ids_notice ids) now (job_id job) SUCCEEDED
          (s3\<lparr>jobs := update_where (\<lambda>j. job_id j = job_id job)
            (succeeded_set (ids_attempt ids) (job_startedAt job) now) (jobs s3)\<rparr>)"
      and "r = job_project (succeeded_set (ids_attempt ids) (job_startedAt job) now job, song_slug song)"
proof -
  let ?v = "wav_sourceId result"
  let ?match = "if findActiveWaveformJob s i ?v = None then findMatchingWaveformJob s i result else None"
  from assms(1) obtain a song where a: "ctx_user ctx = Some a" "ctx_ability ctx Manage All"
    "lookup song_id i (songs s) = Some song" "song_youtubeId song = Some ?v"
    and r: "(case ?match of
          Some m \<Rightarrow> (Inr (job_project (m, song_slug song)), s)
        | None \<Rightarrow> (case active_or_new (ids_job ids) now s i ?v of (job, s1) \<Rightarrow>
             (let s2 = insertWaveformRequester s1 (job_id job) a;
                  s3 = storeWaveform (ids_waveform ids) now s2 i ?v result in
              row_or_crash (updateWaveformJob s3 (job_id job)
                  (succeeded_set (ids_attempt ids) (job_startedAt job) now)) (\<lambda>finished s4.
                (Inr (job_project (finished, song_slug song)),
                 notifyWaveformRequesters (ids_notice ids) now (job_id job) SUCCEEDED s4))))) = (Inr r, s')"
    by (auto simp: importSongWaveform_def guard_simps lockWaveformSong_def Let_def)
  show thesis
  proof (cases ?match)
    case (Some m)
    with r have "s' = s" "r = job_project (m, song_slug song)" by simp_all
    with Some a show thesis by (intro matching) (auto split: if_splits)
  next
    case None
    obtain job s1 where act: "active_or_new (ids_job ids) now s i ?v = (job, s1)" by (metis surj_pair)
    note new = active_or_new_spec [OF assms(2,4,3) act]
    let ?s3 = "storeWaveform (ids_waveform ids) now (insertWaveformRequester s1 (job_id job) a) i ?v result"
    have "row_or_crash (updateWaveformJob ?s3 (job_id job) f) k =
        k (f job) (?s3\<lparr>jobs := update_where (\<lambda>x. job_id x = job_id job) f (jobs s1)\<rparr>)" for f and k :: "_ \<Rightarrow> _ \<Rightarrow> (waveform_job_view, db) use_case"
      using new by (intro row_or_crash_hit) simp_all
    with r None act a show thesis by (intro stored [of a song job s1 ?s3]) (simp_all add: Let_def)
  qed
qed

lemma importSongWaveform_wf:
  assumes "waveforms_wf s" and "fresh_job s (ids_job ids)" and "is_video_id (wav_sourceId result)"
    and "importSongWaveform ids now ctx (i, result, replace) s = (Inr r, s')"
  shows "waveforms_wf s' \<and> jobs_evolve s s'"
  using assms(4,1-3)
proof (cases rule: importSongWaveform_Inr)
  case matching
  then show ?thesis using assms(1) by (simp add: jobs_evolve_same)
next
  case (stored a song job s1 s3)
  note new = active_or_new_spec [OF assms(1,3,2) stored(5)]
  let ?s2 = "insertWaveformRequester s1 (job_id job) a"
  have act: "\<not> job_terminal job" using new by (simp add: job_not_terminal)
  have wf2: "waveforms_wf ?s2" using new act by (intro insert_requester_wf) simp_all
  have "job \<in> set (jobs s1)" using new by blast
  then have ok: "job_ok job" using new wf_parts(6) by blast
  have "waveforms_wf s'"
    unfolding stored(7)
  proof (rule finish_wf [OF wf2])
    show "waveforms_ok (waveforms s3)"
      unfolding stored(6) using wf_parts(2) [OF wf2] assms(3) by (intro waveforms_ok_store) simp_all
    show "job_terminal (succeeded_set a b now j) \<and> job_status (succeeded_set a b now j) = SUCCEEDED" for a b j
      by (simp add: succeeded_set_def job_terminal_def)
  qed (use new act ok in \<open>simp_all add: stored(6) tame_sets job_ok_sets\<close>)
  moreover have "jobs_evolve s s'"
  proof (rule jobs_evolve_trans)
    show "jobs_evolve s s1" using new by (intro jobs_evolve_more) simp
    have "job_evolves k (succeeded_set (ids_attempt ids) (job_startedAt job) now k)"
      if "k \<in> set (jobs s1)" "job_id k = job_id job" for k
      using same_id [of s1 job k] new that evolves_sets(2) [OF act] by simp
    then show "jobs_evolve s1 s'"
      by (intro jobs_evolve_update [where i = "job_id job"
            and f = "succeeded_set (ids_attempt ids) (job_startedAt job) now"])
        (simp_all add: stored(6,7))
  qed
  ultimately show ?thesis by blast
qed

section \<open>The runner's calls\<close>

lemma lookup_job: "lookup job_id i (jobs s) = Some j \<Longrightarrow> j \<in> set (jobs s) \<and> job_id j = i"
  by (rule lookup_SomeD)

lemma lockRunnerJob_Inr [guard_simps]:
  "lockRunnerJob s input k = (Inr r, s') \<longleftrightarrow>
    (\<exists>job song. lookup job_id (qp_jobId input) (jobs s) = Some job \<and>
      lookup song_id (job_songId job) (songs s) = Some song \<and>
      job_songId job = qp_songId input \<and> job_videoId job = qp_videoId input \<and> k job song = (Inr r, s'))"
  by (auto simp: lockRunnerJob_def guard_simps findWaveformJob_def lockWaveformSong_def lockWaveformJob_def
      split: option.splits)

lemma recordWaveformEnqueued_wf:
  assumes "waveforms_wf s" and "recordWaveformEnqueued (input, t) s = (Inr r, s')"
  shows "waveforms_wf s' \<and> jobs_evolve s s'"
proof -
  let ?f = "\<lambda>j. j\<lparr>job_enqueuedAt := Some t\<rparr>"
  from assms(2) obtain job where job: "lookup job_id (qp_jobId input) (jobs s) = Some job"
    and r: "(if job_enqueuedAt job \<noteq> None then (Inr (projectRunner job), s)
        else row_or_crash (updateWaveformJob s (job_id job) ?f)
          (\<lambda>updated s1. (Inr (projectRunner updated), s1))) = (Inr r :: failure + _, s')"
    by (auto simp: recordWaveformEnqueued_def guard_simps)
  have mem: "job \<in> set (jobs s)" using lookup_job [OF job] by simp
  show ?thesis
  proof (cases "job_enqueuedAt job = None")
    case True
    with r have s': "s' = s\<lparr>jobs := update_where (\<lambda>x. job_id x = job_id job) ?f (jobs s)\<rparr>"
      by (simp add: row_or_crash_hit [OF assms(1) mem])
    have "job_ok (?f job)"
      using wf_parts(6) [OF assms(1) mem]
      by (cases "job_status job") (auto simp: job_ok_def waveform_job_check_def job_terminal_def)
    then have "waveforms_wf s'"
      unfolding s' using mem by (intro update_wf assms(1)) (simp_all add: tame_sets job_terminal_def)
    moreover have "job_evolves k (?f k)" if "k \<in> set (jobs s)" "job_id k = job_id job" for k
      using same_id [OF assms(1) mem that] True by (simp add: job_evolves_def)
    then have "jobs_evolve s s'"
      by (intro jobs_evolve_update [where i = "job_id job" and f = ?f]) (simp_all add: s')
    ultimately show ?thesis by blast
  next
    case False
    with r assms(1) show ?thesis by (simp add: jobs_evolve_same)
  qed
qed

text \<open>The runner takes a job only when it names the attempt it has seen.\<close>

lemma startWaveformJob_Inr:
  assumes "waveforms_wf s" and "startWaveformJob attempt now (input, expected) s = (Inr r, s')"
  obtains (refused) job where "lookup job_id (qp_jobId input) (jobs s) = Some job"
      and "job_terminal job \<or> job_attemptId job \<noteq> expected" and "r = (projectRunner job, False)" and "s' = s"
  | (started) job song where "lookup job_id (qp_jobId input) (jobs s) = Some job" and "\<not> job_terminal job"
      and "job_attemptId job = expected" and "lookup song_id (job_songId job) (songs s) = Some song"
      and "song_youtubeId song = Some (job_videoId job)"
      and "r = (projectRunner (started_set attempt now job), True)"
      and "s' = s\<lparr>jobs := update_where (\<lambda>x. job_id x = job_id job) (started_set attempt now) (jobs s)\<rparr>"
proof -
  from assms(2) obtain job song where job: "lookup job_id (qp_jobId input) (jobs s) = Some job"
    "lookup song_id (job_songId job) (songs s) = Some song"
    and r: "(if job_terminal job \<or> job_attemptId job \<noteq> expected then (Inr (projectRunner job, False), s)
      else throw_if (song_youtubeId song \<noteq> Some (job_videoId job)) (AppError WAVEFORM_SOURCE_INVALID) s
        (row_or_crash (updateWaveformJob s (job_id job) (started_set attempt now)) (\<lambda>current s1.
          (Inr (projectRunner current, True), s1)))) = (Inr r, s')"
    by (auto simp: startWaveformJob_def guard_simps)
  have mem: "job \<in> set (jobs s)" using lookup_job [OF job(1)] by simp
  show thesis
  proof (cases "job_terminal job \<or> job_attemptId job \<noteq> expected")
    case True
    with r job(1) show thesis by (intro refused) auto
  next
    case False
    with r job show thesis
      by (intro started [of job song]) (auto simp: guard_simps row_or_crash_hit [OF assms(1) mem])
  qed
qed

lemma startWaveformJob_wf:
  assumes "waveforms_wf s" and "startWaveformJob attempt now (input, expected) s = (Inr r, s')"
  shows "waveforms_wf s' \<and> jobs_evolve s s'"
  using assms
proof (cases rule: startWaveformJob_Inr)
  case (refused job)
  then show ?thesis using assms(1) by (simp add: jobs_evolve_same)
next
  case (started job song)
  have mem: "job \<in> set (jobs s)" using lookup_job [OF started(1)] by simp
  have "waveforms_wf s'"
    unfolding started(7) using mem started(2) job_ok_sets(1) [OF wf_parts(6) [OF assms(1) mem]]
    by (intro update_wf assms(1)) (simp_all add: tame_sets, simp add: started_set_def job_terminal_def)
  moreover have "job_evolves k (started_set attempt now k)" if "k \<in> set (jobs s)" "job_id k = job_id job" for k
    using same_id [OF assms(1) mem that] evolves_sets(1) [OF started(2)] by simp
  then have "jobs_evolve s s'"
    by (intro jobs_evolve_update [where i = "job_id job" and f = "started_set attempt now"])
      (simp_all add: started(7))
  ultimately show ?thesis by blast
qed

definition report_ok :: "waveform_terminal \<Rightarrow> bool" where
  "report_ok input \<longleftrightarrow>
    (case input of Report_succeeded _ _ d \<Rightarrow> is_video_id (wav_sourceId d) | Report_failed _ _ _ \<Rightarrow> True)"

text \<open>When a report applies.\<close>

definition report_applies :: "waveform_job_row \<Rightarrow> waveform_terminal \<Rightarrow> bool" where
  "report_applies job input \<longleftrightarrow>
    \<not> job_terminal job \<and> job_attemptId job = terminal_attemptId input \<and>
    (is_enqueue_failure input \<longrightarrow>
      job_status job = QUEUED \<and> job_attemptId job = None \<and> job_enqueuedAt job = None)"

lemma completeWaveformJob_Inr:
  assumes "completeWaveformJob ids now seen input s = (Inr r, s')"
  obtains (ignored) job where "lookup job_id (terminal_jobId input) (jobs s) = Some job"
      and "\<not> report_applies job input" and "r = report_ack job False" and "s' = s"
  | (applied) found song job st e s1 where "seen = Some found"
      and "lookup song_id (job_songId (fst found)) (songs s) = Some song"
      and "lookup job_id (terminal_jobId input) (jobs s) = Some job" and "report_applies job input"
      and "terminal_outcome (ids_waveform ids) now song job input s = (st, e, s1)"
      and "r = (report_ack job True)\<lparr>ack_status := st\<rparr>"
      and "s' = notifyWaveformRequesters (ids_notice ids) now (job_id job) st
        (s1\<lparr>jobs := update_where (\<lambda>j. job_id j = job_id job) (finished_set st e now) (jobs s1)\<rparr>)"
proof -
  from assms obtain found song job where f: "seen = Some found"
    "lookup song_id (job_songId (fst found)) (songs s) = Some song"
    "lookup job_id (terminal_jobId input) (jobs s) = Some job"
    and r: "(if job_terminal job \<or> job_attemptId job \<noteq> terminal_attemptId input
        then (Inr (report_ack job False), s)
      else if is_enqueue_failure input \<and>
        (job_status job \<noteq> QUEUED \<or> job_attemptId job \<noteq> None \<or> job_enqueuedAt job \<noteq> None)
      then (Inr (report_ack job False), s)
      else (case terminal_outcome (ids_waveform ids) now song job input s of (status, errorCode, s1) \<Rightarrow>
        (case updateWaveformJob s1 (job_id job) (finished_set status errorCode now) of (_, s2) \<Rightarrow>
          (Inr ((report_ack job True)\<lparr>ack_status := status\<rparr>),
           notifyWaveformRequesters (ids_notice ids) now (job_id job) status s2)))) = (Inr r :: failure + _, s')"
    by (auto simp: completeWaveformJob_def guard_simps lockWaveformSong_def lockWaveformJob_def)
  obtain st e s1 where out: "terminal_outcome (ids_waveform ids) now song job input s = (st, e, s1)"
    by (metis prod_cases3)
  show thesis
  proof (cases "report_applies job input")
    case True
    then have "\<not> (job_terminal job \<or> job_attemptId job \<noteq> terminal_attemptId input)"
      "\<not> (is_enqueue_failure input \<and>
        (job_status job \<noteq> QUEUED \<or> job_attemptId job \<noteq> None \<or> job_enqueuedAt job \<noteq> None))"
      by (auto simp: report_applies_def)
    with r True f out show thesis
      by (intro applied [of found song job st e s1]) (auto simp: updateWaveformJob_def)
  next
    case False
    with r have "r = report_ack job False \<and> s' = s"
      by (auto simp: report_applies_def split: if_splits)
    with False f show thesis by (intro ignored) auto
  qed
qed

lemma terminal_outcome_spec:
  assumes "terminal_outcome wid now song job input s = (st, e, s1)" and "report_ok input"
    and "waveforms_ok (waveforms s)" and "is_video_id (job_videoId job)"
  shows "(st = FAILED \<and> e \<noteq> None \<and> s1 = s \<or> st = SUCCEEDED \<and> e = None \<and> terminal_attemptId input \<noteq> None) \<and>
    waveforms_ok (waveforms s1) \<and> jobs s1 = jobs s \<and> requesters s1 = requesters s \<and>
    notifications s1 = notifications s \<and> songs s1 = songs s"
  using assms
  by (cases "(wid, now, song, job, input, s)" rule: terminal_outcome.cases)
    (auto simp: waveforms_ok_store split: if_splits)

lemma completeWaveformJob_wf:
  assumes "waveforms_wf s" and "report_ok input" and "completeWaveformJob ids now seen input s = (Inr r, s')"
  shows "waveforms_wf s' \<and> jobs_evolve s s'"
  using assms(3)
proof (cases rule: completeWaveformJob_Inr)
  case ignored
  then show ?thesis using assms(1) by (simp add: jobs_evolve_same)
next
  case (applied found song job st e s1)
  have mem: "job \<in> set (jobs s)" using lookup_job [OF applied(3)] by simp
  have ok: "job_ok job" by (rule wf_parts(6) [OF assms(1) mem])
  have act: "\<not> job_terminal job" "job_attemptId job = terminal_attemptId input"
    using applied(4) by (simp_all add: report_applies_def)
  have "is_video_id (job_videoId job)" using ok by (simp add: job_ok_def waveform_job_check_def)
  note out = terminal_outcome_spec [OF applied(5) assms(2) wf_parts(2) [OF assms(1)] this]
  then have st: "st = FAILED \<and> e \<noteq> None \<or> st = SUCCEEDED \<and> e = None \<and> job_attemptId job \<noteq> None"
    by (auto simp: act(2))
  have fin: "job_ok (finished_set st e now job)"
    using st job_ok_sets(3,4) [OF ok act(1)] by auto
  have "waveforms_wf s'"
    unfolding applied(7) by (rule finish_wf [OF assms(1) mem act(1)])
      (use out st fin in \<open>auto simp: tame_sets finished_set_def job_terminal_def\<close>)
  moreover have "job_evolves k (finished_set st e now k)" if "k \<in> set (jobs s)" "job_id k = job_id job" for k
    using same_id [OF assms(1) mem that] evolves_sets(3) [OF act(1), of st] st by auto
  then have "jobs_evolve s s'"
    by (intro jobs_evolve_update [where i = "job_id job" and f = "finished_set st e now"])
      (simp_all add: applied(7) out)
  ultimately show ?thesis by blast
qed

section \<open>Steps\<close>

text \<open>
  The requests on waveforms, with whatever row the report read before its transaction, and the
  requests that do not touch them; then the deletions that take the jobs of a song with them.  New
  identifiers come from UUIDv7 and are assumed new; inputs have passed their contract schemas.
\<close>

definition same_waveforms :: "db \<Rightarrow> db \<Rightarrow> bool" where
  "same_waveforms s s' \<longleftrightarrow> jobs s' = jobs s \<and> requesters s' = requesters s \<and> waveforms s' = waveforms s \<and>
    idents s' = idents s"

inductive flow_step :: "db \<Rightarrow> db \<Rightarrow> bool" where
  flow_request: "fresh_job s (ids_job ids) \<Longrightarrow> requestWaveformJob ids now ctx (i, allowed) s = (r, s') \<Longrightarrow>
    flow_step s s'"
| flow_import: "fresh_job s (ids_job ids) \<Longrightarrow> waveformDataSchema size_of result \<Longrightarrow>
    importSongWaveform ids now ctx (i, result, replace) s = (v, s') \<Longrightarrow> flow_step s s'"
| flow_enqueued: "recordWaveformEnqueued (input, t) s = (q, s') \<Longrightarrow> flow_step s s'"
| flow_start: "startWaveformJob attempt now (input, expected) s = (st, s') \<Longrightarrow> flow_step s s'"
| flow_complete: "report_ok report \<Longrightarrow> completeWaveformJob ids now seen report s = (a, s') \<Longrightarrow> flow_step s s'"
| flow_other: "same_waveforms s s' \<Longrightarrow> flow_step s s'"

inductive waveform_step :: "db \<Rightarrow> db \<Rightarrow> bool" where
  step_flow: "flow_step s s' \<Longrightarrow> waveform_step s s'"
| step_delete_song: "deleteSong ctx i s = (d, s') \<Longrightarrow> waveform_step s s'"
| step_delete_album: "deleteAlbum ctx i s = (d, s') \<Longrightarrow> waveform_step s s'"

lemma schema_video: "waveformDataSchema size_of d \<Longrightarrow> is_video_id (wav_sourceId d)"
  by (simp add: waveformDataSchema_def Let_def)

lemma same_waveforms_wf: "same_waveforms s s' \<Longrightarrow> waveforms_wf s \<Longrightarrow> waveforms_wf s'"
  by (simp add: same_waveforms_def waveforms_wf_def)

text \<open>Reading notifications is one of the other requests.\<close>

lemma update_idents:
  "(\<And>r. ntf_ident (f r) = ntf_ident r) \<Longrightarrow> map ntf_ident (update_where p f t) = map ntf_ident t"
  by (rule map_key_update_where)

lemma read_same_waveforms: "same_waveforms s (snd (readNotification now ctx i s))"
proof -
  have "map ntf_ident (update_where (read_pred a i) (read_set now) t) = map ntf_ident t" for a t
    by (rule update_idents) (simp add: ntf_ident_def read_set_def)
  then show ?thesis
    by (auto simp: readNotification_def as_admin_def same_waveforms_def Let_def or_throw_def
        split: sum.split option.split)
qed

lemma failed_same:
  assumes "transaction f s = (Inl e, s')"
  shows "s' = s"
  using assms by (rule transaction_Inl)

lemma flow_step_wf:
  assumes "flow_step s s'" and "waveforms_wf s"
  shows "waveforms_wf s' \<and> jobs_evolve s s'"
  using assms(1)
proof cases
  case (flow_request ids now ctx i allowed r)
  show ?thesis
  proof (cases r)
    case Inl
    with flow_request(2) have "s' = s" using request_waveform.rollback by blast
    then show ?thesis using assms(2) by (simp add: jobs_evolve_same)
  qed (use requestWaveformJob_wf [OF assms(2)] flow_request in blast)
next
  case (flow_import ids size_of result now ctx i replace v)
  show ?thesis
  proof (cases v)
    case Inl
    with flow_import(3) have "s' = s" using import_waveform.rollback by blast
    then show ?thesis using assms(2) by (simp add: jobs_evolve_same)
  qed (use importSongWaveform_wf [OF assms(2) _ schema_video] flow_import in blast)
next
  case (flow_enqueued input t q)
  show ?thesis
  proof (cases q)
    case Inl
    with flow_enqueued have "s' = s" using failed_same by (auto simp: recordWaveformEnqueued_def)
    then show ?thesis using assms(2) by (simp add: jobs_evolve_same)
  qed (use recordWaveformEnqueued_wf [OF assms(2)] flow_enqueued in blast)
next
  case (flow_start attempt now input expected st)
  show ?thesis
  proof (cases st)
    case Inl
    with flow_start have "s' = s" using failed_same by (auto simp: startWaveformJob_def)
    then show ?thesis using assms(2) by (simp add: jobs_evolve_same)
  qed (use startWaveformJob_wf [OF assms(2)] flow_start in blast)
next
  case (flow_complete report ids now seen a)
  show ?thesis
  proof (cases a)
    case Inl
    with flow_complete(2) have "s' = s"
      by (cases seen) (auto simp: completeWaveformJob_def dest: failed_same)
    then show ?thesis using assms(2) by (simp add: jobs_evolve_same)
  qed (use completeWaveformJob_wf [OF assms(2)] flow_complete in blast)
next
  case flow_other
  then show ?thesis using assms(2) same_waveforms_wf by (simp add: same_waveforms_def jobs_evolve_same)
qed

lemma notices_ok_subset:
  assumes "notices_ok ns js rs" and "set js' \<subseteq> set js" and "set rs' \<subseteq> set rs"
  shows "notices_ok ns js' rs'"
  using assms unfolding notices_ok_def by blast

lemma waveforms_removed_wf:
  assumes "waveforms_wf s"
  shows "waveforms_wf (songs_removed p s)" (is "waveforms_wf ?t")
proof -
  note parts = wf_parts [OF assms]
  have js: "jobs ?t = filter (\<lambda>j. \<not> p (job_songId j)) (jobs s)" "idents ?t = idents s"
    "set (requesters ?t) \<subseteq> set (requesters s)" "waveforms ?t = filter (\<lambda>w. \<not> p (wf_songId w)) (waveforms s)"
    by (auto simp: songs_removed_def Let_def delete_where_def)
  have "one_active (jobs ?t)"
  proof (rule one_activeI)
    fix j k
    assume jk: "j \<in> set (jobs ?t)" "k \<in> set (jobs ?t)" "job_active j" "job_active k"
      "job_songId j = job_songId k" "job_videoId j = job_videoId k"
    have "one_active (jobs s)" using parts(1) by (simp add: jobs_ok_def)
    moreover have "j \<in> set (jobs s)" "k \<in> set (jobs s)"
      using jk(1,2) unfolding js(1) by simp_all
    ultimately show "job_id j = job_id k" using one_activeD jk(3-6) by blast
  qed
  then have "jobs_ok (jobs ?t)"
    using parts(1) by (simp add: jobs_ok_def distinct_delete_where set_delete_where)
  moreover have "waveforms_ok (waveforms ?t)"
    using parts(2) unfolding js by (simp add: waveforms_ok_def distinct_map_filter)
  moreover have "notices_ok (idents ?t) (jobs ?t) (requesters ?t)"
    unfolding js(2) by (rule notices_ok_subset [OF parts(4) _ js(3)]) (simp add: js(1) subset_iff set_delete_where)
  moreover have "requesters_ok (requesters ?t) (jobs ?t)"
    using parts(3) by (auto simp: requesters_ok_def songs_removed_def Let_def delete_where_def image_iff)
  ultimately show ?thesis by (simp add: waveforms_wf_def)
qed

lemma removed_albums_wf: "waveforms_wf (s\<lparr>albums := al\<rparr>) = waveforms_wf s"
  by (simp add: waveforms_wf_def)

lemma waveform_step_wf:
  assumes "waveform_step s s'" and "waveforms_wf s"
  shows "waveforms_wf s'"
  using assms(1)
proof cases
  case step_flow
  then show ?thesis using flow_step_wf [OF _ assms(2)] by blast
next
  case (step_delete_song ctx i d)
  then show ?thesis
  proof (cases d)
    case Inl
    with step_delete_song show ?thesis using assms(2) delete_song.rollback by blast
  next
    case Inr
    with step_delete_song have "s' = songs_removed (\<lambda>j. j = i) s" by (auto elim: deleteSong_cases)
    then show ?thesis using waveforms_removed_wf [OF assms(2)] by simp
  qed
next
  case (step_delete_album ctx i d)
  then show ?thesis
  proof (cases d)
    case Inl
    with step_delete_album show ?thesis using assms(2) delete_album.rollback by blast
  next
    case Inr
    with step_delete_album have "\<exists>al. s' = (songs_removed (song_in_album s i) s)\<lparr>albums := al\<rparr>"
      by (auto simp: deleteAlbum_def guard_simps dest!: removeAlbum_cases)
    then show ?thesis using waveforms_removed_wf [OF assms(2)] by (auto simp: removed_albums_wf)
  qed
qed

section \<open>Sample jobs\<close>

definition demo_ids :: job_ids where
  "demo_ids = \<lparr>ids_job = ''j1'', ids_attempt = ''at1'', ids_waveform = ''w1'',
    ids_notice = (\<lambda>a. ''n'' @ a, \<lambda>a i. ''d'' @ a @ i)\<rparr>"

definition demo_peaks :: waveform_data where
  "demo_peaks = \<lparr>wav_durationMs = 20, wav_bucketSizeMs = 10,
    wav_peaks = \<lparr>peaks_version = 2, peaks_channels = Some 1, peaks_sample_rate = 1000,
      peaks_samples_per_pixel = 10, peaks_length = 2, peaks_values = [-1, 1, -2, 2]\<rparr>,
    wav_sourceId = ''dQw4w9WgXcQ''\<rparr>"

definition demo_job :: waveform_job_row where
  "demo_job = new_job ''j1'' 5 ''so1'' ''dQw4w9WgXcQ''"

definition demo_wave :: db where
  "demo_wave = demo_db\<lparr>jobs := [demo_job], requesters := [\<lparr>req_jobId = ''j1'', req_accountId = ''adm''\<rparr>]\<rparr>"

definition demo_payload :: queue_payload where
  "demo_payload = \<lparr>qp_jobId = ''j1'', qp_songId = ''so1'', qp_videoId = ''dQw4w9WgXcQ''\<rparr>"

definition demo_taken :: db where
  "demo_taken = demo_wave\<lparr>jobs := [started_set ''at1'' 6 demo_job]\<rparr>"

lemma demo_video: "is_video_id ''dQw4w9WgXcQ''"
  by (simp add: is_video_id_def is_video_char_def)

lemma demo_peaks_ok: "waveformDataSchema (\<lambda>_. 100) demo_peaks"
  using demo_video
  by (simp add: waveformDataSchema_def demo_peaks_def Let_def peaksSchema_def int_between_def bucket_ms_def)

lemma demo_wave_song_simps [simp]:
  "song_youtubeId (demo_song i) = Some ''dQw4w9WgXcQ''" "song_id (demo_song i) = i" "song_slug (demo_song i) = Some i"
  by (simp_all add: demo_song_def)

lemma demo_wave_simps [simp]:
  "jobs demo_db = []" "requesters demo_db = []" "waveforms demo_db = []" "notifications demo_db = []"
  "jobs demo_wave = [demo_job]" "songs demo_wave = songs demo_db" "waveforms demo_wave = []"
  "requesters demo_wave = [\<lparr>req_jobId = ''j1'', req_accountId = ''adm''\<rparr>]" "notifications demo_wave = []"
  "jobs demo_taken = [started_set ''at1'' 6 demo_job]" "songs demo_taken = songs demo_db"
  "requesters demo_taken = requesters demo_wave" "waveforms demo_taken = []" "notifications demo_taken = []"
  by (simp_all add: demo_wave_def demo_taken_def demo_db_def empty_db_def)

lemma demo_job_simps [simp]:
  "job_id demo_job = ''j1''" "job_songId demo_job = ''so1''" "job_videoId demo_job = ''dQw4w9WgXcQ''"
  "job_status demo_job = QUEUED" "job_attemptId demo_job = None" "\<not> job_terminal demo_job"
  by (simp_all add: demo_job_def job_terminal_def)

lemma demo_db_waveforms: "waveforms_wf demo_db"
  by (simp add: waveforms_wf_def jobs_ok_def one_active_def waveforms_ok_def requesters_ok_def notices_ok_def)

lemma demo_request:
  "requestWaveformJob demo_ids 5 admin_ctx (''so1'', [''dQw4w9WgXcQ'']) demo_db =
    (Inr (job_project (demo_job, Some ''so1''), True), demo_wave)"
  using demo_video
  by (simp add: requestWaveformJob_def as_admin_admin transaction_def lockWaveformSong_def active_or_new_def
      findActiveWaveformJob_def insertWaveformJob_def insertWaveformRequester_def truthy_def demo_ids_def
      demo_job_def [symmetric] demo_wave_def)

lemma demo_fresh: "fresh_job demo_db (ids_job demo_ids)"
  by (simp add: fresh_job_def)

lemma demo_wave_wf: "waveforms_wf demo_wave"
  using requestWaveformJob_wf [OF demo_db_waveforms demo_fresh demo_request] by blast

lemma demo_lock: "lockRunnerJob demo_wave demo_payload k = k demo_job (demo_song ''so1'')"
  by (simp add: lockRunnerJob_def findWaveformJob_def lockWaveformSong_def lockWaveformJob_def demo_payload_def)

lemma demo_start:
  "startWaveformJob ''at1'' 6 (demo_payload, None) demo_wave =
    (Inr (projectRunner (started_set ''at1'' 6 demo_job), True), demo_taken)"
  by (simp add: startWaveformJob_def transaction_def demo_lock row_or_crash_def updateWaveformJob_def
      returning_def demo_taken_def)

lemma demo_taken_wf: "waveforms_wf demo_taken"
  using startWaveformJob_wf [OF demo_wave_wf demo_start] by blast

lemma waveform_steps_wf: "waveform_step\<^sup>*\<^sup>* s s' \<Longrightarrow> waveforms_wf s \<Longrightarrow> waveforms_wf s'"
  by (induction rule: rtranclp_induct) (auto dest: waveform_step_wf)

lemma demo_steps: "waveform_step\<^sup>*\<^sup>* demo_db demo_taken"
proof -
  have "waveform_step demo_db demo_wave" "waveform_step demo_wave demo_taken"
    using flow_request [OF demo_fresh demo_request] flow_start [OF demo_start] by (auto intro: step_flow)
  then show ?thesis by (meson converse_rtranclp_into_rtranclp rtranclp.rtrancl_refl)
qed

section \<open>Properties of the whole flow\<close>

text \<open>C6.
  Whatever the order of requests, imports, runner calls, late or repeated reports and deletions, the
  waveform tables stay well-formed: every job satisfies its CHECK constraints, no song has two active
  jobs for the same video, a stored waveform always belongs to the video it was computed from, and a
  notification about a job always tells how that job ended.\<close>

theorem waveform_invariant:
  assumes "waveform_step\<^sup>*\<^sup>* s s'" and "waveforms_wf s"
  shows "waveforms_wf s'"
  using waveform_steps_wf [OF assms] .

theorem waveform_invariant_witness: "waveforms_wf demo_taken"
  using waveform_invariant [OF demo_steps demo_db_waveforms] .

text \<open>C25.
  Along any sequence of requests, imports and runner calls a job only moves forward: it keeps its
  identity, its song, its video and its creation time, is never queued again once taken, and once it
  has succeeded or failed its status, error, attempt, start and finish never change again. The time it
  was handed to the queue is written once: it may still be filled in on a finished job, when the
  runner was faster than the note of the enqueueing, and is never replaced.\<close>

theorem job_life:
  assumes "flow_step\<^sup>*\<^sup>* s s'" and "waveforms_wf s" and "j \<in> set (jobs s)"
  shows "\<exists>j' \<in> set (jobs s'). job_evolves j j'"
proof -
  have "waveforms_wf s' \<and> jobs_evolve s s'"
    using assms(1)
  proof (induction rule: rtranclp_induct)
    case base
    then show ?case using assms(2) by (simp add: jobs_evolve_same)
  next
    case (step t u)
    then show ?case using flow_step_wf jobs_evolve_trans by blast
  qed
  with assms(3) show ?thesis by (simp add: jobs_evolve_def)
qed

theorem job_life_witness: "\<exists>j' \<in> set (jobs demo_taken). job_evolves demo_job j'"
proof -
  have "flow_step\<^sup>*\<^sup>* demo_wave demo_taken" using flow_start [OF demo_start] by blast
  from job_life [OF this demo_wave_wf] show ?thesis by simp
qed

lemma filter_ident_unique:
  assumes "distinct (map f xs)" and "\<And>x. x \<in> set xs \<Longrightarrow> P x \<longleftrightarrow> f x = k" and "k \<in> f ` set xs"
  shows "length (filter P xs) = 1"
proof -
  have "filter P xs = filter (\<lambda>x. f x = k) xs" using assms(2) by (intro filter_cong) auto
  moreover have "length (filter (\<lambda>x. f x = k) xs) = length (filter (\<lambda>y. y = k) (map f xs))"
    by (simp add: filter_map comp_def)
  moreover have "{y. y = k} \<inter> set (map f xs) = {k}" using assms(3) by auto
  then have "length (filter (\<lambda>y. y = k) (map f xs)) = 1"
    using distinct_length_filter [OF assms(1), of "\<lambda>y. y = k"] by simp
  ultimately show ?thesis by simp
qed

text \<open>C7.
  Everyone who asked for a job learns how it ended, exactly once: in every reachable state, for each
  requester of a job that has succeeded or failed there is one notification about the job, and it is of
  the kind that says how the job ended.\<close>

theorem requesters_notified_once:
  assumes "waveform_step\<^sup>*\<^sup>* s s'" and "waveforms_wf s" and "r \<in> set (requesters s')" and "j \<in> set (jobs s')"
    and "req_jobId r = job_id j" and "job_terminal j"
  shows "length (filter (\<lambda>n. ntf_recipientAccountId n = req_accountId r \<and> ntf_eventKey n = job_id j)
      (notifications s')) = 1 \<and>
    (\<forall>n \<in> set (notifications s'). ntf_recipientAccountId n = req_accountId r \<and> ntf_eventKey n = job_id j \<longrightarrow>
      ntf_type n = (if job_status j = SUCCEEDED then WAVEFORM_SUCCEEDED else WAVEFORM_FAILED))"
proof -
  have wf: "waveforms_wf s'" by (rule waveform_steps_wf [OF assms(1,2)])
  note told = notices_okD [OF wf_parts(4) [OF wf] assms(4)]
  have ty: "ntf_type n = outcome_type (job_status j)"
    if "n \<in> set (notifications s')" "ntf_eventKey n = job_id j" for n
  proof -
    have "(ntf_recipientAccountId n, ntf_type n, job_id j) \<in> set (idents s')"
      using that by (auto simp: ntf_ident_def image_iff intro!: bexI [of _ n])
    from told(1) [OF this] show ?thesis by simp
  qed
  have "length (filter (\<lambda>n. ntf_recipientAccountId n = req_accountId r \<and> ntf_eventKey n = job_id j)
      (notifications s')) = 1"
    using ty told(2) [OF assms(3,5,6)] wf_parts(7) [OF wf]
    by (intro filter_ident_unique [where f = ntf_ident and
          k = "(req_accountId r, outcome_type (job_status j), job_id j)"]) (auto simp: ntf_ident_def)
  with ty show ?thesis by (simp add: outcome_type_def)
qed

text \<open>The sample job reported as finished.\<close>

definition demo_report :: waveform_terminal where
  "demo_report = Report_succeeded ''j1'' ''at1'' demo_peaks"

definition demo_done :: db where
  "demo_done = snd (completeWaveformJob demo_ids 7 (findWaveformJob demo_taken ''j1'') demo_report demo_taken)"

lemma demo_started_simps [simp]:
  "job_id (started_set a t demo_job) = ''j1''" "job_status (started_set a t demo_job) = RUNNING"
  "job_attemptId (started_set a t demo_job) = Some a" "job_songId (started_set a t demo_job) = ''so1''"
  "job_videoId (started_set a t demo_job) = ''dQw4w9WgXcQ''" "\<not> job_terminal (started_set a t demo_job)"
  by (simp_all add: started_set_def job_terminal_def)

lemma demo_report_applies: "report_applies (started_set ''at1'' 6 demo_job) demo_report"
  by (simp add: report_applies_def demo_report_def)

lemma demo_report_ok: "report_ok demo_report"
  using demo_video by (simp add: report_ok_def demo_report_def demo_peaks_def)

lemma demo_found: "findWaveformJob demo_taken ''j1'' = Some (started_set ''at1'' 6 demo_job, Some ''so1'')"
  by (simp add: findWaveformJob_def)

lemma demo_complete:
  "completeWaveformJob demo_ids 7 (findWaveformJob demo_taken ''j1'') demo_report demo_taken =
    (Inr ((report_ack (started_set ''at1'' 6 demo_job) True)\<lparr>ack_status := SUCCEEDED\<rparr>), demo_done)"
  unfolding demo_done_def
  by (simp add: completeWaveformJob_def demo_found lockWaveformSong_def lockWaveformJob_def demo_report_def
      transaction_def updateWaveformJob_def demo_peaks_def)

lemma demo_done_step: "waveform_step\<^sup>*\<^sup>* demo_db demo_done"
  using demo_steps flow_complete [OF demo_report_ok demo_complete]
  by (meson rtranclp.rtrancl_into_rtrancl step_flow)

lemma demo_done_tables:
  "jobs demo_done = [finished_set SUCCEEDED None 7 (started_set ''at1'' 6 demo_job)]"
  "requesters demo_done = requesters demo_wave"
  by (simp_all add: demo_done_def completeWaveformJob_def demo_found lockWaveformSong_def lockWaveformJob_def
      demo_report_def transaction_def updateWaveformJob_def demo_peaks_def)

theorem requesters_notified_once_witness:
  "length (filter (\<lambda>n. ntf_recipientAccountId n = ''adm'' \<and> ntf_eventKey n = ''j1'') (notifications demo_done)) = 1"
  using requesters_notified_once [OF demo_done_step demo_db_waveforms,
      of "\<lparr>req_jobId = ''j1'', req_accountId = ''adm''\<rparr>" "finished_set SUCCEEDED None 7 (started_set ''at1'' 6 demo_job)"]
  by (simp add: demo_done_tables finished_set_def job_terminal_def)

section \<open>Attempts\<close>

text \<open>
  Taking a job revokes the previous attempt: after the runner has started a job with a new attempt, the
  same start request is refused, and reports that carry any other attempt - of the container that held
  the job before - are acknowledged as not applied; both leave the whole state as it is.\<close>

theorem attempt_exclusive:
  assumes "waveforms_wf s" and "startWaveformJob attempt now (input, expected) s = (Inr (view, True), s')"
    and "expected \<noteq> Some attempt"
  shows "rj_attemptId view = Some attempt \<and> rj_status view = RUNNING \<and>
    (\<forall>attempt' now'. \<exists>v. startWaveformJob attempt' now' (input, expected) s' = (Inr (v, False), s')) \<and>
    (\<forall>ids now' seen report ack s''. terminal_jobId report = qp_jobId input \<and>
      terminal_attemptId report \<noteq> Some attempt \<and>
      completeWaveformJob ids now' seen report s' = (Inr ack, s'') \<longrightarrow> \<not> ack_applied ack \<and> s'' = s')"
  using assms(1,2)
proof (cases rule: startWaveformJob_Inr)
  case refused
  then show ?thesis by simp
next
  case (started job song)
  let ?job = "started_set attempt now job"
  have id: "job_id job = qp_jobId input" using lookup_job [OF started(1)] by simp
  have new: "lookup job_id (qp_jobId input) (jobs s') = Some ?job"
    using started(1) by (simp add: started(7) id lookup_update_key started_set_def)
  have j: "job_attemptId ?job = Some attempt" "job_songId ?job = job_songId job" "job_videoId ?job = job_videoId job"
    by (simp_all add: started_set_def)
  from assms(2) have in_ok: "job_songId job = qp_songId input" "job_videoId job = qp_videoId input"
    using started(1) by (auto simp: startWaveformJob_def guard_simps)
  have "startWaveformJob attempt' now' (input, expected) s' = (Inr (projectRunner ?job, False), s')" for attempt' now'
    using new started(4) assms(3) in_ok
    by (simp add: startWaveformJob_def guard_simps j started(7))
  moreover have "\<not> ack_applied ack \<and> s'' = s'"
    if "terminal_jobId report = qp_jobId input" "terminal_attemptId report \<noteq> Some attempt"
      "completeWaveformJob ids now' seen report s' = (Inr ack, s'')" for ids now' seen report ack s''
    using that(3)
  proof (cases rule: completeWaveformJob_Inr)
    case ignored
    then show ?thesis by (simp add: report_ack_def)
  next
    case (applied found song' job' st e s1)
    then have "job' = ?job" using new that(1) by simp
    with applied(4) that(2) show ?thesis by (simp add: report_applies_def j)
  qed
  ultimately show ?thesis using started(6) by (auto simp: projectRunner_def started_set_def)
qed

theorem attempt_exclusive_witness:
  "\<exists>v. startWaveformJob ''at2'' 9 (demo_payload, None) demo_taken = (Inr (v, False), demo_taken)"
  using attempt_exclusive [OF demo_wave_wf demo_start] by blast

section \<open>Reports\<close>

fun with_job :: "eid \<Rightarrow> waveform_terminal \<Rightarrow> waveform_terminal" where
  "with_job i (Report_succeeded _ a d) = Report_succeeded i a d"
| "with_job i (Report_failed _ a e) = Report_failed i a e"

type_synonym delivered_report = "job_ids \<times> instant \<times> job_and_slug option \<times> waveform_terminal"

definition deliver_report :: "db \<Rightarrow> eid \<Rightarrow> delivered_report \<Rightarrow> bool \<times> db" where
  "deliver_report s i e = (case e of (ids, now, seen, report) \<Rightarrow>
    (case completeWaveformJob ids now seen (with_job i report) s of
       (Inr ack, s') \<Rightarrow> (ack_applied ack, s') | (Inl _, s') \<Rightarrow> (False, s')))"

definition job_ended :: "db \<Rightarrow> eid \<Rightarrow> bool" where
  "job_ended s i \<longleftrightarrow> (case lookup job_id i (jobs s) of None \<Rightarrow> False | Some j \<Rightarrow> job_terminal j)"

lemma terminal_with_job [simp]: "terminal_jobId (with_job i report) = i"
  by (cases report) simp_all

lemma terminal_outcome_tables:
  "terminal_outcome wid now song job input s = (st, e, s1) \<Longrightarrow> jobs s1 = jobs s \<and> (st = SUCCEEDED \<or> st = FAILED)"
  by (cases "(wid, now, song, job, input, s)" rule: terminal_outcome.cases) (auto split: if_splits)

lemma deliver_report_cases:
  assumes "deliver_report s i e = (won, s')"
  obtains (ignored) "\<not> won" and "jobs s' = jobs s"
  | (applied) job st er now where "won" and "lookup job_id i (jobs s) = Some job" and "\<not> job_terminal job"
      and "st = SUCCEEDED \<or> st = FAILED"
      and "jobs s' = update_where (\<lambda>j. job_id j = i) (finished_set st er now) (jobs s)"
proof -
  obtain ids now seen report where e: "e = (ids, now, seen, report)" by (cases e)
  obtain r t where run: "completeWaveformJob ids now seen (with_job i report) s = (r, t)" by (cases "completeWaveformJob ids now seen (with_job i report) s")
  show thesis
  proof (cases r)
    case (Inl x)
    with run have "t = s" by (cases seen) (auto simp: completeWaveformJob_def dest: failed_same)
    with run Inl assms show thesis by (intro ignored) (auto simp: deliver_report_def e)
  next
    case (Inr ack)
    with run have "completeWaveformJob ids now seen (with_job i report) s = (Inr ack, t)" by simp
    then show thesis
    proof (cases rule: completeWaveformJob_Inr)
      case ignored
      with run Inr assms show thesis by (intro that(1)) (auto simp: deliver_report_def e report_ack_def)
    next
      case (applied found song job st er s1)
      note out = terminal_outcome_tables [OF applied(5)]
      have "job_id job = i" using lookup_job [OF applied(3)] by simp
      with applied run Inr assms out show thesis
        by (intro that(2) [of job st er now]) (auto simp: deliver_report_def e report_applies_def report_ack_def)
    qed
  qed
qed

interpretation report: one_shot deliver_report job_ended
proof
  fix s k e
  show "job_ended (snd (deliver_report s k e)) k" if "fst (deliver_report s k e)"
  proof (cases rule: deliver_report_cases [OF surjective_pairing [of "deliver_report s k e"]])
    case 1
    then show ?thesis using that by simp
  next
    case (2 job st er now)
    then show ?thesis
      by (auto simp: job_ended_def lookup_update_key finished_set_def job_terminal_def)
  qed
next
  fix s k e
  show "\<not> fst (deliver_report s k e)" if "job_ended s k"
    by (cases rule: deliver_report_cases [OF surjective_pairing [of "deliver_report s k e"]])
      (use that in \<open>auto simp: job_ended_def\<close>)
next
  fix s k k' e
  show "job_ended (snd (deliver_report s k' e)) k" if "job_ended s k"
  proof (cases rule: deliver_report_cases [OF surjective_pairing [of "deliver_report s k' e"]])
    case 1
    then show ?thesis using that by (simp add: job_ended_def)
  next
    case (2 job st er now)
    then show ?thesis using that
      by (auto simp: job_ended_def lookup_update_key finished_set_def split: option.splits)
  qed
qed

text \<open>The number of reports for a job that are applied when a list of reports arrives.\<close>

primrec reports_applied :: "db \<Rightarrow> eid \<Rightarrow> (eid \<times> delivered_report) list \<Rightarrow> nat" where
  "reports_applied s i [] = 0"
| "reports_applied s i (x # xs) =
    (case deliver_report s (fst x) (snd x) of
       (won, s') \<Rightarrow> (if fst x = i \<and> won then 1 else 0) + reports_applied s' i xs)"

lemma reports_applied_wins: "reports_applied s i xs = report.wins s i xs"
  by (induction xs arbitrary: s) (auto split: prod.split)

text \<open>
  A job ends once: of any number of reports that reach the server for a job, interleaved with reports
  for other jobs, repeated or out of order, at most one is applied.\<close>

theorem report_applied_once: "reports_applied s i reports \<le> 1"
  using report.at_most_one_win [of s i reports] by (simp add: reports_applied_wins)

section \<open>Results\<close>

lemma stored_row:
  "\<exists>w \<in> set (waveforms (storeWaveform wid now s so v d)). wf_songId w = so \<and> wf_videoId w = v \<and> wf_data w = d"
proof (cases "lookup wf_songId so (waveforms s)")
  case None
  then show ?thesis by (simp add: storeWaveform_def)
next
  case (Some w)
  let ?f = "\<lambda>w. w\<lparr>wf_videoId := v, wf_data := d, wf_generatedAt := now\<rparr>"
  from lookup_SomeD [OF Some] have "?f w \<in> set (waveforms (storeWaveform wid now s so v d))"
    by (auto simp: storeWaveform_def Some set_update_where)
  moreover have "wf_songId (?f w) = so" using lookup_SomeD [OF Some] by simp
  ultimately show ?thesis by (intro bexI [of _ "?f w"]) simp_all
qed

lemma findSongWaveform_stored:
  assumes "waveforms_ok (waveforms s)" and "lookup song_id i (songs s) = Some song"
    and "song_youtubeId song = Some v" and "w \<in> set (waveforms s)" and "wf_songId w = i" and "wf_videoId w = v"
  shows "findSongWaveform s i = Some (Some v, Some (wf_data w))"
proof -
  obtain w' where w': "find (\<lambda>w. wf_songId w = i \<and> song_youtubeId song = Some (wf_videoId w)) (waveforms s) = Some w'"
    using assms(3-6) by (cases "find (\<lambda>w. wf_songId w = i \<and> song_youtubeId song = Some (wf_videoId w)) (waveforms s)")
      (auto simp: find_None_iff)
  then have "w' \<in> set (waveforms s)" "wf_songId w' = i" by (auto simp: find_Some_iff)
  with assms(1,4,5) have "w' = w" by (auto simp: waveforms_ok_def distinct_map dest: inj_onD)
  with w' assms(2,3) show ?thesis by (simp add: findSongWaveform_def)
qed

lemma getSongWaveform_stored:
  assumes "ctx_user ctx = Some a" and "ctx_ability ctx Manage All"
    and "findSongWaveform s i = Some (Some v, Some d)" and "wav_sourceId d = v"
  shows "getSongWaveform ctx i s = (Inr (Some d), s)"
  using assms by (simp add: getSongWaveform_def as_admin_admin)

text \<open>
  What an applied report leaves behind: a failure ends the job with the reported error and stores
  nothing; a result ends it successfully and is from then on the waveform of the song - unless the
  song's video is no longer the one the job was requested for, or the result is of another video: then
  the job fails with \<open>SOURCE_CHANGED\<close> and nothing is stored.\<close>

theorem report_outcome:
  assumes "waveforms_wf s" and "report_ok report" and "lookup job_id (terminal_jobId report) (jobs s) = Some job"
    and "lookup song_id (job_songId job) (songs s) = Some song" and "seen = Some (job, slug)"
    and "ctx_user ctx = Some a" and "ctx_ability ctx Manage All"
    and "completeWaveformJob ids now seen report s = (Inr ack, s')" and "ack_applied ack"
  shows "\<exists>j \<in> set (jobs s'). job_id j = job_id job \<and> job_finishedAt j = Some now \<and> job_status j = ack_status ack \<and>
    (case report of
       Report_failed _ _ e \<Rightarrow> job_status j = FAILED \<and> job_errorCode j = Some e \<and> waveforms s' = waveforms s
     | Report_succeeded _ _ d \<Rightarrow>
         (if song_youtubeId song = Some (job_videoId job) \<and> wav_sourceId d = job_videoId job
          then job_status j = SUCCEEDED \<and> getSongWaveform ctx (job_songId job) s' = (Inr (Some d), s')
          else job_status j = FAILED \<and> job_errorCode j = Some SOURCE_CHANGED \<and> waveforms s' = waveforms s))"
  using assms(8)
proof (cases rule: completeWaveformJob_Inr)
  case ignored
  with assms(9) show ?thesis by (simp add: report_ack_def)
next
  case (applied found song' job' st e s1)
  have found: "found = (job, slug)" using applied(1) assms(5) by simp
  have same: "job' = job" "song' = song" using applied(2,3) assms(3,4) by (simp_all add: found)
  let ?j = "finished_set st e now job"
  have mem: "job \<in> set (jobs s)" using lookup_job [OF assms(3)] by simp
  have ok: "is_video_id (job_videoId job)"
    using wf_parts(6) [OF assms(1) mem] by (simp add: job_ok_def waveform_job_check_def)
  note out = terminal_outcome_spec [OF applied(5) [unfolded same] assms(2) wf_parts(2) [OF assms(1)] ok]
  have tabs: "waveforms s' = waveforms s1" "songs s' = songs s"
    using out by (simp_all add: applied(7))
  have "?j \<in> set (jobs s')"
    using out mem by (auto simp: applied(7) same set_update_where)
  moreover have "job_id ?j = job_id job" "job_finishedAt ?j = Some now" "job_status ?j = st" "job_errorCode ?j = e"
    by (simp_all add: finished_set_def)
  moreover have "ack_status ack = st" by (simp add: applied(6))
  moreover have "case report of
       Report_failed _ _ e' \<Rightarrow> st = FAILED \<and> e = Some e' \<and> waveforms s' = waveforms s
     | Report_succeeded _ _ d \<Rightarrow>
         (if song_youtubeId song = Some (job_videoId job) \<and> wav_sourceId d = job_videoId job
          then st = SUCCEEDED \<and> getSongWaveform ctx (job_songId job) s' = (Inr (Some d), s')
          else st = FAILED \<and> e = Some SOURCE_CHANGED \<and> waveforms s' = waveforms s)"
  proof (cases report)
    case (Report_succeeded x1 x2 d)
    show ?thesis
    proof (cases "song_youtubeId song = Some (job_videoId job) \<and> wav_sourceId d = job_videoId job")
      case True
      with applied(5) have s1: "st = SUCCEEDED"
        "s1 = storeWaveform (ids_waveform ids) now s (job_songId job) (job_videoId job) d"
        by (auto simp: Report_succeeded same)
      then obtain w where "w \<in> set (waveforms s')" "wf_songId w = job_songId job" "wf_videoId w = job_videoId job"
        "wf_data w = d" using stored_row unfolding tabs by blast
      then have "findSongWaveform s' (job_songId job) = Some (Some (job_videoId job), Some d)"
        using findSongWaveform_stored [of s' "job_songId job" song "job_videoId job" w] out assms(4) True
        by (simp add: tabs)
      with True s1(1) getSongWaveform_stored [OF assms(6,7)] show ?thesis by (simp add: Report_succeeded)
    next
      case False
      with applied(5) show ?thesis by (auto simp: Report_succeeded same tabs)
    qed
  next
    case Report_failed
    with applied(5) show ?thesis by (auto simp: same tabs)
  qed
  ultimately show ?thesis by (intro bexI [of _ ?j]) (auto split: waveform_terminal.split)
qed

theorem report_outcome_witness: "getSongWaveform admin_ctx ''so1'' demo_done = (Inr (Some demo_peaks), demo_done)"
proof -
  have l: "lookup job_id (terminal_jobId demo_report) (jobs demo_taken) = Some (started_set ''at1'' 6 demo_job)"
    by (simp add: demo_report_def)
  have so: "lookup song_id (job_songId (started_set ''at1'' 6 demo_job)) (songs demo_taken) = Some (demo_song ''so1'')"
    by simp
  from report_outcome [OF demo_taken_wf demo_report_ok l so demo_found demo_ctx_user admin_ctx_ability demo_complete]
  show ?thesis by (auto simp: report_ack_def demo_report_def demo_peaks_def)
qed

section \<open>Importing\<close>

lemma matching_succeeded:
  "findMatchingWaveformJob s i d = Some m \<Longrightarrow> job_status m = SUCCEEDED \<and>
    (\<exists>w \<in> set (waveforms s). wf_songId w = i \<and> wf_data w = d)"
proof -
  let ?l = "filter (\<lambda>j. job_songId j = i \<and> job_videoId j = wav_sourceId d \<and> job_status j = SUCCEEDED \<and>
      list_ex (\<lambda>w. wf_songId w = i \<and> wf_data w = d) (waveforms s)) (jobs s)"
  let ?s = "sort_key (\<lambda>j. (job_finishedAt j \<noteq> None, - coalesce (job_finishedAt j) 0)) ?l"
  assume "findMatchingWaveformJob s i d = Some m"
  then have "first_row ?s = Some m" by (simp only: findMatchingWaveformJob_def)
  then have "m \<in> set ?s" by (cases ?s) simp_all
  then have "m \<in> set ?l" by simp
  then show ?thesis by (auto simp: list_ex_iff)
qed

lemma matching_exists:
  assumes "j \<in> set (jobs s)" and "job_songId j = i" and "job_videoId j = wav_sourceId d" and "job_status j = SUCCEEDED"
    and "w \<in> set (waveforms s)" and "wf_songId w = i" and "wf_data w = d"
  shows "findMatchingWaveformJob s i d \<noteq> None"
proof -
  let ?l = "filter (\<lambda>j. job_songId j = i \<and> job_videoId j = wav_sourceId d \<and> job_status j = SUCCEEDED \<and>
      list_ex (\<lambda>w. wf_songId w = i \<and> wf_data w = d) (waveforms s)) (jobs s)"
  have "j \<in> set ?l" using assms by (auto simp: list_ex_iff)
  then have "j \<in> set (sort_key (\<lambda>j. (job_finishedAt j \<noteq> None, - coalesce (job_finishedAt j) 0)) ?l)"
    by (simp only: set_sort)
  from length_pos_if_in_set [OF this] show ?thesis
    unfolding findMatchingWaveformJob_def first_row_None_iff by (simp only: length_greater_0_conv not_False_eq_True)
qed

lemma import_again:
  assumes "ctx_user ctx = Some a" and "ctx_ability ctx Manage All" and "lookup song_id i (songs s) = Some song"
    and "song_youtubeId song = Some (wav_sourceId d)" and "findActiveWaveformJob s i (wav_sourceId d) = None"
    and "findMatchingWaveformJob s i d \<noteq> None"
  shows "snd (importSongWaveform ids now ctx (i, d, True) s) = s"
proof -
  from assms(6) obtain m where "findMatchingWaveformJob s i d = Some m" by blast
  with assms(1-5) show ?thesis
    by (simp add: importSongWaveform_def as_admin_admin transaction_def lockWaveformSong_def)
qed

text \<open>
  Import and read are a round trip, and a retried import is harmless: after an accepted import of a
  valid result for a song, reading the song's waveform returns exactly that result, the answer says
  SUCCEEDED, and importing the same result again - after a lost response, say - changes nothing.\<close>

theorem import_roundtrip:
  assumes "waveforms_wf s" and "fresh_job s (ids_job ids)" and "waveformDataSchema size_of d"
    and "importSongWaveform ids now ctx (i, d, replace) s = (Inr view, s')"
  shows "getSongWaveform ctx i s' = (Inr (Some d), s') \<and> wj_status view = SUCCEEDED \<and>
    snd (importSongWaveform ids' now' ctx (i, d, True) s') = s'"
  using assms(4,1,2) schema_video [OF assms(3)]
proof (cases rule: importSongWaveform_Inr)
  case (matching a song m)
  from matching_succeeded [OF matching(6)] obtain w where
    w: "job_status m = SUCCEEDED" "w \<in> set (waveforms s)" "wf_songId w = i" "wf_data w = d" by blast
  have ok: "waveforms_ok (waveforms s)" by (rule wf_parts(2) [OF assms(1)])
  then have "wf_videoId w = wav_sourceId d" using w by (auto simp: waveforms_ok_def)
  from findSongWaveform_stored [OF ok matching(3,4) w(2,3) this] w(4)
  have "getSongWaveform ctx i s = (Inr (Some d), s)"
    by (intro getSongWaveform_stored [OF matching(1,2)]) simp_all
  with import_again [OF matching(1-5)] matching(6-8) w(1) show ?thesis by (simp add: job_project_def)
next
  case (stored a song job s1 s3)
  note new = active_or_new_spec [OF assms(1) schema_video [OF assms(3)] assms(2) stored(5)]
  let ?f = "succeeded_set (ids_attempt ids) (job_startedAt job) now"
  have "waveforms_wf s'"
    using importSongWaveform_wf [OF assms(1,2) schema_video [OF assms(3)] assms(4)] by blast
  then have ok: "waveforms_ok (waveforms s')" by (rule wf_parts(2))
  have tabs: "waveforms s' = waveforms s3" "songs s' = songs s"
    "jobs s' = update_where (\<lambda>j. job_id j = job_id job) ?f (jobs s1)"
    using new by (simp_all add: stored(6,7))
  obtain w where w: "w \<in> set (waveforms s')" "wf_songId w = i" "wf_videoId w = wav_sourceId d" "wf_data w = d"
    using stored_row unfolding tabs(1) stored(6) by blast
  have so: "lookup song_id i (songs s') = Some song" using stored(3) by (simp add: tabs(2))
  have "findSongWaveform s' i = Some (Some (wav_sourceId d), Some d)"
    using findSongWaveform_stored [OF ok so stored(4) w(1-3)] w(4) by simp
  then have "getSongWaveform ctx i s' = (Inr (Some d), s')"
    by (intro getSongWaveform_stored [OF stored(1,2)]) simp_all
  moreover have "wj_status view = SUCCEEDED" by (simp add: stored(8) job_project_def succeeded_set_def)
  moreover have "snd (importSongWaveform ids' now' ctx (i, d, True) s') = s'"
  proof (rule import_again [OF stored(1,2) so stored(4)])
    have act: "one_active (jobs s1)" using wf_parts(1) [of s1] new by (simp add: jobs_ok_def)
    show "findActiveWaveformJob s' i (wav_sourceId d) = None"
    proof (rule ccontr)
      assume "findActiveWaveformJob s' i (wav_sourceId d) \<noteq> None"
      then obtain j where "findActiveWaveformJob s' i (wav_sourceId d) = Some j" by blast
      from findActive_SomeD [OF this] obtain k where k: "k \<in> set (jobs s1)" "job_songId j = i"
        "job_videoId j = wav_sourceId d" "job_active j" "j = (if job_id k = job_id job then ?f k else k)"
        by (auto simp: tabs(3) set_update_where)
      have "\<not> job_active (?f k)" by (simp add: job_active_def succeeded_set_def)
      with k have "j = k" "job_id k \<noteq> job_id job" by (auto split: if_splits)
      with one_activeD [OF act, of j job] k new show False by auto
    qed
    show "findMatchingWaveformJob s' i d \<noteq> None"
    proof (rule matching_exists [OF _ _ _ _ w(1,2,4)])
      show "?f job \<in> set (jobs s')" using new by (auto simp: tabs(3) set_update_where)
    qed (use new in \<open>simp_all add: succeeded_set_def\<close>)
  qed
  ultimately show ?thesis by blast
qed

lemma demo_import:
  "\<exists>view s'. importSongWaveform demo_ids 5 admin_ctx (''so1'', demo_peaks, True) demo_db = (Inr view, s')"
  by (simp add: importSongWaveform_def as_admin_admin transaction_def lockWaveformSong_def demo_peaks_def
      findActiveWaveformJob_def findMatchingWaveformJob_def active_or_new_def insertWaveformJob_def
      row_or_crash_def updateWaveformJob_def returning_def Let_def)

theorem import_roundtrip_witness:
  "\<exists>view s'. importSongWaveform demo_ids 5 admin_ctx (''so1'', demo_peaks, True) demo_db = (Inr view, s') \<and>
    getSongWaveform admin_ctx ''so1'' s' = (Inr (Some demo_peaks), s')"
proof -
  obtain view s' where run: "importSongWaveform demo_ids 5 admin_ctx (''so1'', demo_peaks, True) demo_db = (Inr view, s')"
    using demo_import by blast
  from import_roundtrip [OF demo_db_waveforms demo_fresh demo_peaks_ok run] run show ?thesis by blast
qed

text \<open>
  Administrators share the analysis of a song: when the song has an active job for its video, another
  request returns that job instead of creating one and only adds the requester; a request creates a job
  exactly when there is none, and only for a video of the approved list.\<close>

theorem request_shared:
  assumes "requestWaveformJob ids now ctx (i, allowed) s = (Inr (view, created), s')"
    and "ctx_user ctx' = Some b" and "ctx_ability ctx' Manage All"
  shows "wj_videoId view \<in> set allowed \<and>
    (created \<longleftrightarrow> (\<forall>j \<in> set (jobs s). job_songId j = i \<and> job_videoId j = wj_videoId view \<longrightarrow> job_terminal j)) \<and>
    length (jobs s') = length (jobs s) + (if created then 1 else 0) \<and>
    (\<exists>s2. requestWaveformJob ids' now' ctx' (i, allowed) s' = (Inr (view, False), s2) \<and> jobs s2 = jobs s' \<and>
      set (requesters s2) = insert \<lparr>req_jobId = wj_id view, req_accountId = b\<rparr> (set (requesters s')))"
  using assms(1)
proof (cases rule: requestWaveformJob_Inr)
  case (1 a song v job s1)
  have job: "job_songId job = i \<and> job_videoId job = v \<and> findActiveWaveformJob s1 i v = Some job \<and> songs s1 = songs s \<and>
    length (jobs s1) = length (jobs s) + (if findActiveWaveformJob s i v = None then 1 else 0)"
  proof (cases "findActiveWaveformJob s i v")
    case None
    with 1(7) have r: "job = new_job (ids_job ids) now i v" "s1 = s\<lparr>jobs := jobs s @ [new_job (ids_job ids) now i v]\<rparr>"
      by (auto simp: active_or_new_def insertWaveformJob_def)
    have "find P (xs @ [x]) = (case find P xs of None \<Rightarrow> if P x then Some x else None | Some y \<Rightarrow> Some y)"
      for P and xs :: "waveform_job_row list" and x by (induction xs) auto
    with None r show ?thesis by (simp add: findActiveWaveformJob_def job_active_def)
  next
    case (Some j)
    with 1(7) findActive_SomeD [OF Some] show ?thesis by (auto simp: active_or_new_def)
  qed
  have view: "wj_videoId view = v" "wj_id view = job_id job" "view = job_project (job, song_slug song)"
    using 1(9) job by (simp_all add: job_project_def)
  have created: "created \<longleftrightarrow> (\<forall>j \<in> set (jobs s). job_songId j = i \<and> job_videoId j = v \<longrightarrow> job_terminal j)"
    using 1(9) by (auto simp: findActiveWaveformJob_def find_None_iff job_active_iff)
  have "findActiveWaveformJob s' i v = Some job"
    using job by (simp add: 1(8) findActiveWaveformJob_def)
  moreover have "v \<noteq> []" using 1(5) by (auto simp: is_video_id_def)
  ultimately have again: "requestWaveformJob ids' now' ctx' (i, allowed) s' =
      (Inr (view, False), insertWaveformRequester s' (job_id job) b)"
    using 1(3-6) job assms(2,3)
    by (simp add: requestWaveformJob_def as_admin_admin transaction_def lockWaveformSong_def active_or_new_def
        truthy_def view(3)) (simp add: 1(8))
  have "length (jobs s') = length (jobs s) + (if created then 1 else 0)"
    using job 1(9) by (simp add: 1(8))
  moreover have "wj_videoId view \<in> set allowed" using 1(6) by (simp only: view(1))
  moreover have "\<exists>s2. requestWaveformJob ids' now' ctx' (i, allowed) s' = (Inr (view, False), s2) \<and>
      jobs s2 = jobs s' \<and>
      set (requesters s2) = insert \<lparr>req_jobId = wj_id view, req_accountId = b\<rparr> (set (requesters s'))"
    by (intro exI conjI, rule again) (simp_all only: waveform_tables set_insert_requester view(2))
  ultimately show ?thesis using created by (simp only: view(1))
qed

theorem request_shared_witness:
  "\<exists>s2. requestWaveformJob demo_ids 8 (demo_ctx ''usr'' ADMIN) (''so1'', [''dQw4w9WgXcQ'']) demo_wave =
    (Inr (job_project (demo_job, Some ''so1''), False), s2)"
proof -
  have "ctx_ability (demo_ctx ''usr'' ADMIN) Manage All"
    by (simp add: demo_ctx_def buildAbility_def casl_reference_def list_ex_iff buildAbilityRules_manage_all truthy_def)
  from request_shared [OF demo_request demo_ctx_user this] show ?thesis by blast
qed

end
