(* ===== verification/Digits.thy ===== *)
theory Digits imports Lyrics begin

text \<open>
  Decimal digits: \<open>Number.prototype.toString\<close> and \<open>String.prototype.padStart\<close> as the code uses them for
  one-time codes and time stamps, and reading digits back.
\<close>

definition digit :: "nat \<Rightarrow> char" where
  "digit n = char_of (48 + n)"

fun decimal :: "nat \<Rightarrow> string" where
  "decimal n = (if n < 10 then [digit n] else decimal (n div 10) @ [digit (n mod 10)])"

declare decimal.simps [simp del]

definition padStart :: "nat \<Rightarrow> char \<Rightarrow> string \<Rightarrow> string" where
  "padStart n c s = replicate (n - length s) c @ s"

section \<open>Reading back\<close>

fun digits_value :: "nat \<Rightarrow> string \<Rightarrow> nat" where
  "digits_value n [] = n"
| "digits_value n (c # cs) = digits_value (10 * n + (of_char c - 48)) cs"

lemma digits_value_append: "digits_value n (xs @ ys) = digits_value (digits_value n xs) ys"
  by (induction xs arbitrary: n) simp_all

lemma of_char_digit [simp]: "n < 10 \<Longrightarrow> of_char (digit n) = 48 + n"
  by (simp add: digit_def)

lemma is_digit_digit [simp]: "n < 10 \<Longrightarrow> is_digit (digit n)"
  by (simp add: is_digit_def)

lemma digits_value_decimal: "digits_value 0 (decimal n) = n"
  by (induction n rule: decimal.induct) (subst decimal.simps, simp add: digits_value_append)

lemma list_all_decimal: "list_all is_digit (decimal n)"
  by (induction n rule: decimal.induct) (subst decimal.simps, simp)

lemma length_decimal: "0 < k \<Longrightarrow> n < 10 ^ k \<Longrightarrow> length (decimal n) \<le> k"
proof (induction k arbitrary: n)
  case (Suc k)
  show ?case
  proof (cases "n < 10")
    case False
    with Suc.prems(2) have "0 < k" by (cases k) auto
    moreover from Suc.prems(2) have "n div 10 < 10 ^ k" by (intro less_mult_imp_div_less) (simp add: mult.commute)
    ultimately show ?thesis using Suc.IH [of "n div 10"] False by (subst decimal.simps) simp
  qed (subst decimal.simps, simp)
qed simp

lemma digits_value_zeros [simp]: "digits_value 0 (replicate k (CHR ''0'') @ s) = digits_value 0 s"
  by (induction k) simp_all

lemma digits_value_bounds:
  "list_all is_digit s \<Longrightarrow> digits_value n s < (n + 1) * 10 ^ length s"
proof (induction s arbitrary: n)
  case (Cons c cs)
  then have "of_char c - 48 < (10 :: nat)" by (auto simp: is_digit_def)
  then have "(10 * n + (of_char c - 48) + 1) * 10 ^ length cs \<le> (n + 1) * 10 * 10 ^ length cs"
    by (intro mult_right_mono) auto
  with Cons show ?case by (fastforce intro: less_le_trans simp: algebra_simps)
qed simp

lemma digit_step:
  assumes "10 * n + (x - 48) = 10 * m + (y - 48)" and "48 \<le> x" "x \<le> 57" "48 \<le> y" "y \<le> (57 :: nat)"
  shows "n = m \<and> x = y"
proof -
  obtain a b where "x = 48 + a" "y = 48 + b" using assms(2,4) by (auto simp: le_iff_add)
  with assms show ?thesis by simp presburger
qed

lemma digits_value_inj:
  "length s = length t \<Longrightarrow> list_all is_digit s \<Longrightarrow> list_all is_digit t \<Longrightarrow>
    digits_value n s = digits_value m t \<Longrightarrow> n = m \<and> s = t"
proof (induction s t arbitrary: n m rule: list_induct2)
  case (Cons c cs d ds)
  from Cons.prems have "is_digit c" "is_digit d" by simp_all
  moreover from Cons.IH [of "10 * n + (of_char c - 48)" "10 * m + (of_char d - 48)"] Cons.prems
  have step: "10 * n + (of_char c - 48) = 10 * m + (of_char d - 48 :: nat)" and "cs = ds"
    by (simp_all only: list.pred_inject digits_value.simps simp_thms)
  ultimately have "n = m \<and> (of_char c :: nat) = of_char d"
    unfolding is_digit_def by (intro digit_step) simp_all
  with \<open>cs = ds\<close> show ?case by (simp add: of_char_eq_iff)
qed simp

end
