(* ===== verification/EmailVerification.thy ===== *)
theory EmailVerification imports Sample Digits begin

text \<open>
  One-time codes for sign-up (\<open>email-verification-service.ts\<close>,
  \<open>email-verification-repository.ts\<close>): issuing a challenge under the rate limits, and verifying a code.
  The keyed hash (Node's HMAC-SHA256), the random number behind a code, the mail transport, new
  identifiers and the two clocks (the process's and the database's) are arguments.
\<close>

section \<open>Codes and their hashes\<close>

definition createOtp :: "nat \<Rightarrow> string" where
  "createOtp random = padStart 6 (CHR ''0'') (decimal random)"

text \<open>The form's regular expression \<open>^\d{6}$\<close>.\<close>

definition otp_format :: "string \<Rightarrow> bool" where
  "otp_format s \<longleftrightarrow> length s = 6 \<and> list_all is_digit s"

text \<open>\<open>createHmac("sha256", secret).update(otp).digest("hex")\<close> is \<open>env_hmac secret otp\<close>.\<close>

record otp_env =
  env_hmac :: "string \<Rightarrow> string \<Rightarrow> string"
  env_secret :: "string option"

definition hashOtp :: "otp_env \<Rightarrow> string \<Rightarrow> failure + string" where
  "hashOtp env otp =
    (if truthy (env_secret env) then Inr (env_hmac env (coalesce (env_secret env) []) otp)
     else Inl (Error ''AUTH_SECRET is required''))"

text \<open>\<open>Buffer.from(text, "hex")\<close> stops at the first pair that is not hexadecimal.\<close>

definition hex_value :: "char \<Rightarrow> nat option" where
  "hex_value c =
    (let n = of_char c in
     if 48 \<le> n \<and> n \<le> 57 then Some (n - 48)
     else if 97 \<le> n \<and> n \<le> 102 then Some (n - 87)
     else if 65 \<le> n \<and> n \<le> 70 then Some (n - 55) else None)"

fun from_hex :: "string \<Rightarrow> nat list" where
  "from_hex (a # b # cs) =
    (case (hex_value a, hex_value b) of (Some x, Some y) \<Rightarrow> (16 * x + y) # from_hex cs | _ \<Rightarrow> [])"
| "from_hex _ = []"

definition matchesOtp :: "otp_env \<Rightarrow> string \<Rightarrow> string \<Rightarrow> failure + bool" where
  "matchesOtp env otp expectedHash =
    (case hashOtp env otp of
       Inl e \<Rightarrow> Inl e
     | Inr h \<Rightarrow> Inr (let actual = from_hex h; expected = from_hex expectedHash
                    in length actual = length expected \<and> actual = expected))"

section \<open>Statements\<close>

text \<open>
  Of several challenges of an address with the same creation time the first is taken; PostgreSQL does
  not say which.
\<close>

definition findLatestChallengeForUpdate :: "db \<Rightarrow> string \<Rightarrow> challenge_row option" where
  "findLatestChallengeForUpdate s email =
    first_row (sort_key (\<lambda>c. - chal_createdAt c) (filter (\<lambda>c. chal_email c = email) (challenges s)))"

definition new_challenge :: "eid \<Rightarrow> instant \<Rightarrow> instant \<Rightarrow> string \<Rightarrow> string \<Rightarrow> string \<Rightarrow> challenge_row" where
  "new_challenge i now dbNow email otpHash ip =
    \<lparr>chal_id = i, chal_email = email, chal_otpHash = otpHash, chal_status = PENDING,
     chal_failedAttempts = 0, chal_ipAddress = ip, chal_expiresAt = now + 5 * 60 * 1000,
     chal_lastSentAt = now, chal_verifiedAt = None, chal_consumedAt = None, chal_invalidatedAt = None,
     chal_createdAt = dbNow\<rparr>"

definition insertChallenge :: "db \<Rightarrow> challenge_row \<Rightarrow> (eid, db) use_case" where
  "insertChallenge s c =
    (if \<not> challenge_check c then (Inl (DbError ''email_verification_challenge_otp_hash_check''), s)
     else (Inr (chal_id c), s\<lparr>challenges := challenges s @ [c]\<rparr>))"

definition invalid_set :: "instant \<Rightarrow> challenge_row \<Rightarrow> challenge_row" where
  "invalid_set now c = c\<lparr>chal_status := INVALIDATED, chal_invalidatedAt := Some now\<rparr>"

definition invalidatePendingChallenges :: "db \<Rightarrow> string \<Rightarrow> instant \<Rightarrow> db" where
  "invalidatePendingChallenges s email now =
    s\<lparr>challenges := update_where (\<lambda>c. chal_email c = email \<and> chal_status c = PENDING)
      (invalid_set now) (challenges s)\<rparr>"

definition invalidateChallenge :: "db \<Rightarrow> eid \<Rightarrow> instant \<Rightarrow> db" where
  "invalidateChallenge s i now =
    s\<lparr>challenges := update_where (\<lambda>c. chal_id c = i \<and> chal_status c = PENDING)
      (invalid_set now) (challenges s)\<rparr>"

definition findChallengeById :: "db \<Rightarrow> eid \<Rightarrow> challenge_row option" where
  "findChallengeById s i = lookup chal_id i (challenges s)"

definition consume_set :: "instant \<Rightarrow> challenge_row \<Rightarrow> challenge_row" where
  "consume_set now c = c\<lparr>chal_status := CONSUMED, chal_verifiedAt := None, chal_consumedAt := Some now\<rparr>"

definition consumeVerifiedChallenge :: "db \<Rightarrow> eid \<Rightarrow> instant \<Rightarrow> string option \<times> db" where
  "consumeVerifiedChallenge s i now =
    (map_option chal_email (first_row (returning (\<lambda>c. chal_id c = i \<and> chal_status c = VERIFIED)
       (consume_set now) (challenges s))),
     s\<lparr>challenges := update_where (\<lambda>c. chal_id c = i \<and> chal_status c = VERIFIED)
       (consume_set now) (challenges s)\<rparr>)"

text \<open>The condition shared by \<open>markChallengeVerified\<close> and \<open>incrementFailedAttempts\<close>.\<close>

definition open_challenge :: "instant \<Rightarrow> challenge_row \<Rightarrow> bool" where
  "open_challenge now c \<longleftrightarrow> chal_status c = PENDING \<and> now < chal_expiresAt c \<and> chal_failedAttempts c < 5"

definition verify_set :: "instant \<Rightarrow> challenge_row \<Rightarrow> challenge_row" where
  "verify_set now c = c\<lparr>chal_status := VERIFIED, chal_verifiedAt := Some now\<rparr>"

definition markChallengeVerified :: "db \<Rightarrow> eid \<Rightarrow> instant \<Rightarrow> eid option \<times> db" where
  "markChallengeVerified s i now =
    (map_option chal_id (first_row (returning (\<lambda>c. chal_id c = i \<and> open_challenge now c)
       (verify_set now) (challenges s))),
     s\<lparr>challenges := update_where (\<lambda>c. chal_id c = i \<and> open_challenge now c) (verify_set now) (challenges s)\<rparr>)"

definition failed_set :: "challenge_row \<Rightarrow> challenge_row" where
  "failed_set c = c\<lparr>chal_failedAttempts := chal_failedAttempts c + 1\<rparr>"

definition incrementFailedAttempts :: "db \<Rightarrow> eid \<Rightarrow> instant \<Rightarrow> nat option \<times> db" where
  "incrementFailedAttempts s i now =
    (map_option chal_failedAttempts (first_row (returning (\<lambda>c. chal_id c = i \<and> open_challenge now c)
       failed_set (challenges s))),
     s\<lparr>challenges := update_where (\<lambda>c. chal_id c = i \<and> open_challenge now c) failed_set (challenges s)\<rparr>)"

text \<open>\<open>insert ... on conflict do update set request_count = request_count + 1\<close>.\<close>

definition rate_pred :: "rate_limit_scope \<Rightarrow> string \<Rightarrow> instant \<Rightarrow> rate_limit_row \<Rightarrow> bool" where
  "rate_pred scope key w r \<longleftrightarrow> rate_scope r = scope \<and> rate_key r = key \<and> rate_windowStartedAt r = w"

definition count_set :: "instant \<Rightarrow> rate_limit_row \<Rightarrow> rate_limit_row" where
  "count_set dbNow r = r\<lparr>rate_requestCount := rate_requestCount r + 1, rate_updatedAt := dbNow\<rparr>"

definition incrementRateLimit ::
  "db \<Rightarrow> rate_limit_scope \<Rightarrow> string \<Rightarrow> instant \<Rightarrow> instant \<Rightarrow> nat option \<times> db" where
  "incrementRateLimit s scope key w dbNow =
    (if list_ex (rate_pred scope key w) (rate_limits s)
     then (map_option rate_requestCount (first_row (returning (rate_pred scope key w) (count_set dbNow) (rate_limits s))),
           s\<lparr>rate_limits := update_where (rate_pred scope key w) (count_set dbNow) (rate_limits s)\<rparr>)
     else (Some 1, s\<lparr>rate_limits := rate_limits s @ [\<lparr>rate_scope = scope, rate_key = key, rate_windowStartedAt = w,
            rate_requestCount = 1, rate_updatedAt = dbNow\<rparr>]\<rparr>))"

section \<open>Issuing a code\<close>

definition windowStart :: "instant \<Rightarrow> instant" where
  "windowStart now = now div 3600000 * 3600000"

text \<open>The transaction of \<open>requestOtp\<close>; \<open>email\<close> is normalised.\<close>

definition issue_challenge ::
  "otp_env \<Rightarrow> eid \<Rightarrow> string \<Rightarrow> instant \<Rightarrow> instant \<Rightarrow> string \<Rightarrow> string \<Rightarrow> db \<Rightarrow> (eid, db) use_case" where
  "issue_challenge env newId otp now dbNow email ip = transaction (\<lambda>s.
    throw_if (case findLatestChallengeForUpdate s email of
        None \<Rightarrow> False | Some previous \<Rightarrow> now - chal_lastSentAt previous < 60 * 1000)
      (AppError OTP_COOLDOWN) s
    (case incrementRateLimit s EMAIL email (windowStart now) dbNow of (emailCount, s1) \<Rightarrow>
     case incrementRateLimit s1 IP ip (windowStart now) dbNow of (ipCount, s2) \<Rightarrow>
       throw_if (5 < coalesce emailCount 0) (AppError OTP_RATE_LIMITED) s2
       (throw_if (20 < coalesce ipCount 0) (AppError OTP_RATE_LIMITED) s2
        (let s3 = invalidatePendingChallenges s2 email now in
         case hashOtp env otp of
           Inl e \<Rightarrow> (Inl e, s3)
         | Inr h \<Rightarrow> insertChallenge s3 (new_challenge newId now dbNow email h ip)))))"

text \<open>
  What \<open>sendSignupVerificationEmail\<close> does: it resolves, or throws; the flag says whether the error is a
  suppressed recipient or a definitive rejection.
\<close>

datatype mail_result = Mailed | MailError failure bool

definition requestOtp ::
  "otp_env \<Rightarrow> (string \<Rightarrow> string \<Rightarrow> mail_result) \<Rightarrow> eid \<Rightarrow> nat \<Rightarrow> instant \<Rightarrow> instant \<Rightarrow> instant \<Rightarrow>
    string \<times> string \<Rightarrow> db \<Rightarrow> (eid, db) use_case" where
  "requestOtp env send newId random now dbNow later arg s = (case arg of (emailInput, ip) \<Rightarrow>
    (let email = normalizeEmail emailInput; otp = createOtp random in
     throw_if (email = [] \<or> ip = []) (AppError OTP_INVALID) s
     (and_then (issue_challenge env newId otp now dbNow email ip s) (\<lambda>i s1.
        (case send email otp of
           Mailed \<Rightarrow> (Inr i, s1)
         | MailError e definitive \<Rightarrow>
             (Inl e, if definitive then invalidateChallenge s1 i later else s1))))))"

section \<open>Verifying a code\<close>

text \<open>
  The challenge is read from the state \<open>seen\<close>; the update runs later, on the state \<open>s\<close> that other
  requests may have left meanwhile.
\<close>

definition verifyOtp ::
  "otp_env \<Rightarrow> db \<Rightarrow> instant \<Rightarrow> eid \<times> string \<Rightarrow> db \<Rightarrow> (eid, db) use_case" where
  "verifyOtp env seen now arg s = (case arg of (i, otp) \<Rightarrow>
    (case findChallengeById seen i of
       None \<Rightarrow> fail OTP_INVALID s
     | Some c \<Rightarrow>
         (if chal_status c \<noteq> PENDING then fail OTP_INVALID s
          else if chal_expiresAt c \<le> now then fail OTP_EXPIRED s
          else if 5 \<le> chal_failedAttempts c then fail OTP_ATTEMPTS_EXCEEDED s
          else (case matchesOtp env otp (chal_otpHash c) of
            Inl e \<Rightarrow> (Inl e, s)
          | Inr False \<Rightarrow>
              (case incrementFailedAttempts s i now of (updated, s1) \<Rightarrow>
                 if 5 \<le> coalesce updated 5 then fail OTP_ATTEMPTS_EXCEEDED s1 else fail OTP_INVALID s1)
          | Inr True \<Rightarrow>
              (case markChallengeVerified s i now of
                 (None, s1) \<Rightarrow> fail OTP_INVALID s1 | (Some _, s1) \<Rightarrow> (Inr i, s1))))))"


section \<open>Codes\<close>

lemma digits_value_createOtp: "digits_value 0 (createOtp n) = n"
  by (simp add: createOtp_def padStart_def digits_value_decimal)

lemma createOtp_format: "n < 1000000 \<Longrightarrow> otp_format (createOtp n)"
  using length_decimal [of 6 n]
  by (simp add: createOtp_def padStart_def otp_format_def list_all_decimal) (simp add: list_all_iff is_digit_def)

text \<open>
  A code always has the form the sign-up form accepts, different random numbers give different codes,
  and every code of that form is possible: the million codes are equally likely if the random number is
  uniform on [0, 1000000).\<close>

theorem otp_codes_bijective:
  "bij_betw createOtp {..<1000000} {s. otp_format s}"
proof (rule bij_betw_byWitness [where f' = "digits_value 0"])
  show "\<forall>n \<in> {..<1000000}. digits_value 0 (createOtp n) = n" by (simp add: digits_value_createOtp)
  show "createOtp ` {..<1000000} \<subseteq> {s. otp_format s}" by (auto intro: createOtp_format)
  have val: "digits_value 0 s < 1000000" if "otp_format s" for s
    using digits_value_bounds [of s 0] that by (simp add: otp_format_def)
  then show "digits_value 0 ` {s. otp_format s} \<subseteq> {..<1000000}" by auto
  show "\<forall>s \<in> {s. otp_format s}. createOtp (digits_value 0 s) = s"
  proof
    fix s assume "s \<in> {s. otp_format s}"
    then have s: "otp_format s" by simp
    from createOtp_format [OF val [OF s]] s
      digits_value_inj [of "createOtp (digits_value 0 s)" s 0 0] digits_value_createOtp
    show "createOtp (digits_value 0 s) = s" by (simp add: otp_format_def)
  qed
qed


section \<open>Well-formed challenges and counters\<close>

text \<open>The life of a challenge: what may change in its row, and in which direction.\<close>

definition status_leads :: "challenge_status \<Rightarrow> challenge_status \<Rightarrow> bool" where
  "status_leads a b \<longleftrightarrow> a = b \<or> a = PENDING \<or> a = VERIFIED \<and> b = CONSUMED"

definition chal_evolves :: "challenge_row \<Rightarrow> challenge_row \<Rightarrow> bool" where
  "chal_evolves c c' \<longleftrightarrow>
    chal_id c' = chal_id c \<and> chal_email c' = chal_email c \<and> chal_otpHash c' = chal_otpHash c \<and>
    chal_ipAddress c' = chal_ipAddress c \<and> chal_expiresAt c' = chal_expiresAt c \<and>
    chal_lastSentAt c' = chal_lastSentAt c \<and> chal_createdAt c' = chal_createdAt c \<and>
    chal_failedAttempts c \<le> chal_failedAttempts c' \<and> status_leads (chal_status c) (chal_status c')"

definition challenges_evolve :: "db \<Rightarrow> db \<Rightarrow> bool" where
  "challenges_evolve s s' \<longleftrightarrow> (\<forall>c \<in> set (challenges s). \<exists>c' \<in> set (challenges s'). chal_evolves c c')"

text \<open>Every address is stored as the credential table will require it.\<close>

definition stored_email_ok :: "string \<Rightarrow> bool" where
  "stored_email_ok e \<longleftrightarrow> e \<noteq> [] \<and> e = toLowerCase (btrim e)"

definition challenges_ok :: "challenge_row list \<Rightarrow> bool" where
  "challenges_ok t \<longleftrightarrow> distinct (map chal_id t) \<and>
    (\<forall>c \<in> set t. challenge_check c \<and> stored_email_ok (chal_email c)) \<and>
    (\<forall>c \<in> set t. \<forall>d \<in> set t. chal_email c = chal_email d \<and> chal_status c = PENDING \<and> chal_status d = PENDING \<longrightarrow> c = d)"

fun rate_limit_of :: "rate_limit_scope \<Rightarrow> nat" where
  "rate_limit_of EMAIL = 5"
| "rate_limit_of IP = 20"

definition rate_count :: "rate_limit_row list \<Rightarrow> rate_limit_scope \<Rightarrow> string \<Rightarrow> instant \<Rightarrow> nat" where
  "rate_count t scope key w =
    (case find (rate_pred scope key w) t of None \<Rightarrow> 0 | Some r \<Rightarrow> rate_requestCount r)"

fun sent_to :: "rate_limit_scope \<Rightarrow> string \<Rightarrow> challenge_row \<Rightarrow> bool" where
  "sent_to EMAIL key c \<longleftrightarrow> chal_email c = key"
| "sent_to IP key c \<longleftrightarrow> chal_ipAddress c = key"

definition codes_sent :: "challenge_row list \<Rightarrow> rate_limit_scope \<Rightarrow> string \<Rightarrow> instant \<Rightarrow> nat" where
  "codes_sent t scope key w = length (filter (\<lambda>c. sent_to scope key c \<and> windowStart (chal_lastSentAt c) = w) t)"

definition rates_ok :: "rate_limit_row list \<Rightarrow> bool" where
  "rates_ok t \<longleftrightarrow> distinct (map (\<lambda>r. (rate_scope r, rate_key r, rate_windowStartedAt r)) t) \<and>
    (\<forall>r \<in> set t. rate_limit_check r \<and> rate_requestCount r \<le> rate_limit_of (rate_scope r))"

definition codes_counted :: "db \<Rightarrow> bool" where
  "codes_counted s \<longleftrightarrow>
    (\<forall>scope key w. codes_sent (challenges s) scope key w = rate_count (rate_limits s) scope key w)"

definition otp_ok :: "db \<Rightarrow> bool" where
  "otp_ok s \<longleftrightarrow> challenges_ok (challenges s) \<and> rates_ok (rate_limits s) \<and> codes_counted s"

lemma status_leads_trans: "status_leads a b \<Longrightarrow> status_leads b c \<Longrightarrow> status_leads a c"
  by (auto simp: status_leads_def)

lemma chal_evolves_refl [simp]: "chal_evolves c c"
  by (simp add: chal_evolves_def status_leads_def)

lemma chal_evolves_trans: "chal_evolves a b \<Longrightarrow> chal_evolves b c \<Longrightarrow> chal_evolves a c"
  by (auto simp: chal_evolves_def intro: status_leads_trans)

lemma challenges_evolve_same: "challenges s' = challenges s \<Longrightarrow> challenges_evolve s s'"
  by (auto simp: challenges_evolve_def intro: chal_evolves_refl)

lemma challenges_evolve_trans:
  "challenges_evolve s t \<Longrightarrow> challenges_evolve t u \<Longrightarrow> challenges_evolve s u"
  unfolding challenges_evolve_def by (meson chal_evolves_trans)

lemma evolves_setters:
  "chal_status c = PENDING \<Longrightarrow> chal_evolves c (invalid_set now c)"
  "chal_status c = VERIFIED \<Longrightarrow> chal_evolves c (consume_set now c)"
  "chal_status c = PENDING \<Longrightarrow> chal_evolves c (verify_set now c)"
  "chal_evolves c (failed_set c)"
  by (simp_all add: chal_evolves_def status_leads_def invalid_set_def consume_set_def verify_set_def failed_set_def)

lemma check_setters:
  "challenge_check c \<Longrightarrow> chal_status c = PENDING \<Longrightarrow> challenge_check (invalid_set now c)"
  "challenge_check c \<Longrightarrow> chal_status c = VERIFIED \<Longrightarrow> challenge_check (consume_set now c)"
  "challenge_check c \<Longrightarrow> open_challenge now c \<Longrightarrow> challenge_check (verify_set now c)"
  "challenge_check c \<Longrightarrow> open_challenge now c \<Longrightarrow> challenge_check (failed_set c)"
  by (auto simp: challenge_check_def open_challenge_def invalid_set_def consume_set_def verify_set_def failed_set_def)

lemma evolves_map:
  "(\<And>c. c \<in> set t \<Longrightarrow> p c \<Longrightarrow> chal_evolves c (f c)) \<Longrightarrow> (\<And>c d. chal_evolves c d \<Longrightarrow> h d = h c) \<Longrightarrow>
    map h (update_where p f t) = map h t"
  by (rule map_key_update_where_on) blast

lemma challenge_update:
  assumes ok: "otp_ok s" and step: "\<And>c. c \<in> set (challenges s) \<Longrightarrow> p c \<Longrightarrow> challenge_check (f c) \<and> chal_evolves c (f c)"
    and s': "s' = s\<lparr>challenges := update_where p f (challenges s)\<rparr>"
  shows "otp_ok s'" and "challenges_evolve s s'"
proof -
  let ?g = "\<lambda>c. if p c then f c else c"
  let ?t = "challenges s"
  have evolves: "chal_evolves c (?g c)" if "c \<in> set ?t" for c using step [OF that] by simp
  note keep = evolves_map [where t = ?t and p = p and f = f, OF step [THEN conjunct2]]
  have "map chal_id (update_where p f ?t) = map chal_id ?t"
    by (rule keep) (simp_all add: chal_evolves_def)
  then have d: "distinct (map chal_id (update_where p f ?t))"
    using ok by (simp add: otp_ok_def challenges_ok_def)
  have ch: "challenge_check c \<and> stored_email_ok (chal_email c)" if "c \<in> set (update_where p f ?t)" for c
    using that ok step by (auto simp: set_update_where otp_ok_def challenges_ok_def chal_evolves_def)
  have one: "?g c = ?g d"
    if "c \<in> set ?t" "d \<in> set ?t" "chal_email (?g c) = chal_email (?g d)" "chal_status (?g c) = PENDING" "chal_status (?g d) = PENDING" for c d
  proof -
    from that evolves [OF that(1)] evolves [OF that(2)]
    have "chal_email c = chal_email d \<and> chal_status c = PENDING \<and> chal_status d = PENDING"
      unfolding chal_evolves_def status_leads_def by (metis challenge_status.distinct(1) challenge_status.distinct(3))
    with ok that(1,2) have "c = d" unfolding otp_ok_def challenges_ok_def by blast
    then show ?thesis by simp
  qed
  have pend: "c = d" if "c \<in> set (update_where p f ?t)" "d \<in> set (update_where p f ?t)" "chal_email c = chal_email d"
    "chal_status c = PENDING" "chal_status d = PENDING" for c d
    using that one unfolding set_update_where by (smt (verit, best) imageE)
  from d ch pend have "challenges_ok (update_where p f ?t)"
    unfolding challenges_ok_def by blast
  moreover have "codes_sent (update_where p f ?t) scope key w = codes_sent ?t scope key w" for scope key w
  proof -
    let ?q = "\<lambda>c. sent_to scope key c \<and> windowStart (chal_lastSentAt c) = w"
    have "map ?q (update_where p f ?t) = map ?q ?t"
      by (rule keep) (cases scope; simp add: chal_evolves_def)+
    then have "length (filter id (map ?q (update_where p f ?t))) = length (filter id (map ?q ?t))" by simp
    then show ?thesis by (simp add: codes_sent_def filter_map comp_def)
  qed
  ultimately show "otp_ok s'" using ok by (simp add: otp_ok_def codes_counted_def s')
  have "?g c \<in> set (update_where p f ?t)" if "c \<in> set ?t" for c
    using that unfolding set_update_where by (rule imageI)
  with evolves show "challenges_evolve s s'"
    unfolding challenges_evolve_def s' by (auto simp del: if_split_asm)
qed


lemma count_set_simps [simp]:
  "rate_scope (count_set n r) = rate_scope r" "rate_key (count_set n r) = rate_key r"
  "rate_windowStartedAt (count_set n r) = rate_windowStartedAt r"
  "rate_requestCount (count_set n r) = rate_requestCount r + 1"
  "rate_pred scope key w (count_set n r) = rate_pred scope key w r"
  by (simp_all add: count_set_def rate_pred_def)

lemma rate_count_simps [simp]:
  "rate_count [] scope key w = 0"
  "rate_count (r # t) scope key w = (if rate_pred scope key w r then rate_requestCount r else rate_count t scope key w)"
  by (simp_all add: rate_count_def)

lemma rate_count_update:
  "rate_count (update_where (rate_pred scope key w) (count_set n) t) scope' key' w' =
    rate_count t scope' key' w' +
      (if (scope', key', w') = (scope, key, w) \<and> list_ex (rate_pred scope key w) t then 1 else 0)"
  by (induction t) (auto simp: rate_pred_def)

lemma rate_count_append:
  "\<not> list_ex (rate_pred scope key w) t \<Longrightarrow> rate_pred scope key w r \<Longrightarrow>
    rate_count (t @ [r]) scope' key' w' =
      (if (scope', key', w') = (scope, key, w) then rate_requestCount r else rate_count t scope' key' w')"
  by (induction t) (auto simp: rate_pred_def)

lemma rate_count_returning:
  "list_ex (rate_pred scope key w) t \<Longrightarrow>
    first_row (returning (rate_pred scope key w) (count_set n) t) \<noteq> None \<and>
    map_option rate_requestCount (first_row (returning (rate_pred scope key w) (count_set n) t)) =
      Some (rate_count t scope key w + 1)"
  by (induction t) (auto simp: returning_def)

lemma rate_count_absent: "\<not> list_ex (rate_pred scope key w) t \<Longrightarrow> rate_count t scope key w = 0"
  by (induction t) auto

lemma incrementRateLimit_counts:
  assumes "incrementRateLimit s scope key w dbNow = (n, s1)"
  shows "n = Some (rate_count (rate_limits s) scope key w + 1)"
    and "\<exists>t. s1 = s\<lparr>rate_limits := t\<rparr>"
    and "rate_count (rate_limits s1) scope' key' w' =
      rate_count (rate_limits s) scope' key' w' + (if (scope', key', w') = (scope, key, w) then 1 else 0)"
  using assms rate_count_returning [of scope key w "rate_limits s" dbNow] rate_count_absent [of scope key w "rate_limits s"]
  by (auto simp: incrementRateLimit_def rate_count_update rate_count_append rate_pred_def split: if_splits)

lemma incrementRateLimit_rows:
  assumes "incrementRateLimit s scope key w dbNow = (n, s1)"
    and "distinct (map (\<lambda>r. (rate_scope r, rate_key r, rate_windowStartedAt r)) (rate_limits s))"
    and "\<forall>r \<in> set (rate_limits s). rate_limit_check r" and "key \<noteq> []"
  shows "distinct (map (\<lambda>r. (rate_scope r, rate_key r, rate_windowStartedAt r)) (rate_limits s1)) \<and>
    (\<forall>r \<in> set (rate_limits s1). rate_limit_check r)"
proof (cases "list_ex (rate_pred scope key w) (rate_limits s)")
  case True
  with assms show ?thesis
    by (auto simp: incrementRateLimit_def map_key_update_where set_update_where rate_limit_check_def)
next
  case False
  then have "(scope, key, w) \<notin> (\<lambda>r. (rate_scope r, rate_key r, rate_windowStartedAt r)) ` set (rate_limits s)"
    by (auto simp: list_ex_iff rate_pred_def)
  with False assms show ?thesis by (auto simp: incrementRateLimit_def rate_limit_check_def)
qed

lemma rate_count_row:
  "distinct (map (\<lambda>r. (rate_scope r, rate_key r, rate_windowStartedAt r)) t) \<Longrightarrow> r \<in> set t \<Longrightarrow>
    rate_count t (rate_scope r) (rate_key r) (rate_windowStartedAt r) = rate_requestCount r"
  by (induction t) (auto simp: rate_pred_def image_iff)


section \<open>What the requests do\<close>

lemma rate_ok_of_counts:
  assumes "distinct (map (\<lambda>r. (rate_scope r, rate_key r, rate_windowStartedAt r)) t)"
    and "\<forall>r \<in> set t. rate_limit_check r" and "\<And>scope key w. rate_count t scope key w \<le> rate_limit_of scope"
  shows "rates_ok t"
  using assms rate_count_row [OF assms(1)] unfolding rates_ok_def by metis

lemma rate_count_le: "rates_ok t \<Longrightarrow> rate_count t scope key w \<le> rate_limit_of scope"
  by (induction t) (auto simp: rates_ok_def rate_pred_def)

text \<open>A code that is issued: what the transaction did, step by step.\<close>

lemma issue_challenge_Inr:
  assumes "issue_challenge env newId otp now dbNow email ip s = (Inr i, s')"
  obtains h s2 where "i = newId" and "hashOtp env otp = Inr h" and "h \<noteq> []"
    and "s2 = invalidatePendingChallenges s email now"
    and "challenges s' = challenges s2 @ [new_challenge newId now dbNow email h ip]"
    and "s' = s\<lparr>rate_limits := rate_limits s', challenges := challenges s'\<rparr>"
    and "\<And>c. findLatestChallengeForUpdate s email = Some c \<Longrightarrow> chal_lastSentAt c + 60000 \<le> now"
    and "rate_count (rate_limits s) EMAIL email (windowStart now) < 5"
    and "rate_count (rate_limits s) IP ip (windowStart now) < 20"
    and "\<And>scope key w. rate_count (rate_limits s') scope key w = rate_count (rate_limits s) scope key w +
      (if w = windowStart now \<and> (scope = EMAIL \<and> key = email \<or> scope = IP \<and> key = ip) then 1 else 0)"
    and "rates_ok (rate_limits s) \<Longrightarrow> email \<noteq> [] \<Longrightarrow> ip \<noteq> [] \<Longrightarrow> rates_ok (rate_limits s')"
proof -
  obtain n s1 m s2 where inc: "incrementRateLimit s EMAIL email (windowStart now) dbNow = (n, s1)"
      "incrementRateLimit s1 IP ip (windowStart now) dbNow = (m, s2)"
    by (meson surj_pair)
  note one = incrementRateLimit_counts [OF inc(1)] and two = incrementRateLimit_counts [OF inc(2)]
  from assms inc obtain h where run: "\<not> (case findLatestChallengeForUpdate s email of
        None \<Rightarrow> False | Some previous \<Rightarrow> now - chal_lastSentAt previous < 60 * 1000)"
      "\<not> 5 < coalesce n 0" "\<not> 20 < coalesce m 0" "hashOtp env otp = Inr h"
      "insertChallenge (invalidatePendingChallenges s2 email now) (new_challenge newId now dbNow email h ip) = (Inr i, s')"
    by (auto simp: issue_challenge_def guard_simps Let_def split: prod.splits sum.splits)
  from run(5) have ins: "i = newId" "h \<noteq> []"
      "s' = (invalidatePendingChallenges s2 email now)\<lparr>challenges :=
        challenges (invalidatePendingChallenges s2 email now) @ [new_challenge newId now dbNow email h ip]\<rparr>"
    by (auto simp: insertChallenge_def new_challenge_def challenge_check_def split: if_splits)
  have rl: "rate_limits s' = rate_limits s2" by (simp add: ins(3) invalidatePendingChallenges_def)
  have counts: "rate_count (rate_limits s') scope key w = rate_count (rate_limits s) scope key w +
      (if w = windowStart now \<and> (scope = EMAIL \<and> key = email \<or> scope = IP \<and> key = ip) then 1 else 0)" for scope key w
    unfolding rl two(3) one(3) by (cases scope) auto
  have lim: "rate_count (rate_limits s) EMAIL email (windowStart now) < 5"
      "rate_count (rate_limits s) IP ip (windowStart now) < 20"
    using run(2,3) one(1) two(1) one(3) [of IP ip "windowStart now"] by simp_all
  from one(2) two(2) obtain t where tables: "s2 = s\<lparr>rate_limits := t\<rparr>" by auto
  have rates: "rates_ok (rate_limits s')" if "rates_ok (rate_limits s)" "email \<noteq> []" "ip \<noteq> []"
  proof (rule rate_ok_of_counts)
    have "distinct (map (\<lambda>r. (rate_scope r, rate_key r, rate_windowStartedAt r)) (rate_limits s1)) \<and>
        (\<forall>r \<in> set (rate_limits s1). rate_limit_check r)"
      using incrementRateLimit_rows [OF inc(1)] that by (simp add: rates_ok_def)
    then have "distinct (map (\<lambda>r. (rate_scope r, rate_key r, rate_windowStartedAt r)) (rate_limits s2)) \<and>
        (\<forall>r \<in> set (rate_limits s2). rate_limit_check r)"
      using incrementRateLimit_rows [OF inc(2)] that by simp
    then show "distinct (map (\<lambda>r. (rate_scope r, rate_key r, rate_windowStartedAt r)) (rate_limits s'))"
      "\<forall>r \<in> set (rate_limits s'). rate_limit_check r" by (simp_all add: rl)
    show "rate_count (rate_limits s') scope key w \<le> rate_limit_of scope" for scope key w
      using rate_count_le [OF that(1), of scope key w] lim unfolding counts by (cases scope) auto
  qed
  show thesis
  proof (rule that [OF ins(1) run(4) ins(2) refl])
    show "challenges s' = challenges (invalidatePendingChallenges s email now) @ [new_challenge newId now dbNow email h ip]"
      by (simp add: ins(3) invalidatePendingChallenges_def tables)
    show "s' = s\<lparr>rate_limits := rate_limits s', challenges := challenges s'\<rparr>"
      by (simp add: ins(3) invalidatePendingChallenges_def tables)
    show "chal_lastSentAt c + 60000 \<le> now" if "findLatestChallengeForUpdate s email = Some c" for c
      using run(1) that by simp
  qed (use lim counts rates in auto)
qed


lemma invalidatePending_ok:
  assumes "otp_ok s"
  shows "otp_ok (invalidatePendingChallenges s email now)"
    and "challenges_evolve s (invalidatePendingChallenges s email now)"
proof -
  have "challenge_check (invalid_set now c) \<and> chal_evolves c (invalid_set now c)"
    if "c \<in> set (challenges s)" "chal_email c = email \<and> chal_status c = PENDING" for c
    using that assms by (auto simp: otp_ok_def challenges_ok_def intro: check_setters evolves_setters)
  from challenge_update [OF assms this invalidatePendingChallenges_def]
  show "otp_ok (invalidatePendingChallenges s email now)"
    "challenges_evolve s (invalidatePendingChallenges s email now)" by blast+
qed

lemma invalidate_ok:
  assumes "otp_ok s"
  shows "otp_ok (invalidateChallenge s i now)" and "challenges_evolve s (invalidateChallenge s i now)"
proof -
  have "challenge_check (invalid_set now c) \<and> chal_evolves c (invalid_set now c)"
    if "c \<in> set (challenges s)" "chal_id c = i \<and> chal_status c = PENDING" for c
    using that assms by (auto simp: otp_ok_def challenges_ok_def intro: check_setters evolves_setters)
  from challenge_update [OF assms this invalidateChallenge_def]
  show "otp_ok (invalidateChallenge s i now)" "challenges_evolve s (invalidateChallenge s i now)" by blast+
qed

lemma mark_ok:
  assumes "otp_ok s" and "markChallengeVerified s i now = (r, s')"
  shows "otp_ok s'" and "challenges_evolve s s'"
proof -
  have s': "s' = s\<lparr>challenges := update_where (\<lambda>c. chal_id c = i \<and> open_challenge now c) (verify_set now) (challenges s)\<rparr>"
    using assms(2) by (simp add: markChallengeVerified_def)
  have "challenge_check (verify_set now c) \<and> chal_evolves c (verify_set now c)"
    if "c \<in> set (challenges s)" "chal_id c = i \<and> open_challenge now c" for c
    using that assms(1) by (auto simp: otp_ok_def challenges_ok_def open_challenge_def intro: check_setters evolves_setters)
  from challenge_update [OF assms(1) this s'] show "otp_ok s'" "challenges_evolve s s'" by blast+
qed

lemma increment_ok:
  assumes "otp_ok s" and "incrementFailedAttempts s i now = (r, s')"
  shows "otp_ok s'" and "challenges_evolve s s'"
proof -
  have s': "s' = s\<lparr>challenges := update_where (\<lambda>c. chal_id c = i \<and> open_challenge now c) failed_set (challenges s)\<rparr>"
    using assms(2) by (simp add: incrementFailedAttempts_def)
  have "challenge_check (failed_set c) \<and> chal_evolves c (failed_set c)"
    if "c \<in> set (challenges s)" "chal_id c = i \<and> open_challenge now c" for c
    using that assms(1) by (auto simp: otp_ok_def challenges_ok_def intro: check_setters evolves_setters)
  from challenge_update [OF assms(1) this s'] show "otp_ok s'" "challenges_evolve s s'" by blast+
qed

lemma consume_ok:
  assumes "otp_ok s" and "consumeVerifiedChallenge s i now = (r, s')"
  shows "otp_ok s'" and "challenges_evolve s s'"
proof -
  have s': "s' = s\<lparr>challenges := update_where (\<lambda>c. chal_id c = i \<and> chal_status c = VERIFIED) (consume_set now) (challenges s)\<rparr>"
    using assms(2) by (simp add: consumeVerifiedChallenge_def)
  have "challenge_check (consume_set now c) \<and> chal_evolves c (consume_set now c)"
    if "c \<in> set (challenges s)" "chal_id c = i \<and> chal_status c = VERIFIED" for c
    using that assms(1) by (auto simp: otp_ok_def challenges_ok_def intro: check_setters evolves_setters)
  from challenge_update [OF assms(1) this s'] show "otp_ok s'" "challenges_evolve s s'" by blast+
qed

lemma new_challenge_simps [simp]:
  "chal_id (new_challenge i now dbNow email h ip) = i" "chal_email (new_challenge i now dbNow email h ip) = email"
  "chal_otpHash (new_challenge i now dbNow email h ip) = h" "chal_status (new_challenge i now dbNow email h ip) = PENDING"
  "chal_failedAttempts (new_challenge i now dbNow email h ip) = 0" "chal_ipAddress (new_challenge i now dbNow email h ip) = ip"
  "chal_expiresAt (new_challenge i now dbNow email h ip) = now + 300000" "chal_lastSentAt (new_challenge i now dbNow email h ip) = now"
  by (simp_all add: new_challenge_def)

lemma codes_sent_append:
  "codes_sent (t @ [c]) scope key w =
    codes_sent t scope key w + (if sent_to scope key c \<and> windowStart (chal_lastSentAt c) = w then 1 else 0)"
  by (simp add: codes_sent_def)

lemma challenges_ok_append:
  assumes "challenges_ok t" and "chal_id c \<notin> chal_id ` set t" and "challenge_check c"
    and "stored_email_ok (chal_email c)"
    and none: "\<And>d. d \<in> set t \<Longrightarrow> chal_email d = chal_email c \<Longrightarrow> chal_status d \<noteq> PENDING"
  shows "challenges_ok (t @ [c])"
proof -
  have "a = b" if "a \<in> set (t @ [c])" "b \<in> set (t @ [c])" "chal_email a = chal_email b"
    "chal_status a = PENDING" "chal_status b = PENDING" for a b
    using that none [of a] none [of b] assms(1) unfolding challenges_ok_def by (cases "a = c"; cases "b = c") auto
  moreover have "distinct (map chal_id (t @ [c]))" "\<forall>a \<in> set (t @ [c]). challenge_check a \<and> stored_email_ok (chal_email a)"
    using assms(1-4) by (simp_all add: challenges_ok_def)
  ultimately show ?thesis unfolding challenges_ok_def by blast
qed

lemma issue_challenge_ok:
  assumes ok: "otp_ok s" and fresh: "newId \<notin> chal_id ` set (challenges s)" and "stored_email_ok email" and "ip \<noteq> []"
    and run: "issue_challenge env newId otp now dbNow email ip s = (r, s')"
  shows "otp_ok s'" and "challenges_evolve s s'"
proof -
  have "otp_ok s' \<and> challenges_evolve s s'"
  proof (cases r)
    case (Inl e)
    with run have "s' = s" by (simp add: issue_challenge_def transaction_Inl)
    with ok show ?thesis by (simp add: challenges_evolve_same)
  next
    case (Inr i)
    define s2 where "s2 = invalidatePendingChallenges s email now"
    let ?c = "new_challenge newId now dbNow email"
    from issue_challenge_Inr [OF run [unfolded Inr]] obtain h where h: "h \<noteq> []"
      and chals: "challenges s' = challenges s2 @ [?c h ip]"
      and counts: "\<And>scope key w. rate_count (rate_limits s') scope key w = rate_count (rate_limits s) scope key w +
        (if w = windowStart now \<and> (scope = EMAIL \<and> key = email \<or> scope = IP \<and> key = ip) then 1 else 0)"
      and rates: "rates_ok (rate_limits s')"
      unfolding s2_def by (metis ok otp_ok_def assms(3,4) stored_email_ok_def)
    have s2: "otp_ok s2" "challenges_evolve s s2" unfolding s2_def by (rule invalidatePending_ok [OF ok])+
    have rl: "rate_limits s2 = rate_limits s" by (simp add: s2_def invalidatePendingChallenges_def)
    have ids: "map chal_id (challenges s2) = map chal_id (challenges s)"
      by (simp add: s2_def invalidatePendingChallenges_def map_key_update_where invalid_set_def)
    have none: "chal_status c \<noteq> PENDING" if "c \<in> set (challenges s2)" "chal_email c = email" for c
    proof -
      from that(1) obtain d where "c = (if chal_email d = email \<and> chal_status d = PENDING then invalid_set now d else d)"
        by (auto simp: s2_def invalidatePendingChallenges_def set_update_where simp del: if_image_distrib)
      with that(2) show ?thesis by (cases "chal_email d = email \<and> chal_status d = PENDING") (auto simp: invalid_set_def)
    qed
    have "challenges_ok (challenges s')"
      unfolding chals
    proof (rule challenges_ok_append)
      show "challenges_ok (challenges s2)" using s2(1) by (simp add: otp_ok_def)
      show "chal_id (?c h ip) \<notin> chal_id ` set (challenges s2)"
        using fresh arg_cong [OF ids, of set] by simp
      show "challenge_check (?c h ip)" using h by (simp add: challenge_check_def new_challenge_def)
      show "stored_email_ok (chal_email (?c h ip))" using assms(3) by simp
    qed (use none in simp)
    moreover have "codes_sent (challenges s') scope key w = rate_count (rate_limits s') scope key w" for scope key w
    proof -
      have "codes_sent (challenges s2) scope key w = rate_count (rate_limits s) scope key w"
        using s2(1) rl by (simp add: otp_ok_def codes_counted_def)
      then show ?thesis unfolding counts chals codes_sent_append by (cases scope) auto
    qed
    moreover have "challenges_evolve s s'"
      using s2(2) by (fastforce simp: challenges_evolve_def chals)
    ultimately show ?thesis using rates by (simp add: otp_ok_def codes_counted_def)
  qed
  then show "otp_ok s'" "challenges_evolve s s'" by blast+
qed

lemma verifyOtp_ok:
  assumes "otp_ok s" and "verifyOtp env seen now (i, otp) s = (r, s')"
  shows "otp_ok s'" and "challenges_evolve s s'"
proof -
  have "s' = s \<or> s' = snd (incrementFailedAttempts s i now) \<or> s' = snd (markChallengeVerified s i now)"
    using assms(2) unfolding verifyOtp_def by (auto split: option.splits if_splits sum.splits bool.splits prod.splits)
  then have "otp_ok s' \<and> challenges_evolve s s'"
    using assms(1) increment_ok [OF assms(1), of i now] mark_ok [OF assms(1), of i now]
    by (metis challenges_evolve_same prod.collapse)
  then show "otp_ok s'" "challenges_evolve s s'" by blast+
qed


section \<open>A code that is sent\<close>

lemma matchesOtp_own:
  "hashOtp env otp = Inr h \<Longrightarrow> hashOtp env code = Inr h' \<Longrightarrow> matchesOtp env otp h' = Inr (from_hex h = from_hex h')"
  by (auto simp: matchesOtp_def Let_def)

lemma hashOtp_same_secret: "hashOtp env otp = Inr h \<Longrightarrow> \<exists>h'. hashOtp env code = Inr h'"
  by (auto simp: hashOtp_def split: if_splits)

lemma requestOtp_Inr:
  assumes "requestOtp env send newId random now dbNow later (emailInput, ip) s = (Inr i, s')"
  shows "normalizeEmail emailInput \<noteq> [] \<and> ip \<noteq> [] \<and>
    issue_challenge env newId (createOtp random) now dbNow (normalizeEmail emailInput) ip s = (Inr i, s') \<and>
    send (normalizeEmail emailInput) (createOtp random) = Mailed"
  using assms by (cases "send (normalizeEmail emailInput) (createOtp random)")
    (auto simp: requestOtp_def Let_def guard_simps)

lemma issued_row:
  assumes "issue_challenge env newId otp now dbNow email ip s = (Inr i, s')" and "newId \<notin> chal_id ` set (challenges s)"
  obtains h where "hashOtp env otp = Inr h" and "lookup chal_id newId (challenges s') = Some (new_challenge newId now dbNow email h ip)"
    and "i = newId"
proof -
  from issue_challenge_Inr [OF assms(1)] obtain h where h: "i = newId" "hashOtp env otp = Inr h"
    "challenges s' = challenges (invalidatePendingChallenges s email now) @ [new_challenge newId now dbNow email h ip]"
    by metis
  have "chal_id ` set (challenges (invalidatePendingChallenges s email now)) = chal_id ` set (challenges s)"
    by (simp add: invalidatePendingChallenges_def invalid_set_def)
  with assms(2) have "lookup chal_id newId (challenges (invalidatePendingChallenges s email now)) = None"
    by (simp add: lookup_None_iff)
  with h(3) have "lookup chal_id newId (challenges s') = Some (new_challenge newId now dbNow email h ip)" by simp
  with h(1,2) that show thesis by blast
qed

lemma lower_char_simps [simp]: "lower_char (lower_char c) = lower_char c" "lower_char c = CHR '' '' \<longleftrightarrow> c = CHR '' ''"
proof -
  have "of_char (lower_char c) = (32 :: nat) \<longleftrightarrow> of_char c = (32 :: nat)"
    by (auto simp: lower_char_def Let_def)
  moreover have "of_char (CHR '' '') = (32 :: nat)" by simp
  ultimately show "lower_char c = CHR '' '' \<longleftrightarrow> c = CHR '' ''" by (metis of_char_eq_iff)
  show "lower_char (lower_char c) = lower_char c" by (auto simp: lower_char_def Let_def)
qed

lemma trim_ends:
  assumes "trim s \<noteq> []"
  shows "\<not> is_space (hd (trim s)) \<and> \<not> is_space (last (trim s))"
proof -
  define u where "u = dropWhile is_space (rev (dropWhile is_space s))"
  then have t: "trim s = rev u" by (simp add: trim_def)
  with assms have "last (trim s) = hd u" "u \<noteq> []" by (simp_all add: last_rev)
  then have l: "\<not> is_space (last (trim s))" using hd_dropWhile_not u_def by metis
  have "dropWhile is_space (trim s) = trim s"
  proof -
    have "trim (trim s) = trim s" by simp
    have "length (dropWhile is_space (trim s)) = length (trim s)"
    proof (rule antisym)
      show "length (dropWhile is_space (trim s)) \<le> length (trim s)" by (rule length_dropWhile_le)
      have "length (trim s) = length (trim (trim s))" by simp
      also have "\<dots> \<le> length (dropWhile is_space (trim s))"
        unfolding trim_def [of "trim s"] by (metis length_dropWhile_le length_rev)
      finally show "length (trim s) \<le> length (dropWhile is_space (trim s))" .
    qed
    then show ?thesis by (metis append_eq_conv_conj append_Nil length_append add_cancel_left_left length_0_conv takeWhile_dropWhile_id)
  qed
  with assms l show ?thesis by (metis hd_dropWhile_not)
qed

lemma normalizeEmail_stored: "normalizeEmail e \<noteq> [] \<Longrightarrow> stored_email_ok (normalizeEmail e)"
proof -
  assume ne: "normalizeEmail e \<noteq> []"
  then have t: "trim e \<noteq> []" by (auto simp: normalizeEmail_def)
  let ?n = "normalizeEmail e"
  have "hd ?n = lower_char (hd (trim e))" "last ?n = lower_char (last (trim e))"
    using t by (simp_all add: normalizeEmail_def toLowerCase_def hd_map last_map)
  then have "hd ?n \<noteq> CHR '' ''" "last ?n \<noteq> CHR '' ''"
    using trim_ends [OF t] by (auto simp: is_space_def)
  then have "btrim ?n = ?n"
    using ne by (simp add: btrim_def dropWhile_fixed hd_rev)
  moreover have "toLowerCase ?n = ?n" by (simp add: normalizeEmail_def toLowerCase_def comp_def)
  ultimately show "stored_email_ok ?n" using ne by (simp add: stored_email_ok_def)
qed

text \<open>
  The code that is mailed is the code that verifies: after a request that was answered, entering a code
  within five minutes succeeds exactly when it has the mailed code's keyed hash - so the mailed code
  does, and marks the challenge verified - another code is refused as invalid and counted once, and from
  five minutes on every code is refused as expired.\<close>

theorem issued_code_verifies:
  assumes "otp_ok s" and "newId \<notin> chal_id ` set (challenges s)"
    and "requestOtp env send newId random now dbNow later (emailInput, ip) s = (Inr i, s')"
  shows "fst (verifyOtp env s' t (i, otp) s') =
      (if now + 300000 \<le> t then Inl (AppError OTP_EXPIRED)
       else if map_sum id from_hex (hashOtp env otp) = map_sum id from_hex (hashOtp env (createOtp random)) then Inr i
       else Inl (AppError OTP_INVALID)) \<and>
    map_option (\<lambda>c. (chal_email c, chal_status c, chal_failedAttempts c))
        (lookup chal_id i (challenges (snd (verifyOtp env s' t (i, otp) s')))) =
      Some (normalizeEmail emailInput,
        if now + 300000 \<le> t then (PENDING, 0)
        else if map_sum id from_hex (hashOtp env otp) = map_sum id from_hex (hashOtp env (createOtp random)) then (VERIFIED, 0)
        else (PENDING, 1))"
proof -
  let ?email = "normalizeEmail emailInput"
  from requestOtp_Inr [OF assms(3)] have ok: "?email \<noteq> []" "ip \<noteq> []"
    and run: "issue_challenge env newId (createOtp random) now dbNow ?email ip s = (Inr i, s')" by blast+
  from issued_row [OF run assms(2)] obtain h where h: "hashOtp env (createOtp random) = Inr h"
    and row: "lookup chal_id newId (challenges s') = Some (new_challenge newId now dbNow ?email h ip)" and i: "i = newId"
    by blast
  have "distinct (map chal_id (challenges s'))"
    using issue_challenge_ok(1) [OF assms(1,2) normalizeEmail_stored [OF ok(1)] ok(2) run] by (simp add: otp_ok_def challenges_ok_def)
  note ret = returning_key_lookup [OF this, of newId "open_challenge t"]
  obtain k where k: "hashOtp env otp = Inr k" using hashOtp_same_secret [OF h] by blast
  have m: "matchesOtp env otp h = Inr (from_hex k = from_hex h)" by (rule matchesOtp_own [OF k h])
  have upd: "lookup chal_id newId (update_where (\<lambda>c. chal_id c = newId \<and> open_challenge t c) f (challenges s')) =
      Some (if open_challenge t (new_challenge newId now dbNow ?email h ip) then f (new_challenge newId now dbNow ?email h ip)
        else new_challenge newId now dbNow ?email h ip)" if "\<And>c. chal_id (f c) = chal_id c" for f
    using row by (simp add: lookup_update_where [where key = chal_id, OF that])
  have open_iff: "open_challenge t (new_challenge newId now dbNow ?email h ip) \<longleftrightarrow> t < now + 300000"
    by (simp add: open_challenge_def)
  show ?thesis
  proof (cases "now + 300000 \<le> t")
    case True
    then show ?thesis by (simp add: i verifyOtp_def findChallengeById_def row)
  next
    case False
    show ?thesis
    proof (cases "from_hex k = from_hex h")
      case True
      with False show ?thesis
        by (simp add: i verifyOtp_def findChallengeById_def row m k h markChallengeVerified_def ret open_iff upd verify_set_def)
    next
      case diff: False
      with False show ?thesis
        by (simp add: i verifyOtp_def findChallengeById_def row m k h incrementFailedAttempts_def ret open_iff upd failed_set_def)
    qed
  qed
qed


definition demo_otp_env :: otp_env where
  "demo_otp_env = \<lparr>env_hmac = (\<lambda>_ m. m), env_secret = Some ''k''\<rparr>"

definition demo_issued :: db where
  "demo_issued = demo_db\<lparr>
    challenges := [new_challenge ''c1'' 5000 5000 ''a@b.c'' ''000042'' ''1.2.3.4''],
    rate_limits := [\<lparr>rate_scope = EMAIL, rate_key = ''a@b.c'', rate_windowStartedAt = 0, rate_requestCount = 1, rate_updatedAt = 5000\<rparr>,
      \<lparr>rate_scope = IP, rate_key = ''1.2.3.4'', rate_windowStartedAt = 0, rate_requestCount = 1, rate_updatedAt = 5000\<rparr>]\<rparr>"

lemma demo_code: "createOtp 42 = ''000042''"
  by code_simp

lemma demo_email: "normalizeEmail '' A@b.c '' = ''a@b.c''"
  by code_simp

lemma demo_otp_ok: "otp_ok demo_db"
  by (simp add: otp_ok_def demo_db_def empty_db_def challenges_ok_def rates_ok_def codes_counted_def codes_sent_def)

lemma demo_otp_request:
  "requestOtp demo_otp_env (\<lambda>_ _. Mailed) ''c1'' 42 5000 5000 5000 ('' A@b.c '', ''1.2.3.4'') demo_db = (Inr ''c1'', demo_issued)"
  by (simp add: requestOtp_def Let_def demo_email demo_code issue_challenge_def transaction_def findLatestChallengeForUpdate_def
      incrementRateLimit_def rate_pred_def windowStart_def invalidatePendingChallenges_def hashOtp_def demo_otp_env_def
      truthy_def insertChallenge_def challenge_check_def new_challenge_def demo_issued_def demo_db_def empty_db_def)

theorem issued_code_verifies_witness:
  "fst (verifyOtp demo_otp_env demo_issued 6000 (''c1'', ''000042'') demo_issued) = Inr ''c1'' \<and>
    fst (verifyOtp demo_otp_env demo_issued 6000 (''c1'', ''000043'') demo_issued) = Inl (AppError OTP_INVALID)"
proof -
  have "''c1'' \<notin> chal_id ` set (challenges demo_db)" by (simp add: demo_db_def empty_db_def)
  note verifies = issued_code_verifies [OF demo_otp_ok this demo_otp_request, of 6000]
  show ?thesis
    using verifies [of "''000042''"] verifies [of "''000043''"]
    by (simp add: demo_code hashOtp_def demo_otp_env_def truthy_def hex_value_def Let_def)
qed

end
