(* ===== verification/Accounts.thy ===== *)
theory Accounts imports EmailVerification begin

text \<open>
  Accounts and passwords (\<open>auth-repository.ts\<close>, \<open>signup-service.ts\<close>, \<open>authentication-service.ts\<close>):
  completing a sign-up with a verified challenge, signing in, and the histories of interleaved requests
  around codes and sign-ups.  argon2 is a third-party package: its two functions are a parameter.
\<close>

section \<open>Passwords\<close>

text \<open>
  \<open>argon2.hash\<close> draws a salt, which is an argument; \<open>argon2.verify\<close> decides, or throws when the text is not
  an encoded hash (\<open>None\<close>).
\<close>

record argon2 =
  argon_hash :: "string \<Rightarrow> string \<Rightarrow> string"
  argon_verify :: "string \<Rightarrow> string \<Rightarrow> bool option"

definition startsWith :: "string \<Rightarrow> string \<Rightarrow> bool" where
  "startsWith s p \<longleftrightarrow> take (length p) s = p"

text \<open>
  Documented: a hash of type \<open>argon2id\<close> is an encoded string that begins with its type, and the
  password it was made from verifies.
\<close>

definition argon2_documented :: "argon2 \<Rightarrow> bool" where
  "argon2_documented a \<longleftrightarrow>
    (\<forall>salt p. startsWith (argon_hash a salt p) ''$argon2id$'' \<and> argon_verify a (argon_hash a salt p) p = Some True)"

definition argon2_reference :: argon2 where
  "argon2_reference = \<lparr>argon_hash = (\<lambda>salt p. ''$argon2id$'' @ p), argon_verify = (\<lambda>h p. if startsWith h ''$argon2id$'' then Some (h = ''$argon2id$'' @ p) else None)\<rparr>"

lemma argon2_reference_documented: "argon2_documented argon2_reference"
  by (simp add: argon2_documented_def argon2_reference_def startsWith_def)

definition dummy_password_hash :: string where
  "dummy_password_hash =
    ''$argon2id$v=19$m=19456,t=2,p=1$ZHVtbXktc2FsdC0xNi1ieXRlcw$7WbZq0N8pR0R8m5y8KjW1D3XfOQ0b3q4uVf7M4Y2m9Q''"

section \<open>Statements\<close>

definition insertAccount :: "db \<Rightarrow> eid \<Rightarrow> instant \<Rightarrow> eid \<times> db" where
  "insertAccount s i dbNow =
    (i, s\<lparr>accounts := accounts s @ [\<lparr>account_id = i, account_role = USER, account_status = ACTIVE,
       account_createdAt = dbNow, account_deletedAt = None\<rparr>]\<rparr>)"

definition insertProfile :: "db \<Rightarrow> eid \<Rightarrow> string \<Rightarrow> instant \<Rightarrow> (unit, db) use_case" where
  "insertProfile s accountId nickname dbNow =
    (if accountId \<in> profile_accountId ` set (profiles s) then (Inl (DbError ''profile_pkey''), s)
     else if nickname \<in> profile_nickname ` set (profiles s) then (Inl ProfileNicknameConflictError, s)
     else if accountId \<notin> account_id ` set (accounts s) then (Inl (DbError ''profile_account_id_fkey''), s)
     else (Inr (), s\<lparr>profiles := profiles s @ [\<lparr>profile_accountId = accountId, profile_nickname = nickname,
            profile_avatarUrl = None, profile_updatedAt = dbNow\<rparr>]\<rparr>))"

definition insertPasswordCredential :: "db \<Rightarrow> credential_row \<Rightarrow> (unit, db) use_case" where
  "insertPasswordCredential s r =
    (if \<not> credential_check r then (Inl (DbError ''password_credential_email_check''), s)
     else if cred_accountId r \<in> cred_accountId ` set (credentials s) then (Inl (DbError ''password_credential_pkey''), s)
     else if cred_email r \<in> cred_email ` set (credentials s) then (Inl PasswordCredentialEmailConflictError, s)
     else if cred_accountId r \<notin> account_id ` set (accounts s) then (Inl (DbError ''password_credential_account_id_fkey''), s)
     else (Inr (), s\<lparr>credentials := credentials s @ [r]\<rparr>))"

text \<open>The credential of an address with its account.\<close>

definition findPasswordCredentialByEmail :: "db \<Rightarrow> string \<Rightarrow> (credential_row \<times> account_row) option" where
  "findPasswordCredentialByEmail s email =
    (case lookup cred_email email (credentials s) of
       None \<Rightarrow> None
     | Some c \<Rightarrow> map_option (Pair c) (lookup account_id (cred_accountId c) (accounts s)))"

definition updateAccountAccess :: "db \<Rightarrow> eid \<Rightarrow> account_role \<Rightarrow> account_status \<Rightarrow> db" where
  "updateAccountAccess s accountId role status =
    s\<lparr>accounts := update_where (\<lambda>r. account_id r = accountId)
      (\<lambda>r. r\<lparr>account_role := role, account_status := status\<rparr>) (accounts s)\<rparr>"

section \<open>Signing up\<close>

fun signup_error :: "failure \<Rightarrow> failure" where
  "signup_error PasswordCredentialEmailConflictError = AppError EMAIL_ALREADY_REGISTERED"
| "signup_error ProfileNicknameConflictError = AppError NICKNAME_ALREADY_REGISTERED"
| "signup_error e = e"

definition completeSignup ::
  "argon2 \<Rightarrow> string \<Rightarrow> eid \<Rightarrow> instant \<Rightarrow> instant \<Rightarrow> eid \<times> string \<times> string \<Rightarrow> db \<Rightarrow> (eid, db) use_case" where
  "completeSignup argon salt newId now dbNow arg s0 = (case arg of (challengeId, password, nickname) \<Rightarrow>
    on_error signup_error (transaction (\<lambda>s.
      (case consumeVerifiedChallenge s challengeId now of
         (None, s1) \<Rightarrow> fail OTP_NOT_VERIFIED s1
       | (Some email, s1) \<Rightarrow>
           (case insertAccount s1 newId dbNow of (accountId, s2) \<Rightarrow>
             and_then (insertProfile s2 accountId (trim nickname) dbNow) (\<lambda>_ s3.
             and_then (insertPasswordCredential s3 \<lparr>cred_accountId = accountId, cred_email = email,
                 cred_passwordHash = argon_hash argon salt password, cred_emailVerifiedAt = now,
                 cred_passwordChangedAt = now, cred_updatedAt = dbNow\<rparr>) (\<lambda>_ s4.
               (Inr accountId, s4)))))) s0))"

section \<open>Signing in\<close>

definition authenticateCredentials :: "argon2 \<Rightarrow> db \<Rightarrow> string \<times> string \<Rightarrow> failure + eid option" where
  "authenticateCredentials argon s arg = (case arg of (email, password) \<Rightarrow>
    (let credential = findPasswordCredentialByEmail s (normalizeEmail email);
         passwordHash = coalesce (map_option (cred_passwordHash \<circ> fst) credential) dummy_password_hash
     in case argon_verify argon passwordHash password of
          None \<Rightarrow> Inl (Error ''argon2'')
        | Some passwordMatches \<Rightarrow>
            (case credential of
               None \<Rightarrow> Inr None
             | Some (_, account) \<Rightarrow>
                 (if \<not> startsWith passwordHash ''$argon2id$'' \<or> \<not> passwordMatches \<or>
                     account_status account \<noteq> ACTIVE then Inr None
                  else Inr (Some (account_id account))))))"

section \<open>Well-formed accounts\<close>

definition accounts_ok :: "db \<Rightarrow> bool" where
  "accounts_ok s \<longleftrightarrow>
    distinct (map account_id (accounts s)) \<and> list_all account_check (accounts s) \<and>
    distinct (map profile_accountId (profiles s)) \<and> distinct (map profile_nickname (profiles s)) \<and>
    profile_accountId ` set (profiles s) \<subseteq> account_id ` set (accounts s) \<and>
    distinct (map cred_accountId (credentials s)) \<and> distinct (map cred_email (credentials s)) \<and>
    list_all credential_check (credentials s) \<and>
    cred_accountId ` set (credentials s) \<subseteq> account_id ` set (accounts s)"

lemma insertProfile_Inr [guard_simps]:
  "insertProfile s i nick dbNow = (Inr u, s') \<longleftrightarrow>
    i \<notin> profile_accountId ` set (profiles s) \<and> nick \<notin> profile_nickname ` set (profiles s) \<and>
    i \<in> account_id ` set (accounts s) \<and>
    s' = s\<lparr>profiles := profiles s @ [\<lparr>profile_accountId = i, profile_nickname = nick,
      profile_avatarUrl = None, profile_updatedAt = dbNow\<rparr>]\<rparr>"
  by (auto simp: insertProfile_def)

lemma insertPasswordCredential_Inr [guard_simps]:
  "insertPasswordCredential s r = (Inr u, s') \<longleftrightarrow>
    credential_check r \<and> cred_accountId r \<notin> cred_accountId ` set (credentials s) \<and>
    cred_email r \<notin> cred_email ` set (credentials s) \<and> cred_accountId r \<in> account_id ` set (accounts s) \<and>
    s' = s\<lparr>credentials := credentials s @ [r]\<rparr>"
  by (auto simp: insertPasswordCredential_def)

text \<open>What a completed sign-up did.\<close>

definition new_account :: "eid \<Rightarrow> instant \<Rightarrow> account_row" where
  "new_account i dbNow = \<lparr>account_id = i, account_role = USER, account_status = ACTIVE,
     account_createdAt = dbNow, account_deletedAt = None\<rparr>"

definition new_credential :: "argon2 \<Rightarrow> string \<Rightarrow> eid \<Rightarrow> instant \<Rightarrow> instant \<Rightarrow> string \<Rightarrow> string \<Rightarrow> credential_row" where
  "new_credential argon salt i now dbNow email password =
    \<lparr>cred_accountId = i, cred_email = email, cred_passwordHash = argon_hash argon salt password,
     cred_emailVerifiedAt = now, cred_passwordChangedAt = now, cred_updatedAt = dbNow\<rparr>"

lemma completeSignup_Inr:
  assumes "completeSignup argon salt newId now dbNow (i, password, nickname) s = (Inr a, s')"
  obtains email where "a = newId"
    and "fst (consumeVerifiedChallenge s i now) = Some email"
    and "accounts s' = accounts s @ [new_account newId dbNow]"
    and "profiles s' = profiles s @ [\<lparr>profile_accountId = newId, profile_nickname = trim nickname,
          profile_avatarUrl = None, profile_updatedAt = dbNow\<rparr>]"
    and "credentials s' = credentials s @ [new_credential argon salt newId now dbNow email password]"
    and "challenges s' = challenges (snd (consumeVerifiedChallenge s i now))"
    and "rate_limits s' = rate_limits s" and "mfas s' = mfas s" and "operator_sessions s' = operator_sessions s"
    and "credential_check (new_credential argon salt newId now dbNow email password)"
    and "trim nickname \<notin> profile_nickname ` set (profiles s)" and "email \<notin> cred_email ` set (credentials s)"
    and "newId \<notin> profile_accountId ` set (profiles s)" and "newId \<notin> cred_accountId ` set (credentials s)"
proof -
  obtain e s1 where c: "consumeVerifiedChallenge s i now = (e, s1)" by fastforce
  then have s1: "accounts s1 = accounts s" "profiles s1 = profiles s" "credentials s1 = credentials s"
    "rate_limits s1 = rate_limits s" "mfas s1 = mfas s" "operator_sessions s1 = operator_sessions s"
    by (auto simp: consumeVerifiedChallenge_def)
  from assms c obtain email where e: "e = Some email"
    by (auto simp: completeSignup_def guard_simps split: option.splits)
  from assms c e s1 show thesis
    by (intro that [of email])
      (auto simp: completeSignup_def guard_simps insertAccount_def new_account_def new_credential_def)
qed


section \<open>Histories of requests\<close>

text \<open>
  One database statement of a request after another, in any order.  \<open>IssueCode\<close> is the transaction of a
  request whose mail goes out later; when the mail service refuses it, \<open>MailRefused\<close> follows.  A
  verification reads the state that was current \<open>lag\<close> steps before its update.
\<close>

datatype auth_event =
    IssueCode eid nat instant instant string string
  | MailRefused eid instant
  | VerifyCode nat instant eid string
  | CompleteSignup string eid instant instant eid string string

definition read_back :: "nat \<Rightarrow> db list \<Rightarrow> db" where
  "read_back lag h = h ! min lag (length h - 1)"

fun auth_step :: "otp_env \<Rightarrow> argon2 \<Rightarrow> db list \<Rightarrow> auth_event \<Rightarrow> bool \<times> db" where
  "auth_step env argon h (IssueCode newId random now dbNow email ip) =
    (let r = requestOtp env (\<lambda>_ _. Mailed) newId random now dbNow now (email, ip) (hd h) in (is_ok r, snd r))"
| "auth_step env argon h (MailRefused i now) = (True, invalidateChallenge (hd h) i now)"
| "auth_step env argon h (VerifyCode lag now i otp) =
    (let r = verifyOtp env (read_back lag h) now (i, otp) (hd h) in (is_ok r, snd r))"
| "auth_step env argon h (CompleteSignup salt newId now dbNow i password nickname) =
    (let r = completeSignup argon salt newId now dbNow (i, password, nickname) (hd h) in (is_ok r, snd r))"

text \<open>Identifiers of challenges and accounts are new.\<close>

fun fresh_event :: "db \<Rightarrow> auth_event \<Rightarrow> bool" where
  "fresh_event s (IssueCode newId random now dbNow email ip) \<longleftrightarrow> newId \<notin> chal_id ` set (challenges s)"
| "fresh_event s (CompleteSignup salt newId now dbNow i password nickname) \<longleftrightarrow> newId \<notin> account_id ` set (accounts s)"
| "fresh_event s _ \<longleftrightarrow> True"

text \<open>A trace of events with their outcomes, and the states it went through, newest first.\<close>

inductive auth_history ::
  "otp_env \<Rightarrow> argon2 \<Rightarrow> db \<Rightarrow> (auth_event \<times> bool) list \<Rightarrow> db list \<Rightarrow> bool" for env argon s0 where
  history_start: "auth_history env argon s0 [] [s0]"
| history_step: "auth_history env argon s0 tr h \<Longrightarrow> fresh_event (hd h) ev \<Longrightarrow>
    auth_step env argon h ev = (ok, s') \<Longrightarrow> auth_history env argon s0 (tr @ [(ev, ok)]) (s' # h)"

inductive_cases auth_history_snocE: "auth_history env argon s0 (tr @ [x]) h"

definition signup_ok :: "db \<Rightarrow> bool" where
  "signup_ok s \<longleftrightarrow> otp_ok s \<and> accounts_ok s"

lemma otp_tables:
  "accounts (invalidateChallenge s i now) = accounts s" "profiles (invalidateChallenge s i now) = profiles s"
  "credentials (invalidateChallenge s i now) = credentials s"
  by (simp_all add: invalidateChallenge_def)

lemma accounts_ok_frame:
  "accounts s' = accounts s \<Longrightarrow> profiles s' = profiles s \<Longrightarrow> credentials s' = credentials s \<Longrightarrow>
    accounts_ok s' = accounts_ok s"
  by (simp add: accounts_ok_def)

lemma requestOtp_mailed:
  "requestOtp env (\<lambda>_ _. Mailed) newId random now dbNow later (e, ip) s = (r, s') \<Longrightarrow>
    s' = s \<or> normalizeEmail e \<noteq> [] \<and> ip \<noteq> [] \<and>
      (\<exists>i. r = Inr i \<and> issue_challenge env newId (createOtp random) now dbNow (normalizeEmail e) ip s = (Inr i, s'))"
  by (auto simp: requestOtp_def Let_def throw_if_def and_then_def issue_challenge_def
      split: if_splits prod.splits sum.splits dest: transaction_Inl)

lemma issue_frame:
  assumes "issue_challenge env newId otp now dbNow email ip s = (Inr i, s')"
  shows "accounts s' = accounts s \<and> profiles s' = profiles s \<and> credentials s' = credentials s"
proof -
  from issue_challenge_Inr [OF assms] obtain t u where "s' = s\<lparr>rate_limits := t, challenges := u\<rparr>" by metis
  then show ?thesis by simp
qed

lemma verify_frame:
  "verifyOtp env seen now (i, otp) s = (r, s') \<Longrightarrow>
    accounts s' = accounts s \<and> profiles s' = profiles s \<and> credentials s' = credentials s"
  by (auto simp: verifyOtp_def incrementFailedAttempts_def markChallengeVerified_def
      split: option.splits if_splits sum.splits bool.splits)

lemma completeSignup_Inl: "completeSignup argon salt newId now dbNow arg s = (Inl e, s') \<Longrightarrow> s' = s"
  by (cases arg) (auto simp: completeSignup_def dest!: on_error_Inl transaction_Inl)

lemma completeSignup_ok:
  assumes ok: "signup_ok s" and fresh: "newId \<notin> account_id ` set (accounts s)"
    and run: "completeSignup argon salt newId now dbNow (i, password, nickname) s = (r, s')"
  shows "signup_ok s'" and "challenges_evolve s s'"
proof -
  have "signup_ok s' \<and> challenges_evolve s s'"
  proof (cases r)
    case (Inl e)
    with run have "s' = s" by (simp add: completeSignup_Inl)
    with ok show ?thesis by (simp add: challenges_evolve_same)
  next
    case (Inr a)
    note t = completeSignup_Inr [OF run [unfolded Inr]]
    obtain s1 e where c: "consumeVerifiedChallenge s i now = (e, s1)" by fastforce
    have tables: "challenges s' = challenges s1" "rate_limits s' = rate_limits s" "rate_limits s1 = rate_limits s"
      using t c by (metis snd_conv) (use t in metis, use c in \<open>auto simp: consumeVerifiedChallenge_def\<close>)
    with consume_ok [OF _ c] ok have "otp_ok s' \<and> challenges_evolve s s'"
      by (simp add: signup_ok_def otp_ok_def codes_counted_def challenges_evolve_def)
    moreover have "accounts_ok s'"
      by (rule t) (use ok fresh in \<open>auto simp: signup_ok_def accounts_ok_def new_account_def new_credential_def account_check_def\<close>)
    ultimately show ?thesis by (simp add: signup_ok_def)
  qed
  then show "signup_ok s'" "challenges_evolve s s'" by blast+
qed

lemma auth_step_ok:
  assumes ok: "signup_ok (hd h)" and fresh: "fresh_event (hd h) ev" and step: "auth_step env argon h ev = (b, s')"
  shows "signup_ok s'" and "challenges_evolve (hd h) s'"
proof -
  have "signup_ok s' \<and> challenges_evolve (hd h) s'"
  proof (cases ev)
    case (IssueCode newId random now dbNow email ip)
    then obtain r where "requestOtp env (\<lambda>_ _. Mailed) newId random now dbNow now (email, ip) (hd h) = (r, s')"
      using step by (simp add: Let_def IssueCode) (metis prod.collapse)
    from requestOtp_mailed [OF this] have "s' = hd h \<or> normalizeEmail email \<noteq> [] \<and> ip \<noteq> [] \<and>
        (\<exists>i. issue_challenge env newId (createOtp random) now dbNow (normalizeEmail email) ip (hd h) = (Inr i, s'))"
      by blast
    then show ?thesis
      using ok fresh IssueCode issue_challenge_ok normalizeEmail_stored issue_frame accounts_ok_frame
      by (metis signup_ok_def challenges_evolve_same fresh_event.simps(1))
  next
    case (MailRefused i now)
    with step ok invalidate_ok [of "hd h" i now] show ?thesis
      by (auto simp: signup_ok_def accounts_ok_frame [of "invalidateChallenge (hd h) i now"] otp_tables)
  next
    case (VerifyCode lag now i otp)
    with step obtain r where "verifyOtp env (read_back lag h) now (i, otp) (hd h) = (r, s')"
      by (simp add: Let_def) (metis prod.collapse)
    with ok verifyOtp_ok [of "hd h"] verify_frame accounts_ok_frame show ?thesis
      by (metis signup_ok_def)
  next
    case (CompleteSignup salt newId now dbNow i password nickname)
    with step obtain r where "completeSignup argon salt newId now dbNow (i, password, nickname) (hd h) = (r, s')"
      by (simp add: Let_def) (metis prod.collapse)
    with completeSignup_ok [OF ok _ this] fresh CompleteSignup show ?thesis by simp
  qed
  then show "signup_ok s'" "challenges_evolve (hd h) s'" by blast+
qed


lemma history_states:
  assumes "auth_history env argon s0 tr h" and "signup_ok s0"
  shows "h \<noteq> [] \<and> (\<forall>t \<in> set h. signup_ok t \<and> challenges_evolve s0 t \<and> challenges_evolve t (hd h))"
  using assms(1)
proof induction
  case history_start
  then show ?case using assms(2) by (simp add: challenges_evolve_same)
next
  case (history_step tr h ev ok s')
  then have hd: "hd h \<in> set h" by simp
  with history_step have "signup_ok s'" "challenges_evolve (hd h) s'" by (blast intro: auth_step_ok)+
  with history_step hd show ?case
    by (auto simp: challenges_evolve_same intro: challenges_evolve_trans)
qed

lemma read_back_in: "h \<noteq> [] \<Longrightarrow> read_back lag h \<in> set h"
  unfolding read_back_def by (rule nth_mem) (cases h; simp)

text \<open>
  Whatever requests for codes, verifications, mail failures and sign-ups arrive, interleaved in any
  order and with reads as stale as they like, the tables stay well-formed: at most one pending challenge
  per address, at most five failed attempts, statuses and their times in step, counters within their
  limits and equal to the codes issued, unique nicknames, addresses and accounts, valid references.\<close>

theorem signup_invariant:
  assumes "auth_history env argon s0 tr h" and "signup_ok s0"
  shows "signup_ok (hd h)"
  using history_states [OF assms] by (cases h) auto

text \<open>C9.
  No flood of codes: in every state that a history reaches, at most five codes have been issued for an
  address, and at most twenty for a network address, in any clock hour.\<close>

theorem codes_per_hour:
  assumes "auth_history env argon s0 tr h" and "signup_ok s0"
  shows "length (filter (\<lambda>c. chal_email c = email \<and> windowStart (chal_lastSentAt c) = w) (challenges (hd h))) \<le> 5 \<and>
    length (filter (\<lambda>c. chal_ipAddress c = ip \<and> windowStart (chal_lastSentAt c) = w) (challenges (hd h))) \<le> 20"
proof -
  have ok: "otp_ok (hd h)" using history_states [OF assms] by (cases h) (auto simp: signup_ok_def)
  have "codes_sent (challenges (hd h)) scope key w \<le> rate_limit_of scope" for scope key
    using ok rate_count_le [of "rate_limits (hd h)" scope key w] by (simp add: otp_ok_def codes_counted_def)
  from this [of EMAIL email] this [of IP ip] show ?thesis by (simp add: codes_sent_def)
qed

section \<open>Guessing a code\<close>

lemma open_backwards: "chal_evolves c c' \<Longrightarrow> open_challenge now c' \<Longrightarrow> open_challenge now c"
  by (auto simp: chal_evolves_def open_challenge_def status_leads_def)

definition right_code :: "otp_env \<Rightarrow> challenge_row \<Rightarrow> string \<Rightarrow> bool" where
  "right_code env c otp \<longleftrightarrow> matchesOtp env otp (chal_otpHash c) = Inr True"

text \<open>
  A wrong code tried on the challenge before it expired, by the clock of that request; a later one is answered
  \<open>OTP_EXPIRED\<close> without a comparison.\<close>

fun wrong_guess :: "otp_env \<Rightarrow> challenge_row \<Rightarrow> auth_event \<times> bool \<Rightarrow> bool" where
  "wrong_guess env c (VerifyCode lag now i otp, ok) \<longleftrightarrow>
    i = chal_id c \<and> now < chal_expiresAt c \<and> \<not> right_code env c otp"
| "wrong_guess env c _ \<longleftrightarrow> False"

lemma same_challenge:
  "otp_ok s \<Longrightarrow> c \<in> set (challenges s) \<Longrightarrow> d \<in> set (challenges s) \<Longrightarrow> chal_id c = chal_id d \<Longrightarrow> c = d"
  by (auto simp: otp_ok_def challenges_ok_def distinct_map dest: inj_onD)

lemma evolves_unique:
  assumes "challenges_evolve s t" and "otp_ok t" and "c \<in> set (challenges s)" and "d \<in> set (challenges t)" and "chal_id d = chal_id c"
  shows "chal_evolves c d"
proof -
  from assms(1,3) obtain e where "e \<in> set (challenges t)" "chal_evolves c e" by (auto simp: challenges_evolve_def)
  with assms(2,4,5) same_challenge [of t e d] show ?thesis by (simp add: chal_evolves_def)
qed


lemma otp_ok_lookup: "otp_ok s \<Longrightarrow> c \<in> set (challenges s) \<Longrightarrow> findChallengeById s (chal_id c) = Some c"
  by (simp add: findChallengeById_def otp_ok_def challenges_ok_def lookup_Some_iff)

text \<open>What became of the challenge \<open>c\<close> of the first state, in a state of the history and when it was read.\<close>

lemma history_row:
  assumes "auth_history env argon s0 tr h" and "signup_ok s0" and "c \<in> set (challenges s0)" and "t \<in> set h"
  obtains d where "d \<in> set (challenges t)" and "chal_evolves c d"
    and "\<And>e. e \<in> set (challenges (hd h)) \<Longrightarrow> chal_id e = chal_id c \<Longrightarrow> chal_evolves d e"
proof -
  note states = history_states [OF assms(1,2)]
  from states assms(3,4) obtain d where d: "d \<in> set (challenges t)" "chal_evolves c d"
    unfolding challenges_evolve_def by blast
  have "chal_evolves d e" if "e \<in> set (challenges (hd h))" "chal_id e = chal_id c" for e
    using states assms(4) d that by (intro evolves_unique [of t "hd h"]) (auto simp: signup_ok_def chal_evolves_def)
  with d that show thesis by blast
qed

text \<open>A verification that read a still open challenge and had a wrong code.\<close>

lemma wrong_code_counts:
  assumes "findChallengeById seen i = Some e" and "open_challenge t e" and "\<not> right_code env e otp"
    and "truthy (env_secret env)" and "verifyOtp env seen t (i, otp) s = (r, s')"
  shows "s' = snd (incrementFailedAttempts s i t)"
proof -
  have "matchesOtp env otp (chal_otpHash e) = Inr False"
    using assms(3,4) by (auto simp: right_code_def matchesOtp_def hashOtp_def Let_def)
  with assms(1,2,5) show ?thesis
    by (auto simp: verifyOtp_def open_challenge_def split: prod.splits if_splits)
qed

lemma guesses_counted:
  assumes "auth_history env argon s0 tr h" and "signup_ok s0" and "c \<in> set (challenges s0)"
    and "truthy (env_secret env)" and "d \<in> set (challenges (hd h))" and "chal_id d = chal_id c" and "open_challenge now d"
  shows "length (filter (wrong_guess env c) tr) + chal_failedAttempts c \<le> chal_failedAttempts d"
  using assms(1,5-7)
proof (induction arbitrary: d)
  case history_start
  with assms(2,3) same_challenge [of s0 c d] show ?case by (simp add: signup_ok_def)
next
  case (history_step tr h ev ok s')
  note hist = history_step.hyps(1) and states = history_states [OF history_step.hyps(1) assms(2)]
  from states have hd: "hd h \<in> set h" and wf: "signup_ok (hd h)" by auto
  have s': "signup_ok s'" "challenges_evolve (hd h) s'"
    using auth_step_ok [OF wf history_step.hyps(2,3)] by blast+
  from history_row [OF hist assms(2,3) hd] obtain b where b: "b \<in> set (challenges (hd h))" "chal_evolves c b" by blast
  have bd: "chal_evolves b d"
    using evolves_unique [OF s'(2) _ b(1)] s'(1) history_step.prems(1,2) b(2) by (simp add: signup_ok_def chal_evolves_def)
  have "length (filter (wrong_guess env c) tr) + chal_failedAttempts c \<le> chal_failedAttempts b"
    using history_step.IH [OF b(1) _ open_backwards [OF bd history_step.prems(3)]] b(2)
    by (simp add: chal_evolves_def)
  moreover have "chal_failedAttempts b + (if wrong_guess env c (ev, ok) then 1 else 0) \<le> chal_failedAttempts d"
  proof (cases "wrong_guess env c (ev, ok)")
    case False
    with bd show ?thesis by (simp add: chal_evolves_def)
  next
    case True
    then obtain lag t otp where ev: "ev = VerifyCode lag t (chal_id c) otp" "\<not> right_code env c otp" "t < chal_expiresAt c"
      by (cases ev) auto
    have open_b: "open_challenge t b"
      using open_backwards [OF bd history_step.prems(3)] ev(3) b(2) by (simp add: open_challenge_def chal_evolves_def)
    from history_row [OF hist assms(2,3) read_back_in [of h lag]] states b obtain e where
      e: "e \<in> set (challenges (read_back lag h))" "chal_evolves c e" "chal_evolves e b"
      by (metis chal_evolves_def)
    have "findChallengeById (read_back lag h) (chal_id c) = Some e"
      using otp_ok_lookup [OF _ e(1)] states read_back_in [of h lag] e(2) by (simp add: signup_ok_def chal_evolves_def)
    moreover have "\<not> right_code env e otp" using ev(2) e(2) by (simp add: right_code_def chal_evolves_def)
    moreover from history_step.hyps(3) ev obtain r where "verifyOtp env (read_back lag h) t (chal_id c, otp) (hd h) = (r, s')"
      by (simp add: Let_def) (metis prod.collapse)
    ultimately have "s' = snd (incrementFailedAttempts (hd h) (chal_id c) t)"
      using wrong_code_counts open_backwards [OF e(3) open_b] assms(4) by blast
    then have "failed_set b \<in> set (challenges s')"
      using b open_b by (force simp: incrementFailedAttempts_def set_update_where chal_evolves_def)
    then have "d = failed_set b"
      using same_challenge [of s' "failed_set b" d] s'(1) history_step.prems(1,2) b(2)
      by (simp add: signup_ok_def failed_set_def chal_evolves_def)
    then show ?thesis by (simp add: failed_set_def)
  qed
  ultimately show ?case by (auto split: if_splits)
qed

lemma verify_success:
  assumes "verifyOtp env seen now (i, otp) s = (Inr x, s')"
  obtains e d where "findChallengeById seen i = Some e" and "right_code env e otp"
    and "d \<in> set (challenges s)" and "chal_id d = i" and "open_challenge now d"
    and "s' = snd (markChallengeVerified s i now)"
proof -
  from assms obtain e y where e: "findChallengeById seen i = Some e" "right_code env e otp"
    and y: "markChallengeVerified s i now = (Some y, s')"
    by (auto simp: verifyOtp_def right_code_def split: option.splits if_splits sum.splits bool.splits prod.splits)
  from y have "first_row (returning (\<lambda>c. chal_id c = i \<and> open_challenge now c) (verify_set now) (challenges s)) \<noteq> None"
    by (auto simp: markChallengeVerified_def)
  then obtain d where "d \<in> set (challenges s)" "chal_id d = i" "open_challenge now d"
    by (auto simp: returning_def filter_empty_conv)
  with e y that show thesis by (metis snd_conv)
qed

text \<open>A challenge that has been verified is not pending again.\<close>

lemma verified_not_pending:
  assumes "auth_history env argon s0 tr h" and "signup_ok s0" and "(VerifyCode lag t i otp, True) \<in> set tr"
  shows "\<exists>b \<in> set (challenges (hd h)). chal_id b = i \<and> chal_status b \<noteq> PENDING"
  using assms(1,3)
proof (induction)
  case (history_step tr h ev ok s')
  note states = history_states [OF history_step.hyps(1) assms(2)]
  then have wf: "signup_ok (hd h)" by auto
  have s': "challenges_evolve (hd h) s'"
    using auth_step_ok [OF wf history_step.hyps(2,3)] by blast
  show ?case
  proof (cases "(VerifyCode lag t i otp, True) \<in> set tr")
    case True
    with history_step.IH obtain b where "b \<in> set (challenges (hd h))" "chal_id b = i" "chal_status b \<noteq> PENDING" by blast
    with s' show ?thesis
      by (fastforce simp: challenges_evolve_def chal_evolves_def status_leads_def)
  next
    case False
    with history_step.prems(1) have ev: "ev = VerifyCode lag t i otp" "ok" by auto
    define r where "r = verifyOtp env (read_back lag h) t (i, otp) (hd h)"
    with history_step.hyps(3) ev have "is_ok r" "snd r = s'" by (simp_all add: Let_def)
    then obtain x where "r = (Inr x, s')" by (cases r) (auto simp: is_ok_def split: sum.splits)
    with r_def obtain b where b: "b \<in> set (challenges (hd h))" "chal_id b = i" "open_challenge t b"
      "s' = snd (markChallengeVerified (hd h) i t)" by (metis verify_success)
    then have "verify_set t b \<in> set (challenges s')"
      by (force simp: markChallengeVerified_def set_update_where)
    then show ?thesis using b(2) by (intro bexI [of _ "verify_set t b"]) (simp_all add: verify_set_def)
  qed
qed simp

text \<open>C8.
  Guessing a code is hopeless: whatever else happens, however many guesses are made at the same time on
  stale reads, and in whatever order their clocks stand, a challenge is verified only with its right code,
  only while it was pending, only once, and only if at most four wrong codes were tried on it before, the
  guesses counted that are made before the challenge expires (a later one is refused without being
  compared).  The server has a secret for the codes.\<close>

theorem otp_guesses_bounded:
  assumes "auth_history env argon s0 (tr @ [(VerifyCode lag now i otp, True)]) h" and "signup_ok s0"
    and "c \<in> set (challenges s0)" and "chal_id c = i" and "truthy (env_secret env)"
  shows "right_code env c otp \<and> chal_status c = PENDING \<and>
    length (filter (wrong_guess env c) tr) + chal_failedAttempts c \<le> 4 \<and>
    \<not> (\<exists>lag' t otp'. (VerifyCode lag' t i otp', True) \<in> set tr)"
proof -
  from auth_history_snocE [OF assms(1)] obtain s' h' where hist: "auth_history env argon s0 tr h'"
    and step: "auth_step env argon h' (VerifyCode lag now i otp) = (True, s')" by (metis snoc_eq_iff_butlast prod.inject append_butlast_last_id last_snoc butlast_snoc)
  note states = history_states [OF hist assms(2)]
  define r where "r = verifyOtp env (read_back lag h') now (i, otp) (hd h')"
  with step have "is_ok r" "snd r = s'" by (simp_all add: Let_def)
  then obtain x where "r = (Inr x, s')" by (cases r) (auto simp: is_ok_def split: sum.splits)
  with r_def obtain e d where e: "findChallengeById (read_back lag h') i = Some e" "right_code env e otp"
    and d: "d \<in> set (challenges (hd h'))" "chal_id d = i" "open_challenge now d" by (metis verify_success)
  from states have cd: "chal_evolves c d"
    by (intro evolves_unique [of s0 "hd h'"]) (use assms(3,4) d in \<open>auto simp: signup_ok_def\<close>)
  have "e \<in> set (challenges (read_back lag h'))" "chal_id e = i"
    using e(1) by (auto simp: findChallengeById_def dest: lookup_SomeD)
  then have ce: "chal_evolves c e"
    using states read_back_in [of h' lag] assms(3,4) by (intro evolves_unique [of s0 "read_back lag h'"]) (auto simp: signup_ok_def)
  have "length (filter (wrong_guess env c) tr) + chal_failedAttempts c \<le> chal_failedAttempts d"
    using guesses_counted [OF hist assms(2,3,5) d(1) _ d(3)] d(2) assms(4) by simp
  moreover have "\<not> (\<exists>lag' t otp'. (VerifyCode lag' t i otp', True) \<in> set tr)"
  proof
    assume "\<exists>lag' t otp'. (VerifyCode lag' t i otp', True) \<in> set tr"
    with verified_not_pending [OF hist assms(2)] obtain b where
      "b \<in> set (challenges (hd h'))" "chal_id b = i" "chal_status b \<noteq> PENDING" by blast
    with d states same_challenge [of "hd h'" b d] show False by (auto simp: signup_ok_def open_challenge_def)
  qed
  ultimately show ?thesis
    using cd ce d(3) e(2) by (auto simp: open_challenge_def chal_evolves_def status_leads_def right_code_def)
qed


section \<open>Signing up\<close>

lemma consume_found:
  assumes "otp_ok s" and "c \<in> set (challenges s)"
  shows "fst (consumeVerifiedChallenge s (chal_id c) now) =
      (if chal_status c = VERIFIED then Some (chal_email c) else None)"
proof -
  have d: "distinct (map chal_id (challenges s))" using assms(1) by (simp add: otp_ok_def challenges_ok_def)
  with assms(2) have "lookup chal_id (chal_id c) (challenges s) = Some c" by (simp add: lookup_Some_iff)
  then show ?thesis
    by (simp add: consumeVerifiedChallenge_def returning_key_lookup [OF d] consume_set_def)
qed

text \<open>The database after a sign-up: what is added and what is changed, row by row.\<close>

definition signed_up :: "argon2 \<Rightarrow> string \<Rightarrow> eid \<Rightarrow> instant \<Rightarrow> instant \<Rightarrow> challenge_row \<Rightarrow> string \<Rightarrow> string \<Rightarrow> db \<Rightarrow> db" where
  "signed_up argon salt newId now dbNow c password nickname s = s
    \<lparr>challenges := map (\<lambda>d. if chal_id d = chal_id c
       then d\<lparr>chal_status := CONSUMED, chal_verifiedAt := None, chal_consumedAt := Some now\<rparr> else d) (challenges s),
     accounts := accounts s @ [\<lparr>account_id = newId, account_role = USER, account_status = ACTIVE,
       account_createdAt = dbNow, account_deletedAt = None\<rparr>],
     profiles := profiles s @ [\<lparr>profile_accountId = newId, profile_nickname = trim nickname,
       profile_avatarUrl = None, profile_updatedAt = dbNow\<rparr>],
     credentials := credentials s @ [\<lparr>cred_accountId = newId, cred_email = chal_email c,
       cred_passwordHash = argon_hash argon salt password, cred_emailVerifiedAt = now,
       cred_passwordChangedAt = now, cred_updatedAt = dbNow\<rparr>]\<rparr>"

lemma signup_cases:
  assumes "signup_ok s" and "argon2_documented argon" and "newId \<notin> account_id ` set (accounts s)"
    and "c \<in> set (challenges s)"
  shows "completeSignup argon salt newId now dbNow (chal_id c, password, nickname) s =
    (if chal_status c \<noteq> VERIFIED then fail OTP_NOT_VERIFIED s
     else if trim nickname \<in> profile_nickname ` set (profiles s) then fail NICKNAME_ALREADY_REGISTERED s
     else if chal_email c \<in> cred_email ` set (credentials s) then fail EMAIL_ALREADY_REGISTERED s
     else (Inr newId, signed_up argon salt newId now dbNow c password nickname s))"
proof -
  have otp: "otp_ok s" and acc: "accounts_ok s" using assms(1) by (simp_all add: signup_ok_def)
  obtain e s1 where con: "consumeVerifiedChallenge s (chal_id c) now = (e, s1)" by fastforce
  have e: "e = (if chal_status c = VERIFIED then Some (chal_email c) else None)"
    using consume_found [OF otp assms(4), of now] con by simp
  have s1: "profiles s1 = profiles s" "credentials s1 = credentials s" "accounts s1 = accounts s"
    using con by (auto simp: consumeVerifiedChallenge_def)
  have fresh: "newId \<notin> profile_accountId ` set (profiles s)" "newId \<notin> cred_accountId ` set (credentials s)"
    using acc assms(3) unfolding accounts_ok_def by blast+
  have "startsWith (argon_hash argon salt password) ''$argon2id$''"
    using assms(2) by (simp add: argon2_documented_def)
  then have "argon_hash argon salt password \<noteq> []" by (auto simp: startsWith_def)
  then have check: "credential_check (new_credential argon salt newId now dbNow (chal_email c) password)"
    using otp assms(4) by (auto simp: otp_ok_def challenges_ok_def stored_email_ok_def credential_check_def new_credential_def)
  have only: "chal_status d = VERIFIED" if "d \<in> set (challenges s)" "chal_id d = chal_id c" "chal_status c = VERIFIED" for d
    using same_challenge [OF otp that(1) assms(4) that(2)] that(3) by simp
  have used: "s1 = s\<lparr>challenges := map (\<lambda>d. if chal_id d = chal_id c
       then d\<lparr>chal_status := CONSUMED, chal_verifiedAt := None, chal_consumedAt := Some now\<rparr> else d) (challenges s)\<rparr>"
    if "chal_status c = VERIFIED"
    using con only that by (auto simp: consumeVerifiedChallenge_def update_where_def consume_set_def)
  show ?thesis
    using con e s1 fresh check used
    by (auto simp: completeSignup_def transaction_def insertAccount_def insertProfile_def insertPasswordCredential_def
        new_account_def new_credential_def signed_up_def and_then_def split: if_splits)
qed

lemma signup_unknown:
  assumes "lookup chal_id i (challenges s) = None"
  shows "completeSignup argon salt newId now dbNow (i, password, nickname) s = fail OTP_NOT_VERIFIED s"
proof -
  have "returning (\<lambda>d. chal_id d = i \<and> chal_status d = VERIFIED) (consume_set now) (challenges s) = []"
    using assms by (auto simp: lookup_None_iff returning_def filter_empty_conv)
  then show ?thesis by (simp add: completeSignup_def consumeVerifiedChallenge_def transaction_def)
qed

text \<open>C38.
  The outcome of a sign-up on every branch.  With an id that names no challenge, without a verified
  challenge, or when the nickname or the address is taken, it fails with the matching error and nothing
  changes - the challenge can still be used.  Otherwise the database is the old one with exactly one
  ordinary, active account, one profile with the trimmed nickname and no picture and one credential with
  the verified address added and the challenge consumed; no constraint of the database can object.\<close>

theorem signup_outcome:
  assumes "signup_ok s" and "argon2_documented argon" and "newId \<notin> account_id ` set (accounts s)"
  shows "completeSignup argon salt newId now dbNow (i, password, nickname) s =
    (case lookup chal_id i (challenges s) of
       None \<Rightarrow> (Inl (AppError OTP_NOT_VERIFIED), s)
     | Some c \<Rightarrow>
         if chal_status c \<noteq> VERIFIED then (Inl (AppError OTP_NOT_VERIFIED), s)
         else if trim nickname \<in> profile_nickname ` set (profiles s) then (Inl (AppError NICKNAME_ALREADY_REGISTERED), s)
         else if chal_email c \<in> cred_email ` set (credentials s) then (Inl (AppError EMAIL_ALREADY_REGISTERED), s)
         else (Inr newId, signed_up argon salt newId now dbNow c password nickname s))"
proof (cases "lookup chal_id i (challenges s)")
  case None
  then show ?thesis by (simp add: signup_unknown)
next
  case (Some c)
  with lookup_SomeD [OF Some] signup_cases [OF assms, of c] show ?thesis by auto
qed

text \<open>
  Who has signed up can sign in: with the address of the verified challenge, in any spelling that
  normalises to it, and the chosen password, and gets the new account; with an address that has no
  account nobody gets in.\<close>

theorem signup_then_login:
  assumes "signup_ok s" and "argon2_documented argon"
    and "newId \<notin> account_id ` set (accounts s)" and "c \<in> set (challenges s)"
    and "completeSignup argon salt newId now dbNow (chal_id c, password, nickname) s = (Inr a, s')"
    and "normalizeEmail email = chal_email c"
  shows "authenticateCredentials argon s' (email, password) = Inr (Some newId) \<and>
    \<not> (\<exists>b. authenticateCredentials argon s (email, password) = Inr (Some b))"
proof -
  have out: "chal_email c \<notin> cred_email ` set (credentials s)"
    "accounts s' = accounts s @ [new_account newId dbNow]"
    "credentials s' = credentials s @ [new_credential argon salt newId now dbNow (chal_email c) password]"
    using signup_cases [OF assms(1-4)] assms(5)
    by (auto simp: signed_up_def new_account_def new_credential_def split: if_splits)
  then have "lookup cred_email (chal_email c) (credentials s) = None" by (simp add: lookup_None_iff)
  moreover have "lookup account_id newId (accounts s) = None" using assms(3) by (simp add: lookup_None_iff)
  moreover have "argon_verify argon (argon_hash argon salt password) password = Some True"
    "startsWith (argon_hash argon salt password) ''$argon2id$''"
    using assms(2) by (simp_all add: argon2_documented_def)
  ultimately show ?thesis
    by (auto simp: authenticateCredentials_def findPasswordCredentialByEmail_def out assms(6) Let_def
        new_account_def new_credential_def split: option.splits)
qed

text \<open>
  Signing in answers with an account exactly when the normalised address has a credential whose argon2id
  hash the password matches and the account is active; a wrong address, a wrong password, a hash of
  another kind and a suspended or deleted account are answered alike.\<close>

theorem login_exact:
  assumes "accounts_ok s"
  shows "authenticateCredentials argon s (email, password) = Inr (Some a) \<longleftrightarrow>
    (\<exists>c \<in> set (credentials s). \<exists>acc \<in> set (accounts s).
      cred_email c = normalizeEmail email \<and> account_id acc = cred_accountId c \<and> account_id acc = a \<and>
      argon_verify argon (cred_passwordHash c) password = Some True \<and>
      startsWith (cred_passwordHash c) ''$argon2id$'' \<and> account_status acc = ACTIVE)"
proof -
  have d: "distinct (map cred_email (credentials s))" "distinct (map account_id (accounts s))"
    using assms by (simp_all add: accounts_ok_def)
  have "findPasswordCredentialByEmail s e = Some (c, acc) \<longleftrightarrow>
      lookup cred_email e (credentials s) = Some c \<and> lookup account_id (cred_accountId c) (accounts s) = Some acc" for e c acc
    by (auto simp: findPasswordCredentialByEmail_def split: option.splits)
  then have "findPasswordCredentialByEmail s e = Some (c, acc) \<longleftrightarrow>
      c \<in> set (credentials s) \<and> acc \<in> set (accounts s) \<and> cred_email c = e \<and> account_id acc = cred_accountId c" for e c acc
    by (simp add: lookup_Some_iff [OF d(1)] lookup_Some_iff [OF d(2)]) blast
  moreover have "authenticateCredentials argon s (email, password) = Inr (Some a) \<longleftrightarrow>
      (\<exists>c acc. findPasswordCredentialByEmail s (normalizeEmail email) = Some (c, acc) \<and> account_id acc = a \<and>
        argon_verify argon (cred_passwordHash c) password = Some True \<and>
        startsWith (cred_passwordHash c) ''$argon2id$'' \<and> account_status acc = ACTIVE)"
    by (auto simp: authenticateCredentials_def Let_def split: option.splits if_splits)
  ultimately show ?thesis by (auto; metis)
qed


section \<open>No account without a verified code\<close>

lemma verified_kept:
  "d \<in> set (update_where p f t) \<Longrightarrow> chal_status d = VERIFIED \<Longrightarrow> (\<And>c. p c \<Longrightarrow> chal_status (f c) \<noteq> VERIFIED) \<Longrightarrow> d \<in> set t"
  by (auto simp: set_update_where)

lemma verified_source:
  assumes "auth_step env argon h ev = (ok, s')" and "d \<in> set (challenges s')" and "chal_status d = VERIFIED"
  shows "d \<in> set (challenges (hd h)) \<or> ok \<and> (\<exists>lag t otp. ev = VerifyCode lag t (chal_id d) otp)"
proof (cases ev)
  case (IssueCode newId random now dbNow email ip)
  then obtain r where "requestOtp env (\<lambda>_ _. Mailed) newId random now dbNow now (email, ip) (hd h) = (r, s')"
    using assms(1) by (simp add: Let_def) (metis prod.collapse)
  from requestOtp_mailed [OF this] show ?thesis
  proof (elim disjE conjE exE)
    fix i assume "issue_challenge env newId (createOtp random) now dbNow (normalizeEmail email) ip (hd h) = (Inr i, s')"
    then obtain h' where "challenges s' = challenges (invalidatePendingChallenges (hd h) (normalizeEmail email) now) @
        [new_challenge newId now dbNow (normalizeEmail email) h' ip]"
      using issue_challenge_Inr by metis
    with assms(2,3) have "d \<in> set (challenges (invalidatePendingChallenges (hd h) (normalizeEmail email) now))" by auto
    with assms(3) show ?thesis
      by (auto simp: invalidatePendingChallenges_def invalid_set_def dest!: verified_kept)
  qed (use assms(2) in simp)
next
  case (MailRefused i now)
  with assms show ?thesis
    by (auto simp: invalidateChallenge_def invalid_set_def dest!: verified_kept)
next
  case (VerifyCode lag t i otp)
  let ?s = "hd h"
  define r where "r = verifyOtp env (read_back lag h) t (i, otp) ?s"
  have r: "ok = is_ok r" "s' = snd r" using assms(1) VerifyCode by (simp_all add: r_def Let_def)
  have "s' = ?s \<or> s' = snd (incrementFailedAttempts ?s i t) \<or> ok \<and> s' = snd (markChallengeVerified ?s i t)"
    unfolding r r_def verifyOtp_def
    by (auto simp: markChallengeVerified_def returning_empty_update is_ok_def split: option.splits if_splits sum.splits bool.splits prod.splits)
  then show ?thesis
  proof (elim disjE conjE)
    assume "s' = snd (incrementFailedAttempts ?s i t)"
    with assms(2,3) show ?thesis
      by (auto simp: incrementFailedAttempts_def failed_set_def open_challenge_def dest!: verified_kept)
  next
    assume ok: "ok" and "s' = snd (markChallengeVerified ?s i t)"
    with assms(2) have "d \<in> set (challenges ?s) \<or> chal_id d = i"
      by (auto simp: markChallengeVerified_def set_update_where verify_set_def)
    with ok VerifyCode show ?thesis by blast
  qed (use assms(2) in simp)
next
  case (CompleteSignup salt newId now dbNow i password nickname)
  define r where "r = completeSignup argon salt newId now dbNow (i, password, nickname) (hd h)"
  have r: "s' = snd r" using assms(1) CompleteSignup by (simp add: r_def Let_def)
  show ?thesis
  proof (cases "fst r")
    case (Inl e)
    then have "r = (Inl e, s')" using r by (cases r) simp
    then have "s' = hd h" using completeSignup_Inl [of argon salt newId now dbNow "(i, password, nickname)" "hd h"] r_def by metis
    with assms(2) show ?thesis by simp
  next
    case (Inr a)
    then have "completeSignup argon salt newId now dbNow (i, password, nickname) (hd h) = (Inr a, s')" using r r_def by (metis prod.collapse)
    then have "challenges s' = challenges (snd (consumeVerifiedChallenge (hd h) i now))" by (rule completeSignup_Inr)
    with assms(2,3) show ?thesis
      by (auto simp: consumeVerifiedChallenge_def consume_set_def dest!: verified_kept)
  qed
qed

lemma verified_by_code:
  assumes "auth_history env argon s0 tr h" and "signup_ok s0" and "c \<in> set (challenges s0)" and "chal_status c = PENDING"
    and "d \<in> set (challenges (hd h))" and "chal_id d = chal_id c" and "chal_status d = VERIFIED"
  shows "\<exists>lag t otp. (VerifyCode lag t (chal_id c) otp, True) \<in> set tr"
  using assms(1,5-)
proof (induction arbitrary: d)
  case history_start
  with assms(2-4) same_challenge [of s0 c d] show ?case by (simp add: signup_ok_def)
next
  case (history_step tr h ev ok s')
  from verified_source [OF history_step.hyps(3)] history_step.prems history_step.IH show ?case
    by (simp, metis Un_iff)
qed

text \<open>A sign-up that succeeded leaves its challenge consumed for good.\<close>

lemma signup_consumes:
  assumes "auth_history env argon s0 tr h" and "signup_ok s0"
    and "(CompleteSignup salt a now dbNow i password nickname, True) \<in> set tr"
  shows "\<exists>b \<in> set (challenges (hd h)). chal_id b = i \<and> chal_status b = CONSUMED"
  using assms(1,3)
proof induction
  case (history_step tr h ev ok s')
  have wf: "signup_ok (hd h)" using history_states [OF history_step.hyps(1) assms(2)] by auto
  have evo: "challenges_evolve (hd h) s'" using auth_step_ok [OF wf history_step.hyps(2,3)] by blast
  show ?case
  proof (cases "(CompleteSignup salt a now dbNow i password nickname, True) \<in> set tr")
    case True
    with history_step.IH evo show ?thesis
      by (fastforce simp: challenges_evolve_def chal_evolves_def status_leads_def)
  next
    case False
    with history_step.prems have ev: "ev = CompleteSignup salt a now dbNow i password nickname" "ok" by auto
    define r where "r = completeSignup argon salt a now dbNow (i, password, nickname) (hd h)"
    with history_step.hyps(3) ev have "is_ok r" "snd r = s'" by (simp_all add: Let_def)
    then obtain x where "completeSignup argon salt a now dbNow (i, password, nickname) (hd h) = (Inr x, s')"
      unfolding r_def by (cases "completeSignup argon salt a now dbNow (i, password, nickname) (hd h)") (auto simp: is_ok_def split: sum.splits)
    then obtain email where con: "fst (consumeVerifiedChallenge (hd h) i now) = Some email"
      "challenges s' = challenges (snd (consumeVerifiedChallenge (hd h) i now))" by (rule completeSignup_Inr)
    then obtain b where "b \<in> set (challenges (hd h))" "chal_id b = i" "chal_status b = VERIFIED"
      by (auto simp: consumeVerifiedChallenge_def dest!: first_row_returning_Some)
    with con(2) have "consume_set now b \<in> set (challenges s')"
      by (force simp: consumeVerifiedChallenge_def set_update_where)
    with \<open>chal_id b = i\<close> show ?thesis by (intro bexI [of _ "consume_set now b"]) (simp_all add: consume_set_def)
  qed
qed simp

text \<open>
  An account needs a verified address: a sign-up with a challenge that was pending succeeds only after a
  verification of that challenge succeeded, at most one sign-up ever succeeds with it, and the credential
  it creates has the challenge's address.\<close>

theorem signup_needs_code:
  assumes "auth_history env argon s0 (tr @ [(CompleteSignup salt a now dbNow i password nickname, True)]) h"
    and "signup_ok s0" and "c \<in> set (challenges s0)" and "chal_id c = i" and "chal_status c = PENDING"
  shows "(\<exists>lag t otp. (VerifyCode lag t i otp, True) \<in> set tr) \<and>
    \<not> (\<exists>salt' a' t dbt password' nickname'. (CompleteSignup salt' a' t dbt i password' nickname', True) \<in> set tr) \<and>
    new_credential argon salt a now dbNow (chal_email c) password \<in> set (credentials (hd h))"
proof -
  from assms(1) obtain s' h' where hist: "auth_history env argon s0 tr h'" and h: "h = s' # h'"
    and step: "auth_step env argon h' (CompleteSignup salt a now dbNow i password nickname) = (True, s')"
    by (auto elim: auth_history_snocE)
  note states = history_states [OF hist assms(2)]
  then have wf: "otp_ok (hd h')" by (auto simp: signup_ok_def)
  define r where "r = completeSignup argon salt a now dbNow (i, password, nickname) (hd h')"
  with step have "is_ok r" "snd r = s'" by (simp_all add: Let_def)
  then obtain x where "completeSignup argon salt a now dbNow (i, password, nickname) (hd h') = (Inr x, s')"
    unfolding r_def by (cases "completeSignup argon salt a now dbNow (i, password, nickname) (hd h')") (auto simp: is_ok_def split: sum.splits)
  then obtain email where con: "fst (consumeVerifiedChallenge (hd h') i now) = Some email"
    "credentials s' = credentials (hd h') @ [new_credential argon salt a now dbNow email password]" by (rule completeSignup_Inr)
  then obtain d where d: "d \<in> set (challenges (hd h'))" "chal_id d = i" "chal_status d = VERIFIED"
    by (auto simp: consumeVerifiedChallenge_def dest!: first_row_returning_Some)
  have "chal_evolves c d"
    using states assms(3,4) d wf by (intro evolves_unique [of s0 "hd h'"]) auto
  moreover have "email = chal_email d" using consume_found [OF wf d(1), of now] con(1) d by simp
  ultimately have cred: "new_credential argon salt a now dbNow (chal_email c) password \<in> set (credentials (hd h))"
    using con(2) h by (simp add: chal_evolves_def)
  have "\<not> (CompleteSignup salt' a' t dbt i password' nickname', True) \<in> set tr" for salt' a' t dbt password' nickname'
    using signup_consumes [OF hist assms(2)] d same_challenge [OF wf d(1)] by (metis challenge_status.distinct(7))
  with cred verified_by_code [OF hist assms(2,3,5) d(1)] d assms(4) show ?thesis by simp
qed


section \<open>A history\<close>

abbreviation demo_challenge :: challenge_row where
  "demo_challenge \<equiv> new_challenge ''c1'' 5000 5000 ''a@b.c'' ''000042'' ''1.2.3.4''"

definition demo_wrong :: db where
  "demo_wrong = demo_issued\<lparr>challenges := [failed_set demo_challenge]\<rparr>"

definition demo_verified :: db where
  "demo_verified = demo_issued\<lparr>challenges := [verify_set 6000 (failed_set demo_challenge)]\<rparr>"

definition demo_signed :: db where
  "demo_signed = demo_verified\<lparr>challenges := [consume_set 7000 (verify_set 6000 (failed_set demo_challenge))],
    accounts := accounts demo_verified @ [new_account ''new'' 7000],
    profiles := [\<lparr>profile_accountId = ''new'', profile_nickname = ''nick'', profile_avatarUrl = None, profile_updatedAt = 7000\<rparr>],
    credentials := [new_credential argon2_reference ''s'' ''new'' 7000 7000 ''a@b.c'' ''pw'']\<rparr>"

definition demo_trace :: "(auth_event \<times> bool) list" where
  "demo_trace = [(VerifyCode 0 6000 ''c1'' ''000043'', False), (VerifyCode 1 6000 ''c1'' ''000042'', True)]"

lemma demo_issued_tables [simp]:
  "challenges demo_issued = [demo_challenge]" "accounts demo_issued = accounts demo_db" "profiles demo_issued = []"
  "credentials demo_issued = []"
  by (simp_all add: demo_issued_def demo_db_def empty_db_def)

lemma demo_otp_env_simps [simp]: "hashOtp demo_otp_env otp = Inr otp" "truthy (env_secret demo_otp_env)"
  by (simp_all add: hashOtp_def demo_otp_env_def truthy_def)

lemma demo_signup_ok: "signup_ok demo_issued"
proof -
  have "signup_ok (hd [demo_db])"
    using demo_otp_ok by (simp add: signup_ok_def accounts_ok_def) (simp add: demo_db_def empty_db_def demo_account_def account_check_def)
  moreover have "auth_step demo_otp_env argon2_reference [demo_db] (IssueCode ''c1'' 42 5000 5000 '' A@b.c '' ''1.2.3.4'') = (True, demo_issued)"
    by (simp add: demo_otp_request)
  moreover have "fresh_event (hd [demo_db]) (IssueCode ''c1'' 42 5000 5000 '' A@b.c '' ''1.2.3.4'')"
    by (simp add: demo_db_def empty_db_def)
  ultimately show ?thesis using auth_step_ok(1) by blast
qed

lemma demo_wrong_step:
  "auth_step demo_otp_env argon2_reference [demo_issued] (VerifyCode 0 6000 ''c1'' ''000043'') = (False, demo_wrong)"
  by (simp add: read_back_def verifyOtp_def findChallengeById_def matchesOtp_def hex_value_def Let_def incrementFailedAttempts_def
      open_challenge_def returning_def demo_wrong_def failed_set_def)

lemma demo_right_step:
  "auth_step demo_otp_env argon2_reference [demo_wrong, demo_issued] (VerifyCode 1 6000 ''c1'' ''000042'') = (True, demo_verified)"
  by (simp add: read_back_def verifyOtp_def findChallengeById_def matchesOtp_def Let_def markChallengeVerified_def
      open_challenge_def returning_def demo_wrong_def failed_set_def demo_verified_def verify_set_def)

lemma demo_trim: "trim '' nick'' = ''nick''"
  by code_simp

lemma demo_signup_runs:
  "completeSignup argon2_reference ''s'' ''new'' 7000 7000 (''c1'', ''pw'', '' nick'') demo_verified = (Inr ''new'', demo_signed)"
proof -
  have "credential_check (new_credential argon2_reference ''s'' ''new'' 7000 7000 ''a@b.c'' ''pw'')"
    by (simp add: credential_check_def new_credential_def argon2_reference_def) code_simp
  then show ?thesis
    by (simp add: completeSignup_def transaction_def consumeVerifiedChallenge_def returning_def insertAccount_def insertProfile_def
        insertPasswordCredential_def demo_trim demo_verified_def verify_set_def failed_set_def consume_set_def demo_signed_def
        new_account_def new_credential_def)
qed

lemma demo_history:
  "auth_history demo_otp_env argon2_reference demo_issued demo_trace [demo_verified, demo_wrong, demo_issued]"
proof -
  have "auth_history demo_otp_env argon2_reference demo_issued ([] @ [(VerifyCode 0 6000 ''c1'' ''000043'', False)]) [demo_wrong, demo_issued]"
    by (rule history_step [OF history_start]) (simp_all only: demo_wrong_step list.sel fresh_event.simps)
  from history_step [OF this _ demo_right_step] show ?thesis by (simp only: demo_trace_def append.simps fresh_event.simps)
qed

lemma demo_full_history:
  "auth_history demo_otp_env argon2_reference demo_issued
    (demo_trace @ [(CompleteSignup ''s'' ''new'' 7000 7000 ''c1'' ''pw'' '' nick'', True)])
    [demo_signed, demo_verified, demo_wrong, demo_issued]"
  by (rule history_step [OF demo_history])
    (simp_all add: demo_signup_runs, simp add: demo_verified_def demo_account_def)

theorem signup_invariant_witness: "signup_ok demo_signed"
  using signup_invariant [OF demo_full_history demo_signup_ok] by simp

theorem codes_per_hour_witness:
  "length (filter (\<lambda>c. chal_email c = ''a@b.c'' \<and> windowStart (chal_lastSentAt c) = 0) (challenges demo_signed)) \<le> 5"
  using codes_per_hour [OF demo_full_history demo_signup_ok, of "''a@b.c''" 0] by simp

theorem otp_guesses_bounded_witness:
  "right_code demo_otp_env demo_challenge ''000042'' \<and> \<not> right_code demo_otp_env demo_challenge ''000043''"
proof -
  from otp_guesses_bounded [of demo_otp_env argon2_reference demo_issued "[(VerifyCode 0 6000 ''c1'' ''000043'', False)]" 1 6000
      "''c1''" "''000042''" "[demo_verified, demo_wrong, demo_issued]" demo_challenge] demo_history demo_signup_ok
  have "right_code demo_otp_env demo_challenge ''000042''" by (simp add: demo_trace_def)
  then show ?thesis by (simp add: right_code_def matchesOtp_def hex_value_def Let_def)
qed

theorem signup_needs_code_witness: "\<exists>lag t otp. (VerifyCode lag t ''c1'' otp, True) \<in> set demo_trace"
  using signup_needs_code [OF demo_full_history demo_signup_ok, of demo_challenge] by simp

lemma demo_verified_ok: "signup_ok demo_verified"
  using history_states [OF demo_history demo_signup_ok] by simp

lemma demo_new_account: "''new'' \<notin> account_id ` set (accounts demo_verified)"
  by (simp add: demo_verified_def demo_account_def)

theorem signup_outcome_witness:
  "snd (completeSignup argon2_reference ''s'' ''new'' 7000 7000 (''c1'', ''pw'', '' nick'') demo_verified) =
    signed_up argon2_reference ''s'' ''new'' 7000 7000 (verify_set 6000 (failed_set demo_challenge)) ''pw'' '' nick'' demo_verified"
  using signup_outcome [OF demo_verified_ok argon2_reference_documented demo_new_account, of "''s''" 7000 7000 "''c1''"]
  by (simp add: demo_verified_def verify_set_def failed_set_def)

theorem signup_then_login_witness:
  "authenticateCredentials argon2_reference demo_signed ('' A@b.c '', ''pw'') = Inr (Some ''new'')"
  using signup_then_login [OF demo_verified_ok argon2_reference_documented demo_new_account,
      of "verify_set 6000 (failed_set demo_challenge)" "''s''" 7000 7000 "''pw''" "'' nick''" "''new''" demo_signed "'' A@b.c ''"]
    demo_signup_runs by (simp add: demo_email) (simp add: demo_verified_def verify_set_def failed_set_def)

theorem login_exact_witness:
  "authenticateCredentials argon2_reference demo_signed (''a@b.c'', ''other'') \<noteq> Inr (Some ''new'')"
proof -
  have "accounts_ok demo_signed"
    using history_states [OF demo_full_history demo_signup_ok] by (simp add: signup_ok_def)
  from login_exact [OF this, of argon2_reference "''a@b.c''" "''other''" "''new''"] show ?thesis
    by (auto simp: demo_signed_def new_credential_def argon2_reference_def startsWith_def)
qed

end
