(* ===== verification/MfaCrypto.thy ===== *)
theory MfaCrypto imports Accounts begin

text \<open>
  The envelope of an administrator's TOTP secret (\<open>admin-mfa-crypto.ts\<close>) and the identifiers it is bound
  to (\<open>entity-id.ts\<close>).  Base64 is modelled; AES-256-GCM is a parameter whose documented behaviour is
  \<open>gcm_documented\<close>.
\<close>

section \<open>Entity identifiers\<close>

definition is_hex :: "char \<Rightarrow> bool" where
  "is_hex c \<longleftrightarrow> hex_value c \<noteq> None"

text \<open>The text form of a UUID of version 7.\<close>

definition is_uuid_v7 :: "string \<Rightarrow> bool" where
  "is_uuid_v7 s \<longleftrightarrow> length s = 36 \<and>
    list_all (\<lambda>i. if i \<in> {8, 13, 18, 23} then s ! i = CHR ''-'' else is_hex (s ! i)) [0..<36] \<and>
    s ! 14 = CHR ''7'' \<and> s ! 19 \<in> set ''89abAB''"

definition entityIdSchema :: "string \<Rightarrow> string option" where
  "entityIdSchema s = (if is_uuid_v7 s then Some (toLowerCase s) else None)"

section \<open>Base64\<close>

definition b64_common :: string where
  "b64_common = ''ABCDEFGHIJKLMNOPQRSTUVWXYZabcdefghijklmnopqrstuvwxyz0123456789''"

text \<open>The digit of a value below 64; the two alphabets differ in the last two.\<close>

definition b64_char :: "bool \<Rightarrow> nat \<Rightarrow> char" where
  "b64_char url n = (b64_common @ (if url then ''-_'' else ''+/'')) ! n"

text \<open>Decoding accepts both alphabets and skips every other character.\<close>

definition b64_value :: "char \<Rightarrow> nat option" where
  "b64_value c = map_of (zip (b64_common @ ''+/-_'') ([0..<64] @ [62, 63])) c"

fun b64_groups :: "nat list \<Rightarrow> nat list" where
  "b64_groups (a # b # c # bs) =
    [a div 4, (a mod 4) * 16 + b div 16, (b mod 16) * 4 + c div 64, c mod 64] @ b64_groups bs"
| "b64_groups [a, b] = [a div 4, (a mod 4) * 16 + b div 16, (b mod 16) * 4]"
| "b64_groups [a] = [a div 4, (a mod 4) * 16]"
| "b64_groups [] = []"

fun b64_bytes :: "nat list \<Rightarrow> nat list" where
  "b64_bytes (x # y # z # w # vs) =
    [x * 4 + y div 16, (y mod 16) * 16 + z div 4, (z mod 4) * 64 + w] @ b64_bytes vs"
| "b64_bytes [x, y, z] = [x * 4 + y div 16, (y mod 16) * 16 + z div 4]"
| "b64_bytes [x, y] = [x * 4 + y div 16]"
| "b64_bytes _ = []"

definition bytes_of :: "string \<Rightarrow> nat list" where
  "bytes_of = map of_char"

definition string_of :: "nat list \<Rightarrow> string" where
  "string_of = map char_of"

text \<open>\<open>toString("base64url")\<close> and \<open>toString("base64")\<close>: only the latter pads.\<close>

definition to_base64url :: "string \<Rightarrow> string" where
  "to_base64url s = map (b64_char True) (b64_groups (bytes_of s))"

definition to_base64 :: "string \<Rightarrow> string" where
  "to_base64 s =
    (let t = map (b64_char False) (b64_groups (bytes_of s)) in t @ replicate ((3 - length s mod 3) mod 3) (CHR ''=''))"

definition from_base64 :: "string \<Rightarrow> string" where
  "from_base64 s = string_of (b64_bytes (List.map_filter b64_value s))"

section \<open>UTF-8\<close>

text \<open>
  A string of the model is the list of its UTF-8 bytes, so that encoding is the identity.
  \<open>Buffer.toString("utf8")\<close> reads any bytes: each longest part that begins a character but does not
  finish it, and each byte that begins none, is replaced by U+FFFD.  For the first byte of a character
  \<open>utf8_lead\<close> gives the number of bytes that follow and the range of the next one.
\<close>

definition utf8_lead :: "nat \<Rightarrow> (nat \<times> nat \<times> nat) option" where
  "utf8_lead b =
    (if b < 0x80 then Some (0, 0x80, 0xBF)
     else if 0xC2 \<le> b \<and> b \<le> 0xDF then Some (1, 0x80, 0xBF)
     else if 0xE0 \<le> b \<and> b \<le> 0xEF then Some (2, if b = 0xE0 then 0xA0 else 0x80, if b = 0xED then 0x9F else 0xBF)
     else if 0xF0 \<le> b \<and> b \<le> 0xF4 then Some (3, if b = 0xF0 then 0x90 else 0x80, if b = 0xF4 then 0x8F else 0xBF)
     else None)"

text \<open>Whether the awaited bytes are there, and how many of them.\<close>

fun utf8_tail :: "nat \<Rightarrow> nat \<Rightarrow> nat \<Rightarrow> nat list \<Rightarrow> bool \<times> nat" where
  "utf8_tail 0 lo hi bs = (True, 0)"
| "utf8_tail (Suc n) lo hi [] = (False, 0)"
| "utf8_tail (Suc n) lo hi (b # bs) =
    (if lo \<le> b \<and> b \<le> hi then (case utf8_tail n 0x80 0xBF bs of (whole, k) \<Rightarrow> (whole, Suc k)) else (False, 0))"

fun utf8_read :: "nat list \<Rightarrow> nat list" where
  "utf8_read [] = []"
| "utf8_read (b # bs) =
    (case utf8_lead b of
       None \<Rightarrow> [0xEF, 0xBF, 0xBD] @ utf8_read bs
     | Some (n, lo, hi) \<Rightarrow>
         (case utf8_tail n lo hi bs of (whole, k) \<Rightarrow>
           (if whole then b # take k bs else [0xEF, 0xBF, 0xBD]) @ utf8_read (drop k bs)))"

definition utf8_text :: "string \<Rightarrow> string" where
  "utf8_text s = string_of (utf8_read (bytes_of s))"

lemma utf8_ascii: "\<forall>c \<in> set s. (of_char c :: nat) < 128 \<Longrightarrow> utf8_text s = s"
proof -
  have read: "\<forall>b \<in> set bs. b < 128 \<Longrightarrow> utf8_read bs = bs" for bs
    by (induction bs) (simp_all add: utf8_lead_def)
  assume "\<forall>c \<in> set s. (of_char c :: nat) < 128"
  then have "utf8_read (bytes_of s) = bytes_of s" by (intro read) (simp add: bytes_of_def)
  then show "utf8_text s = s" by (simp add: utf8_text_def string_of_def bytes_of_def comp_def)
qed

section \<open>The envelope\<close>

text \<open>
  \<open>createCipheriv\<close> and \<open>createDecipheriv\<close> of \<open>aes-256-gcm\<close> with additional data and a 16-byte tag:
  encryption gives cipher text and tag; decryption gives \<open>None\<close> when authentication fails.  Documented
  (NIST SP 800-38D): decryption accepts exactly what encryption under the same key, nonce and
  additional data gives, and cipher and plain text have the same length.
\<close>

record gcm =
  gcm_encrypt :: "string \<Rightarrow> string \<Rightarrow> string \<Rightarrow> string \<Rightarrow> string \<times> string"
  gcm_decrypt :: "string \<Rightarrow> string \<Rightarrow> string \<Rightarrow> string \<Rightarrow> string \<Rightarrow> string option"

definition gcm_documented :: "gcm \<Rightarrow> bool" where
  "gcm_documented g \<longleftrightarrow>
    (\<forall>k n a. length k = 32 \<and> length n = 12 \<longrightarrow>
      (\<forall>p c t. gcm_decrypt g k n a t c = Some p \<longleftrightarrow> gcm_encrypt g k n a p = (c, t)) \<and>
      (\<forall>p. length (fst (gcm_encrypt g k n a p)) = length p \<and> length (snd (gcm_encrypt g k n a p)) = 16))"

definition gcm_reference :: gcm where
  "gcm_reference = \<lparr>gcm_encrypt = (\<lambda>k n a p. (p, replicate 16 (CHR ''t''))),
    gcm_decrypt = (\<lambda>k n a t c. if t = replicate 16 (CHR ''t'') then Some c else None)\<rparr>"

lemma gcm_reference_documented: "gcm_documented gcm_reference"
  by (auto simp: gcm_documented_def gcm_reference_def)

definition crypto_error :: failure where
  "crypto_error = Error ''AdminMfaCryptoError''"

definition parseAdminMfaKey :: "string \<Rightarrow> failure + string" where
  "parseAdminMfaKey value =
    (let key = from_base64 value in if length key \<noteq> 32 \<or> to_base64 key \<noteq> value then Inl crypto_error else Inr key)"

definition decodePart :: "string \<Rightarrow> nat option \<Rightarrow> failure + string" where
  "decodePart value len =
    (let bytes = from_base64 value in
     if value = [] \<or> to_base64url bytes \<noteq> value \<or> (case len of None \<Rightarrow> False | Some n \<Rightarrow> length bytes \<noteq> n)
     then Inl crypto_error else Inr bytes)"

definition associatedData :: "string \<Rightarrow> string option" where
  "associatedData accountId = map_option (\<lambda>i. ''oioi-bwg:console-mfa:v1:'' @ i) (entityIdSchema accountId)"

fun split_dots :: "string \<Rightarrow> string list" where
  "split_dots [] = [[]]"
| "split_dots (c # cs) =
    (if c = CHR ''.'' then [] # split_dots cs else (case split_dots cs of [] \<Rightarrow> [[c]] | p # ps \<Rightarrow> (c # p) # ps))"

text \<open>The nonce (\<open>randomBytes(12)\<close>) is an argument.\<close>

definition encryptAdminMfaSecret ::
  "gcm \<Rightarrow> string \<Rightarrow> string \<Rightarrow> string \<Rightarrow> string \<Rightarrow> failure + string" where
  "encryptAdminMfaSecret g nonce accountId secret key =
    (if length key \<noteq> 32 \<or> secret = [] then Inl crypto_error
     else (case associatedData accountId of
       None \<Rightarrow> Inl crypto_error
     | Some aad \<Rightarrow>
         (case gcm_encrypt g key nonce aad secret of (ciphertext, tag) \<Rightarrow>
           Inr (''v1'' @ ''.'' @ to_base64url nonce @ ''.'' @ to_base64url tag @ ''.'' @ to_base64url ciphertext))))"

definition decryptAdminMfaSecret :: "gcm \<Rightarrow> string \<Rightarrow> string \<Rightarrow> string \<Rightarrow> failure + string" where
  "decryptAdminMfaSecret g accountId envelope key =
    (case split_dots envelope of
       [format, nonce, tag, ciphertext] \<Rightarrow>
         (if length key \<noteq> 32 \<or> format \<noteq> ''v1'' \<or> nonce = [] \<or> tag = [] \<or> ciphertext = [] then Inl crypto_error
          else (case (decodePart nonce (Some 12), associatedData accountId, decodePart tag (Some 16), decodePart ciphertext None) of
            (Inr n, Some aad, Inr t, Inr c) \<Rightarrow>
              (case gcm_decrypt g key n aad t c of None \<Rightarrow> Inl crypto_error | Some p \<Rightarrow> Inr (utf8_text p))
          | _ \<Rightarrow> Inl crypto_error))
     | _ \<Rightarrow> Inl crypto_error)"

section \<open>Base64 round trips\<close>

lemma b64_alphabet: "distinct (b64_common @ ''+/-_'')" "length b64_common = 62" "CHR ''.'' \<notin> set (b64_common @ ''+/-_'')"
    "CHR ''='' \<notin> set (b64_common @ ''+/-_'')"
proof -
  show "distinct (b64_common @ ''+/-_'')" by code_simp
  show "length b64_common = 62" by code_simp
  show "CHR ''.'' \<notin> set (b64_common @ ''+/-_'')" by code_simp
  show "CHR ''='' \<notin> set (b64_common @ ''+/-_'')" by code_simp
qed

lemma b64_char_nth:
  assumes "n < 64"
  shows "b64_char url n = (b64_common @ ''+/-_'') ! (if n < 62 \<or> \<not> url then n else n + 2)"
proof -
  from assms consider "n < 62" | "n = 62" | "n = 63" by linarith
  then show ?thesis by cases (simp_all add: b64_char_def nth_append b64_alphabet(2))
qed

lemma b64_value_char: "n < 64 \<Longrightarrow> b64_value (b64_char url n) = Some n"
proof -
  assume n: "n < 64"
  let ?i = "if n < 62 \<or> \<not> url then n else n + 2"
  have "?i < length (b64_common @ ''+/-_'')" using n by (simp add: b64_alphabet(2))
  then have "b64_value ((b64_common @ ''+/-_'') ! ?i) = Some (([0..<64] @ [62, 63]) ! ?i)"
    unfolding b64_value_def using b64_alphabet(1,2) by (intro map_of_zip_nth) simp_all
  moreover have "([0..<64] @ [62, 63]) ! ?i = n"
    using n by (cases "n = 62"; cases "n = 63") (auto simp: nth_append)
  ultimately show ?thesis by (simp only: b64_char_nth [OF n])
qed

lemma b64_char_not_dot: "n < 64 \<Longrightarrow> b64_char True n \<noteq> CHR ''.''"
proof -
  assume n: "n < 64"
  then have "b64_char True n \<in> set (b64_common @ ''+/-_'')"
    unfolding b64_char_nth [OF n] by (intro nth_mem) (simp add: b64_alphabet(2))
  then show ?thesis using b64_alphabet(3) by metis
qed

lemma b64_value_other: "b64_value (CHR ''='') = None"
  using b64_alphabet(4) by (simp add: b64_value_def map_of_zip_is_None b64_alphabet(2))

lemma b64_groups_bound: "\<forall>a \<in> set bs. a < 256 \<Longrightarrow> \<forall>x \<in> set (b64_groups bs). x < 64"
  by (induction bs rule: b64_groups.induct) auto

lemma b64_joins:
  "b < 256 \<Longrightarrow> (a div 4) * 4 + ((a mod 4) * 16 + b div 16) div 16 = (a :: nat)"
  "c < 256 \<Longrightarrow> (((a mod 4) * 16 + b div 16) mod 16) * 16 + ((b mod 16) * 4 + c div 64) div 4 = b" if "b < 256" for a b c :: nat
proof -
  have "b div 16 < 16" using that by (simp add: less_mult_imp_div_less)
  then show "(a div 4) * 4 + ((a mod 4) * 16 + b div 16) div 16 = a" by simp
  show "c < 256 \<Longrightarrow> (((a mod 4) * 16 + b div 16) mod 16) * 16 + ((b mod 16) * 4 + c div 64) div 4 = b"
  proof -
    assume "c < 256"
    then have "c div 64 < 4" by (simp add: less_mult_imp_div_less)
    with \<open>b div 16 < 16\<close> show ?thesis by simp
  qed
qed

lemma b64_last: "c < 256 \<Longrightarrow> (((b mod 16) * 4 + c div 64) mod 4) * 64 + c mod 64 = (c :: nat)"
proof -
  assume "c < 256"
  then have "c div 64 < 4" by (simp add: less_mult_imp_div_less)
  then show ?thesis by simp
qed

lemma b64_bytes_groups: "\<forall>a \<in> set bs. a < 256 \<Longrightarrow> b64_bytes (b64_groups bs) = bs"
proof (induction bs rule: b64_groups.induct)
  case (1 a b c bs)
  then have "b < 256" "c < 256" by auto
  with 1 show ?case by (simp only: b64_groups.simps b64_bytes.simps append.simps b64_joins b64_last) simp
next
  case (2 a b)
  then have "b < 256" by auto
  with b64_joins [of b a] b64_joins(2) [of b 0 a] show ?case by simp
qed simp_all

lemma bytes_of_bound: "\<forall>a \<in> set (bytes_of s). a < 256"
proof
  fix a assume "a \<in> set (bytes_of s)"
  then obtain c :: char where "a = of_char c" by (auto simp: bytes_of_def)
  then show "a < 256" using of_char_mod_256 [of c, where 'a = nat] mod_less_divisor [of 256 "of_char c :: nat"] by simp
qed

lemma string_of_bytes_of [simp]: "string_of (bytes_of s) = s"
  by (simp add: string_of_def bytes_of_def comp_def)

lemma map_filter_all: "(\<And>x. x \<in> set xs \<Longrightarrow> f (g x) = Some x) \<Longrightarrow> List.map_filter f (map g xs) = xs"
  by (induction xs) (auto simp: map_filter_simps)

lemma from_to_base64url [simp]: "from_base64 (to_base64url s) = s"
proof -
  have "List.map_filter b64_value (map (b64_char True) (b64_groups (bytes_of s))) = b64_groups (bytes_of s)"
    using b64_groups_bound [OF bytes_of_bound] by (intro map_filter_all b64_value_char) blast
  then show ?thesis by (simp add: from_base64_def to_base64url_def b64_bytes_groups [OF bytes_of_bound])
qed

lemma from_to_base64 [simp]: "from_base64 (to_base64 s) = s"
proof -
  have pad: "List.map_filter b64_value (replicate n (CHR ''='')) = []" for n
    by (induction n) (simp_all add: map_filter_simps b64_value_other)
  have "List.map_filter b64_value (map (b64_char False) (b64_groups (bytes_of s))) = b64_groups (bytes_of s)"
    using b64_groups_bound [OF bytes_of_bound] by (intro map_filter_all b64_value_char) blast
  moreover have "List.map_filter b64_value (xs @ ys) = List.map_filter b64_value xs @ List.map_filter b64_value ys" for xs ys
    by (simp add: map_filter_def)
  ultimately show ?thesis by (simp add: from_base64_def to_base64_def Let_def pad b64_bytes_groups [OF bytes_of_bound])
qed

lemma to_base64url_Nil_iff [simp]: "to_base64url s = [] \<longleftrightarrow> s = []"
proof
  assume "to_base64url s = []"
  then have "from_base64 (to_base64url s) = from_base64 []" by (rule arg_cong)
  then have "s = from_base64 []" by (simp only: from_to_base64url)
  then show "s = []" by (simp add: from_base64_def map_filter_simps string_of_def)
qed (simp add: to_base64url_def bytes_of_def)

lemma base64url_no_dot: "CHR ''.'' \<notin> set (to_base64url s)"
  using b64_groups_bound [OF bytes_of_bound] b64_char_not_dot by (fastforce simp: to_base64url_def)

lemma decodePart_Inr:
  "decodePart v len = Inr b \<longleftrightarrow> v = to_base64url b \<and> b \<noteq> [] \<and> (\<forall>n. len = Some n \<longrightarrow> length b = n)"
proof
  assume "decodePart v len = Inr b"
  then show "v = to_base64url b \<and> b \<noteq> [] \<and> (\<forall>n. len = Some n \<longrightarrow> length b = n)"
    by (cases "from_base64 v = []") (auto simp: decodePart_def Let_def split: option.splits if_splits)
next
  assume "v = to_base64url b \<and> b \<noteq> [] \<and> (\<forall>n. len = Some n \<longrightarrow> length b = n)"
  then show "decodePart v len = Inr b" by (cases len) (simp_all add: decodePart_def)
qed


section \<open>The envelope accepts exactly what it made\<close>

lemma split_dots_none: "CHR ''.'' \<notin> set x \<Longrightarrow> split_dots x = [x]"
  by (induction x) auto

lemma split_dots_append: "CHR ''.'' \<notin> set x \<Longrightarrow> split_dots (x @ CHR ''.'' # y) = x # split_dots y"
  by (induction x) auto

fun join_dots :: "string list \<Rightarrow> string" where
  "join_dots [] = []"
| "join_dots [p] = p"
| "join_dots (p # ps) = p @ CHR ''.'' # join_dots ps"

lemma join_split_dots: "split_dots s \<noteq> [] \<and> join_dots (split_dots s) = s"
proof (induction s)
  case (Cons c cs)
  obtain p ps where "split_dots cs = p # ps" using Cons.IH by (cases "split_dots cs") auto
  with Cons.IH show ?case by (cases ps) auto
qed simp

lemma split_dots_4: "split_dots s = [a, b, c, d] \<Longrightarrow> s = a @ ''.'' @ b @ ''.'' @ c @ ''.'' @ d"
  using join_split_dots [of s] by simp

lemma gcm_documentedD:
  assumes "gcm_documented g" and "length k = 32" and "length n = 12"
  shows "gcm_decrypt g k n a t c = Some p \<longleftrightarrow> gcm_encrypt g k n a p = (c, t)"
    and "gcm_encrypt g k n a p = (c, t) \<Longrightarrow> length c = length p \<and> length t = 16"
  using assms unfolding gcm_documented_def by (blast, metis fst_conv snd_conv)

lemma encrypt_Inr:
  "encryptAdminMfaSecret g nonce accountId p key = Inr envelope \<longleftrightarrow>
    length key = 32 \<and> p \<noteq> [] \<and> is_uuid_v7 accountId \<and>
    (\<exists>c t. gcm_encrypt g key nonce (''oioi-bwg:console-mfa:v1:'' @ toLowerCase accountId) p = (c, t) \<and>
      envelope = ''v1'' @ ''.'' @ to_base64url nonce @ ''.'' @ to_base64url t @ ''.'' @ to_base64url c)"
  by (auto simp: encryptAdminMfaSecret_def associatedData_def entityIdSchema_def split: if_splits option.splits prod.splits)

lemma envelope_parts:
  "split_dots (''v1'' @ ''.'' @ to_base64url n @ ''.'' @ to_base64url t @ ''.'' @ to_base64url c) =
    [''v1'', to_base64url n, to_base64url t, to_base64url c]"
  by (simp add: split_dots_append split_dots_none base64url_no_dot)

lemma envelope_inj:
  assumes "''v1'' @ ''.'' @ to_base64url n @ ''.'' @ to_base64url t @ ''.'' @ to_base64url c =
    ''v1'' @ ''.'' @ to_base64url n' @ ''.'' @ to_base64url t' @ ''.'' @ to_base64url c'"
  shows "n = n' \<and> t = t' \<and> c = c'"
proof -
  have "[''v1'', to_base64url n, to_base64url t, to_base64url c] = [''v1'', to_base64url n', to_base64url t', to_base64url c']"
    unfolding envelope_parts [symmetric] assms ..
  then show ?thesis by (metis from_to_base64url list.inject)
qed

text \<open>What decryption accepts is what encryption makes.\<close>

lemma envelope_opens:
  assumes g: "gcm_documented g"
  shows "decryptAdminMfaSecret g accountId envelope key = Inr secret \<longleftrightarrow>
    (\<exists>nonce p. length nonce = 12 \<and> utf8_text p = secret \<and>
      encryptAdminMfaSecret g nonce accountId p key = Inr envelope)"
proof
  assume "decryptAdminMfaSecret g accountId envelope key = Inr secret"
  then obtain n0 t0 c0 n aad t c p where env: "split_dots envelope = [''v1'', n0, t0, c0]" and key: "length key = 32"
    and parts: "decodePart n0 (Some 12) = Inr n" "decodePart t0 (Some 16) = Inr t" "decodePart c0 None = Inr c"
    and aad: "associatedData accountId = Some aad" and dec: "gcm_decrypt g key n aad t c = Some p" "utf8_text p = secret"
    by (auto simp: decryptAdminMfaSecret_def split: list.splits if_splits sum.splits option.splits)
  note d = parts [unfolded decodePart_Inr]
  from d have n: "length n = 12" by simp
  note gcm = gcm_documentedD [OF g key n]
  from dec have enc: "gcm_encrypt g key n aad p = (c, t)" by (simp add: gcm(1))
  with gcm(2) d have "p \<noteq> []" by fastforce
  with enc aad key have "encryptAdminMfaSecret g n accountId p key =
      Inr (''v1'' @ ''.'' @ to_base64url n @ ''.'' @ to_base64url t @ ''.'' @ to_base64url c)"
    by (simp add: encryptAdminMfaSecret_def)
  with split_dots_4 [OF env] d n dec(2) show "\<exists>nonce p. length nonce = 12 \<and> utf8_text p = secret \<and>
      encryptAdminMfaSecret g nonce accountId p key = Inr envelope"
    by auto
next
  assume "\<exists>nonce p. length nonce = 12 \<and> utf8_text p = secret \<and> encryptAdminMfaSecret g nonce accountId p key = Inr envelope"
  then obtain n p aad c t where n: "length n = 12" and key: "length key = 32" "p \<noteq> []" and aad: "associatedData accountId = Some aad"
    and enc: "gcm_encrypt g key n aad p = (c, t)" and p: "utf8_text p = secret"
    and env: "envelope = ''v1'' @ ''.'' @ to_base64url n @ ''.'' @ to_base64url t @ ''.'' @ to_base64url c"
    by (auto simp: encryptAdminMfaSecret_def split: if_splits option.splits prod.splits)
  note gcm = gcm_documentedD [OF g key(1) n]
  from gcm(2) [OF enc] key(2) have len: "c \<noteq> []" "length t = 16" "t \<noteq> []" "n \<noteq> []" using n by auto
  have "split_dots envelope = [''v1'', to_base64url n, to_base64url t, to_base64url c]"
    unfolding env by (rule envelope_parts)
  moreover have "decodePart (to_base64url n) (Some 12) = Inr n" "decodePart (to_base64url t) (Some 16) = Inr t"
    "decodePart (to_base64url c) None = Inr c"
    using len n unfolding decodePart_Inr by simp_all
  moreover have "gcm_decrypt g key n aad t c = Some p" using enc by (simp add: gcm(1))
  ultimately show "decryptAdminMfaSecret g accountId envelope key = Inr secret"
    using key(1) aad len p by (simp add: decryptAdminMfaSecret_def)
qed

text \<open>C40.
  The envelope of a secret opens exactly when it was sealed for the same account with the same key: what
  decryption accepts, and the secret it returns, is precisely what encryption with some 12-byte nonce
  produces from bytes that read as that secret - any other text, key length, truncated or padded part is
  rejected.  Encryption authenticates, with the cipher text, the account's id in lower case, and nothing
  else of the account: so an envelope made for one account opens with the id of another only if the
  cipher gives the same cipher text and tag for two different additional data, that is, if a forgery
  of GCM has been found.\<close>

theorem envelope_exact:
  assumes "gcm_documented g"
  shows "(decryptAdminMfaSecret g accountId envelope key = Inr secret \<longleftrightarrow>
      (\<exists>nonce p. length nonce = 12 \<and> utf8_text p = secret \<and>
        encryptAdminMfaSecret g nonce accountId p key = Inr envelope)) \<and>
    (encryptAdminMfaSecret g nonce accountId p key = Inr envelope \<longleftrightarrow>
      length key = 32 \<and> p \<noteq> [] \<and> is_uuid_v7 accountId \<and>
      (\<exists>c t. gcm_encrypt g key nonce (''oioi-bwg:console-mfa:v1:'' @ toLowerCase accountId) p = (c, t) \<and>
        envelope = ''v1'' @ ''.'' @ to_base64url nonce @ ''.'' @ to_base64url t @ ''.'' @ to_base64url c)) \<and>
    (encryptAdminMfaSecret g nonce accountId p key = Inr envelope \<and>
      decryptAdminMfaSecret g other envelope key' = Inr secret' \<longrightarrow>
      toLowerCase other = toLowerCase accountId \<or>
      (\<exists>p'. gcm_encrypt g key' nonce (''oioi-bwg:console-mfa:v1:'' @ toLowerCase other) p' =
          gcm_encrypt g key nonce (''oioi-bwg:console-mfa:v1:'' @ toLowerCase accountId) p))"
proof (intro conjI impI)
  assume "encryptAdminMfaSecret g nonce accountId p key = Inr envelope \<and>
      decryptAdminMfaSecret g other envelope key' = Inr secret'"
  then obtain nonce' p' where "encryptAdminMfaSecret g nonce accountId p key = Inr envelope"
    "encryptAdminMfaSecret g nonce' other p' key' = Inr envelope"
    using envelope_opens [OF assms] by blast
  then show "toLowerCase other = toLowerCase accountId \<or>
      (\<exists>p'. gcm_encrypt g key' nonce (''oioi-bwg:console-mfa:v1:'' @ toLowerCase other) p' =
          gcm_encrypt g key nonce (''oioi-bwg:console-mfa:v1:'' @ toLowerCase accountId) p)"
    unfolding encrypt_Inr by (metis envelope_inj)
qed (rule envelope_opens [OF assms], rule encrypt_Inr)

text \<open>
  A key is accepted exactly when the setting is the canonical base64 text of 32 bytes.\<close>

theorem mfa_key_exact:
  "parseAdminMfaKey value = Inr key \<longleftrightarrow> length key = 32 \<and> value = to_base64 key"
  by (cases "from_base64 value = key") (auto simp: parseAdminMfaKey_def Let_def)

definition demo_uuid :: string where
  "demo_uuid = ''01890000-0000-7000-8000-00000000000A''"

definition demo_key :: string where
  "demo_key = replicate 32 (CHR ''k'')"

lemma demo_aad: "associatedData demo_uuid = Some ''oioi-bwg:console-mfa:v1:01890000-0000-7000-8000-00000000000a''"
  by code_simp

theorem envelope_exact_witness:
  "\<exists>envelope. encryptAdminMfaSecret gcm_reference (replicate 12 (CHR ''n'')) demo_uuid ''SECRET'' demo_key = Inr envelope \<and>
    decryptAdminMfaSecret gcm_reference demo_uuid envelope demo_key = Inr ''SECRET''"
proof -
  obtain envelope where env: "encryptAdminMfaSecret gcm_reference (replicate 12 (CHR ''n'')) demo_uuid ''SECRET'' demo_key = Inr envelope"
    by (simp add: encryptAdminMfaSecret_def demo_aad demo_key_def gcm_reference_def)
  moreover have "utf8_text ''SECRET'' = ''SECRET''" by (rule utf8_ascii) simp
  ultimately have "\<exists>nonce p. length nonce = 12 \<and> utf8_text p = ''SECRET'' \<and>
      encryptAdminMfaSecret gcm_reference nonce demo_uuid p demo_key = Inr envelope"
    by (intro exI [of _ "replicate 12 (CHR ''n'')"] exI [of _ "''SECRET''"]) simp
  with envelope_exact [OF gcm_reference_documented]
  have "decryptAdminMfaSecret gcm_reference demo_uuid envelope demo_key = Inr ''SECRET''" by blast
  with env show ?thesis by blast
qed

text \<open>Ill-formed plain text is read with replacement characters.\<close>

lemma utf8_replaced: "utf8_read [0x41, 0xFF, 0xC3, 0x42, 0xE2, 0x82, 0xEA, 0xB0, 0x80] =
    [0x41, 0xEF, 0xBF, 0xBD, 0xEF, 0xBF, 0xBD, 0x42, 0xEF, 0xBF, 0xBD, 0xEA, 0xB0, 0x80]"
  by code_simp

end
