(* ===== verification/Mfa.thy ===== *)
theory Mfa imports MfaCrypto begin

text \<open>
  Multi-factor authentication of administrators (\<open>admin-mfa-repository.ts\<close>, \<open>admin-mfa-totp.ts\<close>,
  \<open>console-mfa-service.ts\<close>, \<open>console-mfa-revocation-service.ts\<close>,
  \<open>console-admin-bootstrap-service.ts\<close>): setting up a secret, confirming it, signing in with a one-time
  password, resetting, changing an account's access, and registering a credential again.  The TOTP check
  of the \<open>otplib\<close> package is a parameter; a service reads first and writes later in a transaction, and the
  states of both are arguments.
\<close>

section \<open>Statements\<close>

definition findAdminMfa :: "db \<Rightarrow> eid \<Rightarrow> mfa_row option" where
  "findAdminMfa s accountId = lookup mfa_accountId accountId (mfas s)"

record console_facts =
  cf_id :: eid
  cf_role :: account_role
  cf_status :: account_status
  cf_enabledAt :: "instant option"
  cf_version :: nat

definition findConsoleAuthorizationFacts :: "db \<Rightarrow> eid \<Rightarrow> console_facts option" where
  "findConsoleAuthorizationFacts s accountId =
    (case (lookup account_id accountId (accounts s), lookup mfa_accountId accountId (mfas s)) of
       (Some a, Some m) \<Rightarrow> Some \<lparr>cf_id = account_id a, cf_role = account_row.account_role a,
         cf_status = account_row.account_status a, cf_enabledAt = mfa_enabledAt m, cf_version = mfa_version m\<rparr>
     | _ \<Rightarrow> None)"

definition new_mfa :: "eid \<Rightarrow> string option \<Rightarrow> mfa_row" where
  "new_mfa accountId secret = \<lparr>mfa_accountId = accountId, mfa_encryptedSecret = secret, mfa_enabledAt = None,
     mfa_lastUsedStep = None, mfa_version = 1\<rparr>"

text \<open>\<open>insert ... on conflict do update set encrypted_secret = coalesce(...) where enabled_at is null returning\<close>.\<close>

definition pending_set :: "string \<Rightarrow> mfa_row \<Rightarrow> mfa_row" where
  "pending_set secret r = r\<lparr>mfa_encryptedSecret := Some (coalesce (mfa_encryptedSecret r) secret)\<rparr>"

definition ensurePendingAdminMfa :: "db \<Rightarrow> eid \<Rightarrow> string \<Rightarrow> mfa_row option \<times> db" where
  "ensurePendingAdminMfa s accountId secret =
    (if accountId \<in> mfa_accountId ` set (mfas s)
     then (first_row (returning (\<lambda>r. mfa_accountId r = accountId \<and> mfa_enabledAt r = None) (pending_set secret) (mfas s)),
           s\<lparr>mfas := update_where (\<lambda>r. mfa_accountId r = accountId \<and> mfa_enabledAt r = None) (pending_set secret) (mfas s)\<rparr>)
     else (Some (new_mfa accountId (Some secret)), s\<lparr>mfas := mfas s @ [new_mfa accountId (Some secret)]\<rparr>))"

definition reset_set :: "mfa_row \<Rightarrow> mfa_row" where
  "reset_set r = r\<lparr>mfa_encryptedSecret := None, mfa_enabledAt := None, mfa_lastUsedStep := None,
     mfa_version := mfa_version r + 1\<rparr>"

definition resetAdminMfa :: "db \<Rightarrow> eid \<Rightarrow> nat \<Rightarrow> nat list \<times> db" where
  "resetAdminMfa s accountId expectedVersion =
    (map mfa_version (returning (\<lambda>r. mfa_accountId r = accountId \<and> mfa_version r = expectedVersion) reset_set (mfas s)),
     s\<lparr>mfas := update_where (\<lambda>r. mfa_accountId r = accountId \<and> mfa_version r = expectedVersion) reset_set (mfas s)\<rparr>)"

definition bump_set :: "mfa_row \<Rightarrow> mfa_row" where
  "bump_set r = r\<lparr>mfa_version := mfa_version r + 1\<rparr>"

definition incrementAdminMfaVersion :: "db \<Rightarrow> eid \<Rightarrow> nat list \<times> db" where
  "incrementAdminMfaVersion s accountId =
    (if accountId \<in> mfa_accountId ` set (mfas s)
     then (map mfa_version (returning (\<lambda>r. mfa_accountId r = accountId) bump_set (mfas s)),
           s\<lparr>mfas := update_where (\<lambda>r. mfa_accountId r = accountId) bump_set (mfas s)\<rparr>)
     else ([1], s\<lparr>mfas := mfas s @ [new_mfa accountId None]\<rparr>))"

definition lockConsoleAuthenticationFacts ::
  "db \<Rightarrow> eid \<Rightarrow> account_row option \<times> credential_row option \<times> mfa_row option" where
  "lockConsoleAuthenticationFacts s accountId =
    (lookup account_id accountId (accounts s), lookup cred_accountId accountId (credentials s),
     lookup mfa_accountId accountId (mfas s))"

text \<open>The single-use claim of a time step: version, secret and state are still those that were read.\<close>

definition consume_pred :: "mfa_row \<Rightarrow> nat \<Rightarrow> mfa_row \<Rightarrow> bool" where
  "consume_pred expected step r \<longleftrightarrow>
    mfa_accountId r = mfa_accountId expected \<and> mfa_version r = mfa_version expected \<and>
    mfa_encryptedSecret r = mfa_encryptedSecret expected \<and> mfa_enabledAt r = mfa_enabledAt expected \<and>
    (case mfa_lastUsedStep r of None \<Rightarrow> True | Some n \<Rightarrow> n < step)"

definition step_set :: "mfa_row \<Rightarrow> nat \<Rightarrow> instant \<Rightarrow> mfa_row \<Rightarrow> mfa_row" where
  "step_set expected step confirmedAt r =
    r\<lparr>mfa_lastUsedStep := Some step, mfa_enabledAt := Some (coalesce (mfa_enabledAt expected) confirmedAt)\<rparr>"

definition consumeAdminMfaStep :: "db \<Rightarrow> mfa_row \<Rightarrow> nat \<Rightarrow> instant \<Rightarrow> nat list \<times> db" where
  "consumeAdminMfaStep s expected step confirmedAt =
    (map mfa_version (returning (consume_pred expected step) (step_set expected step confirmedAt) (mfas s)),
     s\<lparr>mfas := update_where (consume_pred expected step) (step_set expected step confirmedAt) (mfas s)\<rparr>)"

section \<open>One-time passwords\<close>

text \<open>\<open>verifySync\<close>: invalid, valid with the matching time step, or an exception.\<close>

datatype totp_result = TotpInvalid | TotpValid nat | TotpThrows

definition verifyAdminMfaTotp ::
  "(string \<Rightarrow> string \<Rightarrow> int \<Rightarrow> nat option \<Rightarrow> totp_result) \<Rightarrow> string \<Rightarrow> string \<Rightarrow> int \<Rightarrow> nat option \<Rightarrow> failure + nat option" where
  "verifyAdminMfaTotp verifySync secret token epoch lastUsedStep =
    (if \<not> otp_format token then Inr None
     else (case verifySync secret token epoch lastUsedStep of
       TotpInvalid \<Rightarrow> Inr None | TotpValid n \<Rightarrow> Inr (Some n) | TotpThrows \<Rightarrow> Inl (Error ''AdminMfaTotpError'')))"

section \<open>Services\<close>

text \<open>The outside world: argon2, AES-GCM, the TOTP check, and the AES key.\<close>

record mfa_env =
  me_argon :: argon2
  me_gcm :: gcm
  me_verifySync :: "string \<Rightarrow> string \<Rightarrow> int \<Rightarrow> nat option \<Rightarrow> totp_result"
  me_key :: string

definition verifyPassword :: "mfa_env \<Rightarrow> db \<Rightarrow> string \<Rightarrow> string \<Rightarrow> failure + credential_row option" where
  "verifyPassword env s email password =
    (let credential = findPasswordCredentialByEmail s (normalizeEmail email);
         hash = coalesce (map_option (cred_passwordHash \<circ> fst) credential) dummy_password_hash
     in case argon_verify (me_argon env) hash password of
          None \<Rightarrow> Inl (Error ''argon2'')
        | Some ok \<Rightarrow>
            (case credential of
               None \<Rightarrow> Inr None
             | Some (c, account) \<Rightarrow>
                 (if ok \<and> startsWith hash ''$argon2id$'' \<and> account_row.account_role account = ADMIN \<and>
                     account_row.account_status account = ACTIVE then Inr (Some c) else Inr None)))"

text \<open>The six compared fields are all the fields of a credential row.\<close>

definition credential_current ::
  "credential_row \<Rightarrow> account_row option \<times> credential_row option \<times> mfa_row option \<Rightarrow> bool" where
  "credential_current expected facts \<longleftrightarrow> (case facts of (a, c, m) \<Rightarrow>
    (case a of None \<Rightarrow> False | Some r \<Rightarrow> account_row.account_role r = ADMIN \<and> account_row.account_status r = ACTIVE) \<and>
    c = Some expected)"

definition setupConsoleMfa ::
  "mfa_env \<Rightarrow> db \<Rightarrow> string \<Rightarrow> string \<Rightarrow> string \<times> string \<Rightarrow> db \<Rightarrow> (string \<times> nat, db) use_case" where
  "setupConsoleMfa env seen nonce generated arg s0 = (case arg of (email, password) \<Rightarrow>
    (case verifyPassword env seen email password of
       Inl e \<Rightarrow> (Inl e, s0)
     | Inr None \<Rightarrow> fail UNAUTHENTICATED s0
     | Inr (Some credential) \<Rightarrow>
         (case encryptAdminMfaSecret (me_gcm env) nonce (cred_accountId credential) generated (me_key env) of
            Inl e \<Rightarrow> (Inl e, s0)
          | Inr candidate \<Rightarrow>
              and_then (transaction (\<lambda>s.
                throw_if (\<not> credential_current credential (lockConsoleAuthenticationFacts s (cred_accountId credential)))
                  (AppError UNAUTHENTICATED) s
                (case ensurePendingAdminMfa s (cred_accountId credential) candidate of
                   (None, s1) \<Rightarrow> fail UNAUTHENTICATED s1
                 | (Some stored, s1) \<Rightarrow>
                     (if truthy (mfa_encryptedSecret stored) then (Inr stored, s1) else fail UNAUTHENTICATED s1))) s0)
              (\<lambda>pending s1.
                (case decryptAdminMfaSecret (me_gcm env) (cred_accountId credential)
                    (coalesce (mfa_encryptedSecret pending) []) (me_key env) of
                   Inl e \<Rightarrow> (Inl e, s1)
                 | Inr secret \<Rightarrow> (Inr (secret, mfa_version pending), s1))))))"

record mfa_identity =
  mi_id :: eid
  mi_mfaVersion :: nat

text \<open>
  \<open>seen\<close> and \<open>seen2\<close> are the states in which the credential and the MFA row were read; \<open>epoch\<close> is the Unix
  time in seconds.
\<close>

definition consumeOtp ::
  "mfa_env \<Rightarrow> db \<Rightarrow> db \<Rightarrow> int \<Rightarrow> instant \<Rightarrow> nat option \<Rightarrow> string \<times> string \<times> string \<Rightarrow> db \<Rightarrow> (mfa_identity, db) use_case" where
  "consumeOtp env seen seen2 epoch confirmedAt expectedVersion arg s0 = (case arg of (email, password, token) \<Rightarrow>
    (case verifyPassword env seen email password of
       Inl e \<Rightarrow> (Inl e, s0)
     | Inr None \<Rightarrow> fail UNAUTHENTICATED s0
     | Inr (Some credential) \<Rightarrow>
         (case findAdminMfa seen2 (cred_accountId credential) of
            None \<Rightarrow> fail UNAUTHENTICATED s0
          | Some snapshot \<Rightarrow>
              (if \<not> truthy (mfa_encryptedSecret snapshot) \<or>
                  (case expectedVersion of
                     Some v \<Rightarrow> mfa_enabledAt snapshot \<noteq> None \<or> mfa_version snapshot \<noteq> v
                   | None \<Rightarrow> mfa_enabledAt snapshot = None) then fail UNAUTHENTICATED s0
               else (case decryptAdminMfaSecret (me_gcm env) (cred_accountId credential)
                   (coalesce (mfa_encryptedSecret snapshot) []) (me_key env) of
                  Inl e \<Rightarrow> (Inl e, s0)
                | Inr secret \<Rightarrow>
                    (case verifyAdminMfaTotp (me_verifySync env) secret token epoch (mfa_lastUsedStep snapshot) of
                       Inl e \<Rightarrow> (Inl e, s0)
                     | Inr None \<Rightarrow> fail UNAUTHENTICATED s0
                     | Inr (Some step) \<Rightarrow>
                         transaction (\<lambda>s.
                           throw_if (\<not> credential_current credential (lockConsoleAuthenticationFacts s (cred_accountId credential)))
                             (AppError UNAUTHENTICATED) s
                           (case consumeAdminMfaStep s snapshot step confirmedAt of
                              ([v], s1) \<Rightarrow> (Inr \<lparr>mi_id = cred_accountId credential, mi_mfaVersion = v\<rparr>, s1)
                            | (_, s1) \<Rightarrow> fail UNAUTHENTICATED s1)) s0))))))"

definition confirmConsoleMfa ::
  "mfa_env \<Rightarrow> db \<Rightarrow> db \<Rightarrow> int \<Rightarrow> instant \<Rightarrow> string \<times> string \<times> string \<times> int \<Rightarrow> db \<Rightarrow> (unit, db) use_case" where
  "confirmConsoleMfa env seen seen2 epoch confirmedAt arg s = (case arg of (email, password, token, version) \<Rightarrow>
    (if version \<le> 0 then fail UNAUTHENTICATED s
     else and_then (consumeOtp env seen seen2 epoch confirmedAt (Some (nat version)) (email, password, token) s)
       (\<lambda>_ s1. (Inr (), s1))))"

definition authenticateConsoleMfa ::
  "mfa_env \<Rightarrow> db \<Rightarrow> db \<Rightarrow> int \<Rightarrow> instant \<Rightarrow> string \<times> string \<times> string \<Rightarrow> db \<Rightarrow> (mfa_identity option, db) use_case" where
  "authenticateConsoleMfa env seen seen2 epoch confirmedAt arg s =
    (case consumeOtp env seen seen2 epoch confirmedAt None arg s of
       (Inr identity, s1) \<Rightarrow> (Inr (Some identity), s1)
     | (Inl e, s1) \<Rightarrow> (if e = AppError UNAUTHENTICATED then (Inr None, s1) else (Inl e, s1)))"

section \<open>Revocation\<close>

definition resetConsoleMfa :: "eid \<Rightarrow> nat option \<Rightarrow> db \<Rightarrow> (nat option \<times> nat, db) use_case" where
  "resetConsoleMfa accountId expectedVersion = transaction (\<lambda>s.
    (case lockConsoleAuthenticationFacts s accountId of (a, _, m) \<Rightarrow>
      throw_if (a = None \<or> map_option mfa_version m \<noteq> expectedVersion) (AppError FORBIDDEN) s
      (case (case m of Some r \<Rightarrow> resetAdminMfa s accountId (mfa_version r) | None \<Rightarrow> incrementAdminMfaVersion s accountId) of
         ([v], s1) \<Rightarrow> (Inr (expectedVersion, v), s1)
       | (_, s1) \<Rightarrow> fail FORBIDDEN s1)))"

record access =
  ac_role :: account_role
  ac_status :: account_status

definition changeConsoleAccountAccess ::
  "eid \<Rightarrow> access \<Rightarrow> nat option \<Rightarrow> access \<Rightarrow> db \<Rightarrow> (nat option \<times> nat, db) use_case" where
  "changeConsoleAccountAccess accountId expected expectedVersion new = transaction (\<lambda>s.
    (case lockConsoleAuthenticationFacts s accountId of (a, _, m) \<Rightarrow>
      throw_if (case a of
          None \<Rightarrow> True
        | Some r \<Rightarrow> account_row.account_role r \<noteq> ac_role expected \<or> account_row.account_status r \<noteq> ac_status expected \<or>
            map_option mfa_version m \<noteq> expectedVersion \<or>
            \<not> list_all (\<lambda>st. st = ACTIVE \<or> st = SUSPENDED) [ac_status expected, ac_status new])
        (AppError FORBIDDEN) s
      (case incrementAdminMfaVersion (updateAccountAccess s accountId (ac_role new) (ac_status new)) accountId of
         (v # _, s1) \<Rightarrow> (Inr (expectedVersion, v), s1)
       | ([], s1) \<Rightarrow> fail FORBIDDEN s1)))"

section \<open>Registering a credential again\<close>

text \<open>
  The password rule of \<open>completeSignupSchema\<close>; the address rule of zod's \<open>email()\<close> is the argument
  \<open>is_email\<close>.
\<close>

definition is_letter :: "char \<Rightarrow> bool" where
  "is_letter c \<longleftrightarrow> (let n = (of_char c :: nat) in (65 \<le> n \<and> n \<le> 90) \<or> (97 \<le> n \<and> n \<le> 122))"

definition password_ok :: "string \<Rightarrow> bool" where
  "password_ok p \<longleftrightarrow> 10 \<le> length p \<and> length p \<le> 32 \<and> list_ex is_letter p \<and> list_ex is_digit p \<and>
    list_ex (\<lambda>c. \<not> is_letter c \<and> \<not> is_digit c) p"

definition bootstrapConsoleAdminCredential ::
  "argon2 \<Rightarrow> (string \<Rightarrow> bool) \<Rightarrow> string \<Rightarrow> instant \<Rightarrow> instant \<Rightarrow> string \<times> nat option \<times> string \<times> string \<Rightarrow> db \<Rightarrow> (eid, db) use_case" where
  "bootstrapConsoleAdminCredential argon is_email salt now dbNow arg s0 =
    (case arg of (accountId, expectedMfaVersion, email, password) \<Rightarrow>
      or_throw (entityIdSchema accountId) (Error ''ZodError'') s0 (\<lambda>i.
      throw_if (\<not> is_email (trim email)) (Error ''ZodError'') s0
      (throw_if (\<not> password_ok password) (Error ''ZodError'') s0
      (transaction (\<lambda>s.
        (case lockConsoleAuthenticationFacts s i of (a, c, m) \<Rightarrow>
          throw_if ((case a of None \<Rightarrow> True | Some r \<Rightarrow> account_row.account_role r \<noteq> ADMIN \<or> account_row.account_status r \<noteq> ACTIVE) \<or>
              c \<noteq> None \<or> map_option mfa_version m \<noteq> expectedMfaVersion \<or>
              (case m of None \<Rightarrow> False | Some r \<Rightarrow> mfa_encryptedSecret r \<noteq> None \<or> mfa_enabledAt r \<noteq> None))
            (AppError FORBIDDEN) s
          (and_then (insertPasswordCredential s \<lparr>cred_accountId = i, cred_email = toLowerCase (trim email),
              cred_passwordHash = argon_hash argon salt password, cred_emailVerifiedAt = now,
              cred_passwordChangedAt = now, cred_updatedAt = dbNow\<rparr>) (\<lambda>_ s1. (Inr i, s1))))) s0))))"


section \<open>Well-formed MFA rows\<close>

definition mfas_ok :: "db \<Rightarrow> bool" where
  "mfas_ok s \<longleftrightarrow> distinct (map mfa_accountId (mfas s)) \<and> (\<forall>r \<in> set (mfas s). mfa_check r) \<and>
    mfa_accountId ` set (mfas s) \<subseteq> account_id ` set (accounts s)"

text \<open>What may happen to a row: within a version the used step only grows.\<close>

definition mfa_evolves :: "mfa_row \<Rightarrow> mfa_row \<Rightarrow> bool" where
  "mfa_evolves r r' \<longleftrightarrow> mfa_accountId r' = mfa_accountId r \<and>
    (mfa_version r < mfa_version r' \<or>
     mfa_version r' = mfa_version r \<and>
       (mfa_encryptedSecret r \<noteq> None \<longrightarrow> mfa_encryptedSecret r' = mfa_encryptedSecret r) \<and>
       (case mfa_lastUsedStep r of None \<Rightarrow> True
        | Some n \<Rightarrow> (case mfa_lastUsedStep r' of None \<Rightarrow> False | Some m \<Rightarrow> n \<le> m)))"

definition mfas_evolve :: "db \<Rightarrow> db \<Rightarrow> bool" where
  "mfas_evolve s s' \<longleftrightarrow> (\<forall>r \<in> set (mfas s). \<exists>r' \<in> set (mfas s'). mfa_evolves r r')"

lemma mfa_evolves_refl [simp]: "mfa_evolves r r"
  by (simp add: mfa_evolves_def split: option.splits)

lemma mfa_evolves_trans: "mfa_evolves a b \<Longrightarrow> mfa_evolves b c \<Longrightarrow> mfa_evolves a c"
  by (auto simp: mfa_evolves_def split: option.splits)

lemma mfas_evolve_same: "mfas s' = mfas s \<Longrightarrow> mfas_evolve s s'"
  by (auto simp: mfas_evolve_def intro: mfa_evolves_refl)

lemma mfas_evolve_trans: "mfas_evolve s t \<Longrightarrow> mfas_evolve t u \<Longrightarrow> mfas_evolve s u"
  unfolding mfas_evolve_def by (meson mfa_evolves_trans)

lemma mfa_unique: "mfas_ok s \<Longrightarrow> r \<in> set (mfas s) \<Longrightarrow> r' \<in> set (mfas s) \<Longrightarrow> mfa_accountId r = mfa_accountId r' \<Longrightarrow> r = r'"
  by (auto simp: mfas_ok_def distinct_map dest: inj_onD)

lemma mfas_evolveD:
  assumes "mfas_evolve s s'" and "mfas_ok s'" and "r \<in> set (mfas s)" and "r' \<in> set (mfas s')" and "mfa_accountId r' = mfa_accountId r"
  shows "mfa_evolves r r'"
proof -
  from assms(1,3) obtain q where "q \<in> set (mfas s')" "mfa_evolves r q" unfolding mfas_evolve_def by blast
  with mfa_unique [OF assms(2)] assms(4,5) show ?thesis by (metis mfa_evolves_def)
qed

lemma mfa_update:
  assumes ok: "mfas_ok s" and step: "\<And>r. r \<in> set (mfas s) \<Longrightarrow> p r \<Longrightarrow> mfa_check (f r) \<and> mfa_evolves r (f r)"
    and m: "mfas s' = update_where p f (mfas s)" and a: "account_id ` set (accounts s') = account_id ` set (accounts s)"
  shows "mfas_ok s'" and "mfas_evolve s s'"
proof -
  have keys: "map mfa_accountId (mfas s') = map mfa_accountId (mfas s)"
    unfolding m using step by (intro map_key_update_where_on) (simp add: mfa_evolves_def)
  have "mfa_check r" if "r \<in> set (mfas s')" for r
    using that ok step by (auto simp: m set_update_where mfas_ok_def)
  with ok keys a show "mfas_ok s'" unfolding mfas_ok_def by (metis list.set_map)
  have "\<exists>r' \<in> set (mfas s'). mfa_evolves r r'" if "r \<in> set (mfas s)" for r
    using step [OF that] imageI [OF that, of "\<lambda>r. if p r then f r else r"]
    by (intro bexI [of _ "if p r then f r else r"]) (simp_all add: m set_update_where)
  then show "mfas_evolve s s'" by (simp add: mfas_evolve_def)
qed

lemma mfa_insert:
  assumes "mfas_ok s" and "i \<notin> mfa_accountId ` set (mfas s)" and "i \<in> account_id ` set (accounts s)"
    and "mfas s' = mfas s @ [new_mfa i secret]" and "secret \<noteq> Some []" and "account_id ` set (accounts s') = account_id ` set (accounts s)"
  shows "mfas_ok s'" and "mfas_evolve s s'"
proof -
  show "mfas_ok s'" using assms by (auto simp: mfas_ok_def new_mfa_def mfa_check_def)
  have "\<exists>r' \<in> set (mfas s'). mfa_evolves r r'" if "r \<in> set (mfas s)" for r
    using that assms(4) by (intro bexI [of _ r]) simp_all
  then show "mfas_evolve s s'" by (simp add: mfas_evolve_def)
qed

lemma encrypted_not_empty: "encryptAdminMfaSecret g n a x k = Inr e \<Longrightarrow> e \<noteq> []"
  by (auto simp: encryptAdminMfaSecret_def split: if_splits option.splits prod.splits)

lemma ensurePending_ok:
  assumes "mfas_ok s" and "i \<in> account_id ` set (accounts s)" and "secret \<noteq> []" and "ensurePendingAdminMfa s i secret = (r, s')"
  shows "mfas_ok s' \<and> mfas_evolve s s'"
proof (cases "i \<in> mfa_accountId ` set (mfas s)")
  case True
  with assms(4) have s': "s' = s\<lparr>mfas := update_where (\<lambda>r. mfa_accountId r = i \<and> mfa_enabledAt r = None) (pending_set secret) (mfas s)\<rparr>"
    by (auto simp: ensurePendingAdminMfa_def)
  have "mfa_check (pending_set secret r) \<and> mfa_evolves r (pending_set secret r)"
    if "r \<in> set (mfas s)" "mfa_accountId r = i \<and> mfa_enabledAt r = None" for r
    using that assms(1,3) by (auto simp: mfas_ok_def mfa_check_def pending_set_def mfa_evolves_def coalesce_def split: option.splits)
  from mfa_update [OF assms(1) this] s' show ?thesis by simp
next
  case False
  with assms(4) have "s' = s\<lparr>mfas := mfas s @ [new_mfa i (Some secret)]\<rparr>" by (auto simp: ensurePendingAdminMfa_def)
  with mfa_insert [OF assms(1) False assms(2), of s' "Some secret"] assms(3) show ?thesis by simp
qed

lemma increment_mfa_ok:
  assumes "mfas_ok s" and "i \<in> account_id ` set (accounts s)" and "incrementAdminMfaVersion s i = (r, s')"
  shows "mfas_ok s' \<and> mfas_evolve s s'"
proof (cases "i \<in> mfa_accountId ` set (mfas s)")
  case True
  with assms(3) have s': "s' = s\<lparr>mfas := update_where (\<lambda>r. mfa_accountId r = i) bump_set (mfas s)\<rparr>"
    by (auto simp: incrementAdminMfaVersion_def)
  have "mfa_check (bump_set r) \<and> mfa_evolves r (bump_set r)" if "r \<in> set (mfas s)" "mfa_accountId r = i" for r
    using that assms(1) by (auto simp: mfas_ok_def mfa_check_def bump_set_def mfa_evolves_def)
  from mfa_update [OF assms(1) this] s' show ?thesis by simp
next
  case False
  with assms(3) have "s' = s\<lparr>mfas := mfas s @ [new_mfa i None]\<rparr>" by (auto simp: incrementAdminMfaVersion_def)
  with mfa_insert [OF assms(1) False assms(2), of s' None] show ?thesis by simp
qed

lemma reset_mfa_ok:
  assumes "mfas_ok s" and "resetAdminMfa s i v = (r, s')"
  shows "mfas_ok s' \<and> mfas_evolve s s'"
proof -
  have s': "s' = s\<lparr>mfas := update_where (\<lambda>r. mfa_accountId r = i \<and> mfa_version r = v) reset_set (mfas s)\<rparr>"
    using assms(2) by (auto simp: resetAdminMfa_def)
  have "mfa_check (reset_set r) \<and> mfa_evolves r (reset_set r)" for r
    by (auto simp: mfa_check_def reset_set_def mfa_evolves_def)
  with mfa_update [OF assms(1), of "\<lambda>r. mfa_accountId r = i \<and> mfa_version r = v" reset_set s'] s' show ?thesis by simp
qed

lemma consume_mfa_ok:
  assumes "mfas_ok s" and "truthy (mfa_encryptedSecret e)" and "consumeAdminMfaStep s e n t = (r, s')"
  shows "mfas_ok s' \<and> mfas_evolve s s'"
proof -
  have s': "s' = s\<lparr>mfas := update_where (consume_pred e n) (step_set e n t) (mfas s)\<rparr>"
    using assms(3) by (auto simp: consumeAdminMfaStep_def)
  have "mfa_check (step_set e n t r) \<and> mfa_evolves r (step_set e n t r)" if "r \<in> set (mfas s)" "consume_pred e n r" for r
    using that assms(1,2)
    by (auto simp: mfas_ok_def mfa_check_def step_set_def mfa_evolves_def consume_pred_def truthy_def split: option.splits)
  from mfa_update [OF assms(1) this] s' show ?thesis by simp
qed


section \<open>What the services do\<close>

lemma verifyPassword_SomeD:
  assumes "verifyPassword env s email password = Inr (Some c)"
  obtains acc where "lookup cred_email (normalizeEmail email) (credentials s) = Some c"
    and "lookup account_id (cred_accountId c) (accounts s) = Some acc"
    and "argon_verify (me_argon env) (cred_passwordHash c) password = Some True"
    and "startsWith (cred_passwordHash c) ''$argon2id$''"
    and "account_row.account_role acc = ADMIN" and "account_row.account_status acc = ACTIVE"
  using assms
  by (auto simp: verifyPassword_def findPasswordCredentialByEmail_def Let_def split: option.splits if_splits intro: that)

lemma consumeOtp_Inr:
  assumes "consumeOtp env seen seen2 epoch t v (email, password, token) s = (Inr idn, s')"
  obtains c m secret n where "verifyPassword env seen email password = Inr (Some c)"
    and "findAdminMfa seen2 (cred_accountId c) = Some m" and "truthy (mfa_encryptedSecret m)"
    and "case v of Some w \<Rightarrow> mfa_enabledAt m = None \<and> mfa_version m = w | None \<Rightarrow> mfa_enabledAt m \<noteq> None"
    and "decryptAdminMfaSecret (me_gcm env) (cred_accountId c) (coalesce (mfa_encryptedSecret m) []) (me_key env) = Inr secret"
    and "otp_format token" and "me_verifySync env secret token epoch (mfa_lastUsedStep m) = TotpValid n"
    and "credential_current c (lockConsoleAuthenticationFacts s (cred_accountId c))"
    and "consumeAdminMfaStep s m n t = ([mi_mfaVersion idn], s')" and "mi_id idn = cred_accountId c"
proof -
  from assms obtain c m secret n where 1: "verifyPassword env seen email password = Inr (Some c)"
    "findAdminMfa seen2 (cred_accountId c) = Some m" "truthy (mfa_encryptedSecret m)"
    "case v of Some w \<Rightarrow> mfa_enabledAt m = None \<and> mfa_version m = w | None \<Rightarrow> mfa_enabledAt m \<noteq> None"
    "decryptAdminMfaSecret (me_gcm env) (cred_accountId c) (coalesce (mfa_encryptedSecret m) []) (me_key env) = Inr secret"
    "verifyAdminMfaTotp (me_verifySync env) secret token epoch (mfa_lastUsedStep m) = Inr (Some n)"
    "credential_current c (lockConsoleAuthenticationFacts s (cred_accountId c))"
    "(case consumeAdminMfaStep s m n t of
        ([v], s1) \<Rightarrow> (Inr \<lparr>mi_id = cred_accountId c, mi_mfaVersion = v\<rparr>, s1)
      | (_, s1) \<Rightarrow> fail UNAUTHENTICATED s1) = (Inr idn, s')"
    by (auto simp: consumeOtp_def guard_simps split: sum.splits option.splits if_splits)
  from 1(6) have "otp_format token" "me_verifySync env secret token epoch (mfa_lastUsedStep m) = TotpValid n"
    by (auto simp: verifyAdminMfaTotp_def split: if_splits totp_result.splits)
  moreover from 1(8) have "consumeAdminMfaStep s m n t = ([mi_mfaVersion idn], s')" "mi_id idn = cred_accountId c"
    by (auto split: prod.splits list.splits)
  ultimately show thesis using 1 that by blast
qed

lemma consumeOtp_Inl: "consumeOtp env seen seen2 epoch t v arg s = (Inl e, s') \<Longrightarrow> s' = s"
  by (cases arg) (auto simp: consumeOtp_def split: sum.splits option.splits if_splits dest!: transaction_Inl)

lemma confirm_state:
  assumes "confirmConsoleMfa env seen seen2 epoch t arg s = (r, s')"
  shows "s' = s \<or> (\<exists>v a idn. consumeOtp env seen seen2 epoch t v a s = (Inr idn, s'))"
proof -
  obtain em pw tok v where arg: "arg = (em, pw, tok, v)" by (cases arg)
  obtain q u where q: "consumeOtp env seen seen2 epoch t (Some (nat v)) (em, pw, tok) s = (q, u)" by fastforce
  with assms arg show ?thesis
    by (cases q) (auto simp: confirmConsoleMfa_def split: if_splits dest: consumeOtp_Inl)
qed

lemma authenticate_Some:
  "authenticateConsoleMfa env seen seen2 epoch t arg s = (Inr (Some idn), s') \<longleftrightarrow>
    consumeOtp env seen seen2 epoch t None arg s = (Inr idn, s')"
  by (auto simp: authenticateConsoleMfa_def split: prod.splits sum.splits if_splits)

lemma authenticate_state:
  assumes "authenticateConsoleMfa env seen seen2 epoch t arg s = (r, s')"
  shows "s' = s \<or> (\<exists>idn. r = Inr (Some idn) \<and> consumeOtp env seen seen2 epoch t None arg s = (Inr idn, s'))"
  using assms by (auto simp: authenticateConsoleMfa_def split: prod.splits sum.splits if_splits dest: consumeOtp_Inl)

lemma consumeAdminMfaStep_frame:
  "consumeAdminMfaStep s m n t = (r, s') \<Longrightarrow> accounts s' = accounts s \<and> credentials s' = credentials s \<and> profiles s' = profiles s"
  by (auto simp: consumeAdminMfaStep_def)

lemma consumeOtp_ok:
  assumes "mfas_ok s" and "consumeOtp env seen seen2 epoch t v arg s = (Inr idn, s')"
  shows "mfas_ok s' \<and> mfas_evolve s s' \<and> accounts s' = accounts s \<and> credentials s' = credentials s"
proof -
  obtain em pw tok where "arg = (em, pw, tok)" by (cases arg)
  with assms(2) obtain m n where "truthy (mfa_encryptedSecret m)" "consumeAdminMfaStep s m n t = ([mi_mfaVersion idn], s')"
    by (metis consumeOtp_Inr)
  with consume_mfa_ok [OF assms(1)] consumeAdminMfaStep_frame show ?thesis by blast
qed

lemma lock_account:
  "lockConsoleAuthenticationFacts s i = (Some a, c, m) \<Longrightarrow> i \<in> account_id ` set (accounts s)"
  by (auto simp: lockConsoleAuthenticationFacts_def dest!: lookup_SomeD)

lemma current_account:
  "credential_current c (lockConsoleAuthenticationFacts s i) \<Longrightarrow> i \<in> account_id ` set (accounts s)"
  by (cases "lockConsoleAuthenticationFacts s i") (auto simp: credential_current_def dest: lock_account split: option.splits)

lemma setup_state:
  assumes "mfas_ok s" and "setupConsoleMfa env seen nonce g arg s = (r, s')"
  shows "mfas_ok s' \<and> mfas_evolve s s' \<and> accounts s' = accounts s \<and> credentials s' = credentials s"
proof (cases "s' = s")
  case True
  with assms(1) show ?thesis by (simp add: mfas_evolve_same)
next
  case False
  obtain em pw where arg: "arg = (em, pw)" by (cases arg)
  from assms(2) False arg obtain c cand stored where c: "verifyPassword env seen em pw = Inr (Some c)"
    "encryptAdminMfaSecret (me_gcm env) nonce (cred_accountId c) g (me_key env) = Inr cand"
    "credential_current c (lockConsoleAuthenticationFacts s (cred_accountId c))"
    "ensurePendingAdminMfa s (cred_accountId c) cand = (Some stored, s')"
    by (auto simp: setupConsoleMfa_def and_then_def guard_simps split: sum.splits option.splits prod.splits if_splits
        dest!: transaction_Inl)
  from c(3) have "cred_accountId c \<in> account_id ` set (accounts s)" by (rule current_account)
  with ensurePending_ok [OF assms(1) _ encrypted_not_empty [OF c(2)] c(4)]
  have "mfas_ok s' \<and> mfas_evolve s s'" by blast
  with c(4) show ?thesis by (auto simp: ensurePendingAdminMfa_def split: if_splits)
qed

lemma reset_state:
  assumes "mfas_ok s" and "resetConsoleMfa i v s = (r, s')"
  shows "mfas_ok s' \<and> mfas_evolve s s' \<and> accounts s' = accounts s \<and> credentials s' = credentials s"
proof (cases r)
  case (Inl e)
  with assms(2) have "s' = s" by (auto simp: resetConsoleMfa_def dest: transaction_Inl)
  with assms(1) show ?thesis by (simp add: mfas_evolve_same)
next
  case (Inr x)
  obtain a c m where lock: "lockConsoleAuthenticationFacts s i = (a, c, m)" by (metis prod_cases3)
  from assms(2) Inr lock obtain ac w where a: "a = Some ac"
    and run: "(case m of Some r \<Rightarrow> resetAdminMfa s i (mfa_version r) | None \<Rightarrow> incrementAdminMfaVersion s i) = ([w], s')"
    by (auto simp: resetConsoleMfa_def guard_simps split: prod.splits list.splits option.splits)
  from run reset_mfa_ok [OF assms(1)] increment_mfa_ok [OF assms(1) lock_account [OF lock [unfolded a]]]
  have "mfas_ok s' \<and> mfas_evolve s s'" by (cases m) auto
  with run show ?thesis
    by (auto simp: resetAdminMfa_def incrementAdminMfaVersion_def split: option.splits if_splits)
qed

lemma account_ids_access: "account_id ` set (accounts (updateAccountAccess s i ro st)) = account_id ` set (accounts s)"
  by (simp add: updateAccountAccess_def)

lemma access_state:
  assumes "mfas_ok s" and "changeConsoleAccountAccess i ex v new s = (r, s')"
  shows "mfas_ok s' \<and> mfas_evolve s s' \<and> account_id ` set (accounts s') = account_id ` set (accounts s) \<and> credentials s' = credentials s"
proof (cases r)
  case (Inl e)
  with assms(2) have "s' = s" by (auto simp: changeConsoleAccountAccess_def dest: transaction_Inl)
  with assms(1) show ?thesis by (simp add: mfas_evolve_same)
next
  case (Inr x)
  obtain a c m where lock: "lockConsoleAuthenticationFacts s i = (a, c, m)" by (metis prod_cases3)
  let ?s = "updateAccountAccess s i (ac_role new) (ac_status new)"
  from assms(2) Inr lock obtain ac w ws where a: "a = Some ac"
    and run: "incrementAdminMfaVersion ?s i = (w # ws, s')"
    by (auto simp: changeConsoleAccountAccess_def guard_simps split: prod.splits list.splits option.splits)
  have same: "mfas ?s = mfas s" "credentials ?s = credentials s" by (simp_all add: updateAccountAccess_def)
  with assms(1) have "mfas_ok ?s" by (simp add: mfas_ok_def account_ids_access)
  from increment_mfa_ok [OF this _ run] lock_account [OF lock [unfolded a]] same
  have "mfas_ok s' \<and> mfas_evolve s s'" by (simp add: account_ids_access mfas_evolve_def)
  moreover from run have "accounts s' = accounts ?s" "credentials s' = credentials ?s"
    by (auto simp: incrementAdminMfaVersion_def split: if_splits)
  ultimately show ?thesis using same by (simp add: account_ids_access)
qed

lemma bootstrap_Inl:
  "bootstrapConsoleAdminCredential argon is_email salt now dbNow arg s = (Inl e, s') \<Longrightarrow> s' = s"
  unfolding bootstrapConsoleAdminCredential_def
  by (auto split: prod.splits dest!: or_throw_Inl throw_if_Inl transaction_Inl)

lemma bootstrap_Inr:
  assumes "bootstrapConsoleAdminCredential argon is_email salt now dbNow (accountId, v, email, password) s = (Inr i, s')"
  shows "entityIdSchema accountId = Some i \<and> is_email (trim email) \<and> password_ok password \<and>
    (\<exists>a. lookup account_id i (accounts s) = Some a \<and> account_row.account_role a = ADMIN \<and> account_row.account_status a = ACTIVE) \<and>
    lookup cred_accountId i (credentials s) = None \<and>
    map_option mfa_version (lookup mfa_accountId i (mfas s)) = v \<and>
    (\<forall>m. lookup mfa_accountId i (mfas s) = Some m \<longrightarrow> mfa_encryptedSecret m = None \<and> mfa_enabledAt m = None) \<and>
    s' = s\<lparr>credentials := credentials s @ [new_credential argon salt i now dbNow (toLowerCase (trim email)) password]\<rparr>"
proof -
  obtain a c m where lock: "lockConsoleAuthenticationFacts s i = (a, c, m)" by (metis prod_cases3)
  have id: "entityIdSchema accountId = Some i"
  proof (cases "entityIdSchema accountId")
    case None
    with assms show ?thesis by (simp add: bootstrapConsoleAdminCredential_def)
  next
    case (Some j)
    obtain a c m where "lockConsoleAuthenticationFacts s j = (a, c, m)" by (metis prod_cases3)
    with assms Some show ?thesis by (auto simp: bootstrapConsoleAdminCredential_def guard_simps)
  qed
  with assms lock show ?thesis
    by (auto simp: bootstrapConsoleAdminCredential_def guard_simps new_credential_def lockConsoleAuthenticationFacts_def
        split: option.splits)
qed

lemma bootstrap_state:
  assumes "bootstrapConsoleAdminCredential argon is_email salt now dbNow arg s = (r, s')"
  shows "accounts s' = accounts s \<and> mfas s' = mfas s"
proof (cases r)
  case (Inl e)
  with assms bootstrap_Inl have "s' = s" by blast
  then show ?thesis by simp
next
  case (Inr i)
  obtain a v e p where "arg = (a, v, e, p)" by (cases arg)
  with bootstrap_Inr assms Inr show ?thesis by fastforce
qed


section \<open>Sequences of requests\<close>

inductive mfa_step :: "mfa_env \<Rightarrow> db \<Rightarrow> db \<Rightarrow> bool" for env where
  mfa_setup: "setupConsoleMfa env seen nonce g a1 s = (r1, s') \<Longrightarrow> mfa_step env s s'"
| mfa_confirm: "confirmConsoleMfa env seen seen2 epoch t a2 s = (r2, s') \<Longrightarrow> mfa_step env s s'"
| mfa_signin: "authenticateConsoleMfa env seen seen2 epoch t a3 s = (r3, s') \<Longrightarrow> mfa_step env s s'"
| mfa_reset: "resetConsoleMfa i v s = (r4, s') \<Longrightarrow> mfa_step env s s'"
| mfa_access: "changeConsoleAccountAccess i ex v new s = (r5, s') \<Longrightarrow> mfa_step env s s'"
| mfa_bootstrap: "bootstrapConsoleAdminCredential (me_argon env) is_email salt now dbNow a6 s = (r6, s') \<Longrightarrow> mfa_step env s s'"
| mfa_signup: "completeSignup (me_argon env) salt newId now dbNow a7 s = (r7, s') \<Longrightarrow> mfa_step env s s'"

lemma signup_mfas:
  assumes "completeSignup argon salt newId now dbNow arg s = (r, s')"
  shows "mfas s' = mfas s \<and> account_id ` set (accounts s) \<subseteq> account_id ` set (accounts s')"
proof (cases r)
  case (Inl e)
  with assms completeSignup_Inl show ?thesis by blast
next
  case (Inr a)
  obtain i p n where "arg = (i, p, n)" by (cases arg)
  with assms Inr have "completeSignup argon salt newId now dbNow (i, p, n) s = (Inr a, s')" by simp
  then show ?thesis by (rule completeSignup_Inr) auto
qed

lemma mfa_step_ok:
  assumes "mfa_step env s s'" and "mfas_ok s"
  shows "mfas_ok s' \<and> mfas_evolve s s'"
  using assms
proof cases
  case mfa_setup
  with setup_state [OF assms(2)] show ?thesis by blast
next
  case mfa_confirm
  from confirm_state [OF this] consumeOtp_ok [OF assms(2)] assms(2) show ?thesis by (metis mfas_evolve_same)
next
  case mfa_signin
  from authenticate_state [OF this] consumeOtp_ok [OF assms(2)] assms(2) show ?thesis by (metis mfas_evolve_same)
next
  case mfa_reset
  with reset_state [OF assms(2)] show ?thesis by blast
next
  case mfa_access
  with access_state [OF assms(2)] show ?thesis by blast
next
  case mfa_bootstrap
  from bootstrap_state [OF this] assms(2) show ?thesis by (simp add: mfas_ok_def mfas_evolve_same)
next
  case mfa_signup
  from signup_mfas [OF this] have same: "mfas s' = mfas s" and more: "account_id ` set (accounts s) \<subseteq> account_id ` set (accounts s')"
    by blast+
  from assms(2) have "mfa_accountId ` set (mfas s') \<subseteq> account_id ` set (accounts s')"
    using subset_trans [OF _ more] by (simp add: mfas_ok_def same)
  with assms(2) show ?thesis by (simp add: mfas_ok_def mfas_evolve_same same)
qed

text \<open>
  Along any sequence of set-ups, confirmations, sign-ins, resets, access changes, credential
  registrations and sign-ups, with reads as stale as they like, there is one MFA row per account at most,
  it satisfies its constraints - enabled exactly when it has a secret and a used step - and an account's
  version never goes back, nor its used time step within a version.\<close>

theorem mfa_invariant:
  assumes "(mfa_step env)\<^sup>*\<^sup>* s s'" and "mfas_ok s"
  shows "mfas_ok s' \<and> mfas_evolve s s'"
  using assms
proof (induction rule: rtranclp_induct)
  case base
  then show ?case by (simp add: mfas_evolve_same)
next
  case (step t u)
  with mfa_step_ok [of env t u] show ?case by (blast intro: mfas_evolve_trans)
qed

section \<open>Signing in\<close>

lemma consume_row:
  assumes "consumeAdminMfaStep s m n t = ([v], s')"
  obtains q where "q \<in> set (mfas s)" and "consume_pred m n q" and "mfa_version q = v" and "step_set m n t q \<in> set (mfas s')"
proof -
  from assms have "map mfa_version (returning (consume_pred m n) (step_set m n t) (mfas s)) = [v]"
    and s': "s' = s\<lparr>mfas := update_where (consume_pred m n) (step_set m n t) (mfas s)\<rparr>"
    by (simp_all add: consumeAdminMfaStep_def)
  then have "v \<in> set (map mfa_version (returning (consume_pred m n) (step_set m n t) (mfas s)))" by simp
  then obtain q where q: "q \<in> set (mfas s)" "consume_pred m n q" "mfa_version (step_set m n t q) = v"
    by (auto simp: returning_def)
  then have "step_set m n t q \<in> set (mfas s')" by (force simp: s' set_update_where)
  with q that show thesis by (simp add: step_set_def)
qed

text \<open>
  What a successful sign-in shows: \<open>c\<close> is the credential, \<open>m0\<close> the MFA row that was read, \<open>m\<close> the row that
  stands when the step is consumed, \<open>n\<close> the step.\<close>

lemma signin_facts:
  assumes "mfas_ok s" and "authenticateConsoleMfa env seen seen2 epoch t (email, password, token) s = (Inr (Some idn), s')"
  obtains c a m0 m secret n where "lookup cred_email (normalizeEmail email) (credentials seen) = Some c"
    and "lookup cred_accountId (mi_id idn) (credentials s) = Some c"
    and "lookup account_id (mi_id idn) (accounts s) = Some a"
    and "account_row.account_role a = ADMIN" and "account_row.account_status a = ACTIVE"
    and "argon_verify (me_argon env) (cred_passwordHash c) password = Some True"
    and "lookup mfa_accountId (mi_id idn) (mfas seen2) = Some m0" and "lookup mfa_accountId (mi_id idn) (mfas s) = Some m"
    and "mfa_version m0 = mfa_version m" and "mfa_encryptedSecret m0 = mfa_encryptedSecret m" and "mfa_enabledAt m0 = mfa_enabledAt m"
    and "mfa_encryptedSecret m \<noteq> None" and "mfa_enabledAt m \<noteq> None" and "mfa_version m = mi_mfaVersion idn"
    and "decryptAdminMfaSecret (me_gcm env) (mi_id idn) (coalesce (mfa_encryptedSecret m) []) (me_key env) = Inr secret"
    and "otp_format token" and "me_verifySync env secret token epoch (mfa_lastUsedStep m0) = TotpValid n"
    and "\<forall>k. mfa_lastUsedStep m = Some k \<longrightarrow> k < n"
    and "lookup mfa_accountId (mi_id idn) (mfas s') = Some (m\<lparr>mfa_lastUsedStep := Some n\<rparr>)"
proof -
  have otp: "consumeOtp env seen seen2 epoch t None (email, password, token) s = (Inr idn, s')"
    using assms(2) by (simp add: authenticate_Some)
  then obtain c m0 secret n where pw: "verifyPassword env seen email password = Inr (Some c)"
    and m0: "findAdminMfa seen2 (cred_accountId c) = Some m0" "mfa_enabledAt m0 \<noteq> None" "truthy (mfa_encryptedSecret m0)"
    and dec: "decryptAdminMfaSecret (me_gcm env) (cred_accountId c) (coalesce (mfa_encryptedSecret m0) []) (me_key env) = Inr secret"
    and tok: "otp_format token" "me_verifySync env secret token epoch (mfa_lastUsedStep m0) = TotpValid n"
    and cur: "credential_current c (lockConsoleAuthenticationFacts s (cred_accountId c))"
    and con: "consumeAdminMfaStep s m0 n t = ([mi_mfaVersion idn], s')" and id: "mi_id idn = cred_accountId c"
    by (rule consumeOtp_Inr) auto
  from pw obtain acc0 where c: "lookup cred_email (normalizeEmail email) (credentials seen) = Some c"
    "argon_verify (me_argon env) (cred_passwordHash c) password = Some True" by (rule verifyPassword_SomeD)
  from cur obtain a where a: "lookup account_id (mi_id idn) (accounts s) = Some a" "account_row.account_role a = ADMIN"
    "account_row.account_status a = ACTIVE" "lookup cred_accountId (mi_id idn) (credentials s) = Some c"
    by (auto simp: credential_current_def lockConsoleAuthenticationFacts_def id split: option.splits)
  from con obtain m where m: "m \<in> set (mfas s)" "consume_pred m0 n m" "mfa_version m = mi_mfaVersion idn"
    "step_set m0 n t m \<in> set (mfas s')" by (rule consume_row)
  have mid: "mfa_accountId m0 = mi_id idn" using m0(1) id by (auto simp: findAdminMfa_def dest: lookup_SomeD)
  have "mfas_ok s'" using consumeOtp_ok [OF assms(1) otp] by simp
  with assms(1) m mid have look: "lookup mfa_accountId (mi_id idn) (mfas s) = Some m"
    "lookup mfa_accountId (mi_id idn) (mfas s') = Some (step_set m0 n t m)"
    by (simp_all add: mfas_ok_def lookup_Some_iff consume_pred_def step_set_def)
  have "step_set m0 n t m = m\<lparr>mfa_lastUsedStep := Some n\<rparr>"
    using m(2) m0(2) by (cases "mfa_enabledAt m0") (auto simp: step_set_def consume_pred_def)
  with look have look': "lookup mfa_accountId (mi_id idn) (mfas s') = Some (m\<lparr>mfa_lastUsedStep := Some n\<rparr>)" by simp
  have same: "mfa_version m0 = mfa_version m" "mfa_encryptedSecret m0 = mfa_encryptedSecret m" "mfa_enabledAt m0 = mfa_enabledAt m"
    "\<forall>k. mfa_lastUsedStep m = Some k \<longrightarrow> k < n"
    using m(2) by (auto simp: consume_pred_def)
  have secret: "decryptAdminMfaSecret (me_gcm env) (mi_id idn) (coalesce (mfa_encryptedSecret m) []) (me_key env) = Inr secret"
    "lookup mfa_accountId (mi_id idn) (mfas seen2) = Some m0" "mfa_encryptedSecret m \<noteq> None" "mfa_enabledAt m \<noteq> None"
    using dec m0 id same by (auto simp: findAdminMfa_def truthy_def split: option.splits)
  show thesis
    by (rule that [OF c(1) a(4,1,2,3) c(2) secret(2) look(1) same(1,2,3) secret(3,4) m(3) secret(1) tok same(4) look'])
qed

text \<open>C23.
  A sign-in, on reads of any age, needs everything at once: the right password for an address whose
  account is - at the moment of the write - an active administrator with the very credential that was
  read; an enabled MFA row whose version, secret and enablement are still those that were read; and a
  six-digit token that the TOTP check accepts for the secret decrypted from that row, at a time step
  later than the last step recorded in it.  The answer names that account and version, and the step is
  recorded as the last one used.\<close>

theorem mfa_signin_sound:
  assumes "mfas_ok s" and "authenticateConsoleMfa env seen seen2 epoch t (email, password, token) s = (Inr (Some idn), s')"
  shows "\<exists>c a m0 m secret n. lookup cred_email (normalizeEmail email) (credentials seen) = Some c \<and>
    lookup cred_accountId (mi_id idn) (credentials s) = Some c \<and>
    argon_verify (me_argon env) (cred_passwordHash c) password = Some True \<and>
    lookup account_id (mi_id idn) (accounts s) = Some a \<and>
    account_row.account_role a = ADMIN \<and> account_row.account_status a = ACTIVE \<and>
    lookup mfa_accountId (mi_id idn) (mfas seen2) = Some m0 \<and> lookup mfa_accountId (mi_id idn) (mfas s) = Some m \<and>
    mfa_version m0 = mfa_version m \<and> mfa_encryptedSecret m0 = mfa_encryptedSecret m \<and> mfa_enabledAt m0 = mfa_enabledAt m \<and>
    mfa_enabledAt m \<noteq> None \<and> mfa_version m = mi_mfaVersion idn \<and>
    decryptAdminMfaSecret (me_gcm env) (mi_id idn) (coalesce (mfa_encryptedSecret m) []) (me_key env) = Inr secret \<and>
    otp_format token \<and> me_verifySync env secret token epoch (mfa_lastUsedStep m0) = TotpValid n \<and>
    (\<forall>k. mfa_lastUsedStep m = Some k \<longrightarrow> k < n) \<and>
    lookup mfa_accountId (mi_id idn) (mfas s') = Some (m\<lparr>mfa_lastUsedStep := Some n\<rparr>)"
  by (rule signin_facts [OF assms]) blast

text \<open>
  Documented behaviour of \<open>verifySync\<close>, as \<open>admin-mfa-totp.test.ts\<close> exercises it: a token is valid at the
  step whose code it is, the step is at most one away from the present one, and it lies after
  \<open>afterTimeStep\<close>.  \<open>code\<close> gives the code of a secret at a step.\<close>

definition totp_documented :: "(string \<Rightarrow> nat \<Rightarrow> string) \<Rightarrow> mfa_env \<Rightarrow> bool" where
  "totp_documented code env \<longleftrightarrow> (\<forall>secret token epoch last n.
    me_verifySync env secret token epoch last = TotpValid n \<longrightarrow>
      token = code secret n \<and> \<bar>int n - epoch div 30\<bar> \<le> 1 \<and> (\<forall>k. last = Some k \<longrightarrow> k < n))"

text \<open>C24.
  A one-time password is not accepted twice: if an account signs in, and then, after any further
  requests and on reads of any age, signs in again under the same MFA version, then the secret stored for
  the account is the same both times, both tokens are the codes of that one secret, and the time step of
  the second is strictly later than the first's and at most one step after the present one.  So what was
  accepted once can be accepted again only where the code of a later step happens to be the same six
  digits.  A reset or a change of access starts a new version.\<close>

theorem totp_not_replayed:
  assumes "mfas_ok s" and "totp_documented code env"
    and "authenticateConsoleMfa env seen seen2 epoch t (email, password, token) s = (Inr (Some idn), s1)"
    and "(mfa_step env)\<^sup>*\<^sup>* s1 s2"
    and "authenticateConsoleMfa env seen' seen2' epoch' t' (email', password', token') s2 = (Inr (Some idn'), s3)"
    and "mi_id idn' = mi_id idn" and "mi_mfaVersion idn' = mi_mfaVersion idn"
  shows "\<exists>m m' secret n n'. lookup mfa_accountId (mi_id idn) (mfas s) = Some m \<and>
    lookup mfa_accountId (mi_id idn) (mfas s2) = Some m' \<and> mfa_encryptedSecret m' = mfa_encryptedSecret m \<and>
    decryptAdminMfaSecret (me_gcm env) (mi_id idn) (coalesce (mfa_encryptedSecret m) []) (me_key env) = Inr secret \<and>
    token = code secret n \<and> token' = code secret n' \<and> n < n' \<and>
    \<bar>int n - epoch div 30\<bar> \<le> 1 \<and> \<bar>int n' - epoch' div 30\<bar> \<le> 1"
proof -
  from assms(1,3) obtain m secret n last where 1: "lookup mfa_accountId (mi_id idn) (mfas s) = Some m"
    "mfa_encryptedSecret m \<noteq> None" "mfa_version m = mi_mfaVersion idn"
    "decryptAdminMfaSecret (me_gcm env) (mi_id idn) (coalesce (mfa_encryptedSecret m) []) (me_key env) = Inr secret"
    "me_verifySync env secret token epoch last = TotpValid n"
    "lookup mfa_accountId (mi_id idn) (mfas s1) = Some (m\<lparr>mfa_lastUsedStep := Some n\<rparr>)" by (rule signin_facts)
  have ok1: "mfas_ok s1" using mfa_step_ok [OF mfa_signin [OF assms(3)] assms(1)] by blast
  from mfa_invariant [OF assms(4) ok1] have ok2: "mfas_ok s2" "mfas_evolve s1 s2" by blast+
  from ok2(1) assms(5) obtain m' secret' n' last' where 2: "lookup mfa_accountId (mi_id idn') (mfas s2) = Some m'"
    "mfa_version m' = mi_mfaVersion idn'"
    "decryptAdminMfaSecret (me_gcm env) (mi_id idn') (coalesce (mfa_encryptedSecret m') []) (me_key env) = Inr secret'"
    "me_verifySync env secret' token' epoch' last' = TotpValid n'" "\<forall>k. mfa_lastUsedStep m' = Some k \<longrightarrow> k < n'" by (rule signin_facts)
  have "mfa_evolves (m\<lparr>mfa_lastUsedStep := Some n\<rparr>) m'"
    using lookup_SomeD [OF 1(6)] lookup_SomeD [OF 2(1)] assms(6) by (intro mfas_evolveD [OF ok2(2,1)]) auto
  with 1(2,3) 2(2,5) assms(7) have later: "n < n'" and same: "mfa_encryptedSecret m' = mfa_encryptedSecret m"
    by (auto simp: mfa_evolves_def split: option.splits)
  with 1(4) 2(3) assms(6) have "secret' = secret" by simp
  with assms(2) 1(5) 2(4) have "token = code secret n" "token' = code secret n'"
    "\<bar>int n - epoch div 30\<bar> \<le> 1" "\<bar>int n' - epoch' div 30\<bar> \<le> 1"
    unfolding totp_documented_def by blast+
  with 1(1,4) 2(1) later same assms(6) show ?thesis by auto
qed


section \<open>Resetting\<close>

definition mfa_version_of :: "db \<Rightarrow> eid \<Rightarrow> nat option" where
  "mfa_version_of s i = map_option mfa_version (lookup mfa_accountId i (mfas s))"

lemma filter_key_one:
  "distinct (map key t) \<Longrightarrow> lookup key k t = Some r \<Longrightarrow> p r \<Longrightarrow> (\<And>x. p x \<Longrightarrow> key x = k) \<Longrightarrow> filter p t = [r]"
proof (induction t)
  case (Cons a t)
  show ?case
  proof (cases "key a = k")
    case True
    with Cons.prems have "a = r" "\<forall>x \<in> set t. \<not> p x" by (auto simp: image_iff)
    with Cons.prems(3) show ?thesis by simp
  next
    case False
    with Cons show ?thesis by auto
  qed
qed simp

lemma reset_exact:
  assumes "mfas_ok s" and "i \<in> account_id ` set (accounts s)"
  shows "resetConsoleMfa i v s =
    (if mfa_version_of s i = v
     then (Inr (v, case v of None \<Rightarrow> 1 | Some k \<Rightarrow> k + 1),
       s\<lparr>mfas := (case v of None \<Rightarrow> mfas s @ [new_mfa i None]
         | Some k \<Rightarrow> update_where (\<lambda>r. mfa_accountId r = i \<and> mfa_version r = k) reset_set (mfas s))\<rparr>)
     else (Inl (AppError FORBIDDEN), s))"
proof -
  from assms(2) obtain a where a: "lookup account_id i (accounts s) = Some a"
    by (metis lookup_None_iff option.exhaust)
  have d: "distinct (map mfa_accountId (mfas s))" using assms(1) by (simp add: mfas_ok_def)
  show ?thesis
  proof (cases "lookup mfa_accountId i (mfas s)")
    case None
    then have "i \<notin> mfa_accountId ` set (mfas s)" by (simp add: lookup_None_iff)
    with None a show ?thesis
      by (auto simp: resetConsoleMfa_def transaction_def lockConsoleAuthenticationFacts_def mfa_version_of_def incrementAdminMfaVersion_def)
  next
    case (Some r)
    have "filter (\<lambda>x. mfa_accountId x = i \<and> mfa_version x = mfa_version r) (mfas s) = [r]"
      using lookup_SomeD [OF Some] by (intro filter_key_one [OF d Some]) auto
    with Some a show ?thesis
      by (auto simp: resetConsoleMfa_def transaction_def lockConsoleAuthenticationFacts_def mfa_version_of_def resetAdminMfa_def
          returning_def reset_set_def)
  qed
qed

lemma reset_lookup:
  assumes "mfas_ok s" and "i \<in> account_id ` set (accounts s)" and "resetConsoleMfa i v s = (Inr x, s')"
  shows "mfa_version_of s i = v \<and> lookup mfa_accountId i (mfas s') =
      Some (case lookup mfa_accountId i (mfas s) of None \<Rightarrow> new_mfa i None | Some r \<Rightarrow> reset_set r) \<and>
    (\<forall>j. j \<noteq> i \<longrightarrow> lookup mfa_accountId j (mfas s') = lookup mfa_accountId j (mfas s))"
proof -
  have up: "lookup mfa_accountId j (update_where p reset_set t) = map_option (\<lambda>r. if p r then reset_set r else r) (lookup mfa_accountId j t)"
    for j p t by (rule lookup_update_where) (simp add: reset_set_def)
  have other: "lookup mfa_accountId j (update_where (\<lambda>r. mfa_accountId r = i \<and> q r) reset_set t) = lookup mfa_accountId j t"
    if "j \<noteq> i" for j q t
    using that by (cases "lookup mfa_accountId j t") (auto simp: up dest: lookup_SomeD)
  from assms(3) show ?thesis
    unfolding reset_exact [OF assms(1,2)]
    by (auto simp: mfa_version_of_def new_mfa_def up [of i] other split: if_splits option.splits dest: lookup_SomeD)
qed

text \<open>A reset is a claim of the version it names.\<close>

definition reset_claim :: "db \<Rightarrow> eid \<Rightarrow> nat \<Rightarrow> nat option \<times> db" where
  "reset_claim s i v = (case resetConsoleMfa i (Some v) s of (Inr (_, w), s') \<Rightarrow> (Some w, s') | (Inl _, s') \<Rightarrow> (None, s'))"

interpretation mfa_reset: versioned mfa_version_of reset_claim mfas_ok
proof
  fix s k v
  assume ok: "mfas_ok s"
  have acc: "k \<in> account_id ` set (accounts s)" if "mfa_version_of s k = Some v" for k v
    using that ok by (auto simp: mfa_version_of_def mfas_ok_def dest!: lookup_SomeD)
  show "fst (reset_claim s k v) = Some (Suc v) \<and> mfa_version_of (snd (reset_claim s k v)) k = Some (Suc v)"
    if hit: "mfa_version_of s k = Some v"
  proof -
    obtain s' where run: "resetConsoleMfa k (Some v) s = (Inr (Some v, Suc v), s')"
      using reset_exact [OF ok acc [OF hit], of "Some v"] hit by simp
    from reset_lookup [OF ok acc [OF hit] this] hit run show ?thesis
      by (auto simp: reset_claim_def mfa_version_of_def reset_set_def)
  qed
  have stay: "\<exists>e. resetConsoleMfa k (Some v) s = (Inl e, s)" if "mfa_version_of s k \<noteq> Some v" for k v
  proof (cases "k \<in> account_id ` set (accounts s)")
    case True
    with that reset_exact [OF ok True, of "Some v"] show ?thesis by simp
  next
    case False
    then have "lookup account_id k (accounts s) = None" by (simp add: lookup_None_iff)
    then show ?thesis by (simp add: resetConsoleMfa_def transaction_def lockConsoleAuthenticationFacts_def)
  qed
  show "reset_claim s k v = (None, s)" if "mfa_version_of s k \<noteq> Some v"
    using stay [OF that] by (auto simp: reset_claim_def)
  show "mfas_ok (snd (reset_claim s k v))"
  proof -
    obtain r t where "resetConsoleMfa k (Some v) s = (r, t)" by fastforce
    with reset_state [OF ok this] show ?thesis by (cases r) (auto simp: reset_claim_def)
  qed
  show "mfa_version_of (snd (reset_claim s k v)) k' = mfa_version_of s k'" if "k' \<noteq> k" for k'
  proof (cases "mfa_version_of s k = Some v")
    case True
    obtain x s' where run: "resetConsoleMfa k (Some v) s = (Inr x, s')"
      using reset_exact [OF ok acc [OF True], of "Some v"] True by simp
    from reset_lookup [OF ok acc [OF True] run] run that show ?thesis
      by (auto simp: reset_claim_def mfa_version_of_def split: prod.splits)
  next
    case False
    with stay [OF False] show ?thesis by (auto simp: reset_claim_def)
  qed
qed

text \<open>
  A reset takes effect at once and once: it succeeds only for the version it names, raises it, removes
  secret and enablement, and leaves other accounts alone; repeating it, or any other reset naming that
  version, is refused without effect; and no sign-in of the account succeeds afterwards until a new
  secret has been set up and confirmed, however old the reads of the attempt are.\<close>

theorem mfa_reset_effective:
  assumes "mfas_ok s" and "resetConsoleMfa i (Some v) s = (Inr x, s1)"
  shows "mfa_version_of s i = Some v \<and> mfa_version_of s1 i = Some (v + 1) \<and>
    (\<forall>j. j \<noteq> i \<longrightarrow> lookup mfa_accountId j (mfas s1) = lookup mfa_accountId j (mfas s)) \<and>
    resetConsoleMfa i (Some v) s1 = (Inl (AppError FORBIDDEN), s1) \<and>
    (\<forall>env seen seen2 epoch t arg idn s2.
      authenticateConsoleMfa env seen seen2 epoch t arg s1 = (Inr (Some idn), s2) \<longrightarrow> mi_id idn \<noteq> i)"
proof -
  have acc: "i \<in> account_id ` set (accounts s)"
  proof (rule ccontr)
    assume "i \<notin> account_id ` set (accounts s)"
    then have "lookup account_id i (accounts s) = None" by (simp add: lookup_None_iff)
    with assms(2) show False by (simp add: resetConsoleMfa_def lockConsoleAuthenticationFacts_def)
  qed
  note state = reset_state [OF assms] and look = reset_lookup [OF assms(1) acc assms(2)]
  from look have hit: "mfa_version_of s i = Some v" by blast
  then obtain r where r: "lookup mfa_accountId i (mfas s) = Some r" "mfa_version r = v" by (auto simp: mfa_version_of_def)
  with look have r1: "lookup mfa_accountId i (mfas s1) = Some (reset_set r)" by simp
  then have v1: "mfa_version_of s1 i = Some (v + 1)" by (simp add: mfa_version_of_def reset_set_def r(2))
  have "mi_id idn \<noteq> i" if "authenticateConsoleMfa env seen seen2 epoch t arg s1 = (Inr (Some idn), s2)" for env seen seen2 epoch t arg idn s2
  proof
    assume id: "mi_id idn = i"
    obtain e p k where "arg = (e, p, k)" by (cases arg)
    with that have "authenticateConsoleMfa env seen seen2 epoch t (e, p, k) s1 = (Inr (Some idn), s2)" by simp
    from conjunct1 [OF state] this obtain m where
      "lookup mfa_accountId (mi_id idn) (mfas s1) = Some m" "mfa_enabledAt m \<noteq> None" by (rule signin_facts)
    moreover from this(1) r1 id have "m = reset_set r" by simp
    ultimately show False by (simp add: reset_set_def)
  qed
  moreover have "resetConsoleMfa i (Some v) s1 = (Inl (AppError FORBIDDEN), s1)"
    using reset_exact [of s1 i "Some v"] state acc v1 by simp
  ultimately show ?thesis using hit v1 look by blast
qed


section \<open>Setting up\<close>

lemma setup_Inr:
  assumes "setupConsoleMfa env seen nonce g (email, password) s = (Inr (secret, v), s')"
  obtains c cand stored where "verifyPassword env seen email password = Inr (Some c)"
    and "encryptAdminMfaSecret (me_gcm env) nonce (cred_accountId c) g (me_key env) = Inr cand"
    and "credential_current c (lockConsoleAuthenticationFacts s (cred_accountId c))"
    and "ensurePendingAdminMfa s (cred_accountId c) cand = (Some stored, s')" and "truthy (mfa_encryptedSecret stored)"
    and "decryptAdminMfaSecret (me_gcm env) (cred_accountId c) (coalesce (mfa_encryptedSecret stored) []) (me_key env) = Inr secret"
    and "v = mfa_version stored"
proof -
  from assms obtain c cand where 1: "verifyPassword env seen email password = Inr (Some c)"
    "encryptAdminMfaSecret (me_gcm env) nonce (cred_accountId c) g (me_key env) = Inr cand"
    by (auto simp: setupConsoleMfa_def split: sum.splits option.splits)
  obtain q t where ens: "ensurePendingAdminMfa s (cred_accountId c) cand = (q, t)" by fastforce
  with assms 1 obtain stored where "q = Some stored" "truthy (mfa_encryptedSecret stored)" "t = s'"
    "credential_current c (lockConsoleAuthenticationFacts s (cred_accountId c))"
    "decryptAdminMfaSecret (me_gcm env) (cred_accountId c) (coalesce (mfa_encryptedSecret stored) []) (me_key env) = Inr secret"
    "v = mfa_version stored"
    by (auto simp: setupConsoleMfa_def transaction_def throw_if_def and_then_def split: sum.splits option.splits if_splits)
  with 1 ens that show thesis by blast
qed

lemma verifyPassword_frame:
  assumes "accounts s1 = accounts s" and "credentials s1 = credentials s"
  shows "verifyPassword env s1 = verifyPassword env s"
proof -
  have "findPasswordCredentialByEmail s1 = findPasswordCredentialByEmail s"
    using assms by (intro ext) (simp add: findPasswordCredentialByEmail_def split: option.split)
  then show ?thesis by (intro ext) (simp add: verifyPassword_def)
qed

lemma ensurePending_row:
  assumes "mfas_ok s" and "ensurePendingAdminMfa s i cand = (Some stored, s')"
  shows "lookup mfa_accountId i (mfas s') = Some stored \<and> mfa_enabledAt stored = None \<and>
    mfa_encryptedSecret stored \<noteq> None \<and>
    (lookup mfa_accountId i (mfas s) = None \<longrightarrow> stored = new_mfa i (Some cand))"
proof (cases "lookup mfa_accountId i (mfas s)")
  case None
  then have "i \<notin> mfa_accountId ` set (mfas s)" by (simp add: lookup_None_iff)
  with None assms(2) show ?thesis by (auto simp: ensurePendingAdminMfa_def new_mfa_def)
next
  case (Some r)
  then have "i \<in> mfa_accountId ` set (mfas s)" by (auto dest: lookup_SomeD)
  moreover have "distinct (map mfa_accountId (mfas s))" using assms(1) by (simp add: mfas_ok_def)
  moreover have "lookup mfa_accountId i (update_where p (pending_set cand) (mfas s)) =
      Some (if p r then pending_set cand r else r)" for p
    using Some by (subst lookup_update_where) (simp_all add: pending_set_def)
  ultimately show ?thesis using assms(2) Some
    by (auto simp: ensurePendingAdminMfa_def returning_key_lookup pending_set_def split: if_splits dest: lookup_SomeD)
qed

lemma ensurePending_again:
  assumes ok: "mfas_ok s" and row: "lookup mfa_accountId i (mfas s) = Some r" "mfa_enabledAt r = None" "mfa_encryptedSecret r \<noteq> None"
  shows "ensurePendingAdminMfa s i cand = (Some r, s)"
proof -
  have same: "pending_set cand r = r" using row(3) by (auto simp: pending_set_def)
  have "update_where (\<lambda>r. mfa_accountId r = i \<and> mfa_enabledAt r = None) (pending_set cand) (mfas s) = mfas s"
    unfolding update_where_def
  proof (rule map_idI)
    fix x assume "x \<in> set (mfas s)"
    then show "(if mfa_accountId x = i \<and> mfa_enabledAt x = None then pending_set cand x else x) = x"
      using mfa_unique [OF ok, of x r] lookup_SomeD [OF row(1)] same by auto
  qed
  moreover have "i \<in> mfa_accountId ` set (mfas s)" using row(1) by (auto dest: lookup_SomeD)
  moreover have "distinct (map mfa_accountId (mfas s))" using ok by (simp add: mfas_ok_def)
  ultimately show ?thesis
    using row(1,2) same by (simp add: ensurePendingAdminMfa_def returning_key_lookup)
qed

text \<open>
  Setting up can be repeated: until it is confirmed, asking again - a page reload, a second tab - returns
  the secret and version of the first time and changes nothing, whatever new secret was drawn; and an
  account without an MFA row gets the secret that was drawn for it.\<close>

theorem setup_repeatable:
  assumes "gcm_documented (me_gcm env)" and "mfas_ok s" and "length nonce = 12" and "g' \<noteq> []" and "utf8_text g = g"
    and "setupConsoleMfa env s nonce g (email, password) s = (Inr (secret, v), s1)"
  shows "setupConsoleMfa env s1 nonce' g' (email, password) s1 = (Inr (secret, v), s1) \<and>
    (\<exists>c. verifyPassword env s email password = Inr (Some c) \<and>
      (lookup mfa_accountId (cred_accountId c) (mfas s) = None \<longrightarrow> secret = g \<and> v = 1))"
proof -
  from assms(6) obtain c cand stored where c: "verifyPassword env s email password = Inr (Some c)"
    and enc: "encryptAdminMfaSecret (me_gcm env) nonce (cred_accountId c) g (me_key env) = Inr cand"
    and cur: "credential_current c (lockConsoleAuthenticationFacts s (cred_accountId c))"
    and ens: "ensurePendingAdminMfa s (cred_accountId c) cand = (Some stored, s1)" and sec: "truthy (mfa_encryptedSecret stored)"
    and dec: "decryptAdminMfaSecret (me_gcm env) (cred_accountId c) (coalesce (mfa_encryptedSecret stored) []) (me_key env) = Inr secret"
    and v: "v = mfa_version stored" by (rule setup_Inr)
  have state: "mfas_ok s1" "accounts s1 = accounts s" "credentials s1 = credentials s"
    using setup_state [OF assms(2,6)] by blast+
  note row = ensurePending_row [OF assms(2) ens]
  have pw: "verifyPassword env s1 email password = Inr (Some c)"
    using c by (simp add: verifyPassword_frame [OF state(2,3)])
  have cur1: "credential_current c (lockConsoleAuthenticationFacts s1 (cred_accountId c))"
    using cur state by (simp add: credential_current_def lockConsoleAuthenticationFacts_def)
  obtain aad where aad: "length (me_key env) = 32" "associatedData (cred_accountId c) = Some aad"
    using enc by (auto simp: encryptAdminMfaSecret_def split: if_splits option.splits)
  then obtain cand' where enc': "encryptAdminMfaSecret (me_gcm env) nonce' (cred_accountId c) g' (me_key env) = Inr cand'"
    using assms(4) by (cases "gcm_encrypt (me_gcm env) (me_key env) nonce' aad g'") (simp add: encryptAdminMfaSecret_def)
  have "ensurePendingAdminMfa s1 (cred_accountId c) cand' = (Some stored, s1)"
    using row by (intro ensurePending_again [OF state(1)]) blast+
  then have "setupConsoleMfa env s1 nonce' g' (email, password) s1 = (Inr (secret, v), s1)"
    by (simp add: setupConsoleMfa_def pw enc' cur1 sec dec v transaction_def)
  moreover have first: "secret = g \<and> v = 1" if "lookup mfa_accountId (cred_accountId c) (mfas s) = None"
  proof -
    have "stored = new_mfa (cred_accountId c) (Some cand)" using row that by blast
    then have st: "mfa_encryptedSecret stored = Some cand" "mfa_version stored = 1" by (simp_all add: new_mfa_def)
    have "decryptAdminMfaSecret (me_gcm env) (cred_accountId c) cand (me_key env) = Inr g"
      unfolding envelope_opens [OF assms(1)] using assms(3,5) enc by blast
    moreover have "decryptAdminMfaSecret (me_gcm env) (cred_accountId c) cand (me_key env) = Inr secret"
      using dec by (simp only: st(1) coalesce_simps)
    ultimately have "secret = g" by (metis sum.inject(2))
    then show ?thesis using v st(2) by (simp only: simp_thms)
  qed
  ultimately show ?thesis using c by (intro conjI exI [of _ c]) simp_all
qed

text \<open>
  Registering a credential again never creates, promotes or unlocks anybody: it succeeds only for an
  existing active administrator without a credential, without a TOTP secret and with the expected MFA
  version, with a valid password, and all it does is add that account's credential.\<close>

theorem bootstrap_only_adds_credential:
  assumes "bootstrapConsoleAdminCredential argon is_email salt now dbNow (accountId, v, email, password) s = (r, s')"
  shows "(r = Inr i \<longrightarrow> password_ok password \<and>
      (\<exists>a \<in> set (accounts s). account_id a = i \<and> account_row.account_role a = ADMIN \<and> account_row.account_status a = ACTIVE) \<and>
      i \<notin> cred_accountId ` set (credentials s) \<and> mfa_version_of s i = v \<and>
      (\<forall>m. lookup mfa_accountId i (mfas s) = Some m \<longrightarrow> mfa_encryptedSecret m = None \<and> mfa_enabledAt m = None) \<and>
      s' = s\<lparr>credentials := credentials s @ [new_credential argon salt i now dbNow (toLowerCase (trim email)) password]\<rparr>) \<and>
    (\<forall>e. r = Inl e \<longrightarrow> s' = s)"
proof (cases r)
  case (Inl e)
  with assms bootstrap_Inl show ?thesis by blast
next
  case (Inr j)
  from bootstrap_Inr [OF assms [unfolded Inr]] obtain a where a: "lookup account_id j (accounts s) = Some a"
    "account_row.account_role a = ADMIN" "account_row.account_status a = ACTIVE" "lookup cred_accountId j (credentials s) = None"
    and rest: "password_ok password" "mfa_version_of s j = v"
      "\<forall>m. lookup mfa_accountId j (mfas s) = Some m \<longrightarrow> mfa_encryptedSecret m = None \<and> mfa_enabledAt m = None"
      "s' = s\<lparr>credentials := credentials s @ [new_credential argon salt j now dbNow (toLowerCase (trim email)) password]\<rparr>"
    unfolding mfa_version_of_def by blast
  from lookup_SomeD [OF a(1)] a(2,3) have "\<exists>a \<in> set (accounts s). account_id a = j \<and> account_row.account_role a = ADMIN \<and>
      account_row.account_status a = ACTIVE" by blast
  moreover from a(4) have "j \<notin> cred_accountId ` set (credentials s)" by (simp add: lookup_None_iff)
  ultimately show ?thesis using rest Inr by auto
qed


section \<open>An administrator\<close>

definition demo_admin :: string where
  "demo_admin = ''01890000-0000-7000-8000-00000000000a''"

definition demo_credential :: credential_row where
  "demo_credential = new_credential argon2_reference ''s'' demo_admin 0 0 ''a@b.c'' ''pw''"

definition demo_nonce :: string where
  "demo_nonce = replicate 12 (CHR ''n'')"

definition demo_envelope :: string where
  "demo_envelope = ''v1'' @ ''.'' @ to_base64url demo_nonce @ ''.'' @ to_base64url (replicate 16 (CHR ''t'')) @ ''.'' @ to_base64url ''SECRET''"

definition demo_mfa_env :: mfa_env where
  "demo_mfa_env = \<lparr>me_argon = argon2_reference, me_gcm = gcm_reference,
    me_verifySync = (\<lambda>secret token epoch last.
      if secret = ''SECRET'' \<and> token = ''123456'' \<and> 0 \<le> epoch \<and> (\<forall>k \<in> set_option last. k < nat (epoch div 30))
      then TotpValid (nat (epoch div 30)) else TotpInvalid),
    me_key = demo_key\<rparr>"

definition demo_mfa_row :: "nat \<Rightarrow> mfa_row" where
  "demo_mfa_row n = \<lparr>mfa_accountId = demo_admin, mfa_encryptedSecret = Some demo_envelope, mfa_enabledAt = Some 1,
    mfa_lastUsedStep = Some n, mfa_version = 3\<rparr>"

definition demo_mfa :: "mfa_row list \<Rightarrow> db" where
  "demo_mfa rows = empty_db\<lparr>accounts := [demo_account demo_admin ADMIN], credentials := [demo_credential], mfas := rows\<rparr>"

lemma demo_mfa_tables [simp]:
  "accounts (demo_mfa rows) = [demo_account demo_admin ADMIN]" "credentials (demo_mfa rows) = [demo_credential]"
  "mfas (demo_mfa rows) = rows"
  by (simp_all add: demo_mfa_def)

lemma demo_encrypt: "encryptAdminMfaSecret gcm_reference demo_nonce demo_admin ''SECRET'' demo_key = Inr demo_envelope"
proof -
  have "associatedData demo_admin = Some ''oioi-bwg:console-mfa:v1:01890000-0000-7000-8000-00000000000a''" by code_simp
  then show ?thesis by (simp add: encryptAdminMfaSecret_def demo_key_def gcm_reference_def demo_envelope_def)
qed

lemma demo_secret: "utf8_text ''SECRET'' = ''SECRET''"
  by (rule utf8_ascii) simp

lemma demo_decrypt: "decryptAdminMfaSecret gcm_reference demo_admin demo_envelope demo_key = Inr ''SECRET''"
  unfolding envelope_opens [OF gcm_reference_documented]
  using demo_encrypt demo_secret by (intro exI [of _ demo_nonce] exI [of _ "''SECRET''"]) (simp add: demo_nonce_def)

lemma demo_envelope_some [simp]: "truthy (Some demo_envelope)"
  by (simp add: truthy_def demo_envelope_def)

lemma demo_password: "verifyPassword demo_mfa_env (demo_mfa rows) ''a@b.c'' ''pw'' = Inr (Some demo_credential)"
proof -
  have "normalizeEmail ''a@b.c'' = ''a@b.c''" by code_simp
  then show ?thesis
    by (simp add: verifyPassword_def findPasswordCredentialByEmail_def demo_credential_def new_credential_def demo_account_def
        demo_mfa_env_def argon2_reference_def startsWith_def)
qed

lemma demo_mfas_ok: "mfas_ok (demo_mfa [demo_mfa_row n])"
  by (simp add: mfas_ok_def demo_mfa_row_def mfa_check_def demo_account_def) (simp add: demo_envelope_def)

lemma demo_mfa_current: "credential_current demo_credential (lockConsoleAuthenticationFacts (demo_mfa rows) demo_admin)"
  by (simp add: credential_current_def lockConsoleAuthenticationFacts_def demo_account_def demo_credential_def new_credential_def)

lemma demo_ids [simp]:
  "cred_accountId demo_credential = demo_admin" "mfa_accountId (demo_mfa_row n) = demo_admin"
  "mfa_encryptedSecret (demo_mfa_row n) = Some demo_envelope" "mfa_enabledAt (demo_mfa_row n) = Some 1"
  by (simp_all add: demo_credential_def new_credential_def demo_mfa_row_def)

lemma demo_consume:
  "n < k \<Longrightarrow> consumeAdminMfaStep (demo_mfa [demo_mfa_row n]) (demo_mfa_row n) k t = ([3], demo_mfa [demo_mfa_row k])"
  by (simp add: consumeAdminMfaStep_def returning_def consume_pred_def step_set_def demo_mfa_row_def demo_mfa_def)

lemma demo_signin:
  assumes "n < nat (epoch div 30)"
  shows "authenticateConsoleMfa demo_mfa_env (demo_mfa [demo_mfa_row n]) (demo_mfa [demo_mfa_row n]) epoch 9
      (''a@b.c'', ''pw'', ''123456'') (demo_mfa [demo_mfa_row n]) =
    (Inr (Some \<lparr>mi_id = demo_admin, mi_mfaVersion = 3\<rparr>), demo_mfa [demo_mfa_row (nat (epoch div 30))])"
proof -
  have tok: "verifyAdminMfaTotp (me_verifySync demo_mfa_env) ''SECRET'' ''123456'' epoch (mfa_lastUsedStep (demo_mfa_row n)) =
      Inr (Some (nat (epoch div 30)))"
    using assms by (simp add: verifyAdminMfaTotp_def demo_mfa_env_def otp_format_def is_digit_def demo_mfa_row_def)
  have env: "me_gcm demo_mfa_env = gcm_reference" "me_key demo_mfa_env = demo_key" by (simp_all add: demo_mfa_env_def)
  show ?thesis unfolding authenticate_Some
    using assms
    by (simp add: consumeOtp_def demo_password findAdminMfa_def env tok transaction_def demo_mfa_current demo_decrypt demo_consume)
qed

theorem mfa_signin_sound_witness: "argon_verify argon2_reference (cred_passwordHash demo_credential) ''pw'' = Some True"
  using mfa_signin_sound [OF demo_mfas_ok demo_signin [of 1 90]] by (auto simp: demo_mfa_env_def)

lemma demo_totp_documented: "totp_documented (\<lambda>_ _. ''123456'') demo_mfa_env"
  by (auto simp: totp_documented_def demo_mfa_env_def split: if_splits)

theorem mfa_invariant_witness: "mfas_ok (demo_mfa [demo_mfa_row 3])"
proof -
  have "(mfa_step demo_mfa_env)\<^sup>*\<^sup>* (demo_mfa [demo_mfa_row 1]) (demo_mfa [demo_mfa_row 3])"
    using demo_signin [of 1 90] by (intro r_into_rtranclp mfa_signin) simp
  from mfa_invariant [OF this demo_mfas_ok] show ?thesis by blast
qed

theorem totp_not_replayed_witness:
  "\<exists>secret n n'. decryptAdminMfaSecret gcm_reference demo_admin demo_envelope demo_key = Inr secret \<and>
    n < n' \<and> \<bar>int n - 3\<bar> \<le> 1 \<and> \<bar>int n' - 5\<bar> \<le> 1"
  using totp_not_replayed [OF demo_mfas_ok demo_totp_documented demo_signin [of 1 90, simplified] rtranclp.rtrancl_refl
      demo_signin [of 3 150, simplified]]
  by (auto simp: demo_mfa_env_def lookup_def)

lemma demo_account_ids: "demo_admin \<in> account_id ` set (accounts (demo_mfa rows))"
  by (simp add: demo_account_def)

theorem mfa_reset_effective_witness:
  "\<exists>x s1. resetConsoleMfa demo_admin (Some 3) (demo_mfa [demo_mfa_row 1]) = (Inr x, s1) \<and> mfa_version_of s1 demo_admin = Some 4"
proof -
  have "mfa_version_of (demo_mfa [demo_mfa_row 1]) demo_admin = Some 3" by (simp add: mfa_version_of_def demo_mfa_row_def)
  then obtain x s1 where run: "resetConsoleMfa demo_admin (Some 3) (demo_mfa [demo_mfa_row 1]) = (Inr x, s1)"
    using reset_exact [OF demo_mfas_ok demo_account_ids, of "Some 3"] by simp
  from mfa_reset_effective [OF demo_mfas_ok run] run show ?thesis by auto
qed

lemma demo_setup:
  "\<exists>s1. setupConsoleMfa demo_mfa_env (demo_mfa []) demo_nonce ''SECRET'' (''a@b.c'', ''pw'') (demo_mfa []) = (Inr (''SECRET'', 1), s1)"
proof -
  have env: "me_gcm demo_mfa_env = gcm_reference" "me_key demo_mfa_env = demo_key" by (simp_all add: demo_mfa_env_def)
  show ?thesis
    by (simp add: setupConsoleMfa_def demo_password env demo_encrypt transaction_def demo_mfa_current ensurePendingAdminMfa_def
        new_mfa_def demo_decrypt)
qed

theorem setup_repeatable_witness:
  "\<exists>s1. setupConsoleMfa demo_mfa_env s1 demo_nonce ''OTHER'' (''a@b.c'', ''pw'') s1 = (Inr (''SECRET'', 1), s1)"
proof -
  obtain s1 where run: "setupConsoleMfa demo_mfa_env (demo_mfa []) demo_nonce ''SECRET'' (''a@b.c'', ''pw'') (demo_mfa []) = (Inr (''SECRET'', 1), s1)"
    using demo_setup by blast
  have "gcm_documented (me_gcm demo_mfa_env)" by (simp add: demo_mfa_env_def gcm_reference_documented)
  moreover have "mfas_ok (demo_mfa [])" by (simp add: mfas_ok_def)
  moreover have "length demo_nonce = 12" "''OTHER'' \<noteq> []" by (simp_all add: demo_nonce_def)
  ultimately show ?thesis using setup_repeatable [OF _ _ _ _ demo_secret run] by blast
qed

theorem bootstrap_only_adds_credential_witness:
  "snd (bootstrapConsoleAdminCredential argon2_reference (\<lambda>_. True) ''s'' 1 1 (demo_admin, Some 3, ''x@y.z'', ''Password-1'')
      (demo_mfa [demo_mfa_row 1])) = demo_mfa [demo_mfa_row 1]"
proof -
  obtain r s' where run: "bootstrapConsoleAdminCredential argon2_reference (\<lambda>_. True) ''s'' 1 1 (demo_admin, Some 3, ''x@y.z'', ''Password-1'')
      (demo_mfa [demo_mfa_row 1]) = (r, s')" by fastforce
  note safe = bootstrap_only_adds_credential [OF run]
  show ?thesis
  proof (cases r)
    case (Inr i)
    with safe [of i] show ?thesis by (auto simp: demo_account_def demo_credential_def new_credential_def)
  qed (use safe run in auto)
qed

end
