(* ===== verification/OperatorSessions.thy ===== *)
theory OperatorSessions imports Mfa begin

text \<open>
  Operator sessions (\<open>operator-auth-service.ts\<close>, \<open>operator-session-repository.ts\<close>): a device asks for a
  grant, an administrator approves its user code in the browser, the device exchanges the grant for a
  token, and the token authorises requests until it expires, is revoked, or the account changes.  SHA-256
  is the parameter \<open>sha\<close>; random device codes, tokens and indices of user-code letters are arguments.
\<close>

section \<open>Statements\<close>

definition new_session :: "eid \<Rightarrow> string \<Rightarrow> string \<Rightarrow> instant \<Rightarrow> instant \<Rightarrow> operator_session_row" where
  "new_session i deviceHash userCodeHash createdAt expiresAt =
    \<lparr>ops_id = i, ops_deviceHash = deviceHash, ops_userCodeHash = userCodeHash, ops_accountId = None,
     ops_mfaVersion = None, ops_createdAt = createdAt, ops_expiresAt = expiresAt, ops_approvedAt = None,
     ops_exchangedAt = None, ops_tokenHash = None, ops_tokenExpiresAt = None, ops_revokedAt = None\<rparr>"

definition insertOperatorSession :: "db \<Rightarrow> operator_session_row \<Rightarrow> (unit, db) use_case" where
  "insertOperatorSession s r =
    (if \<not> operator_session_check r then (Inl (DbError ''operator_session_check''), s)
     else if ops_deviceHash r \<in> ops_deviceHash ` set (operator_sessions s) \<or>
       ops_userCodeHash r \<in> ops_userCodeHash ` set (operator_sessions s) then (Inl OperatorSessionConflictError, s)
     else (Inr (), s\<lparr>operator_sessions := operator_sessions s @ [r]\<rparr>))"

definition findOperatorSessionByDevice :: "db \<Rightarrow> string \<Rightarrow> operator_session_row option" where
  "findOperatorSessionByDevice s h = lookup ops_deviceHash h (operator_sessions s)"

text \<open>
  An update of the table: the rows that come back, unless one of them violates a CHECK constraint or a
  token hash is taken, in which case the statement fails.
\<close>

definition update_sessions ::
  "(operator_session_row \<Rightarrow> bool) \<Rightarrow> (operator_session_row \<Rightarrow> operator_session_row) \<Rightarrow> db \<Rightarrow>
    (operator_session_row option, db) use_case" where
  "update_sessions p f s =
    (let t = update_where p f (operator_sessions s) in
     if \<not> list_all operator_session_check (returning p f (operator_sessions s)) then (Inl (DbError ''operator_session_check''), s)
     else if \<not> distinct (List.map_filter ops_tokenHash t) then (Inl (DbError ''operator_session_token_hash_key''), s)
     else (Inr (first_row (returning p f (operator_sessions s))), s\<lparr>operator_sessions := t\<rparr>))"

definition approve_pred :: "string \<Rightarrow> instant \<Rightarrow> operator_session_row \<Rightarrow> bool" where
  "approve_pred h now r \<longleftrightarrow> ops_userCodeHash r = h \<and> ops_approvedAt r = None \<and> now < ops_expiresAt r"

definition approve_set :: "eid \<Rightarrow> nat \<Rightarrow> instant \<Rightarrow> operator_session_row \<Rightarrow> operator_session_row" where
  "approve_set accountId mfaVersion now r =
    r\<lparr>ops_accountId := Some accountId, ops_mfaVersion := Some mfaVersion, ops_approvedAt := Some now\<rparr>"

definition approveOperatorSession ::
  "db \<Rightarrow> string \<Rightarrow> eid \<Rightarrow> nat \<Rightarrow> instant \<Rightarrow> (operator_session_row option, db) use_case" where
  "approveOperatorSession s h accountId mfaVersion now =
    update_sessions (approve_pred h now) (approve_set accountId mfaVersion now) s"

definition exchange_pred :: "string \<Rightarrow> instant \<Rightarrow> operator_session_row \<Rightarrow> bool" where
  "exchange_pred h now r \<longleftrightarrow> ops_deviceHash r = h \<and> ops_approvedAt r \<noteq> None \<and> ops_exchangedAt r = None \<and>
    ops_revokedAt r = None \<and> now < ops_expiresAt r"

definition exchange_set :: "string \<Rightarrow> instant \<Rightarrow> instant \<Rightarrow> operator_session_row \<Rightarrow> operator_session_row" where
  "exchange_set tokenHash tokenExpiresAt now r =
    r\<lparr>ops_tokenHash := Some tokenHash, ops_tokenExpiresAt := Some tokenExpiresAt, ops_exchangedAt := Some now\<rparr>"

definition exchangeOperatorSession ::
  "db \<Rightarrow> string \<Rightarrow> string \<Rightarrow> instant \<Rightarrow> instant \<Rightarrow> (operator_session_row option, db) use_case" where
  "exchangeOperatorSession s h tokenHash tokenExpiresAt now =
    update_sessions (exchange_pred h now) (exchange_set tokenHash tokenExpiresAt now) s"

definition live_token :: "string \<Rightarrow> instant \<Rightarrow> operator_session_row \<Rightarrow> bool" where
  "live_token h now r \<longleftrightarrow> ops_tokenHash r = Some h \<and> ops_revokedAt r = None \<and>
    (case ops_tokenExpiresAt r of None \<Rightarrow> False | Some e \<Rightarrow> now < e)"

definition findOperatorSessionByToken :: "db \<Rightarrow> string \<Rightarrow> instant \<Rightarrow> operator_session_row option" where
  "findOperatorSessionByToken s h now = first_row (filter (live_token h now) (operator_sessions s))"

definition revoke_pred :: "string \<Rightarrow> operator_session_row \<Rightarrow> bool" where
  "revoke_pred h r \<longleftrightarrow> ops_tokenHash r = Some h \<and> ops_revokedAt r = None"

definition revokeOperatorSession :: "db \<Rightarrow> string \<Rightarrow> instant \<Rightarrow> (operator_session_row option, db) use_case" where
  "revokeOperatorSession s h now = update_sessions (revoke_pred h) (\<lambda>r. r\<lparr>ops_revokedAt := Some now\<rparr>) s"

definition purge_pred :: "instant \<Rightarrow> operator_session_row \<Rightarrow> bool" where
  "purge_pred before r \<longleftrightarrow> ops_expiresAt r < before \<and>
    (case ops_tokenExpiresAt r of None \<Rightarrow> True | Some e \<Rightarrow> e < before)"

definition purgeOperatorSessions :: "db \<Rightarrow> instant \<Rightarrow> db" where
  "purgeOperatorSessions s before = s\<lparr>operator_sessions := delete_where (purge_pred before) (operator_sessions s)\<rparr>"

section \<open>Services\<close>

definition currentAccount :: "db \<Rightarrow> eid \<Rightarrow> nat \<Rightarrow> failure + console_facts" where
  "currentAccount s accountId mfaVersion =
    (case findConsoleAuthorizationFacts s accountId of
       None \<Rightarrow> Inl (AppError UNAUTHENTICATED)
     | Some f \<Rightarrow>
         (if cf_status f \<noteq> ACTIVE \<or> cf_role f \<noteq> ADMIN \<or> cf_enabledAt f = None \<or> cf_version f \<noteq> mfaVersion
          then Inl (AppError UNAUTHENTICATED) else Inr f))"

record device_grant =
  dg_deviceCode :: string
  dg_userCode :: string
  dg_expiresAt :: instant
  dg_intervalSeconds :: nat

definition user_code_alphabet :: string where
  "user_code_alphabet = ''ABCDEFGHJKMNPQRSTUVWXYZ23456789''"

definition user_code :: "nat list \<Rightarrow> string" where
  "user_code draws = (let code = map (\<lambda>n. user_code_alphabet ! n) draws in take 4 code @ ''-'' @ drop 4 code)"

text \<open>The three attempts, one per draw: new identifier, device code, letters of the user code.\<close>

fun grant_attempts ::
  "(string \<Rightarrow> string) \<Rightarrow> instant \<Rightarrow> (eid \<times> string \<times> nat list) list \<Rightarrow> db \<Rightarrow> (device_grant, db) use_case" where
  "grant_attempts sha now [] s = (Inl (Error ''Operator grant allocation failed''), s)"
| "grant_attempts sha now ((i, deviceCode, draws) # rest) s =
    (case insertOperatorSession s (new_session i (sha deviceCode) (sha (user_code draws)) now (now + 600000)) of
       (Inr _, s1) \<Rightarrow> (Inr \<lparr>dg_deviceCode = deviceCode, dg_userCode = user_code draws, dg_expiresAt = now + 600000,
          dg_intervalSeconds = 5\<rparr>, s1)
     | (Inl e, s1) \<Rightarrow> (if e = OperatorSessionConflictError then grant_attempts sha now rest s1 else (Inl e, s1)))"

definition createOperatorGrant ::
  "(string \<Rightarrow> string) \<Rightarrow> instant \<Rightarrow> (eid \<times> string \<times> nat list) list \<Rightarrow> db \<Rightarrow> (device_grant, db) use_case" where
  "createOperatorGrant sha now draws s =
    grant_attempts sha now (take 3 draws) (purgeOperatorSessions s (now - 86400000))"

text \<open>The account is checked on the state \<open>seen\<close>, the session is updated later.\<close>

definition approveOperatorGrant ::
  "(string \<Rightarrow> string) \<Rightarrow> db \<Rightarrow> request_context \<Rightarrow> nat \<Rightarrow> string \<Rightarrow> instant \<Rightarrow> db \<Rightarrow> (unit, db) use_case" where
  "approveOperatorGrant sha seen ctx expectedMfaVersion userCode now s =
    as_admin ctx (\<lambda>user s. case currentAccount seen user expectedMfaVersion of
        Inl e \<Rightarrow> (Inl e, s)
      | Inr _ \<Rightarrow> and_then (approveOperatorSession s (sha userCode) user expectedMfaVersion now) (\<lambda>row s1.
          (if row = None then fail UNAUTHENTICATED s1 else (Inr (), s1)))) s"

datatype exchange_result = PendingGrant | Authorized string instant

definition exchangeOperatorGrant ::
  "(string \<Rightarrow> string) \<Rightarrow> db \<Rightarrow> db \<Rightarrow> string \<Rightarrow> instant \<Rightarrow> string \<Rightarrow> db \<Rightarrow> (exchange_result, db) use_case" where
  "exchangeOperatorGrant sha seen seen2 randomHex now deviceCode s =
    (case findOperatorSessionByDevice seen (sha deviceCode) of
       None \<Rightarrow> fail UNAUTHENTICATED s
     | Some row \<Rightarrow>
         (if ops_expiresAt row \<le> now \<or> ops_exchangedAt row \<noteq> None \<or> ops_revokedAt row \<noteq> None then fail UNAUTHENTICATED s
          else if \<not> truthy (ops_accountId row) \<or> coalesce (ops_mfaVersion row) 0 = 0 then (Inr PendingGrant, s)
          else (case currentAccount seen2 (coalesce (ops_accountId row) []) (coalesce (ops_mfaVersion row) 0) of
            Inl e \<Rightarrow> (Inl e, s)
          | Inr _ \<Rightarrow>
              (let accessToken = ''oioi_'' @ randomHex; expiresAt = now + 28800000 in
               and_then (exchangeOperatorSession s (sha deviceCode) (sha accessToken) expiresAt now) (\<lambda>claimed s1.
                 (if claimed = None then fail UNAUTHENTICATED s1 else (Inr (Authorized accessToken expiresAt), s1)))))))"

text \<open>\<open>^oioi_[a-f0-9]{64}$\<close>.\<close>

definition token_format :: "string \<Rightarrow> bool" where
  "token_format t \<longleftrightarrow> take 5 t = ''oioi_'' \<and> is_sha256_hex (drop 5 t)"

definition authorizeOperatorToken ::
  "(string \<Rightarrow> string) \<Rightarrow> casl \<Rightarrow> db \<Rightarrow> db \<Rightarrow> string \<Rightarrow> instant \<Rightarrow> failure + (request_context \<times> eid \<times> instant)" where
  "authorizeOperatorToken sha compile seen s accessToken now =
    (if \<not> token_format accessToken then Inl (AppError UNAUTHENTICATED)
     else (case findOperatorSessionByToken seen (sha accessToken) now of
       None \<Rightarrow> Inl (AppError UNAUTHENTICATED)
     | Some row \<Rightarrow>
         (if \<not> truthy (ops_accountId row) \<or> coalesce (ops_mfaVersion row) 0 = 0 \<or> ops_tokenExpiresAt row = None
          then Inl (AppError UNAUTHENTICATED)
          else (case currentAccount s (coalesce (ops_accountId row) []) (coalesce (ops_mfaVersion row) 0) of
            Inl e \<Rightarrow> Inl e
          | Inr f \<Rightarrow> Inr (\<lparr>ctx_user = Some (cf_id f),
              ctx_ability = buildAbility compile \<lparr>facts_accountId = Some (cf_id f), facts_role = Some (cf_role f)\<rparr>\<rparr>,
              cf_id f, coalesce (ops_tokenExpiresAt row) 0)))))"

definition revokeOperatorToken ::
  "(string \<Rightarrow> string) \<Rightarrow> casl \<Rightarrow> db \<Rightarrow> db \<Rightarrow> string \<Rightarrow> instant \<Rightarrow> db \<Rightarrow> (unit, db) use_case" where
  "revokeOperatorToken sha compile seen seen2 accessToken now s =
    (case authorizeOperatorToken sha compile seen seen2 accessToken now of
       Inl e \<Rightarrow> (Inl e, s)
     | Inr _ \<Rightarrow> and_then (revokeOperatorSession s (sha accessToken) now) (\<lambda>_ s1. (Inr (), s1)))"


section \<open>The table\<close>

definition session_evolves :: "operator_session_row \<Rightarrow> operator_session_row \<Rightarrow> bool" where
  "session_evolves r r' \<longleftrightarrow> ops_id r' = ops_id r \<and> ops_deviceHash r' = ops_deviceHash r \<and>
    ops_userCodeHash r' = ops_userCodeHash r \<and> ops_createdAt r' = ops_createdAt r \<and> ops_expiresAt r' = ops_expiresAt r \<and>
    (ops_approvedAt r \<noteq> None \<longrightarrow> ops_approvedAt r' = ops_approvedAt r \<and> ops_accountId r' = ops_accountId r \<and>
      ops_mfaVersion r' = ops_mfaVersion r) \<and>
    (ops_exchangedAt r \<noteq> None \<longrightarrow> ops_exchangedAt r' = ops_exchangedAt r \<and> ops_tokenHash r' = ops_tokenHash r \<and>
      ops_tokenExpiresAt r' = ops_tokenExpiresAt r) \<and>
    (ops_revokedAt r \<noteq> None \<longrightarrow> ops_revokedAt r' = ops_revokedAt r)"

lemma session_evolves_refl [simp]: "session_evolves r r"
  by (simp add: session_evolves_def)

lemma session_evolves_trans: "session_evolves a b \<Longrightarrow> session_evolves b c \<Longrightarrow> session_evolves a c"
  unfolding session_evolves_def by metis

text \<open>The state of a run: the database and the identifiers drawn so far.\<close>

type_synonym session_run = "db \<times> eid set"

definition sessions_ok :: "session_run \<Rightarrow> bool" where
  "sessions_ok = (\<lambda>(s, used). ops_id ` set (operator_sessions s) \<subseteq> used \<and> distinct (map ops_id (operator_sessions s)) \<and>
    distinct (map ops_deviceHash (operator_sessions s)) \<and> distinct (map ops_userCodeHash (operator_sessions s)) \<and>
    distinct (List.map_filter ops_tokenHash (operator_sessions s)) \<and>
    (\<forall>r \<in> set (operator_sessions s). operator_session_check r))"

definition sessions_evolve :: "session_run \<Rightarrow> session_run \<Rightarrow> bool" where
  "sessions_evolve = (\<lambda>(s, used) (s', used'). used \<subseteq> used' \<and>
    (\<forall>r' \<in> set (operator_sessions s'). ops_id r' \<in> used \<longrightarrow>
      (\<exists>r \<in> set (operator_sessions s). session_evolves r r')))"

lemma sessions_evolve_same: "operator_sessions s' = operator_sessions s \<Longrightarrow> sessions_evolve (s, u) (s', u)"
  by (auto simp: sessions_evolve_def intro: session_evolves_refl)

lemma sessions_evolve_trans:
  assumes "sessions_evolve x y" and "sessions_evolve y z"
  shows "sessions_evolve x z"
proof -
  obtain s u t v w q where xyz: "x = (s, u)" "y = (t, v)" "z = (w, q)" by (metis prod.collapse)
  have "\<exists>r \<in> set (operator_sessions s). session_evolves r r'" if r': "r' \<in> set (operator_sessions w)" "ops_id r' \<in> u" for r'
  proof -
    from assms xyz have "u \<subseteq> v" by (simp add: sessions_evolve_def)
    with assms(2) xyz r' obtain m where m: "m \<in> set (operator_sessions t)" "session_evolves m r'"
      by (auto simp: sessions_evolve_def)
    then have "ops_id m \<in> u" using r'(2) by (simp add: session_evolves_def)
    with assms(1) xyz m(1) obtain r where "r \<in> set (operator_sessions s)" "session_evolves r m"
      by (auto simp: sessions_evolve_def)
    with m(2) show ?thesis by (blast intro: session_evolves_trans)
  qed
  with assms xyz show ?thesis by (auto simp: sessions_evolve_def)
qed

lemma sessions_ok_same: "operator_sessions s' = operator_sessions s \<Longrightarrow> sessions_ok (s', u) = sessions_ok (s, u)"
  by (simp add: sessions_ok_def)

lemma update_sessions_Inl: "update_sessions p f s = (Inl e, s') \<Longrightarrow> s' = s"
  by (auto simp: update_sessions_def Let_def split: if_splits)

lemma update_sessions_Inr:
  "update_sessions p f s = (Inr x, s') \<longleftrightarrow>
    list_all operator_session_check (returning p f (operator_sessions s)) \<and>
    distinct (List.map_filter ops_tokenHash (update_where p f (operator_sessions s))) \<and>
    x = first_row (returning p f (operator_sessions s)) \<and> s' = s\<lparr>operator_sessions := update_where p f (operator_sessions s)\<rparr>"
  by (auto simp: update_sessions_def Let_def)

lemma update_sessions_ok:
  assumes ok: "sessions_ok (s, u)" and run: "update_sessions p f s = (r, s')"
    and step: "\<And>r. p r \<Longrightarrow> session_evolves r (f r)"
  shows "sessions_ok (s', u) \<and> sessions_evolve (s, u) (s', u)"
proof (cases r)
  case (Inl e)
  with run have "s' = s" by (auto dest: update_sessions_Inl)
  with ok show ?thesis by (simp add: sessions_evolve_same)
next
  case (Inr x)
  with run have t: "operator_sessions s' = update_where p f (operator_sessions s)"
    and chk: "list_all operator_session_check (returning p f (operator_sessions s))"
    and tok: "distinct (List.map_filter ops_tokenHash (update_where p f (operator_sessions s)))"
    by (auto simp: update_sessions_Inr)
  have keys: "map ops_id (operator_sessions s') = map ops_id (operator_sessions s)"
    "map ops_deviceHash (operator_sessions s') = map ops_deviceHash (operator_sessions s)"
    "map ops_userCodeHash (operator_sessions s') = map ops_userCodeHash (operator_sessions s)"
    unfolding t using step by (auto simp: session_evolves_def intro!: map_key_update_where_on)
  then have "ops_id ` set (operator_sessions s') = ops_id ` set (operator_sessions s)" by (metis set_map)
  moreover have "operator_session_check q" if "q \<in> set (operator_sessions s')" for q
    using that ok chk by (auto simp: t set_update_where sessions_ok_def returning_def list_all_iff)
  ultimately have "sessions_ok (s', u)" using ok keys tok by (simp add: sessions_ok_def t)
  moreover have "sessions_evolve (s, u) (s', u)"
    using step by (auto simp: sessions_evolve_def t set_update_where intro: session_evolves_refl split: if_splits)
  ultimately show ?thesis ..
qed

lemma map_filter_sublist: "distinct (List.map_filter g xs) \<Longrightarrow> distinct (List.map_filter g (filter q xs))"
proof (induction xs)
  case Nil
  then show ?case by (simp add: List.map_filter_simps)
next
  case (Cons a xs)
  have "set (List.map_filter g (filter q xs)) \<subseteq> set (List.map_filter g xs)" by (auto simp: List.map_filter_def)
  with Cons show ?case by (auto simp: List.map_filter_simps split: option.splits)
qed

lemma purge_ok:
  assumes "sessions_ok (s, u)"
  shows "sessions_ok (purgeOperatorSessions s b, u) \<and> sessions_evolve (s, u) (purgeOperatorSessions s b, u)"
proof -
  have "set (delete_where (purge_pred b) (operator_sessions s)) \<subseteq> set (operator_sessions s)"
    by (auto simp: set_delete_where)
  moreover have "distinct (List.map_filter ops_tokenHash (delete_where (purge_pred b) (operator_sessions s)))"
    using assms by (simp add: sessions_ok_def delete_where_def map_filter_sublist)
  ultimately show ?thesis using assms
    by (auto simp: sessions_ok_def sessions_evolve_def purgeOperatorSessions_def distinct_delete_where intro: session_evolves_refl)
qed

lemma insert_Inl: "insertOperatorSession s r = (Inl e, s') \<Longrightarrow> s' = s"
  by (auto simp: insertOperatorSession_def split: if_splits)

lemma insert_Inr:
  "insertOperatorSession s r = (Inr x, s') \<longleftrightarrow> operator_session_check r \<and>
    ops_deviceHash r \<notin> ops_deviceHash ` set (operator_sessions s) \<and>
    ops_userCodeHash r \<notin> ops_userCodeHash ` set (operator_sessions s) \<and>
    s' = s\<lparr>operator_sessions := operator_sessions s @ [r]\<rparr>"
  by (auto simp: insertOperatorSession_def)

lemma insert_ok:
  assumes "sessions_ok (s, u)" and "insertOperatorSession s r = (x, s')" and "ops_id r \<notin> u" and "ops_tokenHash r = None"
    and "ops_id r \<in> u'" and "u \<subseteq> u'"
  shows "sessions_ok (s', u') \<and> sessions_evolve (s, u) (s', u')"
proof (cases x)
  case (Inl e)
  with assms(2) insert_Inl have "s' = s" by blast
  with assms(1,6) show ?thesis by (auto simp: sessions_ok_def sessions_evolve_def intro: session_evolves_refl)
next
  case (Inr y)
  with assms(2) have new: "operator_session_check r" "ops_deviceHash r \<notin> ops_deviceHash ` set (operator_sessions s)"
    "ops_userCodeHash r \<notin> ops_userCodeHash ` set (operator_sessions s)"
    "operator_sessions s' = operator_sessions s @ [r]" by (auto simp: insert_Inr)
  have "ops_id r \<notin> ops_id ` set (operator_sessions s)" using assms(1,3) by (auto simp: sessions_ok_def)
  moreover have "List.map_filter ops_tokenHash (operator_sessions s @ [r]) = List.map_filter ops_tokenHash (operator_sessions s)"
    using assms(4) by (simp add: List.map_filter_def)
  ultimately have "sessions_ok (s', u')" using assms(1,5,6) new by (auto simp: sessions_ok_def)
  moreover have "sessions_evolve (s, u) (s', u')"
    using assms(3,6) new(4) by (auto simp: sessions_evolve_def intro: session_evolves_refl)
  ultimately show ?thesis ..
qed


lemma approve_ok:
  "sessions_ok (s, u) \<Longrightarrow> approveOperatorSession s h i v now = (r, s') \<Longrightarrow> sessions_ok (s', u) \<and> sessions_evolve (s, u) (s', u)"
  unfolding approveOperatorSession_def
  by (erule (1) update_sessions_ok) (auto simp: approve_pred_def approve_set_def session_evolves_def)

lemma exchange_ok:
  "sessions_ok (s, u) \<Longrightarrow> exchangeOperatorSession s h th e now = (r, s') \<Longrightarrow> sessions_ok (s', u) \<and> sessions_evolve (s, u) (s', u)"
  unfolding exchangeOperatorSession_def
  by (erule (1) update_sessions_ok) (auto simp: exchange_pred_def exchange_set_def session_evolves_def)

lemma revoke_ok:
  "sessions_ok (s, u) \<Longrightarrow> revokeOperatorSession s h now = (r, s') \<Longrightarrow> sessions_ok (s', u) \<and> sessions_evolve (s, u) (s', u)"
  unfolding revokeOperatorSession_def
  by (erule (1) update_sessions_ok) (auto simp: revoke_pred_def session_evolves_def)

lemma new_session_fields [simp]:
  "ops_id (new_session i d c t e) = i" "ops_deviceHash (new_session i d c t e) = d"
  "ops_userCodeHash (new_session i d c t e) = c" "ops_accountId (new_session i d c t e) = None"
  "ops_mfaVersion (new_session i d c t e) = None" "ops_createdAt (new_session i d c t e) = t"
  "ops_expiresAt (new_session i d c t e) = e" "ops_approvedAt (new_session i d c t e) = None"
  "ops_exchangedAt (new_session i d c t e) = None" "ops_tokenHash (new_session i d c t e) = None"
  "ops_tokenExpiresAt (new_session i d c t e) = None" "ops_revokedAt (new_session i d c t e) = None"
  by (simp_all add: new_session_def)

lemma sessions_ok_more: "sessions_ok (s, u) \<Longrightarrow> u \<subseteq> u' \<Longrightarrow> sessions_ok (s, u')"
  by (auto simp: sessions_ok_def)

lemma grant_attempts_ok:
  assumes "sessions_ok (s, u)" and "grant_attempts sha now draws s = (r, s')"
    and "fst ` set draws \<inter> u = {}" and "distinct (map fst draws)"
  shows "sessions_ok (s', u \<union> fst ` set draws) \<and> sessions_evolve (s, u) (s', u \<union> fst ` set draws)"
  using assms
proof (induction draws arbitrary: s)
  case Nil
  then show ?case by (auto simp: sessions_evolve_same)
next
  case (Cons d draws)
  obtain i dev ls where d: "d = (i, dev, ls)" by (cases d)
  obtain x s1 where ins: "insertOperatorSession s (new_session i (sha dev) (sha (user_code ls)) now (now + 600000)) = (x, s1)"
    by fastforce
  show ?case
  proof (cases "\<exists>e. x = Inl e \<and> e = OperatorSessionConflictError")
    case True
    with insert_Inl ins have "s1 = s" by blast
    with True Cons.prems(2) d ins have run: "grant_attempts sha now draws s = (r, s')" by auto
    have "sessions_ok (s', u \<union> fst ` set draws) \<and> sessions_evolve (s, u) (s', u \<union> fst ` set draws)"
      using Cons.prems by (intro Cons.IH run) auto
    moreover have "i \<notin> u \<union> fst ` set draws" using Cons.prems(3,4) d by auto
    ultimately show ?thesis
      using sessions_ok_more [of s' "u \<union> fst ` set draws" "u \<union> fst ` set (d # draws)"] by (auto simp: sessions_evolve_def)
  next
    case False
    with Cons.prems(2) d ins have "s1 = s'" by (auto split: sum.splits if_splits)
    moreover have "i \<notin> u" using Cons.prems(3) d by auto
    ultimately show ?thesis
      using insert_ok [OF Cons.prems(1) ins, of "u \<union> fst ` set (d # draws)"] d by auto
  qed
qed

lemma create_ok:
  assumes "sessions_ok (s, u)" and "createOperatorGrant sha now draws s = (r, s')"
    and "fst ` set draws \<inter> u = {}" and "distinct (map fst draws)"
  shows "sessions_ok (s', u \<union> fst ` set draws) \<and> sessions_evolve (s, u) (s', u \<union> fst ` set draws)"
proof -
  let ?p = "purgeOperatorSessions s (now - 86400000)" and ?v = "u \<union> fst ` set (take 3 draws)"
  have sub: "set (take 3 draws) \<subseteq> set draws" by (rule set_take_subset)
  have p: "sessions_ok (?p, u)" "sessions_evolve (s, u) (?p, u)" using purge_ok [OF assms(1)] by blast+
  have "sessions_ok (s', ?v) \<and> sessions_evolve (?p, u) (s', ?v)"
    using assms(2-4) sub by (intro grant_attempts_ok [OF p(1)]) (auto simp: createOperatorGrant_def take_map [symmetric])
  then have "sessions_ok (s', ?v)" "sessions_evolve (s, u) (s', ?v)"
    using p(2) by (blast intro: sessions_evolve_trans)+
  moreover have "?v \<subseteq> u \<union> fst ` set draws" using sub by auto
  ultimately show ?thesis using sessions_ok_more [of s' ?v] by (auto simp: sessions_evolve_def)
qed

lemma approveGrant_state:
  assumes "approveOperatorGrant sha seen ctx v code now s = (r, s')"
  shows "s' = s \<or> (\<exists>q user. approveOperatorSession s (sha code) user v now = (q, s'))"
  using assms
  by (auto simp: approveOperatorGrant_def as_admin_def and_then_def split: sum.splits prod.splits if_splits)

lemma exchangeGrant_state:
  assumes "exchangeOperatorGrant sha seen seen2 rnd now code s = (r, s')"
  shows "s' = s \<or> (\<exists>q. exchangeOperatorSession s (sha code) (sha (''oioi_'' @ rnd)) (now + 28800000) now = (q, s'))"
  using assms
  by (auto simp: exchangeOperatorGrant_def Let_def and_then_def split: option.splits sum.splits prod.splits if_splits)

lemma revokeToken_state:
  assumes "revokeOperatorToken sha compile seen seen2 tok now s = (r, s')"
  shows "s' = s \<or> (\<exists>q. revokeOperatorSession s (sha tok) now = (q, s'))"
  using assms by (auto simp: revokeOperatorToken_def and_then_def split: sum.splits prod.splits)

section \<open>Runs\<close>

text \<open>
  The operator requests, interleaved with everything that changes accounts and their MFA.  New sessions
  carry identifiers that were never drawn before.
\<close>

inductive operator_step :: "(string \<Rightarrow> string) \<Rightarrow> casl \<Rightarrow> mfa_env \<Rightarrow> session_run \<Rightarrow> session_run \<Rightarrow> bool" for sha compile env where
  op_create: "createOperatorGrant sha now draws s = (r1, s') \<Longrightarrow> fst ` set draws \<inter> used = {} \<Longrightarrow> distinct (map fst draws) \<Longrightarrow>
    operator_step sha compile env (s, used) (s', used \<union> fst ` set draws)"
| op_approve: "approveOperatorGrant sha seen ctx v code now s = (r2, s') \<Longrightarrow> operator_step sha compile env (s, used) (s', used)"
| op_exchange: "exchangeOperatorGrant sha seen seen2 rnd now code s = (r3, s') \<Longrightarrow> operator_step sha compile env (s, used) (s', used)"
| op_revoke: "revokeOperatorToken sha compile seen seen2 tok now s = (r4, s') \<Longrightarrow> operator_step sha compile env (s, used) (s', used)"
| op_account: "mfa_step env s s' \<Longrightarrow> operator_step sha compile env (s, used) (s', used)"

lemma op_sessions_frame:
  "transaction f s = (r, s') \<Longrightarrow> (\<And>a t. f s = (Inr a, t) \<Longrightarrow> operator_sessions t = operator_sessions s) \<Longrightarrow>
    operator_sessions s' = operator_sessions s"
  by (cases r) (auto dest: transaction_Inl)


lemma consumeOtp_sessions:
  assumes "consumeOtp env seen seen2 epoch t v arg s = (r, s')"
  shows "operator_sessions s' = operator_sessions s"
proof (cases r)
  case (Inl e)
  with assms consumeOtp_Inl show ?thesis by blast
next
  case (Inr idn)
  obtain em pw tok where "arg = (em, pw, tok)" by (cases arg)
  with assms Inr obtain m n where "consumeAdminMfaStep s m n t = ([mi_mfaVersion idn], s')"
    by (metis consumeOtp_Inr)
  then show ?thesis by (auto simp: consumeAdminMfaStep_def)
qed

lemma mfa_step_sessions:
  assumes "mfa_step env s s'"
  shows "operator_sessions s' = operator_sessions s"
  using assms
proof cases
  case (mfa_setup seen nonce g a1 r1)
  obtain em pw where "a1 = (em, pw)" by (cases a1)
  with mfa_setup show ?thesis
    by (auto simp: setupConsoleMfa_def and_then_def ensurePendingAdminMfa_def transaction_def throw_if_def
        split: sum.splits option.splits prod.splits if_splits)
next
  case mfa_confirm
  from confirm_state [OF this] consumeOtp_sessions show ?thesis by metis
next
  case mfa_signin
  from authenticate_state [OF this] consumeOtp_sessions show ?thesis by metis
next
  case mfa_reset
  then show ?thesis unfolding resetConsoleMfa_def
    by (rule op_sessions_frame)
      (auto simp: resetAdminMfa_def incrementAdminMfaVersion_def guard_simps split: prod.splits option.splits if_splits list.splits)
next
  case mfa_access
  then show ?thesis unfolding changeConsoleAccountAccess_def
    by (rule op_sessions_frame)
      (auto simp: updateAccountAccess_def incrementAdminMfaVersion_def guard_simps split: prod.splits option.splits if_splits list.splits)
next
  case (mfa_bootstrap is_email salt now dbNow a6 r6)
  show ?thesis
  proof (cases r6)
    case (Inl e)
    with mfa_bootstrap bootstrap_Inl show ?thesis by blast
  next
    case (Inr i)
    obtain a v e p where "a6 = (a, v, e, p)" by (cases a6)
    with bootstrap_Inr mfa_bootstrap Inr show ?thesis by fastforce
  qed
next
  case (mfa_signup salt newId now dbNow a7 r7)
  show ?thesis
  proof (cases r7)
    case (Inl e)
    with mfa_signup completeSignup_Inl show ?thesis by blast
  next
    case (Inr a)
    obtain i p n where "a7 = (i, p, n)" by (cases a7)
    with mfa_signup Inr have "completeSignup (me_argon env) salt newId now dbNow (i, p, n) s = (Inr a, s')" by simp
    then show ?thesis by (rule completeSignup_Inr) auto
  qed
qed

lemma operator_step_ok:
  assumes "operator_step sha compile env x y" and "sessions_ok x"
  shows "sessions_ok y \<and> sessions_evolve x y"
  using assms
proof cases
  case (op_create now draws s r s' used)
  with assms(2) create_ok show ?thesis by blast
next
  case (op_approve seen ctx v code now s r s' used)
  with approveGrant_state [OF op_approve(3)] approve_ok assms(2) show ?thesis by (metis sessions_evolve_same)
next
  case (op_exchange seen seen2 rnd now code s r s' used)
  with exchangeGrant_state [OF op_exchange(3)] exchange_ok assms(2) show ?thesis by (metis sessions_evolve_same)
next
  case (op_revoke seen seen2 tok now s r s' used)
  with revokeToken_state [OF op_revoke(3)] revoke_ok assms(2) show ?thesis by (metis sessions_evolve_same)
next
  case (op_account s s' used)
  with mfa_step_sessions assms(2) show ?thesis by (metis sessions_ok_same sessions_evolve_same)
qed

text \<open>
  Along any sequence of grants, approvals, exchanges, revocations, purges, MFA requests and account
  changes, with reads as stale as they like: no two sessions share a device code, a user code or a
  token; every session satisfies its constraints; and what happened to a session stays - an approver is
  never replaced, an issued token never changes, a revocation is never taken back.\<close>

theorem operator_invariant:
  assumes "(operator_step sha compile env)\<^sup>*\<^sup>* x y" and "sessions_ok x"
  shows "sessions_ok y \<and> sessions_evolve x y"
  using assms
proof (induction rule: rtranclp_induct)
  case base
  then show ?case by (cases x) (simp add: sessions_evolve_same)
next
  case (step t u)
  with operator_step_ok [of sha compile env t u] show ?case by (blast intro: sessions_evolve_trans)
qed

lemma operator_step_mfas:
  assumes "operator_step sha compile env x y" and "mfas_ok (fst x)"
  shows "mfas_ok (fst y) \<and> mfas_evolve (fst x) (fst y)"
proof -
  have same: ?thesis if "mfas (fst y) = mfas (fst x)" "accounts (fst y) = accounts (fst x)"
    using that assms(2) by (simp add: mfas_ok_def mfas_evolve_same)
  have upd: "mfas s' = mfas s \<and> accounts s' = accounts s" if "update_sessions p f s = (q, s')" for p f s s' and q :: "failure + operator_session_row option"
    using that by (auto simp: update_sessions_def Let_def split: if_splits)
  from assms(1) show ?thesis
  proof cases
    case (op_create now draws s r s' used)
    have "mfas t' = mfas t \<and> accounts t' = accounts t" if "grant_attempts sha now ds t = (r, t')" for ds t t'
      using that
    proof (induction ds arbitrary: t)
      case Nil
      then show ?case by simp
    next
      case (Cons d ds)
      obtain i dev ls where d: "d = (i, dev, ls)" by (cases d)
      obtain x s1 where ins: "insertOperatorSession t (new_session i (sha dev) (sha (user_code ls)) now (now + 600000)) = (x, s1)"
        by fastforce
      then have "mfas s1 = mfas t \<and> accounts s1 = accounts t" by (auto simp: insertOperatorSession_def split: if_splits)
      with Cons ins d show ?case by (auto split: sum.splits if_splits)
    qed
    with op_create have "mfas s' = mfas s \<and> accounts s' = accounts s"
      by (fastforce simp: createOperatorGrant_def purgeOperatorSessions_def)
    with op_create same show ?thesis by simp
  next
    case (op_approve seen ctx v code now s r s' used)
    from approveGrant_state [OF op_approve(3)] upd have "mfas s' = mfas s \<and> accounts s' = accounts s"
      unfolding approveOperatorSession_def by metis
    with op_approve same show ?thesis by simp
  next
    case (op_exchange seen seen2 rnd now code s r s' used)
    from exchangeGrant_state [OF op_exchange(3)] upd have "mfas s' = mfas s \<and> accounts s' = accounts s"
      unfolding exchangeOperatorSession_def by metis
    with op_exchange same show ?thesis by simp
  next
    case (op_revoke seen seen2 tok now s r s' used)
    from revokeToken_state [OF op_revoke(3)] upd have "mfas s' = mfas s \<and> accounts s' = accounts s"
      unfolding revokeOperatorSession_def by metis
    with op_revoke same show ?thesis by simp
  next
    case (op_account s s' used)
    with mfa_step_ok [OF op_account(3)] assms(2) show ?thesis by simp
  qed
qed

lemma operator_run_mfas:
  assumes "(operator_step sha compile env)\<^sup>*\<^sup>* x y" and "mfas_ok (fst x)"
  shows "mfas_ok (fst y) \<and> mfas_evolve (fst x) (fst y)"
  using assms
proof (induction rule: rtranclp_induct)
  case base
  then show ?case by (simp add: mfas_evolve_same)
next
  case (step t u)
  with operator_step_mfas [of sha compile env t u] show ?case by (blast intro: mfas_evolve_trans)
qed


section \<open>Tokens\<close>

lemma map_filter_unique:
  "distinct (List.map_filter g xs) \<Longrightarrow> a \<in> set xs \<Longrightarrow> b \<in> set xs \<Longrightarrow> g a = Some h \<Longrightarrow> g b = Some h \<Longrightarrow> a = b"
proof (induction xs)
  case Nil
  then show ?case by simp
next
  case (Cons x xs)
  have "g y \<noteq> Some h" if "g x = Some h" "y \<in> set xs" for y
    using Cons.prems(1) that by (force simp: List.map_filter_def)
  with Cons show ?case by (auto simp: List.map_filter_simps split: option.splits)
qed

lemma first_row_filter_unique:
  assumes "\<And>a b. a \<in> set t \<Longrightarrow> b \<in> set t \<Longrightarrow> p a \<Longrightarrow> p b \<Longrightarrow> a = b"
  shows "first_row (filter p t) = Some r \<longleftrightarrow> r \<in> set t \<and> p r"
  using assms
proof (induction t)
  case Nil
  then show ?case by simp
next
  case (Cons x t)
  have "first_row (filter p t) = Some r \<longleftrightarrow> r \<in> set t \<and> p r" using Cons.prems by (intro Cons.IH) auto
  with Cons.prems [of x r] show ?case by auto
qed

lemma find_by_token:
  "sessions_ok (s, u) \<Longrightarrow> findOperatorSessionByToken s h now = Some r \<longleftrightarrow> r \<in> set (operator_sessions s) \<and> live_token h now r"
  unfolding findOperatorSessionByToken_def
  by (rule first_row_filter_unique) (auto simp: sessions_ok_def live_token_def intro: map_filter_unique)

lemma token_row:
  assumes "operator_session_check r" and "ops_tokenHash r = Some h"
  shows "\<exists>i v e. ops_accountId r = Some i \<and> ops_mfaVersion r = Some v \<and> 0 < v \<and> ops_tokenExpiresAt r = Some e"
  using assms
  by (auto simp: operator_session_check_def ops_exchange_check_def ops_approval_check_def split: option.splits)

text \<open>An account that may act: active, administrator, MFA enabled, at the expected version.\<close>

definition acts_under :: "db \<Rightarrow> eid \<Rightarrow> nat \<Rightarrow> bool" where
  "acts_under s i v \<longleftrightarrow> (\<exists>a m. lookup account_id i (accounts s) = Some a \<and> lookup mfa_accountId i (mfas s) = Some m \<and>
    account_row.account_role a = ADMIN \<and> account_row.account_status a = ACTIVE \<and> mfa_enabledAt m \<noteq> None \<and> mfa_version m = v)"

lemma currentAccount_Inr:
  "currentAccount s i v = Inr f \<longleftrightarrow> acts_under s i v \<and> findConsoleAuthorizationFacts s i = Some f"
  by (auto simp: currentAccount_def acts_under_def findConsoleAuthorizationFacts_def split: option.splits)

lemma currentAccount_facts:
  "currentAccount s i v = Inr f \<Longrightarrow> cf_id f = i \<and> cf_role f = ADMIN"
  by (auto simp: currentAccount_def findConsoleAuthorizationFacts_def split: option.splits if_splits dest: lookup_SomeD)

lemma currentAccount_error: "currentAccount s i v = Inl e \<Longrightarrow> e = AppError UNAUTHENTICATED \<and> \<not> acts_under s i v"
  by (auto simp: currentAccount_def acts_under_def findConsoleAuthorizationFacts_def split: option.splits if_splits)

lemma acts_under_current: "acts_under s i v \<Longrightarrow> \<exists>f. currentAccount s i v = Inr f"
  using currentAccount_error by (cases "currentAccount s i v") auto

lemma authorize_Inr:
  "authorizeOperatorToken sha compile seen s token now = Inr (ctx, i, e) \<longleftrightarrow>
    token_format token \<and> i \<noteq> [] \<and>
    (\<exists>r v. findOperatorSessionByToken seen (sha token) now = Some r \<and> ops_accountId r = Some i \<and>
      ops_mfaVersion r = Some v \<and> 0 < v \<and> ops_tokenExpiresAt r = Some e \<and> acts_under s i v) \<and>
    ctx = \<lparr>ctx_user = Some i, ctx_ability = buildAbility compile \<lparr>facts_accountId = Some i, facts_role = Some ADMIN\<rparr>\<rparr>"
  (is "?lhs \<longleftrightarrow> ?rhs")
proof
  assume ?lhs
  then obtain r f where r: "token_format token" "findOperatorSessionByToken seen (sha token) now = Some r" "truthy (ops_accountId r)"
    "coalesce (ops_mfaVersion r) 0 \<noteq> 0" "ops_tokenExpiresAt r \<noteq> None"
    and f: "currentAccount s (coalesce (ops_accountId r) []) (coalesce (ops_mfaVersion r) 0) = Inr f"
    and res: "i = cf_id f" "e = coalesce (ops_tokenExpiresAt r) 0"
      "ctx = \<lparr>ctx_user = Some (cf_id f), ctx_ability = buildAbility compile \<lparr>facts_accountId = Some (cf_id f), facts_role = Some (cf_role f)\<rparr>\<rparr>"
    by (auto simp: authorizeOperatorToken_def split: if_splits option.splits sum.splits)
  from r(3-5) obtain j v where some: "ops_accountId r = Some j" "j \<noteq> []" "ops_mfaVersion r = Some v" "0 < v"
    "ops_tokenExpiresAt r = Some e" using res(2)
    by (cases "ops_accountId r"; cases "ops_mfaVersion r"; cases "ops_tokenExpiresAt r") (auto simp: truthy_def)
  with f have cur: "currentAccount s j v = Inr f" by simp
  with currentAccount_facts [OF cur] currentAccount_Inr [of s j v f] r(1,2) some res show ?rhs by auto
next
  assume ?rhs
  then obtain r v where r: "token_format token" "i \<noteq> []" "findOperatorSessionByToken seen (sha token) now = Some r"
    "ops_accountId r = Some i" "ops_mfaVersion r = Some v" "0 < v" "ops_tokenExpiresAt r = Some e" "acts_under s i v"
    and ctx: "ctx = \<lparr>ctx_user = Some i, ctx_ability = buildAbility compile \<lparr>facts_accountId = Some i, facts_role = Some ADMIN\<rparr>\<rparr>"
    by blast
  obtain f where "currentAccount s i v = Inr f" using acts_under_current [OF r(8)] by blast
  with r ctx currentAccount_facts [OF this] show ?lhs by (simp add: authorizeOperatorToken_def truthy_def)
qed

text \<open>C36.
  A token authorises exactly while everything holds at once: it has the documented form; its session has
  been exchanged, is not revoked and has not expired; and the account that approved the session is at
  this moment an active administrator with MFA enabled under the very version of the approval.  The
  request then runs as that account, with an administrator's ability.\<close>

theorem operator_token_exact:
  assumes "sessions_ok (seen, u)"
  shows "authorizeOperatorToken sha compile seen s token now = Inr (ctx, i, e) \<longleftrightarrow>
    token_format token \<and> i \<noteq> [] \<and>
    (\<exists>r \<in> set (operator_sessions seen). \<exists>v. ops_tokenHash r = Some (sha token) \<and> ops_revokedAt r = None \<and>
      ops_tokenExpiresAt r = Some e \<and> now < e \<and> ops_accountId r = Some i \<and> ops_mfaVersion r = Some v \<and> acts_under s i v) \<and>
    ctx = \<lparr>ctx_user = Some i, ctx_ability = buildAbility compile \<lparr>facts_accountId = Some i, facts_role = Some ADMIN\<rparr>\<rparr>"
proof -
  have row: "(\<exists>r v. findOperatorSessionByToken seen (sha token) now = Some r \<and> ops_accountId r = Some i \<and>
      ops_mfaVersion r = Some v \<and> 0 < v \<and> ops_tokenExpiresAt r = Some e \<and> acts_under s i v) \<longleftrightarrow>
    (\<exists>r \<in> set (operator_sessions seen). \<exists>v. ops_tokenHash r = Some (sha token) \<and> ops_revokedAt r = None \<and>
      ops_tokenExpiresAt r = Some e \<and> now < e \<and> ops_accountId r = Some i \<and> ops_mfaVersion r = Some v \<and> acts_under s i v)"
    (is "?l \<longleftrightarrow> ?r")
  proof
    assume ?l
    then show ?r by (fastforce simp: find_by_token [OF assms] live_token_def)
  next
    assume ?r
    then obtain r v where r: "r \<in> set (operator_sessions seen)" "ops_tokenHash r = Some (sha token)" "ops_revokedAt r = None"
      "ops_tokenExpiresAt r = Some e" "now < e" "ops_accountId r = Some i" "ops_mfaVersion r = Some v" "acts_under s i v" by blast
    moreover have "operator_session_check r" using assms r(1) by (simp add: sessions_ok_def)
    with token_row [OF _ r(2)] r(7) have "0 < v" by auto
    ultimately show ?l by (auto simp: find_by_token [OF assms] live_token_def intro!: exI [of _ r])
  qed
  show ?thesis unfolding authorize_Inr row ..
qed


section \<open>Single use\<close>

lemma device_unique:
  "sessions_ok (s, u) \<Longrightarrow> r \<in> set (operator_sessions s) \<Longrightarrow> r' \<in> set (operator_sessions s) \<Longrightarrow>
    ops_deviceHash r = ops_deviceHash r' \<Longrightarrow> r = r'"
  by (auto simp: sessions_ok_def distinct_map dest: inj_onD)

lemma exchanged_row:
  assumes "exchangeOperatorGrant sha seen seen2 rnd now code s = (Inr (Authorized tok e), s')"
  obtains r where "r \<in> set (operator_sessions s)" and "exchange_pred (sha code) now r"
    and "exchange_set (sha tok) e now r \<in> set (operator_sessions s')" and "tok = ''oioi_'' @ rnd" and "e = now + 28800000"
proof -
  from assms obtain c where tok: "tok = ''oioi_'' @ rnd" "e = now + 28800000"
    and ex: "exchangeOperatorSession s (sha code) (sha tok) e now = (Inr (Some c), s')"
    by (auto simp: exchangeOperatorGrant_def Let_def guard_simps split: option.splits sum.splits if_splits)
  let ?p = "exchange_pred (sha code) now" and ?f = "exchange_set (sha tok) e now"
  from ex have "first_row (returning ?p ?f (operator_sessions s)) = Some c"
    and t: "operator_sessions s' = update_where ?p ?f (operator_sessions s)"
    by (auto simp: exchangeOperatorSession_def update_sessions_Inr)
  then obtain r where r: "r \<in> set (operator_sessions s)" "?p r" using first_row_returning_Some by metis
  then have "?f r \<in> set (operator_sessions s')" by (force simp: t set_update_where)
  with r tok that show thesis by blast
qed

text \<open>
  A grant yields one token: after a successful exchange, whatever else happens and however old the reads
  are, the same device code is never exchanged again for that session - a second success can only belong
  to a session created later, for which the same random code was drawn once more.\<close>

theorem device_code_single_use:
  assumes "sessions_ok (s, u)"
    and "exchangeOperatorGrant sha seen seen2 rnd now code s = (Inr (Authorized tok e), s1)"
    and "(operator_step sha compile env)\<^sup>*\<^sup>* (s1, u) (s2, u2)"
    and "exchangeOperatorGrant sha seen' seen2' rnd' now' code s2 = (Inr (Authorized tok' e'), s3)"
  shows "\<exists>r \<in> set (operator_sessions s2). ops_deviceHash r = sha code \<and> ops_id r \<notin> u"
proof -
  from assms(2) obtain a where a: "a \<in> set (operator_sessions s)" "exchange_pred (sha code) now a"
    "exchange_set (sha tok) e now a \<in> set (operator_sessions s1)" by (rule exchanged_row)
  from assms(4) obtain b where b: "b \<in> set (operator_sessions s2)" "exchange_pred (sha code) now' b" by (rule exchanged_row)
  have ok1: "sessions_ok (s1, u)"
    using operator_step_ok [OF op_exchange [OF assms(2)] assms(1)] by blast
  have "ops_id b \<notin> u"
  proof
    assume "ops_id b \<in> u"
    with operator_invariant [OF assms(3) ok1] b(1) obtain q where q: "q \<in> set (operator_sessions s1)" "session_evolves q b"
      by (auto simp: sessions_evolve_def)
    then have "q = exchange_set (sha tok) e now a"
      using a(2) b(2) by (intro device_unique [OF ok1 q(1) a(3)]) (auto simp: session_evolves_def exchange_pred_def exchange_set_def)
    with q(2) b(2) show False by (auto simp: session_evolves_def exchange_pred_def exchange_set_def)
  qed
  with b show ?thesis by (auto simp: exchange_pred_def)
qed

section \<open>Cutting off\<close>

lemma reset_version:
  assumes "mfas_ok s" and "resetConsoleMfa i (Some v) s = (Inr x, s')"
  shows "mfa_version_of s' i = Some (v + 1)"
proof -
  have "i \<in> account_id ` set (accounts s)"
  proof (rule ccontr)
    assume "i \<notin> account_id ` set (accounts s)"
    then have "lookup account_id i (accounts s) = None" by (simp add: lookup_None_iff)
    with assms(2) show False by (simp add: resetConsoleMfa_def lockConsoleAuthenticationFacts_def)
  qed
  from reset_exact [OF assms(1) this, of "Some v"] assms(2)
  have cur: "mfa_version_of s i = Some v"
    and s': "s' = s\<lparr>mfas := update_where (\<lambda>r. mfa_accountId r = i \<and> mfa_version r = v) reset_set (mfas s)\<rparr>"
    by (auto split: if_splits)
  from cur obtain r where "lookup mfa_accountId i (mfas s) = Some r" "mfa_version r = v" by (auto simp: mfa_version_of_def)
  moreover have "lookup mfa_accountId i (mfas s') =
      map_option (\<lambda>r. if mfa_accountId r = i \<and> mfa_version r = v then reset_set r else r) (lookup mfa_accountId i (mfas s))"
    unfolding s' by (simp add: lookup_update_where reset_set_def)
  ultimately show ?thesis by (auto simp: mfa_version_of_def reset_set_def dest: lookup_SomeD)
qed

lemma access_version:
  assumes "mfas_ok s" and "changeConsoleAccountAccess i ex (Some v) new s = (Inr x, s')"
  shows "mfa_version_of s' i = Some (v + 1)"
proof -
  let ?s = "updateAccountAccess s i (ac_role new) (ac_status new)"
  obtain a c m where lock: "lockConsoleAuthenticationFacts s i = (a, c, m)" by (metis prod_cases3)
  with assms(2) obtain w ws where m: "map_option mfa_version m = Some v" and run: "incrementAdminMfaVersion ?s i = (w # ws, s')"
    by (auto simp: changeConsoleAccountAccess_def guard_simps split: prod.splits list.splits option.splits)
  from m lock obtain r where r: "lookup mfa_accountId i (mfas s) = Some r" "mfa_version r = v"
    by (auto simp: lockConsoleAuthenticationFacts_def)
  have same: "mfas ?s = mfas s" by (simp add: updateAccountAccess_def)
  have "i \<in> mfa_accountId ` set (mfas s)" using r(1) by (auto dest: lookup_SomeD)
  with run have "mfas s' = update_where (\<lambda>r. mfa_accountId r = i) bump_set (mfas s)"
    by (auto simp: incrementAdminMfaVersion_def same)
  moreover have "lookup mfa_accountId i (update_where (\<lambda>r. mfa_accountId r = i) bump_set (mfas s)) = Some (bump_set r)"
    using r(1) by (subst lookup_update_key) (simp_all add: bump_set_def)
  ultimately show ?thesis using r(2) by (simp add: mfa_version_of_def bump_set_def)
qed

text \<open>C37.
  Resetting an administrator's MFA or changing the account's role or status cuts off its tools: whatever
  happens afterwards, a token that is accepted for the account belongs to a session that was approved
  under a later version than the one that was reset - every token of an earlier approval is refused,
  however old the read of its session.\<close>

theorem operator_cut_off:
  assumes "mfas_ok s"
    and "resetConsoleMfa i (Some v) s = (Inr x, s1) \<or> changeConsoleAccountAccess i ex (Some v) new s = (Inr y, s1)"
    and "(operator_step sha compile env)\<^sup>*\<^sup>* (s1, u) (s2, u2)"
    and "authorizeOperatorToken sha compile seen s2 token now = Inr (ctx, i, e)"
  shows "\<exists>r w. findOperatorSessionByToken seen (sha token) now = Some r \<and> ops_accountId r = Some i \<and>
    ops_mfaVersion r = Some w \<and> v < w"
proof -
  have v1: "mfa_version_of s1 i = Some (v + 1)" "mfas_ok s1"
    using assms(2) reset_version [OF assms(1)] access_version [OF assms(1)] reset_state [OF assms(1)] access_state [OF assms(1)] by blast+
  from operator_run_mfas [OF assms(3)] v1(2) have run: "mfas_ok s2" "mfas_evolve s1 s2" by auto
  from assms(4) obtain r w where r: "findOperatorSessionByToken seen (sha token) now = Some r" "ops_accountId r = Some i"
    "ops_mfaVersion r = Some w" "acts_under s2 i w" by (auto simp: authorize_Inr)
  from r(4) obtain m where m: "lookup mfa_accountId i (mfas s2) = Some m" "mfa_version m = w" by (auto simp: acts_under_def)
  from v1(1) obtain m1 where m1: "lookup mfa_accountId i (mfas s1) = Some m1" "mfa_version m1 = v + 1"
    by (auto simp: mfa_version_of_def)
  have "mfa_evolves m1 m"
    using lookup_SomeD [OF m(1)] lookup_SomeD [OF m1(1)] by (intro mfas_evolveD [OF run(2,1)]) auto
  with m m1 r show ?thesis by (auto simp: mfa_evolves_def)
qed


section \<open>The whole flow\<close>

lemma update_last:
  assumes "operator_sessions s = p @ [n]" and "\<And>r. r \<in> set p \<Longrightarrow> \<not> q r" and "q n" and "operator_session_check (f n)"
    and "distinct (List.map_filter ops_tokenHash (p @ [f n]))"
  shows "update_sessions q f s = (Inr (Some (f n)), s\<lparr>operator_sessions := p @ [f n]\<rparr>)"
proof -
  have "update_where q f (p @ [n]) = p @ [f n]" "returning q f (p @ [n]) = [f n]"
    using assms(2,3) by (simp_all add: update_where_none returning_def filter_empty_conv)
  with assms(1,4,5) show ?thesis by (simp add: update_sessions_Inr)
qed

lemma find_device_last:
  assumes "operator_sessions s = p @ [n]" and "ops_deviceHash n \<notin> ops_deviceHash ` set p"
  shows "findOperatorSessionByDevice s (ops_deviceHash n) = Some n"
proof -
  from assms(2) have "lookup ops_deviceHash (ops_deviceHash n) p = None" by (simp add: lookup_None_iff)
  with assms(1) show ?thesis by (simp add: findOperatorSessionByDevice_def)
qed

lemma acts_under_frame: "accounts s' = accounts s \<Longrightarrow> mfas s' = mfas s \<Longrightarrow> acts_under s' i v = acts_under s i v"
  by (simp add: acts_under_def)

lemma map_filter_new:
  assumes "distinct (List.map_filter g p)" and "g n = None \<or> g n \<notin> g ` set p"
  shows "distinct (List.map_filter g (p @ [n]))"
proof (cases "g n")
  case None
  with assms(1) show ?thesis by (simp add: List.map_filter_def)
next
  case (Some h)
  have "h \<notin> set (List.map_filter g p)"
    using assms(2) Some by (auto simp: List.map_filter_def image_iff)
  with assms(1) Some show ?thesis by (simp add: List.map_filter_def)
qed

lemma create_one:
  assumes "\<And>x. is_sha256_hex (sha x)"
    and "sha dev \<notin> ops_deviceHash ` set (operator_sessions s)" and "sha (user_code ls) \<notin> ops_userCodeHash ` set (operator_sessions s)"
  shows "createOperatorGrant sha t [(i, dev, ls)] s =
    (Inr \<lparr>dg_deviceCode = dev, dg_userCode = user_code ls, dg_expiresAt = t + 600000, dg_intervalSeconds = 5\<rparr>,
     s\<lparr>operator_sessions := operator_sessions (purgeOperatorSessions s (t - 86400000)) @
       [new_session i (sha dev) (sha (user_code ls)) t (t + 600000)]\<rparr>)"
proof -
  let ?n = "new_session i (sha dev) (sha (user_code ls)) t (t + 600000)" and ?p = "purgeOperatorSessions s (t - 86400000)"
  have sub: "set (operator_sessions ?p) \<subseteq> set (operator_sessions s)" by (auto simp: purgeOperatorSessions_def set_delete_where)
  have "operator_session_check ?n"
    using assms(1) by (simp add: operator_session_check_def ops_hash_check_def ops_approval_check_def ops_exchange_check_def ops_revocation_check_def)
  moreover have "ops_deviceHash ?n \<notin> ops_deviceHash ` set (operator_sessions ?p)" "ops_userCodeHash ?n \<notin> ops_userCodeHash ` set (operator_sessions ?p)"
    using assms(2,3) sub by auto
  ultimately have "insertOperatorSession ?p ?n = (Inr (), ?p\<lparr>operator_sessions := operator_sessions ?p @ [?n]\<rparr>)"
    by (simp add: insert_Inr)
  then show ?thesis by (simp add: createOperatorGrant_def) (simp add: purgeOperatorSessions_def)
qed


lemma map_filter_cong_keys: "map g xs = map g ys \<Longrightarrow> List.map_filter g xs = List.map_filter g ys"
proof -
  have "List.map_filter g zs = List.map_filter id (map g zs)" for zs
    by (induction zs) (simp_all add: List.map_filter_simps split: option.split)
  then show "map g xs = map g ys \<Longrightarrow> List.map_filter g xs = List.map_filter g ys" by simp
qed

lemma approve_last:
  assumes "operator_sessions s = p @ [n]" and "ops_userCodeHash n \<notin> ops_userCodeHash ` set p" and "ops_userCodeHash n = sha code"
    and "operator_session_check n" and "ops_approvedAt n = None" and "ops_exchangedAt n = None" and "0 < v"
    and "ops_createdAt n \<le> t" and "t < ops_expiresAt n"
    and "ctx_user ctx = Some user" and "ctx_ability ctx Manage All" and "acts_under seen user v"
    and "distinct (List.map_filter ops_tokenHash (operator_sessions s))"
  shows "approveOperatorGrant sha seen ctx v code t s = (Inr (), s\<lparr>operator_sessions := p @ [approve_set user v t n]\<rparr>)"
proof -
  obtain f where "currentAccount seen user v = Inr f" using acts_under_current [OF assms(12)] by blast
  moreover have "update_sessions (approve_pred (sha code) t) (approve_set user v t) s =
      (Inr (Some (approve_set user v t n)), s\<lparr>operator_sessions := p @ [approve_set user v t n]\<rparr>)"
  proof (rule update_last [OF assms(1)])
    show "\<not> approve_pred (sha code) t r" if "r \<in> set p" for r
      using that assms(2,3) by (auto simp: approve_pred_def image_iff)
    show "approve_pred (sha code) t n" using assms(3,5,9) by (simp add: approve_pred_def)
    show "operator_session_check (approve_set user v t n)"
      using assms(4-9) by (auto simp: operator_session_check_def ops_hash_check_def ops_approval_check_def ops_exchange_check_def
          ops_revocation_check_def approve_set_def split: option.splits)
    show "distinct (List.map_filter ops_tokenHash (p @ [approve_set user v t n]))"
      using assms(1,13) map_filter_cong_keys [of ops_tokenHash "p @ [approve_set user v t n]" "p @ [n]"] by (simp add: approve_set_def)
  qed
  ultimately show ?thesis
    using assms(10,11) by (simp add: approveOperatorGrant_def as_admin_admin approveOperatorSession_def)
qed

lemma exchange_last:
  assumes "operator_sessions s = p @ [n]" and "ops_deviceHash n \<notin> ops_deviceHash ` set p" and "ops_deviceHash n = sha code"
    and "operator_session_check n" and "ops_approvedAt n = Some ap" and "ap \<le> t" and "ops_exchangedAt n = None"
    and "ops_accountId n = Some user" and "user \<noteq> []" and "ops_mfaVersion n = Some v" and "t < ops_expiresAt n"
    and "acts_under s user v" and "is_sha256_hex (sha (''oioi_'' @ rnd))"
    and "Some (sha (''oioi_'' @ rnd)) \<notin> ops_tokenHash ` set p" and "distinct (List.map_filter ops_tokenHash (operator_sessions s))"
  shows "exchangeOperatorGrant sha s s rnd t code s = (Inr (Authorized (''oioi_'' @ rnd) (t + 28800000)),
    s\<lparr>operator_sessions := p @ [exchange_set (sha (''oioi_'' @ rnd)) (t + 28800000) t n]\<rparr>)"
proof -
  let ?f = "exchange_set (sha (''oioi_'' @ rnd)) (t + 28800000) t"
  obtain f where cur: "currentAccount s user v = Inr f" using acts_under_current [OF assms(12)] by blast
  have revoked: "ops_revokedAt n = None" and v: "0 < v"
    using assms(4,5,7,8,10) by (auto simp: operator_session_check_def ops_revocation_check_def ops_approval_check_def split: option.splits)
  have find: "findOperatorSessionByDevice s (sha code) = Some n"
    using find_device_last [OF assms(1,2)] assms(3) by simp
  have "update_sessions (exchange_pred (sha code) t) ?f s = (Inr (Some (?f n)), s\<lparr>operator_sessions := p @ [?f n]\<rparr>)"
  proof (rule update_last [OF assms(1)])
    show "\<not> exchange_pred (sha code) t r" if "r \<in> set p" for r
      using that assms(2,3) by (auto simp: exchange_pred_def image_iff)
    show "exchange_pred (sha code) t n" using assms(3,5,7,11) revoked by (simp add: exchange_pred_def)
    show "operator_session_check (?f n)"
      using assms(4-8,10,11,13) revoked by (auto simp: operator_session_check_def ops_hash_check_def ops_approval_check_def ops_exchange_check_def
          ops_revocation_check_def exchange_set_def split: option.splits)
    show "distinct (List.map_filter ops_tokenHash (p @ [?f n]))"
      using assms(1,14,15) by (intro map_filter_new) (auto simp: exchange_set_def List.map_filter_def)
  qed
  with find assms(5,7-11) revoked cur v show ?thesis
    by (simp add: exchangeOperatorGrant_def exchangeOperatorSession_def Let_def truthy_def)
qed

lemma token_format_random: "is_sha256_hex rnd \<Longrightarrow> token_format (''oioi_'' @ rnd)"
  by (simp add: token_format_def)

lemma revoke_last:
  assumes "operator_sessions s = p @ [n]" and "Some (sha tok) \<notin> ops_tokenHash ` set p" and "ops_tokenHash n = Some (sha tok)"
    and "operator_session_check n" and "ops_revokedAt n = None" and "ops_exchangedAt n = Some ex" and "ex \<le> t"
    and "distinct (List.map_filter ops_tokenHash (operator_sessions s))"
    and "authorizeOperatorToken sha compile s s tok t = Inr q"
  shows "revokeOperatorToken sha compile s s tok t s = (Inr (), s\<lparr>operator_sessions := p @ [n\<lparr>ops_revokedAt := Some t\<rparr>]\<rparr>)"
proof -
  have "update_sessions (revoke_pred (sha tok)) (\<lambda>r. r\<lparr>ops_revokedAt := Some t\<rparr>) s =
    (Inr (Some (n\<lparr>ops_revokedAt := Some t\<rparr>)), s\<lparr>operator_sessions := p @ [n\<lparr>ops_revokedAt := Some t\<rparr>]\<rparr>)"
  proof (rule update_last [OF assms(1)])
    show "\<not> revoke_pred (sha tok) r" if "r \<in> set p" for r
    proof -
      from that have "ops_tokenHash r \<in> ops_tokenHash ` set p" by simp
      with assms(2) show ?thesis by (metis revoke_pred_def)
    qed
    show "revoke_pred (sha tok) n" using assms(3,5) by (simp add: revoke_pred_def)
    show "operator_session_check (n\<lparr>ops_revokedAt := Some t\<rparr>)"
      using assms(4,6,7) by (simp add: operator_session_check_def ops_hash_check_def ops_approval_check_def ops_exchange_check_def
          ops_revocation_check_def split: option.splits)
    show "distinct (List.map_filter ops_tokenHash (p @ [n\<lparr>ops_revokedAt := Some t\<rparr>]))"
      using assms(1,8) map_filter_cong_keys [of ops_tokenHash "p @ [n\<lparr>ops_revokedAt := Some t\<rparr>]" "p @ [n]"] by simp
  qed
  with assms(9) show ?thesis by (simp add: revokeOperatorToken_def revokeOperatorSession_def)
qed


lemma no_live_token: "Some h \<notin> ops_tokenHash ` set p \<Longrightarrow> r \<in> set p \<Longrightarrow> \<not> live_token h now r"
  by (metis image_eqI live_token_def)

lemma token_last:
  assumes "operator_sessions s = p @ [n]" and "Some h \<notin> ops_tokenHash ` set p"
  shows "findOperatorSessionByToken s h now = (if live_token h now n then Some n else None)"
  using no_live_token [OF assms(2)] by (simp add: findOperatorSessionByToken_def assms(1) filter_empty_conv)

text \<open>
  The flow works from beginning to end: a grant with fresh codes is pending until an administrator
  approves its user code within ten minutes; the device then gets its token, the token authorises as
  that administrator for eight hours, and after its revocation it never authorises again.\<close>

theorem operator_flow_works:
  assumes "sessions_ok (s, u)" and "\<And>x. is_sha256_hex (sha x)" and "is_sha256_hex rnd"
    and "sha dev \<notin> ops_deviceHash ` set (operator_sessions s)" and "sha (user_code ls) \<notin> ops_userCodeHash ` set (operator_sessions s)"
    and "Some (sha (''oioi_'' @ rnd)) \<notin> ops_tokenHash ` set (operator_sessions s)"
    and "ctx_user ctx = Some user" and "user \<noteq> []" and "ctx_ability ctx Manage All" and "acts_under s user v" and "0 < v"
    and "t0 \<le> t1" and "t1 \<le> t2" and "t2 < t0 + 600000" and "t2 \<le> t3" and "t3 < t2 + 28800000"
  shows "\<exists>g s1 s2 s3 s4 ctx'. createOperatorGrant sha t0 [(i, dev, ls)] s = (Inr g, s1) \<and>
    dg_deviceCode g = dev \<and> dg_userCode g = user_code ls \<and>
    exchangeOperatorGrant sha s1 s1 rnd t1 dev s1 = (Inr PendingGrant, s1) \<and>
    approveOperatorGrant sha s1 ctx v (user_code ls) t1 s1 = (Inr (), s2) \<and>
    exchangeOperatorGrant sha s2 s2 rnd t2 dev s2 = (Inr (Authorized (''oioi_'' @ rnd) (t2 + 28800000)), s3) \<and>
    authorizeOperatorToken sha compile s3 s3 (''oioi_'' @ rnd) t3 = Inr (ctx', user, t2 + 28800000) \<and> ctx_user ctx' = Some user \<and>
    revokeOperatorToken sha compile s3 s3 (''oioi_'' @ rnd) t3 s3 = (Inr (), s4) \<and>
    (\<forall>t s5. authorizeOperatorToken sha compile s4 s5 (''oioi_'' @ rnd) t = Inl (AppError UNAUTHENTICATED))"
proof -
  define tok where "tok = ''oioi_'' @ rnd"
  define p where "p = operator_sessions (purgeOperatorSessions s (t0 - 86400000))"
  define n where "n = new_session i (sha dev) (sha (user_code ls)) t0 (t0 + 600000)"
  define n2 where "n2 = approve_set user v t1 n"
  define n3 where "n3 = exchange_set (sha tok) (t2 + 28800000) t2 n2"
  define n4 where "n4 = n3\<lparr>ops_revokedAt := Some t3\<rparr>"
  define s1 where "s1 = s\<lparr>operator_sessions := p @ [n]\<rparr>"
  define s2 where "s2 = s\<lparr>operator_sessions := p @ [n2]\<rparr>"
  define s3 where "s3 = s\<lparr>operator_sessions := p @ [n3]\<rparr>"
  define s4 where "s4 = s\<lparr>operator_sessions := p @ [n4]\<rparr>"
  note ns = n4_def n3_def n2_def n_def
  have ids: "ops_deviceHash n = sha dev" "ops_deviceHash n2 = sha dev" "ops_userCodeHash n = sha (user_code ls)"
    "ops_tokenHash n3 = Some (sha tok)" "ops_tokenHash n4 = Some (sha tok)" "ops_tokenHash n = None" "ops_tokenHash n2 = None"
    by (simp_all add: ns approve_set_def exchange_set_def)
  have sub: "set p \<subseteq> set (operator_sessions s)" by (auto simp: p_def purgeOperatorSessions_def set_delete_where)
  have old: "ops_deviceHash n \<notin> ops_deviceHash ` set p" "ops_userCodeHash n \<notin> ops_userCodeHash ` set p"
    "Some (sha tok) \<notin> ops_tokenHash ` set p"
    using assms(4-6) sub by (auto simp: ids tok_def)
  have dist: "distinct (List.map_filter ops_tokenHash p)"
    using purge_ok [OF assms(1)] by (simp add: p_def sessions_ok_def)
  have dists: "distinct (List.map_filter ops_tokenHash (p @ [m]))" if "m \<in> {n, n2, n3}" for m
  proof -
    have "ops_tokenHash m = None \<or> ops_tokenHash m \<notin> ops_tokenHash ` set p" using that ids old(3) by (metis emptyE insertE)
    then show ?thesis by (rule map_filter_new [OF dist])
  qed
  have chk: "operator_session_check n" "operator_session_check n2" "operator_session_check n3"
    using assms(2,11-16) by (simp_all add: ns operator_session_check_def ops_hash_check_def ops_approval_check_def
        ops_exchange_check_def ops_revocation_check_def approve_set_def exchange_set_def)
  have acts: "acts_under s2 user v" "acts_under s1 user v" "acts_under s3 user v"
    using assms(10) by (simp_all add: s1_def s2_def s3_def acts_under_def)
  have 1: "createOperatorGrant sha t0 [(i, dev, ls)] s =
      (Inr \<lparr>dg_deviceCode = dev, dg_userCode = user_code ls, dg_expiresAt = t0 + 600000, dg_intervalSeconds = 5\<rparr>, s1)"
    using create_one [OF assms(2,4,5)] by (simp add: s1_def n_def p_def)
  have ops: "operator_sessions s1 = p @ [n]" "operator_sessions s2 = p @ [n2]" "operator_sessions s3 = p @ [n3]"
    "operator_sessions s4 = p @ [n4]" by (simp_all add: s1_def s2_def s3_def s4_def)
  have 2: "approveOperatorGrant sha s1 ctx v (user_code ls) t1 s1 = (Inr (), s2)"
    using assms(7,9,11-14) old acts(2) dists chk(1) ids
    by (subst approve_last [OF ops(1)]) (simp_all add: ops s1_def s2_def n2_def n_def)
  have "findOperatorSessionByDevice s1 (sha dev) = Some n" using find_device_last [OF ops(1) old(1)] ids by simp
  then have pending: "exchangeOperatorGrant sha s1 s1 rnd t1 dev s1 = (Inr PendingGrant, s1)"
    using assms(12-14) by (simp add: exchangeOperatorGrant_def n_def truthy_def)
  have 3: "exchangeOperatorGrant sha s2 s2 rnd t2 dev s2 = (Inr (Authorized (''oioi_'' @ rnd) (t2 + 28800000)), s3)"
  proof -
    have "exchangeOperatorGrant sha s2 s2 rnd t2 dev s2 = (Inr (Authorized (''oioi_'' @ rnd) (t2 + 28800000)),
        s2\<lparr>operator_sessions := p @ [exchange_set (sha (''oioi_'' @ rnd)) (t2 + 28800000) t2 n2]\<rparr>)"
    proof (rule exchange_last [OF ops(2)])
      show "ops_deviceHash n2 \<notin> ops_deviceHash ` set p" "ops_deviceHash n2 = sha dev" using old ids by simp_all
      show "operator_session_check n2" "acts_under s2 user v" "is_sha256_hex (sha (''oioi_'' @ rnd))" "user \<noteq> []" "t1 \<le> t2"
        using chk acts assms(2,8,13) by simp_all
      show "ops_approvedAt n2 = Some t1" "ops_exchangedAt n2 = None" "ops_accountId n2 = Some user" "ops_mfaVersion n2 = Some v"
        "t2 < ops_expiresAt n2" using assms(14) by (simp_all add: n2_def n_def approve_set_def)
      show "Some (sha (''oioi_'' @ rnd)) \<notin> ops_tokenHash ` set p" using old(3) by (simp add: tok_def)
      show "distinct (List.map_filter ops_tokenHash (operator_sessions s2))" using dists [of n2] by (simp add: ops)
    qed
    then show ?thesis by (simp add: s3_def s2_def n3_def tok_def)
  qed
  define ctx' where "ctx' = \<lparr>ctx_user = Some user, ctx_ability = buildAbility compile \<lparr>facts_accountId = Some user, facts_role = Some ADMIN\<rparr>\<rparr>"
  have find: "findOperatorSessionByToken s3 (sha tok) t3 = Some n3"
    using assms(15,16) by (simp add: token_last [OF ops(3) old(3)]) (simp add: live_token_def ns approve_set_def exchange_set_def)
  have 4: "authorizeOperatorToken sha compile s3 s3 tok t3 = Inr (ctx', user, t2 + 28800000)"
  proof -
    have "token_format tok" unfolding tok_def by (rule token_format_random [OF assms(3)])
    moreover have "ops_accountId n3 = Some user" "ops_mfaVersion n3 = Some v" "ops_tokenExpiresAt n3 = Some (t2 + 28800000)"
      by (simp_all add: ns approve_set_def exchange_set_def)
    ultimately show ?thesis unfolding authorize_Inr using assms(8,11) find acts(3) by (simp add: ctx'_def)
  qed
  have 5: "revokeOperatorToken sha compile s3 s3 tok t3 s3 = (Inr (), s4)"
  proof -
    have "revokeOperatorToken sha compile s3 s3 tok t3 s3 = (Inr (), s3\<lparr>operator_sessions := p @ [n3\<lparr>ops_revokedAt := Some t3\<rparr>]\<rparr>)"
    proof (rule revoke_last [OF ops(3) old(3) ids(4) chk(3) _ _ assms(15) _ 4])
      show "ops_revokedAt n3 = None" "ops_exchangedAt n3 = Some t2" by (simp_all add: ns approve_set_def exchange_set_def)
      show "distinct (List.map_filter ops_tokenHash (operator_sessions s3))" using dists [of n3] by (simp add: ops)
    qed
    then show ?thesis by (simp add: s3_def s4_def n4_def)
  qed
  have "findOperatorSessionByToken s4 (sha tok) t = None" for t
    by (simp add: token_last [OF ops(4) old(3)]) (simp add: live_token_def n4_def)
  then have "authorizeOperatorToken sha compile s4 s5 tok t = Inl (AppError UNAUTHENTICATED)" for t s5
    by (simp add: authorizeOperatorToken_def)
  with 1 2 3 4 5 pending show ?thesis
    by (intro exI [of _ "\<lparr>dg_deviceCode = dev, dg_userCode = user_code ls, dg_expiresAt = t0 + 600000, dg_intervalSeconds = 5\<rparr>"]
        exI [of _ s1] exI [of _ s2] exI [of _ s3] exI [of _ s4] exI [of _ ctx']) (simp add: tok_def ctx'_def)
qed


section \<open>A connected device\<close>

definition demo_sha :: "string \<Rightarrow> string" where
  "demo_sha x = replicate 64 (if x = ''d'' then CHR ''a'' else CHR ''b'')"

definition demo_token_random :: string where
  "demo_token_random = replicate 64 (CHR ''0'')"

definition demo_state :: "operator_session_row list \<Rightarrow> db" where
  "demo_state rows = demo_mfa [demo_mfa_row 1] \<lparr>operator_sessions := rows\<rparr>"

definition demo_code :: string where
  "demo_code = user_code [0, 1, 2, 3, 4, 5, 6, 7]"

definition demo_fresh :: "eid \<Rightarrow> instant \<Rightarrow> operator_session_row" where
  "demo_fresh i t = new_session i (demo_sha ''d'') (demo_sha demo_code) t (t + 600000)"

definition demo_approved :: "eid \<Rightarrow> instant \<Rightarrow> operator_session_row" where
  "demo_approved i t = approve_set demo_admin 3 (t + 1) (demo_fresh i t)"

definition demo_exchanged :: "eid \<Rightarrow> instant \<Rightarrow> operator_session_row" where
  "demo_exchanged i t = exchange_set (demo_sha (''oioi_'' @ demo_token_random)) (t + 2 + 28800000) (t + 2) (demo_approved i t)"

lemmas demo_session_rows = demo_exchanged_def demo_approved_def demo_fresh_def approve_set_def exchange_set_def

definition demo_admin_ctx :: request_context where
  "demo_admin_ctx = demo_ctx demo_admin ADMIN"

lemma demo_admin_nonempty [simp]: "demo_admin \<noteq> []"
  by (simp add: demo_admin_def)

lemma demo_admin_ctx_ok: "ctx_user demo_admin_ctx = Some demo_admin" "ctx_ability demo_admin_ctx Manage All"
proof -
  show "ctx_user demo_admin_ctx = Some demo_admin" by (simp add: demo_admin_ctx_def)
  have "ctx_ability demo_admin_ctx Manage All \<longleftrightarrow>
      (\<exists>r \<in> set (buildAbilityRules \<lparr>facts_accountId = Some demo_admin, facts_role = Some ADMIN\<rparr>). rule_relevant r Manage All)"
    by (simp add: demo_admin_ctx_def demo_ctx_def buildAbility_def casl_reference_def list_ex_iff)
  also have "\<dots>" unfolding buildAbilityRules_manage_all by (simp add: truthy_def)
  finally show "ctx_ability demo_admin_ctx Manage All" .
qed

lemma demo_sha_hex: "is_sha256_hex (demo_sha x)"
  by (simp add: demo_sha_def is_sha256_hex_def list_all_iff is_hex_lower_def)

lemma demo_random_hex: "is_sha256_hex demo_token_random"
  by (simp add: demo_token_random_def is_sha256_hex_def list_all_iff is_hex_lower_def)

lemma demo_state_tables [simp]:
  "operator_sessions (demo_state rows) = rows" "(demo_state rows)\<lparr>operator_sessions := rows'\<rparr> = demo_state rows'"
  by (simp_all add: demo_state_def)

lemma demo_acts: "acts_under (demo_state rows) demo_admin 3"
  by (simp add: acts_under_def demo_state_def demo_account_def demo_mfa_row_def)

lemma demo_sessions_ok:
  "sessions_ok (demo_state [], u)" "sessions_ok (demo_state [demo_fresh i t], insert i u)"
  "sessions_ok (demo_state [demo_approved i t], insert i u)" "sessions_ok (demo_state [demo_exchanged i t], insert i u)"
proof -
  have "operator_session_check (demo_fresh i t)" "operator_session_check (demo_approved i t)" "operator_session_check (demo_exchanged i t)"
    using demo_sha_hex by (simp_all add: demo_session_rows operator_session_check_def ops_hash_check_def ops_approval_check_def
        ops_exchange_check_def ops_revocation_check_def)
  moreover have "ops_id (demo_fresh i t) = i" "ops_id (demo_approved i t) = i" "ops_id (demo_exchanged i t) = i"
    by (simp_all add: demo_session_rows)
  moreover have "distinct (List.map_filter ops_tokenHash [r])" for r
    by (simp add: List.map_filter_def)
  ultimately show "sessions_ok (demo_state [], u)" "sessions_ok (demo_state [demo_fresh i t], insert i u)"
    "sessions_ok (demo_state [demo_approved i t], insert i u)" "sessions_ok (demo_state [demo_exchanged i t], insert i u)"
    by (simp_all add: sessions_ok_def List.map_filter_simps)
qed

lemma demo_create:
  "purge_pred (t - 86400000) old \<Longrightarrow>
    createOperatorGrant demo_sha t [(i, ''d'', [0, 1, 2, 3, 4, 5, 6, 7])] (demo_state [old]) =
    (Inr \<lparr>dg_deviceCode = ''d'', dg_userCode = demo_code, dg_expiresAt = t + 600000, dg_intervalSeconds = 5\<rparr>, demo_state [demo_fresh i t])"
  "createOperatorGrant demo_sha t [(i, ''d'', [0, 1, 2, 3, 4, 5, 6, 7])] (demo_state []) =
    (Inr \<lparr>dg_deviceCode = ''d'', dg_userCode = demo_code, dg_expiresAt = t + 600000, dg_intervalSeconds = 5\<rparr>, demo_state [demo_fresh i t])"
proof -
  have gone: "createOperatorGrant demo_sha t ds (demo_state rows) = createOperatorGrant demo_sha t ds (demo_state [])"
    if "\<forall>r \<in> set rows. purge_pred (t - 86400000) r" for rows ds
    using that by (simp add: createOperatorGrant_def purgeOperatorSessions_def delete_where_def)
  have new: "createOperatorGrant demo_sha t [(i, ''d'', [0, 1, 2, 3, 4, 5, 6, 7])] (demo_state []) =
    (Inr \<lparr>dg_deviceCode = ''d'', dg_userCode = demo_code, dg_expiresAt = t + 600000, dg_intervalSeconds = 5\<rparr>, demo_state [demo_fresh i t])"
    using create_one [of demo_sha "''d''" "demo_state []" "[0, 1, 2, 3, 4, 5, 6, 7]" t i] demo_sha_hex
    by (simp add: demo_fresh_def demo_code_def purgeOperatorSessions_def delete_where_def)
  then show "createOperatorGrant demo_sha t [(i, ''d'', [0, 1, 2, 3, 4, 5, 6, 7])] (demo_state []) =
    (Inr \<lparr>dg_deviceCode = ''d'', dg_userCode = demo_code, dg_expiresAt = t + 600000, dg_intervalSeconds = 5\<rparr>, demo_state [demo_fresh i t])" .
  show "createOperatorGrant demo_sha t [(i, ''d'', [0, 1, 2, 3, 4, 5, 6, 7])] (demo_state [old]) =
    (Inr \<lparr>dg_deviceCode = ''d'', dg_userCode = demo_code, dg_expiresAt = t + 600000, dg_intervalSeconds = 5\<rparr>, demo_state [demo_fresh i t])"
    if "purge_pred (t - 86400000) old"
    using that new gone [of "[old]"] by simp
qed

lemma demo_approve:
  "approveOperatorGrant demo_sha (demo_state q) demo_admin_ctx 3 demo_code (t + 1) (demo_state [demo_fresh i t]) =
    (Inr (), demo_state [demo_approved i t])"
  using approve_last [of "demo_state [demo_fresh i t]" "[]" "demo_fresh i t" demo_sha demo_code 3 "t + 1" demo_admin_ctx demo_admin
      "demo_state q"] demo_admin_ctx_ok demo_acts [of q] demo_sessions_ok(2) [of i t]
  by (simp add: sessions_ok_def demo_approved_def) (simp add: demo_fresh_def)

lemma demo_exchange:
  "exchangeOperatorGrant demo_sha (demo_state [demo_approved i t]) (demo_state [demo_approved i t]) demo_token_random (t + 2) ''d''
      (demo_state [demo_approved i t]) =
    (Inr (Authorized (''oioi_'' @ demo_token_random) (t + 2 + 28800000)), demo_state [demo_exchanged i t])"
proof -
  have "exchangeOperatorGrant demo_sha (demo_state [demo_approved i t]) (demo_state [demo_approved i t]) demo_token_random (t + 2) ''d''
      (demo_state [demo_approved i t]) =
    (Inr (Authorized (''oioi_'' @ demo_token_random) (t + 2 + 28800000)),
     (demo_state [demo_approved i t])\<lparr>operator_sessions :=
        [] @ [exchange_set (demo_sha (''oioi_'' @ demo_token_random)) (t + 2 + 28800000) (t + 2) (demo_approved i t)]\<rparr>)"
  proof (rule exchange_last)
    show "operator_sessions (demo_state [demo_approved i t]) = [] @ [demo_approved i t]" by simp
    show "operator_session_check (demo_approved i t)" "distinct (List.map_filter ops_tokenHash (operator_sessions (demo_state [demo_approved i t])))"
      using demo_sessions_ok(3) [of i t "{}"] by (simp_all add: sessions_ok_def)
    show "acts_under (demo_state [demo_approved i t]) demo_admin 3" by (rule demo_acts)
    show "is_sha256_hex (demo_sha (''oioi_'' @ demo_token_random))" by (rule demo_sha_hex)
    show "t + 1 \<le> t + 2" by arith
  qed (simp_all add: demo_session_rows)
  then show ?thesis by (simp add: demo_exchanged_def)
qed

theorem operator_invariant_witness: "sessions_ok (demo_state [demo_fresh ''o1'' 0], {''o1''})"
proof -
  have "operator_step demo_sha casl_reference demo_mfa_env (demo_state [], {}) (demo_state [demo_fresh ''o1'' 0], {} \<union> {''o1''})"
    using op_create [OF demo_create(2) [of 0 "''o1''"], of "{}" casl_reference demo_mfa_env] by simp
  then have run: "(operator_step demo_sha casl_reference demo_mfa_env)\<^sup>*\<^sup>* (demo_state [], {}) (demo_state [demo_fresh ''o1'' 0], {''o1''})"
    by simp
  from operator_invariant [OF run demo_sessions_ok(1)] show ?thesis by simp
qed

theorem operator_token_exact_witness:
  "\<exists>ctx. authorizeOperatorToken demo_sha casl_reference (demo_state [demo_exchanged ''o1'' 0]) (demo_state []) (''oioi_'' @ demo_token_random) 9 =
    Inr (ctx, demo_admin, 28800002)"
proof -
  have "token_format (''oioi_'' @ demo_token_random)" by (rule token_format_random [OF demo_random_hex])
  with operator_token_exact [OF demo_sessions_ok(4) [of "''o1''" 0 "{}"], of demo_sha casl_reference "demo_state []" "''oioi_'' @ demo_token_random" 9]
    demo_acts [of "[]"] show ?thesis by (simp add: demo_session_rows)
qed

theorem operator_flow_works_witness:
  "\<exists>s3 ctx'. authorizeOperatorToken demo_sha casl_reference s3 s3 (''oioi_'' @ demo_token_random) 3 = Inr (ctx', demo_admin, 28800002)"
  using operator_flow_works [OF demo_sessions_ok(1) _ demo_random_hex, where sha = demo_sha and dev = "''d''" and ls = "[0, 1, 2, 3, 4, 5, 6, 7]"
      and ctx = demo_admin_ctx and user = demo_admin and v = 3 and ?t0.0 = 0 and ?t1.0 = 1 and ?t2.0 = 2 and ?t3.0 = 3 and i = "''o1''" and compile = casl_reference]
    demo_admin_ctx_ok demo_acts [of "[]"] demo_sha_hex by auto


theorem device_code_single_use_witness:
  "\<exists>r \<in> set [demo_approved ''o2'' 200000000]. ops_deviceHash r = demo_sha ''d'' \<and> ops_id r \<notin> {''o1''}"
proof -
  let ?step = "operator_step demo_sha casl_reference demo_mfa_env" and ?t = "200000000 :: instant"
  have old: "purge_pred (?t - 86400000) (demo_exchanged ''o1'' 0)"
    by (simp add: purge_pred_def demo_session_rows)
  have "?step (demo_state [demo_exchanged ''o1'' 0], {''o1''}) (demo_state [demo_fresh ''o2'' ?t], {''o1''} \<union> {''o2''})"
    using op_create [OF demo_create(1) [OF old, of "''o2''"], of "{''o1''}" casl_reference demo_mfa_env] by simp
  moreover have "?step (demo_state [demo_fresh ''o2'' ?t], {''o1''} \<union> {''o2''}) (demo_state [demo_approved ''o2'' ?t], {''o1''} \<union> {''o2''})"
    by (rule op_approve [OF demo_approve])
  ultimately have run: "?step\<^sup>*\<^sup>* (demo_state [demo_exchanged ''o1'' 0], {''o1''}) (demo_state [demo_approved ''o2'' ?t], {''o1''} \<union> {''o2''})"
    by (rule converse_rtranclp_into_rtranclp [OF _ r_into_rtranclp])
  have "\<exists>r \<in> set (operator_sessions (demo_state [demo_approved ''o2'' ?t])). ops_deviceHash r = demo_sha ''d'' \<and> ops_id r \<notin> {''o1''}"
    by (rule device_code_single_use [OF demo_sessions_ok(3) demo_exchange run demo_exchange])
  then show ?thesis by (simp only: demo_state_tables)
qed

theorem operator_cut_off_witness: "\<exists>(r :: operator_session_row) w. ops_accountId r = Some demo_admin \<and> ops_mfaVersion r = Some w \<and> (3::nat) < w"
proof -
  define s1 where "s1 = demo_mfa [(demo_mfa_row 1)\<lparr>mfa_version := 4\<rparr>]"
  define seen where "seen = demo_state [(demo_exchanged ''o1'' 0)\<lparr>ops_mfaVersion := Some 4\<rparr>]"
  have row: "mfa_version (demo_mfa_row n) = 3" for n by (simp add: demo_mfa_row_def)
  have "changeConsoleAccountAccess demo_admin \<lparr>ac_role = ADMIN, ac_status = ACTIVE\<rparr> (Some 3) \<lparr>ac_role = ADMIN, ac_status = ACTIVE\<rparr>
      (demo_mfa [demo_mfa_row 1]) = (Inr (Some 3, 4), s1)"
    by (simp add: changeConsoleAccountAccess_def lockConsoleAuthenticationFacts_def demo_account_def updateAccountAccess_def
        incrementAdminMfaVersion_def returning_def bump_set_def row s1_def)
      (simp add: demo_mfa_def demo_account_def)
  then have change: "resetConsoleMfa demo_admin (Some 3) (demo_mfa [demo_mfa_row 1]) = (Inr x, s1) \<or>
    changeConsoleAccountAccess demo_admin \<lparr>ac_role = ADMIN, ac_status = ACTIVE\<rparr> (Some 3) \<lparr>ac_role = ADMIN, ac_status = ACTIVE\<rparr>
      (demo_mfa [demo_mfa_row 1]) = (Inr (Some 3, 4), s1)" for x by blast
  have "token_format (''oioi_'' @ demo_token_random)" by (rule token_format_random [OF demo_random_hex])
  moreover have "acts_under s1 demo_admin 4" by (simp add: acts_under_def s1_def demo_account_def)
  moreover have "findOperatorSessionByToken seen (demo_sha (''oioi_'' @ demo_token_random)) 9 =
      Some ((demo_exchanged ''o1'' 0)\<lparr>ops_mfaVersion := Some 4\<rparr>)"
    by (simp add: findOperatorSessionByToken_def seen_def live_token_def demo_session_rows)
  ultimately have "authorizeOperatorToken demo_sha casl_reference seen s1 (''oioi_'' @ demo_token_random) 9 =
    Inr (\<lparr>ctx_user = Some demo_admin, ctx_ability = buildAbility casl_reference \<lparr>facts_accountId = Some demo_admin, facts_role = Some ADMIN\<rparr>\<rparr>,
      demo_admin, 28800002)"
    unfolding authorize_Inr by (simp add: demo_session_rows)
  from operator_cut_off [OF demo_mfas_ok change rtranclp.rtrancl_refl this] show ?thesis by blast
qed

end
