(* ===== verification/Lrc.thy ===== *)
theory Lrc imports Digits begin

text \<open>
  LRC files in the lyrics editor (\<open>apps/console/src/features/manage-lyrics/lib/lrc-parser.ts\<close>): the clock
  format of the editor, import and export, and how they fit together and with the reader of the server.
  \<open>parseTime\<close>, which nothing calls, is left out.
\<close>

section \<open>The code\<close>

text \<open>\<open>Math.round\<close>: halves go up.\<close>

definition js_round :: "jsnum \<Rightarrow> int" where
  "js_round x = \<lfloor>x + 1 / 2\<rfloor>"

definition formatTime :: "jsnum \<Rightarrow> nat \<Rightarrow> string" where
  "formatTime seconds precision =
    (let scale = 10 ^ precision;
         hundredths = nat (js_round (max 0 seconds * of_nat scale));
         m = hundredths div (60 * scale);
         s = (hundredths div scale) mod 60;
         ms = hundredths mod scale
     in padStart 2 (CHR ''0'') (decimal m) @ '':'' @ padStart 2 (CHR ''0'') (decimal s) @ ''.'' @
        padStart precision (CHR ''0'') (decimal ms))"

definition lrc_push :: "lyrics_data \<Rightarrow> string \<Rightarrow> lyrics_data" where
  "lrc_push result line =
    (case lrc_exec line of
       None \<Rightarrow> result
     | Some (before, stamp, after) \<Rightarrow>
         (let text = trim (before @ after) in
          if text \<noteq> []
          then result @ [\<lparr>line_startTime = stamp_time stamp,
            line_segments = [\<lparr>seg_text = text, seg_isCheer = False, seg_isEcho = False, seg_startTimeOffset = None\<rparr>],
            line_isExtra = False\<rparr>]
          else result))"

definition parseLrc :: "string \<Rightarrow> lyrics_data" where
  "parseLrc lrcText = sort_key line_startTime (foldl lrc_push [] (split_lines lrcText))"

definition stringify_line :: "lyric_line \<Rightarrow> string" where
  "stringify_line line = ''['' @ formatTime (line_startTime line) 2 @ '']'' @ '' '' @ concat (map seg_text (line_segments line))"

text \<open>\<open>join("\n")\<close>.\<close>

fun join_lines :: "string list \<Rightarrow> string" where
  "join_lines [] = []"
| "join_lines [l] = l"
| "join_lines (l # ls) = l @ CHR 0x0A # join_lines ls"

definition stringifyLrc :: "lyrics_data \<Rightarrow> string" where
  "stringifyLrc lyrics = join_lines (map stringify_line lyrics)"

section \<open>Import and the reader of the server\<close>

lemma foldl_lrc_push: "foldl lrc_push acc ls = acc @ concat (map parse_lrc_line ls)"
  by (induction ls arbitrary: acc) (auto simp: lrc_push_def parse_lrc_line_def Let_def split: option.splits)

lemma parseLrc_parsed_lines: "parseLrc t = parsed_lines t"
  by (simp add: parseLrc_def parsed_lines_def foldl_lrc_push)

text \<open>
  The editor and the server read LRC text alike: what the editor imports is what the server stores for a
  new song, and the server refuses exactly the texts in which the editor finds no line.\<close>

theorem import_agrees_with_server:
  "parseSongLyrics t = (if parseLrc t = [] then Inl (AppError SONG_LYRICS_INVALID) else Inr (parseLrc t))"
  by (simp add: parseSongLyrics_cases parseLrc_parsed_lines)

section \<open>Export and import\<close>

lemma split_join_lines: "ls \<noteq> [] \<Longrightarrow> (\<And>l. l \<in> set ls \<Longrightarrow> CHR 0x0A \<notin> set l) \<Longrightarrow> split_lines (join_lines ls) = ls"
proof (induction ls rule: join_lines.induct)
  case (2 l)
  then have "CHR 0x0A \<notin> set l" by simp
  then show ?case by (induction l) auto
next
  case (3 l m ls)
  then have "CHR 0x0A \<notin> set l" by simp
  then have "split_lines (l @ CHR 0x0A # t) = l # split_lines t" for t by (induction l) auto
  with 3 show ?case by simp
qed simp


lemma digit_0: "digit 0 = CHR ''0''"
  by (simp add: digit_def) code_simp

lemma pad_two: "n < 100 \<Longrightarrow> padStart 2 (CHR ''0'') (decimal n) = [digit (n div 10), digit (n mod 10)]"
proof (cases "n < 10")
  case True
  then show ?thesis by (subst decimal.simps) (simp add: padStart_def digit_0)
next
  case False
  assume "n < 100"
  then have "n div 10 < 10" by simp
  then have "decimal (n div 10) = [digit (n div 10)]" by (subst decimal.simps) simp
  with False show ?thesis by (subst decimal.simps) (simp add: padStart_def)
qed

lemma digits_val_two: "a < 10 \<Longrightarrow> b < 10 \<Longrightarrow> digits_val [digit a, digit b] = 10 * a + b"
  by (simp add: digits_val_def digit_val_def)

lemma js_round_nonneg: "0 \<le> x \<Longrightarrow> 0 \<le> js_round x"
  by (simp add: js_round_def)

lemma js_round_mono: "x \<le> y \<Longrightarrow> js_round x \<le> js_round y"
  by (simp add: js_round_def floor_mono)

lemma format_clock:
  assumes "0 \<le> t" and "nat (js_round (t * 100)) = h" and "h < 600000"
  shows "formatTime t 2 = [digit (h div 6000 div 10), digit (h div 6000 mod 10), CHR '':'',
    digit (h div 100 mod 60 div 10), digit (h div 100 mod 60 mod 10), CHR ''.'', digit (h mod 100 div 10), digit (h mod 100 mod 10)]"
proof -
  have "h div 6000 < 100" using assms(3) by (simp add: div_less_iff_less_mult)
  moreover have "h div 100 mod 60 < 100" using mod_less_divisor [of 60 "h div 100"] by linarith
  ultimately show ?thesis using assms(1,2) by (simp add: formatTime_def Let_def pad_two)
qed

lemma exec_digits:
  assumes "a < 10" "b < 10" "c < 10" "d < 10" "e < 10" "f < 10"
  shows "lrc_exec (''['' @ [digit a, digit b, CHR '':'', digit c, digit d, CHR ''.'', digit e, digit f] @ '']'' @ '' '' @ txt) =
    Some ([], \<lparr>stamp_minutes = digits_val [digit a, digit b], stamp_seconds = digits_val [digit c, digit d],
      stamp_fraction = [digit e, digit f]\<rparr>, '' '' @ txt)"
  using assms by simp

lemma clock_parts:
  fixes h m s c :: nat
  assumes "h = m * 6000 + s * 100 + c"
  shows "(of_nat h :: rat) / 100 = of_nat m * 60 + of_nat s + of_nat c / 100"
  unfolding assms by (simp add: field_simps)

lemma clock_split: "h = h div 6000 * 6000 + (h div 100 mod 60) * 100 + h mod (100 :: nat)"
proof -
  have "h = h div 100 * 100 + h mod 100" by (simp only: div_mult_mod_eq)
  moreover have "h div 100 = h div 100 div 60 * 60 + h div 100 mod 60" by (simp only: div_mult_mod_eq)
  moreover have "h div 100 div 60 = h div 6000" by (simp add: div_mult2_eq [symmetric])
  ultimately show ?thesis by linarith
qed

definition clock_time :: "jsnum \<Rightarrow> jsnum" where
  "clock_time t = of_int (js_round (t * 100)) / 100"

lemma exec_clock:
  assumes "0 \<le> t" and "js_round (t * 100) < 600000"
  shows "\<exists>st. lrc_exec (''['' @ formatTime t 2 @ '']'' @ '' '' @ txt) = Some ([], st, '' '' @ txt) \<and> stamp_time st = clock_time t"
proof -
  define h where "h = nat (js_round (t * 100))"
  have h: "h < 600000" "(of_nat h :: rat) = of_int (js_round (t * 100))"
    using assms js_round_nonneg [of "t * 100"] by (simp_all add: h_def)
  let ?m = "h div 6000" and ?s = "h div 100 mod 60" and ?c = "h mod 100"
  have small: "?m div 10 < 10" "?m mod 10 < 10" "?s div 10 < 10" "?s mod 10 < 10" "?c div 10 < 10" "?c mod 10 < 10"
    using h(1) mod_less_divisor [of 60 "h div 100"] mod_less_divisor [of 100 h]
    by (simp_all add: div_less_iff_less_mult)
  let ?st = "\<lparr>stamp_minutes = digits_val [digit (?m div 10), digit (?m mod 10)], stamp_seconds = digits_val [digit (?s div 10), digit (?s mod 10)],
    stamp_fraction = [digit (?c div 10), digit (?c mod 10)]\<rparr>"
  have "lrc_exec (''['' @ formatTime t 2 @ '']'' @ '' '' @ txt) = Some ([], ?st, '' '' @ txt)"
    unfolding format_clock [OF assms(1) h_def [symmetric] h(1)] by (rule exec_digits [OF small])
  moreover have "stamp_time ?st = clock_time t"
  proof -
    have vals: "digits_val [digit (?m div 10), digit (?m mod 10)] = ?m" "digits_val [digit (?s div 10), digit (?s mod 10)] = ?s"
      "digits_val [digit (?c div 10), digit (?c mod 10)] = ?c"
      using small by (simp_all add: digits_val_two)
    from clock_parts [OF clock_split [of h]] have "(of_nat h :: rat) / 100 = of_nat ?m * 60 + of_nat ?s + of_nat ?c / 100" .
    then show ?thesis unfolding stamp_time_def clock_time_def h(2) [symmetric] by (simp only: lrc_stamp.simps vals) simp
  qed
  ultimately show ?thesis by blast
qed

text \<open>What export and import leave of a line: its text, its time to the hundredth.\<close>

definition exported_text :: "lyric_line \<Rightarrow> string" where
  "exported_text l = concat (map seg_text (line_segments l))"

definition exported_line :: "lyric_line \<Rightarrow> lyric_line" where
  "exported_line l = \<lparr>line_startTime = clock_time (line_startTime l),
    line_segments = [\<lparr>seg_text = trim (exported_text l), seg_isCheer = False, seg_isEcho = False, seg_startTimeOffset = None\<rparr>],
    line_isExtra = False\<rparr>"

definition exportable :: "lyric_line \<Rightarrow> bool" where
  "exportable l \<longleftrightarrow> 0 \<le> line_startTime l \<and> js_round (line_startTime l * 100) < 600000 \<and>
    \<not> blank (exported_text l) \<and> CHR 0x0A \<notin> set (exported_text l)"

lemma trim_space: "trim (CHR '' '' # s) = trim s"
  by (simp add: trim_def is_space_def)

lemma parse_stringify_line: "exportable l \<Longrightarrow> parse_lrc_line (stringify_line l) = [exported_line l]"
  using exec_clock [of "line_startTime l" "exported_text l"]
  by (auto simp: exportable_def parse_lrc_line_def stringify_line_def exported_text_def [symmetric] exported_line_def blank_def
      trim_space Let_def)

lemma digit_not_newline: "n < 10 \<Longrightarrow> digit n \<noteq> CHR 0x0A"
proof
  assume "n < 10" and eq: "digit n = CHR 0x0A"
  then have "(48 + n :: nat) = of_char (CHR 0x0A)" by (metis of_char_digit)
  also have "(of_char (CHR 0x0A) :: nat) = 10" by code_simp
  finally show False by simp
qed

lemma stringify_no_newline: "exportable l \<Longrightarrow> CHR 0x0A \<notin> set (stringify_line l)"
proof -
  assume ex: "exportable l"
  define h where "h = nat (js_round (line_startTime l * 100))"
  have h: "h < 600000" using ex unfolding exportable_def h_def by linarith
  have "?thesis \<longleftrightarrow> CHR 0x0A \<notin> set (formatTime (line_startTime l) 2)"
    using ex by (simp add: stringify_line_def exportable_def exported_text_def)
  also have "\<dots>"
  proof -
    let ?ds = "[h div 6000 div 10, h div 6000 mod 10, h div 100 mod 60 div 10, h div 100 mod 60 mod 10, h mod 100 div 10, h mod 100 mod 10]"
    have "\<forall>d \<in> set ?ds. d < 10"
      using h mod_less_divisor [of 60 "h div 100"] mod_less_divisor [of 100 h] by (auto simp: div_less_iff_less_mult)
    then have "\<forall>d \<in> set ?ds. CHR 0x0A \<noteq> digit d" using digit_not_newline by metis
    moreover have "0 \<le> line_startTime l" using ex by (simp add: exportable_def)
    ultimately show ?thesis by (simp add: format_clock [OF _ h_def [symmetric] h])
  qed
  finally show ?thesis .
qed


section \<open>Two lines\<close>

definition demo_call :: "jsnum \<Rightarrow> string \<Rightarrow> lyric_line" where
  "demo_call t txt = \<lparr>line_startTime = t,
    line_segments = [\<lparr>seg_text = txt, seg_isCheer = True, seg_isEcho = False, seg_startTimeOffset = None\<rparr>], line_isExtra = False\<rparr>"

lemma demo_exportable: "exportable (demo_call (131 / 2) ''go'')" "exportable (demo_call (503 / 4) ''hey'')"
proof -
  have "js_round (131 / 2 * 100) = 6550" "js_round (503 / 4 * 100) = 12575" by code_simp+
  then show "exportable (demo_call (131 / 2) ''go'')" "exportable (demo_call (503 / 4) ''hey'')"
    by (simp_all add: exportable_def demo_call_def exported_text_def blank_iff is_space_def)
qed


text \<open>
  A line that starts at minute 100 or later gets three digits of minutes, which the reader does not
  accept: import drops it.\<close>

lemma late_line_dropped: "stringifyLrc [demo_call 6000 ''go''] = ''[100:00.00] go''" "parseLrc ''[100:00.00] go'' = []"
proof -
  have "decimal 100 = ''100''" "decimal 0 = ''0''" by code_simp+
  moreover have "js_round (6000 * 100) = 600000" by (simp add: js_round_def floor_eq_iff)
  ultimately show "stringifyLrc [demo_call 6000 ''go''] = ''[100:00.00] go''"
    by (simp add: stringifyLrc_def stringify_line_def demo_call_def formatTime_def padStart_def)
  show "parseLrc ''[100:00.00] go'' = []" by (simp add: parseLrc_def lrc_push_def is_digit_def)
qed

end
