(* ===== verification/EditorNotes.thy ===== *)
theory EditorNotes imports Lrc "HOL-Library.Multiset" begin

text \<open>
  The notes of the lyrics editor (\<open>apps/console/src/features/manage-lyrics/lib/editor-notes.ts\<close>): the
  projection of lyrics to notes on four lanes, and the edits of single notes.
\<close>

section \<open>Notes\<close>

datatype note_lane = LyricsLane | CheerLane | EchoLane | ExtraLane

record editor_note =
  en_id :: string
  en_lineIndex :: nat
  en_segmentIndex :: "nat option"
  en_lane :: note_lane
  en_text :: string
  en_time :: jsnum
  en_segments :: "(lyric_segment \<times> nat) list"

text \<open>\<open>Math.round(time * 100) / 100\<close>.\<close>

definition round_time :: "jsnum \<Rightarrow> jsnum" where
  "round_time time = of_int (js_round (time * 100)) / 100"

definition idFor :: "nat \<Rightarrow> nat option \<Rightarrow> string" where
  "idFor line segment =
    (case segment of None \<Rightarrow> ''line:'' @ decimal line
     | Some i \<Rightarrow> ''extra:'' @ decimal line @ '':'' @ decimal i)"

text \<open>A list with the positions of its elements.\<close>

abbreviation with_index :: "'a list \<Rightarrow> (nat \<times> 'a) list" where
  "with_index xs \<equiv> List.enumerate 0 xs"

definition segment_offset :: "lyric_segment \<Rightarrow> jsnum" where
  "segment_offset s = coalesce (seg_startTimeOffset s) 0"

definition line_lane :: "lyric_line \<Rightarrow> note_lane" where
  "line_lane line =
    (if line_segments line \<noteq> [] \<and> list_all seg_isEcho (line_segments line) then EchoLane
     else if line_segments line \<noteq> [] \<and> list_all (\<lambda>s. seg_isCheer s \<and> \<not> seg_isEcho s) (line_segments line) then CheerLane
     else LyricsLane)"

definition line_notes :: "nat \<Rightarrow> lyric_line \<Rightarrow> editor_note list" where
  "line_notes lineIndex line =
    (if line_isExtra line
     then map (\<lambda>(segmentIndex, segment).
       \<lparr>en_id = idFor lineIndex (Some segmentIndex), en_lineIndex = lineIndex, en_segmentIndex = Some segmentIndex,
        en_lane = ExtraLane, en_text = seg_text segment,
        en_time = round_time (line_startTime line + segment_offset segment), en_segments = [(segment, segmentIndex)]\<rparr>)
       (with_index (line_segments line))
     else [\<lparr>en_id = idFor lineIndex None, en_lineIndex = lineIndex, en_segmentIndex = None, en_lane = line_lane line,
        en_text = concat (map seg_text (line_segments line)), en_time = line_startTime line,
        en_segments = map (\<lambda>(i, s). (s, i)) (with_index (line_segments line))\<rparr>])"

definition getEditorNotes :: "lyrics_data \<Rightarrow> editor_note list" where
  "getEditorNotes lyrics = concat (map (\<lambda>(i, line). line_notes i line) (with_index lyrics))"

section \<open>Edits\<close>

text \<open>A time that is not finite is \<open>None\<close>; the keys of a partial segment that are absent are \<open>None\<close>.\<close>

record segment_patch =
  sp_text :: "string option"
  sp_isCheer :: "bool option"
  sp_isEcho :: "bool option"

datatype note_edit =
    AddNote note_lane "jsnum option" string
  | MoveNote string "jsnum option"
  | TextNote string string
  | SegmentNote string nat segment_patch
  | DuplicateNote string "jsnum option"
  | DeleteNote string

record edit_result =
  res_lyrics :: lyrics_data
  res_noteId :: "string option"
  res_lineIndex :: nat

fun edit_id :: "note_edit \<Rightarrow> string" where
  "edit_id (AddNote _ _ _) = []"
| "edit_id (MoveNote i _) = i"
| "edit_id (TextNote i _) = i"
| "edit_id (SegmentNote i _ _) = i"
| "edit_id (DuplicateNote i _) = i"
| "edit_id (DeleteNote i) = i"

text \<open>The guard \<open>"time" in edit && (!Number.isFinite(edit.time) || edit.time < 0)\<close>.\<close>

definition bad_time :: "jsnum option \<Rightarrow> bool" where
  "bad_time t = (case t of None \<Rightarrow> True | Some x \<Rightarrow> x < 0)"

fun edit_time_bad :: "note_edit \<Rightarrow> bool" where
  "edit_time_bad (AddNote _ t _) = bad_time t"
| "edit_time_bad (MoveNote _ t) = bad_time t"
| "edit_time_bad (DuplicateNote _ t) = bad_time t"
| "edit_time_bad _ = False"

text \<open>
  Appending a line, sorting by start time (the sort is stable) and asking for the position of the
  appended object: the mark stands for its identity.
\<close>

definition push_sorted :: "lyrics_data \<Rightarrow> lyric_line \<Rightarrow> lyrics_data \<times> nat" where
  "push_sorted lyrics line =
    (let marked = sort_key (line_startTime \<circ> fst) (map (\<lambda>l. (l, False)) lyrics @ [(line, True)])
     in (map fst marked, length (takeWhile (\<lambda>x. \<not> snd x) marked)))"

definition new_line :: "note_lane \<Rightarrow> jsnum \<Rightarrow> string \<Rightarrow> lyric_line" where
  "new_line lane time txt = \<lparr>line_startTime = round_time time,
    line_segments = [\<lparr>seg_text = trim txt, seg_isCheer = (lane = CheerLane \<or> lane = ExtraLane), seg_isEcho = (lane = EchoLane),
      seg_startTimeOffset = (if lane = ExtraLane then Some 0 else None)\<rparr>],
    line_isExtra = (lane = ExtraLane)\<rparr>"

definition add_note :: "lyrics_data \<Rightarrow> note_lane \<Rightarrow> jsnum \<Rightarrow> string \<Rightarrow> edit_result" where
  "add_note lyrics lane time txt =
    (case push_sorted lyrics (new_line lane time txt) of (next, lineIndex) \<Rightarrow>
      \<lparr>res_lyrics = next, res_noteId = Some (idFor lineIndex (if lane = ExtraLane then Some 0 else None)), res_lineIndex = lineIndex\<rparr>)"

definition remove_at :: "nat \<Rightarrow> 'a list \<Rightarrow> 'a list" where
  "remove_at i xs = take i xs @ drop (Suc i) xs"

definition insert_at :: "nat \<Rightarrow> 'a \<Rightarrow> 'a list \<Rightarrow> 'a list" where
  "insert_at i x xs = take i xs @ x # drop i xs"

definition delete_note :: "lyrics_data \<Rightarrow> editor_note \<Rightarrow> edit_result" where
  "delete_note lyrics note =
    (let line = lyrics ! en_lineIndex note;
         next = (case en_segmentIndex note of
             None \<Rightarrow> remove_at (en_lineIndex note) lyrics
           | Some i \<Rightarrow> (if length (line_segments line) = 1 then remove_at (en_lineIndex note) lyrics
               else lyrics[en_lineIndex note := line\<lparr>line_segments := remove_at i (line_segments line)\<rparr>]));
         lineIndex = min (en_lineIndex note) (length next - 1);
         selected = find (\<lambda>n. en_lineIndex n = lineIndex) (getEditorNotes next)
     in \<lparr>res_lyrics = next, res_noteId = map_option en_id selected, res_lineIndex = lineIndex\<rparr>)"

definition patch_same :: "segment_patch \<Rightarrow> lyric_segment \<Rightarrow> bool" where
  "patch_same p s \<longleftrightarrow> (case sp_text p of None \<Rightarrow> True | Some t \<Rightarrow> seg_text s = t) \<and>
    (case sp_isCheer p of None \<Rightarrow> True | Some b \<Rightarrow> seg_isCheer s = b) \<and>
    (case sp_isEcho p of None \<Rightarrow> True | Some b \<Rightarrow> seg_isEcho s = b)"

definition patch_segment :: "segment_patch \<Rightarrow> lyric_segment \<Rightarrow> lyric_segment" where
  "patch_segment p s = s\<lparr>seg_text := coalesce (sp_text p) (seg_text s),
    seg_isCheer := coalesce (sp_isCheer p) (seg_isCheer s), seg_isEcho := coalesce (sp_isEcho p) (seg_isEcho s)\<rparr>"

text \<open>\<open>next[i] = { ...line, segments: line.segments.map(...) }\<close>, keeping the selection.\<close>

definition replace_segment :: "lyrics_data \<Rightarrow> editor_note \<Rightarrow> nat \<Rightarrow> (lyric_segment \<Rightarrow> lyric_segment) \<Rightarrow> edit_result" where
  "replace_segment lyrics note i f =
    (let line = lyrics ! en_lineIndex note in
     \<lparr>res_lyrics = lyrics[en_lineIndex note := line\<lparr>line_segments := (line_segments line)[i := f (line_segments line ! i)]\<rparr>],
      res_noteId = Some (en_id note), res_lineIndex = en_lineIndex note\<rparr>)"

definition patch_note :: "lyrics_data \<Rightarrow> editor_note \<Rightarrow> nat \<Rightarrow> segment_patch \<Rightarrow> edit_result option" where
  "patch_note lyrics note i p =
    (let line = lyrics ! en_lineIndex note in
     if length (line_segments line) \<le> i \<or> (en_segmentIndex note \<noteq> None \<and> en_segmentIndex note \<noteq> Some i) then None
     else if patch_same p (line_segments line ! i) then None
     else Some (replace_segment lyrics note i (patch_segment p)))"

definition text_note :: "lyrics_data \<Rightarrow> editor_note \<Rightarrow> string \<Rightarrow> edit_result option" where
  "text_note lyrics note txt =
    (let line = lyrics ! en_lineIndex note; i = coalesce (en_segmentIndex note) 0 in
     if en_segmentIndex note = None \<and> length (line_segments line) \<noteq> 1 then None
     else if seg_text (line_segments line ! i) = txt then None
     else Some (replace_segment lyrics note i (\<lambda>s. s\<lparr>seg_text := txt\<rparr>)))"

definition duplicate_line :: "lyrics_data \<Rightarrow> editor_note \<Rightarrow> jsnum \<Rightarrow> edit_result" where
  "duplicate_line lyrics note time =
    (case push_sorted lyrics ((lyrics ! en_lineIndex note)\<lparr>line_startTime := round_time time\<rparr>) of (next, lineIndex) \<Rightarrow>
      \<lparr>res_lyrics = next, res_noteId = Some (idFor lineIndex None), res_lineIndex = lineIndex\<rparr>)"

text \<open>The absolute times of the segments of an extra line, and the line that has given ones.\<close>

definition segment_times :: "lyric_line \<Rightarrow> jsnum list" where
  "segment_times line = map (\<lambda>s. line_startTime line + segment_offset s) (line_segments line)"

definition retimed_line :: "lyric_line \<Rightarrow> lyric_segment list \<Rightarrow> jsnum list \<Rightarrow> lyric_line" where
  "retimed_line line segments ts =
    (let startTime = Min (set ts) in
     line\<lparr>line_startTime := startTime,
       line_segments := map (\<lambda>(s, t). s\<lparr>seg_startTimeOffset := Some (round_time (t - startTime))\<rparr>) (zip segments ts)\<rparr>)"

definition retime_segment :: "lyrics_data \<Rightarrow> editor_note \<Rightarrow> nat \<Rightarrow> bool \<Rightarrow> jsnum \<Rightarrow> edit_result" where
  "retime_segment lyrics note i duplicate time =
    (let line = lyrics ! en_lineIndex note;
         ts = segment_times line;
         segments = line_segments line;
         selected = (if duplicate then i + 1 else i);
         segments' = (if duplicate then insert_at (i + 1) (segments ! i) segments else segments);
         ts' = (if duplicate then insert_at (i + 1) (round_time time) ts else ts[i := round_time time])
     in \<lparr>res_lyrics = lyrics[en_lineIndex note := retimed_line line segments' ts'],
         res_noteId = Some (idFor (en_lineIndex note) (Some selected)), res_lineIndex = en_lineIndex note\<rparr>)"

definition move_note :: "lyrics_data \<Rightarrow> editor_note \<Rightarrow> jsnum \<Rightarrow> edit_result option" where
  "move_note lyrics note time =
    (if round_time time = round_time (en_time note) then None
     else (case en_segmentIndex note of
         Some i \<Rightarrow> Some (retime_segment lyrics note i False time)
       | None \<Rightarrow> Some \<lparr>res_lyrics = lyrics[en_lineIndex note := (lyrics ! en_lineIndex note)\<lparr>line_startTime := round_time time\<rparr>],
           res_noteId = Some (en_id note), res_lineIndex = en_lineIndex note\<rparr>))"

definition duplicate_note :: "lyrics_data \<Rightarrow> editor_note \<Rightarrow> jsnum \<Rightarrow> edit_result" where
  "duplicate_note lyrics note time =
    (case en_segmentIndex note of
       None \<Rightarrow> duplicate_line lyrics note time
     | Some i \<Rightarrow> retime_segment lyrics note i True time)"

definition applyNoteEdit :: "lyrics_data \<Rightarrow> note_edit \<Rightarrow> edit_result option" where
  "applyNoteEdit lyrics edit =
    (if edit_time_bad edit then None
     else (case edit of
       AddNote lane time txt \<Rightarrow> Some (add_note lyrics lane (coalesce time 0) txt)
     | _ \<Rightarrow>
       (case find (\<lambda>n. en_id n = edit_id edit) (getEditorNotes lyrics) of
          None \<Rightarrow> None
        | Some note \<Rightarrow>
            (case edit of
               DeleteNote _ \<Rightarrow> Some (delete_note lyrics note)
             | SegmentNote _ i p \<Rightarrow> patch_note lyrics note i p
             | TextNote _ txt \<Rightarrow> text_note lyrics note txt
             | DuplicateNote _ time \<Rightarrow> Some (duplicate_note lyrics note (coalesce time 0))
             | MoveNote _ time \<Rightarrow> move_note lyrics note (coalesce time 0)
             | AddNote _ _ _ \<Rightarrow> None))))"


section \<open>Identifiers\<close>

lemma decimal_inject [simp]: "decimal m = decimal n \<longleftrightarrow> m = n"
  by (metis digits_value_decimal)

lemma takeWhile_decimal: "takeWhile is_digit (decimal n @ CHR '':'' # s) = decimal n"
  using list_all_decimal [of n] by (subst takeWhile_append2) (auto simp: list_all_iff is_digit_def)

lemma idFor_inject [simp]: "idFor l s = idFor l' s' \<longleftrightarrow> l = l' \<and> s = s'"
proof (cases s; cases s')
  fix i i'
  assume s: "s = Some i" "s' = Some i'"
  show ?thesis
  proof
    assume "idFor l s = idFor l' s'"
    then have eq: "decimal l @ CHR '':'' # decimal i = decimal l' @ CHR '':'' # decimal i'" by (simp add: s idFor_def)
    then have "decimal l = decimal l'" by (metis takeWhile_decimal)
    with eq show "l = l' \<and> s = s'" by (simp add: s)
  qed simp
qed (simp_all add: idFor_def)

lemma with_index_nth: "(i, x) \<in> set (with_index xs) \<longleftrightarrow> i < length xs \<and> x = xs ! i"
  by (auto simp: in_set_enumerate_eq)

lemma map_enumerate_snd [simp]: "map (\<lambda>(i, x). f x) (List.enumerate n xs) = map f xs"
  by (induction xs arbitrary: n) simp_all

lemma notes_in:
  "n \<in> set (getEditorNotes lyrics) \<longleftrightarrow> (\<exists>i < length lyrics. n \<in> set (line_notes i (lyrics ! i)))"
  by (force simp: getEditorNotes_def with_index_nth)

text \<open>The note of an extra segment and the note of a whole line.\<close>

lemma line_notes_in:
  "n \<in> set (line_notes i line) \<longleftrightarrow>
    (if line_isExtra line
     then (\<exists>k < length (line_segments line). n = \<lparr>en_id = idFor i (Some k), en_lineIndex = i, en_segmentIndex = Some k,
       en_lane = ExtraLane, en_text = seg_text (line_segments line ! k),
       en_time = round_time (line_startTime line + segment_offset (line_segments line ! k)), en_segments = [(line_segments line ! k, k)]\<rparr>)
     else n = \<lparr>en_id = idFor i None, en_lineIndex = i, en_segmentIndex = None, en_lane = line_lane line,
        en_text = concat (map seg_text (line_segments line)), en_time = line_startTime line,
        en_segments = map (\<lambda>(i, s). (s, i)) (with_index (line_segments line))\<rparr>)"
  by (force simp: line_notes_def with_index_nth)

lemma note_parts:
  assumes "n \<in> set (getEditorNotes lyrics)"
  shows "en_lineIndex n < length lyrics" and "en_id n = idFor (en_lineIndex n) (en_segmentIndex n)"
    and "n \<in> set (line_notes (en_lineIndex n) (lyrics ! en_lineIndex n))"
    and "line_isExtra (lyrics ! en_lineIndex n) \<longleftrightarrow> en_segmentIndex n \<noteq> None"
    and "en_segmentIndex n = Some k \<Longrightarrow> k < length (line_segments (lyrics ! en_lineIndex n))"
  using assms by (auto simp: notes_in line_notes_in split: if_splits)

lemma notes_unique:
  "n \<in> set (getEditorNotes lyrics) \<Longrightarrow> m \<in> set (getEditorNotes lyrics) \<Longrightarrow> en_id n = en_id m \<Longrightarrow> n = m"
  by (auto simp: notes_in line_notes_in split: if_splits)

lemma find_note:
  "find (\<lambda>n. en_id n = x) (getEditorNotes lyrics) = Some n \<longleftrightarrow> n \<in> set (getEditorNotes lyrics) \<and> en_id n = x"
proof
  assume "find (\<lambda>n. en_id n = x) (getEditorNotes lyrics) = Some n"
  then show "n \<in> set (getEditorNotes lyrics) \<and> en_id n = x" by (auto simp: find_Some_iff)
next
  assume n: "n \<in> set (getEditorNotes lyrics) \<and> en_id n = x"
  then obtain m where "find (\<lambda>n. en_id n = x) (getEditorNotes lyrics) = Some m"
    by (cases "find (\<lambda>n. en_id n = x) (getEditorNotes lyrics)") (auto simp: find_None_iff)
  moreover from this have "m \<in> set (getEditorNotes lyrics)" "en_id m = x" by (auto simp: find_Some_iff)
  ultimately show "find (\<lambda>n. en_id n = x) (getEditorNotes lyrics) = Some n" using n notes_unique by metis
qed

section \<open>Time grid\<close>

definition on_grid :: "jsnum \<Rightarrow> bool" where
  "on_grid t \<longleftrightarrow> t * 100 \<in> \<int>"

lemma round_on_grid [simp]: "on_grid (round_time t)"
  by (simp add: on_grid_def round_time_def)

lemma round_grid: "on_grid t \<Longrightarrow> round_time t = t"
proof -
  assume "on_grid t"
  then obtain k where k: "t * 100 = of_int k" by (auto simp: on_grid_def elim: Ints_cases)
  then have "js_round (t * 100) = k" by (simp add: js_round_def floor_eq_iff)
  then show "round_time t = t" by (simp add: round_time_def flip: k)
qed

lemma round_idem [simp]: "round_time (round_time t) = round_time t"
  by (rule round_grid) simp

lemma grid_add: "on_grid x \<Longrightarrow> on_grid y \<Longrightarrow> on_grid (x + y)"
  by (simp add: on_grid_def distrib_right)

lemma grid_diff: "on_grid x \<Longrightarrow> on_grid y \<Longrightarrow> on_grid (x - y)"
  by (simp add: on_grid_def left_diff_distrib)

lemma round_nonneg: "0 \<le> t \<Longrightarrow> 0 \<le> round_time t"
  by (simp add: round_time_def js_round_nonneg)

definition line_grid :: "lyric_line \<Rightarrow> bool" where
  "line_grid line \<longleftrightarrow> on_grid (line_startTime line) \<and> list_all (\<lambda>s. on_grid (segment_offset s)) (line_segments line)"

definition lyrics_grid :: "lyrics_data \<Rightarrow> bool" where
  "lyrics_grid lyrics \<longleftrightarrow> list_all line_grid lyrics"


section \<open>The notes as a collection\<close>

text \<open>
  What a user sees: a collection of notes, each on a line or on its own (an extra call), with a time and
  its segments.  Positions and identifiers are details of the representation.
\<close>

record note_view =
  nv_extra :: bool
  nv_time :: jsnum
  nv_segments :: "lyric_segment list"

definition bare :: "lyric_segment \<Rightarrow> lyric_segment" where
  "bare s = s\<lparr>seg_startTimeOffset := None\<rparr>"

definition note_view :: "editor_note \<Rightarrow> note_view" where
  "note_view n = \<lparr>nv_extra = (en_segmentIndex n \<noteq> None), nv_time = en_time n,
    nv_segments = map (\<lambda>(s, _). if en_segmentIndex n \<noteq> None then bare s else s) (en_segments n)\<rparr>"

definition note_views :: "lyrics_data \<Rightarrow> note_view multiset" where
  "note_views lyrics = mset (map note_view (getEditorNotes lyrics))"

text \<open>What each edit should do to the collection, given the view of the edited note.\<close>

fun edited_views :: "note_edit \<Rightarrow> note_view \<Rightarrow> note_view multiset \<Rightarrow> note_view multiset" where
  "edited_views (AddNote lane t txt) v vs = vs +
    {#\<lparr>nv_extra = (lane = ExtraLane), nv_time = round_time (coalesce t 0),
       nv_segments = [\<lparr>seg_text = trim txt, seg_isCheer = (lane = CheerLane \<or> lane = ExtraLane), seg_isEcho = (lane = EchoLane),
         seg_startTimeOffset = None\<rparr>]\<rparr>#}"
| "edited_views (MoveNote i t) v vs = vs - {#v#} + {#v\<lparr>nv_time := round_time (coalesce t 0)\<rparr>#}"
| "edited_views (DuplicateNote i t) v vs = vs + {#v\<lparr>nv_time := round_time (coalesce t 0)\<rparr>#}"
| "edited_views (TextNote i txt) v vs = vs - {#v#} + {#v\<lparr>nv_segments := map (\<lambda>s. s\<lparr>seg_text := txt\<rparr>) (nv_segments v)\<rparr>#}"
| "edited_views (SegmentNote i k p) v vs =
    (let j = (if nv_extra v then 0 else k) in
     vs - {#v#} + {#v\<lparr>nv_segments := (nv_segments v)[j := patch_segment p (nv_segments v ! j)]\<rparr>#})"
| "edited_views (DeleteNote i) v vs = vs - {#v#}"

definition line_views :: "lyric_line \<Rightarrow> note_view list" where
  "line_views line =
    (if line_isExtra line
     then map (\<lambda>s. \<lparr>nv_extra = True, nv_time = round_time (line_startTime line + segment_offset s), nv_segments = [bare s]\<rparr>)
       (line_segments line)
     else [\<lparr>nv_extra = False, nv_time = line_startTime line, nv_segments = line_segments line\<rparr>])"

lemma map_snd_enumerate_fun: "map (\<lambda>x. f (snd x)) (List.enumerate n xs) = map f xs"
  by (induction xs arbitrary: n) simp_all

lemma line_notes_views: "map note_view (line_notes i line) = line_views line"
  using map_snd_enumerate_fun [of "\<lambda>s. \<lparr>nv_extra = True, nv_time = round_time (line_startTime line + segment_offset s),
      nv_segments = [bare s]\<rparr>" 0 "line_segments line"] map_snd_enumerate_fun [of "\<lambda>s. s" 0 "line_segments line"]
  by (simp add: line_notes_def line_views_def note_view_def case_prod_beta comp_def)

lemma note_views_lines: "note_views lyrics = mset (concat (map line_views lyrics))"
proof -
  have "map note_view (concat (map (\<lambda>(i, line). line_notes i line) (List.enumerate n lyrics))) = concat (map line_views lyrics)" for n
    by (induction lyrics arbitrary: n) (simp_all add: line_notes_views)
  then show ?thesis by (simp add: note_views_def getEditorNotes_def)
qed

lemma mset_concat_split:
  "i < length xs \<Longrightarrow> mset (concat (map f xs)) =
    mset (concat (map f (take i xs))) + mset (f (xs ! i)) + mset (concat (map f (drop (Suc i) xs)))"
  using id_take_nth_drop [of i xs] by (metis (no_types, lifting) concat.simps(2) concat_append list.simps(9) map_append mset_append union_assoc)

lemma mset_concat_update:
  "i < length xs \<Longrightarrow> mset (concat (map f (xs[i := x]))) = mset (concat (map f xs)) - mset (f (xs ! i)) + mset (f x)"
  by (subst mset_concat_split [of i xs]) (simp_all add: upd_conv_take_nth_drop)

lemma mset_concat_remove:
  "i < length xs \<Longrightarrow> mset (concat (map f (remove_at i xs))) = mset (concat (map f xs)) - mset (f (xs ! i))"
  by (subst mset_concat_split [of i xs]) (simp_all add: remove_at_def)

lemma mset_concat_sum: "mset (concat (map f xs)) = \<Sum>\<^sub># (image_mset (\<lambda>x. mset (f x)) (mset xs))"
  by (induction xs) simp_all

lemma note_views_mset: "mset xs = mset ys \<Longrightarrow> note_views xs = note_views ys"
  by (simp add: note_views_lines mset_concat_sum)

lemma push_sorted_mset: "mset (fst (push_sorted lyrics line)) = add_mset line (mset lyrics)"
proof -
  have "mset (map fst (sort_key (line_startTime \<circ> fst) (map (\<lambda>l. (l, False)) lyrics @ [(line, True)]))) =
      mset (map fst (map (\<lambda>l. (l, False)) lyrics @ [(line, True)]))" by (simp only: mset_map mset_sort)
  then show ?thesis by (simp add: push_sorted_def Let_def comp_def)
qed

lemma push_sorted_views: "note_views (fst (push_sorted lyrics line)) = note_views lyrics + mset (line_views line)"
proof -
  have "mset (fst (push_sorted lyrics line)) = mset (lyrics @ [line])" by (simp add: push_sorted_mset)
  then have "note_views (fst (push_sorted lyrics line)) = note_views (lyrics @ [line])" by (rule note_views_mset)
  then show ?thesis by (simp add: note_views_lines)
qed

lemma push_sorted_set: "set (fst (push_sorted lyrics line)) = insert line (set lyrics)"
  by (metis push_sorted_mset set_mset_add_mset_insert set_mset_mset)

text \<open>The view of a note among the views of its line.\<close>

lemma extra_note_view:
  "n \<in> set (line_notes i line) \<Longrightarrow> en_segmentIndex n = Some k \<Longrightarrow>
    line_isExtra line \<and> k < length (line_segments line) \<and> line_views line ! k = note_view n"
  by (auto simp: line_notes_in line_views_def note_view_def split: if_splits)

lemma whole_note_view:
  "n \<in> set (line_notes i line) \<Longrightarrow> en_segmentIndex n = None \<Longrightarrow> \<not> line_isExtra line \<and> line_views line = [note_view n]"
proof -
  assume n: "n \<in> set (line_notes i line)" "en_segmentIndex n = None"
  then have "\<not> line_isExtra line" by (auto simp: line_notes_in split: if_splits)
  moreover from this n(1) have "line_notes i line = [n]" by (simp add: line_notes_def)
  ultimately show ?thesis using line_notes_views [of i line] by simp
qed


section \<open>Lists of views under the edits\<close>

lemma map_remove_at: "map f (remove_at i xs) = remove_at i (map f xs)"
  by (simp add: remove_at_def take_map drop_map)

lemma mset_remove_at: "i < length xs \<Longrightarrow> mset (remove_at i xs) = mset xs - {#xs ! i#}"
  by (subst (2) id_take_nth_drop [of i xs]) (simp_all add: remove_at_def)

lemma mset_insert_at: "mset (insert_at i x xs) = add_mset x (mset xs)"
proof -
  have "mset xs = mset (take i xs) + mset (drop i xs)" by (metis append_take_drop_id mset_append)
  then show ?thesis by (simp add: insert_at_def)
qed

lemma length_insert_at [simp]: "length (insert_at i x xs) = Suc (length xs)"
  by (simp add: insert_at_def)

lemma zip_insert_at: "length xs = length ys \<Longrightarrow> zip (insert_at i x xs) (insert_at i y ys) = insert_at i (x, y) (zip xs ys)"
  by (simp add: insert_at_def take_zip drop_zip)

lemma map_insert_at: "map f (insert_at i x xs) = insert_at i (f x) (map f xs)"
  by (simp add: insert_at_def take_map drop_map)

lemma set_insert_at [simp]: "set (insert_at i x xs) = insert x (set xs)"
  by (metis mset_insert_at set_mset_add_mset_insert set_mset_mset)

lemma set_remove_at: "set (remove_at i xs) \<subseteq> set xs"
  by (auto simp: remove_at_def dest: in_set_takeD in_set_dropD)

lemma views_update:
  assumes "i < length lyrics" and "mset (line_views l') = mset (line_views (lyrics ! i)) - V + W" and "V \<subseteq># mset (line_views (lyrics ! i))"
  shows "note_views (lyrics[i := l']) = note_views lyrics - V + W"
proof -
  let ?A = "mset (concat (map line_views (take i lyrics)))" and ?B = "mset (concat (map line_views (drop (Suc i) lyrics)))"
  have "note_views (lyrics[i := l']) = ?A + mset (line_views l') + ?B"
    using assms(1) by (simp add: note_views_lines upd_conv_take_nth_drop)
  moreover have "note_views lyrics = ?A + mset (line_views (lyrics ! i)) + ?B"
    using mset_concat_split [OF assms(1), of line_views] by (simp add: note_views_lines)
  moreover obtain Y where Y: "mset (line_views (lyrics ! i)) = V + Y" using assms(3) by (auto simp: mset_subset_eq_exists_conv)
  moreover have "?A + (V + Y) + ?B = V + (?A + Y + ?B)" "?A + (Y + W) + ?B = (?A + Y + ?B) + W" by (simp_all only: ac_simps)
  ultimately show ?thesis using assms(2) by (simp only: add_diff_cancel_left')
qed

lemma views_replace:
  assumes "i < length lyrics" and "k < length (line_views (lyrics ! i))" and "line_views l' = (line_views (lyrics ! i))[k := v']"
  shows "note_views (lyrics[i := l']) = note_views lyrics - {#line_views (lyrics ! i) ! k#} + {#v'#}"
  using assms by (intro views_update) (simp_all add: mset_update)

lemma views_remove: "i < length lyrics \<Longrightarrow> note_views (remove_at i lyrics) = note_views lyrics - mset (line_views (lyrics ! i))"
  by (simp add: note_views_lines mset_concat_remove)

definition timed_views :: "lyric_segment list \<Rightarrow> jsnum list \<Rightarrow> note_view list" where
  "timed_views segments ts = map (\<lambda>(s, t). \<lparr>nv_extra = True, nv_time = t, nv_segments = [bare s]\<rparr>) (zip segments ts)"

lemma length_timed_views [simp]: "length (timed_views ss ts) = min (length ss) (length ts)"
  by (simp add: timed_views_def)

lemma timed_views_update: "i < length ss \<Longrightarrow> length ss = length ts \<Longrightarrow>
    timed_views ss (ts[i := t]) = (timed_views ss ts)[i := \<lparr>nv_extra = True, nv_time = t, nv_segments = [bare (ss ! i)]\<rparr>]"
  by (rule nth_equalityI) (auto simp: timed_views_def nth_list_update)

lemma timed_views_insert: "length ss = length ts \<Longrightarrow>
    timed_views (insert_at i s ss) (insert_at i t ts) = insert_at i \<lparr>nv_extra = True, nv_time = t, nv_segments = [bare s]\<rparr> (timed_views ss ts)"
  by (simp add: timed_views_def zip_insert_at map_insert_at)

lemma length_segment_times [simp]: "length (segment_times line) = length (line_segments line)"
  by (simp add: segment_times_def)

lemma line_times_grid: "line_grid line \<Longrightarrow> t \<in> set (segment_times line) \<Longrightarrow> on_grid t"
  by (auto simp: line_grid_def segment_times_def list_all_iff intro: grid_add)

lemma extra_line_views: "line_isExtra line \<Longrightarrow> line_grid line \<Longrightarrow> line_views line = timed_views (line_segments line) (segment_times line)"
  by (rule nth_equalityI)
    (auto simp: line_views_def timed_views_def segment_times_def line_grid_def list_all_iff intro!: round_grid grid_add)

lemma segment_offset_set [simp]: "segment_offset (s\<lparr>seg_startTimeOffset := Some x\<rparr>) = x"
  by (simp add: segment_offset_def)

lemma bare_offset [simp]: "bare (s\<lparr>seg_startTimeOffset := x\<rparr>) = bare s"
  by (simp add: bare_def)

lemma min_grid: "ts \<noteq> [] \<Longrightarrow> \<forall>t \<in> set ts. on_grid t \<Longrightarrow> on_grid (Min (set ts))"
  by (metis List.finite_set Min_in set_empty)

lemma retimed_views:
  assumes "line_isExtra line" and "length ss = length ts" and "ts \<noteq> []" and "\<forall>t \<in> set ts. on_grid t"
  shows "line_views (retimed_line line ss ts) = timed_views ss ts" and "line_grid (retimed_line line ss ts)"
proof -
  have m: "on_grid (Min (set ts))" using assms(3,4) by (rule min_grid)
  show "line_views (retimed_line line ss ts) = timed_views ss ts"
  proof (rule nth_equalityI)
    fix i assume i: "i < length (line_views (retimed_line line ss ts))"
    then have "i < length ts" using assms(1,2) by (simp add: retimed_line_def Let_def line_views_def)
    then have "on_grid (ts ! i)" using assms(4) by simp
    then have "round_time (Min (set ts) + round_time (ts ! i - Min (set ts))) = ts ! i"
      using m by (simp add: round_grid grid_diff grid_add)
    with assms(1,2) \<open>i < length ts\<close> show "line_views (retimed_line line ss ts) ! i = timed_views ss ts ! i"
      by (simp add: retimed_line_def Let_def line_views_def timed_views_def)
  qed (use assms in \<open>simp add: retimed_line_def Let_def line_views_def\<close>)
  show "line_grid (retimed_line line ss ts)"
    using m by (auto simp: line_grid_def retimed_line_def Let_def list_all_iff)
qed


section \<open>Each edit on the collection\<close>

lemma note_view_simps [simp]:
  "nv_extra (note_view n) \<longleftrightarrow> en_segmentIndex n \<noteq> None" "nv_time (note_view n) = en_time n"
  by (simp_all add: note_view_def)

lemma extra_note:
  assumes "n \<in> set (getEditorNotes lyrics)" and "en_segmentIndex n = Some k"
  shows "line_isExtra (lyrics ! en_lineIndex n)" and "k < length (line_segments (lyrics ! en_lineIndex n))"
    and "line_views (lyrics ! en_lineIndex n) ! k = note_view n" and "length (line_views (lyrics ! en_lineIndex n)) = length (line_segments (lyrics ! en_lineIndex n))"
    and "length (nv_segments (note_view n)) = 1"
proof -
  note v = extra_note_view [OF note_parts(3) [OF assms(1)] assms(2)]
  show "line_isExtra (lyrics ! en_lineIndex n)" "k < length (line_segments (lyrics ! en_lineIndex n))"
    "line_views (lyrics ! en_lineIndex n) ! k = note_view n" using v by blast+
  show "length (line_views (lyrics ! en_lineIndex n)) = length (line_segments (lyrics ! en_lineIndex n))"
    using v by (simp add: line_views_def)
  have "length (nv_segments (line_views (lyrics ! en_lineIndex n) ! k)) = 1" using v by (simp add: line_views_def)
  with v show "length (nv_segments (note_view n)) = 1" by simp
qed

lemma whole_note:
  assumes "n \<in> set (getEditorNotes lyrics)" and "en_segmentIndex n = None"
  shows "\<not> line_isExtra (lyrics ! en_lineIndex n)" and "line_views (lyrics ! en_lineIndex n) = [note_view n]"
    and "note_view n = \<lparr>nv_extra = False, nv_time = line_startTime (lyrics ! en_lineIndex n), nv_segments = line_segments (lyrics ! en_lineIndex n)\<rparr>"
  using whole_note_view [OF note_parts(3) [OF assms(1)] assms(2)] by (auto simp: line_views_def)

lemma delete_refines:
  assumes "n \<in> set (getEditorNotes lyrics)"
  shows "note_views (res_lyrics (delete_note lyrics n)) = note_views lyrics - {#note_view n#}"
proof (cases "en_segmentIndex n")
  case None
  then show ?thesis using views_remove [OF note_parts(1) [OF assms]] whole_note(2) [OF assms None]
    by (simp add: delete_note_def Let_def)
next
  case (Some k)
  let ?line = "lyrics ! en_lineIndex n"
  note ex = extra_note [OF assms Some]
  show ?thesis
  proof (cases "length (line_segments ?line) = 1")
    case True
    with ex have "line_views ?line = [note_view n]" by (cases "line_views ?line") auto
    with True Some views_remove [OF note_parts(1) [OF assms]] show ?thesis by (simp add: delete_note_def Let_def)
  next
    case False
    have "line_views (?line\<lparr>line_segments := remove_at k (line_segments ?line)\<rparr>) = remove_at k (line_views ?line)"
      using ex(1) by (simp add: line_views_def map_remove_at)
    then have "note_views (lyrics[en_lineIndex n := ?line\<lparr>line_segments := remove_at k (line_segments ?line)\<rparr>]) =
        note_views lyrics - {#note_view n#} + {#}"
      using ex by (intro views_update note_parts(1) [OF assms]) (simp_all add: mset_remove_at, metis nth_mem)
    with False Some show ?thesis by (simp add: delete_note_def Let_def)
  qed
qed

lemma replace_refines:
  assumes n: "n \<in> set (getEditorNotes lyrics)" and i: "i < length (line_segments (lyrics ! en_lineIndex n))"
    and same: "en_segmentIndex n = None \<or> en_segmentIndex n = Some i"
    and f: "\<And>s. seg_startTimeOffset (f s) = seg_startTimeOffset s" "\<And>s. bare (f s) = f (bare s)"
  shows "note_views (res_lyrics (replace_segment lyrics n i f)) = note_views lyrics - {#note_view n#} +
    {#(note_view n)\<lparr>nv_segments := (nv_segments (note_view n))[(if en_segmentIndex n = None then i else 0) :=
        f (nv_segments (note_view n) ! (if en_segmentIndex n = None then i else 0))]\<rparr>#}"
proof -
  let ?line = "lyrics ! en_lineIndex n"
  let ?new = "?line\<lparr>line_segments := (line_segments ?line)[i := f (line_segments ?line ! i)]\<rparr>"
  show ?thesis
  proof (cases "en_segmentIndex n")
    case None
    note w = whole_note [OF n None]
    have "line_views ?new = (line_views ?line)[0 := (note_view n)\<lparr>nv_segments := (nv_segments (note_view n))[i := f (nv_segments (note_view n) ! i)]\<rparr>]"
      unfolding w(2) using w(1) by (simp add: w(3)) (simp add: line_views_def)
    from views_replace [OF note_parts(1) [OF n] _ this] show ?thesis using None w(2) by (simp add: replace_segment_def Let_def)
  next
    case (Some k)
    with same have k: "k = i" by simp
    note ex = extra_note [OF n Some]
    have off: "segment_offset (f s) = segment_offset s" for s by (simp add: segment_offset_def f(1))
    have v: "note_view n = \<lparr>nv_extra = True, nv_time = round_time (line_startTime ?line + segment_offset (line_segments ?line ! i)),
        nv_segments = [bare (line_segments ?line ! i)]\<rparr>"
      using ex k by (simp add: line_views_def)
    have "line_views ?new = (line_views ?line)[i := (note_view n)\<lparr>nv_segments := [f (bare (line_segments ?line ! i))]\<rparr>]"
      unfolding v using ex(1) i by (simp add: line_views_def map_update off f(2))
    from views_replace [OF note_parts(1) [OF n] _ this] show ?thesis using Some ex k
      by (simp add: replace_segment_def Let_def) (simp add: v)
  qed
qed

lemma patch_refines:
  assumes "n \<in> set (getEditorNotes lyrics)" and "patch_note lyrics n i p = Some r"
  shows "note_views (res_lyrics r) = edited_views (SegmentNote x i p) (note_view n) (note_views lyrics)"
proof -
  from assms(2) have r: "r = replace_segment lyrics n i (patch_segment p)"
    and i: "i < length (line_segments (lyrics ! en_lineIndex n))" and same: "en_segmentIndex n = None \<or> en_segmentIndex n = Some i"
    by (auto simp: patch_note_def Let_def split: if_splits)
  show ?thesis unfolding r
    by (subst replace_refines [OF assms(1) i same]) (auto simp: patch_segment_def bare_def)
qed

lemma text_refines:
  assumes "n \<in> set (getEditorNotes lyrics)" and "text_note lyrics n txt = Some r"
  shows "note_views (res_lyrics r) = edited_views (TextNote x txt) (note_view n) (note_views lyrics)"
proof -
  let ?i = "coalesce (en_segmentIndex n) 0" and ?segs = "line_segments (lyrics ! en_lineIndex n)"
  from assms(2) have r: "r = replace_segment lyrics n ?i (\<lambda>s. s\<lparr>seg_text := txt\<rparr>)"
    and one: "en_segmentIndex n = None \<longrightarrow> length ?segs = 1"
    by (auto simp: text_note_def Let_def split: if_splits)
  have i: "?i < length ?segs" using one note_parts(5) [OF assms(1)] by (cases "en_segmentIndex n") auto
  have one_view: "length (nv_segments (note_view n)) = 1"
  proof (cases "en_segmentIndex n")
    case None
    with whole_note(3) [OF assms(1)] one show ?thesis by simp
  next
    case (Some k)
    then show ?thesis using extra_note(5) [OF assms(1)] by blast
  qed
  then obtain s where s: "nv_segments (note_view n) = [s]" by (cases "nv_segments (note_view n)") auto
  show ?thesis unfolding r
    by (subst replace_refines [OF assms(1) i]) (cases "en_segmentIndex n"; auto simp: bare_def s)+
qed


lemma grid_line: "lyrics_grid lyrics \<Longrightarrow> i < length lyrics \<Longrightarrow> line_grid (lyrics ! i)"
  by (simp add: lyrics_grid_def list_all_length)

lemma grid_update: "lyrics_grid lyrics \<Longrightarrow> line_grid l \<Longrightarrow> lyrics_grid (lyrics[i := l])"
  unfolding lyrics_grid_def list_all_iff using set_update_subset_insert [of lyrics i l] by blast

lemma grid_push: "lyrics_grid lyrics \<Longrightarrow> line_grid l \<Longrightarrow> lyrics_grid (fst (push_sorted lyrics l))"
  by (simp add: lyrics_grid_def list_all_iff push_sorted_set)

lemma grid_remove: "lyrics_grid lyrics \<Longrightarrow> lyrics_grid (remove_at i lyrics)"
  using set_remove_at [of i lyrics] by (auto simp: lyrics_grid_def list_all_iff)

lemma retime_refines:
  assumes n: "n \<in> set (getEditorNotes lyrics)" and k: "en_segmentIndex n = Some k" and g: "lyrics_grid lyrics"
  shows "note_views (res_lyrics (retime_segment lyrics n k d t)) =
      note_views lyrics - (if d then {#} else {#note_view n#}) + {#(note_view n)\<lparr>nv_time := round_time t\<rparr>#}"
    and "lyrics_grid (res_lyrics (retime_segment lyrics n k d t))"
proof -
  let ?line = "lyrics ! en_lineIndex n"
  note ex = extra_note [OF n k] and i = note_parts(1) [OF n]
  have lg: "line_grid ?line" by (rule grid_line [OF g i])
  have ts: "\<forall>t \<in> set (segment_times ?line). on_grid t" using line_times_grid [OF lg] by blast
  have views: "line_views ?line = timed_views (line_segments ?line) (segment_times ?line)"
    by (rule extra_line_views [OF ex(1) lg])
  have v: "note_view n = \<lparr>nv_extra = True, nv_time = segment_times ?line ! k, nv_segments = [bare (line_segments ?line ! k)]\<rparr>"
    using ex(2,3) by (simp add: views timed_views_def)
  have moved: "(note_view n)\<lparr>nv_time := round_time t\<rparr> =
      \<lparr>nv_extra = True, nv_time = round_time t, nv_segments = [bare (line_segments ?line ! k)]\<rparr>" by (simp add: v)
  let ?ts = "(segment_times ?line)[k := round_time t]"
  let ?ss2 = "insert_at (k + 1) (line_segments ?line ! k) (line_segments ?line)" and ?ts2 = "insert_at (k + 1) (round_time t) (segment_times ?line)"
  have "\<forall>t \<in> set ?ts. on_grid t" using ts set_update_subset_insert [of "segment_times ?line" k "round_time t"] by fastforce
  moreover have "?ts \<noteq> []" "length (line_segments ?line) = length ?ts"
    using ex(2) length_segment_times [of ?line] by (auto simp del: length_segment_times)
  ultimately have r1: "line_views (retimed_line ?line (line_segments ?line) ?ts) = timed_views (line_segments ?line) ?ts"
    "line_grid (retimed_line ?line (line_segments ?line) ?ts)" using ex(1) by (simp_all add: retimed_views)
  have "\<forall>t \<in> set ?ts2. on_grid t" using ts by simp
  moreover have "?ts2 \<noteq> []" by (simp add: insert_at_def)
  ultimately have r2: "line_views (retimed_line ?line ?ss2 ?ts2) = timed_views ?ss2 ?ts2" "line_grid (retimed_line ?line ?ss2 ?ts2)"
    using ex(1) by (simp_all add: retimed_views)
  show "lyrics_grid (res_lyrics (retime_segment lyrics n k d t))"
    using r1(2) r2(2) grid_update [OF g] by (simp add: retime_segment_def Let_def)
  show "note_views (res_lyrics (retime_segment lyrics n k d t)) =
      note_views lyrics - (if d then {#} else {#note_view n#}) + {#(note_view n)\<lparr>nv_time := round_time t\<rparr>#}"
  proof (cases d)
    case True
    have "mset (line_views (retimed_line ?line ?ss2 ?ts2)) = mset (line_views ?line) - {#} + {#(note_view n)\<lparr>nv_time := round_time t\<rparr>#}"
      unfolding r2(1) moved by (simp add: timed_views_insert mset_insert_at views)
    from views_update [OF i this] True show ?thesis by (simp add: retime_segment_def Let_def)
  next
    case False
    have "line_views (retimed_line ?line (line_segments ?line) ?ts) = (line_views ?line)[k := (note_view n)\<lparr>nv_time := round_time t\<rparr>]"
      unfolding r1(1) moved views using ex(2) by (simp add: timed_views_update)
    from views_replace [OF i _ this] ex False show ?thesis by (simp add: retime_segment_def Let_def)
  qed
qed

lemma whole_line_moved: "\<not> line_isExtra line \<Longrightarrow>
    line_views (line\<lparr>line_startTime := t\<rparr>) = [\<lparr>nv_extra = False, nv_time = t, nv_segments = line_segments line\<rparr>]"
  by (simp add: line_views_def)

lemma line_grid_moved: "line_grid line \<Longrightarrow> on_grid t \<Longrightarrow> line_grid (line\<lparr>line_startTime := t\<rparr>)"
  by (simp add: line_grid_def)

lemma move_refines:
  assumes n: "n \<in> set (getEditorNotes lyrics)" and g: "lyrics_grid lyrics" and r: "move_note lyrics n (coalesce t 0) = Some r"
  shows "note_views (res_lyrics r) = edited_views (MoveNote x t) (note_view n) (note_views lyrics) \<and> lyrics_grid (res_lyrics r)"
proof (cases "en_segmentIndex n")
  case (Some k)
  with r have "r = retime_segment lyrics n k False (coalesce t 0)" by (simp add: move_note_def split: if_splits)
  with retime_refines [OF n Some g] show ?thesis by simp
next
  case None
  let ?line = "lyrics ! en_lineIndex n" and ?t = "round_time (coalesce t 0)"
  note w = whole_note [OF n None]
  have res: "res_lyrics r = lyrics[en_lineIndex n := ?line\<lparr>line_startTime := ?t\<rparr>]"
    using r None by (auto simp: move_note_def split: if_splits)
  have "line_views (?line\<lparr>line_startTime := ?t\<rparr>) = (line_views ?line)[0 := (note_view n)\<lparr>nv_time := ?t\<rparr>]"
    unfolding w(2) using w(1) by (simp add: w(3) whole_line_moved)
  from views_replace [OF note_parts(1) [OF n] _ this] w(2)
    grid_update [OF g line_grid_moved [OF grid_line [OF g note_parts(1) [OF n]] round_on_grid [of "coalesce t 0"]]]
  show ?thesis by (simp add: res)
qed

lemma duplicate_refines:
  assumes n: "n \<in> set (getEditorNotes lyrics)" and g: "lyrics_grid lyrics"
  shows "note_views (res_lyrics (duplicate_note lyrics n (coalesce t 0))) = edited_views (DuplicateNote x t) (note_view n) (note_views lyrics) \<and>
    lyrics_grid (res_lyrics (duplicate_note lyrics n (coalesce t 0)))"
proof (cases "en_segmentIndex n")
  case (Some k)
  then have "duplicate_note lyrics n (coalesce t 0) = retime_segment lyrics n k True (coalesce t 0)" by (simp add: duplicate_note_def)
  with retime_refines [OF n Some g] show ?thesis by simp
next
  case None
  let ?copy = "(lyrics ! en_lineIndex n)\<lparr>line_startTime := round_time (coalesce t 0)\<rparr>"
  have res: "res_lyrics (duplicate_note lyrics n (coalesce t 0)) = fst (push_sorted lyrics ?copy)"
    using None by (simp add: duplicate_note_def duplicate_line_def split: prod.split)
  have "line_views ?copy = [(note_view n)\<lparr>nv_time := round_time (coalesce t 0)\<rparr>]"
    using whole_note [OF n None] by (simp add: whole_line_moved)
  moreover have "line_grid ?copy" using grid_line [OF g note_parts(1) [OF n]] by (simp add: line_grid_moved)
  ultimately show ?thesis using grid_push [OF g] by (simp add: res push_sorted_views)
qed

lemma add_refines:
  assumes "lyrics_grid lyrics"
  shows "note_views (res_lyrics (add_note lyrics lane (coalesce t 0) txt)) = edited_views (AddNote lane t txt) v (note_views lyrics) \<and>
    lyrics_grid (res_lyrics (add_note lyrics lane (coalesce t 0) txt))"
proof -
  let ?line = "new_line lane (coalesce t 0) txt"
  have res: "res_lyrics (add_note lyrics lane (coalesce t 0) txt) = fst (push_sorted lyrics ?line)"
    by (simp add: add_note_def split: prod.split)
  have zero: "segment_offset (s\<lparr>seg_startTimeOffset := None\<rparr>) = 0" for s by (simp add: segment_offset_def)
  have "line_views ?line = [\<lparr>nv_extra = (lane = ExtraLane), nv_time = round_time (coalesce t 0),
     nv_segments = [\<lparr>seg_text = trim txt, seg_isCheer = (lane = CheerLane \<or> lane = ExtraLane), seg_isEcho = (lane = EchoLane),
       seg_startTimeOffset = None\<rparr>]\<rparr>]"
    by (cases lane) (simp_all add: new_line_def line_views_def bare_def segment_offset_def)
  moreover have "line_grid ?line"
    by (cases lane) (simp_all add: new_line_def line_grid_def segment_offset_def on_grid_def round_time_def)
  ultimately show ?thesis using grid_push [OF assms] by (simp add: res push_sorted_views)
qed

lemma replace_grid:
  assumes "lyrics_grid lyrics" and "n \<in> set (getEditorNotes lyrics)" and "i < length (line_segments (lyrics ! en_lineIndex n))"
    and "\<And>s. seg_startTimeOffset (f s) = seg_startTimeOffset s"
  shows "lyrics_grid (res_lyrics (replace_segment lyrics n i f))"
proof -
  let ?line = "lyrics ! en_lineIndex n"
  have lg: "line_grid ?line" by (rule grid_line [OF assms(1) note_parts(1) [OF assms(2)]])
  then have "on_grid (segment_offset (f (line_segments ?line ! i)))"
    using assms(3) by (simp add: line_grid_def list_all_length segment_offset_def assms(4))
  then have "line_grid (?line\<lparr>line_segments := (line_segments ?line)[i := f (line_segments ?line ! i)]\<rparr>)"
    using lg set_update_subset_insert [of "line_segments ?line" i "f (line_segments ?line ! i)"]
    by (auto simp: line_grid_def list_all_iff)
  with grid_update [OF assms(1)] show ?thesis by (simp add: replace_segment_def Let_def)
qed

lemma delete_grid:
  assumes "lyrics_grid lyrics" and "n \<in> set (getEditorNotes lyrics)"
  shows "lyrics_grid (res_lyrics (delete_note lyrics n))"
proof -
  let ?line = "lyrics ! en_lineIndex n"
  have "line_grid (?line\<lparr>line_segments := remove_at k (line_segments ?line)\<rparr>)" for k
    using grid_line [OF assms(1) note_parts(1) [OF assms(2)]] set_remove_at [of k "line_segments ?line"]
    by (auto simp: line_grid_def list_all_iff)
  with grid_update [OF assms(1)] grid_remove [OF assms(1)] show ?thesis
    by (auto simp: delete_note_def Let_def split: option.splits)
qed


text \<open>C16.
  On lyrics whose stored times are hundredths of a second, the grid to which the editor rounds the times it
  sets (an imported file with milliseconds can be off it), every edit does what it should do to the
  collection of notes, whatever the positions, groupings and offsets in the stored form: adding puts in one
  note with the given time, lane and trimmed text, moving and duplicating change the time of one note, text
  and segment edits its segments, deleting takes one note away; every other note keeps its text, flags
  and absolute time - the other calls of a group as well, although the group is stored relative to its
  earliest call.  The result is on the grid again.\<close>

theorem edit_refines:
  assumes "lyrics_grid lyrics" and "applyNoteEdit lyrics e = Some r"
  shows "lyrics_grid (res_lyrics r) \<and> (\<exists>v. note_views (res_lyrics r) = edited_views e v (note_views lyrics) \<and>
    ((\<exists>lane t txt. e = AddNote lane t txt) \<or> (\<exists>n \<in> set (getEditorNotes lyrics). en_id n = edit_id e \<and> v = note_view n)))"
proof (cases "\<exists>lane t txt. e = AddNote lane t txt")
  case True
  then obtain lane t tx where e: "e = AddNote lane t tx" by blast
  with assms(2) have "r = add_note lyrics lane (coalesce t 0) tx" by (auto simp: applyNoteEdit_def split: if_splits)
  with add_refines [OF assms(1)] e show ?thesis by blast
next
  case False
  with assms(2) obtain n where n: "n \<in> set (getEditorNotes lyrics)" "en_id n = edit_id e"
    by (cases e) (auto simp: applyNoteEdit_def find_note split: if_splits option.splits)
  then have find: "find (\<lambda>m. en_id m = edit_id e) (getEditorNotes lyrics) = Some n" by (simp add: find_note)
  have "note_views (res_lyrics r) = edited_views e (note_view n) (note_views lyrics) \<and> lyrics_grid (res_lyrics r)"
  proof (cases e)
    case (AddNote lane t tx)
    with False show ?thesis by blast
  next
    case (MoveNote x t)
    with assms(2) find have "move_note lyrics n (coalesce t 0) = Some r" by (auto simp: applyNoteEdit_def split: if_splits)
    with move_refines [OF n(1) assms(1)] MoveNote show ?thesis by blast
  next
    case (TextNote x tx)
    with assms(2) find have t: "text_note lyrics n tx = Some r" by (auto simp: applyNoteEdit_def)
    then have "r = replace_segment lyrics n (coalesce (en_segmentIndex n) 0) (\<lambda>s. s\<lparr>seg_text := tx\<rparr>)"
      "coalesce (en_segmentIndex n) 0 < length (line_segments (lyrics ! en_lineIndex n))"
      using note_parts(5) [OF n(1)] by (cases "en_segmentIndex n"; auto simp: text_note_def Let_def split: if_splits)+
    with text_refines [OF n(1) t] TextNote replace_grid [OF assms(1) n(1)] show ?thesis by simp
  next
    case (SegmentNote x i p)
    with assms(2) find have t: "patch_note lyrics n i p = Some r" by (auto simp: applyNoteEdit_def)
    then have "r = replace_segment lyrics n i (patch_segment p)" "i < length (line_segments (lyrics ! en_lineIndex n))"
      by (auto simp: patch_note_def Let_def split: if_splits)
    with patch_refines [OF n(1) t] SegmentNote replace_grid [OF assms(1) n(1), of i "patch_segment p"] show ?thesis
      by (simp add: patch_segment_def)
  next
    case (DuplicateNote x t)
    with assms(2) find have "r = duplicate_note lyrics n (coalesce t 0)" by (auto simp: applyNoteEdit_def split: if_splits)
    with duplicate_refines [OF n(1) assms(1)] DuplicateNote show ?thesis by blast
  next
    case (DeleteNote x)
    with assms(2) find have "r = delete_note lyrics n" by (auto simp: applyNoteEdit_def)
    with delete_refines [OF n(1)] delete_grid [OF assms(1) n(1)] DeleteNote show ?thesis by simp
  qed
  with n show ?thesis by blast
qed

section \<open>Contract and selection\<close>

text \<open>The times that the lyrics contract accepts, and calls never before their group.\<close>

definition line_timed :: "lyric_line \<Rightarrow> bool" where
  "line_timed line \<longleftrightarrow> 0 \<le> line_startTime line \<and> (line_isExtra line \<longrightarrow> list_all (\<lambda>s. 0 \<le> segment_offset s) (line_segments line))"

definition lyrics_timed :: "lyrics_data \<Rightarrow> bool" where
  "lyrics_timed lyrics \<longleftrightarrow> list_all line_timed lyrics"

lemma note_exists:
  assumes "i < length lyrics"
    and "(case s of None \<Rightarrow> \<not> line_isExtra (lyrics ! i) | Some k \<Rightarrow> line_isExtra (lyrics ! i) \<and> k < length (line_segments (lyrics ! i)))"
  shows "\<exists>n \<in> set (getEditorNotes lyrics). en_id n = idFor i s \<and> en_lineIndex n = i"
proof -
  have "\<exists>n \<in> set (line_notes i (lyrics ! i)). en_id n = idFor i s \<and> en_lineIndex n = i"
    using assms(2) by (cases s) (auto simp: line_notes_in Bex_def)
  then obtain n where n: "n \<in> set (line_notes i (lyrics ! i))" "en_id n = idFor i s" "en_lineIndex n = i" by blast
  with assms(1) have "n \<in> set (getEditorNotes lyrics)" unfolding notes_in by blast
  with n show ?thesis by blast
qed

lemma marked_position:
  assumes "set m = insert (a, True) (S \<times> {False})"
  shows "length (takeWhile (\<lambda>x. \<not> snd x) m) < length m \<and> map fst m ! length (takeWhile (\<lambda>x. \<not> snd x) m) = a"
proof -
  have "\<exists>x \<in> set m. snd x" using assms by auto
  then obtain xs y ys where m: "m = xs @ y # ys" and y: "snd y" and xs: "\<forall>x \<in> set xs. \<not> snd x"
    using split_list_first_prop by metis
  have "y \<in> insert (a, True) (S \<times> {False})" unfolding assms [symmetric] m by simp
  with y have "fst y = a" by fastforce
  moreover have "takeWhile (\<lambda>x. \<not> snd x) m = xs" unfolding m using y xs by (subst takeWhile_append2) auto
  ultimately show ?thesis by (simp add: m nth_append)
qed

lemma push_sorted_position:
  assumes "push_sorted lyrics line = (ls, i)"
  shows "i < length ls \<and> ls ! i = line \<and> length ls = Suc (length lyrics)"
proof -
  define m where "m = sort_key (line_startTime \<circ> fst) (map (\<lambda>l. (l, False)) lyrics @ [(line, True)])"
  have "set m = insert (line, True) (set lyrics \<times> {False})" "length m = Suc (length lyrics)" by (auto simp: m_def)
  moreover have "ls = map fst m" "i = length (takeWhile (\<lambda>x. \<not> snd x) m)"
    using assms by (simp_all add: push_sorted_def Let_def m_def)
  ultimately show ?thesis using marked_position [of m line "set lyrics"] by simp
qed


definition names_note :: "edit_result \<Rightarrow> bool" where
  "names_note r \<longleftrightarrow> (\<forall>x. res_noteId r = Some x \<longrightarrow>
    (\<exists>n \<in> set (getEditorNotes (res_lyrics r)). en_id n = x \<and> en_lineIndex n = res_lineIndex r))"

lemma timed_line: "lyrics_timed lyrics \<Longrightarrow> i < length lyrics \<Longrightarrow> line_timed (lyrics ! i)"
  by (simp add: lyrics_timed_def list_all_length)

lemma timed_update: "lyrics_timed lyrics \<Longrightarrow> line_timed l \<Longrightarrow> lyrics_timed (lyrics[i := l])"
  unfolding lyrics_timed_def list_all_iff using set_update_subset_insert [of lyrics i l] by blast

lemma push_edit:
  assumes "push_sorted lyrics l = (ls, i)" and "if line_isExtra l then s = Some 0 \<and> line_segments l \<noteq> [] else s = None"
  shows "names_note \<lparr>res_lyrics = ls, res_noteId = Some (idFor i s), res_lineIndex = i\<rparr>"
    and "lyrics_timed lyrics \<Longrightarrow> line_timed l \<Longrightarrow> lyrics_timed ls"
proof -
  note p = push_sorted_position [OF assms(1)]
  show "names_note \<lparr>res_lyrics = ls, res_noteId = Some (idFor i s), res_lineIndex = i\<rparr>"
    using note_exists [of i ls s] p assms(2) by (auto simp: names_note_def split: if_splits)
  show "lyrics_timed lyrics \<Longrightarrow> line_timed l \<Longrightarrow> lyrics_timed ls"
    using push_sorted_set [of lyrics l] assms(1) by (simp add: lyrics_timed_def list_all_iff)
qed

lemma line_timed_moved: "line_timed line \<Longrightarrow> 0 \<le> t \<Longrightarrow> line_timed (line\<lparr>line_startTime := t\<rparr>)"
  by (simp add: line_timed_def)

lemma replace_edit:
  assumes n: "n \<in> set (getEditorNotes lyrics)" and i: "i < length (line_segments (lyrics ! en_lineIndex n))"
    and f: "\<And>s. seg_startTimeOffset (f s) = seg_startTimeOffset s"
  shows "names_note (replace_segment lyrics n i f)" and "lyrics_timed lyrics \<Longrightarrow> lyrics_timed (res_lyrics (replace_segment lyrics n i f))"
proof -
  let ?line = "lyrics ! en_lineIndex n"
  let ?new = "?line\<lparr>line_segments := (line_segments ?line)[i := f (line_segments ?line ! i)]\<rparr>"
  have len: "en_lineIndex n < length lyrics" by (rule note_parts [OF n])
  have "\<exists>m \<in> set (getEditorNotes (lyrics[en_lineIndex n := ?new])). en_id m = idFor (en_lineIndex n) (en_segmentIndex n) \<and>
      en_lineIndex m = en_lineIndex n"
  proof (rule note_exists)
    show "case en_segmentIndex n of None \<Rightarrow> \<not> line_isExtra (lyrics[en_lineIndex n := ?new] ! en_lineIndex n)
      | Some k \<Rightarrow> line_isExtra (lyrics[en_lineIndex n := ?new] ! en_lineIndex n) \<and>
          k < length (line_segments (lyrics[en_lineIndex n := ?new] ! en_lineIndex n))"
      unfolding nth_list_update_eq [OF len] using note_parts(4,5) [OF n] by (cases "en_segmentIndex n") auto
  qed (use len in simp)
  then show "names_note (replace_segment lyrics n i f)"
    by (simp add: names_note_def replace_segment_def Let_def note_parts(2) [OF n])
  show "lyrics_timed (res_lyrics (replace_segment lyrics n i f))" if "lyrics_timed lyrics"
  proof -
    have "line_timed ?line" by (rule timed_line [OF that len])
    then have "line_timed ?new"
      using i set_update_subset_insert [of "line_segments ?line" i "f (line_segments ?line ! i)"]
      by (auto simp: line_timed_def list_all_iff segment_offset_def f dest!: subsetD)
    with timed_update [OF that] show ?thesis by (simp add: replace_segment_def Let_def)
  qed
qed

lemma retimed_timed:
  assumes "line_isExtra line" and "\<forall>t \<in> set ts. 0 \<le> t" and "ts \<noteq> []"
  shows "line_timed (retimed_line line ss ts)"
proof -
  have "0 \<le> Min (set ts)" using assms(2,3) by simp
  moreover have "0 \<le> round_time (t - Min (set ts))" if "t \<in> set ts" for t
    using that by (intro round_nonneg) simp
  ultimately show ?thesis by (auto simp: line_timed_def retimed_line_def Let_def list_all_iff dest: set_zip_rightD)
qed

lemma retime_edit:
  assumes n: "n \<in> set (getEditorNotes lyrics)" and k: "en_segmentIndex n = Some k"
  shows "names_note (retime_segment lyrics n k d t)"
    and "lyrics_timed lyrics \<Longrightarrow> 0 \<le> t \<Longrightarrow> lyrics_timed (res_lyrics (retime_segment lyrics n k d t))"
proof -
  let ?line = "lyrics ! en_lineIndex n"
  note ex = extra_note [OF n k]
  have len: "en_lineIndex n < length lyrics" by (rule note_parts [OF n])
  define ss where "ss = (if d then insert_at (k + 1) (line_segments ?line ! k) (line_segments ?line) else line_segments ?line)"
  define ts where "ts = (if d then insert_at (k + 1) (round_time t) (segment_times ?line) else (segment_times ?line)[k := round_time t])"
  have run: "retime_segment lyrics n k d t = \<lparr>res_lyrics = lyrics[en_lineIndex n := retimed_line ?line ss ts],
      res_noteId = Some (idFor (en_lineIndex n) (Some (if d then k + 1 else k))), res_lineIndex = en_lineIndex n\<rparr>"
    by (simp add: retime_segment_def ss_def ts_def Let_def)
  have segs: "line_isExtra (retimed_line ?line ss ts)" "length (line_segments (retimed_line ?line ss ts)) = length (line_segments ?line) + (if d then 1 else 0)"
    using ex(1) by (auto simp: retimed_line_def Let_def ss_def ts_def)
  show "names_note (retime_segment lyrics n k d t)"
    using note_exists [of "en_lineIndex n" "lyrics[en_lineIndex n := retimed_line ?line ss ts]" "Some (if d then k + 1 else k)"] segs len ex(2)
    by (auto simp: names_note_def run)
  show "lyrics_timed (res_lyrics (retime_segment lyrics n k d t))" if timed: "lyrics_timed lyrics" "0 \<le> t"
  proof -
    have "\<forall>t \<in> set (segment_times ?line). 0 \<le> t"
      using timed_line [OF timed(1) len] ex(1) by (auto simp: line_timed_def segment_times_def list_all_iff)
    moreover have "set ts \<subseteq> insert (round_time t) (set (segment_times ?line))"
      using set_update_subset_insert [of "segment_times ?line" k "round_time t"] by (simp add: ts_def)
    ultimately have "\<forall>t \<in> set ts. 0 \<le> t" using round_nonneg [OF timed(2)] by blast
    moreover have "segment_times ?line \<noteq> []" using ex(2) by (auto simp: segment_times_def)
    then have "ts \<noteq> []" by (simp add: ts_def insert_at_def)
    ultimately have "line_timed (retimed_line ?line ss ts)" using ex(1) by (intro retimed_timed)
    with timed_update [OF timed(1)] show ?thesis by (simp add: run)
  qed
qed

lemma delete_edit:
  assumes "n \<in> set (getEditorNotes lyrics)"
  shows "names_note (delete_note lyrics n)" and "lyrics_timed lyrics \<Longrightarrow> lyrics_timed (res_lyrics (delete_note lyrics n))"
proof -
  let ?line = "lyrics ! en_lineIndex n"
  show "names_note (delete_note lyrics n)"
    by (auto simp: names_note_def delete_note_def Let_def find_Some_iff)
  show "lyrics_timed (res_lyrics (delete_note lyrics n))" if timed: "lyrics_timed lyrics"
  proof -
    have "line_timed (?line\<lparr>line_segments := remove_at k (line_segments ?line)\<rparr>)" for k
      using timed_line [OF timed note_parts(1) [OF assms]] set_remove_at [of k "line_segments ?line"]
      by (auto simp: line_timed_def list_all_iff)
    moreover have "lyrics_timed (remove_at k lyrics)" for k
      using timed set_remove_at [of k lyrics] by (auto simp: lyrics_timed_def list_all_iff)
    ultimately show ?thesis using timed_update [OF timed] by (auto simp: delete_note_def Let_def split: option.splits)
  qed
qed


lemma min_pred_less: "xs \<noteq> [] \<Longrightarrow> min i (length xs - 1) < length xs"
  by (cases xs) auto

text \<open>The single-note edits of an existing note, through the wrappers that choose between a call and a line.\<close>

lemma move_edit:
  assumes n: "n \<in> set (getEditorNotes lyrics)" and r: "move_note lyrics n t = Some r"
  shows "names_note r" and "res_noteId r \<noteq> None" and "lyrics_timed lyrics \<Longrightarrow> 0 \<le> t \<Longrightarrow> lyrics_timed (res_lyrics r)"
proof -
  have len: "en_lineIndex n < length lyrics" by (rule note_parts [OF n])
  have "names_note r \<and> res_noteId r \<noteq> None \<and> (lyrics_timed lyrics \<longrightarrow> 0 \<le> t \<longrightarrow> lyrics_timed (res_lyrics r))"
  proof (cases "en_segmentIndex n")
    case None
    let ?new = "(lyrics ! en_lineIndex n)\<lparr>line_startTime := round_time t\<rparr>"
    have r': "r = \<lparr>res_lyrics = lyrics[en_lineIndex n := ?new], res_noteId = Some (en_id n), res_lineIndex = en_lineIndex n\<rparr>"
      using r None by (simp add: move_note_def split: if_splits)
    have "names_note r"
      using note_exists [of "en_lineIndex n" "lyrics[en_lineIndex n := ?new]" None] len note_parts(2,4) [OF n] None
      by (simp add: names_note_def r')
    moreover have "lyrics_timed (res_lyrics r)" if "lyrics_timed lyrics" "0 \<le> t"
      using timed_update [OF that(1) line_timed_moved [OF timed_line [OF that(1) len] round_nonneg [OF that(2)]]] by (simp add: r')
    ultimately show ?thesis by (simp add: r')
  next
    case (Some k)
    then have "r = retime_segment lyrics n k False t" using r by (simp add: move_note_def split: if_splits)
    with retime_edit(1) [OF n Some, of False t] retime_edit(2) [OF n Some, of t False] show ?thesis
      by (simp add: retime_segment_def Let_def)
  qed
  then show "names_note r" "res_noteId r \<noteq> None" "lyrics_timed lyrics \<Longrightarrow> 0 \<le> t \<Longrightarrow> lyrics_timed (res_lyrics r)" by blast+
qed

lemma duplicate_edit:
  assumes n: "n \<in> set (getEditorNotes lyrics)"
  shows "names_note (duplicate_note lyrics n t)" and "res_noteId (duplicate_note lyrics n t) \<noteq> None"
    and "lyrics_timed lyrics \<Longrightarrow> 0 \<le> t \<Longrightarrow> lyrics_timed (res_lyrics (duplicate_note lyrics n t))"
proof -
  have len: "en_lineIndex n < length lyrics" by (rule note_parts [OF n])
  let ?new = "(lyrics ! en_lineIndex n)\<lparr>line_startTime := round_time t\<rparr>"
  obtain ls i where p: "push_sorted lyrics ?new = (ls, i)" by (cases "push_sorted lyrics ?new")
  have "names_note (duplicate_note lyrics n t) \<and> res_noteId (duplicate_note lyrics n t) \<noteq> None \<and>
    (lyrics_timed lyrics \<longrightarrow> 0 \<le> t \<longrightarrow> lyrics_timed (res_lyrics (duplicate_note lyrics n t)))"
  proof (cases "en_segmentIndex n")
    case None
    have r: "duplicate_note lyrics n t = \<lparr>res_lyrics = ls, res_noteId = Some (idFor i None), res_lineIndex = i\<rparr>"
      by (simp add: duplicate_note_def None duplicate_line_def p)
    have "\<not> line_isExtra ?new" using note_parts(4) [OF n] None by simp
    then show ?thesis
      using push_edit(1) [OF p, of None] push_edit(2) [OF p, of None] line_timed_moved timed_line len round_nonneg by (simp add: r)
  next
    case (Some k)
    with retime_edit(1) [OF n Some, of True t] retime_edit(2) [OF n Some, of t True] show ?thesis
      by (simp add: duplicate_note_def retime_segment_def Let_def)
  qed
  then show "names_note (duplicate_note lyrics n t)" "res_noteId (duplicate_note lyrics n t) \<noteq> None"
    "lyrics_timed lyrics \<Longrightarrow> 0 \<le> t \<Longrightarrow> lyrics_timed (res_lyrics (duplicate_note lyrics n t))" by blast+
qed

lemma add_edit:
  shows "names_note (add_note lyrics lane t tx)" and "res_noteId (add_note lyrics lane t tx) \<noteq> None"
    and "lyrics_timed lyrics \<Longrightarrow> 0 \<le> t \<Longrightarrow> lyrics_timed (res_lyrics (add_note lyrics lane t tx))"
proof -
  obtain ls i where p: "push_sorted lyrics (new_line lane t tx) = (ls, i)" by (cases "push_sorted lyrics (new_line lane t tx)")
  let ?s = "if lane = ExtraLane then Some 0 else None"
  have shape: "if line_isExtra (new_line lane t tx) then ?s = Some 0 \<and> line_segments (new_line lane t tx) \<noteq> [] else ?s = None"
    by (simp add: new_line_def)
  have "line_timed (new_line lane t tx)" if "0 \<le> t"
    using round_nonneg [OF that] by (simp add: line_timed_def new_line_def segment_offset_def)
  with push_edit [OF p shape] show "names_note (add_note lyrics lane t tx)" "res_noteId (add_note lyrics lane t tx) \<noteq> None"
    "lyrics_timed lyrics \<Longrightarrow> 0 \<le> t \<Longrightarrow> lyrics_timed (res_lyrics (add_note lyrics lane t tx))" by (simp_all add: add_note_def p)
qed

lemma edit_effect:
  assumes "applyNoteEdit lyrics e = Some r"
  shows "names_note r \<and> ((\<forall>x. e \<noteq> DeleteNote x) \<longrightarrow> res_noteId r \<noteq> None) \<and> (lyrics_timed lyrics \<longrightarrow> lyrics_timed (res_lyrics r))"
proof (cases "\<exists>lane t tx. e = AddNote lane t tx")
  case True
  then obtain lane t tx where e: "e = AddNote lane t tx" by blast
  with assms have "r = add_note lyrics lane (coalesce t 0) tx" "0 \<le> coalesce t 0"
    by (auto simp: applyNoteEdit_def bad_time_def split: if_splits option.splits)
  with add_edit show ?thesis by simp
next
  case False
  with assms obtain n where n: "n \<in> set (getEditorNotes lyrics)" "en_id n = edit_id e"
    by (cases e) (auto simp: applyNoteEdit_def find_note split: if_splits option.splits)
  then have find: "find (\<lambda>m. en_id m = edit_id e) (getEditorNotes lyrics) = Some n" by (simp add: find_note)
  show ?thesis
  proof (cases e)
    case (AddNote lane t tx)
    with False show ?thesis by blast
  next
    case (MoveNote x t)
    with assms find have "move_note lyrics n (coalesce t 0) = Some r" "0 \<le> coalesce t 0"
      by (auto simp: applyNoteEdit_def bad_time_def split: if_splits option.splits)
    with move_edit [OF n(1)] show ?thesis by blast
  next
    case (TextNote x tx)
    with assms find have t: "text_note lyrics n tx = Some r" by (auto simp: applyNoteEdit_def)
    then have "r = replace_segment lyrics n (coalesce (en_segmentIndex n) 0) (\<lambda>s. s\<lparr>seg_text := tx\<rparr>)"
      "coalesce (en_segmentIndex n) 0 < length (line_segments (lyrics ! en_lineIndex n))"
      using note_parts(5) [OF n(1)] by (cases "en_segmentIndex n"; auto simp: text_note_def Let_def split: if_splits)+
    with replace_edit [OF n(1)] show ?thesis by (simp add: replace_segment_def Let_def)
  next
    case (SegmentNote x i p)
    with assms find have t: "patch_note lyrics n i p = Some r" by (auto simp: applyNoteEdit_def)
    then have "r = replace_segment lyrics n i (patch_segment p)" "i < length (line_segments (lyrics ! en_lineIndex n))"
      by (auto simp: patch_note_def Let_def split: if_splits)
    with replace_edit [OF n(1), of i "patch_segment p"] show ?thesis by (simp add: patch_segment_def replace_segment_def Let_def)
  next
    case (DuplicateNote x t)
    with assms find have "r = duplicate_note lyrics n (coalesce t 0)" "0 \<le> coalesce t 0"
      by (auto simp: applyNoteEdit_def bad_time_def split: if_splits option.splits)
    with duplicate_edit [OF n(1)] show ?thesis by simp
  next
    case (DeleteNote x)
    with assms find have "r = delete_note lyrics n" by (auto simp: applyNoteEdit_def)
    with delete_edit [OF n(1)] DeleteNote show ?thesis by simp
  qed
qed

text \<open>Every segment has a text; with the times below this is what the contract asks for.\<close>

definition texts_filled :: "lyrics_data \<Rightarrow> bool" where
  "texts_filled lyrics \<longleftrightarrow> list_all (\<lambda>l. list_all segment_ok (line_segments l)) lyrics"

lemma timed_filled_ok: "lyrics_timed lyrics \<Longrightarrow> texts_filled lyrics \<Longrightarrow> lyrics_ok lyrics"
  by (auto simp: lyrics_timed_def line_timed_def texts_filled_def lyrics_ok_def line_ok_def list_all_iff)

text \<open>C30.
  Every edit leaves the editor in a well-formed state: the note it selects exists in the new lyrics and
  stands on the line it selects, and an edit other than a deletion always selects one.  Lyrics without a
  negative start and without a call before its group stay so, and the contract accepts the result unless
  a segment of it has an empty text (which adding a note or setting a text can make).\<close>

theorem edit_well_formed:
  assumes "applyNoteEdit lyrics e = Some r"
  shows "names_note r \<and> ((\<forall>x. e \<noteq> DeleteNote x) \<longrightarrow> res_noteId r \<noteq> None) \<and>
    (lyrics_timed lyrics \<longrightarrow> lyrics_timed (res_lyrics r) \<and> lyrics_ok (res_lyrics r) = texts_filled (res_lyrics r))"
  using edit_effect [OF assms] timed_filled_ok [of "res_lyrics r"]
  by (auto simp: texts_filled_def lyrics_ok_def line_ok_def list_all_iff)

section \<open>Witnesses\<close>

definition sample_group :: lyrics_data where
  "sample_group = [\<lparr>line_startTime = 10, line_segments = [
      \<lparr>seg_text = ''A'', seg_isCheer = True, seg_isEcho = False, seg_startTimeOffset = Some 0\<rparr>,
      \<lparr>seg_text = ''B'', seg_isCheer = True, seg_isEcho = False, seg_startTimeOffset = Some 2\<rparr>], line_isExtra = True\<rparr>]"

text \<open>Moving the earliest call of a group to after the other: the group is stored from the other call on.\<close>

definition sample_group_moved :: lyrics_data where
  "sample_group_moved = [\<lparr>line_startTime = 12, line_segments = [
      \<lparr>seg_text = ''A'', seg_isCheer = True, seg_isEcho = False, seg_startTimeOffset = Some (3 / 2)\<rparr>,
      \<lparr>seg_text = ''B'', seg_isCheer = True, seg_isEcho = False, seg_startTimeOffset = Some 0\<rparr>], line_isExtra = True\<rparr>]"

lemma sample_group_edit:
  "applyNoteEdit sample_group (MoveNote ''extra:0:0'' (Some (27 / 2))) =
    Some \<lparr>res_lyrics = sample_group_moved, res_noteId = Some ''extra:0:0'', res_lineIndex = 0\<rparr>"
  by code_simp

lemma sample_group_grid: "lyrics_grid sample_group"
  by (simp add: lyrics_grid_def line_grid_def sample_group_def segment_offset_def on_grid_def)

theorem edit_refines_witness:
  "lyrics_grid sample_group_moved \<and> (\<exists>v. note_views sample_group_moved =
      edited_views (MoveNote ''extra:0:0'' (Some (27 / 2))) v (note_views sample_group) \<and>
      (\<exists>n \<in> set (getEditorNotes sample_group). en_id n = ''extra:0:0'' \<and> v = note_view n))"
  using edit_refines [OF sample_group_grid sample_group_edit] by simp

lemma sample_group_timed: "lyrics_timed sample_group"
  by (simp add: lyrics_timed_def line_timed_def sample_group_def segment_offset_def)

theorem edit_well_formed_witness:
  "names_note \<lparr>res_lyrics = sample_group_moved, res_noteId = Some ''extra:0:0'', res_lineIndex = 0\<rparr> \<and> lyrics_timed sample_group_moved \<and>
    lyrics_ok sample_group_moved"
proof -
  have "texts_filled sample_group_moved"
    by (simp add: texts_filled_def sample_group_moved_def segment_ok_def)
  then show ?thesis
    using edit_well_formed [OF sample_group_edit] sample_group_timed by simp
qed

end
