(* ===== verification/NoteSelection.thy ===== *)
theory NoteSelection imports EditorNotes begin

text \<open>
  Edits of several notes at once (\<open>apps/console/src/features/manage-lyrics/lib/note-selection.ts\<close>): group,
  move, duplicate, delete, set the text, append a call to a group.  The code tells selected copies from
  originals by the identity of objects; here every segment and line of the result carries a mark.
\<close>

section \<open>The code\<close>

datatype selection_edit =
    GroupNotes "string list"
  | MoveNotes "string list" "jsnum option" "jsnum option"
  | DuplicateNotes "string list" "jsnum option" "jsnum option"
  | DeleteNotes "string list"
  | TextNotes "string list" string
  | AppendCall string "jsnum option"

fun selection_ids :: "selection_edit \<Rightarrow> string list" where
  "selection_ids (GroupNotes ids) = ids"
| "selection_ids (MoveNotes ids _ _) = ids"
| "selection_ids (DuplicateNotes ids _ _) = ids"
| "selection_ids (DeleteNotes ids) = ids"
| "selection_ids (TextNotes ids _) = ids"
| "selection_ids (AppendCall i _) = [i]"

record selection_result =
  sel_lyrics :: lyrics_data
  sel_noteIds :: "string list"
  sel_lineIndex :: nat

text \<open>\<open>Math.round(time * 1e9) / 1e9\<close>.\<close>

definition round_nano :: "jsnum \<Rightarrow> jsnum" where
  "round_nano time = of_int (js_round (time * 1000000000)) / 1000000000"

text \<open>The distinct elements of a list in the order of insertion (\<open>new Set(ids)\<close>).\<close>

definition distinct_ids :: "string list \<Rightarrow> string list" where
  "distinct_ids ids = rev (remdups (rev ids))"

text \<open>The exact time of a note, without the rounding of the projection.\<close>

definition note_time :: "lyrics_data \<Rightarrow> editor_note \<Rightarrow> jsnum" where
  "note_time lyrics note = line_startTime (lyrics ! en_lineIndex note) +
    (case en_segmentIndex note of None \<Rightarrow> 0 | Some i \<Rightarrow> segment_offset (line_segments (lyrics ! en_lineIndex note) ! i))"

definition selected_notes :: "lyrics_data \<Rightarrow> string list \<Rightarrow> editor_note list" where
  "selected_notes lyrics ids =
    map (\<lambda>note. note\<lparr>en_time := note_time lyrics note\<rparr>) (filter (\<lambda>note. en_id note \<in> set ids) (getEditorNotes lyrics))"

definition selection_refused :: "selection_edit \<Rightarrow> editor_note list \<Rightarrow> bool" where
  "selection_refused edit notes \<longleftrightarrow>
    notes = [] \<or> length notes \<noteq> length (distinct_ids (selection_ids edit)) \<or>
    (case edit of
       GroupNotes _ \<Rightarrow> \<not> list_all (\<lambda>n. en_segmentIndex n \<noteq> None) notes \<or> length notes < 2
     | AppendCall _ time \<Rightarrow> \<not> list_all (\<lambda>n. en_segmentIndex n \<noteq> None) notes \<or> bad_time time
     | TextNotes _ _ \<Rightarrow> list_ex (\<lambda>n. en_segmentIndex n = None \<and> 1 < length (en_segments n)) notes
     | _ \<Rightarrow> False)"

definition text_chosen :: "editor_note list \<Rightarrow> nat \<Rightarrow> nat \<Rightarrow> bool" where
  "text_chosen notes lineIndex segmentIndex \<longleftrightarrow>
    list_ex (\<lambda>n. en_lineIndex n = lineIndex \<and> (en_segmentIndex n = None \<or> en_segmentIndex n = Some segmentIndex)) notes"

definition text_line :: "editor_note list \<Rightarrow> string \<Rightarrow> nat \<Rightarrow> lyric_line \<Rightarrow> lyric_line" where
  "text_line notes txt lineIndex line = line\<lparr>line_segments :=
    map (\<lambda>(segmentIndex, segment).
        if \<not> text_chosen notes lineIndex segmentIndex \<or> seg_text segment = txt then segment else segment\<lparr>seg_text := txt\<rparr>)
      (with_index (line_segments line))\<rparr>"

definition text_selection :: "lyrics_data \<Rightarrow> string list \<Rightarrow> editor_note list \<Rightarrow> string \<Rightarrow> selection_result option" where
  "text_selection lyrics ids notes txt =
    (let next = map (\<lambda>(lineIndex, line). text_line notes txt lineIndex line) (with_index lyrics) in
     if list_ex (\<lambda>(lineIndex, line). list_ex (\<lambda>(segmentIndex, segment).
          text_chosen notes lineIndex segmentIndex \<and> seg_text segment \<noteq> txt) (with_index (line_segments line))) (with_index lyrics)
     then Some \<lparr>sel_lyrics = next, sel_noteIds = distinct_ids ids, sel_lineIndex = en_lineIndex (hd notes)\<rparr>
     else None)"

text \<open>The common shift: the wanted one, held back so that no note leaves the recording.\<close>

definition selection_shift :: "editor_note list \<Rightarrow> jsnum \<Rightarrow> jsnum \<Rightarrow> jsnum" where
  "selection_shift notes delta duration =
    round_nano (max (- Min (set (map en_time notes))) (min delta (duration - Max (set (map en_time notes)))))"

fun selection_delta :: "selection_edit \<Rightarrow> editor_note list \<Rightarrow> jsnum option" where
  "selection_delta (MoveNotes _ (Some delta) (Some duration)) notes =
    (if selection_shift notes delta duration = 0 then None else Some (selection_shift notes delta duration))"
| "selection_delta (MoveNotes _ _ _) notes = None"
| "selection_delta (DuplicateNotes _ (Some delta) (Some duration)) notes = Some (selection_shift notes delta duration)"
| "selection_delta (DuplicateNotes _ _ _) notes = None"
| "selection_delta _ notes = Some 0"

text \<open>A segment on its way to a new line, and a line of the result with the marks of what is selected.\<close>

record chunk =
  ck_segment :: lyric_segment
  ck_time :: jsnum
  ck_selected :: bool

record marked_line =
  ml_line :: lyric_line
  ml_selected :: bool
  ml_marks :: "bool list"

definition rebase :: "lyric_line \<Rightarrow> chunk list \<Rightarrow> marked_line" where
  "rebase line chunks =
    (let sorted = sort_key ck_time chunks;
         startTime = Min (set (map ck_time sorted))
     in \<lparr>ml_line = line\<lparr>line_startTime := startTime,
           line_segments := map (\<lambda>c. (ck_segment c)\<lparr>seg_startTimeOffset := Some (round_nano (ck_time c - startTime))\<rparr>) sorted\<rparr>,
         ml_selected = False, ml_marks = map ck_selected sorted\<rparr>)"

definition unmarked :: "lyric_line \<Rightarrow> marked_line" where
  "unmarked line = \<lparr>ml_line = line, ml_selected = False, ml_marks = map (\<lambda>_. False) (line_segments line)\<rparr>"

text \<open>What becomes of a whole line.\<close>

definition whole_line :: "selection_edit \<Rightarrow> jsnum \<Rightarrow> lyric_line \<Rightarrow> marked_line list" where
  "whole_line edit delta line =
    (let copy = \<lparr>ml_line = line\<lparr>line_startTime := round_nano (line_startTime line + delta)\<rparr>, ml_selected = True,
           ml_marks = map (\<lambda>_. False) (line_segments line)\<rparr>
     in case edit of
       DeleteNotes _ \<Rightarrow> []
     | DuplicateNotes _ _ _ \<Rightarrow> [unmarked line, copy]
     | _ \<Rightarrow> [copy])"

definition chunk_of :: "lyric_line \<Rightarrow> lyric_segment \<Rightarrow> bool \<Rightarrow> chunk" where
  "chunk_of line segment selected =
    \<lparr>ck_segment = segment, ck_time = round_nano (line_startTime line + segment_offset segment), ck_selected = selected\<rparr>"

text \<open>What becomes of a call that is selected.\<close>

definition call_chunks :: "selection_edit \<Rightarrow> jsnum \<Rightarrow> lyric_line \<Rightarrow> lyric_segment \<Rightarrow> chunk list" where
  "call_chunks edit delta line segment =
    (let original = chunk_of line segment False;
         shifted = \<lparr>ck_segment = segment, ck_time = round_nano (ck_time original + delta), ck_selected = True\<rparr>
     in case edit of
       DeleteNotes _ \<Rightarrow> []
     | GroupNotes _ \<Rightarrow> []
     | DuplicateNotes _ _ _ \<Rightarrow> [original, shifted]
     | AppendCall _ _ \<Rightarrow> [shifted\<lparr>ck_selected := False\<rparr>]
     | _ \<Rightarrow> [shifted])"

definition appended_chunks :: "selection_edit \<Rightarrow> chunk list" where
  "appended_chunks edit =
    (case edit of
       AppendCall _ time \<Rightarrow> [\<lparr>ck_segment = \<lparr>seg_text = [], seg_isCheer = True, seg_isEcho = False, seg_startTimeOffset = None\<rparr>,
         ck_time = round_nano (coalesce time 0), ck_selected = True\<rparr>]
     | _ \<Rightarrow> [])"

definition line_chunks :: "selection_edit \<Rightarrow> jsnum \<Rightarrow> lyric_line \<Rightarrow> nat option set \<Rightarrow> chunk list" where
  "line_chunks edit delta line indexes =
    concat (map (\<lambda>(index, segment).
        if Some index \<notin> indexes then [chunk_of line segment False] else call_chunks edit delta line segment)
      (with_index (line_segments line))) @ appended_chunks edit"

definition grouped_chunks :: "selection_edit \<Rightarrow> lyric_line \<Rightarrow> nat option set \<Rightarrow> chunk list" where
  "grouped_chunks edit line indexes =
    (case edit of
       GroupNotes _ \<Rightarrow> map (\<lambda>(index, segment). chunk_of line segment True)
         (filter (\<lambda>(index, segment). Some index \<in> indexes) (with_index (line_segments line)))
     | _ \<Rightarrow> [])"

definition select_line :: "selection_edit \<Rightarrow> jsnum \<Rightarrow> nat option set \<Rightarrow> lyric_line \<Rightarrow> marked_line list" where
  "select_line edit delta indexes line =
    (if indexes = {} then [unmarked line]
     else if \<not> line_isExtra line then whole_line edit delta line
     else if line_chunks edit delta line indexes \<noteq> [] then [rebase line (line_chunks edit delta line indexes)]
     else [])"

text \<open>The keys of the notes chosen on one line.\<close>

definition chosen_keys :: "editor_note list \<Rightarrow> nat \<Rightarrow> nat option set" where
  "chosen_keys notes lineIndex = set (map en_segmentIndex (filter (\<lambda>n. en_lineIndex n = lineIndex) notes))"

definition group_line :: "chunk list \<Rightarrow> marked_line list" where
  "group_line grouped =
    (if grouped \<noteq> [] then [rebase \<lparr>line_startTime = 0, line_segments = [], line_isExtra = True\<rparr> grouped] else [])"

definition selected_result :: "selection_edit \<Rightarrow> jsnum \<Rightarrow> lyrics_data \<Rightarrow> editor_note list \<Rightarrow> marked_line list" where
  "selected_result edit delta lyrics notes =
    sort_key (line_startTime \<circ> ml_line)
      (concat (map (\<lambda>(lineIndex, line). select_line edit delta (chosen_keys notes lineIndex) line) (with_index lyrics)) @
       group_line (concat (map (\<lambda>(lineIndex, line). grouped_chunks edit line (chosen_keys notes lineIndex)) (with_index lyrics))))"

definition is_marked :: "marked_line list \<Rightarrow> editor_note \<Rightarrow> bool" where
  "is_marked result n =
    (case en_segmentIndex n of None \<Rightarrow> ml_selected (result ! en_lineIndex n)
     | Some i \<Rightarrow> ml_marks (result ! en_lineIndex n) ! i)"

definition selection_outcome :: "marked_line list \<Rightarrow> selection_result" where
  "selection_outcome result =
    (let lyrics = map ml_line result;
         noteIds = map en_id (filter (is_marked result) (getEditorNotes lyrics))
     in \<lparr>sel_lyrics = lyrics, sel_noteIds = noteIds,
         sel_lineIndex = (case find (\<lambda>n. en_id n \<in> set noteIds) (getEditorNotes lyrics) of None \<Rightarrow> 0 | Some n \<Rightarrow> en_lineIndex n)\<rparr>)"

definition applySelectionEdit :: "lyrics_data \<Rightarrow> selection_edit \<Rightarrow> selection_result option" where
  "applySelectionEdit lyrics edit =
    (let notes = selected_notes lyrics (selection_ids edit) in
     if selection_refused edit notes then None
     else (case edit of
       TextNotes ids txt \<Rightarrow> text_selection lyrics ids notes txt
     | _ \<Rightarrow>
       (case selection_delta edit notes of
          None \<Rightarrow> None
        | Some delta \<Rightarrow> Some (selection_outcome (selected_result edit delta lyrics notes)))))"


section \<open>Times in nanoseconds\<close>

definition on_nano :: "jsnum \<Rightarrow> bool" where
  "on_nano t \<longleftrightarrow> t * 1000000000 \<in> \<int>"

lemma nano_round [simp]: "on_nano (round_nano t)"
  by (simp add: on_nano_def round_nano_def)

lemma round_nano_id: "on_nano t \<Longrightarrow> round_nano t = t"
proof -
  assume "on_nano t"
  then obtain k where k: "t * 1000000000 = of_int k" by (auto simp: on_nano_def elim: Ints_cases)
  then have "js_round (t * 1000000000) = k" by (simp add: js_round_def floor_eq_iff)
  then show "round_nano t = t" by (simp add: round_nano_def flip: k)
qed

lemma nano_zero [simp]: "on_nano 0"
  by (simp add: on_nano_def)

lemma nano_add: "on_nano x \<Longrightarrow> on_nano y \<Longrightarrow> on_nano (x + y)"
  by (simp add: on_nano_def distrib_right)

lemma nano_diff: "on_nano x \<Longrightarrow> on_nano y \<Longrightarrow> on_nano (x - y)"
  by (simp add: on_nano_def left_diff_distrib)

lemma nano_minus: "on_nano x \<Longrightarrow> on_nano (- x)"
  by (simp add: on_nano_def)

lemma round_nano_mono: "x \<le> y \<Longrightarrow> round_nano x \<le> round_nano y"
  by (simp add: round_nano_def js_round_mono divide_right_mono)

lemma round_nano_near: "round_nano x \<le> x + 1 / 2000000000"
  using of_int_floor_le [of "x * 1000000000 + 1 / 2"] by (simp add: round_nano_def js_round_def field_simps)

definition line_nano :: "lyric_line \<Rightarrow> bool" where
  "line_nano line \<longleftrightarrow> on_nano (line_startTime line) \<and> list_all (\<lambda>s. on_nano (segment_offset s)) (line_segments line)"

definition lyrics_nano :: "lyrics_data \<Rightarrow> bool" where
  "lyrics_nano lyrics \<longleftrightarrow> list_all line_nano lyrics"

section \<open>The selected notes as a collection\<close>

definition exact_view :: "lyrics_data \<Rightarrow> editor_note \<Rightarrow> note_view" where
  "exact_view lyrics n = (note_view n)\<lparr>nv_time := note_time lyrics n\<rparr>"

text \<open>The notes at the places that satisfy a predicate, by line and segment.\<close>

definition views_at :: "(nat \<Rightarrow> nat option \<Rightarrow> bool) \<Rightarrow> lyrics_data \<Rightarrow> note_view multiset" where
  "views_at Q lyrics =
    mset (map (exact_view lyrics) (filter (\<lambda>n. Q (en_lineIndex n) (en_segmentIndex n)) (getEditorNotes lyrics)))"

definition call_view :: "lyric_line \<Rightarrow> lyric_segment \<Rightarrow> note_view" where
  "call_view line s = \<lparr>nv_extra = True, nv_time = line_startTime line + segment_offset s, nv_segments = [bare s]\<rparr>"

definition keyed_views :: "lyric_line \<Rightarrow> (nat option \<times> note_view) list" where
  "keyed_views line =
    (if line_isExtra line then map (\<lambda>(k, s). (Some k, call_view line s)) (with_index (line_segments line))
     else [(None, \<lparr>nv_extra = False, nv_time = line_startTime line, nv_segments = line_segments line\<rparr>)])"

definition views_of :: "(nat option \<Rightarrow> bool) \<Rightarrow> lyric_line \<Rightarrow> note_view list" where
  "views_of q line = map snd (filter (\<lambda>(k, v). q k) (keyed_views line))"

lemma line_notes_exact:
  assumes "lyrics ! i = line"
  shows "map (\<lambda>n. (en_segmentIndex n, exact_view lyrics n)) (line_notes i line) = keyed_views line"
proof (cases "line_isExtra line")
  case True
  have "map (\<lambda>n. (en_segmentIndex n, exact_view lyrics n)) (line_notes i line) =
    map (\<lambda>(k, s). (Some k, \<lparr>nv_extra = True, nv_time = line_startTime line + segment_offset (line_segments line ! k), nv_segments = [bare s]\<rparr>))
      (with_index (line_segments line))"
    using True by (simp add: line_notes_def exact_view_def note_view_def note_time_def assms case_prod_beta comp_def)
  also have "\<dots> = keyed_views line"
    using True by (auto simp: keyed_views_def call_view_def with_index_nth intro!: map_cong)
  finally show ?thesis .
next
  case False
  then show ?thesis
    using map_snd_enumerate_fun [of "\<lambda>s. s" 0 "line_segments line"]
    by (simp add: line_notes_def keyed_views_def exact_view_def note_view_def note_time_def assms case_prod_beta comp_def)
qed

lemma line_index: "n \<in> set (line_notes i line) \<Longrightarrow> en_lineIndex n = i"
  by (auto simp: line_notes_in split: if_splits)

lemma line_notes_filtered:
  assumes "lyrics ! i = line"
  shows "map (exact_view lyrics) (filter (\<lambda>n. Q (en_lineIndex n) (en_segmentIndex n)) (line_notes i line)) = views_of (Q i) line"
proof -
  have "filter (\<lambda>n. Q (en_lineIndex n) (en_segmentIndex n)) (line_notes i line) = filter (\<lambda>n. Q i (en_segmentIndex n)) (line_notes i line)"
    by (rule filter_cong) (simp_all add: line_index)
  then show ?thesis
    unfolding views_of_def line_notes_exact [OF assms, symmetric] by (simp add: filter_map comp_def)
qed

lemma views_at_lines: "views_at Q lyrics = mset (concat (map (\<lambda>(i, line). views_of (Q i) line) (with_index lyrics)))"
proof -
  have "map (exact_view lyrics) (filter (\<lambda>n. Q (en_lineIndex n) (en_segmentIndex n)) (getEditorNotes lyrics)) =
    concat (map (\<lambda>(i, line). map (exact_view lyrics) (filter (\<lambda>n. Q (en_lineIndex n) (en_segmentIndex n)) (line_notes i line))) (with_index lyrics))"
    by (simp add: getEditorNotes_def filter_concat map_concat comp_def case_prod_unfold)
  also have "\<dots> = concat (map (\<lambda>(i, line). views_of (Q i) line) (with_index lyrics))"
    by (intro arg_cong [where f = concat] map_cong) (auto simp: with_index_nth line_notes_filtered)
  finally show ?thesis by (simp add: views_at_def)
qed

lemma mset_concat_cong: "(\<And>x. x \<in> set xs \<Longrightarrow> mset (f x) = mset (g x)) \<Longrightarrow> mset (concat (map f xs)) = mset (concat (map g xs))"
  by (induction xs) simp_all

lemma mset_concat_plus: "mset (concat (map (\<lambda>x. f x @ g x) xs)) = mset (concat (map f xs)) + mset (concat (map g xs))"
  by (induction xs) simp_all

lemma mset_concat_sort: "mset (concat (map f (sort_key k xs))) = mset (concat (map f xs))"
  by (simp add: mset_concat_sum)

section \<open>The lines of the result\<close>

definition mark_at :: "marked_line \<Rightarrow> nat option \<Rightarrow> bool" where
  "mark_at m k = (case k of None \<Rightarrow> ml_selected m | Some i \<Rightarrow> ml_marks m ! i)"

definition marked_views :: "marked_line \<Rightarrow> note_view list" where
  "marked_views m = views_of (mark_at m) (ml_line m)"

abbreviation all_views :: "lyric_line \<Rightarrow> note_view list" where
  "all_views \<equiv> views_of (\<lambda>_. True)"

lemma views_all: "views_at (\<lambda>_ _. True) lyrics = mset (concat (map all_views lyrics))"
  by (simp add: views_at_lines)

lemma views_marked:
  "views_at (\<lambda>i k. mark_at (result ! i) k) (map ml_line result) = mset (concat (map marked_views result))"
proof -
  have "concat (map (\<lambda>(i, line). views_of (mark_at (result ! i)) line) (with_index (map ml_line result))) =
    concat (map (\<lambda>(i, m). marked_views m) (with_index result))"
    by (intro arg_cong [where f = concat] nth_equalityI) (auto simp: marked_views_def nth_enumerate_eq)
  then show ?thesis by (simp add: views_at_lines)
qed

definition chunk_view :: "chunk \<Rightarrow> note_view" where
  "chunk_view c = \<lparr>nv_extra = True, nv_time = ck_time c, nv_segments = [bare (ck_segment c)]\<rparr>"

lemma filter_marks: "map (\<lambda>(i, x). f x) (filter (\<lambda>(i, x). map P xs ! i) (with_index xs)) = map f (filter P xs)"
proof -
  have "filter (\<lambda>(i, x). map P xs ! i) (with_index xs) = filter (\<lambda>(i, x). P x) (with_index xs)"
    by (rule filter_cong) (auto simp: with_index_nth)
  moreover have "map (\<lambda>(i, x). f x) (filter (\<lambda>(i, x). P x) (List.enumerate n xs)) = map f (filter P xs)" for n
    by (induction xs arbitrary: n) auto
  ultimately show ?thesis by simp
qed


lemma views_of_extra: "line_isExtra line \<Longrightarrow>
  views_of q line = map (\<lambda>(k, s). call_view line s) (filter (\<lambda>(k, s). q (Some k)) (with_index (line_segments line)))"
  by (simp add: views_of_def keyed_views_def filter_map comp_def case_prod_unfold)

lemma views_of_whole: "\<not> line_isExtra line \<Longrightarrow>
  views_of q line = (if q None then [\<lparr>nv_extra = False, nv_time = line_startTime line, nv_segments = line_segments line\<rparr>] else [])"
  by (simp add: views_of_def keyed_views_def)

lemma rebase_extra [simp]: "line_isExtra (ml_line (rebase line chunks)) = line_isExtra line"
  by (simp add: rebase_def Let_def)

lemma rebase_segments:
  assumes "\<forall>c \<in> set chunks. on_nano (ck_time c)" and "chunks \<noteq> []"
  shows "map (call_view (ml_line (rebase line chunks))) (line_segments (ml_line (rebase line chunks))) = map chunk_view (sort_key ck_time chunks)"
    and "line_nano (ml_line (rebase line chunks))"
proof -
  define start where "start = Min (ck_time ` set chunks)"
  have "start \<in> ck_time ` set chunks" unfolding start_def using assms(2) by (intro Min_in) auto
  then have start: "on_nano start" using assms(1) by auto
  have line: "ml_line (rebase line chunks) = line\<lparr>line_startTime := start, line_segments :=
      map (\<lambda>c. (ck_segment c)\<lparr>seg_startTimeOffset := Some (round_nano (ck_time c - start))\<rparr>) (sort_key ck_time chunks)\<rparr>"
    by (simp add: rebase_def Let_def start_def)
  have "round_nano (ck_time c - start) = ck_time c - start" if "c \<in> set chunks" for c
    using assms(1) that start by (simp add: round_nano_id nano_diff)
  then show "map (call_view (ml_line (rebase line chunks))) (line_segments (ml_line (rebase line chunks))) = map chunk_view (sort_key ck_time chunks)"
    by (simp add: line call_view_def chunk_view_def)
  show "line_nano (ml_line (rebase line chunks))" by (simp add: line line_nano_def list_all_iff start)
qed

lemma enumerate_map: "List.enumerate n (map f xs) = map (\<lambda>(i, x). (i, f x)) (List.enumerate n xs)"
  by (induction xs arbitrary: n) simp_all

lemma rebase_views:
  assumes "\<forall>c \<in> set chunks. on_nano (ck_time c)" and "chunks \<noteq> []" and "line_isExtra line"
  shows "mset (all_views (ml_line (rebase line chunks))) = mset (map chunk_view chunks)"
    and "mset (marked_views (rebase line chunks)) = mset (map chunk_view (filter ck_selected chunks))"
proof -
  note segs = rebase_segments(1) [OF assms(1,2), of line]
  have "all_views (ml_line (rebase line chunks)) = map chunk_view (sort_key ck_time chunks)"
    by (simp add: views_of_extra assms(3) segs)
  then show "mset (all_views (ml_line (rebase line chunks))) = mset (map chunk_view chunks)" by simp
  define sorted where "sorted = sort_key ck_time chunks"
  define g where "g = (\<lambda>c :: chunk. (ck_segment c)\<lparr>seg_startTimeOffset := Some (round_nano (ck_time c - Min (ck_time ` set chunks)))\<rparr>)"
  have line: "line_segments (ml_line (rebase line chunks)) = map g sorted" "ml_marks (rebase line chunks) = map ck_selected sorted"
    by (simp_all add: rebase_def Let_def g_def sorted_def)
  have view: "call_view (ml_line (rebase line chunks)) (g c) = chunk_view c" if "c \<in> set sorted" for c
    using segs that unfolding line sorted_def [symmetric] by simp
  have "marked_views (rebase line chunks) =
      map (\<lambda>(k, c). call_view (ml_line (rebase line chunks)) (g c)) (filter (\<lambda>(k, c). map ck_selected sorted ! k) (with_index sorted))"
    by (simp add: marked_views_def views_of_extra assms(3) line mark_at_def enumerate_map filter_map comp_def case_prod_unfold)
  also have "\<dots> = map (\<lambda>c. call_view (ml_line (rebase line chunks)) (g c)) (filter ck_selected sorted)" by (rule filter_marks)
  also have "\<dots> = map chunk_view (filter ck_selected sorted)" by (rule map_cong) (simp_all add: view)
  finally show "mset (marked_views (rebase line chunks)) = mset (map chunk_view (filter ck_selected chunks))"
    by (simp add: sorted_def)
qed


section \<open>What each edit should do\<close>

text \<open>The originals that stay beside the selection, and the views of the new selection.\<close>

fun kept_views :: "selection_edit \<Rightarrow> note_view multiset \<Rightarrow> note_view multiset" where
  "kept_views (DuplicateNotes _ _ _) chosen = chosen"
| "kept_views (AppendCall _ _) chosen = chosen"
| "kept_views _ chosen = {#}"

definition shifted :: "jsnum \<Rightarrow> note_view \<Rightarrow> note_view" where
  "shifted d v = v\<lparr>nv_time := nv_time v + d\<rparr>"

fun new_views :: "selection_edit \<Rightarrow> jsnum \<Rightarrow> note_view multiset \<Rightarrow> note_view multiset" where
  "new_views (MoveNotes _ _ _) d chosen = image_mset (shifted d) chosen"
| "new_views (DuplicateNotes _ _ _) d chosen = image_mset (shifted d) chosen"
| "new_views (DeleteNotes _) d chosen = {#}"
| "new_views (GroupNotes _) d chosen = chosen"
| "new_views (TextNotes _ txt) d chosen = image_mset (\<lambda>v. v\<lparr>nv_segments := map (\<lambda>s. s\<lparr>seg_text := txt\<rparr>) (nv_segments v)\<rparr>) chosen"
| "new_views (AppendCall _ t) d chosen = {#\<lparr>nv_extra = True, nv_time = round_nano (coalesce t 0),
    nv_segments = [\<lparr>seg_text = [], seg_isCheer = True, seg_isEcho = False, seg_startTimeOffset = None\<rparr>]\<rparr>#}"

text \<open>The part of the new selection that comes from the chosen notes themselves.\<close>

definition own_views :: "selection_edit \<Rightarrow> jsnum \<Rightarrow> note_view multiset \<Rightarrow> note_view multiset" where
  "own_views e d chosen = (case e of AppendCall _ _ \<Rightarrow> {#} | _ \<Rightarrow> new_views e d chosen)"

lemma kept_plus: "kept_views e (A + B) = kept_views e A + kept_views e B"
  by (cases e) simp_all

lemma own_plus: "own_views e d (A + B) = own_views e d A + own_views e d B"
  by (cases e) (simp_all add: own_views_def)

lemma kept_empty [simp]: "kept_views e {#} = {#}"
  by (cases e) simp_all

lemma own_empty [simp]: "own_views e d {#} = {#}"
  by (cases e) (simp_all add: own_views_def)

definition is_group :: "selection_edit \<Rightarrow> bool" where
  "is_group e \<longleftrightarrow> (case e of GroupNotes _ \<Rightarrow> True | _ \<Rightarrow> False)"

text \<open>The edits that build lines anew; appending does not shift.\<close>

definition rebuilds :: "selection_edit \<Rightarrow> jsnum \<Rightarrow> bool" where
  "rebuilds e d \<longleftrightarrow> on_nano d \<and> (case e of TextNotes _ _ \<Rightarrow> False | AppendCall _ _ \<Rightarrow> d = 0 | _ \<Rightarrow> True)"

lemma chunk_of_view: "line_nano line \<Longrightarrow> s \<in> set (line_segments line) \<Longrightarrow> chunk_view (chunk_of line s b) = call_view line s"
  by (simp add: chunk_view_def chunk_of_def call_view_def line_nano_def list_all_iff round_nano_id nano_add)

lemma chunk_of_fields [simp]: "ck_selected (chunk_of line s b) = b" "ck_segment (chunk_of line s b) = s" "on_nano (ck_time (chunk_of line s b))"
  by (simp_all add: chunk_of_def)

lemma call_chunks_views:
  assumes "line_nano line" and "s \<in> set (line_segments line)" and "rebuilds e d"
  shows "mset (map chunk_view (call_chunks e d line s)) + (if is_group e then {#call_view line s#} else {#}) =
      kept_views e {#call_view line s#} + own_views e d {#call_view line s#}"
    and "mset (map chunk_view (filter ck_selected (call_chunks e d line s))) + (if is_group e then {#call_view line s#} else {#}) =
      own_views e d {#call_view line s#}"
    and "\<forall>c \<in> set (call_chunks e d line s). on_nano (ck_time c)"
proof -
  have "on_nano (line_startTime line + segment_offset s)" using assms(1,2) by (simp add: line_nano_def list_all_iff nano_add)
  then have t: "ck_time (chunk_of line s b) = line_startTime line + segment_offset s" for b by (simp add: chunk_of_def round_nano_id)
  then have d: "round_nano (line_startTime line + segment_offset s + d) = line_startTime line + segment_offset s + d"
    using assms(3) by (metis chunk_of_fields(3) nano_add rebuilds_def round_nano_id)
  have original: "chunk_view (chunk_of line s b) = call_view line s" for b by (rule chunk_of_view [OF assms(1,2)])
  have moved: "chunk_view \<lparr>ck_segment = s, ck_time = line_startTime line + segment_offset s + d, ck_selected = b\<rparr> = shifted d (call_view line s)" for b
    by (simp add: chunk_view_def shifted_def call_view_def)
  have plain: "chunk_view \<lparr>ck_segment = s, ck_time = line_startTime line + segment_offset s, ck_selected = b\<rparr> = call_view line s" for b
    by (simp add: chunk_view_def call_view_def)
  have r: "round_nano (line_startTime line + segment_offset s) = line_startTime line + segment_offset s" using t by (simp add: chunk_of_def)
  have still: "d = 0 \<Longrightarrow> shifted d v = v" for v by (simp add: shifted_def)
  show "mset (map chunk_view (call_chunks e d line s)) + (if is_group e then {#call_view line s#} else {#}) =
      kept_views e {#call_view line s#} + own_views e d {#call_view line s#}"
    using assms(3) by (cases e) (simp_all add: call_chunks_def Let_def t d moved original is_group_def own_views_def rebuilds_def still r plain)
  show "mset (map chunk_view (filter ck_selected (call_chunks e d line s))) + (if is_group e then {#call_view line s#} else {#}) =
      own_views e d {#call_view line s#}"
    using assms(3) by (cases e) (simp_all add: call_chunks_def Let_def t d moved is_group_def own_views_def rebuilds_def)
  show "\<forall>c \<in> set (call_chunks e d line s). on_nano (ck_time c)"
    by (cases e) (simp_all add: call_chunks_def Let_def)
qed


definition calls :: "lyric_line \<Rightarrow> nat option set \<Rightarrow> (nat \<times> lyric_segment) list \<Rightarrow> note_view multiset" where
  "calls line indexes xs = mset (map (\<lambda>(i, s). call_view line s) (filter (\<lambda>(i, s). Some i \<in> indexes) xs))"

lemma add_pairs:
  fixes a :: "'a multiset"
  assumes "a + g = k + v" and "a' + g' = c + k' + v'"
  shows "(a + a') + (g + g') = c + (k + k') + (v + v')"
proof -
  have "(a + a') + (g + g') = (a + g) + (a' + g')" by (simp add: add_ac)
  also have "\<dots> = c + (k + k') + (v + v')" unfolding assms by (simp add: add_ac)
  finally show ?thesis .
qed

lemma segments_views:
  fixes idx :: "nat option set"
  assumes "line_nano line" and "\<forall>(i, s) \<in> set xs. s \<in> set (line_segments line)" and "rebuilds e d"
  defines "f \<equiv> \<lambda>(i, s). if Some i \<notin> idx then [chunk_of line s False] else call_chunks e d line s"
  shows "mset (map chunk_view (concat (map f xs))) + (if is_group e then calls line idx xs else {#}) =
      calls line (- idx) xs + kept_views e (calls line idx xs) + own_views e d (calls line idx xs)" (is "?all xs")
    and "mset (map chunk_view (filter ck_selected (concat (map f xs)))) + (if is_group e then calls line idx xs else {#}) =
      own_views e d (calls line idx xs)" (is "?marked xs")
    and "\<forall>c \<in> set (concat (map f xs)). on_nano (ck_time c)" (is "?nano xs")
proof -
  have "?all xs \<and> ?marked xs \<and> ?nano xs" using assms(2)
  proof (induction xs)
    case Nil
    then show ?case by (simp add: calls_def)
  next
    case (Cons x xs)
    obtain i s where x: "x = (i, s)" by (cases x)
    with Cons.prems have s: "s \<in> set (line_segments line)" by simp
    from Cons have IH: "?all xs" "?marked xs" "?nano xs" by simp_all
    show ?case
    proof (cases "Some i \<in> idx")
      case True
      then have c: "calls line idx (x # xs) = {#call_view line s#} + calls line idx xs" "calls line (- idx) (x # xs) = calls line (- idx) xs"
        "f x = call_chunks e d line s" by (simp_all add: calls_def x f_def)
      note own = call_chunks_views [OF assms(1) s assms(3)]
      have "?all (x # xs)"
        using add_pairs [OF own(1) IH(1)] unfolding c kept_plus own_plus by (cases "is_group e") (simp_all add: c(3))
      moreover have "?marked (x # xs)"
        using add_pairs [of _ _ "{#}" _ _ _ "{#}" "{#}", unfolded add_0, OF own(2) IH(2)] unfolding c own_plus
        by (cases "is_group e") (simp_all add: c(3))
      moreover have "?nano (x # xs)" using own(3) IH(3) by (auto simp: c(3))
      ultimately show ?thesis by blast
    next
      case False
      then have c: "calls line idx (x # xs) = calls line idx xs" "calls line (- idx) (x # xs) = {#call_view line s#} + calls line (- idx) xs"
        "f x = [chunk_of line s False]" by (simp_all add: calls_def x f_def)
      show ?thesis using IH unfolding c by (simp add: c(3) chunk_of_view [OF assms(1) s])
    qed
  qed
  then show "?all xs" "?marked xs" "?nano xs" by simp_all
qed

lemma calls_views: "line_isExtra line \<Longrightarrow> calls line idx (with_index (line_segments line)) = mset (views_of (\<lambda>k. k \<in> idx) line)"
  by (simp add: calls_def views_of_extra)

lemma grouped_views:
  assumes "line_nano line" and "line_isExtra line"
  shows "mset (map chunk_view (grouped_chunks e line idx)) = (if is_group e then mset (views_of (\<lambda>k. k \<in> idx) line) else {#})"
proof -
  have eq: "map chunk_view (map (\<lambda>(i, s). chunk_of line s True) (filter (\<lambda>(i, s). Some i \<in> idx) (with_index (line_segments line)))) =
      map (\<lambda>(i, s). call_view line s) (filter (\<lambda>(i, s). Some i \<in> idx) (with_index (line_segments line)))"
    using chunk_of_view [OF assms(1)] by (auto simp: with_index_nth)
  show ?thesis
  proof (cases "is_group e")
    case True
    then have "grouped_chunks e line idx = map (\<lambda>(i, s). chunk_of line s True) (filter (\<lambda>(i, s). Some i \<in> idx) (with_index (line_segments line)))"
      by (cases e) (simp_all add: grouped_chunks_def is_group_def)
    with True show ?thesis by (simp only: eq views_of_extra [OF assms(2)] if_True)
  qed (cases e, simp_all add: grouped_chunks_def is_group_def)
qed

lemma grouped_nano: "\<forall>c \<in> set (grouped_chunks e line idx). on_nano (ck_time c) \<and> ck_selected c"
  by (cases e) (auto simp: grouped_chunks_def)

lemma appended_nano: "\<forall>c \<in> set (appended_chunks e). on_nano (ck_time c) \<and> ck_selected c"
  by (cases e) (simp_all add: appended_chunks_def)

lemma unmarked_views [simp]: "ml_line (unmarked line) = line" "marked_views (unmarked line) = []"
proof -
  have "filter (\<lambda>(k, v). mark_at (unmarked line) k) (keyed_views line) = []"
    by (auto simp: filter_empty_conv keyed_views_def mark_at_def unmarked_def with_index_nth)
  then show "ml_line (unmarked line) = line" "marked_views (unmarked line) = []"
    by (simp_all add: marked_views_def views_of_def) (simp_all add: unmarked_def)
qed


text \<open>The calls of a line that are selected, and the ones that are not.\<close>

abbreviation chosen_on :: "nat option set \<Rightarrow> lyric_line \<Rightarrow> note_view multiset" where
  "chosen_on idx line \<equiv> mset (views_of (\<lambda>k. k \<in> idx) line)"

abbreviation other_on :: "nat option set \<Rightarrow> lyric_line \<Rightarrow> note_view multiset" where
  "other_on idx line \<equiv> mset (views_of (\<lambda>k. k \<notin> idx) line)"

definition appended_on :: "selection_edit \<Rightarrow> nat option set \<Rightarrow> note_view multiset" where
  "appended_on e idx = (if idx = {} then {#} else mset (map chunk_view (appended_chunks e)))"

lemma line_chunks_views:
  assumes "line_nano line" and "line_isExtra line" and "rebuilds e d" and "idx \<noteq> {}"
  shows "mset (map chunk_view (line_chunks e d line idx)) + mset (map chunk_view (grouped_chunks e line idx)) =
      other_on idx line + kept_views e (chosen_on idx line) + own_views e d (chosen_on idx line) + appended_on e idx"
    and "mset (map chunk_view (filter ck_selected (line_chunks e d line idx))) + mset (map chunk_view (grouped_chunks e line idx)) =
      own_views e d (chosen_on idx line) + appended_on e idx"
    and "\<forall>c \<in> set (line_chunks e d line idx). on_nano (ck_time c)"
proof -
  define xs where "xs = with_index (line_segments line)"
  have in_line: "\<forall>(i, s) \<in> set xs. s \<in> set (line_segments line)" by (auto simp: xs_def with_index_nth)
  define own where "own = concat (map (\<lambda>(i, s). if Some i \<notin> idx then [chunk_of line s False] else call_chunks e d line s) xs)"
  have chunks: "line_chunks e d line idx = own @ appended_chunks e" by (simp add: line_chunks_def own_def xs_def)
  note v = segments_views [OF assms(1) in_line assms(3), of idx, folded own_def]
  have chosen: "calls line idx xs = chosen_on idx line" and other: "calls line (- idx) xs = other_on idx line"
    by (simp_all add: xs_def calls_views assms(2))
  have grouped: "mset (map chunk_view (grouped_chunks e line idx)) = (if is_group e then calls line idx xs else {#})"
    by (simp only: grouped_views [OF assms(1,2)] chosen)
  have appended: "filter ck_selected (appended_chunks e) = appended_chunks e" using appended_nano by (simp add: filter_id_conv)
  show "mset (map chunk_view (line_chunks e d line idx)) + mset (map chunk_view (grouped_chunks e line idx)) =
      other_on idx line + kept_views e (chosen_on idx line) + own_views e d (chosen_on idx line) + appended_on e idx"
    using v(1) unfolding grouped chunks chosen other by (simp add: appended_on_def assms(4) add_ac)
  show "mset (map chunk_view (filter ck_selected (line_chunks e d line idx))) + mset (map chunk_view (grouped_chunks e line idx)) =
      own_views e d (chosen_on idx line) + appended_on e idx"
    using v(2) unfolding grouped chunks filter_append appended chosen by (simp add: appended_on_def assms(4) add_ac)
  show "\<forall>c \<in> set (line_chunks e d line idx). on_nano (ck_time c)"
    using v(3) appended_nano by (auto simp: chunks)
qed

text \<open>Grouping and appending only ever reach calls.\<close>

definition reaches :: "selection_edit \<Rightarrow> nat option set \<Rightarrow> lyric_line \<Rightarrow> bool" where
  "reaches e idx line \<longleftrightarrow> (if line_isExtra line then None \<notin> idx
    else idx \<subseteq> {None} \<and> (idx = {} \<or> \<not> is_group e \<and> appended_chunks e = []))"

abbreviation result_views :: "marked_line list \<Rightarrow> note_view multiset" where
  "result_views ms \<equiv> mset (concat (map (\<lambda>m. all_views (ml_line m)) ms))"

abbreviation selected_views :: "marked_line list \<Rightarrow> note_view multiset" where
  "selected_views ms \<equiv> mset (concat (map marked_views ms))"

lemma whole_line_views:
  assumes "line_nano line" and "\<not> line_isExtra line" and "rebuilds e d" and "\<not> is_group e" and "appended_chunks e = []"
  shows "result_views (whole_line e d line) = kept_views e (mset (all_views line)) + own_views e d (mset (all_views line))"
    and "selected_views (whole_line e d line) = own_views e d (mset (all_views line))"
    and "\<forall>m \<in> set (whole_line e d line). line_nano (ml_line m)"
proof -
  let ?v = "\<lparr>nv_extra = False, nv_time = line_startTime line, nv_segments = line_segments line\<rparr>"
  let ?copy = "\<lparr>ml_line = line\<lparr>line_startTime := round_nano (line_startTime line + d)\<rparr>, ml_selected = True, ml_marks = map (\<lambda>_. False) (line_segments line)\<rparr>"
  have all: "all_views line = [?v]" by (simp add: views_of_whole assms(2))
  have "round_nano (line_startTime line + d) = line_startTime line + d"
    using assms(1,3) by (simp add: round_nano_id nano_add line_nano_def rebuilds_def)
  then have copy: "all_views (ml_line ?copy) = [shifted d ?v]" "marked_views ?copy = [shifted d ?v]"
    by (simp_all add: views_of_whole marked_views_def assms(2) mark_at_def shifted_def)
  show "result_views (whole_line e d line) = kept_views e (mset (all_views line)) + own_views e d (mset (all_views line))"
    using assms(3,4,5) copy by (cases e) (simp_all add: whole_line_def Let_def all own_views_def is_group_def rebuilds_def appended_chunks_def)
  show "selected_views (whole_line e d line) = own_views e d (mset (all_views line))"
    using assms(3,4,5) copy by (cases e) (simp_all add: whole_line_def Let_def all own_views_def is_group_def rebuilds_def appended_chunks_def)
  show "\<forall>m \<in> set (whole_line e d line). line_nano (ml_line m)"
    using assms(1) by (cases e) (simp_all add: whole_line_def Let_def line_nano_def)
qed

lemma select_line_views:
  assumes "line_nano line" and "rebuilds e d" and "reaches e idx line"
  shows "result_views (select_line e d idx line) + mset (map chunk_view (grouped_chunks e line idx)) =
      other_on idx line + kept_views e (chosen_on idx line) + own_views e d (chosen_on idx line) + appended_on e idx" (is ?all)
    and "selected_views (select_line e d idx line) + mset (map chunk_view (grouped_chunks e line idx)) =
      own_views e d (chosen_on idx line) + appended_on e idx" (is ?marked)
    and "\<forall>m \<in> set (select_line e d idx line). line_nano (ml_line m)" (is ?nano)
proof -
  have none: "idx = {} \<Longrightarrow> views_of (\<lambda>k. k \<in> idx) line = [] \<and> views_of (\<lambda>k. k \<notin> idx) line = all_views line \<and> grouped_chunks e line idx = []"
    by (cases e) (simp_all add: views_of_def grouped_chunks_def)
  consider "idx = {}" | "idx \<noteq> {}" "\<not> line_isExtra line" | "idx \<noteq> {}" "line_isExtra line" by blast
  then have "?all \<and> ?marked \<and> ?nano"
  proof cases
    case 1
    with none [OF 1] assms(1) show ?thesis by (simp add: select_line_def appended_on_def)
  next
    case 2
    with assms(3) have e: "\<not> is_group e" "appended_chunks e = []" "idx = {None}" by (auto simp: reaches_def)
    then have "views_of (\<lambda>k. k \<in> idx) line = all_views line" "views_of (\<lambda>k. k \<notin> idx) line = []" "grouped_chunks e line idx = []"
      using 2 by (simp_all add: views_of_whole) (cases e; simp add: grouped_chunks_def is_group_def)
    with whole_line_views [OF assms(1) 2(2) assms(2) e(1,2)] 2 e show ?thesis by (simp add: select_line_def appended_on_def)
  next
    case 3
    note v = line_chunks_views [OF assms(1) 3(2) assms(2) 3(1)]
    show ?thesis
    proof (cases "line_chunks e d line idx = []")
      case True
      with v 3 show ?thesis by (simp add: select_line_def)
    next
      case False
      with 3 have "select_line e d idx line = [rebase line (line_chunks e d line idx)]" by (simp add: select_line_def)
      with v rebase_views [OF v(3) False 3(2)] rebase_segments(2) [OF v(3) False] show ?thesis by simp
    qed
  qed
  then show ?all ?marked ?nano by simp_all
qed


section \<open>The whole edit\<close>

definition chosen_views :: "string list \<Rightarrow> lyrics_data \<Rightarrow> note_view multiset" where
  "chosen_views ids lyrics = views_at (\<lambda>i k. idFor i k \<in> set ids) lyrics"

definition other_views :: "string list \<Rightarrow> lyrics_data \<Rightarrow> note_view multiset" where
  "other_views ids lyrics = views_at (\<lambda>i k. idFor i k \<notin> set ids) lyrics"

lemma views_of_cong: "(\<And>k v. (k, v) \<in> set (keyed_views line) \<Longrightarrow> q k = q' k) \<Longrightarrow> views_of q line = views_of q' line"
  unfolding views_of_def by (intro arg_cong [where f = "map snd"] filter_cong) auto

lemma key_note:
  assumes "i < length lyrics" and "(k, v) \<in> set (keyed_views (lyrics ! i))"
  shows "\<exists>n \<in> set (getEditorNotes lyrics). en_id n = idFor i k \<and> en_lineIndex n = i \<and> en_segmentIndex n = k"
proof -
  have "case k of None \<Rightarrow> \<not> line_isExtra (lyrics ! i) | Some j \<Rightarrow> line_isExtra (lyrics ! i) \<and> j < length (line_segments (lyrics ! i))"
    using assms(2) by (auto simp: keyed_views_def with_index_nth split: if_splits)
  from note_exists [OF assms(1) this] obtain n
    where n: "n \<in> set (getEditorNotes lyrics)" "en_id n = idFor i k" "en_lineIndex n = i" by blast
  with note_parts(2) [OF n(1)] show ?thesis by auto
qed

lemma chosen_keys_iff:
  "k \<in> chosen_keys (selected_notes lyrics ids) i \<longleftrightarrow>
    (\<exists>n \<in> set (getEditorNotes lyrics). en_id n \<in> set ids \<and> en_lineIndex n = i \<and> en_segmentIndex n = k)"
proof -
  have "chosen_keys (selected_notes lyrics ids) i =
      en_segmentIndex ` {n \<in> set (getEditorNotes lyrics). en_id n \<in> set ids \<and> en_lineIndex n = i}"
    by (simp add: chosen_keys_def selected_notes_def filter_map comp_def image_image conj_assoc Collect_conj_eq [symmetric] Int_def)
  then show ?thesis by auto
qed

lemma chosen_key:
  assumes "i < length lyrics" and "(k, v) \<in> set (keyed_views (lyrics ! i))"
  shows "k \<in> chosen_keys (selected_notes lyrics ids) i \<longleftrightarrow> idFor i k \<in> set ids"
proof -
  obtain n where n: "n \<in> set (getEditorNotes lyrics)" "en_id n = idFor i k" "en_lineIndex n = i" "en_segmentIndex n = k"
    using key_note [OF assms] by blast
  show ?thesis
  proof
    assume "k \<in> chosen_keys (selected_notes lyrics ids) i"
    then obtain m where "m \<in> set (getEditorNotes lyrics)" "en_id m \<in> set ids" "en_lineIndex m = i" "en_segmentIndex m = k"
      by (auto simp: chosen_keys_iff)
    then show "idFor i k \<in> set ids" using note_parts(2) by metis
  next
    assume "idFor i k \<in> set ids"
    with n show "k \<in> chosen_keys (selected_notes lyrics ids) i" unfolding chosen_keys_iff by (intro bexI [of _ n]) simp_all
  qed
qed

lemma mset_concat_sum_list: "mset (concat (map f xs)) = (\<Sum>x \<leftarrow> xs. mset (f x))"
  by (induction xs) simp_all

lemma chosen_sum: "(\<Sum>(i, l) \<leftarrow> with_index lyrics. chosen_on (chosen_keys (selected_notes lyrics ids) i) l) = chosen_views ids lyrics"
  unfolding chosen_views_def views_at_lines mset_concat_sum_list
  by (intro arg_cong [where f = sum_list] map_cong) (auto simp: with_index_nth chosen_key intro!: arg_cong [where f = mset] views_of_cong)

lemma other_sum: "(\<Sum>(i, l) \<leftarrow> with_index lyrics. other_on (chosen_keys (selected_notes lyrics ids) i) l) = other_views ids lyrics"
  unfolding other_views_def views_at_lines mset_concat_sum_list
  by (intro arg_cong [where f = sum_list] map_cong) (auto simp: with_index_nth chosen_key intro!: arg_cong [where f = mset] views_of_cong)

lemma kept_sum: "(\<Sum>x \<leftarrow> xs. kept_views e (f x)) = kept_views e (\<Sum>x \<leftarrow> xs. f x)"
  by (induction xs) (simp_all add: kept_plus)

lemma own_sum: "(\<Sum>x \<leftarrow> xs. own_views e d (f x)) = own_views e d (\<Sum>x \<leftarrow> xs. f x)"
  by (induction xs) (simp_all add: own_plus)

lemma one_of_enumerate:
  "(\<Sum>(j, x) \<leftarrow> List.enumerate n xs. if j = a then N else {#}) = (if n \<le> a \<and> a < n + length xs then N else {#})"
  by (induction xs arbitrary: n) auto

lemma group_line_views:
  assumes "\<forall>c \<in> set grouped. on_nano (ck_time c) \<and> ck_selected c"
  shows "result_views (group_line grouped) = mset (map chunk_view grouped)"
    and "selected_views (group_line grouped) = mset (map chunk_view grouped)"
    and "\<forall>m \<in> set (group_line grouped). line_nano (ml_line m)"
proof -
  have nano: "\<forall>c \<in> set grouped. on_nano (ck_time c)" and sel: "filter ck_selected grouped = grouped" using assms by (simp_all add: filter_id_conv)
  let ?line = "\<lparr>line_startTime = 0, line_segments = [], line_isExtra = True\<rparr>"
  show "result_views (group_line grouped) = mset (map chunk_view grouped)"
    "selected_views (group_line grouped) = mset (map chunk_view grouped)"
    "\<forall>m \<in> set (group_line grouped). line_nano (ml_line m)"
    using rebase_views [OF nano, of ?line] rebase_segments(2) [OF nano, of ?line] sel by (simp_all add: group_line_def)
qed

lemma sum_lines:
  assumes "\<And>i l. (i, l) \<in> set xs \<Longrightarrow> F (s i l) + mset (map chunk_view (g i l)) = (R i l :: note_view multiset)"
    and "\<And>ms ms'. F (ms @ ms') = F ms + F ms'" and "F [] = {#}"
  shows "F (concat (map (\<lambda>(i, l). s i l) xs)) + mset (map chunk_view (concat (map (\<lambda>(i, l). g i l) xs))) = (\<Sum>(i, l) \<leftarrow> xs. R i l)"
  using assms(1)
proof (induction xs)
  case (Cons x xs)
  obtain i l where x: "x = (i, l)" by (cases x)
  have "F (s i l) + mset (map chunk_view (g i l)) = R i l" using Cons.prems x by simp
  then have "(F (s i l) + F (concat (map (\<lambda>(i, l). s i l) xs))) +
      (mset (map chunk_view (g i l)) + mset (map chunk_view (concat (map (\<lambda>(i, l). g i l) xs)))) = R i l + (\<Sum>(i, l) \<leftarrow> xs. R i l)"
    using Cons add_pairs [of _ _ "{#}" _ _ _ "{#}" "{#}"] by (simp add: add_ac)
  then show ?case by (simp add: x assms(2))
qed (simp add: assms(3))


lemma keys_shape:
  assumes "k \<in> chosen_keys (selected_notes lyrics ids) i"
  shows "i < length lyrics" and "line_isExtra (lyrics ! i) \<longleftrightarrow> k \<noteq> None"
  using assms note_parts(1,4) by (auto simp: chosen_keys_iff)

lemma keys_reached:
  assumes "\<not> selection_refused e (selected_notes lyrics (selection_ids e))"
  shows "reaches e (chosen_keys (selected_notes lyrics (selection_ids e)) i) (lyrics ! i)"
proof -
  let ?idx = "chosen_keys (selected_notes lyrics (selection_ids e)) i"
  have extra: "line_isExtra (lyrics ! i) \<Longrightarrow> None \<notin> ?idx" and whole: "\<not> line_isExtra (lyrics ! i) \<Longrightarrow> ?idx \<subseteq> {None}"
    using keys_shape(2) by blast+
  have "None \<notin> ?idx" if "is_group e \<or> appended_chunks e \<noteq> []"
  proof -
    have "list_all (\<lambda>n. en_segmentIndex n \<noteq> None) (selected_notes lyrics (selection_ids e))"
      using assms that by (cases e) (auto simp: selection_refused_def is_group_def appended_chunks_def)
    then show ?thesis by (auto simp: chosen_keys_def list_all_iff)
  qed
  with extra whole show ?thesis unfolding reaches_def by (cases "line_isExtra (lyrics ! i)") auto
qed

lemma appended_sum:
  assumes "\<not> selection_refused e (selected_notes lyrics (selection_ids e))"
  shows "(\<Sum>(i, l) \<leftarrow> with_index lyrics. appended_on e (chosen_keys (selected_notes lyrics (selection_ids e)) i)) = mset (map chunk_view (appended_chunks e))"
proof (cases "\<exists>x t. e = AppendCall x t")
  case True
  then obtain x t where e: "e = AppendCall x t" by blast
  with assms have "length (selected_notes lyrics [x]) = 1" by (simp add: selection_refused_def distinct_ids_def)
  then obtain n where n: "selected_notes lyrics [x] = [n]" by (auto simp: length_Suc_conv)
  then have keys: "chosen_keys [n] i = {} \<longleftrightarrow> i \<noteq> en_lineIndex n" for i by (simp add: chosen_keys_def)
  then have "en_segmentIndex n \<in> chosen_keys (selected_notes lyrics [x]) (en_lineIndex n)" by (simp add: n chosen_keys_def)
  then have "en_lineIndex n < length lyrics" by (rule keys_shape)
  moreover have "appended_on e (chosen_keys [n] i) = (if i = en_lineIndex n then mset (map chunk_view (appended_chunks e)) else {#})" for i
    by (simp add: appended_on_def keys)
  ultimately show ?thesis
    using one_of_enumerate [of "en_lineIndex n" "mset (map chunk_view (appended_chunks e))" 0 lyrics] by (simp add: e n)
next
  case False
  then have "appended_chunks e = []" by (cases e) (simp_all add: appended_chunks_def)
  then have "appended_on e idx = {#}" for idx by (simp add: appended_on_def)
  moreover have "(\<Sum>(i, l) \<leftarrow> xs. {#}) = ({#} :: note_view multiset)" for xs :: "(nat \<times> lyric_line) list" by (induction xs) auto
  ultimately show ?thesis using \<open>appended_chunks e = []\<close> by simp
qed

lemma own_appended: "(\<forall>ids t. e \<noteq> TextNotes ids t) \<Longrightarrow> own_views e d C + mset (map chunk_view (appended_chunks e)) = new_views e d C"
  by (cases e) (simp_all add: own_views_def appended_chunks_def chunk_view_def bare_def)

text \<open>The lines of the result hold what they should, and so do the marks.\<close>

lemma selected_result_views:
  assumes "lyrics_nano lyrics" and "rebuilds e d"
    and "\<not> selection_refused e (selected_notes lyrics (selection_ids e))"
  defines "result \<equiv> selected_result e d lyrics (selected_notes lyrics (selection_ids e))"
    and "chosen \<equiv> chosen_views (selection_ids e) lyrics"
  shows "result_views result = other_views (selection_ids e) lyrics + kept_views e chosen + new_views e d chosen"
    and "selected_views result = new_views e d chosen"
    and "\<forall>m \<in> set result. line_nano (ml_line m)"
proof -
  let ?keys = "chosen_keys (selected_notes lyrics (selection_ids e))"
  let ?W = "with_index lyrics"
  define lines where "lines = concat (map (\<lambda>(i, l). select_line e d (?keys i) l) ?W)"
  define grouped where "grouped = concat (map (\<lambda>(i, l). grouped_chunks e l (?keys i)) ?W)"
  have result: "result = sort_key (line_startTime \<circ> ml_line) (lines @ group_line grouped)"
    by (simp add: result_def selected_result_def lines_def grouped_def)
  have notext: "\<forall>ids t. e \<noteq> TextNotes ids t" using assms(2) by (auto simp: rebuilds_def)
  have here: "line_nano l" "reaches e (?keys i) l" if "(i, l) \<in> set ?W" for i l
    using that assms(1) keys_reached [OF assms(3)] by (auto simp: with_index_nth lyrics_nano_def list_all_length)
  note per_line = select_line_views [OF here(1) assms(2) here(2)]
  have nano: "\<forall>c \<in> set grouped. on_nano (ck_time c) \<and> ck_selected c" using grouped_nano by (fastforce simp: grouped_def)
  have own: "own_views e d chosen + mset (map chunk_view (appended_chunks e)) = new_views e d chosen" by (rule own_appended [OF notext])
  have kept: "(\<Sum>(i, l) \<leftarrow> ?W. kept_views e (chosen_on (?keys i) l)) = kept_views e chosen"
    and mine: "(\<Sum>(i, l) \<leftarrow> ?W. own_views e d (chosen_on (?keys i) l)) = own_views e d chosen"
    unfolding chosen_def chosen_sum [symmetric] by (simp_all add: case_prod_unfold kept_sum own_sum)
  have "result_views lines + mset (map chunk_view grouped) = (\<Sum>(i, l) \<leftarrow> ?W.
      other_on (?keys i) l + kept_views e (chosen_on (?keys i) l) + own_views e d (chosen_on (?keys i) l) + appended_on e (?keys i))"
    unfolding lines_def grouped_def by (rule sum_lines) (use per_line(1) in simp_all)
  also have "\<dots> = other_views (selection_ids e) lyrics + kept_views e chosen + own_views e d chosen + mset (map chunk_view (appended_chunks e))"
    using other_sum [of lyrics "selection_ids e"] kept mine appended_sum [OF assms(3)] by (simp add: case_prod_unfold sum_list_addf)
  also have "\<dots> = other_views (selection_ids e) lyrics + kept_views e chosen + new_views e d chosen" by (simp only: add.assoc own)
  finally show "result_views result = other_views (selection_ids e) lyrics + kept_views e chosen + new_views e d chosen"
    unfolding result by (simp only: mset_concat_sort map_append concat_append mset_append group_line_views(1) [OF nano])
  have "selected_views lines + mset (map chunk_view grouped) = (\<Sum>(i, l) \<leftarrow> ?W. own_views e d (chosen_on (?keys i) l) + appended_on e (?keys i))"
    unfolding lines_def grouped_def by (rule sum_lines) (use per_line(2) in simp_all)
  also have "\<dots> = new_views e d chosen" using mine appended_sum [OF assms(3)] own by (simp add: case_prod_unfold sum_list_addf)
  finally show "selected_views result = new_views e d chosen"
    unfolding result by (simp only: mset_concat_sort map_append concat_append mset_append group_line_views(2) [OF nano])
  show "\<forall>m \<in> set result. line_nano (ml_line m)"
    using per_line(3) group_line_views(3) [OF nano] by (auto simp: result lines_def)
qed

lemma outcome_views:
  "views_at (\<lambda>_ _. True) (sel_lyrics (selection_outcome result)) = result_views result"
  "chosen_views (sel_noteIds (selection_outcome result)) (sel_lyrics (selection_outcome result)) = selected_views result"
proof -
  show "views_at (\<lambda>_ _. True) (sel_lyrics (selection_outcome result)) = result_views result"
    by (simp add: selection_outcome_def Let_def views_all comp_def)
  let ?l = "map ml_line result"
  let ?ids = "map en_id (filter (is_marked result) (getEditorNotes ?l))"
  have "idFor (en_lineIndex n) (en_segmentIndex n) \<in> set ?ids \<longleftrightarrow> mark_at (result ! en_lineIndex n) (en_segmentIndex n)"
    if "n \<in> set (getEditorNotes ?l)" for n
    using note_parts(2) [OF that] notes_unique [OF that] that
    by (auto simp: mark_at_def is_marked_def image_iff simp flip: note_parts(2) [OF that])
  then have "chosen_views ?ids ?l = views_at (\<lambda>i k. mark_at (result ! i) k) ?l"
    unfolding chosen_views_def views_at_def by (metis (mono_tags, lifting) filter_cong)
  then show "chosen_views (sel_noteIds (selection_outcome result)) (sel_lyrics (selection_outcome result)) = selected_views result"
    by (simp add: selection_outcome_def Let_def views_marked)
qed


lemma image_mset_partition: "image_mset f M = image_mset f {#x \<in># M. \<not> P x#} + image_mset f {#x \<in># M. P x#}"
  by (induction M) auto


section \<open>Setting the text\<close>

lemma distinct_ids_set [simp]: "set (distinct_ids ids) = set ids"
  by (simp add: distinct_ids_def)

lemma text_chosen_iff:
  assumes "i < length lyrics" and "k < length (line_segments (lyrics ! i))"
  shows "text_chosen (selected_notes lyrics ids) i k \<longleftrightarrow>
    (if line_isExtra (lyrics ! i) then Some k \<in> chosen_keys (selected_notes lyrics ids) i else None \<in> chosen_keys (selected_notes lyrics ids) i)"
proof -
  have "text_chosen (selected_notes lyrics ids) i k \<longleftrightarrow>
      None \<in> chosen_keys (selected_notes lyrics ids) i \<or> Some k \<in> chosen_keys (selected_notes lyrics ids) i"
    by (auto simp: text_chosen_def chosen_keys_def list_ex_iff image_iff)
  then show ?thesis using keys_shape(2) [of _ lyrics ids i] by auto
qed

definition with_text :: "string \<Rightarrow> note_view \<Rightarrow> note_view" where
  "with_text txt v = v\<lparr>nv_segments := map (\<lambda>s. s\<lparr>seg_text := txt\<rparr>) (nv_segments v)\<rparr>"

lemma text_line_segments:
  assumes "i < length lyrics"
  shows "line_segments (text_line (selected_notes lyrics ids) tx i (lyrics ! i)) =
    map (\<lambda>(k, s). if (if line_isExtra (lyrics ! i) then Some k \<in> chosen_keys (selected_notes lyrics ids) i
        else None \<in> chosen_keys (selected_notes lyrics ids) i) then s\<lparr>seg_text := tx\<rparr> else s) (with_index (line_segments (lyrics ! i)))"
  using text_chosen_iff [OF assms] by (auto simp: text_line_def with_index_nth)

lemma text_line_keyed:
  assumes "i < length lyrics"
  shows "keyed_views (text_line (selected_notes lyrics ids) tx i (lyrics ! i)) =
    map (\<lambda>(k, v). (k, if idFor i k \<in> set ids then with_text tx v else v)) (keyed_views (lyrics ! i))"
proof -
  let ?line = "lyrics ! i" and ?new = "text_line (selected_notes lyrics ids) tx i (lyrics ! i)"
  have same: "line_isExtra ?new = line_isExtra ?line" "line_startTime ?new = line_startTime ?line" by (simp_all add: text_line_def)
  note segs = text_line_segments [OF assms, of ids tx]
  note key = chosen_key [OF assms, of _ _ ids]
  show ?thesis
  proof (cases "line_isExtra ?line")
    case True
    have view: "call_view ?new s = call_view ?line s" for s by (simp add: call_view_def same)
    have "Some k \<in> chosen_keys (selected_notes lyrics ids) i \<longleftrightarrow> idFor i (Some k) \<in> set ids" if "k < length (line_segments ?line)" for k
      using that True by (intro key) (auto simp: keyed_views_def with_index_nth)
    then show ?thesis
      by (auto simp: keyed_views_def True same segs view enumerate_map with_index_nth nth_enumerate_eq with_text_def call_view_def bare_def
        segment_offset_def intro!: nth_equalityI)
  next
    case False
    have "None \<in> chosen_keys (selected_notes lyrics ids) i \<longleftrightarrow> idFor i None \<in> set ids"
      using False by (intro key) (auto simp: keyed_views_def)
    then show ?thesis
      using map_snd_enumerate_fun [of "\<lambda>s. s" 0 "line_segments ?line"] map_snd_enumerate_fun [of "\<lambda>s. s\<lparr>seg_text := tx\<rparr>" 0 "line_segments ?line"]
      by (simp add: keyed_views_def False same segs with_text_def case_prod_unfold)
  qed
qed

lemma views_of_mapped:
  assumes "keyed_views line' = map (\<lambda>(k, v). (k, if p k then g v else v)) (keyed_views line)"
  shows "views_of p line' = map g (views_of p line)" and "views_of (\<lambda>k. \<not> p k) line' = views_of (\<lambda>k. \<not> p k) line"
  unfolding views_of_def assms by (simp_all add: filter_map comp_def case_prod_unfold)

lemma text_views:
  assumes "text_selection lyrics ids (selected_notes lyrics ids) tx = Some r"
  shows "chosen_views ids (sel_lyrics r) = image_mset (with_text tx) (chosen_views ids lyrics)"
    and "other_views ids (sel_lyrics r) = other_views ids lyrics"
    and "lyrics_nano lyrics \<Longrightarrow> lyrics_nano (sel_lyrics r)" and "set (sel_noteIds r) = set ids"
proof -
  have new: "sel_lyrics r = map (\<lambda>(i, line). text_line (selected_notes lyrics ids) tx i line) (with_index lyrics)"
    and ids: "set (sel_noteIds r) = set ids"
    using assms by (auto simp: text_selection_def Let_def split: if_splits)
  have line: "text_line (selected_notes lyrics ids) tx i l = text_line (selected_notes lyrics ids) tx i (lyrics ! i)" "i < length lyrics"
    if "(i, l) \<in> set (with_index lyrics)" for i l using that by (auto simp: with_index_nth)
  have "chosen_views ids (sel_lyrics r) = mset (concat (map (\<lambda>(i, l). map (with_text tx) (views_of (\<lambda>k. idFor i k \<in> set ids) l)) (with_index lyrics)))"
    unfolding chosen_views_def views_at_lines new
    using views_of_mapped(1) [OF text_line_keyed]
    by (intro arg_cong [where f = "\<lambda>xs. mset (concat xs)"] nth_equalityI) (simp_all add: nth_enumerate_eq)
  also have "\<dots> = image_mset (with_text tx) (chosen_views ids lyrics)"
    unfolding chosen_views_def views_at_lines by (simp add: map_concat comp_def case_prod_unfold flip: mset_map)
  finally show "chosen_views ids (sel_lyrics r) = image_mset (with_text tx) (chosen_views ids lyrics)" .
  show "other_views ids (sel_lyrics r) = other_views ids lyrics"
    unfolding other_views_def views_at_lines new
    using views_of_mapped(2) [OF text_line_keyed]
    by (intro arg_cong [where f = "\<lambda>xs. mset (concat xs)"] nth_equalityI) (simp_all add: nth_enumerate_eq)
  show "lyrics_nano (sel_lyrics r)" if "lyrics_nano lyrics"
  proof -
    have "line_nano (text_line (selected_notes lyrics ids) tx i l)" if "line_nano l" for i l
      using that by (auto simp: line_nano_def text_line_def list_all_iff with_index_nth segment_offset_def)
    with that show ?thesis by (auto simp: new lyrics_nano_def list_all_iff with_index_nth)
  qed
  show "set (sel_noteIds r) = set ids" by (rule ids)
qed

lemma views_split: "views_at (\<lambda>_ _. True) lyrics = other_views ids lyrics + chosen_views ids lyrics"
  using image_mset_partition [of "exact_view lyrics" "mset (getEditorNotes lyrics)" "\<lambda>n. idFor (en_lineIndex n) (en_segmentIndex n) \<in> set ids"]
  by (simp add: views_at_def other_views_def chosen_views_def)

lemma delta_rebuilds: "selection_delta e notes = Some d \<Longrightarrow> (\<forall>ids t. e \<noteq> TextNotes ids t) \<Longrightarrow> rebuilds e d"
  by (cases "(e, notes)" rule: selection_delta.cases) (auto simp: rebuilds_def selection_shift_def split: if_splits)

lemma edit_runs:
  assumes "applySelectionEdit lyrics e = Some r" and "\<forall>ids t. e \<noteq> TextNotes ids t"
  shows "\<not> selection_refused e (selected_notes lyrics (selection_ids e))"
    and "\<exists>d. selection_delta e (selected_notes lyrics (selection_ids e)) = Some d \<and>
      r = selection_outcome (selected_result e d lyrics (selected_notes lyrics (selection_ids e)))"
  using assms by (cases e; auto simp: applySelectionEdit_def Let_def split: if_splits option.splits)+

lemma selection_effect:
  assumes "lyrics_nano lyrics" and "applySelectionEdit lyrics e = Some r"
  shows "lyrics_nano (sel_lyrics r) \<and>
    (\<exists>d. selection_delta e (selected_notes lyrics (selection_ids e)) = Some d \<and>
      chosen_views (sel_noteIds r) (sel_lyrics r) = new_views e d (chosen_views (selection_ids e) lyrics) \<and>
      other_views (sel_noteIds r) (sel_lyrics r) =
        other_views (selection_ids e) lyrics + kept_views e (chosen_views (selection_ids e) lyrics))"
proof (cases "\<exists>ids tx. e = TextNotes ids tx")
  case True
  then obtain ids tx where e: "e = TextNotes ids tx" by blast
  with assms(2) have sel: "text_selection lyrics ids (selected_notes lyrics ids) tx = Some r"
    by (auto simp: applySelectionEdit_def Let_def split: if_splits)
  have "chosen_views (sel_noteIds r) = chosen_views ids" "other_views (sel_noteIds r) = other_views ids"
    using text_views(4) [OF sel] by (simp_all add: chosen_views_def other_views_def fun_eq_iff)
  moreover have "with_text tx = (\<lambda>v. v\<lparr>nv_segments := map (\<lambda>s. s\<lparr>seg_text := tx\<rparr>) (nv_segments v)\<rparr>)"
    by (simp add: with_text_def fun_eq_iff)
  ultimately show ?thesis using text_views [OF sel] assms(1) by (simp add: e)
next
  case False
  then have notext: "\<forall>ids tx. e \<noteq> TextNotes ids tx" by blast
  let ?notes = "selected_notes lyrics (selection_ids e)"
  obtain d where d: "selection_delta e ?notes = Some d" and r: "r = selection_outcome (selected_result e d lyrics ?notes)"
    using edit_runs(2) [OF assms(2) notext] by blast
  note v = selected_result_views [OF assms(1) delta_rebuilds [OF d notext] edit_runs(1) [OF assms(2) notext]]
  let ?chosen = "chosen_views (selection_ids e) lyrics"
  have new: "chosen_views (sel_noteIds r) (sel_lyrics r) = new_views e d ?chosen" by (simp only: r outcome_views(2) v(2))
  have "other_views (sel_noteIds r) (sel_lyrics r) + chosen_views (sel_noteIds r) (sel_lyrics r) = result_views (selected_result e d lyrics ?notes)"
    unfolding views_split [symmetric] by (simp only: r outcome_views(1))
  then have "other_views (sel_noteIds r) (sel_lyrics r) + new_views e d ?chosen =
      other_views (selection_ids e) lyrics + kept_views e ?chosen + new_views e d ?chosen" by (simp only: new v(1))
  moreover have "lyrics_nano (sel_lyrics r)"
    using v(3) by (simp add: r selection_outcome_def Let_def lyrics_nano_def list_all_iff)
  ultimately show ?thesis using d new by simp
qed

lemma selected_times: "set (map en_time (selected_notes lyrics ids)) = nv_time ` set_mset (chosen_views ids lyrics)"
proof -
  have "filter (\<lambda>n. en_id n \<in> set ids) (getEditorNotes lyrics) = filter (\<lambda>n. idFor (en_lineIndex n) (en_segmentIndex n) \<in> set ids) (getEditorNotes lyrics)"
    by (rule filter_cong) (simp_all add: note_parts(2))
  then show ?thesis by (simp add: selected_notes_def chosen_views_def views_at_def exact_view_def image_image comp_def)
qed

lemma selected_nano: "lyrics_nano lyrics \<Longrightarrow> \<forall>t \<in> set (map en_time (selected_notes lyrics ids)). on_nano t"
proof -
  assume nano: "lyrics_nano lyrics"
  have "on_nano (note_time lyrics n)" if "n \<in> set (getEditorNotes lyrics)" for n
    using nano note_parts(1,5) [OF that] by (auto simp: note_time_def lyrics_nano_def line_nano_def list_all_length intro!: nano_add split: option.split)
  then show ?thesis by (auto simp: selected_notes_def)
qed

lemma shift_bounds:
  assumes "finite T" and "\<forall>t \<in> T. on_nano t" and "t \<in> T"
  shows "0 \<le> t + round_nano (max (- Min T) (min delta (duration - Max T)))"
    and "\<forall>t \<in> T. \<forall>u \<in> T. t - u \<le> duration \<Longrightarrow>
      t + round_nano (max (- Min T) (min delta (duration - Max T))) \<le> duration + 1 / 2000000000"
proof -
  let ?x = "max (- Min T) (min delta (duration - Max T))"
  have in_T: "Min T \<in> T" "Max T \<in> T" using assms(1,3) by (auto intro: Min_in Max_in)
  then have "- Min T = round_nano (- Min T)" using assms(2) by (simp add: round_nano_id nano_minus)
  also have "\<dots> \<le> round_nano ?x" by (rule round_nano_mono) simp
  finally have "- Min T \<le> round_nano ?x" .
  moreover have near: "Min T \<le> t" "t \<le> Max T" using assms(1,3) by simp_all
  ultimately show "0 \<le> t + round_nano ?x" by linarith
  assume "\<forall>t \<in> T. \<forall>u \<in> T. t - u \<le> duration"
  then have "Max T - Min T \<le> duration" using in_T by blast
  then have "?x \<le> duration - Max T" by simp
  with round_nano_near [of ?x] near(2) show "t + round_nano ?x \<le> duration + 1 / 2000000000" by linarith
qed

text \<open>C15.
  Every edit of a selection does to the notes what its name says, and the editor then has exactly the
  edited notes selected: moving shifts the selected notes by one common time, duplicating adds shifted
  copies and keeps the originals, deleting removes the selected notes and nothing else, grouping changes
  no note at all, setting the text changes only texts, appending adds one empty call.  All other notes keep
  their text, flags and exact time although lines are split, merged, re-based and sorted on the way.\<close>

theorem selection_refines:
  assumes "lyrics_nano lyrics" and "applySelectionEdit lyrics e = Some r"
  shows "lyrics_nano (sel_lyrics r) \<and>
    (\<exists>d. selection_delta e (selected_notes lyrics (selection_ids e)) = Some d \<and>
      chosen_views (sel_noteIds r) (sel_lyrics r) = new_views e d (chosen_views (selection_ids e) lyrics) \<and>
      other_views (sel_noteIds r) (sel_lyrics r) =
        other_views (selection_ids e) lyrics + kept_views e (chosen_views (selection_ids e) lyrics))"
  by (rule selection_effect [OF assms])


text \<open>C32.
  Moving and duplicating never take a note out of the recording, however far the user drags, on lyrics whose
  times are whole nanoseconds (the resolution of this edit): no moved or copied note starts before zero, and
  if the selection is no longer than the recording, none starts after its end (up to half a nanosecond of
  rounding).\<close>

theorem selection_in_recording:
  assumes "lyrics_nano lyrics" and "applySelectionEdit lyrics e = Some r"
    and "e = MoveNotes ids (Some delta) (Some duration) \<or> e = DuplicateNotes ids (Some delta) (Some duration)"
    and "v \<in># chosen_views (sel_noteIds r) (sel_lyrics r)"
  shows "0 \<le> nv_time v \<and>
    ((\<forall>v \<in># chosen_views ids lyrics. \<forall>w \<in># chosen_views ids lyrics. nv_time v - nv_time w \<le> duration) \<longrightarrow>
      nv_time v \<le> duration + 1 / 2000000000)"
proof -
  let ?T = "set (map en_time (selected_notes lyrics ids))"
  obtain d where d: "selection_delta e (selected_notes lyrics (selection_ids e)) = Some d"
      "chosen_views (sel_noteIds r) (sel_lyrics r) = new_views e d (chosen_views (selection_ids e) lyrics)"
    using selection_effect [OF assms(1,2)] by blast
  then have "d = selection_shift (selected_notes lyrics ids) delta duration"
    using assms(3) by (auto split: if_splits)
  then have shift: "d = round_nano (max (- Min ?T) (min delta (duration - Max ?T)))" by (simp add: selection_shift_def)
  obtain u where u: "u \<in># chosen_views ids lyrics" "v = shifted d u" using d(2) assms(3,4) by auto
  have nano: "\<forall>t \<in> ?T. on_nano t" by (rule selected_nano [OF assms(1)])
  have span: "\<forall>t \<in> ?T. \<forall>u \<in> ?T. t - u \<le> duration"
    if "\<forall>v \<in># chosen_views ids lyrics. \<forall>w \<in># chosen_views ids lyrics. nv_time v - nv_time w \<le> duration"
    using that by (auto simp only: selected_times)
  have "nv_time u \<in> ?T" using u(1) by (simp only: selected_times) blast
  note bounds = shift_bounds [where delta = delta and duration = duration, OF finite_set nano this]
  have "nv_time v = nv_time u + round_nano (max (- Min ?T) (min delta (duration - Max ?T)))"
    by (simp only: u(2) shift shifted_def) simp
  then show ?thesis using bounds span by (simp only:) blast
qed

section \<open>Witnesses\<close>

text \<open>Dragging the second call of a group far past the end of a recording of a minute.\<close>

definition sample_drag :: selection_edit where
  "sample_drag = MoveNotes [''extra:0:1''] (Some 1000) (Some 60)"

definition sample_dragged :: selection_result where
  "sample_dragged = \<lparr>sel_lyrics = [\<lparr>line_startTime = 10, line_segments = [
      \<lparr>seg_text = ''A'', seg_isCheer = True, seg_isEcho = False, seg_startTimeOffset = Some 0\<rparr>,
      \<lparr>seg_text = ''B'', seg_isCheer = True, seg_isEcho = False, seg_startTimeOffset = Some 50\<rparr>], line_isExtra = True\<rparr>],
    sel_noteIds = [''extra:0:1''], sel_lineIndex = 0\<rparr>"

lemma sample_drag_run: "applySelectionEdit sample_group sample_drag = Some sample_dragged"
  by code_simp

lemma sample_group_nano: "lyrics_nano sample_group"
  by (simp add: lyrics_nano_def line_nano_def sample_group_def segment_offset_def on_nano_def)


definition sample_call :: "string \<Rightarrow> jsnum \<Rightarrow> note_view" where
  "sample_call tx t = \<lparr>nv_extra = True, nv_time = t, nv_segments = [\<lparr>seg_text = tx, seg_isCheer = True, seg_isEcho = False, seg_startTimeOffset = None\<rparr>]\<rparr>"

lemma sample_views:
  "chosen_views [''extra:0:1''] sample_group = {#sample_call ''B'' 12#}" "other_views [''extra:0:1''] sample_group = {#sample_call ''A'' 10#}"
  "chosen_views (sel_noteIds sample_dragged) (sel_lyrics sample_dragged) = {#sample_call ''B'' 60#}"
  by code_simp+

theorem selection_refines_witness:
  "lyrics_nano (sel_lyrics sample_dragged) \<and>
    (\<exists>d. selection_delta sample_drag (selected_notes sample_group [''extra:0:1'']) = Some d \<and>
      {#sample_call ''B'' 60#} = image_mset (shifted d) {#sample_call ''B'' 12#}) \<and>
    other_views (sel_noteIds sample_dragged) (sel_lyrics sample_dragged) = {#sample_call ''A'' 10#}"
  using selection_refines [OF sample_group_nano sample_drag_run] sample_views by (auto simp: sample_drag_def)

theorem selection_in_recording_witness:
  "0 \<le> nv_time (sample_call ''B'' 60) \<and> nv_time (sample_call ''B'' 60) \<le> 60 + 1 / 2000000000"
  using selection_in_recording [OF sample_group_nano sample_drag_run, of "[''extra:0:1'']" 1000 60 "sample_call ''B'' 60"]
  by (simp add: sample_views sample_drag_def)


section \<open>Times that the contract accepts\<close>

lemma round_nano_nonneg: "0 \<le> t \<Longrightarrow> 0 \<le> round_nano t"
  by (simp add: round_nano_def js_round_nonneg)

lemma js_round_opposite: "0 \<le> js_round x + js_round (- x)"
  unfolding js_round_def by linarith

lemma js_round_above: "- 1 / 2 \<le> y \<Longrightarrow> 0 \<le> js_round y"
  unfolding js_round_def by linarith

text \<open>The shift never takes a time below zero, with or without the rounding of the time itself.\<close>

lemma shifted_nonneg:
  assumes "round_nano (- t) \<le> d"
  shows "0 \<le> round_nano (round_nano t + d)" and "0 \<le> round_nano (t + d)"
proof -
  have "0 \<le> (of_int (js_round (t * 1000000000) + js_round (- (t * 1000000000))) :: rat)"
    using js_round_opposite [of "t * 1000000000"] by (simp only: of_int_0_le_iff)
  then have "0 \<le> round_nano t + round_nano (- t)" by (simp add: round_nano_def flip: add_divide_distrib)
  then have "0 \<le> round_nano t + d" using assms by linarith
  then show "0 \<le> round_nano (round_nano t + d)" by (rule round_nano_nonneg)
  have "- (t * 1000000000) - 1 / 2 \<le> of_int (js_round (- (t * 1000000000)))" unfolding js_round_def by linarith
  also have "of_int (js_round (- (t * 1000000000))) = round_nano (- t) * 1000000000" by (simp add: round_nano_def)
  also have "\<dots> \<le> d * 1000000000" using assms by simp
  finally have "- 1 / 2 \<le> (t + d) * 1000000000" by (simp add: distrib_right)
  then show "0 \<le> round_nano (t + d)" by (simp add: round_nano_def js_round_above)
qed

definition chunk_timed :: "chunk \<Rightarrow> bool" where
  "chunk_timed c \<longleftrightarrow> 0 \<le> ck_time c"

lemma rebase_timed: "\<forall>c \<in> set chunks. chunk_timed c \<Longrightarrow> chunks \<noteq> [] \<Longrightarrow> line_timed (ml_line (rebase line chunks))"
  by (auto simp: rebase_def Let_def line_timed_def list_all_iff chunk_timed_def segment_offset_def intro!: round_nano_nonneg)

text \<open>A shift is fit for a line when it suits each note that is chosen on it.\<close>

definition shift_fits :: "jsnum \<Rightarrow> nat option set \<Rightarrow> lyric_line \<Rightarrow> bool" where
  "shift_fits d idx line \<longleftrightarrow> (None \<in> idx \<longrightarrow> round_nano (- line_startTime line) \<le> d) \<and>
    (\<forall>k < length (line_segments line). Some k \<in> idx \<longrightarrow> round_nano (- (line_startTime line + segment_offset (line_segments line ! k))) \<le> d)"

lemma chunk_of_timed: "line_timed line \<Longrightarrow> line_isExtra line \<Longrightarrow> s \<in> set (line_segments line) \<Longrightarrow> chunk_timed (chunk_of line s b)"
  by (auto simp: chunk_timed_def chunk_of_def line_timed_def list_all_iff intro!: round_nano_nonneg)

lemma call_chunks_timed:
  assumes "line_timed line" and "line_isExtra line" and "s \<in> set (line_segments line)"
    and "round_nano (- (line_startTime line + segment_offset s)) \<le> d"
  shows "\<forall>c \<in> set (call_chunks e d line s). chunk_timed c"
proof -
  have "chunk_timed (chunk_of line s False)" by (rule chunk_of_timed [OF assms(1,2,3)])
  moreover have "0 \<le> round_nano (ck_time (chunk_of line s False) + d)" using shifted_nonneg(1) [OF assms(4)] by (simp add: chunk_of_def)
  ultimately show ?thesis by (cases e) (simp_all add: call_chunks_def Let_def chunk_timed_def)
qed

lemma line_chunks_timed:
  assumes "line_timed line" and "line_isExtra line" and "shift_fits d idx line" and "\<forall>c \<in> set (appended_chunks e). chunk_timed c"
  shows "\<forall>c \<in> set (line_chunks e d line idx). chunk_timed c"
proof -
  have "\<forall>c \<in> set (if Some k \<notin> idx then [chunk_of line s False] else call_chunks e d line s). chunk_timed c"
    if "(k, s) \<in> set (with_index (line_segments line))" for k s
  proof -
    have s: "s \<in> set (line_segments line)" "k < length (line_segments line)" "s = line_segments line ! k" using that by (auto simp: with_index_nth)
    then show ?thesis
      using chunk_of_timed [OF assms(1,2) s(1)] call_chunks_timed [OF assms(1,2) s(1)] assms(3) by (auto simp: shift_fits_def)
  qed
  then show ?thesis using assms(4) by (auto simp: line_chunks_def)
qed

lemma grouped_timed: "line_timed line \<Longrightarrow> line_isExtra line \<Longrightarrow> \<forall>c \<in> set (grouped_chunks e line idx). chunk_timed c"
  using chunk_of_timed by (cases e) (auto simp: grouped_chunks_def with_index_nth)

lemma select_line_timed:
  assumes "line_timed line" and "shift_fits d idx line" and "\<forall>c \<in> set (appended_chunks e). chunk_timed c" and "reaches e idx line"
  shows "\<forall>m \<in> set (select_line e d idx line). line_timed (ml_line m)"
proof (cases "idx = {} \<or> line_isExtra line")
  case True
  then show ?thesis
    using assms(1) rebase_timed line_chunks_timed [OF assms(1) _ assms(2,3)] by (auto simp: select_line_def)
next
  case False
  then have "idx = {None}" using assms(4) by (auto simp: reaches_def)
  then have "0 \<le> round_nano (line_startTime line + d)" using assms(2) shifted_nonneg(2) by (simp add: shift_fits_def)
  then show ?thesis using False assms(1)
    by (cases e) (simp_all add: select_line_def whole_line_def Let_def line_timed_def)
qed

lemma shift_fits_notes:
  assumes "\<forall>n \<in> set (getEditorNotes lyrics). en_id n \<in> set ids \<longrightarrow> round_nano (- note_time lyrics n) \<le> d"
  shows "shift_fits d (chosen_keys (selected_notes lyrics ids) i) (lyrics ! i)"
  using assms by (fastforce simp: shift_fits_def chosen_keys_iff note_time_def)


lemma note_time_nonneg: "lyrics_timed lyrics \<Longrightarrow> n \<in> set (getEditorNotes lyrics) \<Longrightarrow> 0 \<le> note_time lyrics n"
  using note_parts(1,4,5) [of n lyrics]
  by (auto simp: note_time_def lyrics_timed_def line_timed_def list_all_length split: option.split)

lemma round_nano_zero [simp]: "round_nano 0 = 0"
  by (simp add: round_nano_id)

lemma selection_delta_fits:
  assumes "lyrics_timed lyrics" and "selection_delta e (selected_notes lyrics (selection_ids e)) = Some d"
    and "n \<in> set (getEditorNotes lyrics)" and "en_id n \<in> set (selection_ids e)"
  shows "round_nano (- note_time lyrics n) \<le> d"
proof -
  let ?T = "set (map en_time (selected_notes lyrics (selection_ids e)))"
  have t: "note_time lyrics n \<in> ?T" using assms(3,4) by (auto simp: selected_notes_def)
  have shift: "round_nano (- note_time lyrics n) \<le> selection_shift (selected_notes lyrics (selection_ids e)) delta duration" for delta duration
    using Min_le [OF finite_set t] unfolding selection_shift_def by (intro round_nano_mono) simp
  have still: "round_nano (- note_time lyrics n) \<le> 0"
    using round_nano_mono [of "- note_time lyrics n" 0] note_time_nonneg [OF assms(1,3)] by simp
  show ?thesis
    using assms(2) shift still by (cases "(e, selected_notes lyrics (selection_ids e))" rule: selection_delta.cases) (auto split: if_splits)
qed

lemma selected_result_timed:
  assumes "lyrics_timed lyrics" and "\<not> selection_refused e (selected_notes lyrics (selection_ids e))"
    and "selection_delta e (selected_notes lyrics (selection_ids e)) = Some d"
  shows "\<forall>m \<in> set (selected_result e d lyrics (selected_notes lyrics (selection_ids e))). line_timed (ml_line m)"
proof -
  let ?keys = "chosen_keys (selected_notes lyrics (selection_ids e))"
  have appended: "\<forall>c \<in> set (appended_chunks e). chunk_timed c"
    using assms(2) by (cases e) (auto simp: appended_chunks_def chunk_timed_def selection_refused_def bad_time_def intro!: round_nano_nonneg split: option.splits)
  have fits: "shift_fits d (?keys i) (lyrics ! i)" for i
    using selection_delta_fits [OF assms(1,3)] by (intro shift_fits_notes) blast
  have here: "line_timed l" "shift_fits d (?keys i) l" "reaches e (?keys i) l" if "(i, l) \<in> set (with_index lyrics)" for i l
    using that assms(1) fits keys_reached [OF assms(2)] by (auto simp: with_index_nth lyrics_timed_def list_all_length)
  have "\<forall>m \<in> set (select_line e d (?keys i) l). line_timed (ml_line m)" if "(i, l) \<in> set (with_index lyrics)" for i l
    by (rule select_line_timed [OF here(1,2) [OF that] appended here(3) [OF that]])
  moreover have "\<forall>c \<in> set (grouped_chunks e l (?keys i)). chunk_timed c" if "(i, l) \<in> set (with_index lyrics)" for i l
  proof (cases "line_isExtra l")
    case True
    show ?thesis by (rule grouped_timed [OF here(1) [OF that] True])
  next
    case False
    then have "?keys i = {} \<or> \<not> is_group e" "?keys i \<subseteq> {None}" using here(3) [OF that] by (auto simp: reaches_def)
    then show ?thesis by (cases e) (auto simp: grouped_chunks_def is_group_def)
  qed
  then have "\<forall>m \<in> set (group_line (concat (map (\<lambda>(i, l). grouped_chunks e l (?keys i)) (with_index lyrics)))). line_timed (ml_line m)"
    by (auto simp: group_line_def intro!: rebase_timed)
  ultimately show ?thesis by (auto simp: selected_result_def)
qed

lemma selection_timed:
  assumes "lyrics_timed lyrics" and "applySelectionEdit lyrics e = Some r"
  shows "lyrics_timed (sel_lyrics r)"
proof (cases "\<exists>ids tx. e = TextNotes ids tx")
  case True
  then obtain ids tx where e: "e = TextNotes ids tx" by blast
  with assms(2) have "sel_lyrics r = map (\<lambda>(i, line). text_line (selected_notes lyrics ids) tx i line) (with_index lyrics)"
    by (auto simp: applySelectionEdit_def text_selection_def Let_def split: if_splits)
  moreover have "line_timed (text_line (selected_notes lyrics ids) tx i l)" if "line_timed l" for i l
    using that by (auto simp: line_timed_def text_line_def list_all_iff with_index_nth segment_offset_def)
  ultimately show ?thesis using assms(1) by (auto simp: lyrics_timed_def list_all_iff with_index_nth)
next
  case False
  then have notext: "\<forall>ids tx. e \<noteq> TextNotes ids tx" by blast
  obtain d where "selection_delta e (selected_notes lyrics (selection_ids e)) = Some d"
    and r: "r = selection_outcome (selected_result e d lyrics (selected_notes lyrics (selection_ids e)))"
    using edit_runs(2) [OF assms(2) notext] by blast
  with selected_result_timed [OF assms(1) edit_runs(1) [OF assms(2) notext]] show ?thesis
    by (simp add: selection_outcome_def Let_def lyrics_timed_def list_all_iff)
qed

end
