(* ===== verification/LyricsEditor.thy ===== *)
theory LyricsEditor imports NoteSelection begin

text \<open>
  The state of the lyrics editor (\<open>apps/console/src/features/manage-lyrics/model/useLyricsEditor.ts\<close>):
  the lyrics, the current line, recording, and the history behind undo and redo.  The cells of
  \<open>useState\<close>, \<open>useForm\<close> and \<open>useRef\<close> are the fields of one record; every operation sees the
  state that was last rendered, so that its reads are those of the record it is given.
\<close>

section \<open>The code\<close>

text \<open>
  The current index starts at 0, and every call of its setter passes the index of a row or 0: it is never
  negative, and the test for a negative index in \<open>useAdminEditor.ts\<close> never succeeds.\<close>

record lyrics_editor =
  le_lyrics :: lyrics_data
  le_defaults :: lyrics_data
  le_currentIndex :: nat
  le_isRecording :: bool
  le_history :: "lyrics_data list"
  le_historyIndex :: nat
  le_currentTime :: jsnum
  le_timeListeners :: "nat list"

definition useLyricsEditor :: "lyrics_data \<Rightarrow> lyrics_editor" where
  "useLyricsEditor initialLyrics = \<lparr>le_lyrics = initialLyrics, le_defaults = initialLyrics, le_currentIndex = 0, le_isRecording = False,
    le_history = [initialLyrics], le_historyIndex = 0, le_currentTime = 0, le_timeListeners = []\<rparr>"

definition setLyrics :: "lyrics_data \<Rightarrow> lyrics_editor \<Rightarrow> lyrics_editor" where
  "setLyrics value e = e\<lparr>le_lyrics := value\<rparr>"

definition markSaved :: "lyrics_data \<Rightarrow> lyrics_editor \<Rightarrow> lyrics_editor" where
  "markSaved saved e =
    (let current = le_lyrics e;
         e' = e\<lparr>le_lyrics := saved, le_defaults := saved\<rparr>
     in if current \<noteq> saved then setLyrics current e' else e')"

definition isDirty :: "lyrics_editor \<Rightarrow> bool" where
  "isDirty e \<longleftrightarrow> le_lyrics e \<noteq> le_defaults e"

text \<open>The listeners of the player's clock, a set in the order of insertion; the second component is the calls.\<close>

definition onTimeUpdate :: "jsnum \<Rightarrow> lyrics_editor \<Rightarrow> lyrics_editor \<times> (nat \<times> jsnum) list" where
  "onTimeUpdate time e = (e\<lparr>le_currentTime := time\<rparr>, map (\<lambda>listener. (listener, time)) (le_timeListeners e))"

definition subscribeToTime :: "nat \<Rightarrow> lyrics_editor \<Rightarrow> lyrics_editor" where
  "subscribeToTime listener e =
    (if listener \<in> set (le_timeListeners e) then e else e\<lparr>le_timeListeners := le_timeListeners e @ [listener]\<rparr>)"

definition unsubscribe :: "nat \<Rightarrow> lyrics_editor \<Rightarrow> lyrics_editor" where
  "unsubscribe listener e = e\<lparr>le_timeListeners := filter (\<lambda>l. l \<noteq> listener) (le_timeListeners e)\<rparr>"

definition saveToHistory :: "lyrics_data \<Rightarrow> lyrics_editor \<Rightarrow> lyrics_editor" where
  "saveToHistory newLyrics e =
    (let pushed = take (le_historyIndex e + 1) (le_history e) @ [newLyrics];
         newHistory = (if 50 < length pushed then tl pushed else pushed)
     in e\<lparr>le_history := newHistory, le_historyIndex := length newHistory - 1\<rparr>)"

definition commit :: "lyrics_data \<Rightarrow> lyrics_editor \<Rightarrow> lyrics_editor" where
  "commit newLyrics e = saveToHistory newLyrics (setLyrics newLyrics e)"

text \<open>\<open>lyrics[index]\<close>.\<close>

definition line_at :: "lyrics_data \<Rightarrow> int \<Rightarrow> lyric_line option" where
  "line_at lyrics index = (if 0 \<le> index \<and> nat index < length lyrics then Some (lyrics ! nat index) else None)"

text \<open>A partial line; a segments array is compared by identity, so it is the line's own or another one.\<close>

datatype segments_ref = OwnSegments | OtherSegments "lyric_segment list"

record line_patch =
  lp_startTime :: "jsnum option"
  lp_segments :: "segments_ref option"
  lp_isExtra :: "bool option"

definition same_entries :: "line_patch \<Rightarrow> lyric_line \<Rightarrow> bool" where
  "same_entries p line \<longleftrightarrow> (case lp_startTime p of None \<Rightarrow> True | Some t \<Rightarrow> line_startTime line = t) \<and>
    (case lp_segments p of Some (OtherSegments _) \<Rightarrow> False | _ \<Rightarrow> True) \<and>
    (case lp_isExtra p of None \<Rightarrow> True | Some b \<Rightarrow> line_isExtra line = b)"

definition patch_line :: "line_patch \<Rightarrow> lyric_line \<Rightarrow> lyric_line" where
  "patch_line p line = line\<lparr>line_startTime := coalesce (lp_startTime p) (line_startTime line),
    line_segments := (case lp_segments p of Some (OtherSegments ss) \<Rightarrow> ss | _ \<Rightarrow> line_segments line),
    line_isExtra := coalesce (lp_isExtra p) (line_isExtra line)\<rparr>"

definition updateLine :: "int \<Rightarrow> line_patch \<Rightarrow> lyrics_editor \<Rightarrow> lyrics_editor" where
  "updateLine index partialLine e =
    (case line_at (le_lyrics e) index of
       None \<Rightarrow> e
     | Some line \<Rightarrow>
         if same_entries partialLine line then e
         else commit ((le_lyrics e)[nat index := patch_line partialLine line]) e)"

text \<open>\<open>parseFloat(time.toFixed(2))\<close>: halves go away from zero; numbers from \<open>1e21\<close> on are printed as they are.\<close>

definition to_fixed2 :: "jsnum \<Rightarrow> jsnum" where
  "to_fixed2 time = (if 10 ^ 21 \<le> \<bar>time\<bar> then time
    else if time < 0 then - (of_int (js_round (- time * 100)) / 100) else of_int (js_round (time * 100)) / 100)"

definition captureTime :: "int \<Rightarrow> lyrics_editor \<Rightarrow> lyrics_editor" where
  "captureTime index e =
    (case line_at (le_lyrics e) index of
       None \<Rightarrow> e
     | Some line \<Rightarrow>
         let e' = commit ((le_lyrics e)[nat index := line\<lparr>line_startTime := to_fixed2 (le_currentTime e)\<rparr>]) e
         in if le_isRecording e \<and> nat index < length (le_lyrics e) - 1 then e'\<lparr>le_currentIndex := nat index + 1\<rparr> else e')"

definition empty_call :: "jsnum option \<Rightarrow> lyric_segment" where
  "empty_call offset = \<lparr>seg_text = [], seg_isCheer = True, seg_isEcho = False, seg_startTimeOffset = offset\<rparr>"

definition extra_line_time :: "int option \<Rightarrow> lyrics_editor \<Rightarrow> jsnum" where
  "extra_line_time afterIndex e =
    (case Option.bind afterIndex (line_at (le_lyrics e)) of
       Some line \<Rightarrow> line_startTime line + 1 / 10
     | None \<Rightarrow> to_fixed2 (le_currentTime e))"

definition addExtraLine :: "int option \<Rightarrow> lyrics_editor \<Rightarrow> jsnum \<times> lyrics_editor" where
  "addExtraLine afterIndex e =
    (let time = extra_line_time afterIndex e;
         newLine = \<lparr>line_startTime = time, line_segments = [empty_call None], line_isExtra = True\<rparr>
     in (case push_sorted (le_lyrics e) newLine of (newLyrics, newIndex) \<Rightarrow>
          (time, (commit newLyrics e)\<lparr>le_currentIndex := newIndex\<rparr>)))"

text \<open>\<open>filter((_, i) => i !== index)\<close>.\<close>

definition without :: "int \<Rightarrow> 'a list \<Rightarrow> 'a list" where
  "without index xs = (if 0 \<le> index then remove_at (nat index) xs else xs)"

definition deleteLine :: "int \<Rightarrow> lyrics_editor \<Rightarrow> lyrics_editor" where
  "deleteLine index e =
    (let newLyrics = without index (le_lyrics e);
         e' = commit newLyrics e
     in if length newLyrics \<le> le_currentIndex e then e'\<lparr>le_currentIndex := length newLyrics - 1\<rparr> else e')"

definition addSegmentToExtra :: "int \<Rightarrow> lyrics_editor \<Rightarrow> lyrics_editor" where
  "addSegmentToExtra index e =
    (case line_at (le_lyrics e) index of
       None \<Rightarrow> e
     | Some line \<Rightarrow>
         if \<not> line_isExtra line then e
         else commit ((le_lyrics e)[nat index := line\<lparr>line_segments := line_segments line @ [empty_call (Some 0)]\<rparr>]) e)"

definition removeSegmentFromExtra :: "int \<Rightarrow> int \<Rightarrow> lyrics_editor \<Rightarrow> lyrics_editor" where
  "removeSegmentFromExtra lineIndex segmentIndex e =
    (case line_at (le_lyrics e) lineIndex of
       None \<Rightarrow> e
     | Some line \<Rightarrow>
         if \<not> line_isExtra line then e
         else
           let segments = without segmentIndex (line_segments line)
           in commit ((le_lyrics e)[nat lineIndex := line\<lparr>line_segments :=
               (if segments = [] then [empty_call (Some 0)] else segments)\<rparr>]) e)"

definition importLyrics :: "lyrics_data \<Rightarrow> lyrics_editor \<Rightarrow> lyrics_editor" where
  "importLyrics newLyrics e = saveToHistory newLyrics ((setLyrics newLyrics e)\<lparr>le_currentIndex := 0\<rparr>)"

definition undo :: "lyrics_editor \<Rightarrow> lyrics_editor" where
  "undo e = (if 0 < le_historyIndex e
    then (setLyrics (le_history e ! (le_historyIndex e - 1)) e)\<lparr>le_historyIndex := le_historyIndex e - 1\<rparr> else e)"

definition redo :: "lyrics_editor \<Rightarrow> lyrics_editor" where
  "redo e = (if le_historyIndex e < length (le_history e) - 1
    then (setLyrics (le_history e ! (le_historyIndex e + 1)) e)\<lparr>le_historyIndex := le_historyIndex e + 1\<rparr> else e)"

definition applyGlobalOffset :: "jsnum \<Rightarrow> lyrics_editor \<Rightarrow> lyrics_editor" where
  "applyGlobalOffset offsetSeconds e =
    commit (map (\<lambda>line. line\<lparr>line_startTime := max 0 (to_fixed2 (line_startTime line + offsetSeconds))\<rparr>) (le_lyrics e)) e"

definition editNote :: "note_edit \<Rightarrow> lyrics_editor \<Rightarrow> lyrics_editor" where
  "editNote edit e =
    (case applyNoteEdit (le_lyrics e) edit of
       None \<Rightarrow> e
     | Some result \<Rightarrow> (commit (res_lyrics result) e)\<lparr>le_currentIndex := res_lineIndex result\<rparr>)"

definition editSelection :: "selection_edit \<Rightarrow> lyrics_editor \<Rightarrow> lyrics_editor" where
  "editSelection edit e =
    (case applySelectionEdit (le_lyrics e) edit of
       None \<Rightarrow> e
     | Some result \<Rightarrow> (commit (sel_lyrics result) e)\<lparr>le_currentIndex := sel_lineIndex result\<rparr>)"

definition canUndo :: "lyrics_editor \<Rightarrow> bool" where
  "canUndo e \<longleftrightarrow> 0 < le_historyIndex e"

definition canRedo :: "lyrics_editor \<Rightarrow> bool" where
  "canRedo e \<longleftrightarrow> le_historyIndex e < length (le_history e) - 1"

section \<open>All operations\<close>

datatype editor_op =
    UpdateLine int line_patch
  | CaptureTime int
  | AddExtraLine "int option"
  | DeleteLine int
  | AddSegmentToExtra int
  | RemoveSegmentFromExtra int int
  | ImportLyrics lyrics_data
  | ApplyGlobalOffset jsnum
  | EditNote note_edit
  | EditSelection selection_edit
  | Undo
  | Redo
  | MarkSaved lyrics_data
  | TimeUpdate jsnum
  | SetCurrentIndex nat
  | SetIsRecording bool
  | Subscribe nat
  | Unsubscribe nat

fun editor_run :: "editor_op \<Rightarrow> lyrics_editor \<Rightarrow> lyrics_editor" where
  "editor_run (UpdateLine i p) e = updateLine i p e"
| "editor_run (CaptureTime i) e = captureTime i e"
| "editor_run (AddExtraLine i) e = snd (addExtraLine i e)"
| "editor_run (DeleteLine i) e = deleteLine i e"
| "editor_run (AddSegmentToExtra i) e = addSegmentToExtra i e"
| "editor_run (RemoveSegmentFromExtra i k) e = removeSegmentFromExtra i k e"
| "editor_run (ImportLyrics l) e = importLyrics l e"
| "editor_run (ApplyGlobalOffset d) e = applyGlobalOffset d e"
| "editor_run (EditNote x) e = editNote x e"
| "editor_run (EditSelection x) e = editSelection x e"
| "editor_run Undo e = undo e"
| "editor_run Redo e = redo e"
| "editor_run (MarkSaved l) e = markSaved l e"
| "editor_run (TimeUpdate t) e = fst (onTimeUpdate t e)"
| "editor_run (SetCurrentIndex i) e = e\<lparr>le_currentIndex := i\<rparr>"
| "editor_run (SetIsRecording b) e = e\<lparr>le_isRecording := b\<rparr>"
| "editor_run (Subscribe l) e = subscribeToTime l e"
| "editor_run (Unsubscribe l) e = unsubscribe l e"


section \<open>The history as an undo stack\<close>

text \<open>
  What the history stands for: the states before the present one, the latest last, and the states that
  were undone, the next one first.
\<close>

record undo_stack =
  us_past :: "lyrics_data list"
  us_present :: lyrics_data
  us_future :: "lyrics_data list"

definition stack_of :: "lyrics_editor \<Rightarrow> undo_stack" where
  "stack_of e = \<lparr>us_past = take (le_historyIndex e) (le_history e), us_present = le_history e ! le_historyIndex e,
    us_future = drop (Suc (le_historyIndex e)) (le_history e)\<rparr>"

definition stack_commit :: "lyrics_data \<Rightarrow> undo_stack \<Rightarrow> undo_stack" where
  "stack_commit l z =
    (let past = us_past z @ [us_present z]
     in \<lparr>us_past = drop (length past - 49) past, us_present = l, us_future = []\<rparr>)"

definition stack_undo :: "undo_stack \<Rightarrow> undo_stack" where
  "stack_undo z = (if us_past z = [] then z
    else \<lparr>us_past = butlast (us_past z), us_present = last (us_past z), us_future = us_present z # us_future z\<rparr>)"

definition stack_redo :: "undo_stack \<Rightarrow> undo_stack" where
  "stack_redo z = (case us_future z of [] \<Rightarrow> z
    | f # fs \<Rightarrow> \<lparr>us_past = us_past z @ [us_present z], us_present = f, us_future = fs\<rparr>)"

text \<open>The state invariant: the index is inside the history, which is bounded and ends in what is shown.\<close>

definition editor_ok :: "lyrics_editor \<Rightarrow> bool" where
  "editor_ok e \<longleftrightarrow> le_historyIndex e < length (le_history e) \<and> length (le_history e) \<le> 50 \<and>
    le_lyrics e = le_history e ! le_historyIndex e"

definition same_history :: "lyrics_editor \<Rightarrow> lyrics_editor \<Rightarrow> bool" where
  "same_history e' e \<longleftrightarrow> le_lyrics e' = le_lyrics e \<and> le_history e' = le_history e \<and> le_historyIndex e' = le_historyIndex e"

lemma same_history_stack: "same_history e' e \<Longrightarrow> stack_of e' = stack_of e \<and> (editor_ok e' \<longleftrightarrow> editor_ok e)"
  by (simp add: same_history_def stack_of_def editor_ok_def)

lemma editor_ok_present: "editor_ok e \<Longrightarrow> us_present (stack_of e) = le_lyrics e"
  by (simp add: editor_ok_def stack_of_def)

lemma saved_history:
  fixes h :: "'a list" and l :: 'a
  assumes "i < length h" and "length h \<le> 50"
  defines "pushed \<equiv> take (i + 1) h @ [l]"
  shows "(if 50 < length pushed then tl pushed else pushed) = drop (length (take i h @ [h ! i]) - 49) (take i h @ [h ! i]) @ [l]"
proof -
  have p: "pushed = take i h @ [h ! i] @ [l]" using assms(1) by (simp add: pushed_def take_Suc_conv_app_nth)
  show ?thesis
  proof (cases "50 < length pushed")
    case True
    then have "i = 49" using assms(1,2) by (simp add: p)
    then show ?thesis using True assms(1) by (cases h) (simp_all add: p)
  next
    case False
    then show ?thesis using assms(1) by (simp add: p)
  qed
qed

lemma save_history:
  assumes "le_historyIndex e < length (le_history e)" and "length (le_history e) \<le> 50"
  defines "past \<equiv> take (le_historyIndex e) (le_history e) @ [le_history e ! le_historyIndex e]"
  shows "saveToHistory l e = e\<lparr>le_history := drop (length past - 49) past @ [l], le_historyIndex := length (drop (length past - 49) past)\<rparr>"
  unfolding saveToHistory_def Let_def saved_history [OF assms(1,2)] past_def by simp

lemma commit_refines:
  assumes "editor_ok e"
  shows "editor_ok (commit l e)" and "stack_of (commit l e) = stack_commit l (stack_of e)"
proof -
  let ?past = "take (le_historyIndex e) (le_history e) @ [le_history e ! le_historyIndex e]"
  define kept where "kept = drop (length ?past - 49) ?past"
  have i: "le_historyIndex e < length (le_history e)" "length (le_history e) \<le> 50" using assms by (simp_all add: editor_ok_def)
  have h: "commit l e = e\<lparr>le_lyrics := l, le_history := kept @ [l], le_historyIndex := length kept\<rparr>"
    using save_history [of "setLyrics l e" l] i by (simp add: commit_def setLyrics_def kept_def)
  have "length kept \<le> 49" by (simp add: kept_def)
  then show "editor_ok (commit l e)" by (simp add: h editor_ok_def)
  have "stack_of (commit l e) = \<lparr>us_past = kept, us_present = l, us_future = []\<rparr>" by (simp add: h stack_of_def)
  then show "stack_of (commit l e) = stack_commit l (stack_of e)" by (simp add: stack_of_def stack_commit_def Let_def kept_def)
qed

lemma undo_refines:
  assumes "editor_ok e"
  shows "editor_ok (undo e)" and "stack_of (undo e) = stack_undo (stack_of e)"
proof -
  obtain i where i: "le_historyIndex e = i" by blast
  have "editor_ok (undo e) \<and> stack_of (undo e) = stack_undo (stack_of e)"
  proof (cases i)
    case 0
    with i assms show ?thesis by (simp add: undo_def stack_undo_def stack_of_def)
  next
    case (Suc j)
    then have "j < length (le_history e)" "Suc j < length (le_history e)" using assms i by (simp_all add: editor_ok_def)
    then show ?thesis using assms i Suc
      by (auto simp: undo_def setLyrics_def stack_undo_def stack_of_def editor_ok_def take_Suc_conv_app_nth Cons_nth_drop_Suc)
  qed
  then show "editor_ok (undo e)" "stack_of (undo e) = stack_undo (stack_of e)" by simp_all
qed

lemma redo_refines:
  assumes "editor_ok e"
  shows "editor_ok (redo e)" and "stack_of (redo e) = stack_redo (stack_of e)"
proof -
  let ?i = "le_historyIndex e"
  have "editor_ok (redo e) \<and> stack_of (redo e) = stack_redo (stack_of e)"
  proof (cases "Suc ?i < length (le_history e)")
    case True
    then have "drop (Suc ?i) (le_history e) = le_history e ! Suc ?i # drop (Suc (Suc ?i)) (le_history e)" by (simp add: Cons_nth_drop_Suc)
    with True assms show ?thesis
      by (simp add: redo_def setLyrics_def stack_redo_def stack_of_def editor_ok_def take_Suc_conv_app_nth)
  next
    case False
    then have "redo e = e" by (simp add: redo_def)
    with False assms show ?thesis by (simp add: stack_redo_def stack_of_def)
  qed
  then show "editor_ok (redo e)" "stack_of (redo e) = stack_redo (stack_of e)" by simp_all
qed


section \<open>Every operation on the undo stack\<close>

text \<open>The operations that may record a new state of the lyrics.\<close>

fun is_edit :: "editor_op \<Rightarrow> bool" where
  "is_edit Undo = False"
| "is_edit Redo = False"
| "is_edit (MarkSaved _) = False"
| "is_edit (TimeUpdate _) = False"
| "is_edit (SetCurrentIndex _) = False"
| "is_edit (SetIsRecording _) = False"
| "is_edit (Subscribe _) = False"
| "is_edit (Unsubscribe _) = False"
| "is_edit _ = True"

lemma same_history_simps [simp]:
  "same_history e e"
  "same_history (e'\<lparr>le_currentIndex := i\<rparr>) e \<longleftrightarrow> same_history e' e"
  "same_history (e'\<lparr>le_isRecording := b\<rparr>) e \<longleftrightarrow> same_history e' e"
  "same_history (e'\<lparr>le_currentTime := t\<rparr>) e \<longleftrightarrow> same_history e' e"
  "same_history (e'\<lparr>le_timeListeners := ls\<rparr>) e \<longleftrightarrow> same_history e' e"
  "same_history (e'\<lparr>le_defaults := l\<rparr>) e \<longleftrightarrow> same_history e' e"
  by (simp_all add: same_history_def)

lemma commit_lyrics [simp]: "le_lyrics (commit l e) = l"
  by (simp add: commit_def saveToHistory_def setLyrics_def Let_def)

lemma import_commit: "importLyrics l e = (commit l e)\<lparr>le_currentIndex := 0\<rparr>"
  by (simp add: importLyrics_def commit_def saveToHistory_def setLyrics_def Let_def)

lemma mark_saved: "markSaved saved e = e\<lparr>le_defaults := saved\<rparr>"
  by (simp add: markSaved_def setLyrics_def Let_def)

lemma editor_run_edit:
  assumes "op \<noteq> Undo" and "op \<noteq> Redo"
  shows "same_history (editor_run op e) e \<or> is_edit op \<and> same_history (editor_run op e) (commit (le_lyrics (editor_run op e)) e)"
  using assms
  by (cases op)
    (simp_all add: updateLine_def captureTime_def addExtraLine_def deleteLine_def addSegmentToExtra_def removeSegmentFromExtra_def
      import_commit applyGlobalOffset_def editNote_def editSelection_def mark_saved onTimeUpdate_def subscribeToTime_def unsubscribe_def
      Let_def split: option.splits prod.splits)

definition stack_step :: "editor_op \<Rightarrow> lyrics_data \<Rightarrow> undo_stack \<Rightarrow> undo_stack set" where
  "stack_step op l z =
    (case op of
       Undo \<Rightarrow> {stack_undo z}
     | Redo \<Rightarrow> {stack_redo z}
     | _ \<Rightarrow> insert z (if is_edit op then {stack_commit l z} else {}))"

lemma editor_step:
  assumes "editor_ok e"
  shows "editor_ok (editor_run op e)" and "stack_of (editor_run op e) \<in> stack_step op (le_lyrics (editor_run op e)) (stack_of e)"
proof -
  have "editor_ok (editor_run op e) \<and> stack_of (editor_run op e) \<in> stack_step op (le_lyrics (editor_run op e)) (stack_of e)"
  proof (cases "op = Undo \<or> op = Redo")
    case True
    with undo_refines [OF assms] redo_refines [OF assms] show ?thesis by (auto simp: stack_step_def)
  next
    case False
    then have "stack_step op l z = insert z (if is_edit op then {stack_commit l z} else {})" for l z
      by (cases op) (simp_all add: stack_step_def)
    moreover have "same_history (editor_run op e) e \<or> is_edit op \<and> same_history (editor_run op e) (commit (le_lyrics (editor_run op e)) e)"
      using False by (intro editor_run_edit) blast+
    ultimately show ?thesis 
      using same_history_stack [of "editor_run op e" e] same_history_stack [of "editor_run op e" "commit (le_lyrics (editor_run op e)) e"]
        commit_refines [OF assms] assms by auto
  qed
  then show "editor_ok (editor_run op e)" "stack_of (editor_run op e) \<in> stack_step op (le_lyrics (editor_run op e)) (stack_of e)" by simp_all
qed

text \<open>A whole session.\<close>

definition editor_session :: "editor_op list \<Rightarrow> lyrics_editor \<Rightarrow> lyrics_editor" where
  "editor_session ops e = foldl (\<lambda>e op. editor_run op e) e ops"

lemma editor_session_simps [simp]:
  "editor_session [] e = e" "editor_session (op # ops) e = editor_session ops (editor_run op e)"
  "editor_session (ops @ [op]) e = editor_run op (editor_session ops e)"
  by (simp_all add: editor_session_def)

lemma session_ok: "editor_ok e \<Longrightarrow> editor_ok (editor_session ops e)"
  by (induction ops arbitrary: e) (simp_all add: editor_step(1))

lemma initial_ok: "editor_ok (useLyricsEditor l)"
  by (simp add: editor_ok_def useLyricsEditor_def)

lemma undo_many:
  "editor_ok e \<Longrightarrow> editor_ok ((undo ^^ k) e) \<and> stack_of ((undo ^^ k) e) = (stack_undo ^^ k) (stack_of e)"
  by (induction k) (simp_all add: undo_refines)

lemma redo_many:
  "editor_ok e \<Longrightarrow> editor_ok ((redo ^^ k) e) \<and> stack_of ((redo ^^ k) e) = (stack_redo ^^ k) (stack_of e)"
  by (induction k) (simp_all add: redo_refines)

lemma redo_undo: "us_past z \<noteq> [] \<Longrightarrow> stack_redo (stack_undo z) = z"
  by (simp add: stack_undo_def stack_redo_def)

lemma undo_past:
  "k \<le> length (us_past z) \<Longrightarrow> length (us_past ((stack_undo ^^ k) z)) = length (us_past z) - k \<and>
    us_past ((stack_undo ^^ k) z) @ [us_present ((stack_undo ^^ k) z)] = take (Suc (length (us_past z) - k)) (us_past z @ [us_present z])"
proof (induction k)
  case (Suc k)
  define y where "y = (stack_undo ^^ k) z"
  have IH: "length (us_past y) = length (us_past z) - k"
    "us_past y @ [us_present y] = take (Suc (length (us_past z) - k)) (us_past z @ [us_present z])"
    using Suc by (simp_all add: y_def)
  then have ne: "us_past y \<noteq> []" using Suc.prems by auto
  have "us_past y = butlast (us_past y @ [us_present y])" by simp
  also have "\<dots> = take (length (us_past z) - k) (us_past z @ [us_present z])" unfolding IH(2) by (subst butlast_take) simp_all
  finally have "us_past y = take (length (us_past z) - k) (us_past z @ [us_present z])" .
  moreover have "Suc (length (us_past z) - Suc k) = length (us_past z) - k" using Suc.prems by simp
  moreover have "(stack_undo ^^ Suc k) z = stack_undo y" by (simp add: y_def)
  moreover have "stack_undo y = \<lparr>us_past = butlast (us_past y), us_present = last (us_past y), us_future = us_present y # us_future y\<rparr>"
    using ne by (simp add: stack_undo_def)
  ultimately show ?case using ne IH(1) by simp
qed simp

lemma redo_undo_many: "k \<le> length (us_past z) \<Longrightarrow> (stack_redo ^^ k) ((stack_undo ^^ k) z) = z"
proof (induction k)
  case (Suc k)
  then have "us_past ((stack_undo ^^ k) z) \<noteq> []" using undo_past [of k z] by auto
  then have "stack_redo ((stack_undo ^^ Suc k) z) = (stack_undo ^^ k) z" by (simp add: redo_undo)
  then have "(stack_redo ^^ k) (stack_redo ((stack_undo ^^ Suc k) z)) = z" using Suc by simp
  then show ?case by (simp add: funpow_swap1)
qed simp


section \<open>Undoing and redoing a run of edits\<close>

definition stack_list :: "undo_stack \<Rightarrow> lyrics_data list" where
  "stack_list z = us_past z @ [us_present z]"

text \<open>After \<open>k\<close> recorded states, the stack ends in the state before them and the \<open>k\<close> new ones.\<close>

definition recorded_since :: "nat \<Rightarrow> lyrics_data \<Rightarrow> undo_stack \<Rightarrow> bool" where
  "recorded_since k l z \<longleftrightarrow> (\<exists>pre new. stack_list z = pre @ l # new \<and> length new = k)"

lemma recorded_commit:
  assumes "recorded_since k l z" and "k < 49"
  shows "recorded_since (Suc k) l (stack_commit l' z)"
proof -
  obtain pre new where z: "us_past z @ [us_present z] = pre @ l # new" and k: "length new = k"
    using assms(1) by (auto simp: recorded_since_def stack_list_def)
  have "length (us_past z @ [us_present z]) - 49 = length (pre @ l # new) - 49" by (simp only: z)
  moreover have "length (pre @ l # new) - 49 \<le> length pre" using k assms(2) by simp
  ultimately have "drop (length (us_past z @ [us_present z]) - 49) (us_past z @ [us_present z]) =
      drop (length (pre @ l # new) - 49) pre @ l # new" by (simp only: z drop_append) simp
  then have "stack_list (stack_commit l' z) = drop (length (pre @ l # new) - 49) pre @ l # (new @ [l'])"
    by (simp add: stack_list_def stack_commit_def Let_def del: length_append)
  with k show ?thesis unfolding recorded_since_def by fastforce
qed

lemma session_records:
  assumes "editor_ok e" and "list_all (\<lambda>op. op \<noteq> Undo \<and> op \<noteq> Redo) ops" and "length ops \<le> 49"
  shows "\<exists>k \<le> length ops. recorded_since k (le_lyrics e) (stack_of (editor_session ops e))"
  using assms(2,3)
proof (induction ops rule: rev_induct)
  case Nil
  have "recorded_since 0 (le_lyrics e) (stack_of e)"
    unfolding recorded_since_def stack_list_def editor_ok_present [OF assms(1)] by simp
  then show ?case by simp
next
  case (snoc op ops)
  then obtain k where k: "k \<le> length ops" "recorded_since k (le_lyrics e) (stack_of (editor_session ops e))" by auto
  let ?e = "editor_session ops e"
  have ok: "editor_ok ?e" by (rule session_ok [OF assms(1)])
  have "same_history (editor_run op ?e) ?e \<or> same_history (editor_run op ?e) (commit (le_lyrics (editor_run op ?e)) ?e)"
    using snoc.prems editor_run_edit [of op ?e] by auto
  then have "stack_of (editor_run op ?e) = stack_of ?e \<or> stack_of (editor_run op ?e) = stack_commit (le_lyrics (editor_run op ?e)) (stack_of ?e)"
    using same_history_stack commit_refines(2) [OF ok] by metis
  moreover have "k < 49" using k(1) snoc.prems by simp
  ultimately show ?case using k recorded_commit [OF k(2)] by (metis Suc_le_mono editor_session_simps(3) le_SucI length_append_singleton)
qed

lemma recorded_undo:
  assumes "recorded_since k l z"
  shows "k \<le> length (us_past z)" and "us_present ((stack_undo ^^ k) z) = l"
proof -
  obtain pre new where z: "us_past z @ [us_present z] = pre @ l # new" and k: "length new = k"
    using assms by (auto simp: recorded_since_def stack_list_def)
  have len: "length (us_past z) = length pre + k" using arg_cong [OF z, of length] k by simp
  then show "k \<le> length (us_past z)" by simp
  from undo_past [OF this] have "us_past ((stack_undo ^^ k) z) @ [us_present ((stack_undo ^^ k) z)] = pre @ [l]"
    unfolding z by (simp add: len)
  then show "us_present ((stack_undo ^^ k) z) = l" by simp
qed

text \<open>C13.
  In every state that a session reaches, the history array and index are an undo stack of at most fifty
  states whose present state is what the editor shows, the buttons are enabled exactly when there is
  something to undo or redo, and every operation - edit, undo, redo, saving, clock, selection - does to
  the stack what it should: an edit either leaves it alone or records its own result once, forgetting
  what had been undone and, beyond fifty, the oldest state.\<close>

theorem undo_stack_refined:
  "let e = editor_session ops (useLyricsEditor l) in
    le_lyrics e = us_present (stack_of e) \<and> length (le_history e) \<le> 50 \<and>
    (canUndo e \<longleftrightarrow> us_past (stack_of e) \<noteq> []) \<and> (canRedo e \<longleftrightarrow> us_future (stack_of e) \<noteq> []) \<and>
    stack_of (editor_run op e) \<in> stack_step op (le_lyrics (editor_run op e)) (stack_of e)"
proof -
  have ok: "editor_ok (editor_session ops (useLyricsEditor l))" by (rule session_ok [OF initial_ok])
  then show ?thesis
    using editor_step(2) [OF ok, of op] editor_ok_present [OF ok]
    by (auto simp: Let_def editor_ok_def canUndo_def canRedo_def stack_of_def)
qed

text \<open>C14.
  Whatever at most forty-nine operations other than undo and redo do to a draft, in any reachable state,
  some number of undo clicks - at most one for each operation - brings back exactly the lyrics from before
  them, and as many redo clicks bring back exactly the result.\<close>

theorem undo_redo_roundtrip:
  assumes "list_all (\<lambda>op. op \<noteq> Undo \<and> op \<noteq> Redo) ops" and "length ops \<le> 49"
  shows "let before = editor_session earlier (useLyricsEditor l); after = editor_session ops before in
    \<exists>k \<le> length ops. le_lyrics ((undo ^^ k) after) = le_lyrics before \<and> le_lyrics ((redo ^^ k) ((undo ^^ k) after)) = le_lyrics after"
proof -
  define before where "before = editor_session earlier (useLyricsEditor l)"
  define after where "after = editor_session ops before"
  have ok: "editor_ok before" "editor_ok after" by (simp_all add: before_def after_def session_ok initial_ok)
  obtain k where k: "k \<le> length ops" "recorded_since k (le_lyrics before) (stack_of after)"
    using session_records [OF ok(1) assms] by (auto simp: after_def)
  note undone = undo_many [OF ok(2), of k]
  note redone = redo_many [OF conjunct1 [OF undone], of k]
  have "le_lyrics ((undo ^^ k) after) = le_lyrics before"
    using undone recorded_undo(2) [OF k(2)] editor_ok_present [of "(undo ^^ k) after"] by simp
  moreover have "stack_of ((redo ^^ k) ((undo ^^ k) after)) = stack_of after"
    using undone redone redo_undo_many [OF recorded_undo(1) [OF k(2)]] by simp
  then have "le_lyrics ((redo ^^ k) ((undo ^^ k) after)) = le_lyrics after"
    using editor_ok_present [OF ok(2)] editor_ok_present [OF conjunct1 [OF redone]] by simp
  ultimately show ?thesis unfolding Let_def before_def [symmetric] after_def [symmetric] using k(1) by blast
qed


section \<open>Drafts that the contract accepts\<close>

lemma to_fixed2_nonneg: "0 \<le> t \<Longrightarrow> 0 \<le> to_fixed2 t"
  by (simp add: to_fixed2_def js_round_nonneg)

text \<open>
  What the callers promise: the player's clock and pasted lyrics are not negative, and a patch of a line
  does not put a negative time on it (nor makes a call line of a line).\<close>

definition op_timed :: "editor_op \<Rightarrow> bool" where
  "op_timed op \<longleftrightarrow> (case op of
     UpdateLine _ p \<Rightarrow> (case lp_startTime p of None \<Rightarrow> True | Some t \<Rightarrow> 0 \<le> t) \<and> lp_isExtra p \<noteq> Some True \<and>
       (case lp_segments p of Some (OtherSegments ss) \<Rightarrow> list_all (\<lambda>s. 0 \<le> segment_offset s) ss | _ \<Rightarrow> True)
   | ImportLyrics l \<Rightarrow> lyrics_timed l
   | TimeUpdate t \<Rightarrow> 0 \<le> t
   | _ \<Rightarrow> True)"

definition editor_timed :: "lyrics_editor \<Rightarrow> bool" where
  "editor_timed e \<longleftrightarrow> 0 \<le> le_currentTime e \<and> lyrics_timed (le_lyrics e) \<and> list_all lyrics_timed (le_history e)"

lemma commit_history: "set (le_history (commit l e)) \<subseteq> insert l (set (le_history e))"
proof -
  have "set (tl xs) \<subseteq> set xs" for xs :: "lyrics_data list" by (cases xs) auto
  then show ?thesis using set_take_subset [of "Suc (le_historyIndex e)" "le_history e"]
    by (auto simp: commit_def saveToHistory_def setLyrics_def Let_def dest!: subsetD [OF \<open>\<And>xs :: lyrics_data list. set (tl xs) \<subseteq> set xs\<close>] split: if_splits)
qed

lemma timed_commit: "editor_timed e \<Longrightarrow> lyrics_timed l \<Longrightarrow> editor_timed (commit l e)"
  using commit_history [of l e] by (auto simp: editor_timed_def list_all_iff commit_def saveToHistory_def setLyrics_def Let_def)

lemma timed_index [simp]: "editor_timed (e\<lparr>le_currentIndex := i\<rparr>) = editor_timed e"
  by (simp add: editor_timed_def)

lemma line_at_timed: "editor_timed e \<Longrightarrow> line_at (le_lyrics e) i = Some line \<Longrightarrow> line_timed line"
  by (auto simp: line_at_def editor_timed_def timed_line split: if_splits)

lemma timed_replace:
  assumes "editor_timed e" and "line_timed l"
  shows "editor_timed (commit ((le_lyrics e)[nat i := l]) e)"
  using assms by (intro timed_commit timed_update) (simp_all add: editor_timed_def)

lemma timed_patch:
  assumes "line_timed line" and "op_timed (UpdateLine i p)"
  shows "line_timed (patch_line p line)"
  using assms
  by (cases "lp_isExtra p") (auto simp: op_timed_def line_timed_def patch_line_def split: option.splits segments_ref.splits)

lemma timed_without: "lyrics_timed l \<Longrightarrow> lyrics_timed (without i l)"
  using set_remove_at [of "nat i" l] by (auto simp: without_def lyrics_timed_def list_all_iff)

lemma segments_without: "set (without i xs) \<subseteq> set xs"
  using set_remove_at [of "nat i" xs] by (simp add: without_def)

lemma timed_add_extra: 
  assumes "editor_timed e"
  shows "editor_timed (snd (addExtraLine i e))"
proof -
  have "0 \<le> extra_line_time i e"
    using assms line_at_timed [OF assms]
    by (cases i) (auto simp: extra_line_time_def editor_timed_def line_timed_def to_fixed2_nonneg intro!: add_nonneg_nonneg split: option.split)
  then have "line_timed \<lparr>line_startTime = extra_line_time i e, line_segments = [empty_call None], line_isExtra = True\<rparr>"
    by (simp add: line_timed_def segment_offset_def empty_call_def)
  then have "lyrics_timed (fst (push_sorted (le_lyrics e) \<lparr>line_startTime = extra_line_time i e, line_segments = [empty_call None], line_isExtra = True\<rparr>))"
    using assms by (simp add: editor_timed_def lyrics_timed_def list_all_iff push_sorted_set)
  then show ?thesis using timed_commit [OF assms] by (auto simp: addExtraLine_def Let_def split: prod.split)
qed

lemma editor_run_timed:
  assumes "editor_timed e" and "editor_ok e" and "op_timed op"
  shows "editor_timed (editor_run op e)"
proof (cases op)
  case (UpdateLine i p)
  with assms show ?thesis using timed_patch line_at_timed timed_replace by (auto simp: updateLine_def split: option.splits)
next
  case (CaptureTime i)
  have "line_timed (l\<lparr>line_startTime := to_fixed2 (le_currentTime e)\<rparr>)" if "line_timed l" for l
    using that assms(1) by (simp add: line_timed_def editor_timed_def to_fixed2_nonneg)
  with CaptureTime assms(1) show ?thesis
    using line_at_timed timed_replace by (auto simp: captureTime_def Let_def split: option.splits)
next
  case (AddSegmentToExtra i)
  have "line_timed (l\<lparr>line_segments := line_segments l @ [empty_call (Some 0)]\<rparr>)" if "line_timed l" for l
    using that by (simp add: line_timed_def segment_offset_def empty_call_def)
  with AddSegmentToExtra assms(1) show ?thesis
    using line_at_timed timed_replace by (auto simp: addSegmentToExtra_def split: option.splits)
next
  case (RemoveSegmentFromExtra i k)
  have "line_timed (l\<lparr>line_segments := (if without k (line_segments l) = [] then [empty_call (Some 0)] else without k (line_segments l))\<rparr>)"
    if "line_timed l" for l
    using that segments_without [of k "line_segments l"] by (auto simp: line_timed_def segment_offset_def empty_call_def list_all_iff)
  with RemoveSegmentFromExtra assms(1) show ?thesis
    using line_at_timed timed_replace by (auto simp: removeSegmentFromExtra_def Let_def split: option.splits)
next
  case (ApplyGlobalOffset d)
  have "lyrics_timed (map (\<lambda>line. line\<lparr>line_startTime := max 0 (to_fixed2 (line_startTime line + d))\<rparr>) (le_lyrics e))"
    using assms(1) by (auto simp: editor_timed_def lyrics_timed_def list_all_iff line_timed_def)
  with ApplyGlobalOffset assms(1) show ?thesis by (simp add: applyGlobalOffset_def timed_commit)
next
  case (EditNote x)
  with assms(1) show ?thesis
    using edit_effect timed_commit by (auto simp: editNote_def editor_timed_def split: option.split)
next
  case (EditSelection x)
  with assms(1) show ?thesis
    using selection_timed timed_commit by (auto simp: editSelection_def editor_timed_def split: option.split)
next
  case Undo
  with assms show ?thesis by (auto simp: undo_def setLyrics_def editor_timed_def editor_ok_def list_all_length)
next
  case Redo
  with assms show ?thesis by (auto simp: redo_def setLyrics_def editor_timed_def editor_ok_def list_all_length)
next
  case (DeleteLine i)
  with assms(1) show ?thesis using timed_commit timed_without by (simp add: deleteLine_def Let_def editor_timed_def)
next
  case (AddExtraLine i)
  with assms(1) show ?thesis by (simp add: timed_add_extra)
next
  case (ImportLyrics l)
  with assms show ?thesis by (simp add: import_commit timed_commit op_timed_def)
next
  case (TimeUpdate t)
  with assms show ?thesis by (simp add: onTimeUpdate_def editor_timed_def op_timed_def)
qed (use assms in \<open>simp_all add: mark_saved editor_timed_def subscribeToTime_def unsubscribe_def\<close>)


text \<open>
  A draft whose times the contract accepts stays one, through any session of the editor: whatever notes,
  selections, captures, offsets, imports, undo and redo do in any order, no line starts before zero and no
  call lies before its group, in the draft and in every state the history can bring back.\<close>

theorem session_keeps_times:
  assumes "lyrics_timed l" and "list_all op_timed ops"
  shows "lyrics_timed (le_lyrics (editor_session ops (useLyricsEditor l))) \<and>
    list_all lyrics_timed (le_history (editor_session ops (useLyricsEditor l)))"
proof -
  have "editor_timed (editor_session ops (useLyricsEditor l))" using assms(2)
  proof (induction ops rule: rev_induct)
    case Nil
    with assms(1) show ?case by (simp add: editor_timed_def useLyricsEditor_def)
  next
    case (snoc op ops)
    then show ?case using editor_run_timed session_ok [OF initial_ok] by simp
  qed
  then show ?thesis by (simp add: editor_timed_def)
qed

section \<open>Witnesses\<close>

definition sample_ops :: "editor_op list" where
  "sample_ops = [EditNote (AddNote EchoLane (Some 3) ''hey''), EditSelection (MoveNotes [''extra:1:1''] (Some (- 5)) (Some 60)),
    ApplyGlobalOffset (- 100), CaptureTime 0]"

theorem undo_redo_roundtrip_witness:
  "let before = useLyricsEditor sample_group; after = editor_session sample_ops before in
    \<exists>k \<le> 4. le_lyrics ((undo ^^ k) after) = le_lyrics before \<and> le_lyrics ((redo ^^ k) ((undo ^^ k) after)) = le_lyrics after"
proof -
  have "list_all (\<lambda>op. op \<noteq> Undo \<and> op \<noteq> Redo) sample_ops" and len: "length sample_ops = 4" by (simp_all add: sample_ops_def)
  then show ?thesis using undo_redo_roundtrip [of sample_ops "[]" sample_group] by (simp only: editor_session_simps len)
qed

theorem session_keeps_times_witness:
  "lyrics_timed (le_lyrics (editor_session sample_ops (useLyricsEditor sample_group)))"
  using session_keeps_times [OF sample_group_timed, of sample_ops] by (simp add: sample_ops_def op_timed_def)

end
