(* ===== verification/AdWatcher.thy ===== *)
theory AdWatcher imports Lyrics begin

text \<open>
  The advertisement watcher (\<open>shared/model/useAdWatcher.ts\<close>, the same in both apps) that the viewer of the
  fans and the editor of the administrators consult before they follow the player's time.
\<close>

section \<open>Advertisements\<close>

text \<open>
  \<open>aw_player\<close> and \<open>aw_targetId\<close> are those of the running effect, which owns the length of the video;
  the status names the player and video it was measured for.
\<close>

record ad_watcher =
  aw_player :: "nat option"
  aw_targetId :: string
  aw_targetDuration :: jsnum
  aw_status :: "nat option \<times> string \<times> bool"

text \<open>Rendering with a player and a video: the effect starts again when one of them changed.\<close>

definition ad_effect :: "nat option \<Rightarrow> string \<Rightarrow> ad_watcher \<Rightarrow> ad_watcher" where
  "ad_effect player targetId w =
    (if aw_player w = player \<and> aw_targetId w = targetId then w
     else w\<lparr>aw_player := player, aw_targetId := targetId, aw_targetDuration := 0\<rparr>)"

text \<open>One tick, with what the player reports; a player that throws is skipped.\<close>

definition checkAdStatus :: "string option \<Rightarrow> jsnum \<Rightarrow> ad_watcher \<Rightarrow> ad_watcher" where
  "checkAdStatus currentId duration w =
    (if aw_player w = None \<or> aw_targetId w = [] then w
     else
       let known = (if currentId = Some (aw_targetId w) \<and> 0 < duration \<and> aw_targetDuration w = 0 then duration else aw_targetDuration w);
           isAdPlaying = ((case currentId of None \<Rightarrow> False | Some i \<Rightarrow> i \<noteq> [] \<and> i \<noteq> aw_targetId w) \<or>
             0 < known \<and> 2 < \<bar>duration - known\<bar>)
       in w\<lparr>aw_targetDuration := known, aw_status := (aw_player w, aw_targetId w, isAdPlaying)\<rparr>)"

definition useAdWatcher :: "nat option \<Rightarrow> string \<Rightarrow> ad_watcher \<Rightarrow> bool" where
  "useAdWatcher player targetId w =
    (case aw_status w of (p, t, ad) \<Rightarrow> if p = player \<and> t = targetId then ad else False)"

lemma ad_effect_same [simp]: "ad_effect (aw_player w) (aw_targetId w) w = w"
  by (simp add: ad_effect_def)

text \<open>A status that was measured for another player or video counts for nothing.\<close>

lemma ad_stale: "fst (aw_status w) \<noteq> player \<Longrightarrow> \<not> useAdWatcher player targetId w"
  by (auto simp: useAdWatcher_def split: prod.splits)

text \<open>While the player shows the video of the page at its first known length, there is no advertisement.\<close>

lemma ad_own_video:
  assumes "aw_player w = Some p" and "aw_targetId w \<noteq> []" and "0 < duration"
    and "aw_targetDuration w = 0 \<or> \<bar>duration - aw_targetDuration w\<bar> \<le> 2"
  shows "\<not> useAdWatcher (Some p) (aw_targetId w) (checkAdStatus (Some (aw_targetId w)) duration w)"
  using assms by (auto simp: useAdWatcher_def checkAdStatus_def Let_def)

text \<open>While it names another video, there is one.\<close>

lemma ad_other_video:
  assumes "aw_player w = Some p" and "aw_targetId w \<noteq> []" and "i \<noteq> []" and "i \<noteq> aw_targetId w"
  shows "useAdWatcher (Some p) (aw_targetId w) (checkAdStatus (Some i) duration w)"
  using assms by (simp add: useAdWatcher_def checkAdStatus_def Let_def)

end
