(* ===== verification/AdminEditor.thy ===== *)
theory AdminEditor imports LyricsEditor Songs MfaCrypto AdWatcher begin

text \<open>
  The lyrics editor page of the console (\<open>features/manage-lyrics/model/useAdminEditor.ts\<close>): video,
  saving, LRC import, splitting of segments and the guards against advertisements
  (\<open>shared/model/useAdWatcher.ts\<close>), together with the two ways a save reaches the server
  (\<open>AdminLyricsEditor.tsx\<close> with \<open>api/admin/songs/[id]/lyrics/route.ts\<close>, and \<open>use-guide-draft-editor.ts\<close>).
\<close>

section \<open>The video field\<close>

text \<open>\<open>[\w-]\<close>: letters, digits, the underscore and the dash.\<close>

definition is_word :: "char \<Rightarrow> bool" where
  "is_word c \<longleftrightarrow> c \<in> set (b64_common @ ''-_'')"

text \<open>\<open>[\w-]{11}\<close> at the start of a text.\<close>

definition id_at :: "string \<Rightarrow> string option" where
  "id_at s = (if 11 \<le> length s \<and> list_all is_word (take 11 s) then Some (take 11 s) else None)"

fun after_prefix :: "string \<Rightarrow> string \<Rightarrow> string option" where
  "after_prefix [] s = Some s"
| "after_prefix (p # ps) [] = None"
| "after_prefix (p # ps) (c # s) = (if p = c then after_prefix ps s else None)"

definition id_after :: "string \<Rightarrow> string \<Rightarrow> string option" where
  "id_after p s = Option.bind (after_prefix p s) id_at"

definition or_else :: "'a option \<Rightarrow> 'a option \<Rightarrow> 'a option" where
  "or_else a b = (case a of None \<Rightarrow> b | Some x \<Rightarrow> Some x)"

text \<open>\<open>.+&v=\<close> before the id: the dot takes no line end, and as many characters as possible.\<close>

fun id_after_params :: "string \<Rightarrow> string option" where
  "id_after_params [] = None"
| "id_after_params (c # s) =
    (if c = CHR 0x0A \<or> c = CHR 0x0D then None else or_else (id_after_params s) (id_after ''&v='' s))"

definition video_id_at :: "string \<Rightarrow> string option" where
  "video_id_at s =
    or_else (id_after ''youtu.be/'' s)
      (case after_prefix ''youtube.com/'' s of
         None \<Rightarrow> None
       | Some path \<Rightarrow>
           or_else (id_after ''embed/'' path) (or_else (id_after ''v/'' path) (or_else (id_after ''watch?v='' path)
             (Option.bind (after_prefix ''watch?'' path) id_after_params))))"

fun video_id :: "string \<Rightarrow> string option" where
  "video_id [] = None"
| "video_id (c # s) = or_else (video_id_at (c # s)) (video_id s)"

section \<open>What a save sends\<close>

definition guideWriteVersionSchema :: "guide_write_version \<Rightarrow> guide_write_version option" where
  "guideWriteVersionSchema v =
    (case entityIdSchema (gv_guideId v) of
       None \<Rightarrow> None
     | Some i \<Rightarrow> if 0 < gv_lockVersion v then Some (v\<lparr>gv_guideId := i\<rparr>) else None)"

definition saveAdminSongLyricsSchema :: "save_lyrics_input \<Rightarrow> save_lyrics_input option" where
  "saveAdminSongLyricsSchema input =
    (case lyricsDataSchema (lyrics_json (sli_lyrics input)) of
       None \<Rightarrow> None
     | Some lyrics \<Rightarrow>
         (case sli_guideWrite input of
            None \<Rightarrow> Some \<lparr>sli_lyrics = lyrics, sli_youtubeId = trim (sli_youtubeId input), sli_guideWrite = None\<rparr>
          | Some v \<Rightarrow>
              (case guideWriteVersionSchema v of
                 None \<Rightarrow> None
               | Some v' \<Rightarrow> Some \<lparr>sli_lyrics = lyrics, sli_youtubeId = trim (sli_youtubeId input), sli_guideWrite = Some v'\<rparr>)))"

section \<open>The page\<close>

record toolbar_state =
  tb_show :: bool
  tb_x :: jsnum
  tb_y :: jsnum
  tb_lineIndex :: nat
  tb_segmentIndex :: nat
  tb_startOffset :: nat
  tb_endOffset :: nat

text \<open>A save that is under way: the lyrics and the video of the render that started it, and the request.\<close>

record pending_save =
  ps_lyrics :: lyrics_data
  ps_youtubeId :: string
  ps_input :: save_lyrics_input

record admin_editor =
  ae_songId :: eid
  ae_lyricsEditor :: lyrics_editor
  ae_playerState :: int
  ae_player :: "nat option"
  ae_youtubeId :: string
  ae_youtubeDefault :: string
  ae_isSaving :: bool
  ae_hasSaved :: bool
  ae_saving :: "pending_save option"
  ae_guideWrite :: "guide_write_version option"
  ae_isImportOpen :: bool
  ae_lrcInput :: string
  ae_toolbar :: "toolbar_state option"
  ae_lastAddedTime :: "jsnum option"
  ae_ads :: ad_watcher

definition useAdminEditor :: "song_editor \<Rightarrow> admin_editor" where
  "useAdminEditor song = \<lparr>ae_songId = sed_id song, ae_lyricsEditor = useLyricsEditor (sed_lyrics song), ae_playerState = - 1,
    ae_player = None, ae_youtubeId = sed_youtubeId song, ae_youtubeDefault = sed_youtubeId song, ae_isSaving = False, ae_hasSaved = False,
    ae_saving = None, ae_guideWrite = sed_guideWrite song, ae_isImportOpen = False, ae_lrcInput = [], ae_toolbar = None,
    ae_lastAddedTime = None,
    ae_ads = \<lparr>aw_player = None, aw_targetId = sed_youtubeId song, aw_targetDuration = 0, aw_status = (None, sed_youtubeId song, False)\<rparr>\<rparr>"

abbreviation ae_lyrics :: "admin_editor \<Rightarrow> lyrics_data" where
  "ae_lyrics a \<equiv> le_lyrics (ae_lyricsEditor a)"

definition with_editor :: "(lyrics_editor \<Rightarrow> lyrics_editor) \<Rightarrow> admin_editor \<Rightarrow> admin_editor" where
  "with_editor f a = a\<lparr>ae_lyricsEditor := f (ae_lyricsEditor a)\<rparr>"

definition isAdPlaying :: "admin_editor \<Rightarrow> bool" where
  "isAdPlaying a = useAdWatcher (ae_player a) (ae_youtubeId a) (ae_ads a)"

definition handleAddExtraLine :: "int option \<Rightarrow> admin_editor \<Rightarrow> admin_editor" where
  "handleAddExtraLine index a =
    (case addExtraLine index (ae_lyricsEditor a) of (time, e) \<Rightarrow> a\<lparr>ae_lyricsEditor := e, ae_lastAddedTime := Some time\<rparr>)"

definition handleCaptureTime :: "int \<Rightarrow> admin_editor \<Rightarrow> admin_editor" where
  "handleCaptureTime index a =
    (if ae_player a \<noteq> None \<and> \<not> isAdPlaying a then with_editor (captureTime index) a else a)"

definition handleTimeUpdate :: "jsnum \<Rightarrow> admin_editor \<Rightarrow> admin_editor" where
  "handleTimeUpdate time a =
    (if \<not> isAdPlaying a then with_editor (\<lambda>e. fst (onTimeUpdate time e)) a else a)"

definition handleYoutubeIdChange :: "string \<Rightarrow> admin_editor \<Rightarrow> admin_editor" where
  "handleYoutubeIdChange val a =
    (let new = coalesce (video_id val) val;
         a' = (if new \<noteq> ae_youtubeId a
               then with_editor (\<lambda>e. fst (onTimeUpdate 0 e)) (a\<lparr>ae_player := None, ae_playerState := - 1\<rparr>) else a)
     in a'\<lparr>ae_youtubeId := new\<rparr>)"

text \<open>The part of \<open>handleSave\<close> before the request; \<open>None\<close> is the notice that the draft is not valid.\<close>

definition save_input :: "admin_editor \<Rightarrow> save_lyrics_input option" where
  "save_input a = saveAdminSongLyricsSchema
    \<lparr>sli_lyrics = ae_lyrics a, sli_youtubeId = ae_youtubeId a, sli_guideWrite = ae_guideWrite a\<rparr>"

definition handleSave :: "admin_editor \<Rightarrow> admin_editor" where
  "handleSave a =
    (if ae_saving a \<noteq> None then a
     else (case save_input a of
       None \<Rightarrow> a
     | Some input \<Rightarrow> a\<lparr>ae_saving := Some \<lparr>ps_lyrics = ae_lyrics a, ps_youtubeId = ae_youtubeId a, ps_input = input\<rparr>,
         ae_isSaving := True, ae_hasSaved := False\<rparr>))"

text \<open>The part after the request: the answer of the server, or an error.\<close>

definition save_finished :: "admin_editor \<Rightarrow> admin_editor" where
  "save_finished a = a\<lparr>ae_saving := None, ae_isSaving := False\<rparr>"

definition save_answered :: "failure + guide_write_version option \<Rightarrow> admin_editor \<Rightarrow> admin_editor" where
  "save_answered answer a =
    (case ae_saving a of
       None \<Rightarrow> a
     | Some p \<Rightarrow>
         (case answer of
            Inl _ \<Rightarrow> save_finished a
          | Inr version \<Rightarrow>
              let a1 = with_editor (markSaved (ps_lyrics p)) (a\<lparr>ae_guideWrite := version\<rparr>);
                  currentVideo = ae_youtubeId a1;
                  a2 = a1\<lparr>ae_youtubeId := ps_youtubeId p, ae_youtubeDefault := ps_youtubeId p\<rparr>;
                  a3 = (if currentVideo \<noteq> ps_youtubeId p then a2\<lparr>ae_youtubeId := currentVideo\<rparr> else a2)
              in save_finished (a3\<lparr>ae_hasSaved := True\<rparr>)))"

definition handleImportLrc :: "admin_editor \<Rightarrow> admin_editor" where
  "handleImportLrc a =
    (let parsed = parseLrc (ae_lrcInput a) in
     if parsed \<noteq> [] then (with_editor (importLyrics parsed) a)\<lparr>ae_isImportOpen := False, ae_lrcInput := []\<rparr> else a)"

text \<open>
  A selection in the document: the attributes \<open>data-line\<close> and \<open>data-seg\<close> of the elements at its two ends (an end
  may be missing), the offsets there, and the rectangle around it.
\<close>

record dom_selection =
  sel_isCollapsed :: bool
  sel_anchor :: "(string option \<times> string option) option"
  sel_focus :: "(string option \<times> string option) option"
  sel_anchorOffset :: nat
  sel_focusOffset :: nat
  sel_left :: jsnum
  sel_top :: jsnum
  sel_width :: jsnum

text \<open>\<open>parseInt\<close> of an attribute, which holds a numeral.\<close>

definition parse_index :: "string \<Rightarrow> nat option" where
  "parse_index s = (let ds = takeWhile is_digit s in if ds = [] then None else Some (digits_val ds))"

definition handleMouseUpText :: "dom_selection option \<Rightarrow> nat \<Rightarrow> admin_editor \<Rightarrow> admin_editor" where
  "handleMouseUpText selection lineIndex a =
    (case selection of
       None \<Rightarrow> a\<lparr>ae_toolbar := None\<rparr>
     | Some sel \<Rightarrow>
         if sel_isCollapsed sel then a\<lparr>ae_toolbar := None\<rparr>
         else (case sel_anchor sel of
           None \<Rightarrow> a
         | Some (lineIdx, segIdx) \<Rightarrow>
             if sel_focus sel \<noteq> Some (lineIdx, segIdx) then a\<lparr>ae_toolbar := None\<rparr>
             else (case (lineIdx, segIdx) of
               (Some l, Some k) \<Rightarrow>
                 (let start = min (sel_anchorOffset sel) (sel_focusOffset sel); stop = max (sel_anchorOffset sel) (sel_focusOffset sel) in
                  if l \<noteq> [] \<and> k \<noteq> [] \<and> parse_index l = Some lineIndex \<and> start \<noteq> stop
                  then a\<lparr>ae_toolbar := Some \<lparr>tb_show = True, tb_x = sel_left sel + sel_width sel / 2, tb_y = sel_top sel - 40,
                    tb_lineIndex = lineIndex, tb_segmentIndex = coalesce (parse_index k) 0, tb_startOffset = start, tb_endOffset = stop\<rparr>\<rparr>
                  else a)
             | _ \<Rightarrow> a)))"

text \<open>\<open>newSegments.splice(segmentIndex, 1, ...replacements)\<close>.\<close>

definition split_parts :: "bool \<Rightarrow> nat \<Rightarrow> nat \<Rightarrow> lyric_segment \<Rightarrow> lyric_segment list" where
  "split_parts echo startOffset endOffset seg =
    (let beforeText = take startOffset (seg_text seg);
         selectedText = drop startOffset (take endOffset (seg_text seg));
         afterText = drop endOffset (seg_text seg)
     in (if beforeText \<noteq> [] then [seg\<lparr>seg_text := beforeText\<rparr>] else []) @
        (if selectedText \<noteq> [] then [seg\<lparr>seg_text := selectedText, seg_isCheer := echo, seg_isEcho := echo\<rparr>] else []) @
        (if afterText \<noteq> [] then [seg\<lparr>seg_text := afterText\<rparr>] else []))"

definition with_segments :: "lyric_segment list \<Rightarrow> line_patch" where
  "with_segments segments = \<lparr>lp_startTime = None, lp_segments = Some (OtherSegments segments), lp_isExtra = None\<rparr>"

definition handleSplitSegment :: "bool \<Rightarrow> admin_editor \<Rightarrow> admin_editor" where
  "handleSplitSegment echo a =
    (case ae_toolbar a of
       None \<Rightarrow> a
     | Some tb \<Rightarrow>
         (case line_at (ae_lyrics a) (int (tb_lineIndex tb)) of
            None \<Rightarrow> a
          | Some line \<Rightarrow>
              if length (line_segments line) \<le> tb_segmentIndex tb then a
              else
                let seg = line_segments line ! tb_segmentIndex tb;
                    newSegments = take (tb_segmentIndex tb) (line_segments line) @
                      split_parts echo (tb_startOffset tb) (tb_endOffset tb) seg @
                      drop (Suc (tb_segmentIndex tb)) (line_segments line)
                in (with_editor (updateLine (int (tb_lineIndex tb)) (with_segments newSegments)) a)\<lparr>ae_toolbar := None\<rparr>))"

text \<open>
  Writing one segment of a line.  \<open>None\<close>: the index is not that of a segment, and the code would store
  a segment without text, which is outside the type.
\<close>

definition write_segment :: "int \<Rightarrow> nat \<Rightarrow> (lyric_line \<Rightarrow> lyric_segment \<Rightarrow> lyric_segment) \<Rightarrow> admin_editor \<Rightarrow> admin_editor option" where
  "write_segment lineIndex segmentIndex f a =
    (case line_at (ae_lyrics a) lineIndex of
       None \<Rightarrow> Some a
     | Some line \<Rightarrow>
         if length (line_segments line) \<le> segmentIndex then None
         else Some (with_editor (updateLine lineIndex
           (with_segments ((line_segments line)[segmentIndex := f line (line_segments line ! segmentIndex)]))) a))"

definition captureSegmentOffset :: "int \<Rightarrow> nat \<Rightarrow> admin_editor \<Rightarrow> admin_editor option" where
  "captureSegmentOffset lineIndex segmentIndex a =
    (if ae_player a = None \<or> isAdPlaying a then Some a
     else write_segment lineIndex segmentIndex (\<lambda>line s. s\<lparr>seg_startTimeOffset :=
       Some (max 0 (to_fixed2 (le_currentTime (ae_lyricsEditor a) - line_startTime line)))\<rparr>) a)"

record segment_update = segment_patch +
  su_startTimeOffset :: "jsnum option"

definition update_of :: "segment_update \<Rightarrow> lyric_segment \<Rightarrow> lyric_segment" where
  "update_of p s = s\<lparr>seg_text := coalesce (sp_text p) (seg_text s), seg_isCheer := coalesce (sp_isCheer p) (seg_isCheer s),
    seg_isEcho := coalesce (sp_isEcho p) (seg_isEcho s),
    seg_startTimeOffset := or_else (su_startTimeOffset p) (seg_startTimeOffset s)\<rparr>"

definition updateSegment :: "int \<Rightarrow> nat \<Rightarrow> segment_update \<Rightarrow> admin_editor \<Rightarrow> admin_editor option" where
  "updateSegment lineIndex segmentIndex partial a = write_segment lineIndex segmentIndex (\<lambda>_. update_of partial) a"

definition applyRowOffset :: "jsnum \<Rightarrow> admin_editor \<Rightarrow> admin_editor" where
  "applyRowOffset offsetSeconds a =
    (case line_at (ae_lyrics a) (int (le_currentIndex (ae_lyricsEditor a))) of
       None \<Rightarrow> a
     | Some line \<Rightarrow> with_editor (updateLine (int (le_currentIndex (ae_lyricsEditor a)))
         \<lparr>lp_startTime = Some (max 0 (to_fixed2 (line_startTime line + offsetSeconds))), lp_segments = None, lp_isExtra = None\<rparr>) a)"

definition admin_isDirty :: "admin_editor \<Rightarrow> bool" where
  "admin_isDirty a \<longleftrightarrow> isDirty (ae_lyricsEditor a) \<or> ae_youtubeId a \<noteq> ae_youtubeDefault a"


section \<open>All operations of the page\<close>

text \<open>Rendering the state of an operation runs the effect of the ad watcher.\<close>

definition rendered :: "admin_editor \<Rightarrow> admin_editor" where
  "rendered a = a\<lparr>ae_ads := ad_effect (ae_player a) (ae_youtubeId a) (ae_ads a)\<rparr>"

text \<open>The operations of \<open>useLyricsEditor\<close> that the page hands on as they are.\<close>

datatype direct_op =
    DirectUpdateLine int line_patch
  | DirectEditNote note_edit
  | DirectEditSelection selection_edit
  | DirectAddSegment int
  | DirectRemoveSegment int int
  | DirectDeleteLine int
  | DirectGlobalOffset jsnum
  | DirectUndo
  | DirectRedo
  | DirectSetIndex nat
  | DirectSetRecording bool
  | DirectSubscribe nat
  | DirectUnsubscribe nat

fun direct :: "direct_op \<Rightarrow> editor_op" where
  "direct (DirectUpdateLine i p) = UpdateLine i p"
| "direct (DirectEditNote x) = EditNote x"
| "direct (DirectEditSelection x) = EditSelection x"
| "direct (DirectAddSegment i) = AddSegmentToExtra i"
| "direct (DirectRemoveSegment i k) = RemoveSegmentFromExtra i k"
| "direct (DirectDeleteLine i) = DeleteLine i"
| "direct (DirectGlobalOffset d) = ApplyGlobalOffset d"
| "direct DirectUndo = Undo"
| "direct DirectRedo = Redo"
| "direct (DirectSetIndex i) = SetCurrentIndex i"
| "direct (DirectSetRecording b) = SetIsRecording b"
| "direct (DirectSubscribe l) = Subscribe l"
| "direct (DirectUnsubscribe l) = Unsubscribe l"

datatype admin_op =
    Direct direct_op
  | Capture int
  | AddExtra "int option"
  | PlayerTime jsnum
  | AdTick "string option" jsnum
  | SetVideo string
  | StartSave
  | ImportLrc
  | SetLrcInput string
  | SetImportOpen bool
  | SetToolbar "toolbar_state option"
  | MouseUpText "dom_selection option" nat
  | SplitSegment bool
  | CaptureOffset int nat
  | UpdateSegment int nat segment_update
  | RowOffset jsnum
  | SetPlayer "nat option"
  | SetPlayerState int

fun admin_do :: "admin_op \<Rightarrow> admin_editor \<Rightarrow> admin_editor option" where
  "admin_do (Direct op) a = Some (with_editor (editor_run (direct op)) a)"
| "admin_do (Capture i) a = Some (handleCaptureTime i a)"
| "admin_do (AddExtra i) a = Some (handleAddExtraLine i a)"
| "admin_do (PlayerTime t) a = Some (handleTimeUpdate t a)"
| "admin_do (AdTick currentId duration) a = Some (a\<lparr>ae_ads := checkAdStatus currentId duration (ae_ads a)\<rparr>)"
| "admin_do (SetVideo v) a = Some (handleYoutubeIdChange v a)"
| "admin_do StartSave a = Some (handleSave a)"
| "admin_do ImportLrc a = Some (handleImportLrc a)"
| "admin_do (SetLrcInput t) a = Some (a\<lparr>ae_lrcInput := t\<rparr>)"
| "admin_do (SetImportOpen b) a = Some (a\<lparr>ae_isImportOpen := b\<rparr>)"
| "admin_do (SetToolbar tb) a = Some (a\<lparr>ae_toolbar := tb\<rparr>)"
| "admin_do (MouseUpText sel i) a = Some (handleMouseUpText sel i a)"
| "admin_do (SplitSegment echo) a = Some (handleSplitSegment echo a)"
| "admin_do (CaptureOffset i k) a = captureSegmentOffset i k a"
| "admin_do (UpdateSegment i k p) a = updateSegment i k p a"
| "admin_do (RowOffset d) a = Some (applyRowOffset d a)"
| "admin_do (SetPlayer p) a = Some (a\<lparr>ae_player := p\<rparr>)"
| "admin_do (SetPlayerState p) a = Some (a\<lparr>ae_playerState := p\<rparr>)"

definition admin_run :: "admin_op \<Rightarrow> admin_editor \<Rightarrow> admin_editor option" where
  "admin_run op a = map_option rendered (admin_do op a)"

section \<open>The way of a save to the server\<close>

text \<open>
  \<open>PATCH /api/admin/songs/[id]/lyrics\<close>: the parameters and the body are parsed, the use case runs, and its
  result is parsed again on the way out (and once more, to the same effect, in the client).
\<close>

definition adminSongMutationResultSchema :: "eid \<times> guide_write_version option \<Rightarrow> failure + guide_write_version option" where
  "adminSongMutationResultSchema result =
    (case (entityIdSchema (fst result), snd result) of
       (None, _) \<Rightarrow> Inl (Error ''ZodError'')
     | (Some _, None) \<Rightarrow> Inr None
     | (Some _, Some v) \<Rightarrow> (case guideWriteVersionSchema v of None \<Rightarrow> Inl (Error ''ZodError'') | Some v' \<Rightarrow> Inr (Some v')))"

definition patchSongLyrics ::
  "eid \<Rightarrow> eid \<Rightarrow> instant \<Rightarrow> request_context \<Rightarrow> string \<Rightarrow> save_lyrics_input \<Rightarrow> db \<Rightarrow> (failure + guide_write_version option) \<times> db" where
  "patchSongLyrics nsnap npub now ctx i body s =
    (case (entityIdSchema i, saveAdminSongLyricsSchema body) of
       (Some song, Some input) \<Rightarrow>
         (case saveSongLyrics nsnap npub now ctx (song, input) s of
            (Inl e, s') \<Rightarrow> (Inl e, s')
          | (Inr result, s') \<Rightarrow> (adminSongMutationResultSchema result, s'))
     | _ \<Rightarrow> (Inl (Error ''ZodError''), s))"

text \<open>\<open>saveSongData\<close> of the song page, and of the page that edits the working copy of a guide.\<close>

definition songSaveData ::
  "bool \<Rightarrow> bool \<Rightarrow> eid \<Rightarrow> eid \<Rightarrow> instant \<Rightarrow> request_context \<Rightarrow> string \<Rightarrow> save_lyrics_input \<Rightarrow> db \<Rightarrow> (failure + guide_write_version option) \<times> db" where
  "songSaveData canManage requiresReauthentication nsnap npub now ctx i input s =
    (if \<not> canManage then (Inl (AppError (if requiresReauthentication then UNAUTHENTICATED else FORBIDDEN)), s)
     else patchSongLyrics nsnap npub now ctx i input s)"


text \<open>\<open>PATCH /api/admin/cheer-guides/[id]/draft\<close>.\<close>

definition patchGuideDraft ::
  "eid \<Rightarrow> instant \<Rightarrow> request_context \<Rightarrow> string \<Rightarrow> draft_input \<Rightarrow> db \<Rightarrow> (failure + guide_write_version) \<times> db" where
  "patchGuideDraft nsnap now ctx i body s =
    (case (entityIdSchema i, lyricsDataSchema (lyrics_json (dri_lyrics body))) of
       (Some guide, Some lyrics) \<Rightarrow>
         if dri_expectedLockVersion body = 0 then (Inl (Error ''ZodError''), s)
         else (case saveAdminCheerGuideDraft nsnap now ctx
             (guide, \<lparr>dri_expectedLockVersion = dri_expectedLockVersion body, dri_lyrics = lyrics\<rparr>) s of
            (Inl e, s') \<Rightarrow> (Inl e, s')
          | (Inr v, s') \<Rightarrow> (case guideWriteVersionSchema v of None \<Rightarrow> (Inl (Error ''ZodError''), s') | Some v' \<Rightarrow> (Inr v', s')))
     | _ \<Rightarrow> (Inl (Error ''ZodError''), s))"

definition draftSaveData ::
  "bool \<Rightarrow> bool \<Rightarrow> eid \<Rightarrow> eid \<Rightarrow> string \<Rightarrow> eid \<Rightarrow> instant \<Rightarrow> request_context \<Rightarrow> string \<Rightarrow> save_lyrics_input \<Rightarrow> db \<Rightarrow>
    (failure + guide_write_version option) \<times> db" where
  "draftSaveData canManage requiresReauthentication guideId songId referenceYoutubeId nsnap now ctx i input s =
    (if \<not> canManage then (Inl (AppError (if requiresReauthentication then UNAUTHENTICATED else FORBIDDEN)), s)
     else (case sli_guideWrite input of
       None \<Rightarrow> (Inl (AppError CHEER_GUIDE_CONFLICT), s)
     | Some v \<Rightarrow>
         if i \<noteq> songId \<or> gv_guideId v \<noteq> guideId \<or> sli_youtubeId input \<noteq> referenceYoutubeId
         then (Inl (AppError CHEER_GUIDE_CONFLICT), s)
         else (case patchGuideDraft nsnap now ctx guideId
             \<lparr>dri_expectedLockVersion = gv_lockVersion v, dri_lyrics = sli_lyrics input\<rparr> s of
            (Inl e, s') \<Rightarrow> (Inl e, s')
          | (Inr saved, s') \<Rightarrow> (Inr (Some saved), s'))))"

section \<open>What the operations leave alone\<close>

lemma lyricSegmentSchema_json_iff: "lyricSegmentSchema (segment_json s) = (if segment_ok s then Some s else None)"
proof (cases "segment_ok s")
  case False
  then have "seg_text s = []" by (simp add: segment_ok_def)
  then show ?thesis using False by (simp add: segment_json_def jprop_def split: option.splits)
qed (simp add: lyricSegmentSchema_json)

lemma those_None: "x \<in> set xs \<Longrightarrow> f x = None \<Longrightarrow> those (map f xs) = None"
  by (induction xs) (auto split: option.splits)

lemma lyricLineSchema_json_iff: "lyricLineSchema (line_json l) = (if line_ok l then Some l else None)"
proof (cases "line_ok l")
  case False
  then have "line_startTime l < 0 \<or> (\<exists>s \<in> set (line_segments l). \<not> segment_ok s)" by (auto simp: line_ok_def list_all_iff)
  then show ?thesis
  proof
    assume "\<exists>s \<in> set (line_segments l). \<not> segment_ok s"
    then have "those (map (lyricSegmentSchema \<circ> segment_json) (line_segments l)) = None"
      by (auto simp: lyricSegmentSchema_json_iff intro: those_None)
    then show ?thesis using False by (simp add: line_json_def jprop_def split: option.splits)
  qed (use False in \<open>simp add: line_json_def jprop_def split: option.splits\<close>)
qed (simp add: lyricLineSchema_json)

lemma lyricsDataSchema_json_iff: "lyricsDataSchema (lyrics_json l) = (if lyrics_ok l then Some l else None)"
proof (cases "lyrics_ok l")
  case False
  then obtain x where "x \<in> set l" "\<not> line_ok x" by (auto simp: lyrics_ok_def list_all_iff)
  then have "those (map (lyricLineSchema \<circ> line_json) l) = None" by (intro those_None) (auto simp: lyricLineSchema_json_iff)
  with False show ?thesis by (simp add: lyrics_json_def)
qed (simp add: lyricsDataSchema_json)


lemma commit_defaults [simp]: "le_defaults (commit l e) = le_defaults e"
  by (simp add: commit_def saveToHistory_def setLyrics_def Let_def)

lemma editor_run_defaults: "\<forall>l. op \<noteq> MarkSaved l \<Longrightarrow> le_defaults (editor_run op e) = le_defaults e"
  by (cases op)
    (simp_all add: updateLine_def captureTime_def addExtraLine_def deleteLine_def addSegmentToExtra_def removeSegmentFromExtra_def
      import_commit applyGlobalOffset_def editNote_def editSelection_def onTimeUpdate_def subscribeToTime_def unsubscribe_def
      undo_def redo_def setLyrics_def Let_def split: option.splits prod.splits)

lemmas editor_defaults [simp] =
  editor_run_defaults [of "UpdateLine i p" for i p, simplified]
  editor_run_defaults [of "CaptureTime i" for i, simplified]
  editor_run_defaults [of "AddExtraLine i" for i, simplified]
  editor_run_defaults [of "ImportLyrics l" for l, simplified]
  editor_run_defaults [of "TimeUpdate t" for t, simplified]

lemma direct_defaults [simp]: "le_defaults (editor_run (direct op) e) = le_defaults e"
  by (rule editor_run_defaults) (cases op; simp)

text \<open>What a save has acknowledged, and which song and version the page is about.\<close>

definition saved_state :: "admin_editor \<Rightarrow> eid \<times> guide_write_version option \<times> lyrics_data \<times> string" where
  "saved_state a = (ae_songId a, ae_guideWrite a, le_defaults (ae_lyricsEditor a), ae_youtubeDefault a)"

lemma saved_rendered [simp]: "saved_state (rendered a) = saved_state a" "ae_saving (rendered a) = ae_saving a"
  "ae_lyricsEditor (rendered a) = ae_lyricsEditor a" "ae_youtubeId (rendered a) = ae_youtubeId a"
  by (simp_all add: rendered_def saved_state_def)

lemma write_segment_keeps:
  "write_segment i k f a = Some a' \<Longrightarrow> saved_state a' = saved_state a \<and> ae_saving a' = ae_saving a"
  using editor_defaults(1) by (auto simp: write_segment_def with_editor_def saved_state_def split: option.splits if_splits)

lemma admin_do_keeps:
  assumes "admin_do op a = Some a'"
  shows "saved_state a' = saved_state a" and "op \<noteq> StartSave \<or> ae_saving a \<noteq> None \<Longrightarrow> ae_saving a' = ae_saving a"
proof -
  have "saved_state a' = saved_state a \<and> (op \<noteq> StartSave \<or> ae_saving a \<noteq> None \<longrightarrow> ae_saving a' = ae_saving a)"
  proof (cases op)
    case (CaptureOffset i k)
    with assms show ?thesis by (auto simp: captureSegmentOffset_def split: if_splits dest: write_segment_keeps)
  next
    case (UpdateSegment i k p)
    with assms show ?thesis by (auto simp: updateSegment_def dest: write_segment_keeps)
  next
    case (AddExtra i)
    then have "a' = a\<lparr>ae_lyricsEditor := snd (addExtraLine i (ae_lyricsEditor a)), ae_lastAddedTime := Some (fst (addExtraLine i (ae_lyricsEditor a)))\<rparr>"
      using assms by (auto simp: handleAddExtraLine_def split: prod.splits)
    then show ?thesis by (simp add: saved_state_def)
  next
    case (SplitSegment b)
    with assms show ?thesis by (auto simp: handleSplitSegment_def Let_def saved_state_def with_editor_def split: option.splits if_splits)
  next
    case StartSave
    with assms show ?thesis by (auto simp: handleSave_def saved_state_def split: option.splits)
  qed (use assms in \<open>auto simp: saved_state_def with_editor_def handleCaptureTime_def handleTimeUpdate_def handleYoutubeIdChange_def
        handleImportLrc_def applyRowOffset_def handleMouseUpText_def Let_def split: option.splits prod.splits\<close>)
  then show "saved_state a' = saved_state a" "op \<noteq> StartSave \<or> ae_saving a \<noteq> None \<Longrightarrow> ae_saving a' = ae_saving a" by blast+
qed

text \<open>An answer touches neither the draft nor its history: it only moves the mark of what is saved.\<close>

lemma save_answered_Inr:
  assumes "ae_saving a = Some p"
  shows "save_answered (Inr v) a = a\<lparr>ae_guideWrite := v, ae_lyricsEditor := (ae_lyricsEditor a)\<lparr>le_defaults := ps_lyrics p\<rparr>,
    ae_youtubeDefault := ps_youtubeId p, ae_hasSaved := True, ae_saving := None, ae_isSaving := False\<rparr>"
  by (simp add: save_answered_def assms with_editor_def mark_saved Let_def save_finished_def)

lemma save_answered_Inl: "ae_saving a = Some p \<Longrightarrow> save_answered (Inl e) a = a\<lparr>ae_saving := None, ae_isSaving := False\<rparr>"
  by (simp add: save_answered_def save_finished_def)


section \<open>The page and the server together\<close>

text \<open>
  One page and the database: the page works while a request is under way; the request is executed once or
  fails before it is executed; its answer comes back, or is lost on the way, which the page cannot tell from a
  failure (the \<open>catch\<close> of \<open>handleSave\<close>).  \<open>ss_lost\<close> records that the answer of an executed save was lost and that
  no save has been answered since.  Only this page writes the song (the other writers are what
  \<open>publish_no_lost_update\<close> is about).
\<close>

record save_system =
  ss_page :: admin_editor
  ss_db :: db
  ss_answer :: "(failure + guide_write_version option) option"
  ss_lost :: bool

inductive lone_step :: "save_system \<Rightarrow> save_system \<Rightarrow> bool" where
  worked: "admin_run op (ss_page x) = Some a \<Longrightarrow> lone_step x (x\<lparr>ss_page := a\<rparr>)"
| served: "ae_saving (ss_page x) = Some p \<Longrightarrow> ss_answer x = None \<Longrightarrow>
    nsnap \<notin> snap_id ` set (snapshots (ss_db x)) \<Longrightarrow> npub \<notin> pub_id ` set (publications (ss_db x)) \<Longrightarrow>
    (\<forall>u. ctx_user ctx = Some u \<longrightarrow> u \<in> account_ids (ss_db x)) \<Longrightarrow>
    patchSongLyrics nsnap npub now ctx (ae_songId (ss_page x)) (ps_input p) (ss_db x) = (answer, s') \<Longrightarrow>
    lone_step x (x\<lparr>ss_db := s', ss_answer := Some answer\<rparr>)"
| refused: "ae_saving (ss_page x) = Some p \<Longrightarrow> ss_answer x = None \<Longrightarrow> lone_step x (x\<lparr>ss_answer := Some (Inl e)\<rparr>)"
| lost: "ss_answer x = Some (Inr v) \<Longrightarrow> lone_step x (x\<lparr>ss_answer := Some (Inl e), ss_lost := True\<rparr>)"
| answered: "ss_answer x = Some answer \<Longrightarrow>
    lone_step x (x\<lparr>ss_page := rendered (save_answered answer (ss_page x)), ss_answer := None,
      ss_lost := (case answer of Inl _ \<Rightarrow> ss_lost x | Inr _ \<Rightarrow> False)\<rparr>)"

text \<open>A page just loaded from the database.\<close>

definition canonical_ids :: "db \<Rightarrow> eid \<Rightarrow> bool" where
  "canonical_ids s i \<longleftrightarrow> entityIdSchema i = Some i \<and>
    (\<forall>g. lockLegacyGuide s i = Some g \<longrightarrow> entityIdSchema (guide_id g) = Some (guide_id g) \<and> 0 < guide_lockVersion g)"

definition page_loaded :: "request_context \<Rightarrow> string \<Rightarrow> save_system \<Rightarrow> bool" where
  "page_loaded ctx slug x \<longleftrightarrow> guides_wf (ss_db x) \<and> songs_wf (ss_db x) \<and> ss_answer x = None \<and> \<not> ss_lost x \<and>
    (case getAdminSongEditorBySlug ctx slug (ss_db x) of
       (Inr (Some song), _) \<Rightarrow> canonical_ids (ss_db x) (sed_id song) \<and> ss_page x = rendered (useAdminEditor song)
     | _ \<Rightarrow> False)"

text \<open>The database holds these lyrics, this video and this version for the song.\<close>

definition holds_save :: "db \<Rightarrow> eid \<Rightarrow> guide_write_version option \<Rightarrow> lyrics_data \<Rightarrow> string \<Rightarrow> bool" where
  "holds_save s i version lyrics video \<longleftrightarrow> (\<exists>r. lookup song_id i (songs s) = Some r \<and>
    parseStoredLyrics (song_lyrics r) = Inr lyrics \<and> trim (coalesce (song_youtubeId r) []) = trim video \<and>
    guideVersion (lockLegacyGuide s i) = version)"

lemma entityId_nonempty: "entityIdSchema i = Some j \<Longrightarrow> i \<noteq> []"
  by (auto simp: entityIdSchema_def is_uuid_v7_def split: if_splits)

lemma guideVersion_canonical:
  "canonical_ids s i \<Longrightarrow> guideVersion (lockLegacyGuide s i) =
    map_option (\<lambda>g. \<lparr>gv_guideId = guide_id g, gv_lockVersion = guide_lockVersion g\<rparr>) (lockLegacyGuide s i)"
  by (auto simp: guideVersion_def canonical_ids_def dest: entityId_nonempty split: option.split)

lemma version_schema:
  "canonical_ids s i \<Longrightarrow> guideVersion (lockLegacyGuide s i) = Some v \<Longrightarrow> guideWriteVersionSchema v = Some v"
  by (auto simp: guideVersion_canonical canonical_ids_def guideWriteVersionSchema_def)

lemma legacy_guide_version:
  assumes "guides_wf s" and "lockLegacyGuide s i = Some g"
  shows "guide_version s (guide_id g) = Some (guide_lockVersion g)"
proof -
  have "distinct (map guide_id (guides s))" using assms(1) by (simp add: guides_wf_def guide_keys_def)
  moreover have "g \<in> set (guides s)" using lockLegacyGuide_SomeD [OF assms(2)] by simp
  ultimately have "lookup guide_id (guide_id g) (guides s) = Some g" by (simp add: lookup_Some_iff)
  then show ?thesis by (simp add: guide_version_def)
qed

text \<open>A save that succeeds answers with the version the database has afterwards.\<close>

lemma save_holds:
  assumes wf: "guides_wf s" and ids: "canonical_ids s i"
    and run: "saveSongLyrics nsnap npub now ctx (i, input) s = (Inr (j, v), s')"
    and valid: "lyrics_ok (sli_lyrics input)"
  shows "j = i \<and> canonical_ids s' i \<and> holds_save s' i v (sli_lyrics input) (sli_youtubeId input)"
  using run
proof (cases rule: saveSongLyrics_Inr)
  case (1 actor existing s1)
  have sid: "song_id existing = i" using lookup_SomeD [OF 1(3)] by simp
  have row: "lookup song_id i (songs s') = Some (lyrics_set now input existing)"
    using 1(3) by (simp add: 1(6) lookup_update_key)
  have lyrics: "parseStoredLyrics (Some (lyrics_json (sli_lyrics input))) = Inr (sli_lyrics input)"
    using valid by (simp add: parseStoredLyrics_def lyricsDataSchema_json)
  show ?thesis
  proof (cases "lockLegacyGuide s i")
    case None
    from 1(5) have "s1 = s \<and> v = None"
      using None sid by (cases rule: writeLegacyGuide_Inr) simp_all
    then have "lockLegacyGuide s' i = None" "v = None" using None by (simp_all add: 1(6) lockLegacyGuide_def)
    with ids row lyrics 1(4) show ?thesis by (simp add: holds_save_def canonical_ids_def guideVersion_def)
  next
    case (Some g)
    obtain g' where g': "lockLegacyGuide s' i = Some g'" "guide_id g' = guide_id g" "guide_lockVersion g' = Suc (guide_lockVersion g)"
      using save_guide_after [OF wf Some run] by blast
    have "v = Some \<lparr>gv_guideId = guide_id g, gv_lockVersion = Suc (guide_lockVersion g)\<rparr>"
      using 1(5)
    proof (cases rule: writeLegacyGuide_Inr)
      case (published guide lyrics sn w s2)
      then have [simp]: "guide = g" using Some sid by simp
      have "guide_keys s" using wf by (simp add: guides_wf_def)
      then have "w = Suc (guide_lockVersion g)"
        using claim_result [of s "guide_id g" "guide_lockVersion g" now] published(9) legacy_guide_version [OF wf Some] by simp
      then show ?thesis using published(10) by simp
    qed (use Some sid in simp)
    moreover have "canonical_ids s' i" using ids g' Some by (simp add: canonical_ids_def)
    ultimately show ?thesis
      using guideVersion_canonical [of s' i] g' row lyrics 1(4) by (simp add: holds_save_def)
  qed
qed

text \<open>The version conflict means that the version sent is not the current one.\<close>

lemma save_conflict:
  assumes wf: "guides_wf s" and ids: "canonical_ids s i"
    and run: "saveSongLyrics nsnap npub now ctx (i, input) s = (Inl (AppError CHEER_GUIDE_CONFLICT), s')"
  shows "sli_guideWrite input \<noteq> guideVersion (lockLegacyGuide s i)"
proof
  assume sent: "sli_guideWrite input = guideVersion (lockLegacyGuide s i)"
  have keys: "guide_keys s" using wf by (simp add: guides_wf_def)
  have "fst (writeLegacyGuide nsnap npub now existing actor changes (guideVersion (lockLegacyGuide s i)) s) \<noteq> Inl (AppError CHEER_GUIDE_CONFLICT)"
    if sid: "song_id existing = i" for existing actor changes
  proof (cases "lockLegacyGuide s i")
    case None
    then show ?thesis by (simp add: writeLegacyGuide_def sid guideVersion_def)
  next
    case (Some g)
    obtain s1 where "claimGuideVersion s (guide_id g) (guide_lockVersion g) now = (Some (Suc (guide_lockVersion g)), s1)"
      using claim_result [OF keys, of "guide_id g" "guide_lockVersion g" now] legacy_guide_version [OF wf Some]
      by (cases "claimGuideVersion s (guide_id g) (guide_lockVersion g) now") simp
    moreover have "guideVersion (Some g) = Some \<lparr>gv_guideId = guide_id g, gv_lockVersion = guide_lockVersion g\<rparr>"
      using guideVersion_canonical [OF ids] by (simp add: Some)
    ultimately show ?thesis by (auto simp: writeLegacyGuide_def sid Some split: option.split)
  qed
  then have never: "song_id existing = i \<Longrightarrow>
      fst (writeLegacyGuide nsnap npub now existing actor changes (guideVersion (lockLegacyGuide s i)) s) \<noteq> Inl (AppError CHEER_GUIDE_CONFLICT)"
    for existing actor changes .
  have "\<exists>existing actor. lookup song_id i (songs s) = Some existing \<and> fst (writeLegacyGuide nsnap npub now existing actor
      \<lparr>chg_lyrics = Some (sli_lyrics input), chg_youtubeId = sli_youtubeId input, chg_hasOfficialCheer = None\<rparr>
      (guideVersion (lockLegacyGuide s i)) s) = Inl (AppError CHEER_GUIDE_CONFLICT)"
    using run
    by (auto simp: saveSongLyrics_def as_admin_def requireAdmin_def requireUser_def transaction_def lockSongForGuideWrite_def or_throw_def
        and_then_def updateSong_def sent split: option.splits sum.splits prod.splits if_splits) (metis fst_conv)
  then obtain existing actor where e: "lookup song_id i (songs s) = Some existing"
    and c: "fst (writeLegacyGuide nsnap npub now existing actor
      \<lparr>chg_lyrics = Some (sli_lyrics input), chg_youtubeId = sli_youtubeId input, chg_hasOfficialCheer = None\<rparr>
      (guideVersion (lockLegacyGuide s i)) s) = Inl (AppError CHEER_GUIDE_CONFLICT)" by blast
  have "song_id existing = i" using lookup_SomeD [OF e] by simp
  from never [OF this] c show False by simp
qed


lemma schema_output:
  assumes "saveAdminSongLyricsSchema input = Some out"
  shows "lyrics_ok (sli_lyrics input)" and "sli_lyrics out = sli_lyrics input" and "sli_youtubeId out = trim (sli_youtubeId input)"
    and "sli_guideWrite out = Option.bind (sli_guideWrite input) guideWriteVersionSchema"
    and "sli_guideWrite out = sli_guideWrite input \<Longrightarrow> saveAdminSongLyricsSchema out = Some out"
  using assms by (auto simp: saveAdminSongLyricsSchema_def lyricsDataSchema_json_iff split: option.splits if_splits)

text \<open>What holds of page and database between the steps.\<close>

definition pending_ok :: "admin_editor \<Rightarrow> bool" where
  "pending_ok a \<longleftrightarrow> (\<forall>p. ae_saving a = Some p \<longrightarrow> saveAdminSongLyricsSchema
    \<lparr>sli_lyrics = ps_lyrics p, sli_youtubeId = ps_youtubeId p, sli_guideWrite = ae_guideWrite a\<rparr> = Some (ps_input p))"

definition stored_ok :: "save_system \<Rightarrow> bool" where
  "stored_ok x \<longleftrightarrow> (case ss_answer x of
     Some (Inr v) \<Rightarrow> \<forall>p. ae_saving (ss_page x) = Some p \<longrightarrow> holds_save (ss_db x) (ae_songId (ss_page x)) v (ps_lyrics p) (ps_youtubeId p)
   | _ \<Rightarrow> ss_lost x \<or> (case saved_state (ss_page x) of (i, v, lyrics, video) \<Rightarrow> holds_save (ss_db x) i v lyrics video))"

text \<open>The version that the page sends has the format the contract asks for.\<close>

definition version_parsed :: "guide_write_version option \<Rightarrow> bool" where
  "version_parsed v \<longleftrightarrow> Option.bind v guideWriteVersionSchema = v"

definition answer_parsed :: "save_system \<Rightarrow> bool" where
  "answer_parsed x \<longleftrightarrow> (case ss_answer x of Some (Inr v) \<Rightarrow> version_parsed v | _ \<Rightarrow> True)"

lemma version_parsed_guide: "canonical_ids s i \<Longrightarrow> version_parsed (guideVersion (lockLegacyGuide s i))"
  using version_schema [of s i] by (cases "guideVersion (lockLegacyGuide s i)") (simp_all add: version_parsed_def)

definition lone_ok :: "save_system \<Rightarrow> bool" where
  "lone_ok x \<longleftrightarrow> guides_wf (ss_db x) \<and> songs_wf (ss_db x) \<and> canonical_ids (ss_db x) (ae_songId (ss_page x)) \<and>
    (ss_answer x \<noteq> None \<longrightarrow> ae_saving (ss_page x) \<noteq> None) \<and> pending_ok (ss_page x) \<and> stored_ok x \<and>
    version_parsed (ae_guideWrite (ss_page x)) \<and> answer_parsed x"

lemma holds_save_trim: "holds_save s i v l (trim y) = holds_save s i v l y"
  by (simp add: holds_save_def)

lemma loaded_ok:
  assumes "page_loaded ctx slug x"
  shows "lone_ok x"
proof -
  obtain song s where g: "getAdminSongEditorBySlug ctx slug (ss_db x) = (Inr (Some song), s)"
    and ids: "canonical_ids (ss_db x) (sed_id song)" and page: "ss_page x = rendered (useAdminEditor song)"
    using assms by (auto simp: page_loaded_def split: prod.splits sum.splits option.splits)
  obtain row where row: "find (\<lambda>r. song_slug r = Some slug) (songs (ss_db x)) = Some row"
    and song: "sed_id song = song_id row" "sed_youtubeId song = coalesce (song_youtubeId row) []"
      "parseStoredLyrics (song_lyrics row) = Inr (sed_lyrics song)" "sed_guideWrite song = guideVersion (lockLegacyGuide (ss_db x) (song_id row))"
    using g by (cases "parseStoredLyrics (song_lyrics (the (find (\<lambda>r. song_slug r = Some slug) (songs (ss_db x)))))")
      (auto simp: getAdminSongEditorBySlug_def as_admin_def split: sum.splits option.splits)
  have "row \<in> set (songs (ss_db x))" using row by (auto dest: find_SomeD)
  moreover have "distinct (map song_id (songs (ss_db x)))" using assms by (simp add: page_loaded_def songs_wf_def)
  ultimately have "lookup song_id (song_id row) (songs (ss_db x)) = Some row" by (simp add: lookup_Some_iff)
  then have "holds_save (ss_db x) (sed_id song) (sed_guideWrite song) (sed_lyrics song) (sed_youtubeId song)"
    using song by (simp add: holds_save_def)
  moreover have "version_parsed (sed_guideWrite song)"
    using version_parsed_guide [OF ids] by (simp add: song)
  ultimately show ?thesis
    using assms ids
    by (simp add: lone_ok_def page_loaded_def page pending_ok_def stored_ok_def answer_parsed_def)
      (simp add: rendered_def useAdminEditor_def saved_state_def useLyricsEditor_def)
qed

lemma worked_ok:
  assumes "lone_ok x" and "admin_run op (ss_page x) = Some a"
  shows "lone_ok (x\<lparr>ss_page := a\<rparr>)"
proof -
  obtain a0 where a0: "admin_do op (ss_page x) = Some a0" "a = rendered a0" using assms(2) by (auto simp: admin_run_def)
  note keeps = admin_do_keeps [OF a0(1)]
  have state: "saved_state a = saved_state (ss_page x)" "ae_saving a = ae_saving a0" by (simp_all add: a0(2) keeps(1))
  have fields: "ae_songId a = ae_songId (ss_page x)" "ae_guideWrite a = ae_guideWrite (ss_page x)" using state(1) by (simp_all add: saved_state_def)
  show ?thesis
  proof (cases "op \<noteq> StartSave \<or> ae_saving (ss_page x) \<noteq> None")
    case True
    then have "ae_saving a = ae_saving (ss_page x)" using keeps(2) state(2) by simp
    then show ?thesis using assms(1) state fields by (simp add: lone_ok_def pending_ok_def stored_ok_def answer_parsed_def cong: option.case_cong sum.case_cong)
  next
    case False
    then have start: "a0 = handleSave (ss_page x)" and none: "ae_saving (ss_page x) = None" using a0(1) by simp_all
    have "ss_answer x = None" using assms(1) none by (auto simp: lone_ok_def)
    moreover have "pending_ok a"
      using none fields by (auto simp: pending_ok_def state(2) start handleSave_def save_input_def split: option.splits)
    ultimately show ?thesis using assms(1) state fields by (simp add: lone_ok_def stored_ok_def answer_parsed_def)
  qed
qed

lemma served_ok:
  assumes ok: "lone_ok x" and p: "ae_saving (ss_page x) = Some p" and none: "ss_answer x = None"
    and fresh: "nsnap \<notin> snap_id ` set (snapshots (ss_db x))" "npub \<notin> pub_id ` set (publications (ss_db x))"
    and actor: "\<forall>u. ctx_user ctx = Some u \<longrightarrow> u \<in> account_ids (ss_db x)"
    and run: "patchSongLyrics nsnap npub now ctx (ae_songId (ss_page x)) (ps_input p) (ss_db x) = (answer, s')"
  shows "lone_ok (x\<lparr>ss_db := s', ss_answer := Some answer\<rparr>)"
proof -
  let ?i = "ae_songId (ss_page x)" and ?s = "ss_db x"
  have wf: "guides_wf ?s" "songs_wf ?s" and ids: "canonical_ids ?s ?i" using ok by (simp_all add: lone_ok_def)
  have parsed: "saveAdminSongLyricsSchema \<lparr>sli_lyrics = ps_lyrics p, sli_youtubeId = ps_youtubeId p, sli_guideWrite = ae_guideWrite (ss_page x)\<rparr> = Some (ps_input p)"
    using ok p by (simp add: lone_ok_def pending_ok_def)
  have "Option.bind (ae_guideWrite (ss_page x)) guideWriteVersionSchema = ae_guideWrite (ss_page x)"
    using ok by (simp add: lone_ok_def version_parsed_def)
  then have "sli_guideWrite (ps_input p) = ae_guideWrite (ss_page x)" using schema_output(4) [OF parsed] by simp
  then have again: "saveAdminSongLyricsSchema (ps_input p) = Some (ps_input p)" using schema_output(5) [OF parsed] by simp
  note sent = schema_output(1-3) [OF parsed, simplified]
  obtain result s1 where save: "saveSongLyrics nsnap npub now ctx (?i, ps_input p) ?s = (result, s1)" by force
  show ?thesis
  proof (cases result)
    case (Inl e)
    then have "s1 = ?s" using save save_lyrics.rollback by blast
    moreover have "answer = Inl e" "s' = s1" using run ids again save Inl by (simp_all add: patchSongLyrics_def canonical_ids_def)
    ultimately show ?thesis using ok p none by (simp add: lone_ok_def stored_ok_def answer_parsed_def)
  next
    case (Inr jv)
    obtain j v where jv: "jv = (j, v)" by (cases jv)
    have valid: "lyrics_ok (sli_lyrics (ps_input p))" using sent by simp
    from save_holds [OF wf(1) ids save [unfolded Inr jv] valid] have held: "j = ?i" "canonical_ids s1 ?i"
      "holds_save s1 ?i v (ps_lyrics p) (ps_youtubeId p)" by (simp_all add: sent holds_save_trim)
    have "guideVersion (lockLegacyGuide s1 ?i) = v" using held(3) by (auto simp: holds_save_def)
    then have "adminSongMutationResultSchema (?i, v) = Inr v"
      using version_schema [OF held(2)] ids by (cases v) (simp_all add: adminSongMutationResultSchema_def canonical_ids_def)
    then have "answer = Inr v" "s' = s1"
      using run ids again save Inr jv held(1) by (simp_all add: patchSongLyrics_def canonical_ids_def)
    moreover have "guides_wf s1 \<and> songs_wf s1"
      using saveSongLyrics_wf [OF wf _ fresh save [unfolded Inr jv]] actor by blast
    moreover have "version_parsed v"
      using version_parsed_guide [OF held(2)] \<open>guideVersion (lockLegacyGuide s1 ?i) = v\<close> by simp
    ultimately show ?thesis using ok p held by (simp add: lone_ok_def stored_ok_def answer_parsed_def)
  qed
qed

lemma answered_ok:
  assumes ok: "lone_ok x" and answer: "ss_answer x = Some answer"
  shows "lone_ok (x\<lparr>ss_page := rendered (save_answered answer (ss_page x)), ss_answer := None,
    ss_lost := (case answer of Inl _ \<Rightarrow> ss_lost x | Inr _ \<Rightarrow> False)\<rparr>)"
proof -
  obtain p where p: "ae_saving (ss_page x) = Some p" using ok answer by (auto simp: lone_ok_def)
  show ?thesis
  proof (cases answer)
    case (Inl e)
    with ok answer p show ?thesis
      by (simp add: lone_ok_def pending_ok_def stored_ok_def answer_parsed_def save_answered_Inl) (simp add: rendered_def saved_state_def)
  next
    case (Inr v)
    with ok answer p show ?thesis
      by (simp add: lone_ok_def pending_ok_def stored_ok_def answer_parsed_def save_answered_Inr) (simp add: rendered_def saved_state_def)
  qed
qed

lemma lone_step_ok: "lone_step x y \<Longrightarrow> lone_ok x \<Longrightarrow> lone_ok y"
proof (induction rule: lone_step.induct)
  case (refused x p e)
  then show ?case by (simp add: lone_ok_def stored_ok_def answer_parsed_def)
next
  case (lost x v e)
  then show ?case by (simp add: lone_ok_def stored_ok_def answer_parsed_def)
qed (use worked_ok served_ok answered_ok in blast)+

lemma lone_reach_ok: "lone_step\<^sup>*\<^sup>* x y \<Longrightarrow> lone_ok x \<Longrightarrow> lone_ok y"
  by (induction rule: rtranclp_induct) (auto dest: lone_step_ok)


definition stored_as :: "save_system \<Rightarrow> lyrics_data \<Rightarrow> string \<Rightarrow> bool" where
  "stored_as x lyrics video \<longleftrightarrow> (\<exists>r. lookup song_id (ae_songId (ss_page x)) (songs (ss_db x)) = Some r \<and>
    parseStoredLyrics (song_lyrics r) = Inr lyrics \<and> trim (coalesce (song_youtubeId r) []) = trim video)"

text \<open>C4.
  For every state reached from a loaded page by any interleaving of work on the page - also while a save is
  under way - with saves that succeed or fail, provided that the last executed save is not one whose answer was
  lost on the way: when no executed save is waiting for its answer, a page that shows no unsaved changes shows
  exactly what the database holds, its lyrics and its video (up to white space around it), so work done
  during a save is never marked as saved; and between the execution of a save and its answer the page is
  saving and the database holds what that save sent.\<close>

theorem clean_page_is_stored:
  assumes "page_loaded ctx slug x" and "lone_step\<^sup>*\<^sup>* x y" and "\<not> ss_lost y"
  shows "case ss_answer y of
      Some (Inr _) \<Rightarrow> (\<exists>p. ae_saving (ss_page y) = Some p \<and> stored_as y (ps_lyrics p) (ps_youtubeId p))
    | _ \<Rightarrow> admin_isDirty (ss_page y) \<or> stored_as y (ae_lyrics (ss_page y)) (ae_youtubeId (ss_page y))"
proof -
  have ok: "stored_ok y" "ss_answer y \<noteq> None \<longrightarrow> ae_saving (ss_page y) \<noteq> None"
    using lone_reach_ok [OF assms(2) loaded_ok [OF assms(1)]] by (simp_all add: lone_ok_def)
  have clean: "le_defaults (ae_lyricsEditor (ss_page y)) = ae_lyrics (ss_page y) \<and> ae_youtubeDefault (ss_page y) = ae_youtubeId (ss_page y)"
    if "\<not> admin_isDirty (ss_page y)"
    using that by (simp add: admin_isDirty_def isDirty_def)
  show ?thesis
    using ok clean assms(3)
    by (cases "admin_isDirty (ss_page y)") (auto simp: stored_ok_def saved_state_def holds_save_def stored_as_def split: option.split sum.split)
qed

text \<open>C5.
  An editor who works alone does not meet the version conflict, unless the answer of the save executed last was
  lost on the way: whatever was saved before in the session, the version that the next save sends is the
  one the database has, so the optimistic lock can only refuse when someone else wrote the song or when
  the page was not told of its own last save.\<close>

theorem lone_editor_no_conflict:
  assumes "page_loaded ctx slug x" and "lone_step\<^sup>*\<^sup>* x y" and "\<not> ss_lost y"
    and "ae_saving (ss_page y) = Some p" and "ss_answer y = None"
  shows "fst (patchSongLyrics nsnap npub now ctx' (ae_songId (ss_page y)) (ps_input p) (ss_db y)) \<noteq> Inl (AppError CHEER_GUIDE_CONFLICT)"
proof
  let ?i = "ae_songId (ss_page y)"
  assume conflict: "fst (patchSongLyrics nsnap npub now ctx' ?i (ps_input p) (ss_db y)) = Inl (AppError CHEER_GUIDE_CONFLICT)"
  have ok: "lone_ok y" by (rule lone_reach_ok [OF assms(2) loaded_ok [OF assms(1)]])
  then have wf: "guides_wf (ss_db y)" and ids: "canonical_ids (ss_db y) ?i" by (simp_all add: lone_ok_def)
  have version: "ae_guideWrite (ss_page y) = guideVersion (lockLegacyGuide (ss_db y) ?i)"
    using ok assms(3,5) by (auto simp: lone_ok_def stored_ok_def saved_state_def holds_save_def)
  have parsed: "saveAdminSongLyricsSchema \<lparr>sli_lyrics = ps_lyrics p, sli_youtubeId = ps_youtubeId p, sli_guideWrite = ae_guideWrite (ss_page y)\<rparr> = Some (ps_input p)"
    using ok assms(4) by (simp add: lone_ok_def pending_ok_def)
  have "Option.bind (ae_guideWrite (ss_page y)) guideWriteVersionSchema = ae_guideWrite (ss_page y)"
    using version_schema [OF ids] unfolding version by (cases "guideVersion (lockLegacyGuide (ss_db y) ?i)") simp_all
  then have sent: "sli_guideWrite (ps_input p) = guideVersion (lockLegacyGuide (ss_db y) ?i)"
    using schema_output(4) [OF parsed] version by simp
  then have "saveAdminSongLyricsSchema (ps_input p) = Some (ps_input p)" using schema_output(5) [OF parsed] version by simp
  then obtain s' where "saveSongLyrics nsnap npub now ctx' (?i, ps_input p) (ss_db y) = (Inl (AppError CHEER_GUIDE_CONFLICT), s')"
    using conflict ids
    by (auto simp: patchSongLyrics_def canonical_ids_def adminSongMutationResultSchema_def split: prod.splits sum.splits option.splits)
  from save_conflict [OF wf ids this] sent show False by simp
qed

section \<open>Splitting a segment\<close>

text \<open>The characters of segments, each with the flags and the offset it has.\<close>

definition marked_chars :: "lyric_segment list \<Rightarrow> (char \<times> bool \<times> bool \<times> jsnum option) list" where
  "marked_chars ss = concat (map (\<lambda>s. map (\<lambda>c. (c, seg_isCheer s, seg_isEcho s, seg_startTimeOffset s)) (seg_text s)) ss)"

lemma marked_chars_simps [simp]:
  "marked_chars [] = []" "marked_chars (xs @ ys) = marked_chars xs @ marked_chars ys"
  "marked_chars [s] = map (\<lambda>c. (c, seg_isCheer s, seg_isEcho s, seg_startTimeOffset s)) (seg_text s)"
  by (simp_all add: marked_chars_def)

lemma split_parts_chars:
  "marked_chars (split_parts echo start stop s) =
    take start (marked_chars [s]) @ map (\<lambda>(c, _, _, offset). (c, echo, echo, offset)) (drop start (take stop (marked_chars [s]))) @
    drop stop (marked_chars [s])"
  by (simp add: split_parts_def Let_def take_map drop_map comp_def)

lemma split_parts_ok: "list_all segment_ok (split_parts echo start stop s)"
  by (simp add: split_parts_def Let_def segment_ok_def)

text \<open>C29.
  Marking a part of a segment as echo (or clearing the mark) changes nothing but the flags of exactly the
  selected characters: the text of the line, every other character's flags and offset, and all other lines
  stay as they are, and no empty segment appears that the contract would refuse.\<close>

theorem split_exact:
  assumes "ae_toolbar a = Some tb" and "tb_lineIndex tb < length (ae_lyrics a)"
    and "tb_segmentIndex tb < length (line_segments (ae_lyrics a ! tb_lineIndex tb))" and "tb_startOffset tb \<le> tb_endOffset tb"
  shows "let line = ae_lyrics a ! tb_lineIndex tb; chars = marked_chars [line_segments line ! tb_segmentIndex tb] in
    \<exists>ss. ae_lyrics (handleSplitSegment echo a) = (ae_lyrics a)[tb_lineIndex tb := line\<lparr>line_segments := ss\<rparr>] \<and>
      map fst (marked_chars ss) = map fst (marked_chars (line_segments line)) \<and>
      marked_chars ss = marked_chars (take (tb_segmentIndex tb) (line_segments line)) @
        take (tb_startOffset tb) chars @
        map (\<lambda>(c, _, _, offset). (c, echo, echo, offset)) (drop (tb_startOffset tb) (take (tb_endOffset tb) chars)) @
        drop (tb_endOffset tb) chars @ marked_chars (drop (Suc (tb_segmentIndex tb)) (line_segments line)) \<and>
      (list_all segment_ok (line_segments line) \<longrightarrow> list_all segment_ok ss)"
proof -
  let ?k = "tb_segmentIndex tb" and ?from = "tb_startOffset tb" and ?to = "tb_endOffset tb"
  define line where "line = ae_lyrics a ! tb_lineIndex tb"
  define chars where "chars = marked_chars [line_segments line ! ?k]"
  define ss where "ss = take ?k (line_segments line) @ split_parts echo ?from ?to (line_segments line ! ?k) @ drop (Suc ?k) (line_segments line)"
  have at: "line_at (ae_lyrics a) (int (tb_lineIndex tb)) = Some line" using assms(2) by (simp add: line_at_def line_def)
  have k: "?k < length (line_segments line)" using assms(3) by (simp add: line_def)
  have run: "ae_lyrics (handleSplitSegment echo a) = (ae_lyrics a)[tb_lineIndex tb := line\<lparr>line_segments := ss\<rparr>]"
    using assms(1) at k
    by (simp add: handleSplitSegment_def Let_def with_editor_def updateLine_def with_segments_def same_entries_def patch_line_def
        flip: ss_def)
  have ok: "list_all segment_ok (line_segments line) \<longrightarrow> list_all segment_ok ss"
    using split_parts_ok by (auto simp: ss_def list_all_iff dest: in_set_takeD in_set_dropD)
  have marked: "marked_chars ss = marked_chars (take ?k (line_segments line)) @ take ?from chars @
      map (\<lambda>(c, _, _, offset). (c, echo, echo, offset)) (drop ?from (take ?to chars)) @ drop ?to chars @ marked_chars (drop (Suc ?k) (line_segments line))"
    by (simp add: ss_def split_parts_chars chars_def)
  have keeps: "map fst (map (\<lambda>(c, _, _, offset). (c, echo, echo, offset)) xs) = map fst xs" for xs :: "(char \<times> bool \<times> bool \<times> jsnum option) list"
    by (induction xs) auto
  have "take ?from chars @ drop ?from (take ?to chars) @ drop ?to chars = chars"
    using assms(4) append_take_drop_id [of ?from "take ?to chars"] by (metis append_assoc append_take_drop_id min_def take_take)
  then have "map fst (take ?from chars) @ map fst (drop ?from (take ?to chars)) @ map fst (drop ?to chars) = map fst chars"
    by (simp only: map_append [symmetric])
  moreover have "marked_chars (line_segments line) = marked_chars (take ?k (line_segments line)) @ chars @ marked_chars (drop (Suc ?k) (line_segments line))"
    unfolding chars_def marked_chars_simps(2) [symmetric] using id_take_nth_drop [OF k] by simp
  ultimately have "map fst (marked_chars ss) = map fst (marked_chars (line_segments line))"
    unfolding marked map_append keeps by (simp flip: append_assoc)
  with run marked ok show ?thesis unfolding Let_def line_def [symmetric] chars_def [symmetric] by blast
qed


section \<open>Witnesses\<close>

definition page_song :: eid where
  "page_song = ''0190a2c4-7b1e-7c3d-9f00-00000000000a''"

text \<open>The sample database, in which the song without a guide has an id of the format the contract asks for.\<close>

definition page_db :: db where
  "page_db = demo_db\<lparr>songs := [demo_song ''so1'', (demo_song ''so2'')\<lparr>song_id := page_song\<rparr>]\<rparr>"

definition page_editor :: song_editor where
  "page_editor = \<lparr>sed_id = page_song, sed_title = ''T'', sed_albumName = ''First'', sed_youtubeId = ''dQw4w9WgXcQ'',
    sed_lyrics = demo_lyrics, sed_guideWrite = None\<rparr>"

definition page0 :: admin_editor where
  "page0 = rendered (useAdminEditor page_editor)"

lemma page_tables [simp]:
  "guides page_db = [demo_guide]" "snapshots page_db = [demo_snapshot]" "publications page_db = [demo_publication]"
  "albums page_db = [demo_album]" "songs page_db = [demo_song ''so1'', (demo_song ''so2'')\<lparr>song_id := page_song\<rparr>]"
  "accounts page_db = accounts demo_db"
  by (simp_all add: page_db_def)

lemma page_wf: "guides_wf page_db"
proof -
  have same: "snapshot_numbers page_db = snapshot_numbers demo_db" "publication_numbers page_db = publication_numbers demo_db"
    "snapshot_keys page_db = snapshot_keys demo_db" "publication_keys page_db = publication_keys demo_db" "account_ids page_db = account_ids demo_db"
    by (simp_all add: snapshot_numbers_def publication_numbers_def snapshot_keys_def publication_keys_def account_ids_def fun_eq_iff)
  have "guide_histories page_db" using demo_wf by (simp add: guides_wf_def guide_histories_def same)
  moreover have "guide_keys page_db" using demo_wf by (simp add: guides_wf_def guide_keys_def)
  moreover have "guide_checks page_db" using demo_wf by (simp add: guides_wf_def guide_checks_def)
  moreover have "guide_links page_db"
    using demo_wf by (simp add: guides_wf_def guide_links_def guide_row_links_def snapshot_row_links_def publication_row_links_def pointer_ok_def same demo_song_def split: option.splits)
  ultimately show ?thesis by (simp add: guides_wf_def)
qed

lemma page_songs_wf: "songs_wf page_db"
  by (simp add: songs_wf_def slugs_unique_def page_song_def demo_song_def demo_album_def)

lemma page_canonical: "canonical_ids page_db page_song"
proof -
  have "entityIdSchema page_song = Some page_song" by code_simp
  then show ?thesis by (simp add: canonical_ids_def lockLegacyGuide_def demo_guide_def page_song_def)
qed

definition page_start :: save_system where
  "page_start = \<lparr>ss_page = page0, ss_db = page_db, ss_answer = None, ss_lost = False\<rparr>"

lemma page_start_loaded: "page_loaded admin_ctx ''so2'' page_start"
proof -
  have "getAdminSongEditorBySlug admin_ctx ''so2'' page_db = (Inr (Some page_editor), page_db)"
    by (simp add: getAdminSongEditorBySlug_def as_admin_admin parseStoredLyrics_def page_editor_def lockLegacyGuide_def guideVersion_def)
      (simp add: demo_rows lookup_def parseStoredLyrics_def page_song_def)
  then show ?thesis
    using page_wf page_songs_wf page_canonical by (simp add: page_loaded_def page_start_def page0_def) (simp add: page_editor_def)
qed


definition page_op :: admin_op where
  "page_op = Direct (DirectEditNote (TextNote ''line:0'' ''do''))"

definition page1 :: admin_editor where
  "page1 = page0\<lparr>ae_lyricsEditor := (ae_lyricsEditor page0)\<lparr>le_lyrics := [demo_line ''do''], le_history := [demo_lyrics, [demo_line ''do'']],
    le_historyIndex := 1\<rparr>\<rparr>"

definition page_input :: save_lyrics_input where
  "page_input = \<lparr>sli_lyrics = [demo_line ''do''], sli_youtubeId = ''dQw4w9WgXcQ'', sli_guideWrite = None\<rparr>"

definition page_pending :: pending_save where
  "page_pending = \<lparr>ps_lyrics = [demo_line ''do''], ps_youtubeId = ''dQw4w9WgXcQ'', ps_input = page_input\<rparr>"

definition page2 :: admin_editor where
  "page2 = page1\<lparr>ae_saving := Some page_pending, ae_isSaving := True\<rparr>"

definition page_db' :: db where
  "page_db' = page_db\<lparr>songs := [demo_song ''so1'', lyrics_set 5 page_input ((demo_song ''so2'')\<lparr>song_id := page_song\<rparr>)]\<rparr>"

lemma page_runs: "admin_run page_op page0 = Some page1" "admin_run StartSave page1 = Some page2"
  by code_simp+

lemma page_lookup: "lookup song_id page_song (songs page_db) = Some ((demo_song ''so2'')\<lparr>song_id := page_song\<rparr>)"
  by (simp add: lookup_def demo_song_def page_song_def)

lemma page_patch: "patchSongLyrics ''sn9'' ''p9'' 5 admin_ctx page_song page_input page_db = (Inr None, page_db')"
proof -
  have parse: "entityIdSchema page_song = Some page_song" "saveAdminSongLyricsSchema page_input = Some page_input" by code_simp+
  have "lockLegacyGuide page_db page_song = None" by (simp add: lockLegacyGuide_def demo_guide_def page_song_def)
  then have "writeLegacyGuide ''sn9'' ''p9'' 5 ((demo_song ''so2'')\<lparr>song_id := page_song\<rparr>) ''adm''
      \<lparr>chg_lyrics = Some (sli_lyrics page_input), chg_youtubeId = sli_youtubeId page_input, chg_hasOfficialCheer = None\<rparr>
      (sli_guideWrite page_input) page_db = (Inr None, page_db)"
    by (simp add: writeLegacyGuide_def page_input_def)
  moreover have "updateSong page_db page_song (lyrics_set 5 page_input) = (Some page_song, page_db')"
    by (simp add: updateSong_def page_db'_def update_where_def returning_def) (simp add: demo_song_def page_song_def)
  moreover have "''so1'' \<noteq> page_song" by (simp add: page_song_def)
  ultimately have "saveSongLyrics ''sn9'' ''p9'' 5 admin_ctx (page_song, page_input) page_db = (Inr (page_song, None), page_db')"
    by (simp add: saveSongLyrics_def as_admin_admin transaction_def lockSongForGuideWrite_def page_lookup)
  then show ?thesis by (simp add: patchSongLyrics_def parse adminSongMutationResultSchema_def)
qed

definition page3 :: admin_editor where
  "page3 = rendered (save_answered (Inr None) page2)"

lemma page_session:
  "lone_step\<^sup>*\<^sup>* page_start (page_start\<lparr>ss_page := page2\<rparr>)"
  "lone_step\<^sup>*\<^sup>* page_start \<lparr>ss_page = page3, ss_db = page_db', ss_answer = None, ss_lost = False\<rparr>"
proof -
  have 1: "lone_step page_start (page_start\<lparr>ss_page := page1\<rparr>)"
    by (rule worked [of page_op]) (simp add: page_start_def page_runs)
  have 2: "lone_step (page_start\<lparr>ss_page := page1\<rparr>) (page_start\<lparr>ss_page := page2\<rparr>)"
    using worked [of StartSave "page_start\<lparr>ss_page := page1\<rparr>" page2] by (simp add: page_runs)
  have saving: "ae_saving page2 = Some page_pending" by (simp add: page2_def)
  have id: "ae_songId page2 = page_song" by (simp add: page2_def page1_def page0_def rendered_def useAdminEditor_def page_editor_def)
  have 3: "lone_step (page_start\<lparr>ss_page := page2\<rparr>) \<lparr>ss_page = page2, ss_db = page_db', ss_answer = Some (Inr None), ss_lost = False\<rparr>"
    using served [of "page_start\<lparr>ss_page := page2\<rparr>" page_pending "''sn9''" "''p9''" admin_ctx 5 "Inr None" page_db'] page_patch
    by (simp add: page_start_def saving id page_pending_def demo_rows account_ids_def)
  have 4: "lone_step \<lparr>ss_page = page2, ss_db = page_db', ss_answer = Some (Inr None), ss_lost = False\<rparr> \<lparr>ss_page = page3, ss_db = page_db', ss_answer = None, ss_lost = False\<rparr>"
    using answered [of "\<lparr>ss_page = page2, ss_db = page_db', ss_answer = Some (Inr None), ss_lost = False\<rparr>" "Inr None"] by (simp add: page3_def)
  from 1 2 show two: "lone_step\<^sup>*\<^sup>* page_start (page_start\<lparr>ss_page := page2\<rparr>)" by (simp add: converse_rtranclp_into_rtranclp)
  from two 3 4 show "lone_step\<^sup>*\<^sup>* page_start \<lparr>ss_page = page3, ss_db = page_db', ss_answer = None, ss_lost = False\<rparr>"
    by (simp add: rtranclp.rtrancl_into_rtrancl)
qed

lemma page3_fields: "\<not> admin_isDirty page3" "ae_songId page3 = page_song" "ae_lyrics page3 = [demo_line ''do'']" "ae_youtubeId page3 = ''dQw4w9WgXcQ''"
  by code_simp+

theorem clean_page_is_stored_witness:
  "\<exists>r. lookup song_id page_song (songs page_db') = Some r \<and> parseStoredLyrics (song_lyrics r) = Inr [demo_line ''do''] \<and>
    trim (coalesce (song_youtubeId r) []) = trim ''dQw4w9WgXcQ''"
  using clean_page_is_stored [OF page_start_loaded page_session(2)] page3_fields by (simp add: stored_as_def)

theorem lone_editor_no_conflict_witness:
  "fst (patchSongLyrics ''sn9'' ''p9'' 5 admin_ctx page_song page_input page_db) \<noteq> Inl (AppError CHEER_GUIDE_CONFLICT)"
proof -
  have "ae_saving page2 = Some page_pending" "ae_songId page2 = page_song" "ps_input page_pending = page_input"
    by (simp_all add: page_pending_def page2_def page1_def page0_def rendered_def useAdminEditor_def page_editor_def)
  then show ?thesis
    using lone_editor_no_conflict [OF page_start_loaded page_session(1), of page_pending "''sn9''" "''p9''" 5 admin_ctx]
    by (simp add: page_start_def)
qed

definition page_selected :: admin_editor where
  "page_selected = page1\<lparr>ae_toolbar := Some \<lparr>tb_show = True, tb_x = 0, tb_y = 0, tb_lineIndex = 0, tb_segmentIndex = 0, tb_startOffset = 1, tb_endOffset = 2\<rparr>\<rparr>"

theorem split_exact_witness:
  "\<exists>ss. ae_lyrics (handleSplitSegment True page_selected) = [(demo_line ''do'')\<lparr>line_segments := ss\<rparr>] \<and>
    marked_chars ss = [(CHR ''d'', False, False, None), (CHR ''o'', True, True, None)]"
  using split_exact [of page_selected "\<lparr>tb_show = True, tb_x = 0, tb_y = 0, tb_lineIndex = 0, tb_segmentIndex = 0, tb_startOffset = 1, tb_endOffset = 2\<rparr>" True]
  by (auto simp: page_selected_def page1_def page0_def rendered_def useAdminEditor_def demo_line_def Let_def)

end
