(* ===== verification/Publications.thy ===== *)
theory Publications imports Schema Access MfaCrypto "HOL-Library.Product_Lexorder" "HOL-Library.Monad_Syntax" begin

text \<open>
  What readers get of the service's policies and of its notices and updates:
  \<open>packages/server/src/services/policy-service.ts\<close> and \<open>publication-service.ts\<close>, their repositories
  \<open>policy-repository.ts\<close> and \<open>publication-repository.ts\<close>, and the contracts \<open>contracts/policy.ts\<close> and
  \<open>contracts/publication.ts\<close>.  The tables and their CHECK constraints are in theory \<open>Schema\<close>; nothing under
  \<open>src\<close> writes them.  \<open>z.iso.date()\<close> of zod is a parameter, a test of texts.  Dates are texts
  \<open>YYYY-MM-DD\<close>, whose order is the order of the days.
\<close>

section \<open>Contracts\<close>

text \<open>\<open>z.string().trim().min(1).max(n)\<close>.\<close>

definition trimmed_text :: "nat \<Rightarrow> string \<Rightarrow> string option" where
  "trimmed_text n s = (let t = trim s in if 1 \<le> length t \<and> length t \<le> n then Some t else None)"

definition required_text :: "nat \<Rightarrow> string option \<Rightarrow> string option" where
  "required_text n v = (case v of None \<Rightarrow> None | Some s \<Rightarrow> trimmed_text n s)"

definition nullable_text :: "nat \<Rightarrow> string option \<Rightarrow> string option option" where
  "nullable_text n v = (case v of None \<Rightarrow> Some None | Some s \<Rightarrow> map_option Some (trimmed_text n s))"

fun json_text :: "nat \<Rightarrow> json \<Rightarrow> string option" where
  "json_text n (JStr s) = trimmed_text n s"
| "json_text n _ = None"

text \<open>\<open>z.array(text.max(n)).min(1).max(100)\<close>.\<close>

fun json_texts :: "nat \<Rightarrow> json \<Rightarrow> string list option" where
  "json_texts n (JArr js) = (if 1 \<le> length js \<and> length js \<le> 100 then those (map (json_text n) js) else None)"
| "json_texts n _ = None"

definition iso_date :: "(string \<Rightarrow> bool) \<Rightarrow> string \<Rightarrow> string option" where
  "iso_date isoDate d = (if isoDate d then Some d else None)"

primrec slug_name :: "policy_slug \<Rightarrow> string" where
  "slug_name privacy = ''privacy''"
| "slug_name terms = ''terms''"
| "slug_name copyright = ''copyright''"
| "slug_name email_policy = ''email''"
| "slug_name ga = ''ga''"

definition policy_slugs :: "policy_slug list" where
  "policy_slugs = [privacy, terms, copyright, email_policy, ga]"

definition policySlugSchema :: "string \<Rightarrow> policy_slug option" where
  "policySlugSchema s = find (\<lambda>g. slug_name g = s) policy_slugs"

record public_policy_summary =
  pps_id :: string
  pps_slug :: policy_slug
  pps_version :: nat
  pps_title :: string
  pps_description :: string
  pps_effectiveOn :: string

record public_policy = public_policy_summary +
  pp_content :: "string list"
  pp_changeNotice :: "string option"

definition publicPolicySummarySchema :: "(string \<Rightarrow> bool) \<Rightarrow> service_policy_row \<Rightarrow> public_policy_summary option" where
  "publicPolicySummarySchema isoDate r = do {
    i \<leftarrow> entityIdSchema (pol_id r);
    v \<leftarrow> (if 0 < pol_version r then Some (pol_version r) else None);
    title \<leftarrow> trimmed_text 200 (pol_title r);
    description \<leftarrow> trimmed_text 500 (pol_description r);
    effectiveOn \<leftarrow> iso_date isoDate (pol_effectiveOn r);
    Some \<lparr>pps_id = i, pps_slug = pol_slug r, pps_version = v, pps_title = title,
      pps_description = description, pps_effectiveOn = effectiveOn\<rparr>}"

definition publicPolicySchema :: "(string \<Rightarrow> bool) \<Rightarrow> service_policy_row \<Rightarrow> public_policy option" where
  "publicPolicySchema isoDate r = do {
    p \<leftarrow> publicPolicySummarySchema isoDate r;
    content \<leftarrow> json_texts 10000 (pol_content r);
    changeNotice \<leftarrow> nullable_text 2000 (pol_changeNotice r);
    Some (public_policy_summary.extend p (public_policy.fields content changeNotice))}"

record public_notice =
  pn_id :: string
  pn_title :: string
  pn_publishedOn :: string
  pn_category :: string
  pn_content :: string

record public_update =
  pu_id :: string
  pu_title :: string
  pu_publishedOn :: string
  pu_releaseVersion :: string
  pu_content :: "string list"

text \<open>The literal \<open>kind\<close> of both contracts is the type of the result.\<close>

definition publicNoticeSchema :: "(string \<Rightarrow> bool) \<Rightarrow> service_publication_row \<Rightarrow> public_notice option" where
  "publicNoticeSchema isoDate r = (if spub_kind r \<noteq> notice then None else do {
    i \<leftarrow> entityIdSchema (spub_id r);
    title \<leftarrow> trimmed_text 200 (spub_title r);
    publishedOn \<leftarrow> iso_date isoDate (spub_publishedOn r);
    category \<leftarrow> required_text 40 (spub_category r);
    content \<leftarrow> json_text 20000 (spub_content r);
    Some \<lparr>pn_id = i, pn_title = title, pn_publishedOn = publishedOn, pn_category = category, pn_content = content\<rparr>})"

definition publicUpdateSchema :: "(string \<Rightarrow> bool) \<Rightarrow> service_publication_row \<Rightarrow> public_update option" where
  "publicUpdateSchema isoDate r = (if spub_kind r \<noteq> update_note then None else do {
    i \<leftarrow> entityIdSchema (spub_id r);
    title \<leftarrow> trimmed_text 200 (spub_title r);
    publishedOn \<leftarrow> iso_date isoDate (spub_publishedOn r);
    releaseVersion \<leftarrow> required_text 40 (spub_releaseVersion r);
    content \<leftarrow> json_texts 2000 (spub_content r);
    Some \<lparr>pu_id = i, pu_title = title, pu_publishedOn = publishedOn, pu_releaseVersion = releaseVersion,
      pu_content = content\<rparr>})"

section \<open>Queries\<close>

text \<open>\<open>SELECT DISTINCT ON\<close>: the first row of every key.\<close>

primrec distinct_on :: "('a \<Rightarrow> 'k) \<Rightarrow> 'a list \<Rightarrow> 'a list" where
  "distinct_on key [] = []"
| "distinct_on key (x # xs) = x # filter (\<lambda>y. key y \<noteq> key x) (distinct_on key xs)"

definition findLatestPublishedPolicies :: "db \<Rightarrow> policy_slug option \<Rightarrow> service_policy_row list" where
  "findLatestPublishedPolicies s slug =
    distinct_on pol_slug
      (sort_key (\<lambda>r. (slug_name (pol_slug r), - int (pol_version r)))
        (filter (\<lambda>r. pol_isPublished r \<and> (case slug of None \<Rightarrow> True | Some g \<Rightarrow> pol_slug r = g))
          (service_policies s)))"

definition findPublicPublications :: "db \<Rightarrow> publication_kind \<Rightarrow> service_publication_row list" where
  "findPublicPublications s kind =
    rev (sort_key (\<lambda>r. (spub_publishedOn r, spub_id r))
      (filter (\<lambda>r. spub_kind r = kind \<and> spub_isPublished r) (service_publications s)))"

section \<open>Services\<close>

text \<open>\<open>z.array(schema).safeParse(rows)\<close> and the error that the services throw.\<close>

definition stored :: "string \<Rightarrow> 'b option \<Rightarrow> failure + 'b" where
  "stored message v = (case v of None \<Rightarrow> Inl (Error message) | Some x \<Rightarrow> Inr x)"

definition listPublicPolicies :: "(string \<Rightarrow> bool) \<Rightarrow> db \<Rightarrow> failure + public_policy_summary list" where
  "listPublicPolicies isoDate s =
    stored ''Stored policy contract violation''
      (map_option (sort_key (\<lambda>p. policy_slug_index (pps_slug p)))
        (those (map (publicPolicySummarySchema isoDate) (findLatestPublishedPolicies s None))))"

definition getPublicPolicy :: "(string \<Rightarrow> bool) \<Rightarrow> string \<Rightarrow> db \<Rightarrow> failure + public_policy option" where
  "getPublicPolicy isoDate slug s =
    (case policySlugSchema slug of
       None \<Rightarrow> Inr None
     | Some g \<Rightarrow>
         (case findLatestPublishedPolicies s (Some g) of
            [] \<Rightarrow> Inr None
          | row # _ \<Rightarrow> stored ''Stored policy contract violation'' (map_option Some (publicPolicySchema isoDate row))))"

definition listPublicNotices :: "(string \<Rightarrow> bool) \<Rightarrow> db \<Rightarrow> failure + public_notice list" where
  "listPublicNotices isoDate s =
    stored ''Stored notice contract violation''
      (those (map (publicNoticeSchema isoDate) (findPublicPublications s notice)))"

definition listPublicUpdates :: "(string \<Rightarrow> bool) \<Rightarrow> db \<Rightarrow> failure + public_update list" where
  "listPublicUpdates isoDate s =
    stored ''Stored update contract violation''
      (those (map (publicUpdateSchema isoDate) (findPublicPublications s update_note)))"

section \<open>The first row of every key\<close>

lemma distinct_on_subset: "set (distinct_on key xs) \<subseteq> set xs"
  by (induction xs) auto

lemma distinct_on_keys: "key ` set (distinct_on key xs) = key ` set xs"
proof (induction xs)
  case (Cons x xs)
  have "key ` {y \<in> A. key y \<noteq> key x} = key ` A - {key x}" for A
    by auto
  then show ?case
    by (auto simp: Cons)
qed simp

lemma distinct_on_distinct: "distinct (map key (distinct_on key xs))"
proof (induction xs)
  case (Cons x xs)
  then show ?case
    by (auto simp: distinct_map intro: inj_on_subset)
qed simp

lemma distinct_on_first:
  assumes "sorted_wrt R xs" and "x \<in> set (distinct_on key xs)" and "y \<in> set xs" and "key y = key x"
  shows "y = x \<or> R x y"
  using assms
proof (induction xs)
  case (Cons z zs)
  show ?case
  proof (cases "x = z")
    case True
    then show ?thesis using Cons.prems by auto
  next
    case False
    then have "x \<in> set (distinct_on key zs)" and "key x \<noteq> key z"
      using Cons.prems(2) by auto
    then show ?thesis using Cons by auto
  qed
qed simp

lemma sort_key_wrt: "sorted_wrt (\<lambda>x y. f x \<le> f y) (sort_key f xs)"
  using sorted_sort_key[of f xs] by (simp add: sorted_map)

lemma those_Some_iff: "those (map f xs) = Some ys \<longleftrightarrow> list_all2 (\<lambda>x y. f x = Some y) xs ys"
proof (induction xs arbitrary: ys)
  case (Cons x xs)
  then show ?case
    by (cases ys) (auto split: option.splits simp: list_all2_Cons2)
qed auto

lemma those_set:
  assumes "those (map f xs) = Some ys"
  shows "set ys = {y. \<exists>x \<in> set xs. f x = Some y}"
proof -
  have "list_all2 (\<lambda>x y. f x = Some y) xs ys"
    using assms by (simp add: those_Some_iff)
  then show ?thesis
    by induction auto
qed

lemma those_map:
  assumes "those (map f xs) = Some ys" and "\<And>x y. f x = Some y \<Longrightarrow> g y = h x"
  shows "map g ys = map h xs"
proof -
  have "list_all2 (\<lambda>x y. f x = Some y) xs ys"
    using assms(1) by (simp add: those_Some_iff)
  then show ?thesis
    by induction (auto simp: assms(2))
qed

lemma stored_Inr [simp]: "stored m v = Inr x \<longleftrightarrow> v = Some x"
  by (auto simp: stored_def split: option.splits)

lemma stored_Inl [simp]: "stored m v = Inl e \<longleftrightarrow> v = None \<and> e = Error m"
  by (auto simp: stored_def split: option.splits)

section \<open>The latest published policy\<close>

definition published_policies :: "db \<Rightarrow> service_policy_row set" where
  "published_policies s = {r \<in> set (service_policies s). pol_isPublished r}"

definition latest_policy :: "db \<Rightarrow> service_policy_row \<Rightarrow> bool" where
  "latest_policy s r \<longleftrightarrow> r \<in> published_policies s \<and>
    (\<forall>q \<in> published_policies s. pol_slug q = pol_slug r \<longrightarrow> pol_version q \<le> pol_version r)"

text \<open>The unique constraint \<open>service_policy_slug_version_key\<close>.\<close>

definition policies_wf :: "db \<Rightarrow> bool" where
  "policies_wf s \<longleftrightarrow> distinct (map (\<lambda>r. (pol_slug r, pol_version r)) (service_policies s))"

lemma slug_name_inj [simp]: "slug_name a = slug_name b \<longleftrightarrow> a = b"
  by (cases a; cases b) auto

lemma policySlugSchema_iff: "policySlugSchema t = Some g \<longleftrightarrow> slug_name g = t"
  by (cases g) (auto simp: policySlugSchema_def policy_slugs_def)

lemma policySlugSchema_None: "policySlugSchema t = None \<longleftrightarrow> (\<forall>g. slug_name g \<noteq> t)"
  by (metis not_Some_eq policySlugSchema_iff)

lemma found_policies:
  assumes "policies_wf s"
  shows "set (findLatestPublishedPolicies s slug) =
    {r. latest_policy s r \<and> (case slug of None \<Rightarrow> True | Some g \<Rightarrow> pol_slug r = g)}" (is "?L = ?R")
proof -
  define rows where "rows = sort_key (\<lambda>r. (slug_name (pol_slug r), - int (pol_version r)))
    (filter (\<lambda>r. pol_isPublished r \<and> (case slug of None \<Rightarrow> True | Some g \<Rightarrow> pol_slug r = g)) (service_policies s))"
  have mem: "r \<in> set rows \<longleftrightarrow> r \<in> published_policies s \<and> (case slug of None \<Rightarrow> True | Some g \<Rightarrow> pol_slug r = g)" for r
    by (auto simp: rows_def published_policies_def)
  have sorted: "sorted_wrt (\<lambda>x y. (slug_name (pol_slug x), - int (pol_version x)) \<le> (slug_name (pol_slug y), - int (pol_version y))) rows"
    unfolding rows_def by (rule sort_key_wrt)
  have L: "?L = set (distinct_on pol_slug rows)"
    by (simp add: findLatestPublishedPolicies_def rows_def)
  have unique: "q = r" if "q \<in> published_policies s" "r \<in> published_policies s" "pol_slug q = pol_slug r" "pol_version q = pol_version r" for q r
    using that assms by (auto simp: policies_wf_def published_policies_def distinct_map inj_on_def)
  have first: "latest_policy s r" if r: "r \<in> set (distinct_on pol_slug rows)" for r
  proof -
    have "r \<in> set rows"
      using r distinct_on_subset by fastforce
    moreover have "pol_version q \<le> pol_version r" if "q \<in> published_policies s" "pol_slug q = pol_slug r" for q
      using distinct_on_first[OF sorted r, of q] that mem[of q] mem[of r] \<open>r \<in> set rows\<close> by (auto split: option.splits)
    ultimately show ?thesis
      by (simp add: latest_policy_def mem)
  qed
  show ?thesis
  proof (intro equalityI subsetI)
    fix r assume "r \<in> ?L"
    then show "r \<in> ?R"
      using first distinct_on_subset[of pol_slug rows] mem[of r] by (auto simp: L)
  next
    fix r assume r: "r \<in> ?R"
    then have "r \<in> set rows"
      by (simp add: mem latest_policy_def)
    then obtain q where q: "q \<in> set (distinct_on pol_slug rows)" "pol_slug q = pol_slug r"
      by (metis (mono_tags, lifting) distinct_on_keys image_iff)
    have "q = r"
      using first[OF q(1)] r q(2) by (intro unique) (auto simp: latest_policy_def intro: antisym)
    then show "r \<in> ?L" using q by (simp add: L)
  qed
qed

lemma found_distinct: "distinct (map pol_slug (findLatestPublishedPolicies s slug))"
  by (simp add: findLatestPublishedPolicies_def distinct_on_distinct)

lemma found_at_most_one:
  assumes "findLatestPublishedPolicies s (Some g) = row # rest"
  shows "rest = []"
proof (cases rest)
  case (Cons q qs)
  have "pol_slug r = g" if "r \<in> set (findLatestPublishedPolicies s (Some g))" for r
    using that distinct_on_subset by (fastforce simp: findLatestPublishedPolicies_def)
  then have "pol_slug row = pol_slug q"
    by (simp add: assms Cons)
  then show ?thesis
    using found_distinct[of s "Some g"] by (simp add: assms Cons)
qed simp

lemma summary_slug: "publicPolicySummarySchema isoDate r = Some p \<Longrightarrow> pps_slug p = pol_slug r"
  by (auto simp: publicPolicySummarySchema_def bind_eq_Some_conv)

lemma policy_summary:
  "publicPolicySchema isoDate r = Some p \<Longrightarrow>
    publicPolicySummarySchema isoDate r = Some (public_policy_summary.truncate p)"
  by (auto simp: publicPolicySchema_def bind_eq_Some_conv public_policy_summary.defs public_policy.defs)

lemma slug_index_inj: "policy_slug_index a = policy_slug_index b \<longleftrightarrow> a = b"
  by (cases a; cases b) auto

section \<open>What readers get\<close>

lemma public_policies_effect:
  assumes "policies_wf s" and "listPublicPolicies isoDate s = Inr ps"
  shows "sorted_wrt (<) (map (\<lambda>p. policy_slug_index (pps_slug p)) ps)"
    and "set ps = {p. \<exists>r. latest_policy s r \<and> publicPolicySummarySchema isoDate r = Some p}"
    and "latest_policy s r \<Longrightarrow> publicPolicySummarySchema isoDate r \<noteq> None"
proof -
  obtain qs where qs: "those (map (publicPolicySummarySchema isoDate) (findLatestPublishedPolicies s None)) = Some qs"
    and ps: "ps = sort_key (\<lambda>p. policy_slug_index (pps_slug p)) qs"
    using assms(2) by (auto simp: listPublicPolicies_def)
  have "map pps_slug qs = map pol_slug (findLatestPublishedPolicies s None)"
    using qs by (rule those_map) (rule summary_slug)
  then have "distinct (map pps_slug qs)"
    by (simp add: found_distinct)
  then have "distinct (map (\<lambda>p. policy_slug_index (pps_slug p)) ps)"
    by (auto simp: ps distinct_map distinct_sort inj_on_def slug_index_inj)
  then show "sorted_wrt (<) (map (\<lambda>p. policy_slug_index (pps_slug p)) ps)"
    by (simp only: strict_sorted_iff ps sorted_sort_key simp_thms)
  show "set ps = {p. \<exists>r. latest_policy s r \<and> publicPolicySummarySchema isoDate r = Some p}"
    using those_set[OF qs] found_policies[OF assms(1), of None] by (auto simp: ps)
  show "publicPolicySummarySchema isoDate r \<noteq> None" if "latest_policy s r"
  proof -
    have "r \<in> set (findLatestPublishedPolicies s None)"
      using that found_policies[OF assms(1), of None] by simp
    then show ?thesis
      using qs by (auto simp: those_Some_iff list_all2_conv_all_nth in_set_conv_nth)
  qed
qed

lemma public_policy_effect:
  assumes "policies_wf s"
  shows "getPublicPolicy isoDate slug s = Inr None \<Longrightarrow> latest_policy s r \<Longrightarrow> slug_name (pol_slug r) \<noteq> slug"
    and "getPublicPolicy isoDate slug s = Inr (Some p) \<Longrightarrow>
      \<exists>r. latest_policy s r \<and> slug_name (pol_slug r) = slug \<and> publicPolicySchema isoDate r = Some p"
proof -
  have g: "slug_name (pol_slug r) = slug \<longleftrightarrow> pol_slug r = g" if "policySlugSchema slug = Some g" for r g
    using that by (auto simp flip: slug_name_inj simp: policySlugSchema_iff)
  have found: "r \<in> set (findLatestPublishedPolicies s (Some g)) \<longleftrightarrow> latest_policy s r \<and> pol_slug r = g" for g r
    by (simp add: found_policies[OF assms])
  show "slug_name (pol_slug r) \<noteq> slug" if "getPublicPolicy isoDate slug s = Inr None" "latest_policy s r"
  proof (cases "policySlugSchema slug")
    case (Some h)
    then have "findLatestPublishedPolicies s (Some h) = []"
      using that(1) by (auto simp: getPublicPolicy_def split: list.splits)
    then show ?thesis
      using found[of r h] that(2) by (simp add: g[OF Some])
  qed (simp add: policySlugSchema_None)
  show "\<exists>r. latest_policy s r \<and> slug_name (pol_slug r) = slug \<and> publicPolicySchema isoDate r = Some p"
    if page: "getPublicPolicy isoDate slug s = Inr (Some p)"
  proof -
    obtain h where h: "policySlugSchema slug = Some h"
      using page by (cases "policySlugSchema slug") (auto simp: getPublicPolicy_def)
    obtain r rs where "findLatestPublishedPolicies s (Some h) = r # rs"
      using page h by (cases "findLatestPublishedPolicies s (Some h)") (auto simp: getPublicPolicy_def)
    moreover from this have p: "publicPolicySchema isoDate r = Some p"
      using page h by (auto simp: getPublicPolicy_def)
    ultimately have "latest_policy s r \<and> pol_slug r = h"
      using found[of r h] by simp
    then show ?thesis
      using p g[OF h] by blast
  qed
qed

lemma policy_page:
  assumes "policies_wf s" and "latest_policy s r"
  shows "getPublicPolicy isoDate (slug_name (pol_slug r)) s =
    (case publicPolicySchema isoDate r of
       None \<Rightarrow> Inl (Error ''Stored policy contract violation'') | Some p \<Rightarrow> Inr (Some p))"
proof -
  have slug: "policySlugSchema (slug_name (pol_slug r)) = Some (pol_slug r)"
    by (simp add: policySlugSchema_iff)
  have "r \<in> set (findLatestPublishedPolicies s (Some (pol_slug r)))"
    using assms by (simp add: found_policies)
  then obtain rest where "findLatestPublishedPolicies s (Some (pol_slug r)) = r # rest"
    using found_at_most_one by (cases "findLatestPublishedPolicies s (Some (pol_slug r))") fastforce+
  then show ?thesis
    by (simp add: getPublicPolicy_def slug stored_def split: option.split)
qed

lemma no_policy_page:
  assumes "policies_wf s"
  shows "getPublicPolicy isoDate slug s = Inr None \<longleftrightarrow> (\<forall>r. latest_policy s r \<longrightarrow> slug_name (pol_slug r) \<noteq> slug)"
proof
  assume "getPublicPolicy isoDate slug s = Inr None"
  then show "\<forall>r. latest_policy s r \<longrightarrow> slug_name (pol_slug r) \<noteq> slug"
    using public_policy_effect(1) [OF assms] by blast
next
  assume none: "\<forall>r. latest_policy s r \<longrightarrow> slug_name (pol_slug r) \<noteq> slug"
  then have "findLatestPublishedPolicies s (Some g) = []" if "policySlugSchema slug = Some g" for g
    using that found_policies[OF assms, of "Some g"] by (auto simp: policySlugSchema_iff simp flip: set_empty)
  then show "getPublicPolicy isoDate slug s = Inr None"
    by (auto simp: getPublicPolicy_def split: option.split)
qed

lemma those_total: "(\<And>x. x \<in> set xs \<Longrightarrow> f x \<noteq> None) \<Longrightarrow> those (map f xs) \<noteq> None"
proof (induction xs)
  case (Cons x xs)
  obtain y where "f x = Some y"
    using Cons.prems[of x] by auto
  moreover obtain ys where "those (map f xs) = Some ys"
    using Cons by auto
  ultimately show ?case by simp
qed simp

lemma policies_refused:
  assumes "policies_wf s" and "listPublicPolicies isoDate s = Inl e"
  shows "e = Error ''Stored policy contract violation'' \<and>
    (\<exists>r. latest_policy s r \<and> publicPolicySummarySchema isoDate r = None)"
proof -
  from assms(2) have none: "those (map (publicPolicySummarySchema isoDate) (findLatestPublishedPolicies s None)) = None"
    and e: "e = Error ''Stored policy contract violation''"
    by (auto simp: listPublicPolicies_def stored_def split: option.splits)
  from none have "\<exists>r \<in> set (findLatestPublishedPolicies s None). publicPolicySummarySchema isoDate r = None"
    by (metis those_total)
  with e show ?thesis using found_policies [OF assms(1), of None] by auto
qed

text \<open>C26.
  The public list has one entry for every policy with a published version, in the order of the
  contract's enumeration, and the entry shows the highest published version; the list fails exactly
  when the stored title, text or date of one of those versions breaks the contract. The page of a
  policy shows its highest published version, the one of the list, and fails when the stored row -
  whose content the list does not read - breaks the contract; a policy without a published version,
  and it alone, has no page.\<close>

theorem public_policies_exact:
  assumes "policies_wf s"
  shows "(case listPublicPolicies isoDate s of
      Inl e \<Rightarrow> e = Error ''Stored policy contract violation'' \<and>
        (\<exists>r. latest_policy s r \<and> publicPolicySummarySchema isoDate r = None)
    | Inr ps \<Rightarrow> (\<forall>r. latest_policy s r \<longrightarrow> publicPolicySummarySchema isoDate r \<noteq> None) \<and>
        sorted_wrt (<) (map (\<lambda>p. policy_slug_index (pps_slug p)) ps) \<and>
        set ps = {p. \<exists>r. latest_policy s r \<and> publicPolicySummarySchema isoDate r = Some p})
    \<and> (getPublicPolicy isoDate slug s = Inr None \<longleftrightarrow> (\<forall>r. latest_policy s r \<longrightarrow> slug_name (pol_slug r) \<noteq> slug))
    \<and> (latest_policy s r \<longrightarrow> getPublicPolicy isoDate (slug_name (pol_slug r)) s =
        (case publicPolicySchema isoDate r of
           None \<Rightarrow> Inl (Error ''Stored policy contract violation'')
         | Some p \<Rightarrow> Inr (Some p)))
    \<and> (publicPolicySchema isoDate r = Some p \<longrightarrow>
        publicPolicySummarySchema isoDate r = Some (public_policy_summary.truncate p))"
  using policies_refused [OF assms] public_policies_effect [OF assms] no_policy_page [OF assms]
    policy_page [OF assms] policy_summary
  by (auto split: sum.split)

section \<open>Notices and updates\<close>

lemma found_publications:
  "set (findPublicPublications s kind) = {r \<in> set (service_publications s). spub_kind r = kind \<and> spub_isPublished r}"
  "sorted_wrt (\<lambda>a b. spub_publishedOn b \<le> spub_publishedOn a) (findPublicPublications s kind)"
proof -
  show "set (findPublicPublications s kind) = {r \<in> set (service_publications s). spub_kind r = kind \<and> spub_isPublished r}"
    by (auto simp: findPublicPublications_def)
  show "sorted_wrt (\<lambda>a b. spub_publishedOn b \<le> spub_publishedOn a) (findPublicPublications s kind)"
    unfolding findPublicPublications_def sorted_wrt_rev
    by (rule sorted_wrt_mono_rel[OF _ sort_key_wrt]) auto
qed

lemma those_sorted:
  assumes "those (map f xs) = Some ys" and "sorted_wrt (\<lambda>a b. h b \<le> h a) xs"
    and "\<And>x y. f x = Some y \<Longrightarrow> g y = h x"
  shows "sorted_wrt (\<lambda>a b. g b \<le> (g a :: 'a::order)) ys"
proof -
  have "map g ys = map h xs"
    using assms(1,3) by (rule those_map)
  moreover have "sorted_wrt (\<lambda>a b. b \<le> a) (map h xs)"
    using assms(2) by (simp add: sorted_wrt_map)
  ultimately have "sorted_wrt (\<lambda>a b. b \<le> a) (map g ys)"
    by simp
  then show ?thesis
    by (simp only: sorted_wrt_map)
qed

lemma notice_date: "publicNoticeSchema isoDate r = Some n \<Longrightarrow> pn_publishedOn n = spub_publishedOn r"
  by (auto simp: publicNoticeSchema_def iso_date_def bind_eq_Some_conv split: if_splits)

lemma update_date: "publicUpdateSchema isoDate r = Some u \<Longrightarrow> pu_publishedOn u = spub_publishedOn r"
  by (auto simp: publicUpdateSchema_def iso_date_def bind_eq_Some_conv split: if_splits)

lemma public_notices_exact:
  assumes "listPublicNotices isoDate s = Inr ns"
  shows "sorted_wrt (\<lambda>a b. pn_publishedOn b \<le> pn_publishedOn a) ns"
    and "set ns = {n. \<exists>r \<in> set (service_publications s). spub_kind r = notice \<and> spub_isPublished r \<and> publicNoticeSchema isoDate r = Some n}"
proof -
  have ns: "those (map (publicNoticeSchema isoDate) (findPublicPublications s notice)) = Some ns"
    using assms by (simp add: listPublicNotices_def)
  show "sorted_wrt (\<lambda>a b. pn_publishedOn b \<le> pn_publishedOn a) ns"
    using ns found_publications(2) by (rule those_sorted) (rule notice_date)
  show "set ns = {n. \<exists>r \<in> set (service_publications s). spub_kind r = notice \<and> spub_isPublished r \<and> publicNoticeSchema isoDate r = Some n}"
    using those_set[OF ns] by (auto simp: found_publications)
qed

lemma public_updates_exact:
  assumes "listPublicUpdates isoDate s = Inr us"
  shows "sorted_wrt (\<lambda>a b. pu_publishedOn b \<le> pu_publishedOn a) us"
    and "set us = {u. \<exists>r \<in> set (service_publications s). spub_kind r = update_note \<and> spub_isPublished r \<and> publicUpdateSchema isoDate r = Some u}"
proof -
  have us: "those (map (publicUpdateSchema isoDate) (findPublicPublications s update_note)) = Some us"
    using assms by (simp add: listPublicUpdates_def)
  show "sorted_wrt (\<lambda>a b. pu_publishedOn b \<le> pu_publishedOn a) us"
    using us found_publications(2) by (rule those_sorted) (rule update_date)
  show "set us = {u. \<exists>r \<in> set (service_publications s). spub_kind r = update_note \<and> spub_isPublished r \<and> publicUpdateSchema isoDate r = Some u}"
    using those_set[OF us] by (auto simp: found_publications)
qed

section \<open>Rows that the services can answer with\<close>

text \<open>
  The CHECK constraints trim spaces only and do not look into the items of a content array, so that they
  admit rows that the contract refuses; with these differences excluded, a stored policy is answered.
\<close>

lemma check_admits_unanswerable:
  "\<exists>r. service_policy_check r \<and> is_uuid_v7 (pol_id r) \<and> publicPolicySchema (\<lambda>_. True) r = None"
  by (rule exI[of _ "\<lparr>pol_id = demo_uuid, pol_slug = terms, pol_version = 1, pol_title = ''T'', pol_description = ''D'',
      pol_effectiveOn = ''2026-01-01'', pol_content = JArr [JStr ''''], pol_changeNotice = None, pol_isPublished = True\<rparr>"])
    (simp add: service_policy_check_def, code_simp)

lemma between1_trimmed: "between1 n t \<Longrightarrow> trim t = btrim t \<Longrightarrow> trimmed_text n t = Some (btrim t)"
  by (simp add: between1_def trimmed_text_def Let_def)

lemma checked_policy_answered:
  assumes "service_policy_check r" and "is_uuid_v7 (pol_id r)" and "isoDate (pol_effectiveOn r)"
    and "trim (pol_title r) = btrim (pol_title r)" and "trim (pol_description r) = btrim (pol_description r)"
    and "\<And>t. pol_changeNotice r = Some t \<Longrightarrow> trim t = btrim t"
    and "\<And>js t. pol_content r = JArr js \<Longrightarrow> JStr t \<in> set js \<Longrightarrow> trimmed_text 10000 t \<noteq> None"
  shows "publicPolicySchema isoDate r \<noteq> None"
proof -
  obtain js where js: "pol_content r = JArr js" "1 \<le> length js" "length js \<le> 100" "list_all is_string js"
    using assms(1) by (cases "pol_content r") (auto simp: service_policy_check_def)
  have "json_text 10000 j \<noteq> None" if j: "j \<in> set js" for j
  proof -
    have "is_string j"
      using j js(4) by (simp add: list_all_iff)
    then obtain t where t: "j = JStr t"
      by (cases j) auto
    show ?thesis
      using assms(7)[OF js(1), of t] j by (simp add: t)
  qed
  then have "json_texts 10000 (pol_content r) \<noteq> None"
    using js those_total[of js "json_text 10000"] by auto
  moreover have "nullable_text 2000 (pol_changeNotice r) \<noteq> None"
    using assms(1,6) by (auto simp: nullable_text_def service_policy_check_def between1_trimmed split: option.splits)
  moreover have "publicPolicySummarySchema isoDate r \<noteq> None"
    using assms(1-5) by (auto simp: publicPolicySummarySchema_def service_policy_check_def between1_trimmed
      entityIdSchema_def iso_date_def)
  ultimately show ?thesis
    by (auto simp: publicPolicySchema_def)
qed

section \<open>Witness\<close>

definition demo_policy :: "policy_slug \<Rightarrow> nat \<Rightarrow> bool \<Rightarrow> service_policy_row" where
  "demo_policy slug version published = \<lparr>pol_id = demo_uuid, pol_slug = slug, pol_version = version, pol_title = '' Title '',
    pol_description = ''Text'', pol_effectiveOn = ''2026-01-01'', pol_content = JArr [JStr ''First''],
    pol_changeNotice = None, pol_isPublished = published\<rparr>"

definition demo_policies :: db where
  "demo_policies = empty_db\<lparr>service_policies :=
    [demo_policy terms 1 True, demo_policy privacy 1 True, demo_policy terms 2 True, demo_policy terms 3 False]\<rparr>"

definition demo_entry :: "policy_slug \<Rightarrow> nat \<Rightarrow> public_policy_summary" where
  "demo_entry slug version = \<lparr>pps_id = ''01890000-0000-7000-8000-00000000000a'', pps_slug = slug, pps_version = version,
    pps_title = ''Title'', pps_description = ''Text'', pps_effectiveOn = ''2026-01-01''\<rparr>"

definition demo_page :: "policy_slug \<Rightarrow> nat \<Rightarrow> public_policy" where
  "demo_page slug version =
    public_policy_summary.extend (demo_entry slug version) (public_policy.fields [''First''] None)"

theorem public_policies_exact_witness:
  "listPublicPolicies (\<lambda>_. True) demo_policies = Inr [demo_entry privacy 1, demo_entry terms 2]
    \<and> getPublicPolicy (\<lambda>_. True) ''terms'' demo_policies = Inr (Some (demo_page terms 2))
    \<and> public_policy_summary.truncate (demo_page terms 2) \<in> {demo_entry privacy 1, demo_entry terms 2}
    \<and> getPublicPolicy (\<lambda>_. True) ''ga'' demo_policies = Inr None"
proof -
  have wf: "policies_wf demo_policies" by code_simp
  note exact = public_policies_exact [OF wf, where isoDate = "\<lambda>_. True"]
  have list: "listPublicPolicies (\<lambda>_. True) demo_policies = Inr [demo_entry privacy 1, demo_entry terms 2]"
    by code_simp
  have published: "published_policies demo_policies =
      {demo_policy terms 1 True, demo_policy privacy 1 True, demo_policy terms 2 True}"
    by (auto simp: published_policies_def demo_policies_def) (simp_all add: demo_policy_def)
  have "\<forall>r. latest_policy demo_policies r \<longrightarrow> slug_name (pol_slug r) \<noteq> ''ga''"
    by (auto simp: latest_policy_def published) (simp_all add: demo_policy_def)
  then have "getPublicPolicy (\<lambda>_. True) ''ga'' demo_policies = Inr None"
    using exact [where slug = "''ga''"] by blast
  moreover have "getPublicPolicy (\<lambda>_. True) ''terms'' demo_policies = Inr (Some (demo_page terms 2))"
  proof -
    have latest: "latest_policy demo_policies (demo_policy terms 2 True)"
      by (simp add: latest_policy_def published) (simp add: demo_policy_def)
    have page: "publicPolicySchema (\<lambda>_. True) (demo_policy terms 2 True) = Some (demo_page terms 2)" by code_simp
    from exact [where r = "demo_policy terms 2 True"] latest
    have "getPublicPolicy (\<lambda>_. True) (slug_name (pol_slug (demo_policy terms 2 True))) demo_policies =
        Inr (Some (demo_page terms 2))"
      unfolding page option.case by blast
    then show ?thesis by (simp add: demo_policy_def)
  qed
  moreover have "public_policy_summary.truncate (demo_page terms 2) \<in> {demo_entry privacy 1, demo_entry terms 2}"
    by (simp add: demo_page_def public_policy_summary.defs public_policy.defs demo_entry_def)
  ultimately show ?thesis using list by blast
qed

text \<open>The list shows a policy whose content breaks the contract; its page cannot be opened.\<close>

definition blank_policies :: db where
  "blank_policies = empty_db\<lparr>service_policies := [demo_policy terms 1 True\<lparr>pol_content := JArr [JStr '' '']\<rparr>]\<rparr>"

lemma blank_content:
  "listPublicPolicies (\<lambda>_. True) blank_policies = Inr [demo_entry terms 1]"
  "getPublicPolicy (\<lambda>_. True) ''terms'' blank_policies = Inl (Error ''Stored policy contract violation'')"
  by code_simp+

end
