(* ===== verification/Viewer.thy ===== *)
theory Viewer imports AdWatcher Schema begin

text \<open>
  What a fan sees while a song plays: \<open>apps/web/src/features/chant-sync\<close>, with
  \<open>lib/lyrics-position.ts\<close> (which cue is current), \<open>model/use-published-guide.ts\<close> (which guide is shown) and
  \<open>ui/LyricsViewerClient.tsx\<close> (the viewer and its lines).  The cells of the component are the fields of
  \<open>viewer\<close>; an event reads the state that was rendered last.  The identity of a lyrics array, which the
  cursor is compared by, is the place that the array has in the properties of the component.  Times are
  exact; one that is not finite is \<open>None\<close>.
\<close>

section \<open>The current cue\<close>

definition extra_offset :: "lyric_line \<Rightarrow> nat \<Rightarrow> jsnum" where
  "extra_offset line i = coalesce (seg_startTimeOffset (line_segments line ! i)) 0"

definition cue_count :: "lyric_line \<Rightarrow> nat" where
  "cue_count item = (if line_isExtra item then length (line_segments item) else 1)"

definition cue_start :: "lyric_line \<Rightarrow> nat \<Rightarrow> jsnum" where
  "cue_start item i = line_startTime item + (if line_isExtra item then extra_offset item i else 0)"

text \<open>\<open>latest\<close> starts at minus infinity, which is \<open>None\<close>.\<close>

record cue_scan =
  cs_latest :: "jsnum option"
  cs_line :: int
  cs_segment :: int

definition scan_cue :: "jsnum \<Rightarrow> nat \<Rightarrow> lyric_line \<Rightarrow> nat \<Rightarrow> cue_scan \<Rightarrow> cue_scan" where
  "scan_cue time index item i c =
    (let start = cue_start item i in
     if start \<le> time \<and> (case cs_latest c of None \<Rightarrow> True | Some latest \<Rightarrow> latest \<le> start)
     then \<lparr>cs_latest = Some start, cs_line = int index, cs_segment = (if line_isExtra item then int i else -1)\<rparr>
     else c)"

definition scan_line :: "jsnum \<Rightarrow> nat \<times> lyric_line \<Rightarrow> cue_scan \<Rightarrow> cue_scan" where
  "scan_line time = (\<lambda>(index, item). fold (scan_cue time index item) [0..<cue_count item])"

definition getLyricsPosition :: "lyrics_data \<Rightarrow> jsnum option \<Rightarrow> int \<times> int" where
  "getLyricsPosition lyrics time =
    (case time of
       None \<Rightarrow> (-1, -1)
     | Some t \<Rightarrow>
         let c = fold (scan_line t) (enumerate 0 lyrics) \<lparr>cs_latest = None, cs_line = -1, cs_segment = -1\<rparr>
         in (cs_line c, cs_segment c))"

section \<open>The shown guide\<close>

text \<open>The fields of \<open>PublishedCheerGuide\<close> that the viewer reads.\<close>

record viewer_guide =
  vg_id :: eid
  vg_mode :: guide_mode
  vg_lyrics :: lyrics_data

definition selectedGuide :: "viewer_guide list \<Rightarrow> string option \<Rightarrow> nat option" where
  "selectedGuide gs guideId =
    (case find (\<lambda>k. Some (vg_id (gs ! k)) = guideId) [0..<length gs] of
       Some k \<Rightarrow> Some k
     | None \<Rightarrow>
         (case find (\<lambda>k. vg_mode (gs ! k) = CONCERT) [0..<length gs] of
            Some k \<Rightarrow> Some k
          | None \<Rightarrow> if gs = [] then None else Some 0))"

text \<open>The effect that clears a query parameter that names no guide.\<close>

definition clean_param :: "viewer_guide list \<Rightarrow> string option \<Rightarrow> string option" where
  "clean_param gs guideId =
    (if guideId \<noteq> None \<and> guideId \<noteq> map_option (\<lambda>k. vg_id (gs ! k)) (selectedGuide gs guideId) then None else guideId)"

section \<open>The viewer\<close>

record viewer_song =
  vs_youtubeId :: string
  vs_lyrics :: lyrics_data
  vs_cheerGuides :: "viewer_guide list option"

datatype lyrics_ref = Song_lyrics | Guide_lyrics nat | Empty_lyrics

record cursor =
  cur_lyrics :: "lyrics_ref option"
  cur_line :: int
  cur_segment :: int

record viewer =
  vw_song :: viewer_song
  vw_player :: "nat option"
  vw_guideId :: "string option"
  vw_cursor :: cursor
  vw_ads :: ad_watcher

definition viewer_guides :: "viewer \<Rightarrow> viewer_guide list" where
  "viewer_guides v = coalesce (vs_cheerGuides (vw_song v)) []"

definition shown_ref :: "viewer \<Rightarrow> lyrics_ref" where
  "shown_ref v =
    (if vs_cheerGuides (vw_song v) = None then Song_lyrics
     else case selectedGuide (viewer_guides v) (vw_guideId v) of None \<Rightarrow> Empty_lyrics | Some k \<Rightarrow> Guide_lyrics k)"

fun lyrics_at :: "viewer_song \<Rightarrow> lyrics_ref \<Rightarrow> lyrics_data" where
  "lyrics_at song Song_lyrics = vs_lyrics song"
| "lyrics_at song (Guide_lyrics k) = vg_lyrics (coalesce (vs_cheerGuides song) [] ! k)"
| "lyrics_at song Empty_lyrics = []"

definition shown_lyrics :: "viewer \<Rightarrow> lyrics_data" where
  "shown_lyrics v = lyrics_at (vw_song v) (shown_ref v)"

definition viewer_ad :: "viewer \<Rightarrow> bool" where
  "viewer_ad v = useAdWatcher (vw_player v) (vs_youtubeId (vw_song v)) (vw_ads v)"

definition currentIndex :: "viewer \<Rightarrow> int" where
  "currentIndex v = (if cur_lyrics (vw_cursor v) = Some (shown_ref v) then cur_line (vw_cursor v) else -1)"

definition activeSegmentIndex :: "viewer \<Rightarrow> int" where
  "activeSegmentIndex v = (if cur_lyrics (vw_cursor v) = Some (shown_ref v) then cur_segment (vw_cursor v) else -1)"

definition viewer_start :: "viewer_song \<Rightarrow> string option \<Rightarrow> viewer" where
  "viewer_start song guideId = \<lparr>vw_song = song, vw_player = None, vw_guideId = guideId,
    vw_cursor = \<lparr>cur_lyrics = None, cur_line = -1, cur_segment = -1\<rparr>,
    vw_ads = \<lparr>aw_player = None, aw_targetId = vs_youtubeId song, aw_targetDuration = 0,
      aw_status = (None, vs_youtubeId song, False)\<rparr>\<rparr>"

definition updatePosition :: "lyrics_ref \<Rightarrow> jsnum option \<Rightarrow> viewer \<Rightarrow> viewer" where
  "updatePosition lines time v =
    (case getLyricsPosition (lyrics_at (vw_song v) lines) time of
       (line, segment) \<Rightarrow> v\<lparr>vw_cursor := \<lparr>cur_lyrics = Some lines, cur_line = line, cur_segment = segment\<rparr>\<rparr>)"

definition viewer_timeUpdate :: "jsnum option \<Rightarrow> viewer \<Rightarrow> viewer" where
  "viewer_timeUpdate time v = (if \<not> viewer_ad v then updatePosition (shown_ref v) time v else v)"

text \<open>A click on a shown line; seeking in the player is the player's affair.\<close>

definition handleLyricClick :: "nat \<Rightarrow> viewer \<Rightarrow> viewer" where
  "handleLyricClick index v =
    (if index < length (shown_lyrics v) \<and> vw_player v \<noteq> None \<and> \<not> viewer_ad v
     then updatePosition (shown_ref v) (Some (line_startTime (shown_lyrics v ! index))) v else v)"

text \<open>Choosing another guide; \<open>time\<close> is what the player answers, if there is one.\<close>

definition handleGuideChange :: "eid \<Rightarrow> jsnum option \<Rightarrow> viewer \<Rightarrow> viewer" where
  "handleGuideChange i time v =
    (case find (\<lambda>k. vg_id (viewer_guides v ! k) = i) [0..<length (viewer_guides v)] of
       None \<Rightarrow> v
     | Some k \<Rightarrow>
         let t = (if vw_player v = None then Some 0 else time);
             v' = (if \<not> viewer_ad v then updatePosition (Guide_lyrics k) t v else v)
         in v'\<lparr>vw_guideId := Some i\<rparr>)"

text \<open>The address that is shared: its query parameter \<open>guide\<close>.\<close>

definition shared_guide :: "viewer \<Rightarrow> string option" where
  "shared_guide v = map_option (\<lambda>k. vg_id (viewer_guides v ! k)) (selectedGuide (viewer_guides v) (vw_guideId v))"

datatype viewer_event =
    Ready nat
  | Tick "string option" jsnum
  | TimeUpdate "jsnum option"
  | Click nat
  | Choose eid "jsnum option"
  | Address "string option"
  | CleanAddress

text \<open>Every rendering runs the effect of the watcher.\<close>

definition viewer_rendered :: "viewer \<Rightarrow> viewer" where
  "viewer_rendered v = v\<lparr>vw_ads := ad_effect (vw_player v) (vs_youtubeId (vw_song v)) (vw_ads v)\<rparr>"

fun viewer_do :: "viewer_event \<Rightarrow> viewer \<Rightarrow> viewer" where
  "viewer_do (Ready p) v = v\<lparr>vw_player := Some p\<rparr>"
| "viewer_do (Tick i d) v = v\<lparr>vw_ads := checkAdStatus i d (vw_ads v)\<rparr>"
| "viewer_do (TimeUpdate t) v = viewer_timeUpdate t v"
| "viewer_do (Click i) v = handleLyricClick i v"
| "viewer_do (Choose i t) v = handleGuideChange i t v"
| "viewer_do (Address g) v = v\<lparr>vw_guideId := g\<rparr>"
| "viewer_do CleanAddress v = v\<lparr>vw_guideId := clean_param (viewer_guides v) (vw_guideId v)\<rparr>"

definition viewer_run :: "viewer_event list \<Rightarrow> viewer \<Rightarrow> viewer" where
  "viewer_run = fold (\<lambda>e v. viewer_rendered (viewer_do e v))"

section \<open>A line on the screen\<close>

definition add_to_groups :: "lyric_line \<Rightarrow> nat \<Rightarrow> nat list list \<Rightarrow> nat list list" where
  "add_to_groups line index groups =
    (if line_isExtra line \<and> groups \<noteq> [] \<and> extra_offset line (hd (last groups)) = extra_offset line index
     then butlast groups @ [last groups @ [index]]
     else groups @ [[index]])"

definition segment_groups :: "lyric_line \<Rightarrow> nat list list" where
  "segment_groups line = fold (add_to_groups line) [0..<length (line_segments line)] []"

datatype color_state = default_color | extraTarget | extraUntarget | echo_color | cheer_color

text \<open>The optional access \<open>line.segments[activeSeg]?.startTimeOffset ?? 0\<close>.\<close>

definition active_offset :: "lyric_line \<Rightarrow> int \<Rightarrow> jsnum" where
  "active_offset line activeSeg =
    (if 0 \<le> activeSeg \<and> nat activeSeg < length (line_segments line) then extra_offset line (nat activeSeg) else 0)"

definition colorState :: "lyric_line \<Rightarrow> bool \<Rightarrow> int \<Rightarrow> nat \<Rightarrow> color_state" where
  "colorState line isActive activeSeg k =
    (if line_isExtra line then
       (if isActive \<and> 0 \<le> activeSeg \<and> extra_offset line k = active_offset line activeSeg then extraTarget else extraUntarget)
     else if seg_isEcho (line_segments line ! k) then echo_color
     else if seg_isCheer (line_segments line ! k) then cheer_color
     else default_color)"

text \<open>Whether a group is underlined; reading \<open>startTimeOffset\<close> of an absent segment throws, which is \<open>None\<close>.\<close>

definition group_active :: "lyric_line \<Rightarrow> bool \<Rightarrow> int \<Rightarrow> nat list \<Rightarrow> bool option" where
  "group_active line isActive activeSeg indices =
    (if isActive \<and> 0 \<le> activeSeg then
       (if indices = [] then Some False
        else if nat activeSeg < length (line_segments line)
        then Some (list_ex (\<lambda>k. extra_offset line k = extra_offset line (nat activeSeg)) indices)
        else None)
     else Some False)"

record shown_group =
  sg_underlined :: bool
  sg_texts :: "(string \<times> color_state) list"

definition lyricLineItem :: "lyric_line \<Rightarrow> bool \<Rightarrow> int \<Rightarrow> shown_group list option" where
  "lyricLineItem line isActive activeSeg =
    those (map (\<lambda>indices.
      map_option (\<lambda>active. \<lparr>sg_underlined = (line_isExtra line \<and> active),
          sg_texts = map (\<lambda>k. (seg_text (line_segments line ! k), colorState line isActive activeSeg k)) indices\<rparr>)
        (group_active line isActive activeSeg indices)) (segment_groups line))"

definition render_lyrics :: "viewer \<Rightarrow> shown_group list list option" where
  "render_lyrics v =
    those (map (\<lambda>(index, line). lyricLineItem line (int index = currentIndex v) (activeSegmentIndex v))
      (enumerate 0 (shown_lyrics v)))"

section \<open>The current cue is the last one that started\<close>

definition started :: "lyrics_data \<Rightarrow> jsnum \<Rightarrow> nat \<Rightarrow> nat \<Rightarrow> bool" where
  "started lyrics t k i \<longleftrightarrow> k < length lyrics \<and> i < cue_count (lyrics ! k) \<and> cue_start (lyrics ! k) i \<le> t"

text \<open>Of the cues that have started, the one that started last; of those, the last on the page.\<close>

definition current_cue :: "lyrics_data \<Rightarrow> jsnum \<Rightarrow> nat \<Rightarrow> nat \<Rightarrow> bool" where
  "current_cue lyrics t k i \<longleftrightarrow> started lyrics t k i \<and>
    (\<forall>k' i'. started lyrics t k' i' \<longrightarrow>
       cue_start (lyrics ! k') i' < cue_start (lyrics ! k) i \<or>
       cue_start (lyrics ! k') i' = cue_start (lyrics ! k) i \<and> (k' < k \<or> k' = k \<and> i' \<le> i))"

definition page_before :: "nat \<times> nat \<Rightarrow> nat \<times> nat \<Rightarrow> bool" where
  "page_before = (\<lambda>(k, i) (k', i'). k < k' \<or> k = k' \<and> i < i')"

definition line_cues :: "lyrics_data \<Rightarrow> nat \<Rightarrow> (nat \<times> nat) list" where
  "line_cues lyrics k = map (Pair k) [0..<cue_count (lyrics ! k)]"

definition cues :: "lyrics_data \<Rightarrow> nat \<Rightarrow> (nat \<times> nat) list" where
  "cues lyrics n = concat (map (line_cues lyrics) [0..<n])"

lemma in_cues: "(k, i) \<in> set (cues lyrics n) \<longleftrightarrow> k < n \<and> i < cue_count (lyrics ! k)"
  by (induction n) (auto simp: cues_def line_cues_def less_Suc_eq)

lemma cues_sorted: "sorted_wrt page_before (cues lyrics n)"
proof (induction n)
  case (Suc n)
  have "cues lyrics (Suc n) = cues lyrics n @ line_cues lyrics n"
    by (simp add: cues_def)
  moreover have "sorted_wrt page_before (line_cues lyrics n)"
    by (simp add: line_cues_def sorted_wrt_map page_before_def)
  ultimately show ?case
    using Suc in_cues by (fastforce simp: sorted_wrt_append line_cues_def page_before_def)
qed (simp add: cues_def)

definition scan_at :: "lyrics_data \<Rightarrow> jsnum \<Rightarrow> nat \<times> nat \<Rightarrow> cue_scan \<Rightarrow> cue_scan" where
  "scan_at lyrics t = (\<lambda>(k, i). scan_cue t k (lyrics ! k) i)"

lemma scan_is_fold:
  "fold (scan_line t) (enumerate 0 lyrics) c = fold (scan_at lyrics t) (cues lyrics (length lyrics)) c"
proof -
  have lines: "enumerate 0 lyrics = map (\<lambda>k. (k, lyrics ! k)) [0..<length lyrics]"
    by (rule nth_equalityI) (simp_all add: nth_enumerate_eq)
  have line: "scan_line t (k, lyrics ! k) = fold (scan_at lyrics t) (line_cues lyrics k)" for k
    by (simp add: scan_line_def line_cues_def fold_map scan_at_def comp_def)
  have "fold (scan_line t) (map (\<lambda>k. (k, lyrics ! k)) ks) c = fold (scan_at lyrics t) (concat (map (line_cues lyrics) ks)) c" for ks c
    by (induction ks arbitrary: c) (simp_all add: line)
  then show ?thesis
    by (simp add: lines cues_def)
qed

text \<open>What the scan knows after a part of the page.\<close>

definition scanned :: "lyrics_data \<Rightarrow> jsnum \<Rightarrow> (nat \<times> nat) list \<Rightarrow> cue_scan \<Rightarrow> bool" where
  "scanned lyrics t cs c \<longleftrightarrow>
    (case cs_latest c of
       None \<Rightarrow> cs_line c = -1 \<and> cs_segment c = -1 \<and> (\<forall>(k, i) \<in> set cs. \<not> cue_start (lyrics ! k) i \<le> t)
     | Some latest \<Rightarrow> \<exists>k i. (k, i) \<in> set cs \<and> latest = cue_start (lyrics ! k) i \<and> latest \<le> t \<and>
         cs_line c = int k \<and> cs_segment c = (if line_isExtra (lyrics ! k) then int i else -1) \<and>
         (\<forall>(k', i') \<in> set cs. cue_start (lyrics ! k') i' \<le> t \<longrightarrow>
            cue_start (lyrics ! k') i' < latest \<or>
            cue_start (lyrics ! k') i' = latest \<and> (page_before (k', i') (k, i) \<or> (k', i') = (k, i))))"

lemma scan_step:
  assumes c: "scanned lyrics t cs c" and before: "\<And>y. y \<in> set cs \<Longrightarrow> page_before y (k, i)"
  shows "scanned lyrics t (cs @ [(k, i)]) (scan_cue t k (lyrics ! k) i c)"
proof (cases "cue_start (lyrics ! k) i \<le> t \<and> (case cs_latest c of None \<Rightarrow> True | Some latest \<Rightarrow> latest \<le> cue_start (lyrics ! k) i)")
  case True
  have older: "cue_start (lyrics ! k') i' \<le> cue_start (lyrics ! k) i"
    if "(k', i') \<in> set cs" "cue_start (lyrics ! k') i' \<le> t" for k' i'
    using c True that by (fastforce simp: scanned_def split: option.splits)
  have "scan_cue t k (lyrics ! k) i c =
      \<lparr>cs_latest = Some (cue_start (lyrics ! k) i), cs_line = int k, cs_segment = (if line_isExtra (lyrics ! k) then int i else -1)\<rparr>"
    using True by (simp add: scan_cue_def Let_def)
  moreover have "\<forall>(k', i') \<in> set (cs @ [(k, i)]). cue_start (lyrics ! k') i' \<le> t \<longrightarrow>
      cue_start (lyrics ! k') i' < cue_start (lyrics ! k) i \<or>
      cue_start (lyrics ! k') i' = cue_start (lyrics ! k) i \<and> (page_before (k', i') (k, i) \<or> (k', i') = (k, i))"
    using older before by (auto simp: le_less)
  ultimately show ?thesis
    unfolding scanned_def using True by (auto intro!: exI[of _ k] exI[of _ i])
next
  case False
  then have "scan_cue t k (lyrics ! k) i c = c"
    unfolding scan_cue_def Let_def by (rule if_not_P)
  then show ?thesis
    using c False by (fastforce simp: scanned_def split: option.splits)
qed

lemma scan_scanned:
  assumes "sorted_wrt page_before cs"
  shows "scanned lyrics t cs (fold (scan_at lyrics t) cs \<lparr>cs_latest = None, cs_line = -1, cs_segment = -1\<rparr>)"
  using assms
proof (induction cs rule: rev_induct)
  case (snoc x cs)
  then show ?case
    using scan_step[of lyrics t cs _ "fst x" "snd x"] by (auto simp: sorted_wrt_append scan_at_def split_beta)
qed (simp add: scanned_def)

lemma started_cues: "started lyrics t k i \<longleftrightarrow> (k, i) \<in> set (cues lyrics (length lyrics)) \<and> cue_start (lyrics ! k) i \<le> t"
  by (auto simp: started_def in_cues)

text \<open>The position, by cases; \<open>position_exact\<close> says the same as two equivalences.\<close>

lemma position_cases:
  obtains (before) "\<And>k i. \<not> started lyrics t k i" and "getLyricsPosition lyrics (Some t) = (-1, -1)"
  | (cue) k i where "current_cue lyrics t k i"
      and "getLyricsPosition lyrics (Some t) = (int k, if line_isExtra (lyrics ! k) then int i else -1)"
proof -
  define c where "c = fold (scan_at lyrics t) (cues lyrics (length lyrics)) \<lparr>cs_latest = None, cs_line = -1, cs_segment = -1\<rparr>"
  have position: "getLyricsPosition lyrics (Some t) = (cs_line c, cs_segment c)"
    by (simp add: getLyricsPosition_def scan_is_fold c_def Let_def)
  have scan: "scanned lyrics t (cues lyrics (length lyrics)) c"
    unfolding c_def by (rule scan_scanned) (rule cues_sorted)
  show ?thesis
  proof (cases "cs_latest c")
    case None
    then have "\<not> started lyrics t k i" for k i
      using scan by (auto simp: scanned_def started_cues)
    then show ?thesis
      using scan None by (intro before) (auto simp: scanned_def position)
  next
    case (Some latest)
    then obtain k i where "(k, i) \<in> set (cues lyrics (length lyrics))" "latest = cue_start (lyrics ! k) i" "latest \<le> t"
      and at: "cs_line c = int k" "cs_segment c = (if line_isExtra (lyrics ! k) then int i else -1)"
      and last: "\<And>k' i'. started lyrics t k' i' \<Longrightarrow> cue_start (lyrics ! k') i' < latest \<or>
          cue_start (lyrics ! k') i' = latest \<and> (page_before (k', i') (k, i) \<or> (k', i') = (k, i))"
      using scan by (fastforce simp: scanned_def started_cues)
    then have "current_cue lyrics t k i"
      using last by (fastforce simp: current_cue_def started_cues page_before_def)
    then show ?thesis
      by (rule cue) (simp add: position at)
  qed
qed

lemma current_cue_unique:
  assumes "current_cue lyrics t k i" and "current_cue lyrics t k' i'"
  shows "k = k' \<and> i = i'"
proof -
  have "started lyrics t k i" and "started lyrics t k' i'"
    using assms by (auto simp: current_cue_def)
  then have "cue_start (lyrics ! k') i' < cue_start (lyrics ! k) i \<or>
        cue_start (lyrics ! k') i' = cue_start (lyrics ! k) i \<and> (k' < k \<or> k' = k \<and> i' \<le> i)"
    and "cue_start (lyrics ! k) i < cue_start (lyrics ! k') i' \<or>
        cue_start (lyrics ! k) i = cue_start (lyrics ! k') i' \<and> (k < k' \<or> k = k' \<and> i \<le> i')"
    using assms unfolding current_cue_def by blast+
  then show ?thesis by auto
qed

text \<open>C10.
  The viewer's position is exactly the cue that started last (of cues that started at the same moment,
  the last one on the page): its line, and its segment if the line is a fan chant; before the first cue
  there is none.\<close>

theorem position_exact:
  "(getLyricsPosition lyrics (Some t) = (int k, j) \<longleftrightarrow>
      (\<exists>i. current_cue lyrics t k i \<and> j = (if line_isExtra (lyrics ! k) then int i else -1)))
    \<and> (getLyricsPosition lyrics (Some t) = (-1, -1) \<longleftrightarrow> (\<nexists>k i. started lyrics t k i))"
proof (cases rule: position_cases[of lyrics t])
  case before
  then show ?thesis
    by (auto simp: current_cue_def)
next
  case (cue k' i')
  have "started lyrics t k' i'"
    using cue(1) by (simp add: current_cue_def)
  moreover have "current_cue lyrics t k i \<longleftrightarrow> k = k' \<and> i = i'" for i
    using current_cue_unique cue(1) by blast
  ultimately show ?thesis
    using cue(2) by auto
qed

section \<open>The position is on the page\<close>

definition on_page :: "lyrics_data \<Rightarrow> int \<Rightarrow> int \<Rightarrow> bool" where
  "on_page lyrics l s \<longleftrightarrow>
    (l = -1 \<and> s = -1) \<or>
    (0 \<le> l \<and> l < int (length lyrics) \<and>
     (if line_isExtra (lyrics ! nat l) then 0 \<le> s \<and> s < int (length (line_segments (lyrics ! nat l))) else s = -1))"

lemma position_on_page: "getLyricsPosition lyrics time = (l, s) \<Longrightarrow> on_page lyrics l s"
proof (cases time)
  case (Some t)
  assume "getLyricsPosition lyrics time = (l, s)"
  then show ?thesis
    using Some by (cases rule: position_cases[of lyrics t])
      (auto simp: on_page_def current_cue_def started_def cue_count_def split: if_splits)
qed (simp add: getLyricsPosition_def on_page_def)

definition viewer_ok :: "viewer \<Rightarrow> bool" where
  "viewer_ok v \<longleftrightarrow> (case cur_lyrics (vw_cursor v) of
     None \<Rightarrow> cur_line (vw_cursor v) = -1 \<and> cur_segment (vw_cursor v) = -1
   | Some r \<Rightarrow> on_page (lyrics_at (vw_song v) r) (cur_line (vw_cursor v)) (cur_segment (vw_cursor v)))"

lemma updatePosition_ok [intro, simp]: "viewer_ok (updatePosition r t v)"
  by (auto simp: updatePosition_def viewer_ok_def position_on_page split: prod.split)

lemma updatePosition_song [simp]: "vw_song (updatePosition r t v) = vw_song v"
  by (simp add: updatePosition_def split: prod.split)

lemma viewer_ok_update [simp]:
  "viewer_ok (v\<lparr>vw_player := p\<rparr>) = viewer_ok v" "viewer_ok (v\<lparr>vw_guideId := g\<rparr>) = viewer_ok v"
  "viewer_ok (v\<lparr>vw_ads := w\<rparr>) = viewer_ok v"
  by (simp_all add: viewer_ok_def split: option.split)

lemma viewer_do_ok: "viewer_ok v \<Longrightarrow> viewer_ok (viewer_do e v)"
  by (cases e) (auto simp: viewer_timeUpdate_def handleLyricClick_def handleGuideChange_def Let_def split: option.splits)

lemma viewer_do_song [simp]: "vw_song (viewer_do e v) = vw_song v"
  by (cases e) (auto simp: viewer_timeUpdate_def handleLyricClick_def handleGuideChange_def Let_def split: option.splits)

lemma viewer_run_ok: "viewer_ok v \<Longrightarrow> viewer_ok (viewer_run es v)"
  by (induction es arbitrary: v) (simp_all add: viewer_run_def viewer_rendered_def viewer_do_ok)

lemma viewer_start_ok: "viewer_ok (viewer_start song g)"
  by (simp add: viewer_start_def viewer_ok_def)

lemma shown_on_page: "viewer_ok v \<Longrightarrow> on_page (shown_lyrics v) (currentIndex v) (activeSegmentIndex v)"
  by (auto simp: viewer_ok_def shown_lyrics_def currentIndex_def activeSegmentIndex_def on_page_def split: option.splits)

section \<open>Groups of a line\<close>

lemma segment_groups_step:
  "fold (add_to_groups line) [0..<Suc n] [] = add_to_groups line n (fold (add_to_groups line) [0..<n] [])"
  by simp

definition same_offset :: "lyric_line \<Rightarrow> nat list \<Rightarrow> bool" where
  "same_offset line g \<longleftrightarrow> (\<forall>k \<in> set g. extra_offset line k = extra_offset line (hd g))"

lemma groups_inv:
  "concat (fold (add_to_groups line) [0..<n] []) = [0..<n] \<and>
    list_all (\<lambda>g. g \<noteq> [] \<and> same_offset line g) (fold (add_to_groups line) [0..<n] [])"
proof (induction n)
  case (Suc n)
  define gs where "gs = fold (add_to_groups line) [0..<n] []"
  have gs: "concat gs = [0..<n]" "list_all (\<lambda>g. g \<noteq> [] \<and> same_offset line g) gs"
    using Suc by (simp_all add: gs_def)
  have "concat (add_to_groups line n gs) = [0..<Suc n] \<and>
      list_all (\<lambda>g. g \<noteq> [] \<and> same_offset line g) (add_to_groups line n gs)"
  proof (cases gs rule: rev_cases)
    case Nil
    then show ?thesis
      using gs by (simp add: add_to_groups_def same_offset_def)
  next
    case (snoc hs g)
    then have g: "g \<noteq> []" "same_offset line g" "list_all (\<lambda>g. g \<noteq> [] \<and> same_offset line g) hs"
      and parts: "concat hs @ g = [0..<n]"
      using gs by simp_all
    have "same_offset line (g @ [n])" if "extra_offset line (hd g) = extra_offset line n"
      using g that by (simp add: same_offset_def)
    moreover have "same_offset line [n]"
      by (simp add: same_offset_def)
    ultimately show ?thesis
      using g parts by (simp add: add_to_groups_def snoc flip: append_assoc)
  qed
  then show ?case
    unfolding segment_groups_step gs_def .
qed simp

lemma segment_groups_partition: "concat (segment_groups line) = [0..<length (line_segments line)]"
  and segment_groups_same: "g \<in> set (segment_groups line) \<Longrightarrow> g \<noteq> [] \<and> same_offset line g"
  using groups_inv[of line "length (line_segments line)"] by (auto simp: segment_groups_def list_all_iff)

section \<open>Every page can be drawn\<close>

definition seg_in_line :: "lyric_line \<Rightarrow> bool \<Rightarrow> int \<Rightarrow> bool" where
  "seg_in_line line isActive s \<longleftrightarrow> (isActive \<and> 0 \<le> s \<longrightarrow> line_isExtra line \<and> nat s < length (line_segments line))"

text \<open>
  What a drawn line must show: its segments in order, each with its text, its colour and whether it is
  underlined.  A segment belongs to the current cue if it starts at the same time as the current segment.\<close>

definition in_current_cue :: "lyric_line \<Rightarrow> bool \<Rightarrow> int \<Rightarrow> nat \<Rightarrow> bool" where
  "in_current_cue line isActive s k \<longleftrightarrow> line_isExtra line \<and> isActive \<and> 0 \<le> s \<and>
    cue_start line k = cue_start line (nat s)"

definition shown_segment :: "lyric_line \<Rightarrow> bool \<Rightarrow> int \<Rightarrow> nat \<Rightarrow> string \<times> color_state \<times> bool" where
  "shown_segment line isActive s k =
    (let seg = line_segments line ! k in
     (seg_text seg,
      (if line_isExtra line then (if in_current_cue line isActive s k then extraTarget else extraUntarget)
       else if seg_isEcho seg then echo_color else if seg_isCheer seg then cheer_color else default_color),
      in_current_cue line isActive s k))"

definition shown_of :: "shown_group \<Rightarrow> (string \<times> color_state \<times> bool) list" where
  "shown_of g = map (\<lambda>(t, c). (t, c, sg_underlined g)) (sg_texts g)"

definition drawn :: "bool \<Rightarrow> int \<Rightarrow> lyric_line \<Rightarrow> shown_group list \<Rightarrow> bool" where
  "drawn isActive s line gs \<longleftrightarrow>
    concat (map shown_of gs) = map (shown_segment line isActive s) [0..<length (line_segments line)]"

definition drawn_group :: "lyric_line \<Rightarrow> bool \<Rightarrow> int \<Rightarrow> nat list \<Rightarrow> shown_group" where
  "drawn_group line isActive s indices =
    \<lparr>sg_underlined = (line_isExtra line \<and> isActive \<and> 0 \<le> s \<and> list_ex (\<lambda>k. extra_offset line k = extra_offset line (nat s)) indices),
     sg_texts = map (\<lambda>k. (seg_text (line_segments line ! k), colorState line isActive s k)) indices\<rparr>"

lemma drawn_group_shown:
  assumes "seg_in_line line isActive s" and "same_offset line g" and "g \<noteq> []"
  shows "shown_of (drawn_group line isActive s g) = map (shown_segment line isActive s) g"
proof -
  have same: "extra_offset line k = extra_offset line (hd g)" if "k \<in> set g" for k
    using assms(2) that by (simp add: same_offset_def)
  have any: "list_ex (\<lambda>k. extra_offset line k = extra_offset line (nat s)) g \<longleftrightarrow> extra_offset line (hd g) = extra_offset line (nat s)"
  proof
    assume "list_ex (\<lambda>k. extra_offset line k = extra_offset line (nat s)) g"
    then obtain k where k: "k \<in> set g" "extra_offset line k = extra_offset line (nat s)"
      unfolding list_ex_iff by blast
    show "extra_offset line (hd g) = extra_offset line (nat s)"
      unfolding same[OF k(1), symmetric] by (rule k(2))
  next
    assume "extra_offset line (hd g) = extra_offset line (nat s)"
    then show "list_ex (\<lambda>k. extra_offset line k = extra_offset line (nat s)) g"
      unfolding list_ex_iff using hd_in_set[OF assms(3)] by blast
  qed
  have "(seg_text (line_segments line ! k), colorState line isActive s k, sg_underlined (drawn_group line isActive s g)) =
      shown_segment line isActive s k" if "k \<in> set g" for k
    using assms(1) same[OF that]
    by (auto simp: drawn_group_def any colorState_def active_offset_def seg_in_line_def shown_segment_def in_current_cue_def
        cue_start_def Let_def)
  moreover have "shown_of (drawn_group line isActive s g) =
      map (\<lambda>k. (seg_text (line_segments line ! k), colorState line isActive s k, sg_underlined (drawn_group line isActive s g))) g"
    by (simp add: shown_of_def) (simp add: drawn_group_def)
  ultimately show ?thesis
    by simp
qed

lemma group_active_known:
  assumes "seg_in_line line isActive s"
  shows "group_active line isActive s g =
    Some (isActive \<and> 0 \<le> s \<and> list_ex (\<lambda>k. extra_offset line k = extra_offset line (nat s)) g)"
  using assms by (auto simp: group_active_def seg_in_line_def)

lemma line_drawn:
  assumes "seg_in_line line isActive s"
  shows "\<exists>gs. lyricLineItem line isActive s = Some gs \<and> drawn isActive s line gs"
proof (intro exI conjI)
  have "map_option (\<lambda>active. \<lparr>sg_underlined = (line_isExtra line \<and> active),
        sg_texts = map (\<lambda>k. (seg_text (line_segments line ! k), colorState line isActive s k)) g\<rparr>) (group_active line isActive s g) =
      Some (drawn_group line isActive s g)" if "g \<in> set (segment_groups line)" for g
    by (simp add: group_active_known[OF assms] drawn_group_def)
  then show "lyricLineItem line isActive s = Some (map (drawn_group line isActive s) (segment_groups line))"
    unfolding lyricLineItem_def by (rule those_map_Some)
  have "map shown_of (map (drawn_group line isActive s) (segment_groups line)) =
      map (map (shown_segment line isActive s)) (segment_groups line)"
    using assms segment_groups_same drawn_group_shown by simp
  then show "drawn isActive s line (map (drawn_group line isActive s) (segment_groups line))"
    by (simp only: drawn_def map_concat [symmetric] segment_groups_partition)
qed

text \<open>A row of the page is drawn as the line of its number.\<close>

definition row_drawn :: "viewer \<Rightarrow> nat \<times> lyric_line \<Rightarrow> shown_group list \<Rightarrow> bool" where
  "row_drawn v x gs \<longleftrightarrow> drawn (int (fst x) = currentIndex v) (activeSegmentIndex v) (snd x) gs"

lemma render_lyrics_drawn:
  assumes "on_page (shown_lyrics v) (currentIndex v) (activeSegmentIndex v)"
  shows "\<exists>rows. render_lyrics v = Some rows \<and> list_all2 (row_drawn v) (enumerate 0 (shown_lyrics v)) rows"
proof -
  define item where "item = (\<lambda>(index, line). lyricLineItem line (int index = currentIndex v) (activeSegmentIndex v))"
  have "seg_in_line line (int index = currentIndex v) (activeSegmentIndex v)"
    if "(index, line) \<in> set (enumerate 0 (shown_lyrics v))" for index line
  proof -
    have line: "line = shown_lyrics v ! index" and "index < length (shown_lyrics v)"
      using that by (auto simp: in_set_enumerate_eq)
    moreover have "nat (currentIndex v) = index" if "int index = currentIndex v"
      using that by linarith
    ultimately show ?thesis
      using assms by (auto simp: seg_in_line_def on_page_def split: if_splits)
  qed
  then have some: "\<exists>gs. item x = Some gs \<and> row_drawn v x gs" if "x \<in> set (enumerate 0 (shown_lyrics v))" for x
    using that line_drawn by (cases x) (simp add: item_def row_drawn_def)
  have "\<exists>rows. those (map item xs) = Some rows \<and> list_all2 (row_drawn v) xs rows"
    if "\<And>x. x \<in> set xs \<Longrightarrow> \<exists>gs. item x = Some gs \<and> row_drawn v x gs" for xs
    using that
  proof (induction xs)
    case (Cons x xs)
    obtain gs where "item x = Some gs" "row_drawn v x gs"
      using Cons.prems[of x] by auto
    moreover obtain rows where "those (map item xs) = Some rows" "list_all2 (row_drawn v) xs rows"
      using Cons by auto
    ultimately show ?case by auto
  qed simp
  from this[of "enumerate 0 (shown_lyrics v)"] some show ?thesis
    by (simp add: render_lyrics_def flip: item_def)
qed


section \<open>Following the player\<close>

text \<open>Without an advertisement a time update moves the highlight to the cue of that time; during one it stays.\<close>

lemma viewer_ad_rendered_ads [simp]: "viewer_ad (v\<lparr>vw_cursor := c\<rparr>) = viewer_ad v"
  by (simp add: viewer_ad_def)

lemma viewer_follows_time:
  "\<not> viewer_ad v \<Longrightarrow>
    (currentIndex (viewer_do (TimeUpdate t) v), activeSegmentIndex (viewer_do (TimeUpdate t) v)) = getLyricsPosition (shown_lyrics v) t"
  "viewer_ad v \<Longrightarrow> viewer_do (TimeUpdate t) v = v"
  by (auto simp: viewer_timeUpdate_def updatePosition_def currentIndex_def activeSegmentIndex_def shown_lyrics_def
      shown_ref_def viewer_guides_def split: prod.splits)

section \<open>The address that is shared\<close>

lemma find_nth_distinct:
  assumes "distinct (map f xs)" and "k < length xs"
  shows "find (\<lambda>j. Some (f (xs ! j)) = Some (f (xs ! k))) [0..<length xs] = Some k"
proof -
  have "f (xs ! j) = f (xs ! k) \<longleftrightarrow> j = k" if "j < length xs" for j
    using assms that nth_eq_iff_index_eq[OF assms(1), of j k] by simp
  then show ?thesis
    using assms(2) by (auto simp: find_Some_iff intro!: exI[of _ k])
qed

lemma selectedGuide_length: "selectedGuide gs g = Some k \<Longrightarrow> k < length gs"
  by (auto simp: selectedGuide_def find_Some_iff split: option.splits if_splits)

lemma share_link_roundtrip:
  assumes "distinct (map vg_id (viewer_guides v))"
  shows "shown_ref (viewer_start (vw_song v) (shared_guide v)) = shown_ref v"
proof (cases "selectedGuide (viewer_guides v) (vw_guideId v)")
  case None
  then have "viewer_guides v = []"
    by (auto simp: selectedGuide_def split: option.splits if_splits)
  then show ?thesis
    by (simp add: shown_ref_def viewer_start_def viewer_guides_def shared_guide_def None selectedGuide_def)
next
  case (Some k)
  then have "selectedGuide (viewer_guides v) (Some (vg_id (viewer_guides v ! k))) = Some k"
    using find_nth_distinct[OF assms] selectedGuide_length by (simp add: selectedGuide_def)
  moreover have "shared_guide v = Some (vg_id (viewer_guides v ! k))"
    by (simp add: shared_guide_def Some)
  moreover have "viewer_guides (viewer_start (vw_song v) g) = viewer_guides v" for g
    by (simp add: viewer_guides_def viewer_start_def)
  moreover have "vw_guideId (viewer_start song g) = g" "vw_song (viewer_start song g) = song" for g song
    by (simp_all add: viewer_start_def)
  ultimately show ?thesis
    by (simp add: shown_ref_def Some)
qed

text \<open>Clearing a parameter that names no guide does not change what is shown.\<close>

lemma clean_param_shown: "selectedGuide gs (clean_param gs g) = selectedGuide gs g"
proof (cases "find (\<lambda>k. Some (vg_id (gs ! k)) = g) [0..<length gs]")
  case None
  then have "selectedGuide gs g = selectedGuide gs None"
    unfolding selectedGuide_def None by (simp add: find_None_iff[THEN iffD2])
  then show ?thesis
    by (simp add: clean_param_def)
next
  case (Some k)
  then have "g = Some (vg_id (gs ! k))"
    by (auto simp: find_Some_iff)
  then show ?thesis
    using Some by (simp add: clean_param_def selectedGuide_def)
qed

end
