(* ===== verification/MfaLimiter.thy ===== *)
theory MfaLimiter imports Schema "HOL-Library.AList" begin

text \<open>
  The limit on attempts to sign in to the console: \<open>apps/console/src/server/auth/console-mfa-limiter.ts\<close>.
  An attempt reserves a point of its address (20 per window of 300 seconds) and one of its account (5 per
  window); a refused attempt and a successful one give their points back, a failed one does not.  Requests
  interleave wherever the code awaits; between two awaits the code runs alone, and at one reading of the
  clock.  \<open>RateLimiterMemory\<close> of the package rate-limiter-flexible is a parameter, \<open>limiter_documented\<close> states
  what its documentation promises (its operations take effect when they are called), and so are SHA-256 and the client's address (\<open>getConsoleClientIp\<close>).
\<close>

section \<open>The rate limiter of the package\<close>

text \<open>
  \<open>ml_consume\<close> answers \<open>None\<close> when the point was consumed and the remaining milliseconds of the window when
  there was none left.
\<close>

record 'm memory_limiter =
  ml_new :: 'm
  ml_consume :: "string \<Rightarrow> instant \<Rightarrow> 'm \<Rightarrow> 'm \<times> int option"
  ml_reward :: "string \<Rightarrow> instant \<Rightarrow> 'm \<Rightarrow> 'm"
  ml_delete :: "string \<Rightarrow> 'm \<Rightarrow> 'm"

text \<open>\<open>new RateLimiterMemory({points, duration})\<close>.\<close>

type_synonym 'm rate_limiter = "nat \<Rightarrow> nat \<Rightarrow> 'm memory_limiter"

text \<open>The consumed points of a key and the end of its window, unless that has passed.\<close>

definition live :: "(string \<Rightarrow> (int \<times> instant) option) \<Rightarrow> string \<Rightarrow> instant \<Rightarrow> (int \<times> instant) option" where
  "live m k t = (case m k of None \<Rightarrow> None | Some (c, e) \<Rightarrow> if t < e then Some (c, e) else None)"

definition duration_s :: nat where
  "duration_s = 300"

text \<open>
  For the duration that the limiters are made with: a window begins with the first point and lasts for the
  duration; consuming counts a point even when it is refused; rewarding takes one back; deleting forgets
  the key.
\<close>

definition limiter_documented :: "('m \<Rightarrow> string \<Rightarrow> (int \<times> instant) option) \<Rightarrow> 'm rate_limiter \<Rightarrow> bool" where
  "limiter_documented used rl \<longleftrightarrow>
    (\<forall>points. let L = rl points duration_s; fresh = \<lambda>t. t + int duration_s * 1000 in
       used (ml_new L) = (\<lambda>_. None) \<and>
       (\<forall>k t m. 
          (case live (used m) k t of
             None \<Rightarrow> used (fst (ml_consume L k t m)) = (used m)(k \<mapsto> (1, fresh t)) \<and>
               snd (ml_consume L k t m) = (if 1 \<le> points then None else Some (int duration_s * 1000)) \<and>
               used (ml_reward L k t m) = (used m)(k \<mapsto> (-1, fresh t))
           | Some (c, e) \<Rightarrow> used (fst (ml_consume L k t m)) = (used m)(k \<mapsto> (c + 1, e)) \<and>
               snd (ml_consume L k t m) = (if c + 1 \<le> int points then None else Some (e - t)) \<and>
               used (ml_reward L k t m) = (used m)(k \<mapsto> (c - 1, e))) \<and>
          used (ml_delete L k m) = (used m)(k := None)))"

section \<open>State\<close>

text \<open>A window object; two objects with the same \<open>expiresAt\<close> differ in their identity.\<close>

record window =
  win_id :: nat
  win_expiresAt :: instant

type_synonym windows = "(string \<times> window) list"

definition maxAccounts :: nat where
  "maxAccounts = 1024"

definition maxIps :: nat where
  "maxIps = 4096"

definition account_limiter :: "'m rate_limiter \<Rightarrow> 'm memory_limiter" where
  "account_limiter rl = rl 5 duration_s"

definition ip_limiter :: "'m rate_limiter \<Rightarrow> 'm memory_limiter" where
  "ip_limiter rl = rl 20 duration_s"

text \<open>\<open>lim_fresh\<close> is the identity of the next window object.\<close>

record 'm limiter_state =
  lim_account :: 'm
  lim_ip :: 'm
  lim_accounts :: windows
  lim_ips :: windows
  lim_fresh :: nat

definition limiter_start :: "'m rate_limiter \<Rightarrow> 'm limiter_state" where
  "limiter_start rl = \<lparr>lim_account = ml_new (account_limiter rl), lim_ip = ml_new (ip_limiter rl),
    lim_accounts = [], lim_ips = [], lim_fresh = 0\<rparr>"

text \<open>The constructor of \<open>ConsoleMfaRateLimited\<close>, from milliseconds to whole seconds.\<close>

definition retryAfterSeconds :: "int \<Rightarrow> int" where
  "retryAfterSeconds msBeforeNext = max 1 ((msBeforeNext + 999) div 1000)"

section \<open>The steps of an attempt\<close>

text \<open>The loops that forget windows that are over.\<close>

definition purge_mem :: "'m memory_limiter \<Rightarrow> instant \<Rightarrow> windows \<Rightarrow> 'm \<Rightarrow> 'm" where
  "purge_mem L now ws m = fold (\<lambda>(k, w) m. if win_expiresAt w \<le> now then ml_delete L k m else m) ws m"

definition purge_windows :: "instant \<Rightarrow> windows \<Rightarrow> windows" where
  "purge_windows now ws = filter (\<lambda>(k, w). \<not> win_expiresAt w \<le> now) ws"

definition open_window :: "instant \<Rightarrow> string \<Rightarrow> windows \<Rightarrow> nat \<Rightarrow> window \<times> windows \<times> nat" where
  "open_window now key ws fresh =
    (case map_of ws key of
       Some w \<Rightarrow> (w, ws, fresh)
     | None \<Rightarrow>
         let w = \<lparr>win_id = fresh, win_expiresAt = now + int duration_s * 1000\<rparr>
         in (w, ws @ [(key, w)], Suc fresh))"

text \<open>
  Where an attempt stands: the point of its address was refused or granted; the point of its account was
  refused, or it still has to give back that of its address; it is running, with its refund function; the
  refund function is between its two rewards, or done; it failed with a number of seconds to wait.
\<close>

datatype stage =
    Ip_refused int
  | Ip_granted
  | Account_refused window int
  | Ip_refund_due int
  | Running window
  | Refunding window
  | Refunded
  | Refused int

record attempt =
  at_email :: string
  at_ipKey :: string
  at_ipWindow :: window
  at_stage :: stage

definition refundIp :: "'m rate_limiter \<Rightarrow> instant \<Rightarrow> attempt \<Rightarrow> 'm limiter_state \<Rightarrow> 'm limiter_state" where
  "refundIp rl now a s =
    (if map_of (lim_ips s) (at_ipKey a) = Some (at_ipWindow a) \<and> now < win_expiresAt (at_ipWindow a)
     then s\<lparr>lim_ip := ml_reward (ip_limiter rl) (at_ipKey a) now (lim_ip s)\<rparr> else s)"

text \<open>\<open>reserveConsoleMfaAttempt\<close> up to its first await.\<close>

definition reserve_ip :: "'m rate_limiter \<Rightarrow> instant \<Rightarrow> string \<Rightarrow> string \<Rightarrow> 'm limiter_state \<Rightarrow> 'm limiter_state \<times> attempt" where
  "reserve_ip rl now email clientIp s =
    (let L = ip_limiter rl;
         ips = purge_windows now (lim_ips s);
         mem = purge_mem L now (lim_ips s) (lim_ip s);
         ipKey = (if map_of ips clientIp = None \<and> maxIps \<le> length ips then ''unknown'' else clientIp)
     in case open_window now ipKey ips (lim_fresh s) of (ipWindow, ips', fresh) \<Rightarrow>
        (case ml_consume L ipKey now mem of (mem', refused) \<Rightarrow>
           (s\<lparr>lim_ips := ips', lim_ip := mem', lim_fresh := fresh\<rparr>,
            \<lparr>at_email = email, at_ipKey = ipKey, at_ipWindow = ipWindow,
             at_stage = (case refused of None \<Rightarrow> Ip_granted | Some ms \<Rightarrow> Ip_refused ms)\<rparr>)))"

definition account_key :: "(string \<Rightarrow> string) \<Rightarrow> attempt \<Rightarrow> string" where
  "account_key sha256 a = sha256 (toLowerCase (trim (at_email a)))"

text \<open>From there to the next await.\<close>

definition reserve_account ::
  "'m rate_limiter \<Rightarrow> (string \<Rightarrow> string) \<Rightarrow> instant \<Rightarrow> attempt \<Rightarrow> 'm limiter_state \<Rightarrow> 'm limiter_state \<times> attempt" where
  "reserve_account rl sha256 now a s =
    (let L = account_limiter rl;
         key = account_key sha256 a;
         accounts = purge_windows now (lim_accounts s);
         mem = purge_mem L now (lim_accounts s) (lim_account s);
         s1 = s\<lparr>lim_accounts := accounts, lim_account := mem\<rparr>
     in if map_of accounts key = None \<and> maxAccounts \<le> length accounts
        then (refundIp rl now a s1,
          a\<lparr>at_stage := Refused (retryAfterSeconds (Min (set (map (\<lambda>(k, w). win_expiresAt w) accounts)) - now))\<rparr>)
        else case open_window now key accounts (lim_fresh s1) of (window, accounts', fresh) \<Rightarrow>
          (case ml_consume L key now mem of (mem', refused) \<Rightarrow>
             (s1\<lparr>lim_accounts := accounts', lim_account := mem', lim_fresh := fresh\<rparr>,
              a\<lparr>at_stage := (case refused of None \<Rightarrow> Running window | Some ms \<Rightarrow> Account_refused window ms)\<rparr>)))"

text \<open>
  What happens next to an attempt; for one that runs, this is the call of its refund function.  \<open>None\<close>:
  nothing, also when a refund function is called a second time.
\<close>

definition advance ::
  "'m rate_limiter \<Rightarrow> (string \<Rightarrow> string) \<Rightarrow> instant \<Rightarrow> attempt \<Rightarrow> 'm limiter_state \<Rightarrow> ('m limiter_state \<times> attempt) option" where
  "advance rl sha256 now a s =
    (let key = account_key sha256 a; reward = \<lambda>s. s\<lparr>lim_account := ml_reward (account_limiter rl) key now (lim_account s)\<rparr> in
     case at_stage a of
       Ip_refused ms \<Rightarrow> Some (refundIp rl now a s, a\<lparr>at_stage := Refused (retryAfterSeconds ms)\<rparr>)
     | Ip_granted \<Rightarrow> Some (reserve_account rl sha256 now a s)
     | Account_refused w ms \<Rightarrow>
         Some (if now < win_expiresAt w then reward s else s, a\<lparr>at_stage := Ip_refund_due ms\<rparr>)
     | Ip_refund_due ms \<Rightarrow> Some (refundIp rl now a s, a\<lparr>at_stage := Refused (retryAfterSeconds ms)\<rparr>)
     | Running w \<Rightarrow> Some (refundIp rl now a s, a\<lparr>at_stage := Refunding w\<rparr>)
     | Refunding w \<Rightarrow>
         Some (if map_of (lim_accounts s) key = Some w \<and> now < win_expiresAt w then reward s else s, a\<lparr>at_stage := Refunded\<rparr>)
     | Refunded \<Rightarrow> None
     | Refused _ \<Rightarrow> None)"

section \<open>Interleaved requests\<close>

record 'm limiter_system =
  sy_now :: instant
  sy_state :: "'m limiter_state"
  sy_attempts :: "attempt list"

inductive limiter_step :: "'m rate_limiter \<Rightarrow> (string \<Rightarrow> string) \<Rightarrow> 'm limiter_system \<Rightarrow> 'm limiter_system \<Rightarrow> bool"
  for rl :: "'m rate_limiter" and sha256 :: "string \<Rightarrow> string" where
  wait: "sy_now y \<le> now \<Longrightarrow> limiter_step rl sha256 y (y\<lparr>sy_now := now\<rparr>)"
| arrive: "reserve_ip rl (sy_now y) email clientIp (sy_state y) = (s, a) \<Longrightarrow>
    limiter_step rl sha256 y (y\<lparr>sy_state := s, sy_attempts := sy_attempts y @ [a]\<rparr>)"
| go_on: "i < length (sy_attempts y) \<Longrightarrow> advance rl sha256 (sy_now y) (sy_attempts y ! i) (sy_state y) = Some (s, a) \<Longrightarrow>
    limiter_step rl sha256 y (y\<lparr>sy_state := s, sy_attempts := (sy_attempts y)[i := a]\<rparr>)"

definition limiter_system_start :: "'m rate_limiter \<Rightarrow> instant \<Rightarrow> 'm limiter_system" where
  "limiter_system_start rl now = \<lparr>sy_now = now, sy_state = limiter_start rl, sy_attempts = []\<rparr>"

section \<open>One table of windows and its limiter\<close>

text \<open>
  Both reservations work on a table of windows and a limiter.  \<open>out key w\<close> is the number of points of the
  window that attempts hold; \<open>known\<close> are the windows of the table or of an attempt.
\<close>

definition known :: "windows \<Rightarrow> (string \<Rightarrow> window \<Rightarrow> nat) \<Rightarrow> string \<Rightarrow> window \<Rightarrow> bool" where
  "known ws out key w \<longleftrightarrow> (key, w) \<in> set ws \<or> 0 < out key w"

definition table_ok ::
  "('m \<Rightarrow> string \<Rightarrow> (int \<times> instant) option) \<Rightarrow> instant \<Rightarrow> nat \<Rightarrow> windows \<Rightarrow> 'm \<Rightarrow> (string \<Rightarrow> window \<Rightarrow> nat) \<Rightarrow> bool" where
  "table_ok used now fresh ws m out \<longleftrightarrow>
    distinct (map fst ws) \<and>
    (\<forall>key w. known ws out key w \<longrightarrow> win_id w < fresh) \<and>
    (\<forall>key w. (key, w) \<in> set ws \<and> now < win_expiresAt w \<longrightarrow> used m key = Some (int (out key w), win_expiresAt w)) \<and>
    (\<forall>key. key \<notin> fst ` set ws \<longrightarrow> used m key = None) \<and>
    (\<forall>key w. 0 < out key w \<and> now < win_expiresAt w \<longrightarrow> (key, w) \<in> set ws) \<and>
    (\<forall>key w w'. known ws out key w \<and> known ws out key w' \<and> w \<noteq> w' \<longrightarrow>
       int duration_s * 1000 \<le> \<bar>win_expiresAt w - win_expiresAt w'\<bar>)"

definition running_windows :: "instant \<Rightarrow> windows \<Rightarrow> bool" where
  "running_windows now ws \<longleftrightarrow> (\<forall>(k, w) \<in> set ws. now < win_expiresAt w)"

lemma table_okI:
  assumes "distinct (map fst ws)" and "\<And>key w. known ws out key w \<Longrightarrow> win_id w < fresh"
    and "\<And>key w. (key, w) \<in> set ws \<Longrightarrow> now < win_expiresAt w \<Longrightarrow> used m key = Some (int (out key w), win_expiresAt w)"
    and "\<And>key. key \<notin> fst ` set ws \<Longrightarrow> used m key = None"
    and "\<And>key w. 0 < out key w \<Longrightarrow> now < win_expiresAt w \<Longrightarrow> (key, w) \<in> set ws"
    and "\<And>key w w'. known ws out key w \<Longrightarrow> known ws out key w' \<Longrightarrow> w \<noteq> w' \<Longrightarrow>
      int duration_s * 1000 \<le> \<bar>win_expiresAt w - win_expiresAt w'\<bar>"
  shows "table_ok used now fresh ws m out"
  unfolding table_ok_def using assms by blast

lemma table_okD:
  assumes "table_ok used now fresh ws m out"
  shows "distinct (map fst ws)" and "known ws out key w \<Longrightarrow> win_id w < fresh"
    and "(key, w) \<in> set ws \<Longrightarrow> now < win_expiresAt w \<Longrightarrow> used m key = Some (int (out key w), win_expiresAt w)"
    and "key \<notin> fst ` set ws \<Longrightarrow> used m key = None"
    and "0 < out key w \<Longrightarrow> now < win_expiresAt w \<Longrightarrow> (key, w) \<in> set ws"
    and "known ws out key w \<Longrightarrow> known ws out key w' \<Longrightarrow> w \<noteq> w' \<Longrightarrow>
      int duration_s * 1000 \<le> \<bar>win_expiresAt w - win_expiresAt w'\<bar>"
  using assms unfolding table_ok_def by blast+

lemma table_ok_later: "table_ok used now fresh ws m out \<Longrightarrow> now \<le> now' \<Longrightarrow> table_ok used now' fresh ws m out"
  unfolding table_ok_def by fastforce

lemma table_ok_fresh: "table_ok used now fresh ws m out \<Longrightarrow> fresh \<le> fresh' \<Longrightarrow> table_ok used now fresh' ws m out"
  unfolding table_ok_def by (meson order_less_le_trans)

lemma documented_delete: "limiter_documented used rl \<Longrightarrow> used (ml_delete (rl p duration_s) k m) = (used m)(k := None)"
  by (simp add: limiter_documented_def Let_def)

lemma documented_new: "limiter_documented used rl \<Longrightarrow> used (ml_new (rl p duration_s)) = (\<lambda>_. None)"
  by (simp add: limiter_documented_def Let_def)

lemma documented_consume:
  assumes "limiter_documented used rl"
  shows "live (used m) k t = None \<Longrightarrow> used (fst (ml_consume (rl p duration_s) k t m)) = (used m)(k \<mapsto> (1, t + int duration_s * 1000))"
    and "live (used m) k t = None \<Longrightarrow> snd (ml_consume (rl p duration_s) k t m) = (if 1 \<le> p then None else Some (int duration_s * 1000))"
    and "live (used m) k t = Some (c, e) \<Longrightarrow> used (fst (ml_consume (rl p duration_s) k t m)) = (used m)(k \<mapsto> (c + 1, e))"
    and "live (used m) k t = Some (c, e) \<Longrightarrow> snd (ml_consume (rl p duration_s) k t m) = (if c + 1 \<le> int p then None else Some (e - t))"
    and "live (used m) k t = Some (c, e) \<Longrightarrow> used (ml_reward (rl p duration_s) k t m) = (used m)(k \<mapsto> (c - 1, e))"
proof -
  note law = assms[unfolded limiter_documented_def Let_def, THEN spec, THEN conjunct2, THEN spec, THEN spec, THEN spec,
      THEN conjunct1, of p k t m]
  show "live (used m) k t = None \<Longrightarrow> used (fst (ml_consume (rl p duration_s) k t m)) = (used m)(k \<mapsto> (1, t + int duration_s * 1000))"
    and "live (used m) k t = None \<Longrightarrow> snd (ml_consume (rl p duration_s) k t m) = (if 1 \<le> p then None else Some (int duration_s * 1000))"
    and "live (used m) k t = Some (c, e) \<Longrightarrow> used (fst (ml_consume (rl p duration_s) k t m)) = (used m)(k \<mapsto> (c + 1, e))"
    and "live (used m) k t = Some (c, e) \<Longrightarrow> snd (ml_consume (rl p duration_s) k t m) = (if c + 1 \<le> int p then None else Some (e - t))"
    and "live (used m) k t = Some (c, e) \<Longrightarrow> used (ml_reward (rl p duration_s) k t m) = (used m)(k \<mapsto> (c - 1, e))"
    using law by simp_all
qed

lemma purge_mem_used:
  assumes "limiter_documented used rl"
  shows "used (purge_mem (rl p duration_s) now ws m) =
    (\<lambda>k. if \<exists>w. (k, w) \<in> set ws \<and> win_expiresAt w \<le> now then None else used m k)"
proof (induction ws arbitrary: m)
  case (Cons x ws)
  obtain k w where x: "x = (k, w)" by (cases x)
  have "purge_mem (rl p duration_s) now (x # ws) m =
      purge_mem (rl p duration_s) now ws (if win_expiresAt w \<le> now then ml_delete (rl p duration_s) k m else m)"
    by (simp add: purge_mem_def x)
  then show ?case
    by (auto simp: fun_eq_iff Cons x documented_delete[OF assms])
qed (simp add: purge_mem_def)

lemma purge_table:
  assumes doc: "limiter_documented used rl" and ok: "table_ok used now fresh ws m out"
  shows "table_ok used now fresh (purge_windows now ws) (purge_mem (rl p duration_s) now ws m) out"
    and "running_windows now (purge_windows now ws)"
proof -
  have mem: "(k, w) \<in> set (purge_windows now ws) \<longleftrightarrow> (k, w) \<in> set ws \<and> now < win_expiresAt w" for k w
    by (auto simp: purge_windows_def)
  show "running_windows now (purge_windows now ws)"
    by (auto simp: running_windows_def mem)
  have "distinct (map fst ws)"
    using ok by (simp add: table_ok_def)
  then have one: "w = w'" if "(k, w) \<in> set ws" "(k, w') \<in> set ws" for k w w'
    using that by (metis eq_key_imp_eq_value)
  show "table_ok used now fresh (purge_windows now ws) (purge_mem (rl p duration_s) now ws m) out"
  proof (rule table_okI)
    have known: "known ws out k w" if "known (purge_windows now ws) out k w" for k w
      using that by (auto simp: known_def mem)
    show "distinct (map fst (purge_windows now ws))"
      using \<open>distinct (map fst ws)\<close> by (auto simp: purge_windows_def distinct_map intro: inj_on_subset)
    show "win_id w < fresh" if "known (purge_windows now ws) out k w" for k w
      using table_okD(2)[OF ok] known[OF that] .
    show "used (purge_mem (rl p duration_s) now ws m) k = Some (int (out k w), win_expiresAt w)"
      if w: "(k, w) \<in> set (purge_windows now ws)" for k w
    proof -
      have w: "(k, w) \<in> set ws" "now < win_expiresAt w"
        using w by (simp_all add: mem)
      then have "(\<exists>w'. (k, w') \<in> set ws \<and> win_expiresAt w' \<le> now) = False"
        by (metis one w not_less)
      then show ?thesis
        by (simp only: purge_mem_used[OF doc] if_False table_okD(3)[OF ok w])
    qed
    show "used (purge_mem (rl p duration_s) now ws m) k = None" if gone: "k \<notin> fst ` set (purge_windows now ws)" for k
    proof (cases "k \<in> fst ` set ws")
      case True
      then obtain w where w: "(k, w) \<in> set ws" by auto
      then have "win_expiresAt w \<le> now"
        using gone mem[of k w] by force
      then show ?thesis
        using w by (auto simp: purge_mem_used[OF doc])
    next
      case False
      then show ?thesis
        using table_okD(4)[OF ok] by (simp add: purge_mem_used[OF doc])
    qed
    show "(k, w) \<in> set (purge_windows now ws)" if "0 < out k w" "now < win_expiresAt w" for k w
      using table_okD(5)[OF ok that] that(2) by (simp add: mem)
    show "int duration_s * 1000 \<le> \<bar>win_expiresAt w - win_expiresAt w'\<bar>"
      if "known (purge_windows now ws) out k w" "known (purge_windows now ws) out k w'" "w \<noteq> w'" for k w w'
      using table_okD(6)[OF ok known known] that by blast
  qed
qed

definition out_add :: "string \<Rightarrow> window \<Rightarrow> (string \<Rightarrow> window \<Rightarrow> nat) \<Rightarrow> string \<Rightarrow> window \<Rightarrow> nat" where
  "out_add key w out = out(key := (out key)(w := Suc (out key w)))"

definition out_sub :: "string \<Rightarrow> window \<Rightarrow> (string \<Rightarrow> window \<Rightarrow> nat) \<Rightarrow> string \<Rightarrow> window \<Rightarrow> nat" where
  "out_sub key w out = out(key := (out key)(w := out key w - 1))"

lemma known_window_over:
  assumes "table_ok used now fresh ws m out" and "known ws out key w" and "key \<notin> fst ` set ws"
  shows "win_expiresAt w \<le> now"
proof (rule ccontr)
  assume "\<not> win_expiresAt w \<le> now"
  then have "(key, w) \<in> set ws"
    using assms(2) table_okD(5)[OF assms(1)] by (auto simp: known_def)
  then show False
    using assms(3) by force
qed

lemma reserve_new:
  assumes doc: "limiter_documented used rl" and ok: "table_ok used now fresh ws m out"
    and new: "key \<notin> fst ` set ws"
  defines "w \<equiv> \<lparr>win_id = fresh, win_expiresAt = now + int duration_s * 1000\<rparr>"
  shows "table_ok used now (Suc fresh) (ws @ [(key, w)]) (fst (ml_consume (rl p duration_s) key now m)) (out_add key w out)"
    and "snd (ml_consume (rl p duration_s) key now m) = None \<longleftrightarrow> out key w + 1 \<le> p"
proof -
  have free: "live (used m) key now = None"
    using table_okD(4)[OF ok new] by (simp add: live_def)
  note m' = documented_consume(1)[OF doc free, of p]
  have out0: "out k w = 0" for k
    using table_okD(2)[OF ok, of k w] by (auto simp: known_def w_def)
  show "snd (ml_consume (rl p duration_s) key now m) = None \<longleftrightarrow> out key w + 1 \<le> p"
    by (simp add: documented_consume(2)[OF doc free] out0)
  have known: "k = key \<and> x = w \<or> known ws out k x" if "known (ws @ [(key, w)]) (out_add key w out) k x" for k x
    using that by (auto simp: known_def out_add_def split: if_splits)
  have apart: "win_expiresAt x \<le> now" if "known ws out key x" for x
    using known_window_over[OF ok that new] .
  show "table_ok used now (Suc fresh) (ws @ [(key, w)]) (fst (ml_consume (rl p duration_s) key now m)) (out_add key w out)"
  proof (rule table_okI)
    show "distinct (map fst (ws @ [(key, w)]))"
      using table_okD(1)[OF ok] new by auto
    show "win_id x < Suc fresh" if "known (ws @ [(key, w)]) (out_add key w out) k x" for k x
      using known[OF that] table_okD(2)[OF ok, of k x] by (auto simp: w_def)
    show "used (fst (ml_consume (rl p duration_s) key now m)) k = Some (int (out_add key w out k x), win_expiresAt x)"
      if "(k, x) \<in> set (ws @ [(key, w)])" "now < win_expiresAt x" for k x
    proof (cases "k = key")
      case True
      then have "x = w"
        using that(1) new by force
      then show ?thesis
        by (simp add: m' True out_add_def out0) (simp add: w_def)
    next
      case False
      then show ?thesis
        using that table_okD(3)[OF ok, of k x] by (auto simp: m' out_add_def)
    qed
    show "used (fst (ml_consume (rl p duration_s) key now m)) k = None" if "k \<notin> fst ` set (ws @ [(key, w)])" for k
      using that table_okD(4)[OF ok, of k] by (simp add: m')
    show "(k, x) \<in> set (ws @ [(key, w)])" if "0 < out_add key w out k x" "now < win_expiresAt x" for k x
      using that table_okD(5)[OF ok, of k x] by (auto simp: out_add_def split: if_splits)
    show "int duration_s * 1000 \<le> \<bar>win_expiresAt x - win_expiresAt x'\<bar>"
      if "known (ws @ [(key, w)]) (out_add key w out) k x" "known (ws @ [(key, w)]) (out_add key w out) k x'" "x \<noteq> x'" for k x x'
      using known[OF that(1)] known[OF that(2)] that(3) table_okD(6)[OF ok, of k x x'] apart[of x] apart[of x']
      by (fastforce simp: w_def)
  qed
qed

lemma reserve_again:
  assumes doc: "limiter_documented used rl" and ok: "table_ok used now fresh ws m out"
    and w: "(key, w) \<in> set ws" "now < win_expiresAt w"
  shows "table_ok used now fresh ws (fst (ml_consume (rl p duration_s) key now m)) (out_add key w out)"
    and "snd (ml_consume (rl p duration_s) key now m) = None \<longleftrightarrow> out key w + 1 \<le> p"
proof -
  have one: "x = w" if "(key, x) \<in> set ws" for x
    using eq_key_imp_eq_value[OF table_okD(1)[OF ok] that w(1)] .
  have held: "live (used m) key now = Some (int (out key w), win_expiresAt w)"
    using table_okD(3)[OF ok w] w(2) by (simp add: live_def)
  note m' = documented_consume(3)[OF doc held, of p]
  show "snd (ml_consume (rl p duration_s) key now m) = None \<longleftrightarrow> out key w + 1 \<le> p"
    by (auto simp: documented_consume(4)[OF doc held])
  have known: "known ws out k x" if "known ws (out_add key w out) k x" for k x
    using that w(1) by (auto simp: known_def out_add_def split: if_splits)
  show "table_ok used now fresh ws (fst (ml_consume (rl p duration_s) key now m)) (out_add key w out)"
  proof (rule table_okI)
    show "used (fst (ml_consume (rl p duration_s) key now m)) k = Some (int (out_add key w out k x), win_expiresAt x)"
      if "(k, x) \<in> set ws" "now < win_expiresAt x" for k x
      using that one[of x] table_okD(3)[OF ok that] by (auto simp: m' out_add_def)
    show "used (fst (ml_consume (rl p duration_s) key now m)) k = None" if "k \<notin> fst ` set ws" for k
      using that w(1) table_okD(4)[OF ok that] by (force simp: m')
    show "(k, x) \<in> set ws" if "0 < out_add key w out k x" "now < win_expiresAt x" for k x
      using that w(1) table_okD(5)[OF ok, of k x] by (auto simp: out_add_def split: if_splits)
  qed (use table_okD(1,2,6)[OF ok] known in blast)+
qed

lemma open_window_cases:
  assumes "open_window now key ws fresh = (w, ws', fresh')"
  obtains (again) "(key, w) \<in> set ws" "ws' = ws" "fresh' = fresh"
  | (new) "key \<notin> fst ` set ws" "w = \<lparr>win_id = fresh, win_expiresAt = now + int duration_s * 1000\<rparr>"
      "ws' = ws @ [(key, w)]" "fresh' = Suc fresh"
proof (cases "map_of ws key")
  case None
  then have "key \<notin> fst ` set ws"
    by (simp add: map_of_eq_None_iff)
  then show ?thesis
    using assms by (intro new) (auto simp: open_window_def None Let_def)
next
  case (Some x)
  then show ?thesis
    using assms map_of_SomeD[OF Some] by (intro again) (auto simp: open_window_def)
qed

lemma reserve_table:
  assumes doc: "limiter_documented used rl" and ok: "table_ok used now fresh ws m out"
    and running: "running_windows now ws" and opened: "open_window now key ws fresh = (w, ws', fresh')"
    and consumed: "ml_consume (rl p duration_s) key now m = (m', refused)"
  shows "table_ok used now fresh' ws' m' (out_add key w out)"
    and "refused = None \<longleftrightarrow> out key w + 1 \<le> p"
    and "(key, w) \<in> set ws'" and "running_windows now ws'" and "fresh \<le> fresh'"
proof -
  have m': "fst (ml_consume (rl p duration_s) key now m) = m'" "snd (ml_consume (rl p duration_s) key now m) = refused"
    using consumed by simp_all
  have "table_ok used now fresh' ws' m' (out_add key w out) \<and> (refused = None \<longleftrightarrow> out key w + 1 \<le> p) \<and>
      (key, w) \<in> set ws' \<and> running_windows now ws' \<and> fresh \<le> fresh'"
    using opened
  proof (cases rule: open_window_cases)
    case again
    then have "now < win_expiresAt w"
      using running by (auto simp: running_windows_def)
    then show ?thesis
      using reserve_again[OF doc ok again(1), of p] again running by (simp add: m')
  next
    case new
    then show ?thesis
      using reserve_new[OF doc ok new(1), of p, folded new(2), unfolded m'] running
      by (simp add: running_windows_def) (simp add: duration_s_def)
  qed
  then show "table_ok used now fresh' ws' m' (out_add key w out)" "refused = None \<longleftrightarrow> out key w + 1 \<le> p"
    "(key, w) \<in> set ws'" "running_windows now ws'" "fresh \<le> fresh'" by blast+
qed

text \<open>Giving a point back while the window runs; then the table still holds the window.\<close>

lemma refund_table:
  assumes doc: "limiter_documented used rl" and ok: "table_ok used now fresh ws m out" and held: "0 < out key w"
  shows "table_ok used now fresh ws (if now < win_expiresAt w then ml_reward (rl p duration_s) key now m else m) (out_sub key w out)"
    and "map_of ws key = Some w \<and> now < win_expiresAt w \<longleftrightarrow> now < win_expiresAt w"
proof -
  have in_table: "(key, w) \<in> set ws" if "now < win_expiresAt w"
    using table_okD(5)[OF ok held that] .
  then show "map_of ws key = Some w \<and> now < win_expiresAt w \<longleftrightarrow> now < win_expiresAt w"
    using map_of_is_SomeI[OF table_okD(1)[OF ok]] by auto
  have known: "known ws out k x" if "known ws (out_sub key w out) k x" for k x
    using that by (auto simp: known_def out_sub_def split: if_splits)
  have out_le: "out_sub key w out k x \<le> out k x" for k x
    by (simp add: out_sub_def)
  show "table_ok used now fresh ws (if now < win_expiresAt w then ml_reward (rl p duration_s) key now m else m) (out_sub key w out)"
  proof (cases "now < win_expiresAt w")
    case True
    note w = in_table[OF True]
    have one: "x = w" if "(key, x) \<in> set ws" for x
      using eq_key_imp_eq_value[OF table_okD(1)[OF ok] that w] .
    have "live (used m) key now = Some (int (out key w), win_expiresAt w)"
      using table_okD(3)[OF ok w True] True by (simp add: live_def)
    note m' = documented_consume(5)[OF doc this, of p]
    show ?thesis
      unfolding if_P[OF True]
    proof (rule table_okI)
      show "used (ml_reward (rl p duration_s) key now m) k = Some (int (out_sub key w out k x), win_expiresAt x)"
        if "(k, x) \<in> set ws" "now < win_expiresAt x" for k x
        using that one[of x] held table_okD(3)[OF ok that] by (auto simp: m' out_sub_def)
      show "used (ml_reward (rl p duration_s) key now m) k = None" if "k \<notin> fst ` set ws" for k
        using that w table_okD(4)[OF ok that] by (force simp: m')
      show "(k, x) \<in> set ws" if "0 < out_sub key w out k x" "now < win_expiresAt x" for k x
        using that out_le[of k x] by (intro table_okD(5)[OF ok]) auto
    qed (use table_okD(1,2,6)[OF ok] known in blast)+
  next
    case False
    show ?thesis
      unfolding if_not_P[OF False]
    proof (rule table_okI)
      show "used m k = Some (int (out_sub key w out k x), win_expiresAt x)"
        if "(k, x) \<in> set ws" "now < win_expiresAt x" for k x
        using that False table_okD(3)[OF ok that] by (auto simp: out_sub_def)
      show "(k, x) \<in> set ws" if "0 < out_sub key w out k x" "now < win_expiresAt x" for k x
        using that out_le[of k x] by (intro table_okD(5)[OF ok]) auto
    qed (use table_okD(1,2,4,6)[OF ok] known in blast)+
  qed
qed

section \<open>The points that attempts hold\<close>

definition out_of :: "(attempt \<Rightarrow> (string \<times> window) option) \<Rightarrow> attempt list \<Rightarrow> string \<Rightarrow> window \<Rightarrow> nat" where
  "out_of h as k w = length (filter (\<lambda>a. h a = Some (k, w)) as)"

fun stage_ip :: "stage \<Rightarrow> bool" where
  "stage_ip (Refunding _) = False"
| "stage_ip Refunded = False"
| "stage_ip (Refused _) = False"
| "stage_ip _ = True"

text \<open>
  The point of its account: an attempt holds it from the moment it is counted, also when the count refused
  it, until the reward or the end of its refund function.\<close>

fun stage_account :: "stage \<Rightarrow> window option" where
  "stage_account (Account_refused w _) = Some w"
| "stage_account (Running w) = Some w"
| "stage_account (Refunding w) = Some w"
| "stage_account _ = None"

text \<open>The points of an address and of an account that an attempt holds, and those that let it pass.\<close>

definition ip_point :: "attempt \<Rightarrow> (string \<times> window) option" where
  "ip_point a = (if stage_ip (at_stage a) then Some (at_ipKey a, at_ipWindow a) else None)"

definition account_point :: "(string \<Rightarrow> string) \<Rightarrow> attempt \<Rightarrow> (string \<times> window) option" where
  "account_point sha256 a = map_option (Pair (account_key sha256 a)) (stage_account (at_stage a))"

definition ip_pass :: "attempt \<Rightarrow> (string \<times> window) option" where
  "ip_pass a = (case at_stage a of Ip_refused _ \<Rightarrow> None | _ \<Rightarrow> ip_point a)"

definition account_pass :: "(string \<Rightarrow> string) \<Rightarrow> attempt \<Rightarrow> (string \<times> window) option" where
  "account_pass sha256 a = (case at_stage a of Account_refused _ _ \<Rightarrow> None | _ \<Rightarrow> account_point sha256 a)"

lemma out_of_append:
  "h a = None \<Longrightarrow> out_of h (as @ [a]) = out_of h as"
  "h a = Some (k, w) \<Longrightarrow> out_of h (as @ [a]) = out_add k w (out_of h as)"
  by (auto simp: out_of_def out_add_def fun_eq_iff)

lemma filter_update_length:
  assumes "i < length xs"
  shows "length (filter P (xs[i := b])) + (if P (xs ! i) then 1 else 0) = length (filter P xs) + (if P b then 1 else 0)"
proof -
  have split: "xs = take i xs @ xs ! i # drop (Suc i) xs"
    using assms by (simp add: id_take_nth_drop)
  have "xs[i := b] = take i xs @ b # drop (Suc i) xs"
    using assms by (simp add: upd_conv_take_nth_drop)
  then show ?thesis
    by (subst (3) split) simp
qed

lemma out_of_update:
  assumes "i < length as"
  shows "h b = h (as ! i) \<Longrightarrow> out_of h (as[i := b]) = out_of h as"
    and "h (as ! i) = None \<Longrightarrow> h b = Some (k, w) \<Longrightarrow> out_of h (as[i := b]) = out_add k w (out_of h as)"
    and "h (as ! i) = Some (k, w) \<Longrightarrow> h b = None \<Longrightarrow> out_of h (as[i := b]) = out_sub k w (out_of h as) \<and> 0 < out_of h as k w"
proof -
  note count = filter_update_length[OF assms, of "\<lambda>a. h a = Some (_, _)" b]
  show "out_of h (as[i := b]) = out_of h as" if "h b = h (as ! i)"
    using count that by (simp add: out_of_def fun_eq_iff)
  show "out_of h (as[i := b]) = out_add k w (out_of h as)" if "h (as ! i) = None" "h b = Some (k, w)"
  proof (intro ext)
    fix k' w'
    show "out_of h (as[i := b]) k' w' = out_add k w (out_of h as) k' w'"
      using count[of k' w'] that by (auto simp: out_of_def out_add_def split: if_splits)
  qed
  show "out_of h (as[i := b]) = out_sub k w (out_of h as) \<and> 0 < out_of h as k w" if "h (as ! i) = Some (k, w)" "h b = None"
  proof (intro conjI ext)
    show held: "0 < out_of h as k w"
      using count[of k w] that by (simp add: out_of_def) (metis list.size(3) nat.simps(3))
    fix k' w'
    show "out_of h (as[i := b]) k' w' = out_sub k w (out_of h as) k' w'"
      using count[of k' w'] that by (auto simp: out_of_def out_sub_def split: if_splits)
  qed
qed

lemma pass_le_point:
  "out_of ip_pass as k w \<le> out_of ip_point as k w"
  "out_of (account_pass sha256) as k w \<le> out_of (account_point sha256) as k w"
proof -
  have mono: "length (filter P as) \<le> length (filter Q as)" if "\<And>a. P a \<Longrightarrow> Q a" for P Q :: "attempt \<Rightarrow> bool"
    using that by (induction as) auto
  show "out_of ip_pass as k w \<le> out_of ip_point as k w"
    unfolding out_of_def by (rule mono) (auto simp: ip_pass_def split: stage.splits)
  show "out_of (account_pass sha256) as k w \<le> out_of (account_point sha256) as k w"
    unfolding out_of_def by (rule mono) (auto simp: account_pass_def split: stage.splits)
qed

section \<open>The invariant of the limiter\<close>

definition named_ips :: "windows \<Rightarrow> windows" where
  "named_ips ws = filter (\<lambda>(k, w). k \<noteq> ''unknown'') ws"

definition limiter_ok ::
  "('m \<Rightarrow> string \<Rightarrow> (int \<times> instant) option) \<Rightarrow> (string \<Rightarrow> string) \<Rightarrow> 'm limiter_system \<Rightarrow> bool" where
  "limiter_ok used sha256 y \<longleftrightarrow>
    (let s = sy_state y; as = sy_attempts y in
     table_ok used (sy_now y) (lim_fresh s) (lim_ips s) (lim_ip s) (out_of ip_point as) \<and>
     table_ok used (sy_now y) (lim_fresh s) (lim_accounts s) (lim_account s) (out_of (account_point sha256) as) \<and>
     length (named_ips (lim_ips s)) \<le> maxIps \<and> length (lim_accounts s) \<le> maxAccounts \<and>
     (\<forall>k w. out_of ip_pass as k w \<le> 20) \<and> (\<forall>k w. out_of (account_pass sha256) as k w \<le> 5))"

lemma limiter_start_ok:
  assumes "limiter_documented used rl"
  shows "limiter_ok used sha256 (limiter_system_start rl now)"
  by (simp add: limiter_ok_def limiter_system_start_def limiter_start_def table_ok_def known_def out_of_def
      named_ips_def account_limiter_def ip_limiter_def documented_new[OF assms])

lemma wait_ok: "limiter_ok used sha256 y \<Longrightarrow> sy_now y \<le> now \<Longrightarrow> limiter_ok used sha256 (y\<lparr>sy_now := now\<rparr>)"
  by (auto simp: limiter_ok_def Let_def intro: table_ok_later)

lemma purge_shorter: "length (purge_windows now ws) \<le> length ws" "length (named_ips (purge_windows now ws)) \<le> length (named_ips ws)"
proof -
  show "length (purge_windows now ws) \<le> length ws"
    by (simp add: purge_windows_def)
  have "named_ips (purge_windows now ws) = purge_windows now (named_ips ws)"
    by (simp add: purge_windows_def named_ips_def conj_commute split_beta)
  then show "length (named_ips (purge_windows now ws)) \<le> length (named_ips ws)"
    by (simp add: purge_windows_def)
qed

lemma named_shorter: "length (named_ips ws) \<le> length ws"
  by (simp add: named_ips_def)

lemma arrive_ok:
  assumes doc: "limiter_documented used rl" and ok: "limiter_ok used sha256 y"
    and reserve: "reserve_ip rl (sy_now y) email clientIp (sy_state y) = (s', a)"
  shows "limiter_ok used sha256 (y\<lparr>sy_state := s', sy_attempts := sy_attempts y @ [a]\<rparr>)"
proof -
  define s where "s = sy_state y"
  define ips where "ips = purge_windows (sy_now y) (lim_ips s)"
  define mem where "mem = purge_mem (ip_limiter rl) (sy_now y) (lim_ips s) (lim_ip s)"
  define ipKey where "ipKey = (if map_of ips clientIp = None \<and> maxIps \<le> length ips then ''unknown'' else clientIp)"
  obtain w ips' fresh where opened: "open_window (sy_now y) ipKey ips (lim_fresh s) = (w, ips', fresh)"
    by (cases "open_window (sy_now y) ipKey ips (lim_fresh s)")
  obtain mem' refused where consumed: "ml_consume (ip_limiter rl) ipKey (sy_now y) mem = (mem', refused)"
    by (cases "ml_consume (ip_limiter rl) ipKey (sy_now y) mem")
  have s': "s' = s\<lparr>lim_ips := ips', lim_ip := mem', lim_fresh := fresh\<rparr>"
    and a: "a = \<lparr>at_email = email, at_ipKey = ipKey, at_ipWindow = w,
        at_stage = (case refused of None \<Rightarrow> Ip_granted | Some ms \<Rightarrow> Ip_refused ms)\<rparr>"
    using reserve opened consumed by (simp_all add: reserve_ip_def s_def ips_def mem_def ipKey_def Let_def)
  let ?as = "sy_attempts y"
  have ok': "table_ok used (sy_now y) (lim_fresh s) (lim_ips s) (lim_ip s) (out_of ip_point ?as)"
    "table_ok used (sy_now y) (lim_fresh s) (lim_accounts s) (lim_account s) (out_of (account_point sha256) ?as)"
    "length (named_ips (lim_ips s)) \<le> maxIps" "length (lim_accounts s) \<le> maxAccounts"
    and pass: "out_of ip_pass ?as k x \<le> 20" "out_of (account_pass sha256) ?as k x \<le> 5" for k x
    using ok by (auto simp: limiter_ok_def Let_def s_def)
  note purged = purge_table(1)[OF doc ok'(1), of 20, folded ip_limiter_def, folded ips_def mem_def]
    purge_table(2)[OF doc ok'(1), folded ips_def]
  note table = reserve_table[OF doc purged opened consumed[unfolded ip_limiter_def]]
  have point: "ip_point a = Some (ipKey, w)" and none: "account_point sha256 a = None" "account_pass sha256 a = None"
    by (auto simp: a ip_point_def account_point_def account_pass_def split: option.split)
  have "out_of ip_pass (?as @ [a]) k x \<le> 20" for k x
  proof (cases refused)
    case None
    then have "ip_pass a = Some (ipKey, w)"
      by (simp add: a ip_pass_def ip_point_def)
    moreover have "out_of ip_pass ?as ipKey w + 1 \<le> 20"
      using table(2) None pass_le_point(1)[of ?as ipKey w] by simp
    ultimately show ?thesis
      using pass(1) by (simp add: out_of_append(2) out_add_def)
  next
    case (Some ms)
    then have "ip_pass a = None"
      by (simp add: a ip_pass_def)
    then show ?thesis
      using pass(1)[of k x] by (simp add: out_of_append(1))
  qed
  moreover have "length (named_ips ips') \<le> maxIps"
    using opened
  proof (cases rule: open_window_cases)
    case again
    then show ?thesis
      using ok'(3) purge_shorter(2)[of "sy_now y" "lim_ips s"] by (simp add: ips_def)
  next
    case new
    have "ipKey = ''unknown'' \<or> length ips < maxIps"
      using new(1) by (auto simp: ipKey_def map_of_eq_None_iff split: if_splits)
    then show ?thesis
    proof
      assume "ipKey = ''unknown''"
      then have "named_ips ips' = named_ips ips"
        by (simp add: new(3) named_ips_def)
      then show ?thesis
        using ok'(3) purge_shorter(2)[of "sy_now y" "lim_ips s"] by (simp add: ips_def)
    next
      assume "length ips < maxIps"
      then show ?thesis
        using named_shorter[of ips'] by (simp add: new(3))
    qed
  qed
  ultimately show ?thesis
    using table(1) ok' pass(2) table_ok_fresh[OF ok'(2) table(5)]
    by (simp add: limiter_ok_def s' out_of_append(2)[of ip_point, OF point] out_of_append(1)[of "account_point sha256", OF none(1)]
        out_of_append(1)[of "account_pass sha256", OF none(2)])
qed

text \<open>The bound on the points that let pass, when an attempt stops to hold one or changes nothing.\<close>

lemma pass_update_le:
  assumes "i < length as" and "h b = None \<or> h b = h (as ! i)"
  shows "out_of h (as[i := b]) k w \<le> out_of h as k w"
  using filter_update_length[OF assms(1), of "\<lambda>a. h a = Some (k, w)" b] assms(2)
  by (auto simp: out_of_def split: if_splits)

lemma refundIp_fields [simp]:
  "lim_ips (refundIp rl now a s) = lim_ips s" "lim_accounts (refundIp rl now a s) = lim_accounts s"
  "lim_account (refundIp rl now a s) = lim_account s" "lim_fresh (refundIp rl now a s) = lim_fresh s"
  by (simp_all add: refundIp_def)

lemma refundIp_table:
  assumes doc: "limiter_documented used rl" and ok: "table_ok used now fresh (lim_ips s) (lim_ip s) (out_of ip_point as)"
    and i: "i < length as" and point: "ip_point (as ! i) = Some (at_ipKey a, at_ipWindow a)" and gone: "ip_point b = None"
  shows "table_ok used now fresh (lim_ips s) (lim_ip (refundIp rl now a s)) (out_of ip_point (as[i := b]))"
proof -
  have out: "out_of ip_point (as[i := b]) = out_sub (at_ipKey a) (at_ipWindow a) (out_of ip_point as)"
    and held: "0 < out_of ip_point as (at_ipKey a) (at_ipWindow a)"
    using out_of_update(3)[of i as ip_point, OF i point gone] by blast+
  show ?thesis
    using refund_table[OF doc ok held] by (auto simp: refundIp_def out ip_limiter_def split: if_splits)
qed

text \<open>What a step of an attempt has to establish.\<close>

definition step_ok ::
  "('m \<Rightarrow> string \<Rightarrow> (int \<times> instant) option) \<Rightarrow> (string \<Rightarrow> string) \<Rightarrow> instant \<Rightarrow> 'm limiter_state \<Rightarrow> attempt list \<Rightarrow> bool" where
  "step_ok used sha256 now s as \<longleftrightarrow> limiter_ok used sha256 \<lparr>sy_now = now, sy_state = s, sy_attempts = as\<rparr>"

lemma step_okI:
  assumes "table_ok used now (lim_fresh s) (lim_ips s) (lim_ip s) (out_of ip_point as)"
    and "table_ok used now (lim_fresh s) (lim_accounts s) (lim_account s) (out_of (account_point sha256) as)"
    and "length (named_ips (lim_ips s)) \<le> maxIps" and "length (lim_accounts s) \<le> maxAccounts"
    and "\<And>k w. out_of ip_pass as k w \<le> 20" and "\<And>k w. out_of (account_pass sha256) as k w \<le> 5"
  shows "step_ok used sha256 now s as"
  using assms by (simp add: step_ok_def limiter_ok_def)

lemma step_okD:
  assumes "step_ok used sha256 now s as"
  shows "table_ok used now (lim_fresh s) (lim_ips s) (lim_ip s) (out_of ip_point as)"
    and "table_ok used now (lim_fresh s) (lim_accounts s) (lim_account s) (out_of (account_point sha256) as)"
    and "length (named_ips (lim_ips s)) \<le> maxIps" and "length (lim_accounts s) \<le> maxAccounts"
    and "out_of ip_pass as k w \<le> 20" and "out_of (account_pass sha256) as k w \<le> 5"
  using assms by (simp_all add: step_ok_def limiter_ok_def)

text \<open>Giving back the point of the address.\<close>

lemma refundIp_ok:
  assumes doc: "limiter_documented used rl" and ok: "step_ok used sha256 now s as" and i: "i < length as"
    and point: "stage_ip (at_stage (as ! i))" and gone: "\<not> stage_ip g"
    and account: "stage_account g = stage_account (at_stage (as ! i))"
    and pass: "account_pass sha256 ((as ! i)\<lparr>at_stage := g\<rparr>) = account_pass sha256 (as ! i)"
  shows "step_ok used sha256 now (refundIp rl now (as ! i) s) (as[i := (as ! i)\<lparr>at_stage := g\<rparr>])"
proof (rule step_okI)
  let ?b = "(as ! i)\<lparr>at_stage := g\<rparr>"
  note ok = step_okD[OF ok]
  have none: "ip_point ?b = None" "ip_pass ?b = None"
    using gone by (auto simp: ip_point_def ip_pass_def split: stage.splits)
  have "account_point sha256 ?b = account_point sha256 (as ! i)"
    by (simp add: account_point_def account_key_def account)
  then have same: "out_of (account_point sha256) (as[i := ?b]) = out_of (account_point sha256) as"
    by (rule out_of_update(1)[OF i])
  show "table_ok used now (lim_fresh (refundIp rl now (as ! i) s)) (lim_ips (refundIp rl now (as ! i) s))
      (lim_ip (refundIp rl now (as ! i) s)) (out_of ip_point (as[i := ?b]))"
    using refundIp_table[OF doc ok(1) i, of "as ! i" ?b] point none(1) by (simp add: ip_point_def)
  show "out_of ip_pass (as[i := ?b]) k w \<le> 20" for k w
    using pass_update_le[OF i, of ip_pass ?b k w] ok(5)[of k w] none(2) by simp
  show "out_of (account_pass sha256) (as[i := ?b]) k w \<le> 5" for k w
    using pass_update_le[OF i, of "account_pass sha256" ?b k w] ok(6)[of k w] pass by simp
qed (use step_okD[OF ok] out_of_update(1)[of i as "account_point sha256" "(as ! i)\<lparr>at_stage := g\<rparr>", OF i] account in
    \<open>simp_all add: account_point_def account_key_def\<close>)

text \<open>Giving back the point of the account.\<close>

lemma refund_account_ok:
  assumes doc: "limiter_documented used rl" and ok: "step_ok used sha256 now s as" and i: "i < length as"
    and point: "stage_account (at_stage (as ! i)) = Some w" and gone: "stage_account g = None"
    and ip: "ip_point ((as ! i)\<lparr>at_stage := g\<rparr>) = ip_point (as ! i)"
    and pass: "ip_pass ((as ! i)\<lparr>at_stage := g\<rparr>) = ip_pass (as ! i)"
  shows "step_ok used sha256 now
      (if now < win_expiresAt w
       then s\<lparr>lim_account := ml_reward (account_limiter rl) (account_key sha256 (as ! i)) now (lim_account s)\<rparr> else s)
      (as[i := (as ! i)\<lparr>at_stage := g\<rparr>])" (is "step_ok _ _ _ ?s _")
    and "map_of (lim_accounts s) (account_key sha256 (as ! i)) = Some w \<and> now < win_expiresAt w \<longleftrightarrow> now < win_expiresAt w"
proof -
  let ?b = "(as ! i)\<lparr>at_stage := g\<rparr>"
  let ?key = "account_key sha256 (as ! i)"
  have a: "account_point sha256 (as ! i) = Some (?key, w)" and b: "account_point sha256 ?b = None" "account_pass sha256 ?b = None"
    using point gone by (auto simp: account_point_def account_pass_def split: stage.splits)
  have out: "out_of (account_point sha256) (as[i := ?b]) = out_sub ?key w (out_of (account_point sha256) as)"
    and held: "0 < out_of (account_point sha256) as ?key w"
    using out_of_update(3)[of i as "account_point sha256", OF i a b(1)] by blast+
  note refund = refund_table[OF doc step_okD(2)[OF ok] held]
  show "map_of (lim_accounts s) ?key = Some w \<and> now < win_expiresAt w \<longleftrightarrow> now < win_expiresAt w"
    by (rule refund(2))
  show "step_ok used sha256 now ?s (as[i := ?b])"
  proof (rule step_okI)
    show "table_ok used now (lim_fresh ?s) (lim_accounts ?s) (lim_account ?s) (out_of (account_point sha256) (as[i := ?b]))"
      using refund(1)[of 5] by (auto simp: out account_limiter_def split: if_splits)
    show "table_ok used now (lim_fresh ?s) (lim_ips ?s) (lim_ip ?s) (out_of ip_point (as[i := ?b]))"
      using step_okD(1)[OF ok] out_of_update(1)[of i as ip_point, OF i ip] by simp
    show "out_of ip_pass (as[i := ?b]) k x \<le> 20" for k x
      using pass_update_le[OF i, of ip_pass ?b k x] step_okD(5)[OF ok, of k x] pass by simp
    show "out_of (account_pass sha256) (as[i := ?b]) k x \<le> 5" for k x
      using pass_update_le[OF i, of "account_pass sha256" ?b k x] step_okD(6)[OF ok, of k x] b(2) by simp
  qed (use step_okD(3,4)[OF ok] in simp_all)
qed

text \<open>Reserving the point of the account.\<close>

lemma purge_accounts_ok:
  assumes doc: "limiter_documented used rl" and ok: "step_ok used sha256 now s as"
  shows "step_ok used sha256 now (s\<lparr>lim_accounts := purge_windows now (lim_accounts s),
    lim_account := purge_mem (account_limiter rl) now (lim_accounts s) (lim_account s)\<rparr>) as"
proof (rule step_okI)
  show "length (lim_accounts (s\<lparr>lim_accounts := purge_windows now (lim_accounts s),
    lim_account := purge_mem (account_limiter rl) now (lim_accounts s) (lim_account s)\<rparr>)) \<le> maxAccounts"
    using step_okD(4)[OF ok] purge_shorter(1)[of now "lim_accounts s"] by simp
qed (use step_okD[OF ok] purge_table(1)[OF doc step_okD(2)[OF ok], of 5, folded account_limiter_def] in simp_all)

lemma reserve_account_cases:
  assumes "reserve_account rl sha256 now a s = (s', b)"
  defines "ws \<equiv> purge_windows now (lim_accounts s)"
    and "mem \<equiv> purge_mem (account_limiter rl) now (lim_accounts s) (lim_account s)"
  obtains (full) ms where "map_of ws (account_key sha256 a) = None" "maxAccounts \<le> length ws"
      "s' = refundIp rl now a (s\<lparr>lim_accounts := ws, lim_account := mem\<rparr>)" "b = a\<lparr>at_stage := Refused ms\<rparr>"
  | (room) w ws' fresh mem' refused where "open_window now (account_key sha256 a) ws (lim_fresh s) = (w, ws', fresh)"
      "ml_consume (account_limiter rl) (account_key sha256 a) now mem = (mem', refused)"
      "map_of ws (account_key sha256 a) \<noteq> None \<or> length ws < maxAccounts"
      "s' = s\<lparr>lim_accounts := ws', lim_account := mem', lim_fresh := fresh\<rparr>"
      "b = a\<lparr>at_stage := (case refused of None \<Rightarrow> Running w | Some ms \<Rightarrow> Account_refused w ms)\<rparr>"
proof (cases "map_of ws (account_key sha256 a) = None \<and> maxAccounts \<le> length ws")
  case True
  then have "s' = refundIp rl now a (s\<lparr>lim_accounts := ws, lim_account := mem\<rparr>)"
    and "b = a\<lparr>at_stage := Refused (retryAfterSeconds (Min (set (map (\<lambda>(k, w). win_expiresAt w) ws)) - now))\<rparr>"
    using assms(1) by (simp_all add: reserve_account_def Let_def ws_def mem_def)
  then show ?thesis
    using True by (intro full) simp_all
next
  case False
  obtain w ws' fresh where opened: "open_window now (account_key sha256 a) ws (lim_fresh s) = (w, ws', fresh)"
    by (cases "open_window now (account_key sha256 a) ws (lim_fresh s)")
  obtain mem' refused where consumed: "ml_consume (account_limiter rl) (account_key sha256 a) now mem = (mem', refused)"
    by (cases "ml_consume (account_limiter rl) (account_key sha256 a) now mem")
  have "(s', b) = (s\<lparr>lim_accounts := ws', lim_account := mem', lim_fresh := fresh\<rparr>,
      a\<lparr>at_stage := (case refused of None \<Rightarrow> Running w | Some ms \<Rightarrow> Account_refused w ms)\<rparr>)"
    using assms(1) False opened consumed unfolding reserve_account_def Let_def ws_def mem_def by auto
  then show ?thesis
    using False by (intro room[OF opened consumed]) auto
qed

lemma reserve_account_ok:
  assumes doc: "limiter_documented used rl" and ok: "step_ok used sha256 now s as" and i: "i < length as"
    and stage: "at_stage (as ! i) = Ip_granted" and reserve: "reserve_account rl sha256 now (as ! i) s = (s', b)"
  shows "step_ok used sha256 now s' (as[i := b])"
  using reserve
proof (cases rule: reserve_account_cases)
  case (full ms)
  show ?thesis
    unfolding full(3,4) using stage
    by (intro refundIp_ok[OF doc purge_accounts_ok[OF doc ok] i]) (simp_all add: account_pass_def account_point_def)
next
  case (room w accounts' fresh mem' refused)
  let ?a = "as ! i"
  let ?key = "account_key sha256 ?a"
  let ?accounts = "purge_windows now (lim_accounts s)"
  note purged = step_okD[OF purge_accounts_ok[OF doc ok], simplified]
  have running: "running_windows now ?accounts"
    by (rule purge_table(2)[OF doc step_okD(2)[OF ok]])
  note table = reserve_table[OF doc purged(2)[unfolded account_limiter_def] running room(1) room(2)[unfolded account_limiter_def]]
  have a: "account_point sha256 ?a = None" "account_pass sha256 ?a = None"
    by (simp_all add: account_point_def account_pass_def stage)
  have b: "account_point sha256 b = Some (?key, w)"
    by (auto simp: room(5) account_point_def account_key_def split: option.split)
  have ip: "ip_point b = ip_point ?a" "ip_pass b = ip_pass ?a"
    by (auto simp: room(5) ip_point_def ip_pass_def stage split: option.split)
  note out = out_of_update(2)[of i as "account_point sha256", OF i a(1) b]
  show ?thesis
  proof (rule step_okI)
    show "table_ok used now (lim_fresh s') (lim_accounts s') (lim_account s') (out_of (account_point sha256) (as[i := b]))"
      using table(1) by (simp add: room(4) out)
    show "table_ok used now (lim_fresh s') (lim_ips s') (lim_ip s') (out_of ip_point (as[i := b]))"
      using table_ok_fresh[OF purged(1) table(5)] by (simp add: room(4) out_of_update(1)[of i as ip_point, OF i ip(1)])
    show "length (named_ips (lim_ips s')) \<le> maxIps"
      using purged(3) by (simp add: room(4))
    have "length accounts' \<le> maxAccounts"
      using room(1)
    proof (cases rule: open_window_cases)
      case new
      then show ?thesis
        using room(3) by (simp add: map_of_eq_None_iff)
    qed (use purged(4) in simp)
    then show "length (lim_accounts s') \<le> maxAccounts"
      by (simp add: room(4))
    show "out_of ip_pass (as[i := b]) k x \<le> 20" for k x
      using pass_update_le[OF i, of ip_pass b k x] ip(2) purged(5)[of k x] by simp
    show "out_of (account_pass sha256) (as[i := b]) k x \<le> 5" for k x
    proof (cases refused)
      case None
      then have "account_pass sha256 b = Some (?key, w)"
        using b by (simp add: room(5) account_pass_def)
      moreover have "out_of (account_pass sha256) as ?key w + 1 \<le> 5"
        using table(2) None pass_le_point(2)[of sha256 as ?key w] by simp
      ultimately show ?thesis
        using purged(6) by (simp add: out_of_update(2)[of i as "account_pass sha256", OF i a(2)] out_add_def)
    next
      case (Some ms)
      then have "account_pass sha256 b = None"
        by (simp add: room(5) account_pass_def)
      then show ?thesis
        using pass_update_le[OF i, of "account_pass sha256" b k x] purged(6)[of k x] by simp
    qed
  qed
qed

lemma advance_ok:
  assumes doc: "limiter_documented used rl" and ok: "step_ok used sha256 now s as" and i: "i < length as"
    and step: "advance rl sha256 now (as ! i) s = Some (s', b)"
  shows "step_ok used sha256 now s' (as[i := b])"
proof (cases "at_stage (as ! i)")
  case (Ip_refused ms)
  then show ?thesis
    using step refundIp_ok[OF doc ok i, of "Refused (retryAfterSeconds ms)"]
    by (auto simp: advance_def Let_def account_pass_def account_point_def)
next
  case Ip_granted
  then show ?thesis
    using step by (intro reserve_account_ok[OF doc ok i Ip_granted]) (simp add: advance_def Let_def)
next
  case (Account_refused w ms)
  then show ?thesis
    using step refund_account_ok(1)[OF doc ok i, of w "Ip_refund_due ms"]
    by (auto simp: advance_def Let_def ip_pass_def ip_point_def)
next
  case (Ip_refund_due ms)
  then show ?thesis
    using step refundIp_ok[OF doc ok i, of "Refused (retryAfterSeconds ms)"]
    by (auto simp: advance_def Let_def account_pass_def account_point_def)
next
  case (Running w)
  then show ?thesis
    using step refundIp_ok[OF doc ok i, of "Refunding w"]
    by (auto simp: advance_def Let_def account_pass_def account_point_def account_key_def)
next
  case (Refunding w)
  have "ip_pass ((as ! i)\<lparr>at_stage := Refunded\<rparr>) = ip_pass (as ! i)" "ip_point ((as ! i)\<lparr>at_stage := Refunded\<rparr>) = ip_point (as ! i)"
    by (simp_all add: Refunding ip_pass_def ip_point_def)
  from refund_account_ok[OF doc ok i _ _ this(2,1), of w] show ?thesis
    using step by (simp add: advance_def Let_def Refunding)
qed (use step in \<open>simp_all add: advance_def Let_def\<close>)

lemma limiter_step_ok:
  assumes doc: "limiter_documented used rl"
  shows "limiter_step rl sha256 y y' \<Longrightarrow> limiter_ok used sha256 y \<Longrightarrow> limiter_ok used sha256 y'"
proof (induction rule: limiter_step.induct)
  case (wait y now)
  then show ?case by (simp add: wait_ok)
next
  case (arrive y email clientIp s a)
  then show ?case by (simp add: arrive_ok[OF doc])
next
  case (go_on i y s a)
  then show ?case
    using advance_ok[OF doc _ go_on(1,2)] by (simp add: step_ok_def limiter_ok_def)
qed

lemma limiter_reach_ok:
  assumes "limiter_documented used rl" and "(limiter_step rl sha256)\<^sup>*\<^sup>* (limiter_system_start rl now) y"
  shows "limiter_ok used sha256 y"
  using assms(2)
  by (induction rule: rtranclp_induct) (simp_all add: limiter_start_ok[OF assms(1)] limiter_step_ok[OF assms(1)])

section \<open>What the limiter guarantees\<close>

lemma ips_bound:
  assumes "distinct (map fst ws)" and "length (named_ips ws) \<le> n"
  shows "length ws \<le> n + 1"
proof -
  have "length (filter (\<lambda>x. fst x = k) ws) \<le> 1" if "distinct (map fst ws)" for k and ws :: windows
    using that
  proof (induction ws)
    case (Cons x ws)
    have "filter (\<lambda>y. fst y = k) ws = []" if "fst x = k"
      using Cons.prems that by (force simp: filter_empty_conv image_iff)
    then show ?case
      using Cons by auto
  qed simp
  from this[OF assms(1), of "''unknown''"]
  have "length (filter (\<lambda>x. fst x = ''unknown'') ws) \<le> 1" .
  moreover have "length ws = length (filter (\<lambda>x. fst x = ''unknown'') ws) + length (named_ips ws)"
    using sum_length_filter_compl[of "\<lambda>x. fst x = ''unknown''" ws] by (simp add: named_ips_def case_prod_beta')
  ultimately show ?thesis
    using assms(2) by linarith
qed

lemma account_points_exact:
  assumes "limiter_ok used sha256 y"
  shows "(key, w) \<in> set (lim_accounts (sy_state y)) \<Longrightarrow> sy_now y < win_expiresAt w \<Longrightarrow>
      used (lim_account (sy_state y)) key = Some (int (out_of (account_point sha256) (sy_attempts y) key w), win_expiresAt w)"
    and "a \<in> set (sy_attempts y) \<Longrightarrow> b \<in> set (sy_attempts y) \<Longrightarrow> account_point sha256 a = Some (key, w) \<Longrightarrow>
      account_point sha256 b = Some (key, w') \<Longrightarrow> w \<noteq> w' \<Longrightarrow> int duration_s * 1000 \<le> \<bar>win_expiresAt w - win_expiresAt w'\<bar>"
proof -
  have table: "table_ok used (sy_now y) (lim_fresh (sy_state y)) (lim_accounts (sy_state y)) (lim_account (sy_state y))
      (out_of (account_point sha256) (sy_attempts y))"
    using assms by (simp add: limiter_ok_def Let_def)
  show "used (lim_account (sy_state y)) key = Some (int (out_of (account_point sha256) (sy_attempts y) key w), win_expiresAt w)"
    if "(key, w) \<in> set (lim_accounts (sy_state y))" "sy_now y < win_expiresAt w"
    using table_okD(3)[OF table that] .
  have held: "known (lim_accounts (sy_state y)) (out_of (account_point sha256) (sy_attempts y)) key x"
    if "c \<in> set (sy_attempts y)" "account_point sha256 c = Some (key, x)" for c x
    using that by (auto simp: known_def out_of_def filter_empty_conv)
  show "int duration_s * 1000 \<le> \<bar>win_expiresAt w - win_expiresAt w'\<bar>"
    if "a \<in> set (sy_attempts y)" "b \<in> set (sy_attempts y)" "account_point sha256 a = Some (key, w)"
      "account_point sha256 b = Some (key, w')" "w \<noteq> w'"
    using table_okD(6)[OF table held[OF that(1,3)] held[OF that(2,4)] that(5)] .
qed

text \<open>C21.
  However requests interleave, in one window of an account at most five attempts pass that have not been
  given back by a success, and in one window of an address at most twenty; the windows of an account lie at
  least 300 seconds apart; the tables keep at most 1,024 accounts and 4,097 addresses.\<close>

theorem mfa_attempts_limited:
  assumes "limiter_documented used rl" and "(limiter_step rl sha256)\<^sup>*\<^sup>* (limiter_system_start rl now) y"
  shows "out_of (account_pass sha256) (sy_attempts y) key w \<le> 5
    \<and> out_of ip_pass (sy_attempts y) ip w \<le> 20
    \<and> (a \<in> set (sy_attempts y) \<and> b \<in> set (sy_attempts y) \<and> account_point sha256 a = Some (key, w) \<and>
        account_point sha256 b = Some (key, w') \<and> w \<noteq> w' \<longrightarrow> 300000 \<le> \<bar>win_expiresAt w - win_expiresAt w'\<bar>)
    \<and> length (lim_accounts (sy_state y)) \<le> 1024 \<and> length (lim_ips (sy_state y)) \<le> 4097"
proof (intro conjI impI)
  have ok: "limiter_ok used sha256 y"
    using assms by (rule limiter_reach_ok)
  then show "out_of (account_pass sha256) (sy_attempts y) key w \<le> 5" "out_of ip_pass (sy_attempts y) ip w \<le> 20"
    "length (lim_accounts (sy_state y)) \<le> 1024"
    by (simp_all add: limiter_ok_def Let_def maxAccounts_def)
  have "distinct (map fst (lim_ips (sy_state y)))" "length (named_ips (lim_ips (sy_state y))) \<le> 4096"
    using ok by (auto simp: limiter_ok_def Let_def table_ok_def maxIps_def)
  then show "length (lim_ips (sy_state y)) \<le> 4097"
    using ips_bound by fastforce
  show "300000 \<le> \<bar>win_expiresAt w - win_expiresAt w'\<bar>"
    if "a \<in> set (sy_attempts y) \<and> b \<in> set (sy_attempts y) \<and> account_point sha256 a = Some (key, w) \<and>
        account_point sha256 b = Some (key, w') \<and> w \<noteq> w'"
    using account_points_exact(2)[OF ok, of a b key w w'] that by (simp add: duration_s_def)
qed

text \<open>The answer of the account's reservation, from the points that attempts hold.\<close>

lemma account_answer:
  assumes doc: "limiter_documented used rl" and ok: "step_ok used sha256 now s as" and i: "i < length as"
    and reserve: "reserve_account rl sha256 now (as ! i) s = (s', b)"
  defines "key \<equiv> account_key sha256 (as ! i)"
  shows "(\<exists>w. at_stage b = Running w \<and> out_of (account_point sha256) as key w < 5)
    \<or> (\<exists>w ms. at_stage b = Account_refused w ms \<and> now < win_expiresAt w \<and> 5 \<le> out_of (account_point sha256) as key w)
    \<or> (\<exists>ms. at_stage b = Refused ms \<and> maxAccounts \<le> length (filter (\<lambda>(k, w). k \<noteq> key \<and> now < win_expiresAt w) (lim_accounts s)))"
  using reserve
proof (cases rule: reserve_account_cases)
  case (full ms)
  have "filter (\<lambda>(k, w). k \<noteq> key \<and> now < win_expiresAt w) (lim_accounts s) = purge_windows now (lim_accounts s)"
    using full(1) unfolding purge_windows_def map_of_eq_None_iff key_def
    by (intro filter_cong) force+
  then show ?thesis
    using full(2,4) by auto
next
  case (room w accounts' fresh mem' refused)
  note purged = step_okD(2)[OF purge_accounts_ok[OF doc ok], simplified]
  note table = reserve_table[OF doc purged[unfolded account_limiter_def] purge_table(2)[OF doc step_okD(2)[OF ok]]
      room(1) room(2)[unfolded account_limiter_def]]
  show ?thesis
  proof (cases refused)
    case None
    then show ?thesis
      using table(2) by (simp add: room(5) key_def)
  next
    case (Some ms)
    have "now < win_expiresAt w"
      using table(3,4) by (auto simp: running_windows_def)
    then show ?thesis
      using table(2) Some by (simp add: room(5) key_def)
  qed
qed

text \<open>C22.
  In any reachable state an attempt that asks for the point of its account runs if fewer than five points
  of the window are held, and is refused only while five or more are held, or while 1,024 other accounts
  have windows.  A point is held by an attempt that runs or has failed in the window, by one that is giving
  its point back, and by one that was itself refused and has not taken its next step: that step, which no
  state of the limiter can prevent, gives the point back.\<close>

theorem mfa_refusal_justified:
  assumes "limiter_documented used rl" and "(limiter_step rl sha256)\<^sup>*\<^sup>* (limiter_system_start rl now) y"
    and "i < length (sy_attempts y)" and "at_stage (sy_attempts y ! i) = Ip_granted"
    and "advance rl sha256 (sy_now y) (sy_attempts y ! i) (sy_state y) = Some (s', b)"
  shows "(\<exists>w. at_stage b = Running w \<and> out_of (account_point sha256) (sy_attempts y) (account_key sha256 b) w < 5)
    \<or> (\<exists>w ms. at_stage b = Account_refused w ms \<and> sy_now y < win_expiresAt w \<and>
        5 \<le> out_of (account_point sha256) (sy_attempts y) (account_key sha256 b) w \<and>
        (\<forall>t u. \<exists>u' b'. advance rl sha256 t b u = Some (u', b') \<and> at_stage b' = Ip_refund_due ms \<and>
          account_point sha256 b' = None \<and>
          (t < win_expiresAt w \<longrightarrow>
            u' = u\<lparr>lim_account := ml_reward (account_limiter rl) (account_key sha256 b) t (lim_account u)\<rparr>)))
    \<or> (\<exists>ms. at_stage b = Refused ms \<and> 1024 \<le> length (filter (\<lambda>(k, w). k \<noteq> account_key sha256 b \<and> sy_now y < win_expiresAt w)
        (lim_accounts (sy_state y))))"
proof -
  have "limiter_ok used sha256 y"
    using assms(1,2) by (rule limiter_reach_ok)
  then have ok: "step_ok used sha256 (sy_now y) (sy_state y) (sy_attempts y)"
    by (simp add: step_ok_def limiter_ok_def)
  have reserve: "reserve_account rl sha256 (sy_now y) (sy_attempts y ! i) (sy_state y) = (s', b)"
    using assms(4,5) by (simp add: advance_def Let_def)
  then have "account_key sha256 b = account_key sha256 (sy_attempts y ! i)"
    by (cases rule: reserve_account_cases) (simp_all add: account_key_def)
  then show ?thesis
    using account_answer[OF assms(1) ok assms(3) reserve]
    by (auto simp: maxAccounts_def advance_def Let_def account_point_def)
qed

section \<open>A limiter as documented, and a run\<close>

type_synonym memory = "(string \<times> int \<times> instant) list"

definition reference_add :: "int \<Rightarrow> nat \<Rightarrow> string \<Rightarrow> instant \<Rightarrow> memory \<Rightarrow> int \<times> instant" where
  "reference_add d duration k t m =
    (case live (map_of m) k t of None \<Rightarrow> (d, t + int duration * 1000) | Some (c, e) \<Rightarrow> (c + d, e))"

definition reference_limiter :: "memory rate_limiter" where
  "reference_limiter points duration = \<lparr>ml_new = [],
    ml_consume = (\<lambda>k t m. case reference_add 1 duration k t m of
      (c, e) \<Rightarrow> (AList.update k (c, e) m, if c \<le> int points then None else Some (e - t))),
    ml_reward = (\<lambda>k t m. AList.update k (reference_add (-1) duration k t m) m),
    ml_delete = AList.delete\<rparr>"

lemma reference_limiter_documented: "limiter_documented map_of reference_limiter"
  by (auto simp: limiter_documented_def reference_limiter_def reference_add_def Let_def update_conv' delete_conv'
      split: option.split)

datatype limiter_act = Arrive string string | Go nat | Wait instant

fun limiter_do :: "'m rate_limiter \<Rightarrow> (string \<Rightarrow> string) \<Rightarrow> limiter_act \<Rightarrow> 'm limiter_system \<Rightarrow> 'm limiter_system" where
  "limiter_do rl sha256 (Arrive email clientIp) y =
    (case reserve_ip rl (sy_now y) email clientIp (sy_state y) of
       (s, a) \<Rightarrow> y\<lparr>sy_state := s, sy_attempts := sy_attempts y @ [a]\<rparr>)"
| "limiter_do rl sha256 (Go i) y =
    (if i < length (sy_attempts y) then
       (case advance rl sha256 (sy_now y) (sy_attempts y ! i) (sy_state y) of
          None \<Rightarrow> y | Some (s, a) \<Rightarrow> y\<lparr>sy_state := s, sy_attempts := (sy_attempts y)[i := a]\<rparr>)
     else y)"
| "limiter_do rl sha256 (Wait now) y = (if sy_now y \<le> now then y\<lparr>sy_now := now\<rparr> else y)"

lemma limiter_do_reach: "(limiter_step rl sha256)\<^sup>*\<^sup>* y (fold (limiter_do rl sha256) acts y)"
proof (induction acts arbitrary: y)
  case (Cons act acts)
  have "(limiter_step rl sha256)\<^sup>*\<^sup>* y (limiter_do rl sha256 act y)"
    by (cases act) (auto split: prod.split option.split intro: limiter_step.intros)
  then show ?case
    using Cons[of "limiter_do rl sha256 act y"] by (simp add: rtranclp_trans)
qed simp

definition run_acts :: "limiter_act list" where
  "run_acts = map (\<lambda>_. Arrive '' A'' ''i'') [0..<6] @ map Go [0..<6]"

definition run_state :: "limiter_act list \<Rightarrow> memory limiter_system" where
  "run_state acts = fold (limiter_do reference_limiter (\<lambda>t. t)) acts (limiter_system_start reference_limiter 1000)"

lemma run_reach: "(limiter_step reference_limiter (\<lambda>t. t))\<^sup>*\<^sup>* (limiter_system_start reference_limiter 1000) (run_state acts)"
  unfolding run_state_def by (rule limiter_do_reach)

lemma run_points:
  "map (account_pass (\<lambda>t. t)) (sy_attempts (run_state run_acts)) =
    replicate 5 (Some (''a'', \<lparr>win_id = 1, win_expiresAt = 301000\<rparr>)) @ [None]"
  by code_simp

lemma out_of_map: "out_of h as k w = length (filter (\<lambda>p. p = Some (k, w)) (map h as))"
  by (simp add: out_of_def filter_map comp_def)

text \<open>Five attempts at once run, the sixth is refused, and the bound is met.\<close>

theorem mfa_attempts_limited_witness:
  "out_of (account_pass (\<lambda>t. t)) (sy_attempts (run_state run_acts)) ''a'' \<lparr>win_id = 1, win_expiresAt = 301000\<rparr> = 5
    \<and> length (lim_ips (sy_state (run_state run_acts))) \<le> 4097"
proof -
  have "length (lim_ips (sy_state (run_state run_acts))) \<le> 4097"
    using mfa_attempts_limited[OF reference_limiter_documented run_reach] by blast
  moreover have "out_of (account_pass (\<lambda>t. t)) (sy_attempts (run_state run_acts)) ''a'' \<lparr>win_id = 1, win_expiresAt = 301000\<rparr> = 5"
    by (simp add: out_of_map run_points)
  ultimately show ?thesis by blast
qed

text \<open>After one success, another attempt runs.\<close>

definition again_acts :: "limiter_act list" where
  "again_acts = [Arrive ''a'' ''i'', Go 0, Go 0, Go 0, Arrive ''A'' ''j'']"

theorem mfa_refusal_justified_witness:
  "let y = run_state again_acts in
     \<exists>s b. advance reference_limiter (\<lambda>t. t) (sy_now y) (sy_attempts y ! 1) (sy_state y) = Some (s, b) \<and>
       at_stage b = Running \<lparr>win_id = 1, win_expiresAt = 301000\<rparr> \<and>
       out_of (account_point (\<lambda>t. t)) (sy_attempts y) ''a'' \<lparr>win_id = 1, win_expiresAt = 301000\<rparr> < 5"
proof -
  define y where "y = run_state again_acts"
  define r where "r = the (advance reference_limiter (\<lambda>t. t) (sy_now y) (sy_attempts y ! 1) (sy_state y))"
  have i: "1 < length (sy_attempts y)" and stage: "at_stage (sy_attempts y ! 1) = Ip_granted"
    and some: "advance reference_limiter (\<lambda>t. t) (sy_now y) (sy_attempts y ! 1) (sy_state y) \<noteq> None"
    and after: "at_stage (snd r) = Running \<lparr>win_id = 1, win_expiresAt = 301000\<rparr>"
    and key: "account_key (\<lambda>t. t) (snd r) = ''a''"
    unfolding y_def r_def by code_simp+
  have step: "advance reference_limiter (\<lambda>t. t) (sy_now y) (sy_attempts y ! 1) (sy_state y) = Some (fst r, snd r)"
    using some by (auto simp: r_def)
  have "out_of (account_point (\<lambda>t. t)) (sy_attempts y) ''a'' \<lparr>win_id = 1, win_expiresAt = 301000\<rparr> < 5"
    using mfa_refusal_justified[OF reference_limiter_documented run_reach[of again_acts, folded y_def] i stage step]
    by (auto simp: after key)
  then show ?thesis
    unfolding Let_def y_def[symmetric] using step after by blast
qed

end
