(* ===== verification/SafeRoutes.thy ===== *)
theory SafeRoutes imports Lyrics Schema "HOL-Library.Sublist" begin

text \<open>
  What telemetry keeps of addresses, identifiers and build artifacts (console):
  \<open>shared/config/admin-routes.ts\<close>, \<open>shared/lib/sentry-route-metadata.ts\<close>,
  \<open>shared/lib/observability-correlation.ts\<close> and \<open>shared/lib/sentry-build-metadata.ts\<close>.  A value of unknown
  type is a \<open>json\<close>, \<open>None\<close> is \<open>undefined\<close>; objects with throwing accessors are not modelled.  The URL
  parser of the platform is a parameter: \<open>url\<close> gives the pathname of an address, \<open>None\<close> if it throws.
\<close>

section \<open>Reading values of unknown type\<close>

fun readProperty :: "json option \<Rightarrow> string \<Rightarrow> json option" where
  "readProperty (Some (JObj kvs)) key = jprop key kvs"
| "readProperty _ key = None"

fun as_text :: "json option \<Rightarrow> string option" where
  "as_text (Some (JStr t)) = Some t"
| "as_text _ = None"

fun as_array :: "json option \<Rightarrow> json list option" where
  "as_array (Some (JArr js)) = Some js"
| "as_array _ = None"

definition isOneOf :: "json option \<Rightarrow> string list \<Rightarrow> string option" where
  "isOneOf v values = (case as_text v of Some t \<Rightarrow> if t \<in> set values then Some t else None | None \<Rightarrow> None)"

definition given :: "bool \<Rightarrow> 'a \<Rightarrow> 'a option" where
  "given b x = (if b then Some x else None)"

text \<open>An object literal whose members may be left out.\<close>

definition obj :: "(string \<times> json option) list \<Rightarrow> json" where
  "obj kvs = JObj (map (\<lambda>(k, v). (k, the v)) (filter (\<lambda>(k, v). v \<noteq> None) kvs))"

section \<open>Formats\<close>

text \<open>A regular expression of one character class per character, anchored at both ends.\<close>

definition matches :: "(char \<Rightarrow> bool) list \<Rightarrow> string \<Rightarrow> bool" where
  "matches ps s = list_all2 (\<lambda>p c. p c) ps s"

definition hex_digit :: "char \<Rightarrow> bool" where
  "hex_digit c \<longleftrightarrow> c \<in> set ''0123456789abcdefABCDEF''"

definition lower_hex :: "char \<Rightarrow> bool" where
  "lower_hex c \<longleftrightarrow> c \<in> set ''0123456789abcdef''"

definition hex_groups :: "nat list \<Rightarrow> (char \<Rightarrow> bool) list" where
  "hex_groups ns = concat (map (\<lambda>n. (\<lambda>c. c = CHR ''-'') # replicate n hex_digit) ns)"

text \<open>\<open>[0-9a-f]{8}-[0-9a-f]{4}-4[0-9a-f]{3}-[89ab][0-9a-f]{3}-[0-9a-f]{12}\<close>, in either case.\<close>

definition request_id_pattern :: "(char \<Rightarrow> bool) list" where
  "request_id_pattern = replicate 8 hex_digit @ hex_groups [4] @ [\<lambda>c. c = CHR ''-'', \<lambda>c. c = CHR ''4''] @ replicate 3 hex_digit @
    [\<lambda>c. c = CHR ''-'', \<lambda>c. c \<in> set ''89abAB''] @ replicate 3 hex_digit @ hex_groups [12]"

definition toSafeRequestId :: "json option \<Rightarrow> string option" where
  "toSafeRequestId v = (case as_text v of
     None \<Rightarrow> None | Some t \<Rightarrow> given (matches request_id_pattern t) (toLowerCase t))"

definition toSafeEventId :: "json option \<Rightarrow> string option" where
  "toSafeEventId v = (case as_text v of
     None \<Rightarrow> None | Some t \<Rightarrow> given (matches (replicate 32 hex_digit) t) (toLowerCase t))"

section \<open>Routes\<close>

text \<open>\<open>adminPaths\<close>, in the order of the object.\<close>

definition adminPaths :: "string list" where
  "adminPaths = [''/admin'', ''/admin/albums'', ''/admin/albums/new'', ''/admin/albums/[id]/edit'', ''/admin/songs'',
    ''/admin/songs/new'', ''/admin/songs/[id]'', ''/admin/edit/[slug]'', ''/admin/cheer-guides'', ''/admin/cheer-guides/new'',
    ''/admin/cheer-guides/[id]/edit'', ''/admin/notifications'', ''/admin/waveform-jobs/[id]'']"

text \<open>\<open>split("/")\<close>.\<close>

fun split_slash :: "string \<Rightarrow> string list" where
  "split_slash [] = [[]]"
| "split_slash (c # cs) = (if c = CHR ''/'' then [] # split_slash cs
     else case split_slash cs of part # parts \<Rightarrow> (c # part) # parts | [] \<Rightarrow> [[c]])"

definition part_matches :: "string \<Rightarrow> string \<Rightarrow> bool" where
  "part_matches part actual \<longleftrightarrow> (if part = ''[id]'' \<or> part = ''[slug]'' then 0 < length actual else part = actual)"

text \<open>A page, given by its path.\<close>

definition getAdminPage :: "string \<Rightarrow> string option" where
  "getAdminPage pathname =
    (case find (\<lambda>p. p = pathname) adminPaths of
       Some p \<Rightarrow> Some p
     | None \<Rightarrow> find (\<lambda>p. list_all2 part_matches (split_slash p) (split_slash pathname)) adminPaths)"

definition routes :: "(string \<times> string) list" where
  "routes = [(''/api/operator/songs/resolve'', ''operator-song-resolve-api''),
    (''/api/operator/songs/[id]/waveform'', ''operator-song-waveform-api''),
    (''/operator-connect'', ''operator-connect''),
    (''/api/operator/auth/device'', ''operator-auth-device-api''),
    (''/api/operator/auth/token'', ''operator-auth-token-api''),
    (''/api/operator/auth/approve'', ''operator-auth-approve-api''),
    (''/api/operator/auth/session'', ''operator-auth-session-api''),
    (''/api/operator/auth/revoke'', ''operator-auth-revoke-api''),
    (''/api/admin/push-installations'', ''admin-push-registration-api''),
    (''/api/admin/push-installations/[id]'', ''admin-push-unregister-api''),
    (''/api/admin/notifications'', ''admin-notifications-api''),
    (''/api/admin/notifications/[id]'', ''admin-notification-api''),
    (''/api/admin/notifications/[id]/read'', ''admin-notification-read-api''),
    (''/api/admin/notifications/read-all'', ''admin-notifications-read-all-api''),
    (''/admin/waveform-jobs/[id]'', ''admin-waveform-job''),
    (''/api/admin/waveform-jobs/[id]'', ''admin-waveform-job-api''),
    (''/admin'', ''admin-home''),
    (''/admin/notifications'', ''admin-notification-list''),
    (''/admin-login'', ''admin-login''),
    (''/admin/albums'', ''admin-album-list''),
    (''/admin/albums/new'', ''admin-album-create''),
    (''/admin/albums/[id]/edit'', ''admin-album-edit''),
    (''/admin/songs'', ''admin-song-list''),
    (''/admin/edit/[slug]'', ''admin-song-edit-load''),
    (''/admin/cheer-guides/[id]/edit'', ''admin-cheer-guide-edit-load''),
    (''/api/admin/cheer-guides/[id]/draft'', ''admin-cheer-guide-draft-api''),
    (''/api/admin/albums'', ''admin-albums-api''),
    (''/api/admin/albums/[id]'', ''admin-album-api''),
    (''/api/admin/songs'', ''admin-songs-api''),
    (''/api/admin/songs/[id]'', ''admin-song-api''),
    (''/api/admin/songs/[id]/lyrics'', ''admin-song-lyrics-api''),
    (''/api/auth/ability'', ''admin-ability''),
    (''/api/auth/mfa/setup'', ''admin-mfa-setup''),
    (''/api/auth/mfa/confirm'', ''admin-mfa-confirm''),
    (''/api/auth/[...nextauth]'', ''admin-auth'')]"

definition SENTRY_OPERATIONS :: "string list" where
  "SENTRY_OPERATIONS = ''album-image-upload'' # map snd routes"

text \<open>The patterns of \<open>dynamicRoutes\<close>, one segment each: \<open>None\<close> is \<open>[^/]+\<close>, \<open>Some\<close> lists alternatives.\<close>

definition dynamicRoutes :: "(string list option list \<times> string) list" where
  "dynamicRoutes =
    [([Some [''api''], Some [''operator''], Some [''songs''], None, Some [''waveform'']], ''/api/operator/songs/[id]/waveform''),
     ([Some [''api''], Some [''admin''], Some [''waveform-jobs''], None], ''/api/admin/waveform-jobs/[id]''),
     ([Some [''api''], Some [''admin''], Some [''push-installations''], None], ''/api/admin/push-installations/[id]''),
     ([Some [''api''], Some [''admin''], Some [''notifications''], None, Some [''read'']], ''/api/admin/notifications/[id]/read''),
     ([Some [''api''], Some [''admin''], Some [''notifications''], None], ''/api/admin/notifications/[id]''),
     ([Some [''api''], Some [''admin''], Some [''cheer-guides''], None, Some [''draft'']], ''/api/admin/cheer-guides/[id]/draft''),
     ([Some [''api''], Some [''admin''], Some [''albums''], None], ''/api/admin/albums/[id]''),
     ([Some [''api''], Some [''admin''], Some [''songs''], None, Some [''lyrics'']], ''/api/admin/songs/[id]/lyrics''),
     ([Some [''api''], Some [''admin''], Some [''songs''], None], ''/api/admin/songs/[id]''),
     ([Some [''api''], Some [''auth''], Some [''session'', ''csrf'', ''providers'', ''signin'', ''signout'', ''error'']], ''/api/auth/[...nextauth]''),
     ([Some [''api''], Some [''auth''], Some [''callback''], Some [''credentials'']], ''/api/auth/[...nextauth]'')]"

definition segment_matches :: "string list option \<Rightarrow> string \<Rightarrow> bool" where
  "segment_matches p actual \<longleftrightarrow> (case p of None \<Rightarrow> actual \<noteq> [] | Some names \<Rightarrow> actual \<in> set names)"

text \<open>A pattern starts with the slash before its first segment.\<close>

definition pattern_test :: "string list option list \<Rightarrow> string \<Rightarrow> bool" where
  "pattern_test ps path \<longleftrightarrow> (case split_slash path of
     [] # parts \<Rightarrow> list_all2 segment_matches ps parts | _ \<Rightarrow> False)"

definition before_details :: "string \<Rightarrow> string" where
  "before_details s = takeWhile (\<lambda>c. c \<noteq> CHR ''?'' \<and> c \<noteq> CHR ''#'') s"

definition is_http :: "string \<Rightarrow> bool" where
  "is_http s \<longleftrightarrow> prefix ''http://'' s \<or> prefix ''https://'' s"

text \<open>The group \<open>(admin)\<close> of the file system is not part of an address.\<close>

definition without_group :: "string \<Rightarrow> string" where
  "without_group path = (if prefix ''/(admin)/'' path then drop 8 path else path)"

definition route_template :: "string \<Rightarrow> string option" where
  "route_template path =
    (case find (\<lambda>t. t = path) (map fst routes) of
       Some t \<Rightarrow> Some t
     | None \<Rightarrow>
         (case (case getAdminPage path of Some p \<Rightarrow> given (p \<in> set (map fst routes)) p | None \<Rightarrow> None) of
            Some t \<Rightarrow> Some t
          | None \<Rightarrow> map_option snd (find (\<lambda>(ps, t). pattern_test ps path) dynamicRoutes)))"

definition getSentryRouteMetadata :: "(string \<Rightarrow> string option) \<Rightarrow> json option \<Rightarrow> (string \<times> string) option" where
  "getSentryRouteMetadata url v =
    (case as_text v of
       None \<Rightarrow> None
     | Some value \<Rightarrow>
         if 2048 < length value then None
         else case (if is_http value then url value else Some (before_details value)) of
           None \<Rightarrow> None
         | Some path \<Rightarrow>
             (case route_template (without_group path) of
                None \<Rightarrow> None
              | Some t \<Rightarrow> find (\<lambda>(candidate, _). candidate = t) routes))"

text \<open>The two headers that the proxy adds to a request.\<close>

record request_observation =
  ro_requestId :: string
  ro_route :: string

definition readRequestObservation ::
    "(string \<Rightarrow> string option) \<Rightarrow> (string \<Rightarrow> json option) \<Rightarrow> string option \<Rightarrow> request_observation option" where
  "readRequestObservation url readHeader expectedRoute =
    (case (toSafeRequestId (readHeader ''x-oioi-request-id''), getSentryRouteMetadata url (readHeader ''x-oioi-route-template'')) of
       (Some requestId, Some (t, _)) \<Rightarrow>
         given (expectedRoute = None \<or> expectedRoute = Some t) \<lparr>ro_requestId = requestId, ro_route = t\<rparr>
     | _ \<Rightarrow> None)"

section \<open>Build artifacts\<close>

definition release_pattern :: "(char \<Rightarrow> bool) list" where
  "release_pattern = map (\<lambda>x c. c = x) ''oioi-bwg@'' @ replicate 40 lower_hex"

definition debug_id_pattern :: "(char \<Rightarrow> bool) list" where
  "debug_id_pattern = replicate 8 hex_digit @ hex_groups [4, 4, 4, 12]"

definition one_line :: "string \<Rightarrow> bool" where
  "one_line s \<longleftrightarrow> CHR 0x0A \<notin> set s \<and> CHR 0x0D \<notin> set s"

definition letter :: "char \<Rightarrow> bool" where
  "letter c \<longleftrightarrow> c \<in> set ''abcdefghijklmnopqrstuvwxyzABCDEFGHIJKLMNOPQRSTUVWXYZ''"

definition scheme_char :: "char \<Rightarrow> bool" where
  "scheme_char c \<longleftrightarrow> letter c \<or> c \<in> set ''0123456789+.-''"

fun has_scheme :: "string \<Rightarrow> bool" where
  "has_scheme (c # cs) \<longleftrightarrow> letter c \<and> prefix ''://'' (dropWhile scheme_char cs)"
| "has_scheme [] \<longleftrightarrow> False"

text \<open>\<open>s.slice(s.indexOf(pat))\<close>, if the text occurs.\<close>

fun slice_from :: "string \<Rightarrow> string \<Rightarrow> string option" where
  "slice_from pat s = (if prefix pat s then Some s else case s of [] \<Rightarrow> None | _ # cs \<Rightarrow> slice_from pat cs)"

declare slice_from.simps [simp del]

definition artifact_path :: "string \<Rightarrow> string option" where
  "artifact_path path =
    (case slice_from ''/_next/'' path of
       Some p \<Rightarrow> Some p
     | None \<Rightarrow>
         (case slice_from ''/.next/'' path of
            Some p \<Rightarrow> Some (tl p)
          | None \<Rightarrow>
              if prefix ''_next/'' path then Some (CHR ''/'' # path)
              else if prefix ''.next/'' path then Some path
              else None))"

definition toSafeSentryBuildPath :: "(string \<Rightarrow> string option) \<Rightarrow> json option \<Rightarrow> string option" where
  "toSafeSentryBuildPath url v =
    (case as_text v of
       None \<Rightarrow> None
     | Some value \<Rightarrow>
         if length value = 0 \<or> 1024 < length value \<or> \<not> one_line value then None
         else
           let withoutDetails = before_details value in
           if withoutDetails = [] then None
           else case (if has_scheme withoutDetails then url withoutDetails else Some withoutDetails) of
             None \<Rightarrow> None
           | Some path \<Rightarrow> artifact_path path)"

definition safe_image :: "(string \<Rightarrow> string option) \<Rightarrow> json \<Rightarrow> json list" where
  "safe_image url img =
    (if as_text (readProperty (Some img) ''type'') \<noteq> Some ''sourcemap'' then []
     else case (toSafeSentryBuildPath url (readProperty (Some img) ''code_file''), as_text (readProperty (Some img) ''debug_id'')) of
       (Some codeFile, Some debugId) \<Rightarrow>
         (if matches debug_id_pattern debugId
          then [JObj [(''type'', JStr ''sourcemap''), (''code_file'', JStr codeFile), (''debug_id'', JStr debugId)]] else [])
     | _ \<Rightarrow> [])"

definition safeDebugMeta :: "(string \<Rightarrow> string option) \<Rightarrow> json option \<Rightarrow> json option" where
  "safeDebugMeta url event =
    (case as_array (readProperty (readProperty event ''debug_meta'') ''images'') of
       None \<Rightarrow> None
     | Some images \<Rightarrow>
         let safeImages = concat (map (safe_image url) (take 128 images))
         in given (safeImages \<noteq> []) (JObj [(''images'', JArr safeImages)]))"

definition safe_release :: "json option \<Rightarrow> string option" where
  "safe_release v = (case as_text v of None \<Rightarrow> None | Some t \<Rightarrow> given (matches release_pattern t) t)"

definition toSafeSentryBuildMetadata :: "(string \<Rightarrow> string option) \<Rightarrow> json option \<Rightarrow> (string \<times> json option) list" where
  "toSafeSentryBuildMetadata url event =
    [(''release'', map_option JStr (safe_release (readProperty event ''release''))), (''debug_meta'', safeDebugMeta url event)]"

end
