(* ===== verification/SafeEvents.thy ===== *)
theory SafeEvents imports SafeRoutes Access begin

text \<open>
  What the console sends to its error tracker: \<open>server/observability/safe-server-event.ts\<close> for errors of the
  server and \<open>shared/lib/client-sentry-policy.ts\<close> for errors of the browser.  Both rebuild an event from
  an allow list just before it is sent; the event is a \<open>json\<close>.  The copies of \<open>apps/web\<close> differ in the
  name of the app and in the lists of sources and events.
\<close>

section \<open>Server errors\<close>

definition SERVER_ERROR_EVENTS :: "string list" where
  "SERVER_ERROR_EVENTS = [''notification.dispatch_failed'', ''api.unexpected_error'', ''api.output_contract_violation'',
    ''auth.failure'', ''next.request_error'', ''server.unhandled_error'', ''upload.failure'']"

definition SERVER_ERROR_SOURCES :: "string list" where
  "SERVER_ERROR_SOURCES = [''notification-dispatcher'', ''api-route-handler'', ''auth-js'', ''next-instrumentation'',
    ''sentry-auto-capture'', ''upload-album-image-action'']"

definition SAFE_ERROR_TYPES :: "string list" where
  "SAFE_ERROR_TYPES = [''application'', ''auth'', ''database'', ''output-contract'', ''unknown'']"

definition ERROR_HANDLINGS :: "string list" where
  "ERROR_HANDLINGS = [''handled'', ''unhandled'', ''unknown'']"

definition ERROR_OUTCOMES :: "string list" where
  "ERROR_OUTCOMES = [''response_created'', ''login_redirect_requested'', ''access_denied_requested'',
    ''action_rejection_returned'', ''render_error_captured'', ''error_boundary_mounted'', ''unknown'']"

definition SAFE_LEVELS :: "string list" where
  "SAFE_LEVELS = [''fatal'', ''error'', ''warning'', ''log'', ''info'', ''debug'']"

definition SAFE_METHODS :: "string list" where
  "SAFE_METHODS = [''DELETE'', ''GET'', ''HEAD'', ''OPTIONS'', ''PATCH'', ''POST'', ''PUT'']"

definition SAFE_ROUTER_KINDS :: "string list" where
  "SAFE_ROUTER_KINDS = [''App Router'', ''Pages Router'']"

definition SAFE_ROUTE_TYPES :: "string list" where
  "SAFE_ROUTE_TYPES = [''action'', ''proxy'', ''render'', ''route'']"

definition APP_ENVIRONMENTS :: "string list" where
  "APP_ENVIRONMENTS = [''local'', ''production'']"

text \<open>The options of \<open>appErrorCodeSchema\<close>, as texts.\<close>

definition app_error_codes :: "string list" where
  "app_error_codes = [''ANALYTICS_NOT_CONFIGURED'', ''ANALYTICS_UNAVAILABLE'', ''ANALYTICS_RATE_LIMITED'', ''ENQUEUE_FAILED'',
    ''NOTIFICATION_NOT_FOUND'', ''WAVEFORM_JOB_NOT_FOUND'', ''WAVEFORM_SOURCE_INVALID'', ''WAVEFORM_ALREADY_EXISTS'',
    ''CHEER_GUIDE_CONFLICT'', ''CHEER_GUIDE_DRAFT_PENDING'', ''CHEER_GUIDE_ALREADY_EXISTS'', ''CHEER_GUIDE_SOURCE_INVALID'',
    ''CHEER_GUIDE_NOT_FOUND'', ''CHEER_GUIDE_HAS_HISTORY'', ''CHEER_GUIDE_IMPORT_CONFLICT'', ''CHEER_GUIDE_CHANGE_RESTRICTED'',
    ''CHEER_GUIDE_CONTENT_INVALID'', ''CONTENT_HAS_CHEER_GUIDE'', ''ALBUM_NOT_FOUND'', ''ALBUM_SLUG_ALREADY_EXISTS'',
    ''SONG_NOT_FOUND'', ''SONG_SLUG_ALREADY_EXISTS'', ''SONG_SLUG_IMMUTABLE'', ''SONG_LYRICS_INVALID'', ''UNAUTHENTICATED'',
    ''FORBIDDEN'', ''OTP_COOLDOWN'', ''OTP_RATE_LIMITED'', ''OPERATOR_RATE_LIMITED'', ''OTP_EXPIRED'', ''OTP_INVALID'',
    ''OTP_ATTEMPTS_EXCEEDED'', ''OTP_NOT_VERIFIED'', ''EMAIL_ALREADY_REGISTERED'', ''NICKNAME_ALREADY_REGISTERED'']"

definition exception_name :: "string \<Rightarrow> string" where
  "exception_name t =
    (if t = ''application'' then ''ApplicationError''
     else if t = ''auth'' then ''AuthError''
     else if t = ''database'' then ''DatabaseError''
     else if t = ''output-contract'' then ''OutputContractError''
     else ''UnknownError'')"

definition upper_or_digit :: "char \<Rightarrow> bool" where
  "upper_or_digit c \<longleftrightarrow> c \<in> set ''0123456789ABCDEFGHIJKLMNOPQRSTUVWXYZ''"

text \<open>A state code of the database: five digits or capitals.\<close>

definition sql_state :: "string \<Rightarrow> bool" where
  "sql_state = matches (replicate 5 upper_or_digit)"

definition isSafeCode :: "json option \<Rightarrow> string option" where
  "isSafeCode v = (case as_text v of
     None \<Rightarrow> None
   | Some t \<Rightarrow> given (t = ''AUTH_FAILURE'' \<or> t = ''OUTPUT_CONTRACT_VIOLATION'' \<or> sql_state t) t)"

text \<open>What a thrown value is, and the property that the description reads of it.\<close>

datatype thrown = Thrown_app_error "json option" | Thrown_query_error "json option" | Thrown_other

fun findSafeCode :: "thrown \<Rightarrow> string option" where
  "findSafeCode (Thrown_query_error causeCode) = isSafeCode causeCode"
| "findSafeCode _ = None"

record error_descriptor =
  ed_type :: string
  ed_code :: "string option"

text \<open>\<open>preferred\<close> is what the caller proposes, type and code.\<close>

definition describeServerError :: "thrown \<Rightarrow> json option \<times> json option \<Rightarrow> error_descriptor" where
  "describeServerError e preferred =
    (case e of
       Thrown_app_error code \<Rightarrow>
         (case isOneOf code app_error_codes of
            Some c \<Rightarrow> \<lparr>ed_type = ''application'', ed_code = Some c\<rparr>
          | None \<Rightarrow> \<lparr>ed_type = ''unknown'', ed_code = None\<rparr>)
     | _ \<Rightarrow>
         let code = (case isSafeCode (snd preferred) of Some c \<Rightarrow> Some c | None \<Rightarrow> findSafeCode e);
             type = (case isOneOf (fst preferred) SAFE_ERROR_TYPES of
                 Some t \<Rightarrow> if t \<noteq> ''application'' then Some t else None | None \<Rightarrow> None)
         in \<lparr>ed_type = (case type of Some t \<Rightarrow> t
               | None \<Rightarrow> if \<exists>c. code = Some c \<and> sql_state c then ''database'' else ''unknown''),
             ed_code = code\<rparr>)"

text \<open>The parts of an error context that decide over the kind of a failure.\<close>

record failure_context =
  fc_event :: string
  fc_source :: string
  fc_routeType :: "string option"
  fc_handling :: "json option"
  fc_outcome :: "json option"

record failure_metadata =
  fm_kind :: string
  fm_handling :: string
  fm_outcome :: string

definition or_text :: "string option \<Rightarrow> string \<Rightarrow> string" where
  "or_text v d = (case v of Some t \<Rightarrow> t | None \<Rightarrow> d)"

definition render_error :: "failure_context \<Rightarrow> bool" where
  "render_error c \<longleftrightarrow> fc_event c = ''next.request_error'' \<and> fc_source c = ''next-instrumentation'' \<and> fc_routeType c = Some ''render''"

definition describeServerFailure :: "string \<Rightarrow> failure_context \<Rightarrow> failure_metadata" where
  "describeServerFailure type c = \<lparr>
    fm_kind = (if type = ''output-contract'' then ''contract''
       else if type = ''application'' \<and> render_error c then ''delivery''
       else if type = ''database'' \<or> type = ''auth'' then ''system''
       else ''unknown''),
    fm_handling = (if render_error c then ''unhandled'' else or_text (isOneOf (fc_handling c) ERROR_HANDLINGS) ''unknown''),
    fm_outcome = (if render_error c then ''render_error_captured'' else or_text (isOneOf (fc_outcome c) ERROR_OUTCOMES) ''unknown'')\<rparr>"

definition safeTag :: "json option \<Rightarrow> string \<Rightarrow> json option" where
  "safeTag event key = readProperty (readProperty event ''tags'') key"

definition safeTraceContext :: "json option \<Rightarrow> json option" where
  "safeTraceContext event =
    (let trace = readProperty (readProperty event ''contexts'') ''trace'' in
     case (as_text (readProperty trace ''trace_id''), as_text (readProperty trace ''span_id'')) of
       (Some traceId, Some spanId) \<Rightarrow>
         given (matches (replicate 32 hex_digit) traceId \<and> matches (replicate 16 hex_digit) spanId)
           (obj [(''trace_id'', Some (JStr traceId)), (''span_id'', Some (JStr spanId)),
             (''parent_span_id'', (case as_text (readProperty trace ''parent_span_id'') of
                None \<Rightarrow> None | Some p \<Rightarrow> given (matches (replicate 16 hex_digit) p) (JStr p)))])
     | _ \<Rightarrow> None)"

definition safeStackText :: "json option \<Rightarrow> string option" where
  "safeStackText v = (case as_text v of
     None \<Rightarrow> None | Some t \<Rightarrow> given (0 < length t \<and> length t \<le> 512 \<and> one_line t) t)"

text \<open>\<open>Number.isSafeInteger(value) && value >= 0\<close>.\<close>

fun safeStackNumber :: "json option \<Rightarrow> jsnum option" where
  "safeStackNumber (Some (JNum n)) = given (of_int \<lfloor>n\<rfloor> = n \<and> 0 \<le> n \<and> n < 9007199254740992) n"
| "safeStackNumber _ = None"

text \<open>One frame; \<open>filename\<close> is the projection of file names, which differs between server and browser.\<close>

definition safe_frame :: "(string \<Rightarrow> string option) \<Rightarrow> (json option \<Rightarrow> string option) \<Rightarrow> json \<Rightarrow> json list" where
  "safe_frame url filename_of frame =
    (let filename = filename_of (readProperty (Some frame) ''filename'');
         absPath = (case toSafeSentryBuildPath url (readProperty (Some frame) ''abs_path'') of
           Some p \<Rightarrow> Some p | None \<Rightarrow> toSafeSentryBuildPath url (readProperty (Some frame) ''filename''));
         functionName = safeStackText (readProperty (Some frame) ''function'');
         lineno = safeStackNumber (readProperty (Some frame) ''lineno'');
         colno = safeStackNumber (readProperty (Some frame) ''colno'')
     in if filename = None \<and> functionName = None \<and> lineno = None \<and> colno = None then []
        else [obj [(''filename'', map_option JStr filename), (''abs_path'', map_option JStr absPath),
          (''function'', map_option JStr functionName), (''lineno'', map_option JNum lineno), (''colno'', map_option JNum colno)]])"

definition last_exception :: "json option \<Rightarrow> json option" where
  "last_exception event =
    (case as_array (readProperty (readProperty event ''exception'') ''values'') of
       None \<Rightarrow> None | Some values \<Rightarrow> given (values \<noteq> []) (last values))"

definition safeStacktrace :: "(string \<Rightarrow> string option) \<Rightarrow> (json option \<Rightarrow> string option) \<Rightarrow> json option \<Rightarrow> json option" where
  "safeStacktrace url filename_of event =
    (case as_array (readProperty (readProperty (last_exception event) ''stacktrace'') ''frames'') of
       None \<Rightarrow> None
     | Some frames \<Rightarrow>
         let safeFrames = concat (map (safe_frame url filename_of) frames)
         in given (safeFrames \<noteq> []) (JObj [(''frames'', JArr safeFrames)]))"

fun is_number :: "json option \<Rightarrow> json option" where
  "is_number (Some (JNum n)) = Some (JNum n)"
| "is_number _ = None"

definition safe_event_id :: "json option \<Rightarrow> json option" where
  "safe_event_id v = (case as_text v of None \<Rightarrow> None | Some t \<Rightarrow> given (matches (replicate 32 hex_digit) t) (JStr t))"

definition text_member :: "string \<Rightarrow> string option \<Rightarrow> string \<times> json option" where
  "text_member k v = (k, map_option JStr v)"

definition correlation_id :: "json option \<Rightarrow> string option" where
  "correlation_id event = toSafeRequestId (readProperty (readProperty (readProperty event ''contexts'') ''correlation'') ''request_id'')"

definition server_error_type :: "json option \<Rightarrow> string" where
  "server_error_type event =
    (case isOneOf (safeTag event ''error.type'') SAFE_ERROR_TYPES of
       None \<Rightarrow> ''unknown''
     | Some t \<Rightarrow> if t = ''application'' \<and> isOneOf (safeTag event ''error.code'') app_error_codes = None then ''unknown'' else t)"

definition server_failure :: "json option \<Rightarrow> failure_metadata" where
  "server_failure event = describeServerFailure (server_error_type event)
    \<lparr>fc_event = or_text (isOneOf (safeTag event ''event'') SERVER_ERROR_EVENTS) ''server.unhandled_error'',
     fc_source = or_text (isOneOf (safeTag event ''source'') SERVER_ERROR_SOURCES) ''sentry-auto-capture'',
     fc_routeType = isOneOf (safeTag event ''next.route_type'') SAFE_ROUTE_TYPES,
     fc_handling = map_option JStr (isOneOf (safeTag event ''handling'') ERROR_HANDLINGS),
     fc_outcome = map_option JStr (isOneOf (safeTag event ''outcome'') ERROR_OUTCOMES)\<rparr>"

definition server_error_code :: "json option \<Rightarrow> string option" where
  "server_error_code event =
    (case isSafeCode (safeTag event ''error.code'') of
       Some c \<Rightarrow> Some c
     | None \<Rightarrow> if server_error_type event = ''application'' then isOneOf (safeTag event ''error.code'') app_error_codes else None)"

definition server_tags :: "(string \<Rightarrow> string option) \<Rightarrow> json option \<Rightarrow> json" where
  "server_tags url event =
    (let route = getSentryRouteMetadata url (safeTag event ''route.template'');
         operation = (case isOneOf (safeTag event ''operation'') SENTRY_OPERATIONS of
           Some o' \<Rightarrow> Some o' | None \<Rightarrow> map_option snd route)
     in obj [text_member ''app'' (Some ''console''), text_member ''runtime'' (Some ''node''),
       text_member ''route.template'' (map_option fst route),
       text_member ''event'' (Some (or_text (isOneOf (safeTag event ''event'') SERVER_ERROR_EVENTS) ''server.unhandled_error'')),
       text_member ''source'' (Some (or_text (isOneOf (safeTag event ''source'') SERVER_ERROR_SOURCES) ''sentry-auto-capture'')),
       text_member ''operation'' operation,
       text_member ''error.type'' (Some (server_error_type event)),
       text_member ''failure.kind'' (Some (fm_kind (server_failure event))),
       text_member ''handling'' (Some (fm_handling (server_failure event))),
       text_member ''outcome'' (Some (fm_outcome (server_failure event))),
       text_member ''error.code'' (server_error_code event),
       text_member ''request.method'' (isOneOf (safeTag event ''request.method'') SAFE_METHODS),
       text_member ''next.router_kind'' (isOneOf (safeTag event ''next.router_kind'') SAFE_ROUTER_KINDS),
       text_member ''next.route_type'' (isOneOf (safeTag event ''next.route_type'') SAFE_ROUTE_TYPES)])"

definition server_contexts :: "json option \<Rightarrow> json option" where
  "server_contexts event =
    (let trace = safeTraceContext event; requestId = correlation_id event in
     given (trace \<noteq> None \<or> requestId \<noteq> None)
       (obj [(''trace'', trace), (''correlation'', map_option (\<lambda>r. JObj [(''request_id'', JStr r)]) requestId)]))"

definition sanitizeServerSentryEvent :: "(string \<Rightarrow> string option) \<Rightarrow> json option \<Rightarrow> json" where
  "sanitizeServerSentryEvent url event =
    (let delivery = (fm_kind (server_failure event) = ''delivery'') in
     obj ([(''event_id'', safe_event_id (readProperty event ''event_id'')),
       (''timestamp'', is_number (readProperty event ''timestamp'')),
       text_member ''level'' (Some (or_text (isOneOf (readProperty event ''level'') SAFE_LEVELS) ''error'')),
       text_member ''platform'' (Some ''node''),
       text_member ''environment'' (isOneOf (readProperty event ''environment'') APP_ENVIRONMENTS)] @
       toSafeSentryBuildMetadata url event @
       [(''exception'', Some (JObj [(''values'', JArr [obj
          [text_member ''type'' (Some (if delivery then ''DeliveryError'' else exception_name (server_error_type event))),
           text_member ''value'' (Some (if delivery then ''Unhandled application delivery failure'' else ''Unexpected server error'')),
           (''stacktrace'', safeStacktrace url safeStackText event)]])])),
        (''tags'', Some (server_tags url event)),
        (''contexts'', server_contexts event)]))"

section \<open>Browser errors\<close>

definition SENTRY_ERROR_SOURCES :: "string list" where
  "SENTRY_ERROR_SOURCES = [''admin-error-boundary'', ''admin-login-form'', ''admin-sign-out'', ''operator-connect-form'',
    ''global-error-boundary'', ''mutation-cache'', ''query-cache'', ''sentry-auto-capture'']"

definition CLIENT_ERROR_TYPES :: "string list" where
  "CLIENT_ERROR_TYPES = [''client-contract'', ''client-transport'', ''runtime'']"

definition SAFE_EXCEPTION_TYPES :: "string list" where
  "SAFE_EXCEPTION_TYPES = [''Error'', ''EvalError'', ''RangeError'', ''ReferenceError'', ''SyntaxError'', ''TypeError'', ''URIError'',
    ''ClientContractError'', ''ClientTransportError'']"

definition SAFE_BROWSER_NAMES :: "string list" where
  "SAFE_BROWSER_NAMES = [''Chrome'', ''Chrome Mobile'', ''Edge'', ''Firefox'', ''Firefox Mobile'', ''Mobile Safari'', ''Opera'', ''Safari'']"

definition SAFE_OS_NAMES :: "string list" where
  "SAFE_OS_NAMES = [''Android'', ''Chrome OS'', ''iOS'', ''Linux'', ''Mac OS X'', ''Windows'']"

definition SAFE_RUNTIME_MEMBER_NAMES :: "string list" where
  "SAFE_RUNTIME_MEMBER_NAMES = [''filter'', ''find'', ''forEach'', ''id'', ''length'', ''map'', ''reduce'', ''then'', ''toString'',
    ''trim'', ''value'']"

definition SAFE_TYPE_ERROR_MESSAGES :: "string list" where
  "SAFE_TYPE_ERROR_MESSAGES = [''Cannot convert undefined or null to object'', ''Failed to fetch'', ''Load failed'',
    ''NetworkError when attempting to fetch resource.'']"

definition SAFE_RANGE_ERROR_MESSAGES :: "string list" where
  "SAFE_RANGE_ERROR_MESSAGES = [''Invalid array length'', ''Invalid string length'', ''Maximum call stack size exceeded'']"

text \<open>\<open>[A-Za-z0-9_-]{1,128}\<close> and \<open>[0-9.]{1,32}\<close>.\<close>

definition digest_char :: "char \<Rightarrow> bool" where
  "digest_char c \<longleftrightarrow> letter c \<or> c \<in> set ''0123456789_-''"

definition short_of :: "(char \<Rightarrow> bool) \<Rightarrow> nat \<Rightarrow> string \<Rightarrow> bool" where
  "short_of p n s \<longleftrightarrow> 1 \<le> length s \<and> length s \<le> n \<and> list_all p s"

definition safeDigest :: "json option \<Rightarrow> string option" where
  "safeDigest v = (case as_text v of None \<Rightarrow> None | Some t \<Rightarrow> given (short_of digest_char 128 t) t)"

text \<open>\<open>^(?:\/?_next\/|src\/|\.\.?\/|webpack-internal:\/\/\/|turbopack:\/\/\/|<anonymous>$)\<close>.\<close>

definition source_file :: "string \<Rightarrow> bool" where
  "source_file s \<longleftrightarrow>
    list_ex (\<lambda>p. prefix p s) [''/_next/'', ''_next/'', ''src/'', ''./'', ''../'', ''webpack-internal:///'', ''turbopack:///''] \<or>
    s = ''<anonymous>''"

definition safeStackFilename :: "(string \<Rightarrow> string option) \<Rightarrow> json option \<Rightarrow> string option" where
  "safeStackFilename url v =
    (case safeStackText v of
       None \<Rightarrow> None
     | Some t \<Rightarrow>
         let filename = before_details t in
         if filename = [] then None
         else if is_http filename then
           (case url filename of None \<Rightarrow> None | Some p \<Rightarrow> given (slice_from ''/_next/'' p \<noteq> None) p)
         else given (source_file filename) filename)"

definition safeContext :: "json option \<Rightarrow> string list \<Rightarrow> json option" where
  "safeContext v safeNames =
    (case isOneOf (readProperty v ''name'') safeNames of
       None \<Rightarrow> None
     | Some name \<Rightarrow>
         Some (obj [(''name'', Some (JStr name)),
           (''version'', (case as_text (readProperty v ''version'') of
              None \<Rightarrow> None | Some t \<Rightarrow> given (short_of (\<lambda>c. c \<in> set ''0123456789.'') 32 t) (JStr t)))]))"

text \<open>A text between a head and a tail.\<close>

definition between :: "string \<Rightarrow> string \<Rightarrow> string \<Rightarrow> string option" where
  "between hd_part tl_part s =
    (if prefix hd_part s \<and> suffix tl_part s \<and> length hd_part + length tl_part \<le> length s
     then Some (drop (length hd_part) (take (length s - length tl_part) s)) else None)"

definition quote :: string where
  "quote = [CHR 0x27]"

definition access_prefixes :: "string list" where
  "access_prefixes = [''Cannot read properties of undefined'', ''Cannot read properties of null'',
    ''Cannot set properties of undefined'', ''Cannot set properties of null'']"

text \<open>The forms of \<open>Cannot read properties of undefined (reading 'name')\<close>.\<close>

definition property_access :: "string \<Rightarrow> (string \<times> string \<times> string) option" where
  "property_access s =
    map_option (\<lambda>(p, o'). (p, o', the (between (p @ '' ('' @ o' @ '' '' @ quote) (quote @ '')'') s)))
      (find (\<lambda>(p, o'). case between (p @ '' ('' @ o' @ '' '' @ quote) (quote @ '')'') s of
           None \<Rightarrow> False | Some m \<Rightarrow> m \<noteq> [] \<and> CHR 0x27 \<notin> set m)
        (concat (map (\<lambda>p. [(p, ''reading''), (p, ''setting'')]) access_prefixes)))"

definition ends_after_some :: "string \<Rightarrow> string \<Rightarrow> bool" where
  "ends_after_some tl_part s \<longleftrightarrow> (case between [] tl_part s of None \<Rightarrow> False | Some m \<Rightarrow> m \<noteq> [])"

definition safeTypeErrorMessage :: "string \<Rightarrow> string option" where
  "safeTypeErrorMessage s =
    (if s \<in> set SAFE_TYPE_ERROR_MESSAGES then Some s
     else case property_access s of
       Some (p, operation, member) \<Rightarrow>
         Some (if member \<in> set SAFE_RUNTIME_MEMBER_NAMES then s else p @ '' ('' @ operation @ '' a property)'')
     | None \<Rightarrow>
         if ends_after_some '' is not a function'' s then Some ''Value is not a function''
         else if ends_after_some '' is not iterable'' s then Some ''Value is not iterable''
         else None)"

text \<open>\<open>[A-Za-z_$][A-Za-z0-9_$]{0,63}\<close>.\<close>

definition js_identifier :: "string \<Rightarrow> bool" where
  "js_identifier s \<longleftrightarrow> (case s of [] \<Rightarrow> False
     | c # cs \<Rightarrow> (letter c \<or> c \<in> set ''_$'') \<and> length cs \<le> 63 \<and> list_all (\<lambda>c. letter c \<or> c \<in> set ''0123456789_$'') cs)"

definition js_identifier_between :: "string \<Rightarrow> string \<Rightarrow> string \<Rightarrow> bool" where
  "js_identifier_between hd_part tl_part s = (case between hd_part tl_part s of None \<Rightarrow> False | Some m \<Rightarrow> js_identifier m)"

definition safeRuntimeErrorMessage :: "string \<Rightarrow> json option \<Rightarrow> string option" where
  "safeRuntimeErrorMessage exceptionType v =
    (case as_text v of
       None \<Rightarrow> None
     | Some s \<Rightarrow>
         if length s = 0 \<or> 200 < length s \<or> \<not> one_line s then None
         else if exceptionType = ''TypeError'' then safeTypeErrorMessage s
         else if exceptionType = ''RangeError'' \<and> s \<in> set SAFE_RANGE_ERROR_MESSAGES then Some s
         else if exceptionType = ''URIError'' \<and> s = ''URI malformed'' then Some s
         else if exceptionType = ''ReferenceError'' then
           (if js_identifier_between [] '' is not defined'' s then Some ''Identifier is not defined''
            else if js_identifier_between (''Cannot access '' @ quote) (quote @ '' before initialization'') s
            then Some ''Cannot access identifier before initialization''
            else None)
         else None)"

definition safeExceptionMessage :: "string \<Rightarrow> string \<Rightarrow> json option \<Rightarrow> string" where
  "safeExceptionMessage errorType exceptionType v =
    (if errorType = ''client-contract'' then ''Client response contract violation''
     else if errorType = ''client-transport'' then ''Client transport error''
     else or_text (safeRuntimeErrorMessage exceptionType v) ''Unexpected client error'')"

definition client_source :: "json option \<Rightarrow> string" where
  "client_source v = or_text (isOneOf v SENTRY_ERROR_SOURCES) ''sentry-auto-capture''"

definition client_outcome :: "string \<Rightarrow> json option \<Rightarrow> string" where
  "client_outcome src v =
    (if (src = ''admin-error-boundary'' \<or> src = ''global-error-boundary'') \<and> as_text v = Some ''error_boundary_mounted''
     then ''error_boundary_mounted'' else ''unknown'')"

definition describeClientError :: "json option \<Rightarrow> string" where
  "describeClientError e =
    (let name = as_text (readProperty e ''name'') in
     if name = Some ''ClientContractError'' then ''client-contract''
     else if name = Some ''ClientTransportError'' then ''client-transport''
     else ''runtime'')"

definition sanitizeClientBreadcrumb :: "(string \<Rightarrow> string option) \<Rightarrow> json \<Rightarrow> json option" where
  "sanitizeClientBreadcrumb url b =
    (if as_text (readProperty (Some b) ''category'') \<noteq> Some ''navigation'' then None
     else
       let data = readProperty (Some b) ''data'';
           from = map_option fst (getSentryRouteMetadata url (readProperty data ''from''));
           target = map_option fst (getSentryRouteMetadata url (readProperty data ''to''))
       in given (from \<noteq> None \<or> target \<noteq> None)
         (obj [text_member ''category'' (Some ''navigation''), text_member ''type'' (Some ''navigation''),
           text_member ''level'' (Some ''info''),
           (''timestamp'', is_number (readProperty (Some b) ''timestamp'')),
           (''data'', Some (obj [text_member ''from'' from, text_member ''to'' target]))]))"

definition client_breadcrumbs :: "(string \<Rightarrow> string option) \<Rightarrow> json option \<Rightarrow> json list" where
  "client_breadcrumbs url event =
    (case as_array (readProperty event ''breadcrumbs'') of
       None \<Rightarrow> []
     | Some bs \<Rightarrow> concat (map (\<lambda>b. case sanitizeClientBreadcrumb url b of None \<Rightarrow> [] | Some j \<Rightarrow> [j]) bs))"

definition client_error_type :: "json option \<Rightarrow> string" where
  "client_error_type event = or_text (isOneOf (safeTag event ''error.type'') CLIENT_ERROR_TYPES) ''runtime''"

definition client_exception_type :: "json option \<Rightarrow> string" where
  "client_exception_type event = or_text (isOneOf (readProperty (last_exception event) ''type'') SAFE_EXCEPTION_TYPES) ''Error''"

definition client_exception_value :: "json option \<Rightarrow> string" where
  "client_exception_value event =
    safeExceptionMessage (client_error_type event) (client_exception_type event) (readProperty (last_exception event) ''value'')"

text \<open>The template of the route is looked up again, as the code does.\<close>

definition client_tags :: "(string \<Rightarrow> string option) \<Rightarrow> json option \<Rightarrow> json" where
  "client_tags url event =
    (let routeTemplate = map_option fst (getSentryRouteMetadata url (safeTag event ''route.template''));
         route = getSentryRouteMetadata url (map_option JStr routeTemplate);
         src = client_source (safeTag event ''source'')
     in obj [text_member ''app'' (Some ''console''), text_member ''runtime'' (Some ''browser''),
       text_member ''route.template'' (map_option fst route), text_member ''operation'' (map_option snd route),
       text_member ''source'' (Some src),
       text_member ''outcome'' (Some (client_outcome src (safeTag event ''outcome''))),
       text_member ''error.type'' (Some (client_error_type event)),
       text_member ''error.digest'' (safeDigest (safeTag event ''error.digest''))])"

definition client_contexts :: "json option \<Rightarrow> json option" where
  "client_contexts event =
    (let browser = safeContext (readProperty (readProperty event ''contexts'') ''browser'') SAFE_BROWSER_NAMES;
         os = safeContext (readProperty (readProperty event ''contexts'') ''os'') SAFE_OS_NAMES;
         requestId = correlation_id event
     in given (browser \<noteq> None \<or> os \<noteq> None \<or> requestId \<noteq> None)
       (obj [(''correlation'', map_option (\<lambda>r. JObj [(''request_id'', JStr r)]) requestId), (''browser'', browser), (''os'', os)]))"

definition sanitizeClientSentryEvent :: "(string \<Rightarrow> string option) \<Rightarrow> json option \<Rightarrow> json" where
  "sanitizeClientSentryEvent url event =
    obj ([(''event_id'', safe_event_id (readProperty event ''event_id'')),
       (''timestamp'', is_number (readProperty event ''timestamp'')),
       text_member ''level'' (Some (or_text (isOneOf (readProperty event ''level'') SAFE_LEVELS) ''error'')),
       text_member ''platform'' (Some ''javascript''),
       text_member ''environment'' (isOneOf (readProperty event ''environment'') APP_ENVIRONMENTS)] @
       toSafeSentryBuildMetadata url event @
       [(''exception'', Some (JObj [(''values'', JArr [obj
          [text_member ''type'' (Some (client_exception_type event)),
           text_member ''value'' (Some (client_exception_value event)),
           (''stacktrace'', safeStacktrace url (safeStackFilename url) event)]])])),
        (''tags'', Some (client_tags url event)),
        (''contexts'', client_contexts event),
        (''breadcrumbs'', given (client_breadcrumbs url event \<noteq> []) (JArr (client_breadcrumbs url event)))])"

section \<open>The texts of an event\<close>

fun texts :: "json \<Rightarrow> string list" where
  "texts (JStr t) = [t]"
| "texts (JArr js) = concat (map texts js)"
| "texts (JObj kvs) = concat (map (\<lambda>(k, v). texts v) kvs)"
| "texts _ = []"

definition all_texts :: "(string \<Rightarrow> bool) \<Rightarrow> json \<Rightarrow> bool" where
  "all_texts P j \<longleftrightarrow> (\<forall>t \<in> set (texts j). P t)"

definition opt_texts :: "(string \<Rightarrow> bool) \<Rightarrow> json option \<Rightarrow> bool" where
  "opt_texts P v \<longleftrightarrow> (case v of None \<Rightarrow> True | Some j \<Rightarrow> all_texts P j)"

lemma all_texts_simps [simp]:
  "all_texts P (JStr t) = P t" "all_texts P (JNum n)" "all_texts P (JArr js) = (\<forall>j \<in> set js. all_texts P j)"
  "all_texts P (JObj kvs) = (\<forall>(k, v) \<in> set kvs. all_texts P v)"
  by (fastforce simp: all_texts_def)+

lemma opt_texts_simps [simp]:
  "opt_texts P None" "opt_texts P (Some j) = all_texts P j" "opt_texts P (map_option JNum n)"
  "opt_texts P (map_option JStr v) = (\<forall>t. v = Some t \<longrightarrow> P t)" "opt_texts P (given b j) = (b \<longrightarrow> all_texts P j)"
  by (auto simp: opt_texts_def given_def split: option.splits)

lemma all_texts_obj [simp]: "all_texts P (obj kvs) = (\<forall>(k, v) \<in> set kvs. opt_texts P v)"
  by (force simp: obj_def opt_texts_def split: option.splits)

lemma opt_texts_member [simp]: "(\<forall>(k, v) \<in> {text_member k' v'}. opt_texts P v) = (\<forall>t. v' = Some t \<longrightarrow> P t)"
  by (simp add: text_member_def)

lemma isOneOf_mem: "isOneOf v xs = Some t \<Longrightarrow> t \<in> set xs"
  by (auto simp: isOneOf_def split: option.splits if_splits)

lemma or_text_mem: "d \<in> set xs \<Longrightarrow> or_text (isOneOf v xs) d \<in> set xs"
  by (auto simp: or_text_def dest: isOneOf_mem split: option.split)

lemma route_mem: "getSentryRouteMetadata url v = Some r \<Longrightarrow> r \<in> set routes"
  by (auto simp: getSentryRouteMetadata_def find_Some_iff split: option.splits if_splits) (metis nth_mem)+

lemma given_Some [simp]: "given b x = Some y \<longleftrightarrow> b \<and> y = x" "given b x = None \<longleftrightarrow> \<not> b"
  by (auto simp: given_def)

section \<open>Texts that may be sent\<close>

definition id_text :: "string \<Rightarrow> bool" where
  "id_text t \<longleftrightarrow> matches (replicate 32 hex_digit) t \<or> matches (replicate 16 hex_digit) t \<or> matches request_id_pattern t \<or>
    matches release_pattern t \<or> matches debug_id_pattern t"

definition build_path :: "string \<Rightarrow> bool" where
  "build_path t \<longleftrightarrow> prefix ''/_next/'' t \<or> prefix ''.next/'' t"

definition frames_of :: "json option \<Rightarrow> json list" where
  "frames_of event = (case as_array (readProperty (readProperty (last_exception event) ''stacktrace'') ''frames'') of
     None \<Rightarrow> [] | Some frames \<Rightarrow> frames)"

definition stack_text :: "json option \<Rightarrow> string \<Rightarrow> bool" where
  "stack_text event t \<longleftrightarrow> 0 < length t \<and> length t \<le> 512 \<and> one_line t \<and>
    (\<exists>f \<in> set (frames_of event). readProperty (Some f) ''function'' = Some (JStr t))"

text \<open>The names of files as they are in the stack; only the server sends them.\<close>

definition stack_file :: "json option \<Rightarrow> string \<Rightarrow> bool" where
  "stack_file event t \<longleftrightarrow> 0 < length t \<and> length t \<le> 512 \<and> one_line t \<and>
    (\<exists>f \<in> set (frames_of event). readProperty (Some f) ''filename'' = Some (JStr t))"

text \<open>
  The name of a file that the browser sends: the name in the stack cut at the first \<open>?\<close> or \<open>#\<close>, when it
  begins like a source file; of a web address only the path, and only the path of a build artifact.\<close>

definition sent_file :: "(string \<Rightarrow> string option) \<Rightarrow> json option \<Rightarrow> string \<Rightarrow> bool" where
  "sent_file url event t \<longleftrightarrow>
    (\<exists>filename details. stack_file event (filename @ details) \<and>
      (details = [] \<or> hd details = CHR ''?'' \<or> hd details = CHR ''#'') \<and> CHR ''?'' \<notin> set filename \<and> CHR ''#'' \<notin> set filename \<and>
      (if prefix ''http://'' filename \<or> prefix ''https://'' filename
       then url filename = Some t \<and> sublist ''/_next/'' t
       else t = filename \<and> (prefix ''/_next/'' t \<or> prefix ''_next/'' t \<or> prefix ''src/'' t \<or> prefix ''./'' t \<or> prefix ''../'' t \<or>
         prefix ''webpack-internal:///'' t \<or> prefix ''turbopack:///'' t \<or> t = ''<anonymous>'')))"

definition common_vocabulary :: "string list" where
  "common_vocabulary = SAFE_LEVELS @ APP_ENVIRONMENTS @ map fst routes @ SENTRY_OPERATIONS @ [''console'', ''sourcemap'', ''unknown'']"

definition server_vocabulary :: "string list" where
  "server_vocabulary = common_vocabulary @ SERVER_ERROR_EVENTS @ SERVER_ERROR_SOURCES @ SAFE_ERROR_TYPES @ ERROR_HANDLINGS @
    ERROR_OUTCOMES @ SAFE_METHODS @ SAFE_ROUTER_KINDS @ SAFE_ROUTE_TYPES @ app_error_codes @
    [''node'', ''contract'', ''delivery'', ''system'', ''AUTH_FAILURE'', ''OUTPUT_CONTRACT_VIOLATION'', ''ApplicationError'', ''AuthError'',
     ''DatabaseError'', ''OutputContractError'', ''UnknownError'', ''DeliveryError'', ''Unhandled application delivery failure'',
     ''Unexpected server error'']"

definition server_text :: "json option \<Rightarrow> string \<Rightarrow> bool" where
  "server_text event t \<longleftrightarrow> t \<in> set server_vocabulary \<or> id_text t \<or> sql_state t \<or> build_path t \<or>
    stack_text event t \<or> stack_file event t"

definition client_vocabulary :: "string list" where
  "client_vocabulary = common_vocabulary @ SENTRY_ERROR_SOURCES @ CLIENT_ERROR_TYPES @ SAFE_EXCEPTION_TYPES @ SAFE_BROWSER_NAMES @
    SAFE_OS_NAMES @ SAFE_TYPE_ERROR_MESSAGES @ SAFE_RANGE_ERROR_MESSAGES @
    concat (map (\<lambda>p. concat (map (\<lambda>o'. (p @ '' ('' @ o' @ '' a property)'') #
      map (\<lambda>m. p @ '' ('' @ o' @ '' '' @ quote @ m @ quote @ '')'') SAFE_RUNTIME_MEMBER_NAMES) [''reading'', ''setting''])) access_prefixes) @
    [''javascript'', ''browser'', ''navigation'', ''error_boundary_mounted'', ''URI malformed'', ''Value is not a function'',
     ''Value is not iterable'', ''Identifier is not defined'', ''Cannot access identifier before initialization'',
     ''Client response contract violation'', ''Client transport error'', ''Unexpected client error'']"

text \<open>With a digest of the framework and a version.\<close>

definition client_text :: "(string \<Rightarrow> string option) \<Rightarrow> json option \<Rightarrow> string \<Rightarrow> bool" where
  "client_text url event t \<longleftrightarrow> t \<in> set client_vocabulary \<or> id_text t \<or> build_path t \<or> stack_text event t \<or>
    short_of digest_char 128 t \<or> short_of (\<lambda>c. c \<in> set ''0123456789.'') 32 t \<or> sent_file url event t"

lemma slice_from_prefix: "slice_from pat s = Some t \<Longrightarrow> prefix pat t"
proof (induction s)
  case Nil
  then show ?case by (simp add: slice_from.simps[of pat "[]"] split: if_splits)
next
  case (Cons c s)
  then show ?case by (simp add: slice_from.simps[of pat "c # s"] split: if_splits)
qed

lemma artifact_build_path: "artifact_path p = Some t \<Longrightarrow> build_path t"
  by (auto simp: artifact_path_def build_path_def dest!: slice_from_prefix split: option.splits if_splits) (auto simp: prefix_def)

lemma build_path_safe: "toSafeSentryBuildPath url v = Some t \<Longrightarrow> build_path t"
  by (auto simp: toSafeSentryBuildPath_def Let_def dest: artifact_build_path split: option.splits if_splits)

lemma matches_map:
  assumes "\<And>p c. p \<in> set ps \<Longrightarrow> p c \<Longrightarrow> p (f c)"
  shows "matches ps s \<Longrightarrow> matches ps (map f s)"
  using assms by (induction ps s rule: list_induct2') (auto simp: matches_def)

lemma hex_lower: "hex_digit c \<Longrightarrow> hex_digit (lower_char c)"
proof -
  have "list_all (\<lambda>c. hex_digit (lower_char c)) ''0123456789abcdefABCDEF''"
    by code_simp
  then show "hex_digit c \<Longrightarrow> hex_digit (lower_char c)"
    unfolding list_all_iff hex_digit_def by blast
qed

lemma request_id_lower: "matches request_id_pattern t \<Longrightarrow> matches request_id_pattern (toLowerCase t)"
  unfolding toLowerCase_def
proof (rule matches_map)
  fix p :: "char \<Rightarrow> bool" and c
  assume p: "p \<in> set request_id_pattern" and c: "p c"
  have "list_all (\<lambda>c. lower_char c \<in> set ''89abAB'') ''89abAB''"
    by code_simp
  then have variant: "c \<in> set ''89abAB'' \<Longrightarrow> lower_char c \<in> set ''89abAB''"
    unfolding list_all_iff by blast
  have fixed: "lower_char CHR ''-'' = CHR ''-''" "lower_char CHR ''4'' = CHR ''4''"
    by code_simp+
  have "set request_id_pattern \<subseteq> {hex_digit, \<lambda>c. c = CHR ''-'', \<lambda>c. c = CHR ''4'', \<lambda>c. c \<in> set ''89abAB''}"
    unfolding request_id_pattern_def hex_groups_def by (simp add: set_replicate_conv_if)
  then consider "p = hex_digit" | "p = (\<lambda>c. c = CHR ''-'')" | "p = (\<lambda>c. c = CHR ''4'')" | "p = (\<lambda>c. c \<in> set ''89abAB'')"
    using p by blast
  then show "p (lower_char c)"
  proof cases
    case 1
    then show ?thesis using c hex_lower by blast
  next
    case 2
    then show ?thesis using c fixed(1) by simp
  next
    case 3
    then show ?thesis using c fixed(2) by simp
  next
    case 4
    then show ?thesis using c variant by blast
  qed
qed

lemma correlation_id_safe: "correlation_id event = Some t \<Longrightarrow> id_text t"
  by (auto simp: correlation_id_def toSafeRequestId_def id_text_def request_id_lower split: option.splits)

section \<open>What both rebuilt events have in common\<close>

text \<open>A set of texts that has the shared vocabulary, identifiers, build paths and the stack of the event.\<close>

lemma or_text_P: "P d \<Longrightarrow> (\<And>t. v = Some t \<Longrightarrow> P t) \<Longrightarrow> P (or_text v d)"
  by (simp add: or_text_def split: option.split)

locale allowed_texts =
  fixes event :: "json option" and P :: "string \<Rightarrow> bool"
  assumes words: "t \<in> set common_vocabulary \<Longrightarrow> P t"
    and ids: "id_text t \<Longrightarrow> P t"
    and paths: "build_path t \<Longrightarrow> P t"
    and stack: "stack_text event t \<Longrightarrow> P t"
begin

lemma level: "P (or_text (isOneOf v SAFE_LEVELS) ''error'')"
proof -
  have "or_text (isOneOf v SAFE_LEVELS) ''error'' \<in> set SAFE_LEVELS"
    by (rule or_text_mem) (simp add: SAFE_LEVELS_def)
  then show ?thesis
    by (intro words) (simp add: common_vocabulary_def)
qed

lemma environment: "isOneOf v APP_ENVIRONMENTS = Some t \<Longrightarrow> P t"
  by (intro words) (auto simp: common_vocabulary_def dest: isOneOf_mem)

lemma operation: "isOneOf v SENTRY_OPERATIONS = Some t \<Longrightarrow> P t"
  by (intro words) (auto simp: common_vocabulary_def dest: isOneOf_mem)

lemma route:
  assumes "getSentryRouteMetadata url v = Some r"
  shows "P (fst r)" and "P (snd r)"
  using route_mem[OF assms] by (auto intro!: words simp: common_vocabulary_def SENTRY_OPERATIONS_def)

lemma event_id: "opt_texts P (safe_event_id v)"
  by (auto simp: safe_event_id_def id_text_def intro!: ids split: option.split)

lemma number: "opt_texts P (is_number v)"
  by (cases v rule: is_number.cases) auto

lemma trace: "opt_texts P (safeTraceContext e)"
  by (auto simp: safeTraceContext_def Let_def id_text_def intro!: ids split: option.splits)

lemma correlation: "correlation_id e = Some t \<Longrightarrow> P t"
  by (rule ids) (rule correlation_id_safe)

lemma image_texts:
  assumes "j \<in> set (safe_image url img)"
  shows "all_texts P j"
proof -
  obtain codeFile debugId where code: "toSafeSentryBuildPath url (readProperty (Some img) ''code_file'') = Some codeFile"
    and debug: "matches debug_id_pattern debugId"
    and j: "j = JObj [(''type'', JStr ''sourcemap''), (''code_file'', JStr codeFile), (''debug_id'', JStr debugId)]"
    using assms
    by (cases "toSafeSentryBuildPath url (readProperty (Some img) ''code_file'')"; cases "as_text (readProperty (Some img) ''debug_id'')")
      (auto simp: safe_image_def split: if_splits)
  have "P ''sourcemap''"
    by (rule words) (simp add: common_vocabulary_def)
  moreover have "P codeFile"
    by (rule paths) (rule build_path_safe[OF code])
  moreover have "P debugId"
    by (rule ids) (simp add: id_text_def debug)
  ultimately show ?thesis
    by (simp add: j)
qed

lemma metadata: "(k, v) \<in> set (toSafeSentryBuildMetadata url e) \<Longrightarrow> opt_texts P v"
  by (auto simp: toSafeSentryBuildMetadata_def safe_release_def safeDebugMeta_def Let_def id_text_def
      dest: image_texts[rotated] intro!: ids split: option.splits)

lemma frame:
  assumes "f \<in> set (frames_of event)" and "\<And>t. filename_of (readProperty (Some f) ''filename'') = Some t \<Longrightarrow> P t"
    and "j \<in> set (safe_frame url filename_of f)"
  shows "all_texts P j"
proof -
  have "P t" if "safeStackText (readProperty (Some f) ''function'') = Some t" for t
  proof (rule stack)
    have "readProperty (Some f) ''function'' = Some (JStr t)" "0 < length t" "length t \<le> 512" "one_line t"
      using that by (auto simp: safeStackText_def split: option.splits elim: as_text.elims)
    then show "stack_text event t"
      using assms(1) by (auto simp: stack_text_def)
  qed
  then show ?thesis
    using assms(2,3) by (auto simp: safe_frame_def Let_def intro!: paths build_path_safe split: if_splits option.splits)
qed

lemma stacktrace:
  assumes "\<And>f t. f \<in> set (frames_of event) \<Longrightarrow> filename_of (readProperty (Some f) ''filename'') = Some t \<Longrightarrow> P t"
  shows "opt_texts P (safeStacktrace url filename_of event)"
proof (cases "as_array (readProperty (readProperty (last_exception event) ''stacktrace'') ''frames'')")
  case (Some frames)
  then have "set frames = set (frames_of event)"
    by (simp add: frames_of_def)
  then show ?thesis
    using frame[of _ filename_of] assms by (auto simp: safeStacktrace_def Some Let_def)
qed (simp add: safeStacktrace_def)

end

interpretation server: allowed_texts event "server_text event" for event
  by unfold_locales (simp_all add: server_text_def server_vocabulary_def)

interpretation client: allowed_texts event "client_text url event" for url event
  by unfold_locales (simp_all add: client_text_def client_vocabulary_def)

section \<open>Server errors: texts\<close>

lemma server_word: "t \<in> set server_vocabulary \<Longrightarrow> server_text event t"
  by (simp add: server_text_def)

lemma server_tag:
  "isOneOf v SERVER_ERROR_EVENTS = Some t \<Longrightarrow> server_text event t" "isOneOf v SERVER_ERROR_SOURCES = Some t \<Longrightarrow> server_text event t"
  "isOneOf v SAFE_ERROR_TYPES = Some t \<Longrightarrow> server_text event t" "isOneOf v ERROR_HANDLINGS = Some t \<Longrightarrow> server_text event t"
  "isOneOf v ERROR_OUTCOMES = Some t \<Longrightarrow> server_text event t" "isOneOf v SAFE_METHODS = Some t \<Longrightarrow> server_text event t"
  "isOneOf v SAFE_ROUTER_KINDS = Some t \<Longrightarrow> server_text event t" "isOneOf v SAFE_ROUTE_TYPES = Some t \<Longrightarrow> server_text event t"
  "isOneOf v app_error_codes = Some t \<Longrightarrow> server_text event t"
  by (auto intro!: server_word simp: server_vocabulary_def dest: isOneOf_mem)

lemma server_or_text:
  "server_text event (or_text (isOneOf v SERVER_ERROR_EVENTS) ''server.unhandled_error'')"
  "server_text event (or_text (isOneOf v SERVER_ERROR_SOURCES) ''sentry-auto-capture'')"
proof -
  have "server_text event ''server.unhandled_error''" "server_text event ''sentry-auto-capture''"
    by (rule server_word, simp add: server_vocabulary_def SERVER_ERROR_EVENTS_def SERVER_ERROR_SOURCES_def)+
  then show "server_text event (or_text (isOneOf v SERVER_ERROR_EVENTS) ''server.unhandled_error'')"
    and "server_text event (or_text (isOneOf v SERVER_ERROR_SOURCES) ''sentry-auto-capture'')"
    using or_text_P[of "server_text event"] server_tag(1,2) by blast+
qed

lemma server_failure_texts:
  "server_text event (fm_kind (server_failure e))" "server_text event (fm_handling (server_failure e))"
  "server_text event (fm_outcome (server_failure e))" "server_text event (server_error_type e)"
  "server_text event (exception_name t)"
proof -
  have words: "server_text event w" if "w \<in> {''unknown'', ''contract'', ''delivery'', ''system'', ''unhandled'', ''render_error_captured'',
      ''ApplicationError'', ''AuthError'', ''DatabaseError'', ''OutputContractError'', ''UnknownError''}" for w
    using that by (intro server_word) (auto simp: server_vocabulary_def common_vocabulary_def ERROR_HANDLINGS_def ERROR_OUTCOMES_def)
  have other: "server_text event (or_text (isOneOf v ERROR_HANDLINGS) ''unknown'')"
    "server_text event (or_text (isOneOf v ERROR_OUTCOMES) ''unknown'')" for v
    using or_text_P[of "server_text event"] words[of "''unknown''"] server_tag(4,5) by blast+
  show "server_text event (fm_kind (server_failure e))"
    unfolding server_failure_def describeServerFailure_def by (auto intro!: words)
  show "server_text event (fm_handling (server_failure e))"
    unfolding server_failure_def describeServerFailure_def by (simp add: other words)
  show "server_text event (fm_outcome (server_failure e))"
    unfolding server_failure_def describeServerFailure_def by (simp add: other words)
  show "server_text event (server_error_type e)"
    using words[of "''unknown''"] server_tag(3) by (auto simp: server_error_type_def split: option.split)
  show "server_text event (exception_name t)"
    unfolding exception_name_def by (auto intro!: words)
qed

lemma server_code_text: "server_error_code e = Some t \<Longrightarrow> server_text event t"
proof -
  assume "server_error_code e = Some t"
  then consider "isSafeCode (safeTag e ''error.code'') = Some t" | "isOneOf (safeTag e ''error.code'') app_error_codes = Some t"
    by (auto simp: server_error_code_def split: option.splits if_splits)
  then show ?thesis
  proof cases
    case 1
    then have "t = ''AUTH_FAILURE'' \<or> t = ''OUTPUT_CONTRACT_VIOLATION'' \<or> sql_state t"
      by (auto simp: isSafeCode_def split: option.splits)
    then show ?thesis
      by (auto simp: server_text_def server_vocabulary_def)
  qed (rule server_tag)
qed

lemma server_tags_texts: "all_texts (server_text event) (server_tags url e)"
proof -
  have words: "server_text event ''console''" "server_text event ''node''"
    by (rule server_word, simp add: server_vocabulary_def common_vocabulary_def)+
  have route: "server_text event a" "server_text event b" if "getSentryRouteMetadata url v = Some (a, b)" for v a b
    using server.route[OF that] by simp_all
  show ?thesis
    using words route server_or_text server_failure_texts server_tag server_code_text server.operation
    unfolding server_tags_def Let_def
    by (auto simp: text_member_def split: option.splits)
qed

lemma contexts_texts:
  assumes "\<And>t. id_text t \<Longrightarrow> P t" and "opt_texts P (safeTraceContext e)"
  shows "opt_texts P (server_contexts e)"
  using assms correlation_id_safe by (auto simp: server_contexts_def Let_def opt_texts_def split: option.splits)

section \<open>What has no influence\<close>

text \<open>The event with the properties that the server's projection reads, and nothing else.\<close>

definition read_of :: "json option \<Rightarrow> string list \<Rightarrow> (string \<times> json option) list" where
  "read_of event keys = map (\<lambda>k. (k, readProperty event k)) keys"

definition server_view :: "json option \<Rightarrow> json" where
  "server_view event = obj (read_of event [''event_id'', ''timestamp'', ''level'', ''environment'', ''release'', ''debug_meta'', ''tags'', ''contexts''] @
    [(''exception'', map_option (\<lambda>x. JObj [(''values'', JArr [obj [(''stacktrace'', readProperty (Some x) ''stacktrace'')]])])
      (last_exception event))])"

lemma readProperty_obj:
  "distinct (map fst kvs) \<Longrightarrow> readProperty (Some (obj kvs)) k = (case map_of kvs k of None \<Rightarrow> None | Some v \<Rightarrow> v)"
proof (induction kvs)
  case (Cons kv kvs)
  obtain k' v where kv: "kv = (k', v)" by (cases kv)
  show ?case
  proof (cases "k = k'")
    case True
    then have "map_of kvs k = None"
      using Cons.prems by (simp add: kv map_of_eq_None_iff)
    then show ?thesis
      using Cons True by (cases v) (auto simp: kv obj_def jprop_def)
  next
    case False
    then show ?thesis
      using Cons by (cases v) (auto simp: kv obj_def jprop_def)
  qed
qed (simp add: obj_def jprop_def)

lemma server_view_reads:
  "k \<in> set [''event_id'', ''timestamp'', ''level'', ''environment'', ''release'', ''debug_meta'', ''tags'', ''contexts''] \<Longrightarrow>
    readProperty (Some (server_view event)) k = readProperty event k"
  unfolding server_view_def read_of_def by (subst readProperty_obj) auto

lemma server_view_stack:
  "readProperty (last_exception (Some (server_view event))) ''stacktrace'' = readProperty (last_exception event) ''stacktrace''"
proof -
  have "readProperty (Some (server_view event)) ''exception'' =
      map_option (\<lambda>x. JObj [(''values'', JArr [obj [(''stacktrace'', readProperty (Some x) ''stacktrace'')]])]) (last_exception event)"
    unfolding server_view_def read_of_def by (subst readProperty_obj) (auto split: option.split)
  then show ?thesis
    by (cases "last_exception event") (simp_all add: last_exception_def[of "Some _"] jprop_def given_def readProperty_obj)
qed

lemma server_view_same: "sanitizeServerSentryEvent url (Some (server_view event)) = sanitizeServerSentryEvent url event"
proof -
  note read = server_view_reads[of _ event]
  have tag: "safeTag (Some (server_view event)) = safeTag event"
    by (rule ext) (simp add: safeTag_def read)
  have parts: "server_error_type (Some (server_view event)) = server_error_type event"
    "server_failure (Some (server_view event)) = server_failure event"
    "server_error_code (Some (server_view event)) = server_error_code event"
    "server_tags url (Some (server_view event)) = server_tags url event"
    unfolding server_tags_def server_error_code_def server_failure_def server_error_type_def tag by (rule refl)+
  have "server_contexts (Some (server_view event)) = server_contexts event"
    by (simp add: server_contexts_def safeTraceContext_def correlation_id_def read)
  moreover have "toSafeSentryBuildMetadata url (Some (server_view event)) = toSafeSentryBuildMetadata url event"
    by (simp add: toSafeSentryBuildMetadata_def safeDebugMeta_def read)
  moreover have "safeStacktrace url safeStackText (Some (server_view event)) = safeStacktrace url safeStackText event"
    by (simp add: safeStacktrace_def server_view_stack)
  ultimately show ?thesis
    by (simp add: sanitizeServerSentryEvent_def parts read cong: if_cong)
qed

lemma server_stack_texts: "opt_texts (server_text event) (safeStacktrace url safeStackText event)"
proof (rule server.stacktrace)
  fix f t
  assume "f \<in> set (frames_of event)" and "safeStackText (readProperty (Some f) ''filename'') = Some t"
  then have "stack_file event t"
    by (auto simp: safeStackText_def stack_file_def split: option.splits elim!: as_text.elims)
  then show "server_text event t"
    by (simp add: server_text_def)
qed

text \<open>C27.
  Whatever an error event contains, what the console's server sends of it consists of texts of the fixed
  vocabulary, identifiers of fixed format, state codes of the database, paths of build artifacts, and names
  of files and functions of the stack; and it depends only on a few named properties of the event, so that
  messages, users, requests, headers, breadcrumbs and extra data have no influence.\<close>

theorem server_event_private:
  "all_texts (server_text event) (sanitizeServerSentryEvent url event)
    \<and> sanitizeServerSentryEvent url event = sanitizeServerSentryEvent url (Some (server_view event))"
proof
  have words: "server_text event ''node''" "server_text event ''DeliveryError''" "server_text event ''Unhandled application delivery failure''"
    "server_text event ''Unexpected server error''"
    by (rule server_word, simp add: server_vocabulary_def)+
  have contexts: "opt_texts (server_text event) (server_contexts event)"
    using server.ids server.trace by (rule contexts_texts)
  show "all_texts (server_text event) (sanitizeServerSentryEvent url event)"
    unfolding sanitizeServerSentryEvent_def Let_def
    using server.event_id server.number server.level server.environment server.metadata words server_failure_texts
      server_stack_texts server_tags_texts contexts
    by (auto simp: text_member_def)
  show "sanitizeServerSentryEvent url event = sanitizeServerSentryEvent url (Some (server_view event))"
    by (rule server_view_same[symmetric])
qed

section \<open>Browser errors: texts\<close>

lemma client_word: "t \<in> set client_vocabulary \<Longrightarrow> client_text url event t"
  by (simp add: client_text_def)

lemma between_eq:
  assumes "between h t s = Some m"
  shows "s = h @ m @ t"
proof -
  have h: "prefix h s" and t: "suffix t s" and le: "length h + length t \<le> length s"
    and m: "m = drop (length h) (take (length s - length t) s)"
    using assms by (auto simp: between_def split: if_splits)
  obtain r where r: "s = h @ r"
    using h by (auto elim: prefixE)
  obtain q where q: "s = q @ t"
    using t by (auto elim: suffixE)
  have "length h \<le> length q"
    using le by (simp add: q)
  moreover have "take (length h) s = h"
    by (simp add: r)
  ultimately have "take (length h) q = h"
    by (simp add: q)
  moreover have "m = drop (length h) q"
    by (simp add: m q)
  ultimately have "q = h @ m"
    using append_take_drop_id[of "length h" q] by simp
  then show ?thesis
    by (simp add: q)
qed

lemma find_Some_mem: "find P xs = Some x \<Longrightarrow> x \<in> set xs \<and> P x"
  by (induction xs) (auto split: if_splits)

text \<open>What an engine's message becomes.\<close>

definition access_texts :: "string list" where
  "access_texts = concat (map (\<lambda>p. concat (map (\<lambda>o'. (p @ '' ('' @ o' @ '' a property)'') #
    map (\<lambda>m. p @ '' ('' @ o' @ '' '' @ quote @ m @ quote @ '')'') SAFE_RUNTIME_MEMBER_NAMES) [''reading'', ''setting''])) access_prefixes)"

lemma in_concat_map2:
  "x \<in> set xs \<Longrightarrow> y \<in> set ys \<Longrightarrow> t \<in> set (f x y) \<Longrightarrow> t \<in> set (concat (map (\<lambda>x. concat (map (\<lambda>y. f x y) ys)) xs))"
  by auto

lemma property_access_text:
  assumes "property_access s = Some (p, o', m)"
  shows "p @ '' ('' @ o' @ '' a property)'' \<in> set access_texts"
    and "m \<in> set SAFE_RUNTIME_MEMBER_NAMES \<Longrightarrow> s \<in> set access_texts"
proof -
  have found: "find (\<lambda>(p, o'). case between (p @ '' ('' @ o' @ '' '' @ quote) (quote @ '')'') s of
           None \<Rightarrow> False | Some m \<Rightarrow> m \<noteq> [] \<and> CHR 0x27 \<notin> set m)
        (concat (map (\<lambda>p. [(p, ''reading''), (p, ''setting'')]) access_prefixes)) = Some (p, o')"
    and m: "m = the (between (p @ '' ('' @ o' @ '' '' @ quote) (quote @ '')'') s)"
    using assms by (auto simp: property_access_def split: prod.splits)
  from found have mem: "(p, o') \<in> set (concat (map (\<lambda>p. [(p, ''reading''), (p, ''setting'')]) access_prefixes))"
    and some: "between (p @ '' ('' @ o' @ '' '' @ quote) (quote @ '')'') s \<noteq> None"
    using find_Some_mem[OF found] by (simp_all split: option.splits)
  have p: "p \<in> set access_prefixes" and o': "o' \<in> set [''reading'', ''setting'']"
    using mem by (auto simp del: list.map)
  have s: "s = p @ '' ('' @ o' @ '' '' @ quote @ m @ quote @ '')''"
    using some m between_eq[of "p @ '' ('' @ o' @ '' '' @ quote" "quote @ '')''" s m] by auto
  show "p @ '' ('' @ o' @ '' a property)'' \<in> set access_texts"
    unfolding access_texts_def by (rule in_concat_map2[OF p o']) (simp only: list.set insert_iff simp_thms)
  show "s \<in> set access_texts" if "m \<in> set SAFE_RUNTIME_MEMBER_NAMES"
    unfolding access_texts_def s
    by (rule in_concat_map2[OF p o']) (use that in \<open>simp only: list.set set_map, blast\<close>)
qed

lemma client_vocabulary_parts:
  "set access_texts \<subseteq> set client_vocabulary" "set SAFE_TYPE_ERROR_MESSAGES \<subseteq> set client_vocabulary"
  "set SAFE_RANGE_ERROR_MESSAGES \<subseteq> set client_vocabulary" "set SAFE_EXCEPTION_TYPES \<subseteq> set client_vocabulary"
  "set SENTRY_ERROR_SOURCES \<subseteq> set client_vocabulary" "set CLIENT_ERROR_TYPES \<subseteq> set client_vocabulary"
  "set SAFE_BROWSER_NAMES \<subseteq> set client_vocabulary" "set SAFE_OS_NAMES \<subseteq> set client_vocabulary"
  unfolding client_vocabulary_def access_texts_def set_append by blast+

lemma client_words: "set xs \<subseteq> set client_vocabulary \<Longrightarrow> t \<in> set xs \<Longrightarrow> client_text url event t"
  by (rule client_word) blast

lemma client_or_text:
  assumes "set xs \<subseteq> set client_vocabulary" and "d \<in> set xs"
  shows "client_text url event (or_text (isOneOf v xs) d)"
  using assms(1) or_text_mem[OF assms(2)] by (rule client_words)

lemma client_constants:
  "client_text url event ''javascript''"
  "client_text url event ''browser''"
  "client_text url event ''navigation''"
  "client_text url event ''error_boundary_mounted''"
  "client_text url event ''URI malformed''"
  "client_text url event ''Value is not a function''"
  "client_text url event ''Value is not iterable''"
  "client_text url event ''Identifier is not defined''"
  "client_text url event ''Cannot access identifier before initialization''"
  "client_text url event ''Client response contract violation''"
  "client_text url event ''Client transport error''"
  "client_text url event ''Unexpected client error''"
  by (rule client_word, simp add: client_vocabulary_def)+

lemma client_common: "client_text url event ''console''" "client_text url event ''unknown''" "client_text url event ''info''"
  by (rule client_word, simp add: client_vocabulary_def common_vocabulary_def SAFE_LEVELS_def)+

lemma type_error_text: "safeTypeErrorMessage s = Some t \<Longrightarrow> client_text url event t"
proof -
  assume message: "safeTypeErrorMessage s = Some t"
  show ?thesis
  proof (cases "s \<in> set SAFE_TYPE_ERROR_MESSAGES")
    case True
    then show ?thesis
      using message client_words[OF client_vocabulary_parts(2)] by (simp add: safeTypeErrorMessage_def)
  next
    case no: False
    show ?thesis
    proof (cases "property_access s")
      case None
      then have "t = ''Value is not a function'' \<or> t = ''Value is not iterable''"
        using message no by (auto simp: safeTypeErrorMessage_def split: if_splits)
      then show ?thesis
        by (elim disjE) (simp_all add: client_constants)
    next
      case (Some x)
      obtain p o' m where x: "x = (p, o', m)" by (cases x)
      have "t = (if m \<in> set SAFE_RUNTIME_MEMBER_NAMES then s else p @ '' ('' @ o' @ '' a property)'')"
        using message no unfolding safeTypeErrorMessage_def by (simp only: Some x if_False option.case prod.case option.inject)
      then have "t \<in> set access_texts"
        using property_access_text[OF Some[unfolded x]] by (cases "m \<in> set SAFE_RUNTIME_MEMBER_NAMES") (simp_all only: if_True if_False)
      then show ?thesis
        by (rule client_words[OF client_vocabulary_parts(1)])
    qed
  qed
qed

lemma runtime_error_text:
  assumes "safeRuntimeErrorMessage e v = Some t"
  shows "client_text url event t"
proof -
  obtain s where "safeTypeErrorMessage s = Some t \<or> s = t \<and> s \<in> set SAFE_RANGE_ERROR_MESSAGES \<or> t = ''URI malformed'' \<or>
      t = ''Identifier is not defined'' \<or> t = ''Cannot access identifier before initialization''"
    using assms by (auto simp: safeRuntimeErrorMessage_def split: option.splits if_splits)
  then show ?thesis
    using client_words[OF client_vocabulary_parts(3), of t url event] type_error_text[of s t url event] client_constants[of url event] by blast
qed

lemma exception_value_text: "client_text url event (client_exception_value e)"
proof -
  have "client_text url event (or_text (safeRuntimeErrorMessage x v) ''Unexpected client error'')" for x v
    by (rule or_text_P[of "client_text url event"]) (simp_all add: client_constants runtime_error_text)
  then show ?thesis
    by (simp add: client_exception_value_def safeExceptionMessage_def client_constants)
qed

lemma client_lists:
  "client_text url event (or_text (isOneOf v SAFE_EXCEPTION_TYPES) ''Error'')"
  "client_text url event (client_source v)" "client_text url event (client_error_type e)"
  "client_text url event (client_outcome src v)"
proof -
  show "client_text url event (or_text (isOneOf v SAFE_EXCEPTION_TYPES) ''Error'')"
    by (rule client_or_text[OF client_vocabulary_parts(4)]) (simp add: SAFE_EXCEPTION_TYPES_def)
  show "client_text url event (client_source v)"
    unfolding client_source_def by (rule client_or_text[OF client_vocabulary_parts(5)]) (simp add: SENTRY_ERROR_SOURCES_def)
  show "client_text url event (client_error_type e)"
    unfolding client_error_type_def by (rule client_or_text[OF client_vocabulary_parts(6)]) (simp add: CLIENT_ERROR_TYPES_def)
  show "client_text url event (client_outcome src v)"
    by (simp add: client_outcome_def client_constants client_common)
qed

lemma digest_text: "safeDigest v = Some t \<Longrightarrow> client_text url event t"
  by (simp add: safeDigest_def client_text_def split: option.splits)

lemma context_text:
  assumes "set names \<subseteq> set client_vocabulary"
  shows "opt_texts (client_text url event) (safeContext v names)"
proof (cases "isOneOf (readProperty v ''name'') names")
  case (Some name)
  have "client_text url event name"
    using assms isOneOf_mem[OF Some] by (rule client_words)
  moreover have "client_text url event t" if "short_of (\<lambda>c. c \<in> set ''0123456789.'') 32 t" for t
    using that by (simp only: client_text_def simp_thms)
  ultimately show ?thesis
    by (simp add: safeContext_def Some split: option.split)
qed (simp add: safeContext_def)

lemma before_details_split:
  "\<exists>rest. s = before_details s @ rest \<and> (rest = [] \<or> hd rest = CHR ''?'' \<or> hd rest = CHR ''#'') \<and>
    CHR ''?'' \<notin> set (before_details s) \<and> CHR ''#'' \<notin> set (before_details s)"
proof -
  let ?p = "\<lambda>c. c \<noteq> CHR ''?'' \<and> c \<noteq> CHR ''#''"
  have "s = takeWhile ?p s @ dropWhile ?p s" by simp
  moreover have "dropWhile ?p s = [] \<or> hd (dropWhile ?p s) = CHR ''?'' \<or> hd (dropWhile ?p s) = CHR ''#''"
    using hd_dropWhile [of ?p s] by blast
  moreover have "CHR ''?'' \<notin> set (takeWhile ?p s)" "CHR ''#'' \<notin> set (takeWhile ?p s)"
    by (auto dest: set_takeWhileD)
  ultimately show ?thesis unfolding before_details_def by blast
qed

lemma slice_from_sublist: "slice_from pat s \<noteq> None \<Longrightarrow> sublist pat s"
proof (induction s)
  case (Cons c s)
  then show ?case
    by (auto simp: slice_from.simps[of pat "c # s"] prefix_imp_sublist sublist_Cons_right split: if_splits)
qed (simp add: slice_from.simps[of pat "[]"] split: if_splits)

lemma filename_text:
  assumes "f \<in> set (frames_of event)" and "safeStackFilename url (readProperty (Some f) ''filename'') = Some t"
  shows "client_text url event t"
proof -
  from assms(2) obtain raw where raw: "safeStackText (readProperty (Some f) ''filename'') = Some raw"
    and sent: "if is_http (before_details raw) then url (before_details raw) = Some t \<and> slice_from ''/_next/'' t \<noteq> None
      else t = before_details raw \<and> source_file t"
    by (auto simp: safeStackFilename_def Let_def split: option.splits if_splits)
  from raw assms(1) have "stack_file event raw"
    by (auto simp: safeStackText_def stack_file_def split: option.splits elim!: as_text.elims)
  moreover obtain rest where "raw = before_details raw @ rest" "rest = [] \<or> hd rest = CHR ''?'' \<or> hd rest = CHR ''#''"
    "CHR ''?'' \<notin> set (before_details raw)" "CHR ''#'' \<notin> set (before_details raw)"
    using before_details_split [of raw] by blast
  moreover have "if prefix ''http://'' (before_details raw) \<or> prefix ''https://'' (before_details raw)
       then url (before_details raw) = Some t \<and> sublist ''/_next/'' t
       else t = before_details raw \<and> (prefix ''/_next/'' t \<or> prefix ''_next/'' t \<or> prefix ''src/'' t \<or> prefix ''./'' t \<or> prefix ''../'' t \<or>
         prefix ''webpack-internal:///'' t \<or> prefix ''turbopack:///'' t \<or> t = ''<anonymous>'')"
  proof (cases "is_http (before_details raw)")
    case True
    with sent have "url (before_details raw) = Some t" "slice_from ''/_next/'' t \<noteq> None" by simp_all
    with True slice_from_sublist [of "''/_next/''" t] show ?thesis unfolding is_http_def by simp
  next
    case False
    from sent have "t = before_details raw" "source_file t" unfolding if_not_P [OF False] by blast+
    with False show ?thesis unfolding is_http_def source_file_def by simp
  qed
  ultimately have "sent_file url event t"
    unfolding sent_file_def by (metis (no_types, lifting))
  then show ?thesis
    by (simp add: client_text_def)
qed

lemma breadcrumb_texts: "sanitizeClientBreadcrumb url b = Some j \<Longrightarrow> all_texts (client_text url event) j"
proof -
  assume b: "sanitizeClientBreadcrumb url b = Some j"
  have route: "client_text url event t" if "map_option fst (getSentryRouteMetadata url v) = Some t" for v t
    using that client.route(1) by auto
  have level: "client_text url event ''info''" "client_text url event ''navigation''"
    by (rule client_common client_constants)+
  show ?thesis
    using b route level client.number
    by (auto simp: sanitizeClientBreadcrumb_def Let_def text_member_def split: if_splits)
qed

lemma client_tags_texts: "all_texts (client_text url event) (client_tags url e)"
proof -
  have route: "client_text url event a" "client_text url event b" if "getSentryRouteMetadata url v = Some (a, b)" for v a b
    using client.route[OF that] by simp_all
  show ?thesis
    using route client_constants client_common client_lists digest_text
    unfolding client_tags_def Let_def
    by (auto simp: text_member_def split: option.splits)
qed

lemma client_contexts_texts: "opt_texts (client_text url event) (client_contexts e)"
proof -
  have "opt_texts (client_text url event) (map_option (\<lambda>r. JObj [(''request_id'', JStr r)]) (correlation_id e))"
    using client.correlation by (cases "correlation_id e") simp_all
  then show ?thesis
    using context_text[OF client_vocabulary_parts(7)] context_text[OF client_vocabulary_parts(8)]
    by (simp add: client_contexts_def Let_def)
qed

lemma client_breadcrumbs_texts: "j \<in> set (client_breadcrumbs url e) \<Longrightarrow> all_texts (client_text url event) j"
  using breadcrumb_texts by (auto simp: client_breadcrumbs_def split: option.splits)

lemma client_stack_texts: "opt_texts (client_text url event) (safeStacktrace url (safeStackFilename url) event)"
  using filename_text by (rule client.stacktrace)

text \<open>The event with the properties that the browser's projection reads, and of the trail only the navigations.\<close>

definition client_view :: "json option \<Rightarrow> json" where
  "client_view event = obj (read_of event [''event_id'', ''timestamp'', ''level'', ''environment'', ''release'', ''debug_meta'', ''tags'', ''contexts''] @
    [(''exception'', map_option (\<lambda>x. JObj [(''values'', JArr [obj (read_of (Some x) [''type'', ''value'', ''stacktrace''])])]) (last_exception event)),
     (''breadcrumbs'', map_option (\<lambda>bs. JArr (filter (\<lambda>b. as_text (readProperty (Some b) ''category'') = Some ''navigation'') bs))
       (as_array (readProperty event ''breadcrumbs'')))])"

lemma client_view_reads:
  "k \<in> set [''event_id'', ''timestamp'', ''level'', ''environment'', ''release'', ''debug_meta'', ''tags'', ''contexts''] \<Longrightarrow>
    readProperty (Some (client_view event)) k = readProperty event k"
  unfolding client_view_def read_of_def by (subst readProperty_obj) auto

lemma client_view_exception:
  "k \<in> set [''type'', ''value'', ''stacktrace''] \<Longrightarrow>
    readProperty (last_exception (Some (client_view event))) k = readProperty (last_exception event) k"
proof -
  assume k: "k \<in> set [''type'', ''value'', ''stacktrace'']"
  have "readProperty (Some (client_view event)) ''exception'' =
      map_option (\<lambda>x. JObj [(''values'', JArr [obj (read_of (Some x) [''type'', ''value'', ''stacktrace''])])]) (last_exception event)"
    unfolding client_view_def by (subst readProperty_obj) (auto simp: read_of_def split: option.split)
  moreover have "readProperty (Some (obj (read_of (Some x) [''type'', ''value'', ''stacktrace'']))) k = readProperty (Some x) k" for x
    using k unfolding read_of_def by (subst readProperty_obj) auto
  ultimately show ?thesis
    by (cases "last_exception event") (simp_all add: last_exception_def[of "Some _"] jprop_def given_def)
qed

lemma client_view_breadcrumbs: "client_breadcrumbs url (Some (client_view event)) = client_breadcrumbs url event"
proof -
  have "readProperty (Some (client_view event)) ''breadcrumbs'' =
      map_option (\<lambda>bs. JArr (filter (\<lambda>b. as_text (readProperty (Some b) ''category'') = Some ''navigation'') bs))
       (as_array (readProperty event ''breadcrumbs''))"
    unfolding client_view_def read_of_def by (subst readProperty_obj) (auto split: option.split)
  moreover have "concat (map (\<lambda>b. case sanitizeClientBreadcrumb url b of None \<Rightarrow> [] | Some j \<Rightarrow> [j])
        (filter (\<lambda>b. as_text (readProperty (Some b) ''category'') = Some ''navigation'') bs)) =
      concat (map (\<lambda>b. case sanitizeClientBreadcrumb url b of None \<Rightarrow> [] | Some j \<Rightarrow> [j]) bs)" for bs
    by (induction bs) (auto simp: sanitizeClientBreadcrumb_def)
  ultimately show ?thesis
    by (cases "as_array (readProperty event ''breadcrumbs'')") (simp_all add: client_breadcrumbs_def)
qed

lemma client_view_same: "sanitizeClientSentryEvent url (Some (client_view event)) = sanitizeClientSentryEvent url event"
proof -
  note read = client_view_reads[of _ event] client_view_exception[of _ event]
  have tag: "safeTag (Some (client_view event)) = safeTag event"
    by (rule ext) (simp add: safeTag_def read)
  have parts: "client_error_type (Some (client_view event)) = client_error_type event"
    "client_tags url (Some (client_view event)) = client_tags url event"
    unfolding client_tags_def client_error_type_def tag by (rule refl)+
  have "client_exception_type (Some (client_view event)) = client_exception_type event"
    by (simp add: client_exception_type_def read)
  moreover from this have "client_exception_value (Some (client_view event)) = client_exception_value event"
    by (simp add: client_exception_value_def parts read)
  moreover have "client_contexts (Some (client_view event)) = client_contexts event"
    by (simp add: client_contexts_def correlation_id_def read)
  moreover have "toSafeSentryBuildMetadata url (Some (client_view event)) = toSafeSentryBuildMetadata url event"
    by (simp add: toSafeSentryBuildMetadata_def safeDebugMeta_def read)
  moreover have "safeStacktrace url (safeStackFilename url) (Some (client_view event)) = safeStacktrace url (safeStackFilename url) event"
    by (simp add: safeStacktrace_def read)
  ultimately show ?thesis
    unfolding sanitizeClientSentryEvent_def by (simp only: parts client_view_breadcrumbs read list.set insert_iff simp_thms)
qed


end
