(* ===== verification/Spec2Isabelle.thy ===== *)
theory Spec2Isabelle imports ContentFlow Waveform OperatorSessions AdminEditor Publications Viewer MfaLimiter SafeEvents begin

text \<open>
  OiOiBawige is a cheer-guide service: fans read the lyrics of a song together with what to shout and
  when.  The repository is a TypeScript monorepo.  This development models its server
  (\<open>packages/server/src\<close>: services, repositories, authentication, database schema), the contracts
  (\<open>packages/contracts/src\<close>) that the server checks and answers with, and the lyrics editor of the
  administrators' console (\<open>apps/console/src/features/manage-lyrics\<close>) with the way of a save from the
  editor to the database.

  \<^bold>\<open>Parts and how they interact.\<close>  A request reaches a service with a request context (who asks, and
  what CASL allows).  The service checks the context, reads and writes PostgreSQL tables through
  repository functions, inside a transaction where it needs one, and answers or throws.  The tables are
  the only shared state: \<open>db\<close> of theory \<open>Schema\<close> is one record with a list of rows per table.  A use case
  is a function from its inputs and a \<open>db\<close> to \<open>(failure + result) \<times> db\<close>; \<open>transaction\<close> (theory
  \<open>Prelude\<close>) rolls a throwing callback back.  Statements that the code runs outside a transaction after
  an earlier read take the earlier state as an argument of its own (\<open>seen\<close>), so that the properties hold
  for every interleaving with other requests.

  \<^bold>\<open>Theories.\<close>
  \<^item> \<open>Prelude\<close>: the statement shapes of the repositories (select by key, conditional update with its
    returned rows, conditional delete), transactions, text trimming, and the locales \<open>versioned\<close>
    (optimistic version claims), \<open>numbered_history\<close> (append-only numbered rows) and \<open>one_shot\<close>
    (single-use transitions).
  \<^item> \<open>Access\<close>: \<open>contracts/error.ts\<close>, \<open>authorization.ts\<close>, \<open>auth/ability.ts\<close>, \<open>auth/request-context.ts\<close>,
    \<open>repository-error.ts\<close>; the locales \<open>guarded\<close> and \<open>atomic_use_case\<close>, which every administrative use
    case of the services is shown to satisfy.
  \<^item> \<open>Lyrics\<close>: \<open>contracts/song.ts\<close> over a JSON type, and the LRC reader of \<open>song-service.ts\<close>.
  \<^item> \<open>Schema\<close>: \<open>db/schema.ts\<close>, a record per table and a predicate per CHECK constraint.
  \<^item> \<open>GuideStore\<close>, \<open>Guides\<close>, \<open>GuideServices\<close>: \<open>cheer-guide-repository.ts\<close>, the four cheer-guide
    services, and their properties: a guide has a working draft and a history of numbered snapshots and
    publications; every write claims the guide's lock version.
  \<^item> \<open>Songs\<close>, \<open>Albums\<close>, \<open>GuideImport\<close>: \<open>song-service.ts\<close>, \<open>song-repository.ts\<close>, \<open>album-service.ts\<close>,
    \<open>album-repository.ts\<close>, \<open>operator-song-service.ts\<close>, \<open>cheer-guide-import-service.ts\<close> and its
    repository.
  \<^item> \<open>ContentFlow\<close>: all content requests as the step relation \<open>content_step\<close>; the invariant of the content
    tables and the monotonicity of the histories along any sequence of requests.
  \<^item> \<open>Notifications\<close>: \<open>notification-service.ts\<close>, \<open>push-installation-service.ts\<close>,
    \<open>notification-delivery-service.ts\<close> and their repositories.
  \<^item> \<open>Waveform\<close>: \<open>waveform-service.ts\<close>, \<open>waveform-repository.ts\<close>, \<open>contracts/waveform.ts\<close>; jobs are taken by
    a runner, reported on, and announce their end to the administrators that asked.
  \<^item> \<open>EmailVerification\<close>, \<open>Accounts\<close>: one-time codes, sign-up and password sign-in
    (\<open>email-verification-service.ts\<close>, \<open>signup-service.ts\<close>, \<open>authentication-service.ts\<close>, repositories).
  \<^item> \<open>MfaCrypto\<close>, \<open>Mfa\<close>: \<open>auth/admin-mfa-crypto.ts\<close>, \<open>auth/admin-mfa-totp.ts\<close>,
    \<open>console-mfa-service.ts\<close>, \<open>console-mfa-revocation-service.ts\<close>,
    \<open>console-admin-bootstrap-service.ts\<close>, \<open>admin-mfa-repository.ts\<close>.
  \<^item> \<open>MfaLimiter\<close>: \<open>console-mfa-limiter.ts\<close> of the console, the reservation of attempts per account and
    address; requests interleave at every await.
  \<^item> \<open>OperatorSessions\<close>: \<open>operator-auth-service.ts\<close>, \<open>operator-session-repository.ts\<close>: grants, approvals and
    tokens of operator tools.
  \<^item> \<open>Publications\<close>: \<open>policy-service.ts\<close>, \<open>publication-service.ts\<close>, their repositories and contracts: what
    readers get of the service's policies, notices and updates.
  \<^item> \<open>Lrc\<close>: \<open>manage-lyrics/lib/lrc-parser.ts\<close>, the clock format of the editor and the import and export
    of LRC files; \<open>Digits\<close> has the decimal digits that it and the one-time codes share.
  \<^item> \<open>EditorNotes\<close>, \<open>NoteSelection\<close>: \<open>lib/editor-notes.ts\<close> and \<open>lib/note-selection.ts\<close>.  The editor
    shows lyrics as bars on a time axis; a bar is a segment with its place, and an edit of one bar or of
    a selection returns new lines.  Both edits are shown to refine operations on the plain list of bars.
  \<^item> \<open>LyricsEditor\<close>: \<open>model/useLyricsEditor.ts\<close>, the draft with its undo and redo lists.  The cells of the
    hook are the fields of a record, and an operation reads the state that was rendered last.
  \<^item> \<open>AdminEditor\<close>: \<open>model/useAdminEditor.ts\<close>, \<open>shared/model/useAdWatcher.ts\<close>, the two pages that use
    them and the routes that they save through; the step relation \<open>lone_step\<close> runs an editor page next
    to the database; a request can be refused before it runs, and the answer of one that ran can be lost.
  \<^item> \<open>AdWatcher\<close>: \<open>shared/model/useAdWatcher.ts\<close> of both apps.
  \<^item> \<open>Viewer\<close>: \<open>apps/web/src/features/chant-sync\<close>, what a fan sees while the song plays: the current cue, the
    shown guide, the highlighted position over any sequence of events, and the drawing of the lines.
  \<^item> \<open>SafeRoutes\<close>, \<open>SafeEvents\<close>: the console's filters for its error tracker, \<open>admin-routes.ts\<close>,
    \<open>sentry-route-metadata.ts\<close>, \<open>observability-correlation.ts\<close>, \<open>sentry-build-metadata.ts\<close>,
    \<open>safe-server-event.ts\<close> and \<open>client-sentry-policy.ts\<close>: an event is rebuilt from an allow list, and the
    locale \<open>allowed_texts\<close> has what the two filters share.
  \<^item> \<open>Sample\<close>: concrete rows on which witnesses evaluate.

  \<^bold>\<open>What the lemmas show.\<close>  For every table group a well-formedness predicate (\<open>guides_wf\<close>, \<open>content_wf\<close>,
  \<open>waveforms_wf\<close>, \<open>otp_ok\<close>, \<open>accounts_ok\<close>, \<open>mfas_ok\<close>, \<open>sessions_ok\<close>) that holds the constraints of the schema
  and what the code relies on beyond them, and that every operation preserves, as invariants of step
  relations over any sequence of requests.  For every use case its result and effect on success, and
  that a refusal leaves no trace.  Beyond that: no lost updates between editors; drafts stay private until
  they are published; what readers get is exactly the current publication; a job's result is applied once,
  to the song it belongs to, and announced once; a delivery is sent by one dispatcher at a time, to a
  browser that is still eligible; a code can be guessed five times and requested five times an hour; a
  time-based password is used once per time step; tokens end with the account's MFA version; however
  sign-ins interleave, five failed attempts per account and window pass.  For the editor: every
  edit keeps lyrics that the contract accepts, undo and redo are inverse and refine a stack of states, no
  sequence of moves takes a bar out of the recording, and a page that says it is saved shows what the
  database holds.  For the fan: the highlighted cue is the one that started last, and every line can be drawn
  whatever happens to the page.  For telemetry: nothing but fixed texts, identifiers of fixed format and names
  of program files and functions leaves the console.

  \<^bold>\<open>Bounds.\<close>  The dispatcher's loop is the code's own bound of 20 iterations; reading all notification
  pages takes at most one page more than there are notifications; the allocation of a grant has the code's
  three attempts.  The editor keeps the code's own 50 undo states, so that undoing and redoing a run of
  operations is stated for at most 49 of them.  No other fuel is used: every definition is a total
  function.

  \<^bold>\<open>Assumptions.\<close>  JavaScript numbers that the code computes with are exact (rationals, integers or naturals);
  the editor's times are rationals on the grids that the code rounds to, and a time that is not finite is
  \<open>None\<close>; texts are lists of characters.  \<open>int4\<close> overflow of counters, lock waits and statement time-outs are not
  modelled, and neither is the order PostgreSQL gives rows with equal sort keys where the code does not
  determine it.  Texts stand for their UTF-8 bytes, and \<open>trim\<close> knows the white space of ASCII only.  Clocks, random draws and new identifiers are arguments; new identifiers (UUID version 7)
  are assumed not to collide where a statement says so.  Code outside the repository is a parameter:
  CASL (\<open>casl\<close>, documented by \<open>casl_documented\<close>), argon2 (\<open>argon2_documented\<close>), AES-256-GCM
  (\<open>gcm_documented\<close>), HMAC and SHA-256, the TOTP check of otplib (\<open>totp_documented\<close>), the
  rate limiter of rate-limiter-flexible (\<open>limiter_documented\<close>, for the duration the console uses), the mail and push transports, zod's URL
  and email syntax, the URL parser of the platform.  Each property with such a hypothesis has a witness with a concrete function.

  \<^bold>\<open>Not modelled.\<close>  Image upload and mail templates (calls to external services); the markup of
  \<open>apps/web\<close> and \<open>apps/console\<close> and the hooks and route handlers that only carry values between it and
  the services; \<open>parseTime\<close> of the LRC reader, which nothing calls; the copy of the telemetry filters in \<open>apps/web\<close> (other
  lists of names), the Slack relay, and the tooling around processes and cloud interfaces.
\<close>

end
